(* ===== verification/Phl_Prelude.thy ===== *)
theory Phl_Prelude
  imports Main "HOL-Library.Word"
begin

text \<open>
  Shared vocabulary of the development: the C integer types of
  \<^verbatim>\<open>phl/phl_types.h\<close> as words of their width, the status codes every PHL
  operation returns (\<^verbatim>\<open>phl/phl_status.h\<close>), pointers into the intrusive
  doubly linked lists of \<^verbatim>\<open>phl/phl_list.h\<close>, and the generic facts about words
  and lists on which the component theories rest.
\<close>

unbundle bit_operations_syntax

section \<open>Machine integers\<close>

type_synonym u8 = "8 word"
type_synonym u16 = "16 word"
type_synonym u32 = "32 word"
type_synonym u64 = "64 word"
type_synonym bytes = "8 word list"

text \<open>\<^verbatim>\<open>BIT(n)\<close> of the drivers' headers: the single bit \<open>n\<close>.\<close>

abbreviation BIT :: "nat \<Rightarrow> 'a::len word" where
  "BIT n \<equiv> push_bit n 1"

section \<open>Collections of facts\<close>

named_theorems wf_intros \<open>operations keep the well-formedness invariant of their component\<close>
named_theorems op_defs \<open>unfolding of the operations of a component\<close>

section \<open>Status codes\<close>

datatype rtw_phl_status =
    RTW_PHL_STATUS_SUCCESS
  | RTW_PHL_STATUS_FAILURE
  | RTW_PHL_STATUS_RESOURCE
  | RTW_PHL_STATUS_HAL_INIT_FAILURE
  | RTW_PHL_STATUS_PENDING
  | RTW_PHL_STATUS_FRAME_DROP
  | RTW_PHL_STATUS_INVALID_PARAM
  | RTW_PHL_STATUS_CMD_TIMEOUT
  | RTW_PHL_STATUS_CMD_ERROR
  | RTW_PHL_STATUS_CMD_DROP
  | RTW_PHL_STATUS_CMD_CANNOT_IO
  | RTW_PHL_STATUS_CMD_SUCCESS
  | RTW_PHL_STATUS_UNEXPECTED_ERROR
  | RTW_PHL_STATUS_CANNOT_IO

section \<open>Pointers into an intrusive list\<close>

text \<open>
  A \<^verbatim>\<open>_os_list *\<close> that walks a list is null, points at the list's head, or points
  at the node embedded in some object.
\<close>

datatype 'a os_list_ptr = PNull | PHead | PNode 'a

section \<open>Words\<close>

lemma unat_u16_less: "unat (x :: u16) < 65536"
  using unsigned_less [of x] by simp

lemma unat_u32_less: "unat (x :: u32) < 4294967296"
  using unsigned_less [of x] by simp

lemma unat_u8_less: "unat (x :: u8) < 256"
  using unsigned_less [of x] by simp

text \<open>Masking with \<open>2 ^ n - 1\<close> is reduction modulo \<open>2 ^ n\<close>.\<close>

lemma unat_and_mask_mod: "unat (x AND mask n) = unat x mod 2 ^ n" for x :: "'a::len word"
  by (metis take_bit_eq_mask take_bit_eq_mod unsigned_take_bit_eq)

lemma bit_BIT_iff: "bit (BIT m :: 'a::len word) n \<longleftrightarrow> m = n \<and> n < LENGTH('a)"
  by (auto simp: bit_simps)

lemma word_and_BIT_neq_0_iff:
  "x AND BIT n \<noteq> 0 \<longleftrightarrow> bit x n" for x :: "'a::len word"
proof
  assume "x AND BIT n \<noteq> 0"
  then obtain m where "bit (x AND BIT n) m"
    by (metis bit_eq_iff bit_0_eq bot_apply bot_bool_def)
  then show "bit x n" by (auto simp: bit_simps)
next
  assume b: "bit x n"
  then have "n < LENGTH('a)" by (rule bit_imp_le_length)
  with b have "bit (x AND BIT n) n" by (simp add: bit_simps)
  then show "x AND BIT n \<noteq> 0" by auto
qed

section \<open>Lists\<close>

lemma length_remove1_int:
  "x \<in> set xs \<Longrightarrow> int (length (remove1 x xs)) = int (length xs) - 1"
  using length_pos_if_in_set [of x xs] by (simp add: length_remove1 Suc_leI)

text \<open>Number of occupied slots of an array of pointers.\<close>

definition occupied :: "'a option list \<Rightarrow> nat" where
  "occupied xs = length (filter (\<lambda>x. x \<noteq> None) xs)"

lemma occupied_replicate_None [simp]: "occupied (replicate n None) = 0"
  by (simp add: occupied_def)

lemma occupied_fill:
  assumes "i < length xs" and "xs ! i = None"
  shows "occupied (xs[i := Some y]) = Suc (occupied xs)"
  using assms unfolding occupied_def
proof (induction xs arbitrary: i)
  case (Cons x xs)
  then show ?case by (cases i) auto
qed simp

lemma occupied_clear:
  assumes "i < length xs" and "xs ! i \<noteq> None"
  shows "Suc (occupied (xs[i := None])) = occupied xs"
  using assms unfolding occupied_def
proof (induction xs arbitrary: i)
  case (Cons x xs)
  then show ?case by (cases i) auto
qed simp

lemma occupied_0_iff: "occupied xs = 0 \<longleftrightarrow> (\<forall>i < length xs. xs ! i = None)"
  unfolding occupied_def by (auto simp: filter_empty_conv all_set_conv_all_nth)

lemma occupied_le_length: "occupied xs \<le> length xs"
  by (simp add: occupied_def)

end
