(* ===== verification/Phl_Macid.thy ===== *)
theory Phl_Macid
  imports Phl_Prelude
begin

text \<open>
  MAC id management, the first section of \<^verbatim>\<open>phl/phl_sta.c\<close>: 32-bit word bitmaps over
  256 ids (all used ids, broadcast ids, one map per wifi role), the table from ids to stations,
  and the broadcast id of each role. The bitmaps implement sets of ids; the laws they satisfy are
  stated as a locale and the operations of the section are analysed through its lemmas.
\<close>

section \<open>Bitmaps\<close>

type_synonym macid_map = "u32 list"

definition phl_macid_is_used :: "macid_map \<Rightarrow> u16 \<Rightarrow> bool" where
  "phl_macid_is_used mp mid0 =
     (let map_idx = unat mid0 div 32 in mp ! map_idx AND BIT (unat mid0 mod 32) \<noteq> 0)"

definition phl_macid_map_set :: "macid_map \<Rightarrow> u16 \<Rightarrow> macid_map" where
  "phl_macid_map_set mp mid0 =
     (let map_idx = unat mid0 div 32 in mp[map_idx := mp ! map_idx OR BIT (unat mid0 mod 32)])"

definition phl_macid_map_clr :: "macid_map \<Rightarrow> u16 \<Rightarrow> macid_map" where
  "phl_macid_map_clr mp mid0 =
     (let map_idx = unat mid0 div 32 in mp[map_idx := mp ! map_idx AND NOT (BIT (unat mid0 mod 32))])"

text \<open>The interface: a set of ids with membership, insertion and removal.\<close>

locale id_set =
  fixes invar :: "'s \<Rightarrow> bool"
    and valid :: "'i \<Rightarrow> bool"
    and member :: "'s \<Rightarrow> 'i \<Rightarrow> bool"
    and ins :: "'s \<Rightarrow> 'i \<Rightarrow> 's"
    and del :: "'s \<Rightarrow> 'i \<Rightarrow> 's"
  assumes invar_ins: "invar s \<Longrightarrow> valid i \<Longrightarrow> invar (ins s i)"
    and invar_del: "invar s \<Longrightarrow> valid i \<Longrightarrow> invar (del s i)"
    and member_ins: "invar s \<Longrightarrow> valid i \<Longrightarrow> valid j \<Longrightarrow> member (ins s i) j \<longleftrightarrow> j = i \<or> member s j"
    and member_del: "invar s \<Longrightarrow> valid i \<Longrightarrow> valid j \<Longrightarrow> member (del s i) j \<longleftrightarrow> j \<noteq> i \<and> member s j"
begin

definition elems :: "'s \<Rightarrow> 'i set" where
  "elems s = {i. valid i \<and> member s i}"

lemma elems_ins: "invar s \<Longrightarrow> valid i \<Longrightarrow> elems (ins s i) = insert i (elems s)"
  by (auto simp: elems_def member_ins)

lemma elems_del: "invar s \<Longrightarrow> valid i \<Longrightarrow> elems (del s i) = elems s - {i}"
  by (auto simp: elems_def member_del)

lemma ins_del_restores:
  "invar s \<Longrightarrow> valid i \<Longrightarrow> \<not> member s i \<Longrightarrow> elems (del (ins s i) i) = elems s"
  by (auto simp: elems_ins elems_del invar_ins) (auto simp: elems_def)

end

definition macid_map_wf :: "macid_map \<Rightarrow> bool" where
  "macid_map_wf mp \<longleftrightarrow> length mp = 8"

definition macid_valid :: "u16 \<Rightarrow> bool" where
  "macid_valid mid0 \<longleftrightarrow> unat mid0 < 256"

lemma is_used_bit:
  "phl_macid_is_used mp mid0 \<longleftrightarrow> bit (mp ! (unat mid0 div 32)) (unat mid0 mod 32)"
  unfolding phl_macid_is_used_def Let_def by (rule word_and_BIT_neq_0_iff)

lemma macid_eq_iff: "mid0 = mid0' \<longleftrightarrow> unat mid0 div 32 = unat mid0' div 32 \<and> unat mid0 mod 32 = unat mid0' mod 32"
  for mid0 mid0' :: u16
  by (metis div_mult_mod_eq word_unat_eq_iff)

lemma is_used_set:
  assumes "macid_map_wf mp" and "macid_valid mid0" and "macid_valid mid0'"
  shows "phl_macid_is_used (phl_macid_map_set mp mid0) mid0' \<longleftrightarrow> mid0' = mid0 \<or> phl_macid_is_used mp mid0'"
proof (cases "unat mid0' div 32 = unat mid0 div 32")
  case True
  have "unat mid0 div 32 < length mp" using assms by (simp add: macid_map_wf_def macid_valid_def)
  with True show ?thesis
    using macid_eq_iff [of mid0' mid0]
    by (auto simp: is_used_bit phl_macid_map_set_def Let_def bit_or_iff bit_BIT_iff simp del: push_bit_of_1)
next
  case False
  then show ?thesis using macid_eq_iff [of mid0' mid0]
    by (auto simp: is_used_bit phl_macid_map_set_def Let_def)
qed

lemma is_used_clr:
  assumes "macid_map_wf mp" and "macid_valid mid0" and "macid_valid mid0'"
  shows "phl_macid_is_used (phl_macid_map_clr mp mid0) mid0' \<longleftrightarrow> mid0' \<noteq> mid0 \<and> phl_macid_is_used mp mid0'"
proof (cases "unat mid0' div 32 = unat mid0 div 32")
  case True
  have "unat mid0 div 32 < length mp" using assms by (simp add: macid_map_wf_def macid_valid_def)
  with True show ?thesis
    using macid_eq_iff [of mid0' mid0]
    by (auto simp: is_used_bit phl_macid_map_clr_def Let_def bit_and_iff bit_not_iff bit_BIT_iff
        simp del: push_bit_of_1)
next
  case False
  then show ?thesis using macid_eq_iff [of mid0' mid0]
    by (auto simp: is_used_bit phl_macid_map_clr_def Let_def)
qed

lemma macid_map_wf_set [simp]: "macid_map_wf (phl_macid_map_set mp mid0) = macid_map_wf mp"
  by (simp add: macid_map_wf_def phl_macid_map_set_def Let_def)

lemma macid_map_wf_clr [simp]: "macid_map_wf (phl_macid_map_clr mp mid0) = macid_map_wf mp"
  by (simp add: macid_map_wf_def phl_macid_map_clr_def Let_def)

interpretation mm: id_set macid_map_wf macid_valid phl_macid_is_used phl_macid_map_set phl_macid_map_clr
  by unfold_locales (simp_all add: is_used_set is_used_clr)

section \<open>The macid control block\<close>

text \<open>
  Stations are object identities \<open>'s\<close>; roles are their index. The lists are the C arrays:
  eight words per map, 256 station pointers, one map and one broadcast id per role.
\<close>

record 's g6_macid_ctl_t =
  used_map :: macid_map
  bmc_map :: macid_map
  wifi_role_usedmap :: "macid_map list"
  wrole_bmc :: "u16 list"
  mc_sta :: "'s option list"
  max_num :: u16

abbreviation PHL_MACID_MAX_NUM :: u16 where
  "PHL_MACID_MAX_NUM \<equiv> 256"

text \<open>\<open>n\<close> is \<^verbatim>\<open>MAX_WIFI_ROLE_NUMBER\<close>; the block was zeroed when it was allocated.\<close>

definition macid_ctl_zero :: "nat \<Rightarrow> 's g6_macid_ctl_t" where
  "macid_ctl_zero n =
     \<lparr>used_map = replicate 8 0, bmc_map = replicate 8 0, wifi_role_usedmap = replicate n (replicate 8 0),
      wrole_bmc = replicate n 0, mc_sta = replicate 256 None, max_num = 0\<rparr>"

definition phl_macid_ctrl_init ::
  "u16 \<Rightarrow> 's g6_macid_ctl_t \<Rightarrow> rtw_phl_status \<times> 's g6_macid_ctl_t" where
  "phl_macid_ctrl_init hal_macid_num mc =
     (if hal_macid_num = 0 then (RTW_PHL_STATUS_FAILURE, mc)
      else
        let mc = mc\<lparr>max_num := min hal_macid_num PHL_MACID_MAX_NUM\<rparr>
        in (RTW_PHL_STATUS_SUCCESS, mc\<lparr>wrole_bmc := map (\<lambda>_. max_num mc) (wrole_bmc mc)\<rparr>))"

definition phl_macid_ctrl_deinit :: "'s g6_macid_ctl_t \<Rightarrow> rtw_phl_status \<times> 's g6_macid_ctl_t" where
  "phl_macid_ctrl_deinit mc = (RTW_PHL_STATUS_SUCCESS, mc\<lparr>max_num := 0\<rparr>)"

definition phl_wrole_bcmc_id_set :: "'s g6_macid_ctl_t \<Rightarrow> nat \<Rightarrow> u16 \<Rightarrow> 's g6_macid_ctl_t" where
  "phl_wrole_bcmc_id_set mc wrole_id mid0 = mc\<lparr>wrole_bmc := (wrole_bmc mc)[wrole_id := mid0]\<rparr>"

definition bc_addr :: bytes where
  "bc_addr = [0xff, 0xff, 0xff, 0xff, 0xff, 0xff]"

text \<open>The scan of \<^verbatim>\<open>_phl_alloc_macid\<close>: the first id from \<open>mid\<close> on that is free.\<close>

function alloc_macid_scan :: "macid_map \<Rightarrow> u16 \<Rightarrow> u16 \<Rightarrow> u16" where
  "alloc_macid_scan mp max_macid_num mid =
     (if mid < max_macid_num \<and> phl_macid_is_used mp mid
      then alloc_macid_scan mp max_macid_num (mid + 1) else mid)"
  by pat_completeness auto
termination
proof (relation "measure (\<lambda>(mp, n, mid). unat n - unat mid)", goal_cases)
  case (2 mp n mid)
  then have lt: "unat mid < unat n" by (simp add: word_less_nat_alt)
  then have "unat (mid + 1) = unat mid + 1"
    using unat_u16_less [of n] by (subst unat_word_ariths) simp
  with lt show ?case by simp
qed simp

declare alloc_macid_scan.simps [simp del]

text \<open>
  \<^verbatim>\<open>_phl_alloc_macid\<close> for the station object \<open>sta\<close> with its role and address; the second
  component is the value stored in \<^verbatim>\<open>phl_sta->macid\<close> (none when the call returns early).
\<close>

definition phl_alloc_macid ::
  "'s g6_macid_ctl_t \<Rightarrow> 's \<Rightarrow> nat option \<Rightarrow> bytes \<Rightarrow>
   rtw_phl_status \<times> u16 option \<times> 's g6_macid_ctl_t" where
  "phl_alloc_macid mc sta wrole mac_addr =
     (case wrole of
        None \<Rightarrow> (RTW_PHL_STATUS_FAILURE, None, mc)
      | Some role_id \<Rightarrow>
          let bmc_sta = (bc_addr = mac_addr);
              mid = alloc_macid_scan (used_map mc) (max_num mc) 0
          in
          if mid = max_num mc then (RTW_PHL_STATUS_FAILURE, Some (max_num mc), mc)
          else
            let mc = mc\<lparr>used_map := phl_macid_map_set (used_map mc) mid,
                       wifi_role_usedmap := (wifi_role_usedmap mc)
                         [role_id := phl_macid_map_set (wifi_role_usedmap mc ! role_id) mid],
                       mc_sta := (mc_sta mc)[unat mid := Some sta]\<rparr>;
                mc = (if bmc_sta then
                        phl_wrole_bcmc_id_set (mc\<lparr>bmc_map := phl_macid_map_set (bmc_map mc) mid\<rparr>) role_id mid
                      else mc)
            in (RTW_PHL_STATUS_SUCCESS, Some mid, mc))"

text \<open>
  \<^verbatim>\<open>_phl_release_macid\<close> of a station with the given role, address and macid; afterwards its
  macid is \<^verbatim>\<open>max_num\<close> on every path.
\<close>

definition phl_release_macid ::
  "'s g6_macid_ctl_t \<Rightarrow> nat \<Rightarrow> bytes \<Rightarrow> u16 \<Rightarrow> rtw_phl_status \<times> u16 \<times> 's g6_macid_ctl_t" where
  "phl_release_macid mc role_id mac_addr macid =
     (let invalid_macid = max_num mc in
      if macid \<ge> invalid_macid then (RTW_PHL_STATUS_FAILURE, invalid_macid, mc)
      else if \<not> phl_macid_is_used (used_map mc) macid then (RTW_PHL_STATUS_FAILURE, invalid_macid, mc)
      else
        let mc = mc\<lparr>used_map := phl_macid_map_clr (used_map mc) macid,
                   wifi_role_usedmap := (wifi_role_usedmap mc)
                     [role_id := phl_macid_map_clr (wifi_role_usedmap mc ! role_id) macid],
                   mc_sta := (mc_sta mc)[unat macid := None]\<rparr>;
            mc = (if bc_addr = mac_addr then mc\<lparr>bmc_map := phl_macid_map_clr (bmc_map mc) macid\<rparr> else mc)
        in (RTW_PHL_STATUS_SUCCESS, invalid_macid, mc))"

definition rtw_phl_wrole_bcmc_id_get :: "'s g6_macid_ctl_t \<Rightarrow> nat \<Rightarrow> u16" where
  "rtw_phl_wrole_bcmc_id_get mc role_id = wrole_bmc mc ! role_id"

definition rtw_phl_get_macid_max_num :: "'s g6_macid_ctl_t \<Rightarrow> u16" where
  "rtw_phl_get_macid_max_num mc = max_num mc"

definition rtw_phl_macid_is_bmc :: "'s g6_macid_ctl_t \<Rightarrow> u16 \<Rightarrow> bool" where
  "rtw_phl_macid_is_bmc mc macid =
     (if macid \<ge> max_num mc then True else phl_macid_is_used (bmc_map mc) macid)"

definition rtw_phl_macid_is_used :: "'s g6_macid_ctl_t \<Rightarrow> u16 \<Rightarrow> bool" where
  "rtw_phl_macid_is_used mc macid =
     (if macid \<ge> max_num mc then True else phl_macid_is_used (used_map mc) macid)"

text \<open>
  The loops over the roles: \<open>iface_bmp\<close> is nonzero once a role uses the id. The C code
  remembers the role in an 8-bit map; only whether it is zero matters.
\<close>

fun wrole_shared_loop :: "macid_map list \<Rightarrow> u16 \<Rightarrow> nat \<Rightarrow> u8 \<Rightarrow> bool" where
  "wrole_shared_loop [] macid i iface_bmp = False"
| "wrole_shared_loop (m # ms) macid i iface_bmp =
     (if phl_macid_is_used m macid then
        if iface_bmp \<noteq> 0 then True else wrole_shared_loop ms macid (Suc i) (iface_bmp OR BIT i)
      else wrole_shared_loop ms macid (Suc i) iface_bmp)"

definition rtw_phl_macid_is_wrole_shared :: "'s g6_macid_ctl_t \<Rightarrow> u16 \<Rightarrow> bool" where
  "rtw_phl_macid_is_wrole_shared mc macid =
     (if macid \<ge> max_num mc then False else wrole_shared_loop (wifi_role_usedmap mc) macid 0 0)"

fun wrole_specific_loop :: "macid_map list \<Rightarrow> u16 \<Rightarrow> nat \<Rightarrow> nat \<Rightarrow> u8 \<Rightarrow> bool" where
  "wrole_specific_loop [] macid role_id i iface_bmp = (iface_bmp \<noteq> 0)"
| "wrole_specific_loop (m # ms) macid role_id i iface_bmp =
     (if phl_macid_is_used m macid then
        if iface_bmp \<noteq> 0 \<or> i \<noteq> role_id then False
        else wrole_specific_loop ms macid role_id (Suc i) (iface_bmp OR BIT i)
      else wrole_specific_loop ms macid role_id (Suc i) iface_bmp)"

definition rtw_phl_macid_is_wrole_specific :: "'s g6_macid_ctl_t \<Rightarrow> u16 \<Rightarrow> nat \<Rightarrow> bool" where
  "rtw_phl_macid_is_wrole_specific mc macid role_id =
     (if macid \<ge> max_num mc then False else wrole_specific_loop (wifi_role_usedmap mc) macid role_id 0 0)"

text \<open>\<^verbatim>\<open>rtw_phl_get_stainfo_by_macid\<close>.\<close>

definition rtw_phl_get_stainfo_by_macid :: "'s g6_macid_ctl_t \<Rightarrow> u16 \<Rightarrow> 's option" where
  "rtw_phl_get_stainfo_by_macid mc macid =
     (if macid \<ge> max_num mc then None
      else if phl_macid_is_used (used_map mc) macid then mc_sta mc ! unat macid else None)"

section \<open>Well-formedness\<close>

text \<open>
  The used ids are those with a station; each used id belongs to exactly one role; ids at or above
  \<^verbatim>\<open>max_num\<close> are never used.
\<close>

definition macid_ok :: "'s g6_macid_ctl_t \<Rightarrow> u16 \<Rightarrow> bool" where
  "macid_ok mc i \<longleftrightarrow>
     (phl_macid_is_used (used_map mc) i \<longleftrightarrow> mc_sta mc ! unat i \<noteq> None) \<and>
     (phl_macid_is_used (used_map mc) i \<longrightarrow> i < max_num mc) \<and>
     (phl_macid_is_used (used_map mc) i \<longleftrightarrow>
        (\<exists>r < length (wifi_role_usedmap mc). phl_macid_is_used (wifi_role_usedmap mc ! r) i)) \<and>
     (\<forall>r r'. r < length (wifi_role_usedmap mc) \<longrightarrow> r' < length (wifi_role_usedmap mc) \<longrightarrow>
        phl_macid_is_used (wifi_role_usedmap mc ! r) i \<longrightarrow>
        phl_macid_is_used (wifi_role_usedmap mc ! r') i \<longrightarrow> r = r')"

definition macid_wf :: "'s g6_macid_ctl_t \<Rightarrow> bool" where
  "macid_wf mc \<longleftrightarrow>
     macid_map_wf (used_map mc) \<and> macid_map_wf (bmc_map mc) \<and>
     (\<forall>m \<in> set (wifi_role_usedmap mc). macid_map_wf m) \<and>
     length (mc_sta mc) = 256 \<and> unat (max_num mc) \<le> 256 \<and>
     length (wrole_bmc mc) = length (wifi_role_usedmap mc) \<and>
     (\<forall>i. macid_valid i \<longrightarrow> macid_ok mc i)"

lemma alloc_macid_scan_spec:
  assumes "alloc_macid_scan mp n mid = res" and "mid \<le> n"
  shows "mid \<le> res \<and> res \<le> n \<and> (\<forall>i. mid \<le> i \<longrightarrow> i < res \<longrightarrow> phl_macid_is_used mp i) \<and>
         (res < n \<longrightarrow> \<not> phl_macid_is_used mp res)"
  using assms
proof (induction mp n mid rule: alloc_macid_scan.induct)
  case (1 mp n mid)
  show ?case
  proof (cases "mid < n \<and> phl_macid_is_used mp mid")
    case False
    then have "res = mid" using 1(2) by (subst (asm) alloc_macid_scan.simps) auto
    with False 1(3) show ?thesis by auto
  next
    case True
    then have r: "alloc_macid_scan mp n (mid + 1) = res"
      using 1(2) by (subst (asm) alloc_macid_scan.simps) simp
    from True have lt: "unat mid < unat n" by (simp add: word_less_nat_alt)
    then have suc: "unat (mid + 1) = unat mid + 1"
      using unat_u16_less [of n] by (subst unat_word_ariths) simp
    have le: "mid + 1 \<le> n" using lt suc by (simp add: word_le_nat_alt)
    have next_id: "mid + 1 \<le> i" if "mid \<le> i" "i \<noteq> mid" for i
    proof -
      have "unat i \<noteq> unat mid" using that(2) by (simp add: word_unat_eq_iff)
      with that(1) suc show ?thesis by (simp add: word_le_nat_alt)
    qed
    have "mid \<le> mid + 1" using suc by (simp add: word_le_nat_alt)
    with 1(1) [OF True r le] True next_id show ?thesis by (metis order_trans)
  qed
qed

lemma macid_wfD:
  assumes "macid_wf mc"
  shows "macid_map_wf (used_map mc)" "macid_map_wf (bmc_map mc)"
    "\<And>r. r < length (wifi_role_usedmap mc) \<Longrightarrow> macid_map_wf (wifi_role_usedmap mc ! r)"
    "length (mc_sta mc) = 256" "unat (max_num mc) \<le> 256"
    "length (wrole_bmc mc) = length (wifi_role_usedmap mc)"
  using assms by (simp_all add: macid_wf_def)

lemma macid_wf_used:
  assumes "macid_wf mc" and "macid_valid i"
  shows "phl_macid_is_used (used_map mc) i \<longleftrightarrow> mc_sta mc ! unat i \<noteq> None"
    and "phl_macid_is_used (used_map mc) i \<Longrightarrow> i < max_num mc"
    and "phl_macid_is_used (used_map mc) i \<longleftrightarrow>
      (\<exists>r < length (wifi_role_usedmap mc). phl_macid_is_used (wifi_role_usedmap mc ! r) i)"
    and "r < length (wifi_role_usedmap mc) \<Longrightarrow> r' < length (wifi_role_usedmap mc) \<Longrightarrow>
      phl_macid_is_used (wifi_role_usedmap mc ! r) i \<Longrightarrow>
      phl_macid_is_used (wifi_role_usedmap mc ! r') i \<Longrightarrow> r = r'"
  using assms unfolding macid_wf_def macid_ok_def by blast+

lemma macid_valid_less: "i < max_num mc \<Longrightarrow> macid_wf mc \<Longrightarrow> macid_valid i"
  using macid_wfD(5) [of mc] by (simp add: macid_valid_def word_less_nat_alt)

text \<open>Claiming a free id for a role and giving an id back, on all three tables at once.\<close>

definition claim_id :: "'s g6_macid_ctl_t \<Rightarrow> nat \<Rightarrow> u16 \<Rightarrow> 's \<Rightarrow> 's g6_macid_ctl_t" where
  "claim_id mc r i s =
     mc\<lparr>used_map := phl_macid_map_set (used_map mc) i,
        wifi_role_usedmap := (wifi_role_usedmap mc)[r := phl_macid_map_set (wifi_role_usedmap mc ! r) i],
        mc_sta := (mc_sta mc)[unat i := Some s]\<rparr>"

definition drop_id :: "'s g6_macid_ctl_t \<Rightarrow> nat \<Rightarrow> u16 \<Rightarrow> 's g6_macid_ctl_t" where
  "drop_id mc r i =
     mc\<lparr>used_map := phl_macid_map_clr (used_map mc) i,
        wifi_role_usedmap := (wifi_role_usedmap mc)[r := phl_macid_map_clr (wifi_role_usedmap mc ! r) i],
        mc_sta := (mc_sta mc)[unat i := None]\<rparr>"

lemma role_used_claim:
  assumes "macid_wf mc" and "r < length (wifi_role_usedmap mc)" and "macid_valid i" and "macid_valid j"
    and "q < length (wifi_role_usedmap mc)"
  shows "phl_macid_is_used (wifi_role_usedmap (claim_id mc r i s) ! q) j \<longleftrightarrow>
           q = r \<and> j = i \<or> phl_macid_is_used (wifi_role_usedmap mc ! q) j"
  using assms is_used_set [OF macid_wfD(3) [OF assms(1,2)] assms(3,4)]
  by (cases "q = r") (auto simp: claim_id_def)

lemma role_used_drop:
  assumes "macid_wf mc" and "r < length (wifi_role_usedmap mc)" and "macid_valid i" and "macid_valid j"
    and "q < length (wifi_role_usedmap mc)"
  shows "phl_macid_is_used (wifi_role_usedmap (drop_id mc r i) ! q) j \<longleftrightarrow>
           \<not> (q = r \<and> j = i) \<and> phl_macid_is_used (wifi_role_usedmap mc ! q) j"
  using assms is_used_clr [OF macid_wfD(3) [OF assms(1,2)] assms(3,4)]
  by (cases "q = r") (auto simp: drop_id_def)

lemma macid_wf_claim [wf_intros]:
  assumes wf: "macid_wf mc" and r: "r < length (wifi_role_usedmap mc)"
    and i: "i < max_num mc" "\<not> phl_macid_is_used (used_map mc) i"
  shows "macid_wf (claim_id mc r i s)"
proof -
  let ?mc = "claim_id mc r i s"
  note D = macid_wfD [OF wf]
  have iv: "macid_valid i" using macid_valid_less [OF i(1) wf] .
  have len: "length (wifi_role_usedmap ?mc) = length (wifi_role_usedmap mc)" by (simp add: claim_id_def)
  have used: "phl_macid_is_used (used_map ?mc) j \<longleftrightarrow> j = i \<or> phl_macid_is_used (used_map mc) j"
    if "macid_valid j" for j
    using is_used_set [OF D(1) iv that] by (simp add: claim_id_def)
  have sta: "mc_sta ?mc ! unat j = (if j = i then Some s else mc_sta mc ! unat j)" if "macid_valid j" for j
    using that iv D(4) by (auto simp: claim_id_def macid_valid_def nth_list_update word_unat_eq_iff)
  have "\<forall>m \<in> set (wifi_role_usedmap ?mc). macid_map_wf m"
    using D(3) r by (auto simp: claim_id_def in_set_conv_nth nth_list_update)
  moreover have "macid_ok ?mc j" if j: "macid_valid j" for j
    unfolding macid_ok_def
  proof (intro conjI)
    note W = macid_wf_used [OF wf j]
    show "phl_macid_is_used (used_map ?mc) j \<longleftrightarrow> mc_sta ?mc ! unat j \<noteq> None"
      using used [OF j] sta [OF j] W(1) by auto
    show "phl_macid_is_used (used_map ?mc) j \<longrightarrow> j < max_num ?mc"
      using used [OF j] W(2) i(1) by (auto simp: claim_id_def)
    show "phl_macid_is_used (used_map ?mc) j \<longleftrightarrow>
           (\<exists>r < length (wifi_role_usedmap ?mc). phl_macid_is_used (wifi_role_usedmap ?mc ! r) j)"
      unfolding len using used [OF j] W(3) role_used_claim [OF wf r iv j] r by metis
    show "\<forall>q q'. q < length (wifi_role_usedmap ?mc) \<longrightarrow> q' < length (wifi_role_usedmap ?mc) \<longrightarrow>
           phl_macid_is_used (wifi_role_usedmap ?mc ! q) j \<longrightarrow>
           phl_macid_is_used (wifi_role_usedmap ?mc ! q') j \<longrightarrow> q = q'"
      unfolding len using W(3,4) role_used_claim [OF wf r iv j] i(2) by metis
  qed
  ultimately show ?thesis unfolding macid_wf_def using D by (simp add: len) (simp add: claim_id_def)
qed

lemma macid_wf_drop [wf_intros]:
  assumes wf: "macid_wf mc" and r: "r < length (wifi_role_usedmap mc)"
    and i: "i < max_num mc" "phl_macid_is_used (wifi_role_usedmap mc ! r) i"
  shows "macid_wf (drop_id mc r i)"
proof -
  let ?mc = "drop_id mc r i"
  note D = macid_wfD [OF wf]
  have iv: "macid_valid i" using macid_valid_less [OF i(1) wf] .
  have len: "length (wifi_role_usedmap ?mc) = length (wifi_role_usedmap mc)" by (simp add: drop_id_def)
  have used: "phl_macid_is_used (used_map ?mc) j \<longleftrightarrow> j \<noteq> i \<and> phl_macid_is_used (used_map mc) j"
    if "macid_valid j" for j
    using is_used_clr [OF D(1) iv that] by (simp add: drop_id_def)
  have sta: "mc_sta ?mc ! unat j = (if j = i then None else mc_sta mc ! unat j)" if "macid_valid j" for j
    using that iv D(4) by (auto simp: drop_id_def macid_valid_def nth_list_update word_unat_eq_iff)
  have "\<forall>m \<in> set (wifi_role_usedmap ?mc). macid_map_wf m"
    using D(3) r by (auto simp: drop_id_def in_set_conv_nth nth_list_update)
  moreover have "macid_ok ?mc j" if j: "macid_valid j" for j
    unfolding macid_ok_def
  proof (intro conjI)
    note W = macid_wf_used [OF wf j]
    show "phl_macid_is_used (used_map ?mc) j \<longleftrightarrow> mc_sta ?mc ! unat j \<noteq> None"
      using used [OF j] sta [OF j] W(1) by auto
    show "phl_macid_is_used (used_map ?mc) j \<longrightarrow> j < max_num ?mc"
      using used [OF j] W(2) by (auto simp: drop_id_def)
    show "phl_macid_is_used (used_map ?mc) j \<longleftrightarrow>
           (\<exists>r < length (wifi_role_usedmap ?mc). phl_macid_is_used (wifi_role_usedmap ?mc ! r) j)"
      unfolding len using used [OF j] W(3,4) role_used_drop [OF wf r iv j] r i(2) by metis
    show "\<forall>q q'. q < length (wifi_role_usedmap ?mc) \<longrightarrow> q' < length (wifi_role_usedmap ?mc) \<longrightarrow>
           phl_macid_is_used (wifi_role_usedmap ?mc ! q) j \<longrightarrow>
           phl_macid_is_used (wifi_role_usedmap ?mc ! q') j \<longrightarrow> q = q'"
      unfolding len using W(4) role_used_drop [OF wf r iv j] by metis
  qed
  ultimately show ?thesis unfolding macid_wf_def using D by (simp add: len) (simp add: drop_id_def)
qed

text \<open>The broadcast tables do not matter to the invariant.\<close>

lemma macid_ok_bmc [simp]:
  "macid_ok (mc\<lparr>bmc_map := m\<rparr>) = macid_ok mc"
  "macid_ok (mc\<lparr>bmc_map := m, wrole_bmc := b\<rparr>) = macid_ok mc"
  by (simp_all add: fun_eq_iff macid_ok_def)

lemma macid_wf_bmc [wf_intros]:
  "macid_wf mc \<Longrightarrow> macid_map_wf m \<Longrightarrow> length b = length (wrole_bmc mc) \<Longrightarrow>
   macid_wf (mc\<lparr>bmc_map := m, wrole_bmc := b\<rparr>)"
  by (simp add: macid_wf_def)

lemma macid_wf_bmc_map [wf_intros]: "macid_wf mc \<Longrightarrow> macid_map_wf m \<Longrightarrow> macid_wf (mc\<lparr>bmc_map := m\<rparr>)"
  by (simp add: macid_wf_def)

lemma alloc_macid_unfold:
  "phl_alloc_macid mc s (Some r) addr =
     (let i = alloc_macid_scan (used_map mc) (max_num mc) 0 in
      if i = max_num mc then (RTW_PHL_STATUS_FAILURE, Some (max_num mc), mc)
      else (RTW_PHL_STATUS_SUCCESS, Some i,
        if addr = bc_addr then
          (claim_id mc r i s)\<lparr>bmc_map := phl_macid_map_set (bmc_map mc) i,
                              wrole_bmc := (wrole_bmc mc)[r := i]\<rparr>
        else claim_id mc r i s))"
  by (auto simp: phl_alloc_macid_def claim_id_def phl_wrole_bcmc_id_set_def Let_def)

lemma release_macid_unfold:
  "phl_release_macid mc r addr i =
     (if i < max_num mc \<and> phl_macid_is_used (used_map mc) i then
        (RTW_PHL_STATUS_SUCCESS, max_num mc,
         if addr = bc_addr then (drop_id mc r i)\<lparr>bmc_map := phl_macid_map_clr (bmc_map mc) i\<rparr>
         else drop_id mc r i)
      else (RTW_PHL_STATUS_FAILURE, max_num mc, mc))"
  by (auto simp: phl_release_macid_def drop_id_def Let_def)

lemmas macid_ops = alloc_macid_unfold release_macid_unfold

lemma get_stainfo_claim:
  assumes "macid_wf mc" and "i < max_num mc" and "j < max_num mc"
  shows "rtw_phl_get_stainfo_by_macid (claim_id mc r i s) j =
           (if j = i then Some s else rtw_phl_get_stainfo_by_macid mc j)"
proof -
  have v: "macid_valid i" "macid_valid j" using assms by (auto intro: macid_valid_less)
  note D = macid_wfD [OF assms(1)]
  show ?thesis
    using v D(4) assms(2,3) is_used_set [OF D(1) v]
    by (auto simp: rtw_phl_get_stainfo_by_macid_def claim_id_def macid_valid_def nth_list_update
        word_unat_eq_iff)
qed

lemma get_stainfo_drop:
  assumes "macid_wf mc" and "i < max_num mc" and "j < max_num mc"
  shows "rtw_phl_get_stainfo_by_macid (drop_id mc r i) j =
           (if j = i then None else rtw_phl_get_stainfo_by_macid mc j)"
proof -
  have v: "macid_valid i" "macid_valid j" using assms by (auto intro: macid_valid_less)
  note D = macid_wfD [OF assms(1)]
  show ?thesis
    using v D(4) assms(2,3) is_used_clr [OF D(1) v]
    by (auto simp: rtw_phl_get_stainfo_by_macid_def drop_id_def macid_valid_def nth_list_update
        word_unat_eq_iff)
qed

lemma get_stainfo_bmc [simp]:
  "rtw_phl_get_stainfo_by_macid (mc\<lparr>bmc_map := m\<rparr>) = rtw_phl_get_stainfo_by_macid mc"
  "rtw_phl_get_stainfo_by_macid (mc\<lparr>bmc_map := m, wrole_bmc := b\<rparr>) = rtw_phl_get_stainfo_by_macid mc"
  by (simp_all add: fun_eq_iff rtw_phl_get_stainfo_by_macid_def)

text \<open>What an allocation does, on either outcome.\<close>

lemma alloc_macid_cases:
  assumes wf: "macid_wf mc" and r: "r < length (wifi_role_usedmap mc)"
    and al: "phl_alloc_macid mc s (Some r) addr = (st, m, mc')"
  obtains (full) "st = RTW_PHL_STATUS_FAILURE" "m = Some (max_num mc)" "mc' = mc"
      "\<forall>j < max_num mc. phl_macid_is_used (used_map mc) j"
  | (got) i where "st = RTW_PHL_STATUS_SUCCESS" "m = Some i" "i < max_num mc"
      "\<not> phl_macid_is_used (used_map mc) i" "\<forall>j < i. phl_macid_is_used (used_map mc) j"
      "macid_wf mc'" "used_map mc' = phl_macid_map_set (used_map mc) i"
      "\<forall>j < max_num mc. rtw_phl_get_stainfo_by_macid mc' j =
         (if j = i then Some s else rtw_phl_get_stainfo_by_macid mc j)"
      "wifi_role_usedmap mc' = (wifi_role_usedmap mc)[r := phl_macid_map_set (wifi_role_usedmap mc ! r) i]"
      "max_num mc' = max_num mc" "addr = bc_addr \<Longrightarrow> wrole_bmc mc' = (wrole_bmc mc)[r := i]"
      "addr \<noteq> bc_addr \<Longrightarrow> wrole_bmc mc' = wrole_bmc mc"
proof -
  let ?i = "alloc_macid_scan (used_map mc) (max_num mc) 0"
  have scan: "?i \<le> max_num mc" "\<forall>j < ?i. phl_macid_is_used (used_map mc) j"
    "?i < max_num mc \<Longrightarrow> \<not> phl_macid_is_used (used_map mc) ?i"
    using alloc_macid_scan_spec [of "used_map mc" "max_num mc" 0, OF refl] by simp_all
  show thesis
  proof (cases "?i = max_num mc")
    case True
    with al scan show thesis by (intro full) (auto simp: alloc_macid_unfold)
  next
    case False
    with scan have i: "?i < max_num mc" "\<not> phl_macid_is_used (used_map mc) ?i" by simp_all
    have wfc: "macid_wf (claim_id mc r ?i s)" using wf r i by (rule macid_wf_claim)
    have mc': "mc' = (if addr = bc_addr then (claim_id mc r ?i s)\<lparr>bmc_map := phl_macid_map_set (bmc_map mc) ?i,
        wrole_bmc := (wrole_bmc mc)[r := ?i]\<rparr> else claim_id mc r ?i s)"
      using al False by (auto simp: alloc_macid_unfold Let_def)
    have "macid_wf mc'" using wfc macid_wfD(2) [OF wf] unfolding mc'
      by (auto intro!: macid_wf_bmc) (simp add: claim_id_def)
    with al False i scan(2) get_stainfo_claim [OF wf i(1)] show thesis
      by (intro got [of ?i]) (auto simp: alloc_macid_unfold mc' claim_id_def Let_def)
  qed
qed

lemma release_macid_cases:
  assumes wf: "macid_wf mc" and r: "r < length (wifi_role_usedmap mc)"
    and u: "phl_macid_is_used (wifi_role_usedmap mc ! r) i" and i: "i < max_num mc"
    and rel: "phl_release_macid mc r addr i = (st, m, mc')"
  shows "st = RTW_PHL_STATUS_SUCCESS \<and> m = max_num mc \<and> macid_wf mc' \<and>
     used_map mc' = phl_macid_map_clr (used_map mc) i \<and>
     (\<forall>j < max_num mc. rtw_phl_get_stainfo_by_macid mc' j =
        (if j = i then None else rtw_phl_get_stainfo_by_macid mc j)) \<and>
     max_num mc' = max_num mc \<and> wrole_bmc mc' = wrole_bmc mc"
proof -
  have "phl_macid_is_used (used_map mc) i"
    using macid_wf_used(3) [OF wf macid_valid_less [OF i wf]] r u by blast
  with rel i have res: "st = RTW_PHL_STATUS_SUCCESS" "m = max_num mc"
    "mc' = (if addr = bc_addr then (drop_id mc r i)\<lparr>bmc_map := phl_macid_map_clr (bmc_map mc) i\<rparr>
            else drop_id mc r i)"
    by (simp_all add: release_macid_unfold)
  have "macid_wf (drop_id mc r i)" using wf r i u by (rule macid_wf_drop)
  then have "macid_wf mc'" using macid_wfD(2) [OF wf] unfolding res
    by (auto intro!: macid_wf_bmc_map)
  with res(1,2) get_stainfo_drop [OF wf i] show ?thesis unfolding res(3)
    by (auto simp: drop_id_def)
qed

lemma BIT_u8_neq_0: "i < 8 \<Longrightarrow> x OR BIT i \<noteq> (0 :: u8)"
proof
  assume "i < 8" "x OR BIT i = (0 :: u8)"
  then have "\<not> bit (x OR BIT i) i" by simp
  with \<open>i < 8\<close> show False by (simp add: bit_or_iff bit_BIT_iff del: push_bit_of_1)
qed

lemma wrole_specific_loop_iff:
  "i + length ms \<le> 8 \<Longrightarrow>
   wrole_specific_loop ms macid r i bmp \<longleftrightarrow>
     (\<forall>k < length ms. phl_macid_is_used (ms ! k) macid \<longrightarrow> i + k = r \<and> bmp = 0) \<and>
     (bmp \<noteq> 0 \<or> (\<exists>k < length ms. phl_macid_is_used (ms ! k) macid))"
proof (induction ms arbitrary: i bmp)
  case (Cons m ms)
  then have i: "i < 8" and IH: "\<And>b. wrole_specific_loop ms macid r (Suc i) b \<longleftrightarrow>
     (\<forall>k < length ms. phl_macid_is_used (ms ! k) macid \<longrightarrow> Suc i + k = r \<and> b = 0) \<and>
     (b \<noteq> 0 \<or> (\<exists>k < length ms. phl_macid_is_used (ms ! k) macid))" by simp_all
  define b where "b = bmp OR BIT i"
  have b: "b \<noteq> 0" using BIT_u8_neq_0 [OF i, of bmp] by (simp only: b_def not_False_eq_True)
  have E: "wrole_specific_loop (m # ms) macid r i bmp \<longleftrightarrow>
      (if phl_macid_is_used m macid then
         if bmp \<noteq> 0 \<or> i \<noteq> r then False else wrole_specific_loop ms macid r (Suc i) b
       else wrole_specific_loop ms macid r (Suc i) bmp)"
    by (simp only: wrole_specific_loop.simps b_def)
  show ?case unfolding E IH using b by (auto simp: All_less_Suc2 Ex_less_Suc2)
qed simp

section \<open>Properties\<close>

text \<open>
  C14: \<^verbatim>\<open>_phl_alloc_macid\<close> gives a station the smallest free id, changes the entry of no
  other id, keeps the three tables consistent, and fails (changing nothing) only when all ids are
  in use.
\<close>

theorem macid_alloc_smallest_free:
  assumes "macid_wf mc" and "r < length (wifi_role_usedmap mc)"
    and "phl_alloc_macid mc s (Some r) addr = (st, m, mc')"
  shows "macid_wf mc' \<and>
    (if \<forall>j < max_num mc. phl_macid_is_used (used_map mc) j
     then st = RTW_PHL_STATUS_FAILURE \<and> mc' = mc
     else \<exists>i < max_num mc. st = RTW_PHL_STATUS_SUCCESS \<and> m = Some i \<and>
            rtw_phl_get_stainfo_by_macid mc i = None \<and>
            (\<forall>j < i. phl_macid_is_used (used_map mc) j) \<and>
            (\<forall>j < max_num mc. rtw_phl_get_stainfo_by_macid mc' j =
               (if j = i then Some s else rtw_phl_get_stainfo_by_macid mc j)))"
proof (cases rule: alloc_macid_cases [OF assms, case_names full got])
  case full
  with assms(1) show ?thesis by simp
next
  case (got i)
  have "rtw_phl_get_stainfo_by_macid mc i = None" using got(4) by (simp add: rtw_phl_get_stainfo_by_macid_def)
  with got show ?thesis by auto
qed

text \<open>A device with three roles and four macids, two of them given out.\<close>

definition demo_mc :: "nat g6_macid_ctl_t" where
  "demo_mc =
     (let mc0 = snd (phl_macid_ctrl_init 4 (macid_ctl_zero 3));
          mc1 = snd (snd (phl_alloc_macid mc0 100 (Some 0) bc_addr))
      in snd (snd (phl_alloc_macid mc1 101 (Some 1) [1, 2, 3, 4, 5, 6])))"

lemma macid_init_wf: "0 < hal \<Longrightarrow> macid_wf (snd (phl_macid_ctrl_init hal (macid_ctl_zero n)))"
proof -
  assume h: "0 < hal"
  have un: "\<not> phl_macid_is_used (replicate 8 0) i" if "macid_valid i" for i
    using that by (simp add: is_used_bit macid_valid_def)
  have "min hal 256 \<le> (256 :: u16)" by simp
  then have "unat (min hal 256) \<le> 256" unfolding word_le_nat_alt by simp
  then show ?thesis using un h
    unfolding phl_macid_ctrl_init_def macid_ctl_zero_def macid_wf_def macid_ok_def
    by (auto simp: Let_def macid_map_wf_def macid_valid_def)
qed

lemma demo_mc_wf: "macid_wf demo_mc" "length (wifi_role_usedmap demo_mc) = 3"
proof -
  let ?mc0 = "snd (phl_macid_ctrl_init 4 (macid_ctl_zero 3)) :: nat g6_macid_ctl_t"
  have step: "macid_wf (snd (snd (phl_alloc_macid mc s (Some r) addr))) \<and>
      length (wifi_role_usedmap (snd (snd (phl_alloc_macid mc s (Some r) addr)))) = 3"
    if "macid_wf mc" "length (wifi_role_usedmap mc) = 3" "r < 3" for mc :: "nat g6_macid_ctl_t" and s r addr
  proof -
    have r: "r < length (wifi_role_usedmap mc)" using that by simp
    obtain st m mc' where al: "phl_alloc_macid mc s (Some r) addr = (st, m, mc')" by (metis prod_cases3)
    show ?thesis
      by (cases rule: alloc_macid_cases [OF that(1) r al, case_names full got]) (use that al in auto)
  qed
  have 0: "macid_wf ?mc0" "length (wifi_role_usedmap ?mc0) = 3"
    by (simp_all add: macid_init_wf) (simp add: phl_macid_ctrl_init_def macid_ctl_zero_def Let_def)
  note 1 = step [OF 0, of 0 100 bc_addr]
  note 2 = step [of _ 1 101 "[1, 2, 3, 4, 5, 6]"]
  from 1 2 show "macid_wf demo_mc" "length (wifi_role_usedmap demo_mc) = 3"
    by (simp_all add: demo_mc_def Let_def)
qed

theorem macid_alloc_smallest_free_witness:
  "fst (snd (phl_alloc_macid demo_mc 102 (Some 2) [9, 9, 9, 9, 9, 9])) = Some 2 \<and>
   rtw_phl_get_stainfo_by_macid (snd (snd (phl_alloc_macid demo_mc 102 (Some 2) [9, 9, 9, 9, 9, 9]))) 2 = Some 102"
proof -
  obtain st m mc' where al: "phl_alloc_macid demo_mc 102 (Some 2) [9, 9, 9, 9, 9, 9] = (st, m, mc')"
    by (metis prod_cases3)
  have m: "fst (snd (phl_alloc_macid demo_mc 102 (Some 2) [9, 9, 9, 9, 9, 9])) = Some 2" by code_simp
  have nf: "\<not> phl_macid_is_used (used_map demo_mc) 2" "max_num demo_mc = 4" by code_simp+
  have "(2 :: u16) < 4" by simp
  with macid_alloc_smallest_free [OF demo_mc_wf(1) _ al] demo_mc_wf(2) m nf al show ?thesis
    by (auto split: if_splits)
qed

text \<open>
  releasing the macid of a station succeeds, makes exactly that id free again, keeps the tables
  consistent, and leaves the station with the invalid id \<^verbatim>\<open>max_num\<close>.
\<close>

theorem macid_release_frees:
  assumes "macid_wf mc" and "r < length (wifi_role_usedmap mc)" and "i < max_num mc"
    and "phl_macid_is_used (wifi_role_usedmap mc ! r) i"
    and "phl_release_macid mc r addr i = (st, m, mc')"
  shows "st = RTW_PHL_STATUS_SUCCESS \<and> m = max_num mc \<and> macid_wf mc' \<and>
     mm.elems (used_map mc') = mm.elems (used_map mc) - {i} \<and>
     (\<forall>j < max_num mc. rtw_phl_get_stainfo_by_macid mc' j =
        (if j = i then None else rtw_phl_get_stainfo_by_macid mc j))"
  using release_macid_cases [OF assms(1,2,4,3,5)]
    mm.elems_del [OF macid_wfD(1) [OF assms(1)] macid_valid_less [OF assms(3,1)]] by simp

theorem macid_release_frees_witness:
  "rtw_phl_get_stainfo_by_macid (snd (snd (phl_release_macid demo_mc 1 [1, 2, 3, 4, 5, 6] 1))) 1 = None"
proof -
  obtain st m mc' where rel: "phl_release_macid demo_mc 1 [1, 2, 3, 4, 5, 6] 1 = (st, m, mc')"
    by (metis prod_cases3)
  have u: "phl_macid_is_used (wifi_role_usedmap demo_mc ! 1) 1" by code_simp
  have n: "max_num demo_mc = 4" by code_simp
  from macid_release_frees [OF demo_mc_wf(1) _ _ u rel] demo_mc_wf(2) n rel show ?thesis by simp
qed

text \<open>
  \<^verbatim>\<open>rtw_phl_macid_is_wrole_specific\<close> answers exactly whether the id is valid and used by
  the given role and by no other.
\<close>

theorem wrole_specific_iff:
  assumes "length (wifi_role_usedmap mc) \<le> 8"
  shows "rtw_phl_macid_is_wrole_specific mc macid r \<longleftrightarrow>
     macid < max_num mc \<and>
     {q. q < length (wifi_role_usedmap mc) \<and> phl_macid_is_used (wifi_role_usedmap mc ! q) macid} = {r}"
proof -
  let ?u = "\<lambda>q. q < length (wifi_role_usedmap mc) \<and> phl_macid_is_used (wifi_role_usedmap mc ! q) macid"
  have "wrole_specific_loop (wifi_role_usedmap mc) macid r 0 0 \<longleftrightarrow>
      (\<forall>q. ?u q \<longrightarrow> q = r) \<and> (\<exists>q. ?u q)"
    using wrole_specific_loop_iff [of 0 "wifi_role_usedmap mc" macid r 0] assms by simp blast
  then have "rtw_phl_macid_is_wrole_specific mc macid r \<longleftrightarrow>
      macid < max_num mc \<and> (\<forall>q. ?u q \<longrightarrow> q = r) \<and> (\<exists>q. ?u q)"
    unfolding rtw_phl_macid_is_wrole_specific_def by (metis not_le)
  moreover have "(\<forall>q. ?u q \<longrightarrow> q = r) \<and> (\<exists>q. ?u q) \<longleftrightarrow> {q. ?u q} = {r}" by blast
  ultimately show ?thesis by (simp only:)
qed

theorem wrole_specific_iff_witness: "rtw_phl_macid_is_wrole_specific demo_mc 1 1"
proof -
  have e: "rtw_phl_macid_is_wrole_specific demo_mc 1 1 \<longleftrightarrow> 1 < max_num demo_mc \<and>
      {q. q < 3 \<and> phl_macid_is_used (wifi_role_usedmap demo_mc ! q) 1} = {1}"
    using wrole_specific_iff [of demo_mc 1 1] demo_mc_wf(2) by simp
  have "max_num demo_mc = 4" "\<not> phl_macid_is_used (wifi_role_usedmap demo_mc ! 0) 1"
    "phl_macid_is_used (wifi_role_usedmap demo_mc ! 1) 1"
    "\<not> phl_macid_is_used (wifi_role_usedmap demo_mc ! 2) 1" by code_simp+
  moreover have "(1 :: u16) < 4" "\<And>q :: nat. q < 3 \<longleftrightarrow> q = 0 \<or> q = 1 \<or> q = 2" by auto
  ultimately show ?thesis unfolding e by auto
qed

end
