(* ===== verification/Phl_Fifo.thy ===== *)
theory Phl_Fifo
  imports Phl_Prelude
begin

text \<open>
  The contract that the queues and rings between the layers of the driver promise: what goes in
  comes out in order, once, and nothing is lost between an accepted write and its read.
  Providers (\<^verbatim>\<open>struct phl_queue\<close>, the RX ring, the TX rings) interpret the locales on
  their own operations; the lemma about arbitrary interleavings of the producer and the consumer
  is proved here once.
\<close>

datatype 'a fifo_op = Put 'a | Get

text \<open>
  A run of producer and consumer steps, in the order their locked sections execute: the items
  the buffer accepted, the items it delivered, the final state.
\<close>

fun fifo_run ::
  "('q \<Rightarrow> 'a \<Rightarrow> 'q option) \<Rightarrow> ('q \<Rightarrow> ('a \<times> 'q) option) \<Rightarrow> 'q \<Rightarrow> 'a fifo_op list \<Rightarrow>
   'a list \<times> 'a list \<times> 'q" where
  "fifo_run enq deq q [] = ([], [], q)"
| "fifo_run enq deq q (Put x # ops) =
     (case enq q x of
        None \<Rightarrow> fifo_run enq deq q ops
      | Some q' \<Rightarrow> (case fifo_run enq deq q' ops of (acc, del, q'') \<Rightarrow> (x # acc, del, q'')))"
| "fifo_run enq deq q (Get # ops) =
     (case deq q of
        None \<Rightarrow> fifo_run enq deq q ops
      | Some (x, q') \<Rightarrow> (case fifo_run enq deq q' ops of (acc, del, q'') \<Rightarrow> (acc, x # del, q'')))"

locale fifo_buffer =
  fixes contents :: "'q \<Rightarrow> 'a list"
    and invar :: "'q \<Rightarrow> bool"
    and room :: "'q \<Rightarrow> bool"
    and enq :: "'q \<Rightarrow> 'a \<Rightarrow> 'q option"
    and deq :: "'q \<Rightarrow> ('a \<times> 'q) option"
  assumes enq_room: "invar q \<Longrightarrow> room q \<Longrightarrow>
      \<exists>q'. enq q x = Some q' \<and> invar q' \<and> contents q' = contents q @ [x]"
    and enq_full: "invar q \<Longrightarrow> \<not> room q \<Longrightarrow> enq q x = None"
    and deq_Nil: "invar q \<Longrightarrow> contents q = [] \<Longrightarrow> deq q = None"
    and deq_Cons: "invar q \<Longrightarrow> contents q = x # xs \<Longrightarrow>
      \<exists>q'. deq q = Some (x, q') \<and> invar q' \<and> contents q' = xs"
begin

lemma enq_SomeD:
  assumes "invar q" and "enq q x = Some q'"
  shows "room q \<and> invar q' \<and> contents q' = contents q @ [x]"
proof -
  have "room q" using assms enq_full by fastforce
  with enq_room [OF assms(1) this, of x] assms(2) show ?thesis by auto
qed

lemma deq_SomeD:
  assumes "invar q" and "deq q = Some (x, q')"
  shows "invar q' \<and> contents q = x # contents q'"
proof (cases "contents q")
  case Nil
  with assms deq_Nil show ?thesis by simp
next
  case (Cons y ys)
  with deq_Cons [OF assms(1) Cons] assms(2) show ?thesis by auto
qed

text \<open>
  In every interleaving the accepted items follow what was stored, and the delivered items are
  the front of that sequence: no loss, no duplicate, no reordering.
\<close>

lemma fifo_run_conserves:
  "invar q \<Longrightarrow> fifo_run enq deq q ops = (acc, del, q') \<Longrightarrow>
   invar q' \<and> contents q @ acc = del @ contents q'"
proof (induction ops arbitrary: q acc del)
  case Nil
  then show ?case by simp
next
  case (Cons oper ops)
  show ?case
  proof (cases oper)
    case (Put x)
    show ?thesis
    proof (cases "enq q x")
      case None
      with Cons Put show ?thesis by simp
    next
      case (Some q1)
      with Cons.prems Put obtain acc1 where
        run: "fifo_run enq deq q1 ops = (acc1, del, q')" and acc: "acc = x # acc1"
        by (auto split: prod.splits)
      from enq_SomeD [OF Cons.prems(1) Some] have "invar q1" "contents q1 = contents q @ [x]"
        by auto
      with Cons.IH [OF _ run] acc show ?thesis by simp
    qed
  next
    case Get
    show ?thesis
    proof (cases "deq q")
      case None
      with Cons Get show ?thesis by simp
    next
      case (Some p)
      then obtain x q1 where deq: "deq q = Some (x, q1)" by (cases p) auto
      with Cons.prems Get obtain del1 where
        run: "fifo_run enq deq q1 ops = (acc, del1, q')" and del: "del = x # del1"
        by (auto split: prod.splits)
      from deq_SomeD [OF Cons.prems(1) deq] have "invar q1" "contents q = x # contents q1"
        by auto
      with Cons.IH [OF _ run] del show ?thesis by simp
    qed
  qed
qed

text \<open>A consumer that keeps reading empties the buffer, in order.\<close>

lemma fifo_drain:
  "invar q \<Longrightarrow> length (contents q) = n \<Longrightarrow>
   \<exists>q'. fifo_run enq deq q (replicate n Get) = ([], contents q, q') \<and> contents q' = []"
proof (induction n arbitrary: q)
  case 0
  then show ?case by simp
next
  case (Suc n)
  then obtain x xs where c: "contents q = x # xs" by (cases "contents q") auto
  from deq_Cons [OF Suc.prems(1) this] obtain q1 where
    deq: "deq q = Some (x, q1)" and i: "invar q1" and c1: "contents q1 = xs" by blast
  from Suc.prems(2) c c1 have "length (contents q1) = n" by simp
  from Suc.IH [OF i this] obtain q' where
    "fifo_run enq deq q1 (replicate n Get) = ([], contents q1, q')" "contents q' = []" by blast
  with deq c c1 show ?case by simp
qed

end

text \<open>A buffer with a fixed number of slots.\<close>

locale bounded_fifo = fifo_buffer contents invar room enq deq
  for contents :: "'q \<Rightarrow> 'a list" and invar room enq deq +
  fixes cap :: nat
  assumes room_iff: "invar q \<Longrightarrow> room q \<longleftrightarrow> length (contents q) < cap"
    and contents_le_cap: "invar q \<Longrightarrow> length (contents q) \<le> cap"
begin

lemma fifo_run_backlog:
  assumes "invar q" and "fifo_run enq deq q ops = (acc, del, q')"
  shows "length (contents q) + length acc \<le> length del + cap"
proof -
  from fifo_run_conserves [OF assms] have "invar q'"
    and eq: "contents q @ acc = del @ contents q'" by auto
  from contents_le_cap [OF this(1)] arg_cong [OF eq, of length] show ?thesis by simp
qed

lemma enq_refused_iff:
  "invar q \<Longrightarrow> enq q x = None \<longleftrightarrow> length (contents q) = cap"
  using room_iff [of q] contents_le_cap [of q] enq_full [of q x] enq_room [of q x]
  by (cases "room q") auto

end

end
