(* ===== verification/Phl_Queue.thy ===== *)
theory Phl_Queue
  imports Phl_Fifo
begin

text \<open>
  The general queue API of \<^verbatim>\<open>phl/phl_util.c\<close> and the elapsed-time helpers of the same
  file. A \<^verbatim>\<open>struct phl_queue\<close> is an intrusive doubly linked list with an element
  counter; each operation is one section under the queue's spin lock, hence one atomic step.
  A node is represented by the object it is embedded in.
\<close>

section \<open>Data and operations\<close>

record 'a phl_queue =
  pq_queue :: "'a list"
  pq_cnt :: int

datatype list_pos = Pos_first | Pos_tail

definition pq_init :: "'a phl_queue" where
  "pq_init = \<lparr>pq_queue = [], pq_cnt = 0\<rparr>"

definition pq_reset :: "'a phl_queue \<Rightarrow> 'a phl_queue" where
  "pq_reset q = q\<lparr>pq_queue := [], pq_cnt := 0\<rparr>"

definition pq_push :: "'a phl_queue \<Rightarrow> 'a \<Rightarrow> list_pos \<Rightarrow> bool \<times> 'a phl_queue" where
  "pq_push q obj pos =
     (True,
      q\<lparr>pq_queue := (if pos = Pos_first then obj # pq_queue q else pq_queue q @ [obj]),
        pq_cnt := pq_cnt q + 1\<rparr>)"

definition pq_pop ::
  "'a phl_queue \<Rightarrow> list_pos \<Rightarrow> bool \<times> 'a os_list_ptr \<times> 'a phl_queue" where
  "pq_pop q pos =
     (if pq_queue q \<noteq> [] \<and> pq_cnt q > 0 then
        if pos = Pos_first then
          (True, PNode (hd (pq_queue q)), q\<lparr>pq_queue := tl (pq_queue q), pq_cnt := pq_cnt q - 1\<rparr>)
        else
          (True, PNode (last (pq_queue q)),
           q\<lparr>pq_queue := butlast (pq_queue q), pq_cnt := pq_cnt q - 1\<rparr>)
      else (False, PNull, q))"

definition pq_get_front :: "'a phl_queue \<Rightarrow> bool \<times> 'a os_list_ptr" where
  "pq_get_front q =
     (if pq_queue q \<noteq> [] \<and> pq_cnt q > 0 then (True, PNode (hd (pq_queue q))) else (False, PNull))"

definition pq_get_tail :: "'a phl_queue \<Rightarrow> bool \<times> 'a os_list_ptr" where
  "pq_get_tail q =
     (if pq_queue q \<noteq> [] \<and> pq_cnt q > 0 then (True, PNode (last (pq_queue q))) else (False, PNull))"

text \<open>
  \<^verbatim>\<open>cur->next\<close> in a circular list: the following node, or the head after the last
  one. A node that is on no list has no successor to speak of; the model gives null.
\<close>

fun list_next :: "'a list \<Rightarrow> 'a \<Rightarrow> 'a os_list_ptr" where
  "list_next [] x = PNull"
| "list_next [y] x = (if x = y then PHead else PNull)"
| "list_next (y # z # zs) x = (if x = y then PNode z else list_next (z # zs) x)"

definition list_prev :: "'a list \<Rightarrow> 'a \<Rightarrow> 'a os_list_ptr" where
  "list_prev xs x = list_next (rev xs) x"

definition pq_get_next :: "'a phl_queue \<Rightarrow> 'a option \<Rightarrow> bool \<times> 'a os_list_ptr" where
  "pq_get_next q cur_obj =
     (case cur_obj of
        None \<Rightarrow> (False, PNull)
      | Some cur \<Rightarrow> (let obj = list_next (pq_queue q) cur in (obj \<noteq> PNull \<and> obj \<noteq> PHead, obj)))"

definition pq_get_prev :: "'a phl_queue \<Rightarrow> 'a option \<Rightarrow> bool \<times> 'a os_list_ptr" where
  "pq_get_prev q cur_obj =
     (case cur_obj of
        None \<Rightarrow> (False, PNull)
      | Some cur \<Rightarrow> (let obj = list_prev (pq_queue q) cur in (obj \<noteq> PNull \<and> obj \<noteq> PHead, obj)))"

text \<open>The scan of \<^verbatim>\<open>pq_search_node\<close>; a null \<^verbatim>\<open>search_fun\<close> never hits.\<close>

fun pq_search_loop :: "('a \<Rightarrow> bool) option \<Rightarrow> 'a list \<Rightarrow> 'a option" where
  "pq_search_loop search_fun [] = None"
| "pq_search_loop search_fun (newobj # objs) =
     (if (case search_fun of None \<Rightarrow> False | Some f \<Rightarrow> f newobj) then Some newobj
      else pq_search_loop search_fun objs)"

definition pq_search_node ::
  "'a phl_queue \<Rightarrow> bool \<Rightarrow> ('a \<Rightarrow> bool) option \<Rightarrow> bool \<times> 'a os_list_ptr \<times> 'a phl_queue" where
  "pq_search_node q bdel search_fun =
     (if pq_queue q \<noteq> [] \<and> pq_cnt q > 0 then
        case pq_search_loop search_fun (pq_queue q) of
          None \<Rightarrow> (False, PNull, q)
        | Some obj \<Rightarrow>
            (True, PNode obj,
             if bdel then q\<lparr>pq_queue := remove1 obj (pq_queue q), pq_cnt := pq_cnt q - 1\<rparr> else q)
      else (False, PNull, q))"

definition pq_del_node :: "'a phl_queue \<Rightarrow> 'a option \<Rightarrow> 'a phl_queue" where
  "pq_del_node q obj =
     (case obj of
        None \<Rightarrow> q
      | Some x \<Rightarrow> q\<lparr>pq_queue := remove1 x (pq_queue q), pq_cnt := pq_cnt q - 1\<rparr>)"

text \<open>\<^verbatim>\<open>pq_insert\<close>: before the first node the predicate accepts, else at the tail.\<close>

fun pq_insert_loop :: "('a \<Rightarrow> 'a \<Rightarrow> bool) option \<Rightarrow> 'a \<Rightarrow> 'a list \<Rightarrow> 'a list" where
  "pq_insert_loop predicate input [] = [input]"
| "pq_insert_loop predicate input (obj # objs) =
     (if (case predicate of None \<Rightarrow> False | Some p \<Rightarrow> p input obj) then input # obj # objs
      else obj # pq_insert_loop predicate input objs)"

definition pq_insert ::
  "'a phl_queue \<Rightarrow> ('a \<Rightarrow> 'a \<Rightarrow> bool) option \<Rightarrow> 'a \<Rightarrow> bool \<times> 'a phl_queue" where
  "pq_insert q predicate input =
     (True, q\<lparr>pq_queue := pq_insert_loop predicate input (pq_queue q), pq_cnt := pq_cnt q + 1\<rparr>)"

text \<open>Elapsed time since \<^verbatim>\<open>start\<close>; \<^verbatim>\<open>now\<close> is the clock that the function reads.\<close>

definition phl_get_passing_time_us :: "u32 \<Rightarrow> u32 \<Rightarrow> u32" where
  "phl_get_passing_time_us now start =
     (if now = start then 0 else if now > start then now - start else 0xffffffff - start + now)"

definition phl_get_passing_time_ms :: "u32 \<Rightarrow> u32 \<Rightarrow> u32" where
  "phl_get_passing_time_ms now start =
     (if now = start then 0 else if now > start then now - start else 0xffffffff - start + now)"

section \<open>Well-formedness\<close>

text \<open>The counter is the number of linked nodes, and a node is linked at most once.\<close>

definition pq_wf :: "'a phl_queue \<Rightarrow> bool" where
  "pq_wf q \<longleftrightarrow> pq_cnt q = int (length (pq_queue q)) \<and> distinct (pq_queue q)"

lemma pq_wf_init [simp, wf_intros]: "pq_wf pq_init"
  by (simp add: pq_wf_def pq_init_def)

lemma pq_wf_reset [simp, wf_intros]: "pq_wf (pq_reset q)"
  by (simp add: pq_wf_def pq_reset_def)

lemma pq_wf_push [wf_intros]:
  "pq_wf q \<Longrightarrow> obj \<notin> set (pq_queue q) \<Longrightarrow> pq_wf (snd (pq_push q obj pos))"
  by (auto simp: pq_wf_def pq_push_def)

lemma pq_wf_pop [wf_intros]:
  "pq_wf q \<Longrightarrow> pq_wf (snd (snd (pq_pop q pos)))"
  by (auto simp: pq_wf_def pq_pop_def distinct_tl distinct_butlast Suc_leI)

lemma pq_search_loop_mem: "pq_search_loop sf xs = Some x \<Longrightarrow> x \<in> set xs"
  by (induction xs) (auto split: if_splits)

lemma pq_wf_del [wf_intros]:
  "pq_wf q \<Longrightarrow> obj \<in> set (pq_queue q) \<Longrightarrow> pq_wf (pq_del_node q (Some obj))"
  by (auto simp: pq_wf_def pq_del_node_def length_remove1_int)

lemma pq_wf_search [wf_intros]:
  "pq_wf q \<Longrightarrow> pq_wf (snd (snd (pq_search_node q bdel sf)))"
  by (auto simp: pq_wf_def pq_search_node_def length_remove1_int
      dest: pq_search_loop_mem split: option.splits)

lemma length_pq_insert_loop [simp]: "length (pq_insert_loop p x xs) = Suc (length xs)"
  by (induction xs) auto

lemma set_pq_insert_loop [simp]: "set (pq_insert_loop p x xs) = insert x (set xs)"
  by (induction xs) auto

lemma distinct_pq_insert_loop:
  "distinct xs \<Longrightarrow> x \<notin> set xs \<Longrightarrow> distinct (pq_insert_loop p x xs)"
  by (induction xs) auto

lemma pq_wf_insert [wf_intros]:
  "pq_wf q \<Longrightarrow> obj \<notin> set (pq_queue q) \<Longrightarrow> pq_wf (snd (pq_insert q p obj))"
  by (simp add: pq_wf_def pq_insert_def distinct_pq_insert_loop)

section \<open>The queue as a FIFO\<close>

text \<open>
  Writers that use \<^verbatim>\<open>_tail\<close> and readers that use \<^verbatim>\<open>_first\<close> see a FIFO.
\<close>

definition pq_enq :: "'a phl_queue \<Rightarrow> 'a \<Rightarrow> 'a phl_queue option" where
  "pq_enq q x = Some (snd (pq_push q x Pos_tail))"

definition pq_deq :: "'a phl_queue \<Rightarrow> ('a \<times> 'a phl_queue) option" where
  "pq_deq q =
     (case pq_pop q Pos_first of (True, PNode x, q') \<Rightarrow> Some (x, q') | _ \<Rightarrow> None)"

definition pq_counted :: "'a phl_queue \<Rightarrow> bool" where
  "pq_counted q \<longleftrightarrow> pq_cnt q = int (length (pq_queue q))"

lemma pq_wf_counted: "pq_wf q \<Longrightarrow> pq_counted q"
  by (simp add: pq_wf_def pq_counted_def)

interpretation pq: fifo_buffer pq_queue pq_counted "\<lambda>_. True" pq_enq pq_deq
  by unfold_locales (auto simp: pq_enq_def pq_deq_def pq_push_def pq_pop_def pq_counted_def)

section \<open>Functional behaviour\<close>

lemma pq_search_loop_None_iff:
  "pq_search_loop sf xs = None \<longleftrightarrow> (\<forall>f. sf = Some f \<longrightarrow> (\<forall>x \<in> set xs. \<not> f x))"
  by (induction xs) (auto split: option.splits)

lemma pq_search_loop_split:
  "pq_search_loop (Some f) xs = Some x \<Longrightarrow>
   \<exists>ys zs. xs = ys @ x # zs \<and> f x \<and> (\<forall>y \<in> set ys. \<not> f y)"
proof (induction xs)
  case (Cons a xs)
  show ?case
  proof (cases "f a")
    case True
    with Cons.prems show ?thesis by (intro exI [of _ "[]"] exI [of _ xs]) auto
  next
    case False
    with Cons obtain ys zs where "xs = ys @ x # zs" "f x" "\<forall>y \<in> set ys. \<not> f y" by auto
    with False show ?thesis by (intro exI [of _ "a # ys"] exI [of _ zs]) auto
  qed
qed simp

lemma list_next_append:
  "distinct (ys @ x # zs) \<Longrightarrow>
   list_next (ys @ x # zs) x = (case zs of [] \<Rightarrow> PHead | z # _ \<Rightarrow> PNode z)"
proof (induction ys)
  case Nil
  then show ?case by (cases zs) auto
next
  case (Cons y ys)
  then show ?case by (cases ys) auto
qed

text \<open>Insertion keeps a queue sorted when the predicate says that the new node goes first.\<close>

lemma sorted_pq_insert_loop:
  fixes key :: "'a \<Rightarrow> 'k::linorder"
  assumes "sorted (map key xs)"
  shows "sorted (map key (pq_insert_loop (Some (\<lambda>new obj. key new < key obj)) x xs))"
  using assms
proof (induction xs)
  case (Cons a xs)
  then show ?case by (auto simp: not_less intro: order_trans less_imp_le)
qed simp

lemma pq_insert_loop_stable:
  fixes key :: "'a \<Rightarrow> 'k::linorder"
  assumes "sorted (map key xs)"
  shows "filter (\<lambda>y. key y = key x) (pq_insert_loop (Some (\<lambda>new obj. key new < key obj)) x xs)
           = filter (\<lambda>y. key y = key x) xs @ [x]"
  using assms
proof (induction xs)
  case (Cons a xs)
  show ?case
  proof (cases "key x < key a")
    case True
    with Cons.prems have "\<forall>y \<in> set (a # xs). key y \<noteq> key x" by fastforce
    then have "filter (\<lambda>y. key y = key x) (a # xs) = []" by (simp only: filter_empty_conv)
    with True show ?thesis by simp
  next
    case False
    with Cons show ?thesis by simp
  qed
qed simp

section \<open>Properties\<close>



text \<open>
  \<^verbatim>\<open>pq_search_node\<close> returns the first node the search function accepts; with
  \<^verbatim>\<open>bdel\<close> it unlinks that node and no other, and without it it leaves the queue as it was.
\<close>

theorem pq_search_node_first_hit:
  assumes "pq_wf q" and "pq_search_node q bdel (Some f) = (True, obj, q')"
  shows "\<exists>ys x zs. pq_queue q = ys @ x # zs \<and> obj = PNode x \<and> f x \<and> (\<forall>y \<in> set ys. \<not> f y) \<and>
           (if bdel then pq_queue q' = ys @ zs \<and> pq_wf q' else q' = q)"
proof -
  from assms(2) obtain x where hit: "pq_search_loop (Some f) (pq_queue q) = Some x"
    and obj: "obj = PNode x"
    and q': "q' = (if bdel then q\<lparr>pq_queue := remove1 x (pq_queue q), pq_cnt := pq_cnt q - 1\<rparr> else q)"
    by (auto simp: pq_search_node_def split: if_splits option.splits)
  from pq_search_loop_split [OF hit] obtain ys zs where
    split: "pq_queue q = ys @ x # zs" "f x" "\<forall>y \<in> set ys. \<not> f y" by blast
  from assms(1) split have "remove1 x (pq_queue q) = ys @ zs"
    by (auto simp: pq_wf_def remove1_append)
  moreover have "pq_wf q'"
    using pq_wf_search [OF assms(1), of bdel "Some f"] assms(2) by simp
  ultimately show ?thesis using split obj q'
    by (intro exI [of _ ys] exI [of _ x] exI [of _ zs]) (cases bdel; simp)
qed

theorem pq_search_node_first_hit_witness:
  "pq_queue (snd (snd (pq_search_node \<lparr>pq_queue = [1::nat, 4, 6], pq_cnt = 3\<rparr> True (Some even))))
     = [1, 6]"
proof -
  let ?q = "\<lparr>pq_queue = [1::nat, 4, 6], pq_cnt = 3\<rparr>"
  have wf: "pq_wf ?q" by (simp add: pq_wf_def)
  have s: "pq_search_node ?q True (Some even) = (True, PNode 4, \<lparr>pq_queue = [1, 6], pq_cnt = 2\<rparr>)"
    by (simp add: pq_search_node_def)
  from pq_search_node_first_hit [OF wf s] s show ?thesis by simp
qed

text \<open>
  \<^verbatim>\<open>pq_insert\<close> with a predicate that compares keys keeps a sorted queue sorted, puts the
  new node behind the nodes of equal key, and links exactly that node in addition.
\<close>

theorem pq_insert_sorted:
  fixes key :: "'a \<Rightarrow> 'k::linorder"
  assumes "pq_wf q" and "sorted (map key (pq_queue q))" and "x \<notin> set (pq_queue q)"
    and "pq_insert q (Some (\<lambda>new obj. key new < key obj)) x = (r, q')"
  shows "r \<and> pq_wf q' \<and> sorted (map key (pq_queue q')) \<and>
         set (pq_queue q') = insert x (set (pq_queue q)) \<and>
         filter (\<lambda>y. key y = key x) (pq_queue q') = filter (\<lambda>y. key y = key x) (pq_queue q) @ [x]"
proof -
  from assms(4) have r: "r" and q': "q' = snd (pq_insert q (Some (\<lambda>new obj. key new < key obj)) x)"
    by (auto simp: pq_insert_def)
  show ?thesis using assms(1-3) r unfolding q'
    by (simp add: pq_wf_insert) (simp add: pq_insert_def sorted_pq_insert_loop pq_insert_loop_stable)
qed

theorem pq_insert_sorted_witness:
  "sorted (map fst (pq_queue (snd (pq_insert \<lparr>pq_queue = [(1::nat, ''a''), (5, ''b'')], pq_cnt = 2\<rparr>
     (Some (\<lambda>new obj. fst new < fst obj)) (3, ''c'')))))"
proof -
  let ?q = "\<lparr>pq_queue = [(1::nat, ''a''), (5, ''b'')], pq_cnt = 2\<rparr>"
  have "pq_wf ?q" "sorted (map fst (pq_queue ?q))" "(3, ''c'') \<notin> set (pq_queue ?q)"
    by (simp_all add: pq_wf_def)
  from pq_insert_sorted [OF this(1) this(2) this(3) surjective_pairing] show ?thesis by simp
qed

text \<open>
  The elapsed time is exact as long as the 32-bit clock has not wrapped since
  \<^verbatim>\<open>start\<close>, and one tick short of the wrapped difference once it has.
\<close>

theorem passing_time_wrap:
  "phl_get_passing_time_ms now start = (if start \<le> now then now - start else now - start - 1) \<and>
   phl_get_passing_time_us now start = phl_get_passing_time_ms now start"
  by (auto simp: phl_get_passing_time_ms_def phl_get_passing_time_us_def)

end
