(* ===== verification/Phl_Ring.thy ===== *)
theory Phl_Ring
  imports Phl_Fifo
begin

text \<open>
  The index rings between the layers: \<^verbatim>\<open>phl_calc_avail_rptr\<close> and
  \<^verbatim>\<open>phl_calc_avail_wptr\<close> of \<^verbatim>\<open>phl/phl_tx.c\<close>, the RX ring
  (\<^verbatim>\<open>struct rtw_phl_rx_ring\<close>: written by the PHL, read by the core) of
  \<^verbatim>\<open>phl/phl_rx.c\<close>, and the TX ring (\<^verbatim>\<open>struct rtw_phl_tx_ring\<close>: written by the
  core, read by the bus layer) of \<^verbatim>\<open>phl/phl_tx.c\<close>. Both rings have 4096 slots, of which
  one stays free; both are shown to be bounded FIFOs of 4095 entries.
\<close>

section \<open>Index arithmetic\<close>

definition phl_calc_avail_rptr :: "u16 \<Rightarrow> u16 \<Rightarrow> u16 \<Rightarrow> u16" where
  "phl_calc_avail_rptr rptr wptr bndy =
     (if wptr \<ge> rptr then wptr - rptr else if rptr > wptr then wptr + (bndy - rptr) else 0)"

definition phl_calc_avail_wptr :: "u16 \<Rightarrow> u16 \<Rightarrow> u16 \<Rightarrow> u16" where
  "phl_calc_avail_wptr rptr wptr bndy =
     (if rptr > wptr then rptr - wptr - 1
      else if wptr \<ge> rptr then rptr + (bndy - wptr) - 1 else 0)"

abbreviation MAX_PHL_RING_ENTRY_NUM :: u16 where
  "MAX_PHL_RING_ENTRY_NUM \<equiv> 4096"

text \<open>The number of filled slots between a read and a write index.\<close>

definition ring_fill :: "nat \<Rightarrow> nat \<Rightarrow> nat \<Rightarrow> nat" where
  "ring_fill n r w = (if r \<le> w then w - r else w + n - r)"

lemma avail_rptr_fill:
  assumes "unat r < unat n" and "unat w < unat n"
  shows "unat (phl_calc_avail_rptr r w n) = ring_fill (unat n) (unat r) (unat w)"
proof (cases "r \<le> w")
  case True
  then show ?thesis by (simp add: phl_calc_avail_rptr_def ring_fill_def unat_sub word_le_nat_alt)
next
  case False
  then have lt: "unat w < unat r" by (simp add: word_le_nat_alt)
  have "unat (n - r) = unat n - unat r" using assms by (simp add: unat_sub word_le_nat_alt)
  then have "unat (w + (n - r)) = unat w + (unat n - unat r)"
    using lt assms unat_u16_less [of n] by (subst unat_add_lem [THEN iffD1]) auto
  with False lt assms show ?thesis
    by (simp add: phl_calc_avail_rptr_def ring_fill_def word_le_nat_alt word_less_nat_alt)
qed

lemma avail_wptr_fill:
  assumes "unat r < unat n" and "unat w < unat n"
  shows "unat (phl_calc_avail_wptr r w n) = unat n - 1 - ring_fill (unat n) (unat r) (unat w)"
proof (cases "w < r")
  case True
  then have lt: "unat w < unat r" by (simp add: word_less_nat_alt)
  then have d: "unat (r - w) = unat r - unat w" by (simp add: unat_sub word_le_nat_alt)
  with lt have "unat (r - w - 1) = unat r - unat w - 1"
    by (subst unat_sub) (simp_all add: word_le_nat_alt)
  with True lt assms show ?thesis by (simp add: phl_calc_avail_wptr_def ring_fill_def)
next
  case False
  then have le: "unat r \<le> unat w" by (simp add: word_less_nat_alt)
  have d: "unat (n - w) = unat n - unat w" using assms by (simp add: unat_sub word_le_nat_alt)
  then have e: "unat (r + (n - w)) = unat r + (unat n - unat w)"
    using le assms unat_u16_less [of n] by (subst unat_add_lem [THEN iffD1]) auto
  then have "unat (r + (n - w) - 1) = unat r + (unat n - unat w) - 1"
    using assms by (subst unat_sub) (simp_all add: word_le_nat_alt)
  with False le assms show ?thesis
    by (simp add: phl_calc_avail_wptr_def ring_fill_def word_le_nat_alt word_less_nat_alt)
qed

section \<open>Slots of a ring\<close>

text \<open>
  What a ring holds: the slots after the read index up to the write index, wrapping at \<open>n\<close>.
\<close>

definition ring_contents :: "nat \<Rightarrow> 'a list \<Rightarrow> nat \<Rightarrow> nat \<Rightarrow> 'a list" where
  "ring_contents n e r w = map (\<lambda>k. e ! ((r + 1 + k) mod n)) [0..<ring_fill n r w]"

lemma length_ring_contents [simp]: "length (ring_contents n e r w) = ring_fill n r w"
  by (simp add: ring_contents_def)

lemma ring_fill_less: "r < n \<Longrightarrow> w < n \<Longrightarrow> ring_fill n r w < n"
  by (auto simp: ring_fill_def)

lemma ring_fill_write:
  assumes "r < n" and "w < n" and "ring_fill n r w < n - 1"
  shows "ring_fill n r ((w + 1) mod n) = Suc (ring_fill n r w)"
  using assms by (auto simp: ring_fill_def mod_Suc split: if_splits)

lemma ring_fill_read:
  assumes "r < n" and "w < n" and "0 < ring_fill n r w"
  shows "Suc (ring_fill n ((r + 1) mod n) w) = ring_fill n r w"
  using assms by (auto simp: ring_fill_def mod_Suc split: if_splits)

lemma ring_fill_last:
  assumes "r < n" and "w < n"
  shows "(r + 1 + ring_fill n r w) mod n = (w + 1) mod n"
  using assms by (auto simp: ring_fill_def mod_Suc split: if_splits)

lemma ring_contents_write:
  assumes "r < n" and "w < n" and "ring_fill n r w < n - 1" and "length e = n"
  shows "ring_contents n (e[(w + 1) mod n := x]) r ((w + 1) mod n) = ring_contents n e r w @ [x]"
proof -
  let ?f = "ring_fill n r w"
  have eq: "ring_fill n r ((w + 1) mod n) = Suc ?f" using assms by (intro ring_fill_write)
  have l: "(r + 1 + ?f) mod n = (w + 1) mod n" using assms by (intro ring_fill_last)
  have ne: "(r + 1 + k) mod n \<noteq> (w + 1) mod n" if "k < ?f" for k
  proof
    assume "(r + 1 + k) mod n = (w + 1) mod n"
    with l have "(r + 1 + k) mod n = (r + 1 + ?f) mod n" by simp
    then have "n dvd (r + 1 + ?f) - (r + 1 + k)"
      using that by (subst mod_eq_dvd_iff_nat [symmetric]) simp_all
    then have "n dvd ?f - k" by simp
    with that assms(3) show False using nat_dvd_not_less [of "?f - k" n] by linarith
  qed
  have "ring_contents n (e[(w + 1) mod n := x]) r ((w + 1) mod n)
      = map (\<lambda>k. e[(w + 1) mod n := x] ! ((r + 1 + k) mod n)) [0..<?f] @ [x]"
    using l assms by (simp only: ring_contents_def eq upt_Suc) simp
  also have "map (\<lambda>k. e[(w + 1) mod n := x] ! ((r + 1 + k) mod n)) [0..<?f] = ring_contents n e r w"
    unfolding ring_contents_def
  proof (rule map_cong [OF refl])
    fix k assume "k \<in> set [0..<?f]"
    then have "(w + 1) mod n \<noteq> (r + 1 + k) mod n" using ne [of k] by (metis atLeastLessThan_iff set_upt)
    then show "e[(w + 1) mod n := x] ! ((r + 1 + k) mod n) = e ! ((r + 1 + k) mod n)" by simp
  qed
  finally show ?thesis .
qed

text \<open>Reading the front entry, whatever the slot it came from is overwritten with.\<close>

lemma ring_contents_read:
  assumes "r < n" and "w < n" and "0 < ring_fill n r w" and "length e = n"
  shows "ring_contents n e r w =
     e ! ((r + 1) mod n) # ring_contents n (e[(r + 1) mod n := y]) ((r + 1) mod n) w"
proof (rule nth_equalityI)
  have f: "Suc (ring_fill n ((r + 1) mod n) w) = ring_fill n r w" using assms by (intro ring_fill_read)
  then show "length (ring_contents n e r w) =
      length (e ! ((r + 1) mod n) # ring_contents n (e[(r + 1) mod n := y]) ((r + 1) mod n) w)" by simp
  fix i assume "i < length (ring_contents n e r w)"
  then have i: "i < ring_fill n r w" by simp
  show "ring_contents n e r w ! i =
      (e ! ((r + 1) mod n) # ring_contents n (e[(r + 1) mod n := y]) ((r + 1) mod n) w) ! i"
  proof (cases i)
    case 0
    with i show ?thesis by (simp add: ring_contents_def)
  next
    case (Suc k)
    have ne: "(r + 1) mod n \<noteq> (r + 1 + Suc k) mod n"
    proof
      assume "(r + 1) mod n = (r + 1 + Suc k) mod n"
      then have "n dvd (r + 1 + Suc k) - (r + 1)"
        by (subst mod_eq_dvd_iff_nat [symmetric]) simp_all
      then have "n dvd Suc k" by simp
      with i Suc show False
        using ring_fill_less [OF assms(1,2)] nat_dvd_not_less [of "Suc k" n] by linarith
    qed
    have "((r + 1) mod n + 1 + k) mod n = (r + 1 + Suc k) mod n"
      using mod_add_left_eq [of "r + 1" n "1 + k"] by (simp add: ac_simps)
    with ne i Suc f show ?thesis by (simp add: ring_contents_def del: add_Suc_right add_Suc)
  qed
qed

section \<open>The RX ring\<close>

text \<open>
  The indices are \<^verbatim>\<open>_os_atomic\<close> integers that every reader casts to \<^verbatim>\<open>u16\<close>.
\<close>

record 'p rtw_phl_rx_ring =
  rx_core_idx :: u32
  rx_phl_idx :: u32
  rx_entry :: "'p option list"

definition rx_ring_init :: "'p rtw_phl_rx_ring" where
  "rx_ring_init = \<lparr>rx_core_idx = 0, rx_phl_idx = 0, rx_entry = replicate 4096 None\<rparr>"

text \<open>
  \<^verbatim>\<open>_phl_add_rx_pkt\<close>. \<^verbatim>\<open>PHL_RX_BATCH_IND\<close> is not defined, so the status of a packet
  that was stored is still the initial \<^verbatim>\<open>RTW_PHL_STATUS_FAILURE\<close>.
\<close>

definition phl_add_rx_pkt ::
  "'p rtw_phl_rx_ring \<Rightarrow> 'p \<Rightarrow> rtw_phl_status \<times> 'p rtw_phl_rx_ring" where
  "phl_add_rx_pkt ring recvpkt =
     (let wptr = ucast (rx_phl_idx ring) :: u16;
          rptr = ucast (rx_core_idx ring) :: u16;
          ring_res = phl_calc_avail_wptr rptr wptr MAX_PHL_RING_ENTRY_NUM
      in
      if ring_res \<le> 0 then (RTW_PHL_STATUS_RESOURCE, ring)
      else
        let wptr = wptr + 1;
            wptr = (if wptr \<ge> MAX_PHL_RING_ENTRY_NUM then 0 else wptr);
            ring = ring\<lparr>rx_entry := (rx_entry ring)[unat wptr := Some recvpkt]\<rparr>;
            ring = (if wptr \<noteq> 0 then ring\<lparr>rx_phl_idx := rx_phl_idx ring + 1\<rparr>
                    else ring\<lparr>rx_phl_idx := 0\<rparr>)
        in (RTW_PHL_STATUS_FAILURE, ring))"

definition phl_check_recv_ring_resource :: "'p rtw_phl_rx_ring \<Rightarrow> bool" where
  "phl_check_recv_ring_resource ring =
     (let wptr = ucast (rx_phl_idx ring) :: u16;
          rptr = ucast (rx_core_idx ring) :: u16;
          avail = phl_calc_avail_wptr rptr wptr MAX_PHL_RING_ENTRY_NUM
      in if 0 = avail then False else True)"

definition rtw_phl_query_new_rx_num :: "'p rtw_phl_rx_ring option \<Rightarrow> u16" where
  "rtw_phl_query_new_rx_num phl_info =
     (case phl_info of
        None \<Rightarrow> 0
      | Some ring \<Rightarrow>
          let wptr = ucast (rx_phl_idx ring) :: u16; rptr = ucast (rx_core_idx ring) :: u16
          in phl_calc_avail_rptr rptr wptr MAX_PHL_RING_ENTRY_NUM)"

text \<open>
  The ring part of \<^verbatim>\<open>rtw_phl_query_rx_pkt\<close>: the packet the core gets and the new ring.
\<close>

definition query_rx_ring ::
  "'p rtw_phl_rx_ring \<Rightarrow> 'p option \<times> 'p rtw_phl_rx_ring" where
  "query_rx_ring ring =
     (let wptr = ucast (rx_phl_idx ring) :: u16;
          rptr = ucast (rx_core_idx ring) :: u16;
          ring_res = phl_calc_avail_rptr rptr wptr MAX_PHL_RING_ENTRY_NUM
      in
      if ring_res > 0 then
        let rptr = rptr + 1 in
        if rptr \<ge> MAX_PHL_RING_ENTRY_NUM then
          (rx_entry ring ! 0, ring\<lparr>rx_entry := (rx_entry ring)[0 := None], rx_core_idx := 0\<rparr>)
        else
          (rx_entry ring ! unat rptr,
           ring\<lparr>rx_entry := (rx_entry ring)[unat rptr := None], rx_core_idx := rx_core_idx ring + 1\<rparr>)
      else (None, ring))"

section \<open>The TX ring\<close>

text \<open>
  A TX ring of a (macid, TID) pair. \<^verbatim>\<open>core_idx\<close> is moved by the core under the ring list
  lock, \<^verbatim>\<open>phl_idx\<close> by the bus layer once the request at \<^verbatim>\<open>phl_next_idx\<close> is taken.
\<close>

record 'p rtw_phl_tx_ring =
  tid :: u8
  dma_ch :: u8
  band :: u8
  tx_thres :: u16
  core_idx :: u16
  phl_idx :: u32
  phl_next_idx :: u32
  entry :: "'p option list"

text \<open>The part of \<^verbatim>\<open>rtw_phl_add_tx_req\<close> that works on the ring it found.\<close>

definition ring_add_tx_req ::
  "'p rtw_phl_tx_ring \<Rightarrow> 'p \<Rightarrow> rtw_phl_status \<times> 'p rtw_phl_tx_ring" where
  "ring_add_tx_req ring tx_req =
     (let rptr = ucast (phl_idx ring) :: u16;
          ring_res = phl_calc_avail_wptr rptr (core_idx ring) MAX_PHL_RING_ENTRY_NUM
      in
      if ring_res > 0 then
        let idx = (core_idx ring + 1) mod MAX_PHL_RING_ENTRY_NUM
        in (RTW_PHL_STATUS_SUCCESS,
            ring\<lparr>core_idx := idx, entry := (entry ring)[unat idx := Some tx_req]\<rparr>)
      else (RTW_PHL_STATUS_RESOURCE, ring))"

text \<open>
  The reader's side, one request: \<^verbatim>\<open>_phl_check_ring_status\<close> points
  \<^verbatim>\<open>phl_next_idx\<close> behind the last request taken, and the bus layer's transmit loop moves
  \<^verbatim>\<open>phl_idx\<close> there when it has taken the request.
\<close>

definition ring_mark_next :: "'p rtw_phl_tx_ring \<Rightarrow> 'p rtw_phl_tx_ring" where
  "ring_mark_next ring =
     (let rptr = (ucast (phl_idx ring) :: u16) + 1
      in if rptr \<ge> MAX_PHL_RING_ENTRY_NUM then ring\<lparr>phl_next_idx := 0\<rparr>
         else ring\<lparr>phl_next_idx := ucast rptr\<rparr>)"

definition ring_take_next :: "'p rtw_phl_tx_ring \<Rightarrow> 'p option \<times> 'p rtw_phl_tx_ring" where
  "ring_take_next ring =
     (let rptr = ucast (phl_next_idx ring) :: u16
      in (entry ring ! unat rptr, ring\<lparr>phl_idx := ucast rptr\<rparr>))"

section \<open>The RX ring is a bounded FIFO\<close>

definition rx_ring_wf :: "'p rtw_phl_rx_ring \<Rightarrow> bool" where
  "rx_ring_wf ring \<longleftrightarrow>
     unat (rx_core_idx ring) < 4096 \<and> unat (rx_phl_idx ring) < 4096 \<and> length (rx_entry ring) = 4096 \<and>
     (\<forall>x \<in> set (ring_contents 4096 (rx_entry ring) (unat (rx_core_idx ring)) (unat (rx_phl_idx ring))).
        x \<noteq> None)"

definition rx_ring_contents :: "'p rtw_phl_rx_ring \<Rightarrow> 'p list" where
  "rx_ring_contents ring =
     map the (ring_contents 4096 (rx_entry ring) (unat (rx_core_idx ring)) (unat (rx_phl_idx ring)))"

definition rx_enq :: "'p rtw_phl_rx_ring \<Rightarrow> 'p \<Rightarrow> 'p rtw_phl_rx_ring option" where
  "rx_enq ring pkt =
     (case phl_add_rx_pkt ring pkt of
        (sts, ring') \<Rightarrow> if sts = RTW_PHL_STATUS_RESOURCE then None else Some ring')"

definition rx_deq :: "'p rtw_phl_rx_ring \<Rightarrow> ('p \<times> 'p rtw_phl_rx_ring) option" where
  "rx_deq ring = (case query_rx_ring ring of (None, _) \<Rightarrow> None | (Some p, ring') \<Rightarrow> Some (p, ring'))"

lemma unat_idx_u16: "unat x < 4096 \<Longrightarrow> unat (ucast x :: u16) = unat x" for x :: u32
  by (simp add: unsigned_ucast_eq take_bit_eq_mod)

lemma unat_4096 [simp]: "unat (4096 :: u16) = 4096"
  by simp

text \<open>Moving an index forward with a wrap at 4096, as both rings do it.\<close>

lemma unat_idx_wrap:
  assumes "unat (w :: u16) < 4096"
  shows "unat (if w + 1 \<ge> 4096 then 0 else w + 1) = (unat w + 1) mod 4096"
    and "w + 1 \<ge> 4096 \<longleftrightarrow> unat w = 4095"
proof -
  have e: "unat (w + 1) = unat w + 1" using assms by (subst unat_word_ariths) simp
  then show "w + 1 \<ge> 4096 \<longleftrightarrow> unat w = 4095" using assms by (auto simp: word_le_nat_alt)
  with e show "unat (if w + 1 \<ge> 4096 then 0 else w + 1) = (unat w + 1) mod 4096"
    using assms by (auto simp: mod_Suc)
qed

lemma unat_u32_inc: "unat x < 4095 \<Longrightarrow> unat (x + 1) = unat x + 1" for x :: u32
  by (subst unat_word_ariths) simp

lemma rx_ring_step_idx:
  assumes "unat (x :: u32) < 4096"
  shows "unat (if (if (ucast x :: u16) + 1 \<ge> 4096 then 0 else (ucast x :: u16) + 1) \<noteq> 0 then x + 1 else 0)
           = (unat x + 1) mod 4096"
proof -
  have u: "unat (ucast x :: u16) = unat x" using assms by (rule unat_idx_u16)
  show ?thesis
  proof (cases "unat x = 4095")
    case True
    then show ?thesis using unat_idx_wrap(2) [of "ucast x"] u by simp
  next
    case False
    then have lt: "unat x < 4095" using assms by simp
    have "unat ((ucast x :: u16) + 1) = unat x + 1"
      using u lt by (subst unat_word_ariths) simp
    then have "(ucast x :: u16) + 1 \<noteq> 0" by auto
    then show ?thesis using unat_idx_wrap(2) [of "ucast x"] u False lt
      by (simp add: unat_u32_inc)
  qed
qed

lemma rx_ring_idxD:
  assumes "rx_ring_wf ring"
  shows "unat (rx_core_idx ring) < 4096" "unat (rx_phl_idx ring) < 4096" "length (rx_entry ring) = 4096"
  using assms by (auto simp: rx_ring_wf_def)

lemma rx_avail:
  assumes "rx_ring_wf ring"
  shows "unat (phl_calc_avail_wptr (ucast (rx_core_idx ring)) (ucast (rx_phl_idx ring)) 4096)
           = 4095 - length (rx_ring_contents ring)"
    and "unat (phl_calc_avail_rptr (ucast (rx_core_idx ring)) (ucast (rx_phl_idx ring)) 4096)
           = length (rx_ring_contents ring)"
  using rx_ring_idxD [OF assms]
  by (simp_all add: avail_wptr_fill avail_rptr_fill unat_idx_u16 rx_ring_contents_def)

lemma rx_add_full:
  assumes "rx_ring_wf ring" and "length (rx_ring_contents ring) = 4095"
  shows "phl_add_rx_pkt ring pkt = (RTW_PHL_STATUS_RESOURCE, ring)"
proof -
  have "unat (phl_calc_avail_wptr (ucast (rx_core_idx ring)) (ucast (rx_phl_idx ring)) 4096) = 0"
    using rx_avail(1) [OF assms(1)] assms(2) by simp
  then show ?thesis by (simp add: phl_add_rx_pkt_def unat_eq_0)
qed

lemma rx_add_room:
  assumes wf: "rx_ring_wf ring" and room: "length (rx_ring_contents ring) < 4095"
  shows "\<exists>ring'. phl_add_rx_pkt ring pkt = (RTW_PHL_STATUS_FAILURE, ring') \<and> rx_ring_wf ring' \<and>
           rx_ring_contents ring' = rx_ring_contents ring @ [pkt]"
proof -
  note D = rx_ring_idxD [OF wf]
  let ?w = "unat (rx_phl_idx ring)" and ?r = "unat (rx_core_idx ring)"
  let ?x = "if (ucast (rx_phl_idx ring) :: u16) + 1 \<ge> 4096 then 0 else (ucast (rx_phl_idx ring) :: u16) + 1"
  have x: "unat ?x = (?w + 1) mod 4096"
    using unat_idx_wrap(1) [of "ucast (rx_phl_idx ring)"] unat_idx_u16 [OF D(2)] D(2) by simp
  let ?ring = "ring\<lparr>rx_entry := (rx_entry ring)[(?w + 1) mod 4096 := Some pkt],
                    rx_phl_idx := if ?x \<noteq> 0 then rx_phl_idx ring + 1 else 0\<rparr>"
  have "\<not> phl_calc_avail_wptr (ucast (rx_core_idx ring)) (ucast (rx_phl_idx ring)) 4096 \<le> 0"
    using rx_avail(1) [OF wf] room by (auto simp: word_le_nat_alt)
  then have add: "phl_add_rx_pkt ring pkt = (RTW_PHL_STATUS_FAILURE, ?ring)"
    unfolding phl_add_rx_pkt_def Let_def by (simp only: x [symmetric]) simp
  have c: "ring_contents 4096 (rx_entry ?ring) ?r (unat (rx_phl_idx ?ring)) =
      ring_contents 4096 (rx_entry ring) ?r ?w @ [Some pkt]"
    using ring_contents_write [of ?r 4096 ?w "rx_entry ring" "Some pkt"] D room rx_ring_step_idx [OF D(2)]
    by (simp add: rx_ring_contents_def split del: if_split)
  have "rx_ring_wf ?ring"
    using wf c D rx_ring_step_idx [OF D(2)] by (simp add: rx_ring_wf_def split del: if_split)
  moreover have "rx_ring_contents ?ring = rx_ring_contents ring @ [pkt]"
    using c by (simp add: rx_ring_contents_def split del: if_split)
  ultimately show ?thesis using add by blast
qed

lemma rx_query_empty:
  assumes "rx_ring_wf ring" and "rx_ring_contents ring = []"
  shows "query_rx_ring ring = (None, ring)"
proof -
  have "unat (phl_calc_avail_rptr (ucast (rx_core_idx ring)) (ucast (rx_phl_idx ring)) 4096) = 0"
    using rx_avail(2) [OF assms(1)] assms(2) by simp
  then show ?thesis by (simp add: query_rx_ring_def unat_eq_0)
qed

lemma rx_query_next:
  assumes wf: "rx_ring_wf ring" and c: "rx_ring_contents ring = pkt # pkts"
  shows "\<exists>ring'. query_rx_ring ring = (Some pkt, ring') \<and> rx_ring_wf ring' \<and>
           rx_ring_contents ring' = pkts"
proof -
  note D = rx_ring_idxD [OF wf]
  let ?w = "unat (rx_phl_idx ring)" and ?r = "unat (rx_core_idx ring)"
  let ?e = "(rx_entry ring)[(?r + 1) mod 4096 := None]"
  let ?ring = "ring\<lparr>rx_entry := ?e, rx_core_idx := if ?r = 4095 then 0 else rx_core_idx ring + 1\<rparr>"
  have u: "unat (ucast (rx_core_idx ring) :: u16) = ?r" using D(1) by (rule unat_idx_u16)
  have "phl_calc_avail_rptr (ucast (rx_core_idx ring)) (ucast (rx_phl_idx ring)) 4096 > 0"
    using rx_avail(2) [OF wf] c by (simp add: word_less_nat_alt)
  then have q: "query_rx_ring ring = (rx_entry ring ! ((?r + 1) mod 4096), ?ring)"
    using unat_idx_wrap [of "ucast (rx_core_idx ring)"] u D(1)
    by (auto simp: query_rx_ring_def Let_def split: if_splits)
  have idx: "unat (rx_core_idx ?ring) = (?r + 1) mod 4096"
    using D(1) by (auto simp: unat_u32_inc mod_Suc)
  have fill: "0 < ring_fill 4096 ?r ?w" using c by (simp add: rx_ring_contents_def flip: length_greater_0_conv)
      (metis length_ring_contents list.map(1) list.distinct(1) neq0_conv length_0_conv)
  have rc: "ring_contents 4096 (rx_entry ring) ?r ?w =
      rx_entry ring ! ((?r + 1) mod 4096) # ring_contents 4096 ?e ((?r + 1) mod 4096) ?w"
    using D fill by (intro ring_contents_read) simp_all
  have "rx_entry ring ! ((?r + 1) mod 4096) \<noteq> None" using wf rc by (simp add: rx_ring_wf_def)
  then have "rx_entry ring ! ((?r + 1) mod 4096) = Some pkt" using c rc by (auto simp: rx_ring_contents_def)
  moreover have "rx_ring_wf ?ring" using wf rc D idx by (simp add: rx_ring_wf_def split del: if_split)
  moreover have "rx_ring_contents ?ring = pkts"
    using c rc idx by (simp add: rx_ring_contents_def split del: if_split)
  ultimately show ?thesis using q by auto
qed

lemma rx_contents_le: "rx_ring_wf ring \<Longrightarrow> length (rx_ring_contents ring) \<le> 4095"
  using ring_fill_less [of "unat (rx_core_idx ring)" 4096 "unat (rx_phl_idx ring)"]
  by (simp add: rx_ring_wf_def rx_ring_contents_def)

interpretation rxr: bounded_fifo rx_ring_contents rx_ring_wf
  "\<lambda>ring. length (rx_ring_contents ring) < 4095" rx_enq rx_deq 4095
proof unfold_locales
  fix q :: "'p rtw_phl_rx_ring" and x :: 'p
  assume wf: "rx_ring_wf q"
  show "length (rx_ring_contents q) < 4095 \<Longrightarrow>
      \<exists>q'. rx_enq q x = Some q' \<and> rx_ring_wf q' \<and> rx_ring_contents q' = rx_ring_contents q @ [x]"
    using rx_add_room [OF wf, of x] by (auto simp: rx_enq_def)
  show "\<not> length (rx_ring_contents q) < 4095 \<Longrightarrow> rx_enq q x = None"
    using rx_add_full [OF wf, of x] rx_contents_le [OF wf] by (simp add: rx_enq_def)
  show "rx_ring_contents q = [] \<Longrightarrow> rx_deq q = None"
    using rx_query_empty [OF wf] by (simp add: rx_deq_def)
  show "length (rx_ring_contents q) \<le> 4095" using wf by (rule rx_contents_le)
next
  fix q :: "'p rtw_phl_rx_ring" and x :: 'p and xs
  assume "rx_ring_wf q" and "rx_ring_contents q = x # xs"
  from rx_query_next [OF this]
  show "\<exists>q'. rx_deq q = Some (x, q') \<and> rx_ring_wf q' \<and> rx_ring_contents q' = xs"
    by (auto simp: rx_deq_def)
qed simp

section \<open>The TX ring is a bounded FIFO\<close>

definition tx_ring_wf :: "'p rtw_phl_tx_ring \<Rightarrow> bool" where
  "tx_ring_wf ring \<longleftrightarrow>
     unat (phl_idx ring) < 4096 \<and> unat (core_idx ring) < 4096 \<and> length (entry ring) = 4096 \<and>
     (\<forall>x \<in> set (ring_contents 4096 (entry ring) (unat (phl_idx ring)) (unat (core_idx ring))).
        x \<noteq> None)"

definition tx_ring_contents :: "'p rtw_phl_tx_ring \<Rightarrow> 'p list" where
  "tx_ring_contents ring =
     map the (ring_contents 4096 (entry ring) (unat (phl_idx ring)) (unat (core_idx ring)))"

definition tx_enq :: "'p rtw_phl_tx_ring \<Rightarrow> 'p \<Rightarrow> 'p rtw_phl_tx_ring option" where
  "tx_enq ring req =
     (case ring_add_tx_req ring req of
        (sts, ring') \<Rightarrow> if sts = RTW_PHL_STATUS_SUCCESS then Some ring' else None)"

definition tx_deq :: "'p rtw_phl_tx_ring \<Rightarrow> ('p \<times> 'p rtw_phl_tx_ring) option" where
  "tx_deq ring =
     (if phl_calc_avail_rptr (ucast (phl_idx ring)) (core_idx ring) MAX_PHL_RING_ENTRY_NUM = 0 then None
      else case ring_take_next (ring_mark_next ring) of
             (None, _) \<Rightarrow> None | (Some req, ring') \<Rightarrow> Some (req, ring'))"

lemma tx_ring_idxD:
  assumes "tx_ring_wf ring"
  shows "unat (phl_idx ring) < 4096" "unat (core_idx ring) < 4096" "length (entry ring) = 4096"
  using assms by (auto simp: tx_ring_wf_def)

lemma tx_avail:
  assumes "tx_ring_wf ring"
  shows "unat (phl_calc_avail_wptr (ucast (phl_idx ring)) (core_idx ring) 4096)
           = 4095 - length (tx_ring_contents ring)"
    and "unat (phl_calc_avail_rptr (ucast (phl_idx ring)) (core_idx ring) 4096)
           = length (tx_ring_contents ring)"
  using tx_ring_idxD [OF assms]
  by (simp_all add: avail_wptr_fill avail_rptr_fill unat_idx_u16 tx_ring_contents_def)

lemma tx_contents_le: "tx_ring_wf ring \<Longrightarrow> length (tx_ring_contents ring) \<le> 4095"
  using ring_fill_less [of "unat (phl_idx ring)" 4096 "unat (core_idx ring)"]
  by (simp add: tx_ring_wf_def tx_ring_contents_def)

lemma tx_add_room:
  assumes wf: "tx_ring_wf ring" and room: "length (tx_ring_contents ring) < 4095"
  shows "\<exists>ring'. ring_add_tx_req ring req = (RTW_PHL_STATUS_SUCCESS, ring') \<and> tx_ring_wf ring' \<and>
           tx_ring_contents ring' = tx_ring_contents ring @ [req] \<and> tid ring' = tid ring"
proof -
  note D = tx_ring_idxD [OF wf]
  let ?w = "unat (core_idx ring)" and ?r = "unat (phl_idx ring)"
  let ?x = "(core_idx ring + 1) mod 4096"
  have x: "unat ?x = (?w + 1) mod 4096"
  proof -
    have "unat (core_idx ring + 1) = ?w + 1" using D(2) by (subst unat_word_ariths) simp
    then show ?thesis by (simp add: unat_mod)
  qed
  let ?ring = "ring\<lparr>core_idx := ?x, entry := (entry ring)[unat ?x := Some req]\<rparr>"
  have "phl_calc_avail_wptr (ucast (phl_idx ring)) (core_idx ring) 4096 > 0"
    using tx_avail(1) [OF wf] room by (auto simp: word_less_nat_alt)
  then have add: "ring_add_tx_req ring req = (RTW_PHL_STATUS_SUCCESS, ?ring)"
    by (simp add: ring_add_tx_req_def Let_def)
  have c: "ring_contents 4096 (entry ?ring) ?r (unat (core_idx ?ring)) =
      ring_contents 4096 (entry ring) ?r ?w @ [Some req]"
    using ring_contents_write [of ?r 4096 ?w "entry ring" "Some req"] D room
    by (simp add: tx_ring_contents_def x)
  have "tx_ring_wf ?ring"
    using wf c D x by (simp add: tx_ring_wf_def)
  moreover have "tx_ring_contents ?ring = tx_ring_contents ring @ [req]"
    using c by (simp add: tx_ring_contents_def)
  ultimately show ?thesis using add by auto
qed

lemma tx_add_full:
  assumes "tx_ring_wf ring" and "length (tx_ring_contents ring) = 4095"
  shows "ring_add_tx_req ring req = (RTW_PHL_STATUS_RESOURCE, ring)"
proof -
  have "unat (phl_calc_avail_wptr (ucast (phl_idx ring)) (core_idx ring) 4096) = 0"
    using tx_avail(1) [OF assms(1)] assms(2) by simp
  then show ?thesis by (simp add: ring_add_tx_req_def unat_eq_0)
qed

lemma mark_next_idx:
  assumes "unat (phl_idx ring) < 4096"
  shows "unat (phl_next_idx (ring_mark_next ring)) = (unat (phl_idx ring) + 1) mod 4096"
proof -
  have u: "unat (ucast (phl_idx ring) :: u16) = unat (phl_idx ring)" using assms by (rule unat_idx_u16)
  then have "unat (if (ucast (phl_idx ring) :: u16) + 1 \<ge> 4096 then 0 else (ucast (phl_idx ring) :: u16) + 1)
      = (unat (phl_idx ring) + 1) mod 4096"
    using unat_idx_wrap(1) [of "ucast (phl_idx ring)"] assms by simp
  moreover have "unat (ucast x :: u32) = unat x" for x :: u16
    using unat_u16_less [of x] by (simp add: unsigned_ucast_eq take_bit_nat_eq_self)
  ultimately show ?thesis by (auto simp: ring_mark_next_def Let_def split: if_splits)
qed

lemma mark_next_frame [simp]:
  "phl_idx (ring_mark_next ring) = phl_idx ring" "core_idx (ring_mark_next ring) = core_idx ring"
  "entry (ring_mark_next ring) = entry ring" "tid (ring_mark_next ring) = tid ring"
  by (simp_all add: ring_mark_next_def Let_def)

text \<open>Once the reader points at the next request, taking it removes the front of the ring.\<close>

lemma tx_take_next:
  assumes wf: "tx_ring_wf ring" and c: "tx_ring_contents ring = req # reqs"
    and nxt: "unat (phl_next_idx ring) = (unat (phl_idx ring) + 1) mod 4096"
  shows "\<exists>ring'. ring_take_next ring = (Some req, ring') \<and> tx_ring_wf ring' \<and>
           tx_ring_contents ring' = reqs \<and> phl_idx ring' = phl_next_idx ring"
proof -
  note D = tx_ring_idxD [OF wf]
  let ?w = "unat (core_idx ring)" and ?r = "unat (phl_idx ring)"
  have lt: "unat (phl_next_idx ring) < 4096" using nxt by simp
  have u: "unat (ucast (phl_next_idx ring) :: u16) = (?r + 1) mod 4096"
    using unat_idx_u16 [OF lt] nxt by simp
  have cc: "ucast (ucast (phl_next_idx ring) :: u16) = phl_next_idx ring"
    using lt by (simp add: word_unat_eq_iff unsigned_ucast_eq unsigned_take_bit_eq take_bit_nat_eq_self)
  let ?ring = "ring\<lparr>phl_idx := phl_next_idx ring\<rparr>"
  have t: "ring_take_next ring = (entry ring ! ((?r + 1) mod 4096), ?ring)"
    by (simp add: ring_take_next_def Let_def u cc)
  have fill: "0 < ring_fill 4096 ?r ?w"
    using arg_cong [OF c, of length] by (simp add: tx_ring_contents_def)
  have rc: "ring_contents 4096 (entry ring) ?r ?w =
      entry ring ! ((?r + 1) mod 4096) # ring_contents 4096 (entry ring) ((?r + 1) mod 4096) ?w"
    using ring_contents_read [of ?r 4096 ?w "entry ring" "entry ring ! ((?r + 1) mod 4096)"] D fill
    by simp
  have "entry ring ! ((?r + 1) mod 4096) = Some req"
    using wf c rc by (auto simp: tx_ring_wf_def tx_ring_contents_def)
  moreover have "tx_ring_wf ?ring" using wf rc D nxt by (simp add: tx_ring_wf_def)
  moreover have "tx_ring_contents ?ring = reqs" using c rc nxt by (simp add: tx_ring_contents_def)
  ultimately show ?thesis using t by auto
qed

lemma tx_wf_mark_next [simp]: "tx_ring_wf (ring_mark_next ring) = tx_ring_wf ring"
  by (simp add: tx_ring_wf_def)

lemma tx_contents_mark_next [simp]: "tx_ring_contents (ring_mark_next ring) = tx_ring_contents ring"
  by (simp add: tx_ring_contents_def)

interpretation txr: bounded_fifo tx_ring_contents tx_ring_wf
  "\<lambda>ring. length (tx_ring_contents ring) < 4095" tx_enq tx_deq 4095
proof unfold_locales
  fix q :: "'p rtw_phl_tx_ring" and x :: 'p
  assume wf: "tx_ring_wf q"
  show "length (tx_ring_contents q) < 4095 \<Longrightarrow>
      \<exists>q'. tx_enq q x = Some q' \<and> tx_ring_wf q' \<and> tx_ring_contents q' = tx_ring_contents q @ [x]"
    using tx_add_room [OF wf, of x] by (auto simp: tx_enq_def)
  show "\<not> length (tx_ring_contents q) < 4095 \<Longrightarrow> tx_enq q x = None"
    using tx_add_full [OF wf, of x] tx_contents_le [OF wf] by (simp add: tx_enq_def)
  show "tx_ring_contents q = [] \<Longrightarrow> tx_deq q = None"
    using tx_avail(2) [OF wf] by (simp add: tx_deq_def unat_eq_0)
  show "length (tx_ring_contents q) \<le> 4095" using wf by (rule tx_contents_le)
next
  fix q :: "'p rtw_phl_tx_ring" and x :: 'p and xs
  assume wf: "tx_ring_wf q" and c: "tx_ring_contents q = x # xs"
  have "phl_calc_avail_rptr (ucast (phl_idx q)) (core_idx q) 4096 \<noteq> 0"
    using tx_avail(2) [OF wf] c by (auto simp: unat_eq_0)
  with tx_take_next [of "ring_mark_next q" x xs] wf c mark_next_idx [of q] tx_ring_idxD [OF wf]
  show "\<exists>q'. tx_deq q = Some (x, q') \<and> tx_ring_wf q' \<and> tx_ring_contents q' = xs"
    by (auto simp: tx_deq_def)
qed simp

section \<open>Properties\<close>

text \<open>
  for indices within the ring, the two distance functions count the filled and the free slots:
  together they always leave exactly one slot unused, without 16-bit overflow.
\<close>

theorem ring_distances_partition:
  assumes "unat r < unat n" and "unat w < unat n"
  shows "unat (phl_calc_avail_rptr r w n) + unat (phl_calc_avail_wptr r w n) = unat n - 1 \<and>
         int (unat (phl_calc_avail_rptr r w n)) = (int (unat w) - int (unat r)) mod int (unat n)"
proof -
  have "int (ring_fill (unat n) (unat r) (unat w)) = (int (unat w) - int (unat r)) mod int (unat n)"
  proof (cases "unat r \<le> unat w")
    case True
    then have "(int (unat w) - int (unat r)) mod int (unat n) = int (unat w) - int (unat r)"
      using assms by (intro mod_pos_pos_trivial) linarith+
    with True show ?thesis by (simp add: ring_fill_def)
  next
    case False
    have "(int (unat w) - int (unat r)) mod int (unat n)
        = (int (unat w) - int (unat r) + int (unat n)) mod int (unat n)" by simp
    also have "\<dots> = int (unat w) - int (unat r) + int (unat n)"
      using False assms by (intro mod_pos_pos_trivial) linarith+
    finally show ?thesis using False assms by (simp add: ring_fill_def)
  qed
  moreover have "ring_fill (unat n) (unat r) (unat w) < unat n" using assms by (rule ring_fill_less)
  ultimately show ?thesis using avail_rptr_fill [OF assms] avail_wptr_fill [OF assms] by simp
qed

theorem ring_distances_partition_witness:
  "unat (phl_calc_avail_rptr 4090 5 4096) + unat (phl_calc_avail_wptr 4090 5 4096) = 4095"
  using ring_distances_partition [of 4090 4096 5] by simp


lemma rx_ring_init_wf: "rx_ring_wf rx_ring_init"
  by (simp add: rx_ring_wf_def rx_ring_init_def ring_contents_def ring_fill_def)

lemma rx_ring_init_empty: "rx_ring_contents rx_ring_init = []"
  by (simp add: rx_ring_contents_def rx_ring_init_def ring_contents_def ring_fill_def)


text \<open>
  Storing a packet in the RX ring never reports success: the status is
  \<^verbatim>\<open>RTW_PHL_STATUS_RESOURCE\<close> when the ring is full and \<^verbatim>\<open>RTW_PHL_STATUS_FAILURE\<close>
  otherwise, so that the per-station RX rate, recorded on success only, is never recorded.
\<close>

theorem add_rx_pkt_never_succeeds:
  "fst (phl_add_rx_pkt ring pkt) =
     (if phl_check_recv_ring_resource ring then RTW_PHL_STATUS_FAILURE else RTW_PHL_STATUS_RESOURCE)"
  by (simp add: phl_add_rx_pkt_def phl_check_recv_ring_resource_def Let_def)

text \<open>
  C10: the TX ring delivers the requests of \<^verbatim>\<open>rtw_phl_add_tx_req\<close> to the bus layer in
  order, each once, and never holds more than 4095 of them.
\<close>

theorem tx_ring_fifo:
  assumes "tx_ring_wf ring" and "fifo_run tx_enq tx_deq ring ops = (acc, del, ring')"
  shows "tx_ring_wf ring' \<and> tx_ring_contents ring @ acc = del @ tx_ring_contents ring' \<and>
         length (tx_ring_contents ring) + length acc \<le> length del + 4095"
  using txr.fifo_run_conserves [OF assms] txr.fifo_run_backlog [OF assms] by simp

definition demo_tx_ring :: "nat rtw_phl_tx_ring" where
  "demo_tx_ring = \<lparr>tid = 0, dma_ch = 0, band = 0, tx_thres = 0, core_idx = 4095, phl_idx = 4095,
     phl_next_idx = 0, entry = replicate 4096 None\<rparr>"

theorem tx_ring_fifo_witness:
  "\<exists>acc del ring'. fifo_run tx_enq tx_deq demo_tx_ring [Put 7, Get, Put 8] = (acc, del, ring') \<and>
     acc = del @ tx_ring_contents ring'"
proof -
  obtain acc del ring' where
    run: "fifo_run tx_enq tx_deq demo_tx_ring [Put 7, Get, Put 8] = (acc, del, ring')"
    by (metis prod_cases3)
  have "tx_ring_wf demo_tx_ring" "tx_ring_contents demo_tx_ring = []"
    by (simp_all add: tx_ring_wf_def tx_ring_contents_def demo_tx_ring_def ring_contents_def ring_fill_def)
  with tx_ring_fifo [OF _ run] run show ?thesis by auto
qed

end
