(* ===== verification/Phl_Tx.thy ===== *)
theory Phl_Tx
  imports Phl_Ring
begin

text \<open>
  The transmit side of \<^verbatim>\<open>phl/phl_tx.c\<close>: the list of TX ring sets (one per macid), their
  registration and deferred release, the pool of ring status objects, and the scheduler that turns
  the rings with pending requests into the order in which the bus layer serves them
  (\<^verbatim>\<open>phl_check_xmit_ring_resource\<close>, \<^verbatim>\<open>phl_tx_flow_ctrl\<close>).
\<close>

section \<open>Data\<close>

abbreviation MAX_PHL_RING_CAT_NUM :: nat where "MAX_PHL_RING_CAT_NUM \<equiv> 10"
abbreviation RTW_PHL_RING_CAT_MGNT :: nat where "RTW_PHL_RING_CAT_MGNT \<equiv> 8"
abbreviation RTW_PHL_RING_CAT_HIQ :: nat where "RTW_PHL_RING_CAT_HIQ \<equiv> 9"
abbreviation MAX_PHL_RING_STATUS_NUMBER :: nat where "MAX_PHL_RING_STATUS_NUMBER \<equiv> 64"

text \<open>
  A ring status object. \<open>rs_obj\<close> is its identity; the pointer to the ring is kept as the
  macid of the ring set (\<open>rs_macid\<close>) and the ring's TID.
\<close>

record phl_ring_status =
  rs_obj :: nat
  rs_macid :: u16
  req_busy :: u16
  rs_tid :: u8

record phl_tx_plan =
  sleep :: bool
  has_mgnt :: bool
  has_hiq :: bool
  sorted_ring :: "phl_ring_status list"

record 'p rtw_phl_tring_list =
  tl_macid :: u16
  phl_ring :: "'p rtw_phl_tx_ring list"
  tx_plan :: phl_tx_plan

text \<open>The part of \<^verbatim>\<open>struct phl_info_t\<close> that the transmit path works on.\<close>

record 'p phl_tx =
  t_ring_list :: "'p rtw_phl_tring_list list"
  t_ring_free_list :: "'p rtw_phl_tring_list list"
  t_fctrl_result :: "phl_ring_status list"
  ring_sts_idle :: "nat list"

section \<open>Ring sets\<close>

text \<open>
  The inner loop of \<^verbatim>\<open>_phl_free_phl_tring_list\<close>: the requests given to
  \<^verbatim>\<open>tx_recycle\<close>. The loop ends when the read index meets \<^verbatim>\<open>core_idx\<close>; the fuel stands
  for the number of iterations, and running out of it is \<open>None\<close>.
\<close>

fun free_ring_loop :: "nat \<Rightarrow> u16 \<Rightarrow> 'p rtw_phl_tx_ring \<Rightarrow> 'p list option" where
  "free_ring_loop fuel rptr ring =
     (if rptr = core_idx ring then Some []
      else case fuel of
        0 \<Rightarrow> None
      | Suc fuel' \<Rightarrow>
          let rptr = rptr + 1;
              rptr = (if rptr \<ge> MAX_PHL_RING_ENTRY_NUM then 0 else rptr)
          in (case entry ring ! unat rptr of
                None \<Rightarrow> Some []
              | Some tx_req \<Rightarrow> map_option ((#) tx_req) (free_ring_loop fuel' rptr ring)))"

declare free_ring_loop.simps [simp del]

text \<open>\<^verbatim>\<open>_phl_free_phl_tring_list\<close>: everything that is recycled, ring by ring.\<close>

definition phl_free_phl_tring_list :: "'p rtw_phl_tring_list \<Rightarrow> 'p list option" where
  "phl_free_phl_tring_list ring_list =
     map_option concat
       (those (map (\<lambda>ring. free_ring_loop 4096 (ucast (phl_idx ring)) ring) (phl_ring ring_list)))"

definition phl_init_tx_plan :: "phl_tx_plan" where
  "phl_init_tx_plan = \<lparr>sleep = False, has_mgnt = False, has_hiq = False, sorted_ring = []\<rparr>"

text \<open>A new ring set; \<open>None\<close> when the memory is not there.\<close>

definition phl_allocate_phl_tring_list :: "bool \<Rightarrow> u16 \<Rightarrow> 'p rtw_phl_tring_list option" where
  "phl_allocate_phl_tring_list mem_ok macid =
     (if mem_ok then
        Some \<lparr>tl_macid = macid,
              phl_ring = map (\<lambda>i. \<lparr>tid = of_nat i, dma_ch = 0, band = 0, tx_thres = 0, core_idx = 0,
                                   phl_idx = 0, phl_next_idx = 0, entry = replicate 4096 None\<rparr>)
                           [0..<MAX_PHL_RING_CAT_NUM],
              tx_plan = phl_init_tx_plan\<rparr>
      else None)"

definition phl_register_tx_ring ::
  "bool \<Rightarrow> u16 \<Rightarrow> 'p phl_tx \<Rightarrow> rtw_phl_status \<times> 'p phl_tx" where
  "phl_register_tx_ring mem_ok macid tx =
     (case phl_allocate_phl_tring_list mem_ok macid of
        None \<Rightarrow> (RTW_PHL_STATUS_FAILURE, tx)
      | Some tring \<Rightarrow> (RTW_PHL_STATUS_SUCCESS, tx\<lparr>t_ring_list := t_ring_list tx @ [tring]\<rparr>))"

text \<open>The first ring set of a macid, unlinked from the list.\<close>

fun unlink_tring ::
  "u16 \<Rightarrow> 'p rtw_phl_tring_list list \<Rightarrow> ('p rtw_phl_tring_list \<times> 'p rtw_phl_tring_list list) option" where
  "unlink_tring macid [] = None"
| "unlink_tring macid (t # ts) =
     (if macid = tl_macid t then Some (t, ts)
      else map_option (\<lambda>(u, us). (u, t # us)) (unlink_tring macid ts))"

definition phl_deregister_tx_ring :: "u16 \<Rightarrow> 'p phl_tx \<Rightarrow> rtw_phl_status \<times> 'p phl_tx" where
  "phl_deregister_tx_ring macid tx =
     (case unlink_tring macid (t_ring_list tx) of
        None \<Rightarrow> (RTW_PHL_STATUS_FAILURE, tx)
      | Some (tring, trings) \<Rightarrow>
          (RTW_PHL_STATUS_SUCCESS,
           tx\<lparr>t_ring_list := trings, t_ring_free_list := t_ring_free_list tx @ [tring]\<rparr>))"

definition phl_free_deferred_tx_ring :: "'p phl_tx \<Rightarrow> 'p list option \<times> 'p phl_tx" where
  "phl_free_deferred_tx_ring tx =
     (map_option concat (those (map phl_free_phl_tring_list (t_ring_free_list tx))),
      tx\<lparr>t_ring_free_list := []\<rparr>)"

text \<open>
  \<^verbatim>\<open>rtw_phl_add_tx_req\<close> on the ring of the request's macid and TID. The array has ten
  rings; a TID outside of it is refused by no check of the code and is left out by the model's
  \<open>None\<close>.
\<close>

fun find_tring :: "u16 \<Rightarrow> nat \<Rightarrow> 'p rtw_phl_tring_list list \<Rightarrow> nat option" where
  "find_tring macid k [] = None"
| "find_tring macid k (t # ts) = (if macid \<noteq> tl_macid t then find_tring macid (Suc k) ts else Some k)"

definition rtw_phl_add_tx_req ::
  "u16 \<Rightarrow> u8 \<Rightarrow> 'p \<Rightarrow> 'p phl_tx \<Rightarrow> (rtw_phl_status \<times> 'p phl_tx) option" where
  "rtw_phl_add_tx_req macid tid' tx_req tx =
     (case find_tring macid 0 (t_ring_list tx) of
        None \<Rightarrow> Some (RTW_PHL_STATUS_FAILURE, tx)
      | Some k \<Rightarrow>
          if unat tid' \<ge> MAX_PHL_RING_CAT_NUM then None
          else
            let tring = t_ring_list tx ! k;
                (pstatus, ring) = ring_add_tx_req (phl_ring tring ! unat tid') tx_req
            in Some (pstatus,
                 tx\<lparr>t_ring_list := (t_ring_list tx)
                      [k := tring\<lparr>phl_ring := (phl_ring tring)[unat tid' := ring]\<rparr>]\<rparr>))"

definition rtw_phl_tring_rsc :: "u16 \<Rightarrow> u8 \<Rightarrow> 'p phl_tx \<Rightarrow> u16 option" where
  "rtw_phl_tring_rsc macid tid' tx =
     (case find_tring macid 0 (t_ring_list tx) of
        None \<Rightarrow> Some 0
      | Some k \<Rightarrow>
          if unat tid' \<ge> MAX_PHL_RING_CAT_NUM then None
          else
            let ring = phl_ring (t_ring_list tx ! k) ! unat tid'
            in Some (phl_calc_avail_rptr (ucast (phl_idx ring)) (core_idx ring) MAX_PHL_RING_ENTRY_NUM))"

section \<open>Ring status objects\<close>

definition phl_ring_status_init :: "bool \<Rightarrow> 'p phl_tx \<Rightarrow> rtw_phl_status \<times> 'p phl_tx" where
  "phl_ring_status_init mem_ok tx =
     (if mem_ok then
        (RTW_PHL_STATUS_SUCCESS, tx\<lparr>ring_sts_idle := [0..<MAX_PHL_RING_STATUS_NUMBER]\<rparr>)
      else (RTW_PHL_STATUS_FAILURE, tx))"

definition phl_alloc_ring_sts :: "nat list \<Rightarrow> nat option \<times> nat list" where
  "phl_alloc_ring_sts idle = (case idle of [] \<Rightarrow> (None, []) | obj # rest \<Rightarrow> (Some obj, rest))"

definition phl_release_ring_sts :: "nat list \<Rightarrow> phl_ring_status \<Rightarrow> nat list" where
  "phl_release_ring_sts idle ring_sts = idle @ [rs_obj ring_sts]"

text \<open>
  \<^verbatim>\<open>_phl_check_ring_status\<close>: a status object for a ring with pending requests, which also
  points the reader at the next request. No object is returned for an empty ring or when the pool
  is exhausted.
\<close>

definition phl_check_ring_status ::
  "u16 \<Rightarrow> 'p rtw_phl_tx_ring \<Rightarrow> nat list \<Rightarrow>
   phl_ring_status option \<times> 'p rtw_phl_tx_ring \<times> nat list" where
  "phl_check_ring_status macid ring idle =
     (let avail = phl_calc_avail_rptr (ucast (phl_idx ring)) (core_idx ring) MAX_PHL_RING_ENTRY_NUM in
      if 0 = avail then (None, ring, idle)
      else case phl_alloc_ring_sts idle of
             (None, idle) \<Rightarrow> (None, ring, idle)
           | (Some obj, idle) \<Rightarrow>
               (Some \<lparr>rs_obj = obj, rs_macid = macid, req_busy = avail, rs_tid = tid ring\<rparr>,
                ring_mark_next ring, idle))"

section \<open>The transmission plan\<close>

definition phl_reset_tx_plan :: "nat list \<Rightarrow> phl_tx_plan \<Rightarrow> nat list \<times> phl_tx_plan" where
  "phl_reset_tx_plan idle plan =
     (foldl phl_release_ring_sts idle (sorted_ring plan),
      plan\<lparr>sleep := False, has_mgnt := False, has_hiq := False, sorted_ring := []\<rparr>)"

text \<open>
  \<^verbatim>\<open>_phl_sort_ring_by_tid\<close>: TID 1 (background) goes last, TID 2 in front of it, everything
  else in front of the list.
\<close>

definition phl_sort_ring_by_tid :: "phl_ring_status \<Rightarrow> phl_tx_plan \<Rightarrow> nat \<Rightarrow> phl_tx_plan" where
  "phl_sort_ring_by_tid ring_sts plan cat =
     (let srt = sorted_ring plan in
      if rs_tid ring_sts = 1 then plan\<lparr>sorted_ring := srt @ [ring_sts]\<rparr>
      else if rs_tid ring_sts = 2 then
        if srt = [] then plan\<lparr>sorted_ring := srt @ [ring_sts]\<rparr>
        else if 1 = rs_tid (last srt) then plan\<lparr>sorted_ring := butlast srt @ [ring_sts, last srt]\<rparr>
        else plan\<lparr>sorted_ring := srt @ [ring_sts]\<rparr>
      else
        let plan = plan\<lparr>sorted_ring := ring_sts # srt\<rparr> in
        if RTW_PHL_RING_CAT_MGNT = cat then plan\<lparr>has_mgnt := True\<rparr>
        else if RTW_PHL_RING_CAT_HIQ = cat then plan\<lparr>has_hiq := True\<rparr>
        else plan)"

text \<open>The loop over the ten rings of a set, from ring \<open>i\<close> on.\<close>

fun check_rings_loop ::
  "u16 \<Rightarrow> nat \<Rightarrow> 'p rtw_phl_tx_ring list \<Rightarrow> phl_tx_plan \<Rightarrow> nat list \<Rightarrow>
   'p rtw_phl_tx_ring list \<times> phl_tx_plan \<times> nat list" where
  "check_rings_loop macid i [] plan idle = ([], plan, idle)"
| "check_rings_loop macid i (ring # rings) plan idle =
     (let (ring_sts, ring, idle) = phl_check_ring_status macid ring idle;
          plan = (case ring_sts of None \<Rightarrow> plan | Some s \<Rightarrow> phl_sort_ring_by_tid s plan i);
          (rings, plan, idle) = check_rings_loop macid (Suc i) rings plan idle
      in (ring # rings, plan, idle))"

text \<open>
  \<^verbatim>\<open>_phl_check_tring_list\<close>; the flag says that the plan was put on \<^verbatim>\<open>sta_list\<close>.
\<close>

definition phl_check_tring_list ::
  "'p rtw_phl_tring_list \<Rightarrow> nat list \<Rightarrow> bool \<times> 'p rtw_phl_tring_list \<times> nat list" where
  "phl_check_tring_list tring idle =
     (let (rings, plan, idle) = check_rings_loop (tl_macid tring) 0 (phl_ring tring) (tx_plan tring) idle
      in (sorted_ring plan \<noteq> [], tring\<lparr>phl_ring := rings, tx_plan := plan\<rparr>, idle))"

fun check_trings_loop ::
  "nat \<Rightarrow> 'p rtw_phl_tring_list list \<Rightarrow> nat list \<Rightarrow>
   nat list \<times> 'p rtw_phl_tring_list list \<times> nat list" where
  "check_trings_loop k [] idle = ([], [], idle)"
| "check_trings_loop k (t # ts) idle =
     (let (busy, t, idle) = phl_check_tring_list t idle;
          (sta_list, ts, idle) = check_trings_loop (Suc k) ts idle
      in (if busy then k # sta_list else sta_list, t # ts, idle))"

text \<open>
  \<^verbatim>\<open>phl_check_xmit_ring_resource\<close>: \<open>sta_list\<close> holds the plans with pending rings, as
  positions in the list of ring sets.
\<close>

definition phl_check_xmit_ring_resource :: "'p phl_tx \<Rightarrow> bool \<times> nat list \<times> 'p phl_tx" where
  "phl_check_xmit_ring_resource tx =
     (let (sta_list, trings, idle) = check_trings_loop 0 (t_ring_list tx) (ring_sts_idle tx)
      in (sta_list \<noteq> [], sta_list, tx\<lparr>t_ring_list := trings, ring_sts_idle := idle\<rparr>))"

section \<open>Flow control\<close>

text \<open>\<^verbatim>\<open>__list_add(new, prev, next)\<close> behind the node of object \<open>prev\<close>.\<close>

fun insert_after :: "nat \<Rightarrow> phl_ring_status \<Rightarrow> phl_ring_status list \<Rightarrow> phl_ring_status list" where
  "insert_after prev s [] = [s]"
| "insert_after prev s (r # rs) = (if rs_obj r = prev then r # s # rs else r # insert_after prev s rs)"

text \<open>
  The loop over the data rings of a plan. \<open>tid_entry\<close> is the array of the last node that was
  placed for each TID.
\<close>

fun fctrl_rings ::
  "phl_ring_status list \<Rightarrow> nat option list \<Rightarrow> phl_ring_status list \<Rightarrow>
   nat option list \<times> phl_ring_status list" where
  "fctrl_rings [] tid_entry result = (tid_entry, result)"
| "fctrl_rings (s # ss) tid_entry result =
     (let t = unat (rs_tid s);
          result = (case tid_entry ! t of None \<Rightarrow> result @ [s] | Some prev \<Rightarrow> insert_after prev s result)
      in fctrl_rings ss (tid_entry[t := Some (rs_obj s)]) result)"

text \<open>One plan: high-priority and management rings to the front, then the data rings.\<close>

definition fctrl_plan ::
  "phl_tx_plan \<Rightarrow> nat option list \<Rightarrow> phl_ring_status list \<Rightarrow> nat list \<Rightarrow>
   phl_tx_plan \<times> nat option list \<times> phl_ring_status list \<times> nat list" where
  "fctrl_plan plan tid_entry result idle =
     (if sleep plan then
        case phl_reset_tx_plan idle plan of (idle, plan) \<Rightarrow> (plan, tid_entry, result, idle)
      else
        let (plan, result) =
              (if has_hiq plan then
                 (plan\<lparr>sorted_ring := tl (sorted_ring plan)\<rparr>, hd (sorted_ring plan) # result)
               else (plan, result));
            (plan, result) =
              (if has_mgnt plan then
                 (plan\<lparr>sorted_ring := tl (sorted_ring plan)\<rparr>, hd (sorted_ring plan) # result)
               else (plan, result));
            (tid_entry, result) = fctrl_rings (sorted_ring plan) tid_entry result;
            (idle, plan) = phl_reset_tx_plan idle (plan\<lparr>sorted_ring := []\<rparr>)
        in (plan, tid_entry, result, idle))"

fun tx_flow_ctrl_loop ::
  "nat list \<Rightarrow> 'p rtw_phl_tring_list list \<Rightarrow> nat option list \<Rightarrow> phl_ring_status list \<Rightarrow> nat list \<Rightarrow>
   'p rtw_phl_tring_list list \<times> phl_ring_status list \<times> nat list" where
  "tx_flow_ctrl_loop [] trings tid_entry result idle = (trings, result, idle)"
| "tx_flow_ctrl_loop (k # sta_list) trings tid_entry result idle =
     (let (plan, tid_entry, result, idle) = fctrl_plan (tx_plan (trings ! k)) tid_entry result idle
      in tx_flow_ctrl_loop sta_list (trings[k := (trings ! k)\<lparr>tx_plan := plan\<rparr>]) tid_entry result idle)"

definition phl_tx_flow_ctrl :: "nat list \<Rightarrow> 'p phl_tx \<Rightarrow> 'p phl_tx" where
  "phl_tx_flow_ctrl sta_list tx =
     (case tx_flow_ctrl_loop sta_list (t_ring_list tx) (replicate MAX_PHL_RING_CAT_NUM None)
             (t_fctrl_result tx) (ring_sts_idle tx) of
        (trings, result, idle) \<Rightarrow>
          tx\<lparr>t_ring_list := trings, t_fctrl_result := result, ring_sts_idle := idle\<rparr>)"

section \<open>Recycling a ring set\<close>

lemma free_ring_loop_contents:
  assumes "unat rptr < 4096" and "unat (core_idx ring) < 4096" and "length (entry ring) = 4096"
    and "ring_fill 4096 (unat rptr) (unat (core_idx ring)) \<le> fuel"
    and "\<forall>x \<in> set (ring_contents 4096 (entry ring) (unat rptr) (unat (core_idx ring))). x \<noteq> None"
  shows "free_ring_loop fuel rptr ring =
           Some (map the (ring_contents 4096 (entry ring) (unat rptr) (unat (core_idx ring))))"
  using assms
proof (induction fuel arbitrary: rptr)
  case 0
  then have "rptr = core_idx ring" by (auto simp: ring_fill_def word_unat_eq_iff split: if_splits)
  then show ?case by (subst free_ring_loop.simps) (simp add: ring_contents_def ring_fill_def)
next
  case (Suc fuel)
  let ?r = "unat rptr" and ?w = "unat (core_idx ring)"
  let ?x = "if rptr + 1 \<ge> 4096 then 0 else rptr + 1"
  show ?case
  proof (cases "rptr = core_idx ring")
    case True
    then show ?thesis by (subst free_ring_loop.simps) (simp add: ring_contents_def ring_fill_def)
  next
    case False
    then have ne: "?r \<noteq> ?w" by (simp add: word_unat_eq_iff)
    then have fill: "0 < ring_fill 4096 ?r ?w" using Suc.prems(1,2) by (auto simp: ring_fill_def)
    have x: "unat ?x = (?r + 1) mod 4096" using Suc.prems(1) by (rule unat_idx_wrap(1))
    have rc: "ring_contents 4096 (entry ring) ?r ?w =
        entry ring ! unat ?x # ring_contents 4096 (entry ring) (unat ?x) ?w"
      using ring_contents_read [of ?r 4096 ?w "entry ring" "entry ring ! ((?r + 1) mod 4096)"]
        Suc.prems fill unfolding x by simp
    with Suc.prems(5) obtain req where req: "entry ring ! unat ?x = Some req" by auto
    have "free_ring_loop fuel ?x ring = Some (map the (ring_contents 4096 (entry ring) (unat ?x) ?w))"
    proof (rule Suc.IH)
      show "unat ?x < 4096" unfolding x by simp
      show "ring_fill 4096 (unat ?x) ?w \<le> fuel"
        using ring_fill_read [of ?r 4096 ?w] Suc.prems fill unfolding x by simp
      show "\<forall>x \<in> set (ring_contents 4096 (entry ring) (unat ?x) ?w). x \<noteq> None"
        using Suc.prems(5) rc by simp
    qed (use Suc.prems in simp_all)
    moreover have "free_ring_loop (Suc fuel) rptr ring = map_option ((#) req) (free_ring_loop fuel ?x ring)"
      using False req by (subst free_ring_loop.simps) (simp add: Let_def split del: if_split)
    ultimately show ?thesis using rc req by simp
  qed
qed

lemma free_ring_wf: "tx_ring_wf ring \<Longrightarrow>
    free_ring_loop 4096 (ucast (phl_idx ring)) ring = Some (tx_ring_contents ring)"
  using free_ring_loop_contents [of "ucast (phl_idx ring)" ring 4096]
    ring_fill_less [of "unat (phl_idx ring)" 4096 "unat (core_idx ring)"]
  by (simp add: tx_ring_wf_def unat_idx_u16 tx_ring_contents_def)

lemma those_map_Some: "\<forall>x \<in> set xs. f x = Some (g x) \<Longrightarrow> those (map f xs) = Some (map g xs)"
  by (induction xs) auto

definition tring_wf :: "'p rtw_phl_tring_list \<Rightarrow> bool" where
  "tring_wf t \<longleftrightarrow> length (phl_ring t) = MAX_PHL_RING_CAT_NUM \<and>
     (\<forall>i < MAX_PHL_RING_CAT_NUM. tx_ring_wf (phl_ring t ! i) \<and> tid (phl_ring t ! i) = of_nat i)"

lemma tring_wf_rings: "tring_wf t \<Longrightarrow> \<forall>ring \<in> set (phl_ring t). tx_ring_wf ring"
  by (auto simp: tring_wf_def in_set_conv_nth)

definition tring_pending :: "'p rtw_phl_tring_list \<Rightarrow> 'p list" where
  "tring_pending t = concat (map tx_ring_contents (phl_ring t))"

lemma free_tring_wf: "tring_wf t \<Longrightarrow> phl_free_phl_tring_list t = Some (tring_pending t)"
  using tring_wf_rings [of t] unfolding phl_free_phl_tring_list_def tring_pending_def
  by (subst those_map_Some [where g = tx_ring_contents]) (auto simp: free_ring_wf)

lemma unlink_tring_Some:
  "unlink_tring macid ts = Some (t, us) \<Longrightarrow>
   \<exists>as bs. ts = as @ t # bs \<and> us = as @ bs \<and> tl_macid t = macid \<and> (\<forall>a \<in> set as. tl_macid a \<noteq> macid)"
proof (induction ts arbitrary: us)
  case (Cons a ts)
  show ?case
  proof (cases "macid = tl_macid a")
    case True
    with Cons.prems show ?thesis by (intro exI [of _ "[]"] exI [of _ ts]) simp
  next
    case False
    with Cons.prems obtain vs where "unlink_tring macid ts = Some (t, vs)" "us = a # vs" by auto
    with Cons.IH [OF this(1)] False obtain as bs where
      "ts = as @ t # bs" "us = a # as @ bs" "tl_macid t = macid" "\<forall>a \<in> set as. tl_macid a \<noteq> macid" by auto
    with False show ?thesis by (intro exI [of _ "a # as"] exI [of _ bs]) simp
  qed
qed simp

section \<open>The order of the rings of a station\<close>

fun tid_order :: "nat \<Rightarrow> nat list" where
  "tid_order 0 = []"
| "tid_order (Suc i) = (if i = 1 then tid_order i @ [1] else if i = 2 then [0, 2, 1] else i # tid_order i)"

lemma tid_order_3 [simp]: "tid_order 3 = [0, 2, 1]"
  by (simp add: numeral_3_eq_3)

definition ring_pending :: "'p rtw_phl_tx_ring \<Rightarrow> bool" where
  "ring_pending ring \<longleftrightarrow> tx_ring_contents ring \<noteq> []"

lemma check_ring_status_wf:
  assumes "tx_ring_wf ring"
  shows "phl_check_ring_status macid ring idle =
    (if ring_pending ring \<and> idle \<noteq> [] then
       (Some \<lparr>rs_obj = hd idle, rs_macid = macid, req_busy = of_nat (length (tx_ring_contents ring)),
              rs_tid = tid ring\<rparr>, ring_mark_next ring, tl idle)
     else (None, ring, idle))"
proof -
  let ?a = "phl_calc_avail_rptr (ucast (phl_idx ring)) (core_idx ring) 4096"
  have u: "unat ?a = length (tx_ring_contents ring)" using tx_avail(2) [OF assms] .
  then have "?a = of_nat (length (tx_ring_contents ring))" unfolding u [symmetric] by simp
  moreover have "0 = ?a \<longleftrightarrow> \<not> ring_pending ring" using u by (auto simp: ring_pending_def unat_eq_0)
  ultimately show ?thesis
    by (cases idle) (auto simp: phl_check_ring_status_def phl_alloc_ring_sts_def Let_def)
qed

lemma sort_ring_order:
  assumes "map (\<lambda>s. unat (rs_tid s)) (sorted_ring plan) = filter pend (tid_order i)"
    and "unat (rs_tid s) = i" and "pend i"
  shows "map (\<lambda>s. unat (rs_tid s)) (sorted_ring (phl_sort_ring_by_tid s plan i)) = filter pend (tid_order (Suc i))"
proof -
  have t: "rs_tid s = 1 \<longleftrightarrow> i = 1" "rs_tid s = 2 \<longleftrightarrow> i = 2"
    using assms(2) by (auto simp: word_unat_eq_iff)
  consider "i = 1" | "i = 2" | "i \<noteq> 1" "i \<noteq> 2" by blast
  then show ?thesis
  proof cases
    case 1
    with assms t show ?thesis by (simp add: phl_sort_ring_by_tid_def Let_def)
  next
    case 2
    then have srt: "map (\<lambda>s. unat (rs_tid s)) (sorted_ring plan) = filter pend [0, 1]"
      using assms(1) by (simp add: numeral_2_eq_2)
    show ?thesis
    proof (cases "sorted_ring plan" rule: rev_cases)
      case Nil
      with srt 2 t assms(2,3) show ?thesis by (auto simp: phl_sort_ring_by_tid_def Let_def split: if_splits)
    next
      case (snoc xs y)
      with srt have y: "rs_tid y = 1 \<longleftrightarrow> pend 1"
        by (auto simp: word_unat_eq_iff append_eq_Cons_conv Cons_eq_append_conv split: if_splits)
      show ?thesis using srt snoc y 2 t assms(2,3)
        by (auto simp: phl_sort_ring_by_tid_def Let_def append_eq_Cons_conv Cons_eq_append_conv split: if_splits)
    qed
  next
    case 3
    with assms t show ?thesis by (simp add: phl_sort_ring_by_tid_def Let_def)
  qed
qed

lemma sort_ring_flags:
  "has_mgnt (phl_sort_ring_by_tid s plan i) \<longleftrightarrow>
     has_mgnt plan \<or> rs_tid s \<noteq> 1 \<and> rs_tid s \<noteq> 2 \<and> i = 8"
  "has_hiq (phl_sort_ring_by_tid s plan i) \<longleftrightarrow>
     has_hiq plan \<or> rs_tid s \<noteq> 1 \<and> rs_tid s \<noteq> 2 \<and> i = 9"
  "sleep (phl_sort_ring_by_tid s plan i) = sleep plan"
  by (simp_all add: phl_sort_ring_by_tid_def Let_def)

text \<open>
  The whole loop: which rings are pending decides the list, given that there are status objects
  for all of them.
\<close>

lemma check_rings_loop_order:
  assumes "check_rings_loop macid i rings plan idle = (rings', plan', idle')"
    and "\<forall>k < length rings. tx_ring_wf (rings ! k) \<and> tid (rings ! k) = of_nat (i + k) \<and>
           (ring_pending (rings ! k) \<longleftrightarrow> pend (i + k))"
    and "i + length rings \<le> 10" and "length rings \<le> length idle"
    and "map (\<lambda>s. unat (rs_tid s)) (sorted_ring plan) = filter pend (tid_order i)"
    and "has_mgnt plan \<longleftrightarrow> 8 < i \<and> pend 8" and "has_hiq plan \<longleftrightarrow> 9 < i \<and> pend 9" and "\<not> sleep plan"
  shows "map (\<lambda>s. unat (rs_tid s)) (sorted_ring plan') = filter pend (tid_order (i + length rings)) \<and>
    (has_mgnt plan' \<longleftrightarrow> 8 < i + length rings \<and> pend 8) \<and>
    (has_hiq plan' \<longleftrightarrow> 9 < i + length rings \<and> pend 9) \<and> \<not> sleep plan' \<and>
    map tx_ring_contents rings' = map tx_ring_contents rings"
  using assms
proof (induction rings arbitrary: i plan idle rings')
  case Nil
  then show ?case by simp
next
  case (Cons ring rings)
  have ring: "tx_ring_wf ring" "tid ring = of_nat i" "ring_pending ring \<longleftrightarrow> pend i"
    using Cons.prems(2) [rule_format, of 0] by auto
  have rest: "\<forall>k < length rings. tx_ring_wf (rings ! k) \<and> tid (rings ! k) = of_nat (Suc i + k) \<and>
           (ring_pending (rings ! k) \<longleftrightarrow> pend (Suc i + k))"
    using Cons.prems(2) by (auto dest: spec [of _ "Suc _"])
  have i: "i < 10" and ui: "unat (of_nat i :: u8) = i"
    using Cons.prems(3) by (simp_all add: unat_of_nat)
  obtain rings1 where
    split: "case phl_check_ring_status macid ring idle of (rs, ring1, idle1) \<Rightarrow>
        check_rings_loop macid (Suc i) rings
          (case rs of None \<Rightarrow> plan | Some s \<Rightarrow> phl_sort_ring_by_tid s plan i) idle1
          = (rings1, plan', idle') \<and> rings' = ring1 # rings1"
    using Cons.prems(1) by (auto simp: Let_def split: prod.splits)
  show ?case
  proof (cases "pend i")
    case False
    with ring split check_ring_status_wf [OF ring(1), of macid idle] have
      loop: "check_rings_loop macid (Suc i) rings plan idle = (rings1, plan', idle')"
      and r': "rings' = ring # rings1" by auto
    have "filter pend (tid_order (Suc i)) = filter pend (tid_order i)"
      using False by (cases "i = 2") (auto simp: numeral_2_eq_2)
    then have ord: "map (\<lambda>s. unat (rs_tid s)) (sorted_ring plan) = filter pend (tid_order (Suc i))"
      using Cons.prems(5) by simp
    have "i \<noteq> 8 \<or> \<not> pend 8" "i \<noteq> 9 \<or> \<not> pend 9" using False by auto
    then have fl: "has_mgnt plan \<longleftrightarrow> 8 < Suc i \<and> pend 8" "has_hiq plan \<longleftrightarrow> 9 < Suc i \<and> pend 9"
      using Cons.prems(6,7) by (simp_all only: less_Suc_eq) blast+
    show ?thesis
      using Cons.IH [OF loop rest _ _ ord fl Cons.prems(8)] Cons.prems(3,4) r' by simp
  next
    case True
    obtain obj idle1 where idle: "idle = obj # idle1" using Cons.prems(4) by (cases idle) auto
    define s where "s = \<lparr>rs_obj = obj, rs_macid = macid,
      req_busy = of_nat (length (tx_ring_contents ring)), rs_tid = tid ring\<rparr>"
    from True idle ring split check_ring_status_wf [OF ring(1), of macid idle] have
      loop: "check_rings_loop macid (Suc i) rings (phl_sort_ring_by_tid s plan i) idle1 = (rings1, plan', idle')"
      and r': "rings' = ring_mark_next ring # rings1" by (auto simp: s_def)
    have tid: "unat (rs_tid s) = i" using ring(2) ui by (simp add: s_def)
    then have nt: "i = 8 \<or> i = 9 \<Longrightarrow> rs_tid s \<noteq> 1 \<and> rs_tid s \<noteq> 2" by auto
    note ord = sort_ring_order [OF Cons.prems(5) tid True]
    have fl: "has_mgnt (phl_sort_ring_by_tid s plan i) \<longleftrightarrow> 8 < Suc i \<and> pend 8"
      "has_hiq (phl_sort_ring_by_tid s plan i) \<longleftrightarrow> 9 < Suc i \<and> pend 9"
      "\<not> sleep (phl_sort_ring_by_tid s plan i)"
      using Cons.prems(6,7,8) nt True i by (auto simp: sort_ring_flags less_Suc_eq)
    from Cons.IH [OF loop rest _ _ ord fl] Cons.prems(3,4) idle r' show ?thesis by simp
  qed
qed

section \<open>Grouping by TID\<close>

text \<open>
  The specification of the data part: the rings in the order of the plans, regrouped so that the
  rings of one TID stand together, TIDs in the order of their first ring.
\<close>

definition first_tids :: "phl_ring_status list \<Rightarrow> u8 list" where
  "first_tids xs = rev (remdups (rev (map rs_tid xs)))"

definition tid_blocks :: "u8 list \<Rightarrow> phl_ring_status list \<Rightarrow> phl_ring_status list" where
  "tid_blocks ts xs = concat (map (\<lambda>t. filter (\<lambda>s. rs_tid s = t) xs) ts)"

definition group_by_tid :: "phl_ring_status list \<Rightarrow> phl_ring_status list" where
  "group_by_tid xs = tid_blocks (first_tids xs) xs"

lemma first_tids_snoc:
  "first_tids (xs @ [s]) = (if rs_tid s \<in> rs_tid ` set xs then first_tids xs else first_tids xs @ [rs_tid s])"
  by (simp add: first_tids_def)

lemma set_first_tids: "set (first_tids xs) = rs_tid ` set xs"
  by (simp add: first_tids_def)

lemma distinct_first_tids: "distinct (first_tids xs)"
  by (simp add: first_tids_def)

lemma tid_blocks_skip: "rs_tid s \<notin> set ts \<Longrightarrow> tid_blocks ts (xs @ [s]) = tid_blocks ts xs"
  unfolding tid_blocks_def by (rule arg_cong [of _ _ concat]) (auto intro!: map_cong)

lemma tid_blocks_append: "tid_blocks (ts @ us) xs = tid_blocks ts xs @ tid_blocks us xs"
  by (simp add: tid_blocks_def)

lemma set_tid_blocks: "set (tid_blocks ts xs) = {s \<in> set xs. rs_tid s \<in> set ts}"
  by (auto simp: tid_blocks_def)

lemma insert_after_split:
  "\<forall>a \<in> set as. rs_obj a \<noteq> rs_obj p \<Longrightarrow> insert_after (rs_obj p) s (as @ p # bs) = as @ p # s # bs"
  by (induction as) auto

lemma insert_after_block:
  assumes "s' \<in> set xs" and "rs_tid s' = rs_tid s" and "distinct (map rs_obj (front @ xs))"
  shows "insert_after (rs_obj (last (filter (\<lambda>u. rs_tid u = rs_tid s) xs))) s (front @ group_by_tid xs)
           = front @ group_by_tid (xs @ [s])"
proof -
  let ?t = "rs_tid s"
  let ?b = "filter (\<lambda>u. rs_tid u = ?t) xs"
  have ne: "?b \<noteq> []" using assms(1,2) by (auto simp: filter_empty_conv)
  then obtain ys p where b: "?b = ys @ [p]" by (metis rev_exhaust)
  have "rs_tid s' \<in> rs_tid ` set xs" using assms(1) by simp
  then have im: "rs_tid s \<in> rs_tid ` set xs" using assms(2) by simp
  then have t: "?t \<in> set (first_tids xs)" by (simp add: set_first_tids)
  then obtain us vs where ts: "first_tids xs = us @ ?t # vs" by (meson split_list)
  then have nin: "?t \<notin> set us" "?t \<notin> set vs" using distinct_first_tids [of xs] by auto
  have g: "group_by_tid xs = (tid_blocks us xs @ ys) @ p # tid_blocks vs xs"
    using b by (simp add: group_by_tid_def ts tid_blocks_append) (simp add: tid_blocks_def)
  have g': "group_by_tid (xs @ [s]) = (tid_blocks us xs @ ys) @ p # s # tid_blocks vs xs"
  proof -
    have "first_tids (xs @ [s]) = us @ ?t # vs" using ts im by (simp add: first_tids_snoc)
    moreover have "tid_blocks [?t] (xs @ [s]) = ys @ [p, s]" using b by (simp add: tid_blocks_def)
    ultimately show ?thesis
      using tid_blocks_append [of us "[?t] @ vs"] tid_blocks_append [of "[?t]" vs] nin
      by (simp add: group_by_tid_def tid_blocks_skip)
  qed
  have pb: "p \<in> set ?b" unfolding b by simp
  then have "p \<in> set xs" and pt: "rs_tid p = ?t" by simp_all
  have dist: "distinct (map rs_obj xs)" "\<forall>f \<in> set front. rs_obj f \<notin> rs_obj ` set xs"
    using assms(3) by auto
  have inj: "u = p" if "u \<in> set xs" "rs_obj u = rs_obj p" for u
    using that \<open>p \<in> set xs\<close> dist(1) by (metis (no_types) distinct_map inj_on_def)
  have "distinct (ys @ [p])" unfolding b [symmetric] using dist(1) by (simp add: distinct_map)
  then have dys: "p \<notin> set ys" by simp
  have "\<forall>a \<in> set (front @ tid_blocks us xs @ ys). rs_obj a \<noteq> rs_obj p"
  proof
    fix a assume "a \<in> set (front @ tid_blocks us xs @ ys)"
    moreover have "set ys \<subseteq> set xs" using filter_is_subset [of "\<lambda>u. rs_tid u = ?t" xs] unfolding b by simp
    ultimately consider "a \<in> set front" | "a \<in> set xs" "rs_tid a \<in> set us" | "a \<in> set xs" "a \<in> set ys"
      by (auto simp: set_tid_blocks)
    then show "rs_obj a \<noteq> rs_obj p"
    proof cases
      case 2
      then show ?thesis using inj [of a] pt nin(1) by auto
    next
      case 3
      then show ?thesis using inj [of a] dys by auto
    qed (use dist(2) \<open>p \<in> set xs\<close> in auto)
  qed
  from insert_after_split [OF this] b g g' show ?thesis by simp
qed

text \<open>The array of last nodes agrees with the data rings placed so far.\<close>

definition tid_entry_ok :: "nat option list \<Rightarrow> phl_ring_status list \<Rightarrow> bool" where
  "tid_entry_ok te xs \<longleftrightarrow> length te = MAX_PHL_RING_CAT_NUM \<and>
     (\<forall>t. unat t < MAX_PHL_RING_CAT_NUM \<longrightarrow>
        te ! unat t = (let b = filter (\<lambda>s. rs_tid s = t) xs in if b = [] then None else Some (rs_obj (last b))))"

lemma fctrl_rings_group:
  assumes "tid_entry_ok te xs" and "\<forall>s \<in> set ss. unat (rs_tid s) < MAX_PHL_RING_CAT_NUM"
    and "distinct (map rs_obj (front @ xs @ ss))"
  shows "\<exists>te'. fctrl_rings ss te (front @ group_by_tid xs) = (te', front @ group_by_tid (xs @ ss)) \<and>
               tid_entry_ok te' (xs @ ss)"
  using assms
proof (induction ss arbitrary: te xs)
  case (Cons s ss)
  let ?t = "unat (rs_tid s)"
  let ?res = "case te ! ?t of None \<Rightarrow> (front @ group_by_tid xs) @ [s]
     | Some prev \<Rightarrow> insert_after prev s (front @ group_by_tid xs)"
  have t: "?t < MAX_PHL_RING_CAT_NUM" using Cons.prems(2) by simp
  have te: "te ! ?t = (let b = filter (\<lambda>u. rs_tid u = rs_tid s) xs
      in if b = [] then None else Some (rs_obj (last b)))"
    using Cons.prems(1) t by (simp add: tid_entry_ok_def)
  have res: "?res = front @ group_by_tid (xs @ [s])"
  proof (cases "filter (\<lambda>u. rs_tid u = rs_tid s) xs = []")
    case True
    then have "rs_tid s \<notin> rs_tid ` set xs" by (force simp: filter_empty_conv)
    moreover from this have "rs_tid s \<notin> set (first_tids xs)" by (simp add: set_first_tids)
    moreover have "tid_blocks [rs_tid s] (xs @ [s]) = [s]" using True by (simp add: tid_blocks_def)
    ultimately have "group_by_tid (xs @ [s]) = group_by_tid xs @ [s]"
      by (simp add: group_by_tid_def first_tids_snoc tid_blocks_append tid_blocks_skip)
    with te True show ?thesis by simp
  next
    case False
    then obtain s' where "s' \<in> set xs" "rs_tid s' = rs_tid s" by (auto simp: filter_empty_conv)
    moreover have "distinct (map rs_obj (front @ xs))" using Cons.prems(3) by auto
    ultimately show ?thesis using insert_after_block [of s' xs s front] te False by (simp add: Let_def)
  qed
  have ok: "tid_entry_ok (te[?t := Some (rs_obj s)]) (xs @ [s])"
    using Cons.prems(1) t by (auto simp: tid_entry_ok_def Let_def nth_list_update word_unat_eq_iff)
  from Cons.IH [OF ok] Cons.prems(2,3) obtain te' where
    "fctrl_rings ss (te[?t := Some (rs_obj s)]) (front @ group_by_tid (xs @ [s]))
       = (te', front @ group_by_tid ((xs @ [s]) @ ss))" "tid_entry_ok te' ((xs @ [s]) @ ss)" by auto
  with res show ?case by (simp add: Let_def)
qed simp

text \<open>Of a plan: the rings that go to the front, and the data rings.\<close>

definition plan_prio :: "phl_tx_plan \<Rightarrow> phl_ring_status list" where
  "plan_prio plan = take (of_bool (has_hiq plan) + of_bool (has_mgnt plan)) (sorted_ring plan)"

definition plan_data :: "phl_tx_plan \<Rightarrow> phl_ring_status list" where
  "plan_data plan = drop (of_bool (has_hiq plan) + of_bool (has_mgnt plan)) (sorted_ring plan)"

definition plan_ok :: "phl_tx_plan \<Rightarrow> bool" where
  "plan_ok plan \<longleftrightarrow> \<not> sleep plan \<and>
     of_bool (has_hiq plan) + of_bool (has_mgnt plan) \<le> length (sorted_ring plan) \<and>
     (\<forall>s \<in> set (sorted_ring plan). unat (rs_tid s) < MAX_PHL_RING_CAT_NUM)"

lemma plan_prio_data: "plan_prio plan @ plan_data plan = sorted_ring plan"
  by (simp add: plan_prio_def plan_data_def)

lemma distinct_shuffle:
  "distinct (map f (a @ b @ (p @ d) @ r)) \<Longrightarrow> distinct (map f ((rev p @ a) @ (b @ d) @ r))"
  by (auto simp: rev_map [symmetric])

lemma fctrl_plan_group:
  assumes ok: "plan_ok plan" and te: "tid_entry_ok te xs"
    and d: "distinct (map rs_obj (front @ xs @ sorted_ring plan))"
  shows "\<exists>te'. fctrl_plan plan te (front @ group_by_tid xs) idle =
           (phl_init_tx_plan, te', (rev (plan_prio plan) @ front) @ group_by_tid (xs @ plan_data plan), idle) \<and>
         tid_entry_ok te' (xs @ plan_data plan)"
proof -
  let ?front = "rev (plan_prio plan) @ front"
  have "distinct (map rs_obj (front @ xs @ (plan_prio plan @ plan_data plan) @ []))"
    using d by (simp only: plan_prio_data append_Nil2)
  from distinct_shuffle [OF this]
  have d': "distinct (map rs_obj (?front @ xs @ plan_data plan))" by (simp only: append_Nil2)
  have t: "\<forall>s \<in> set (plan_data plan). unat (rs_tid s) < MAX_PHL_RING_CAT_NUM"
    using ok by (auto simp: plan_ok_def plan_data_def dest: in_set_dropD)
  from fctrl_rings_group [OF te t d'] obtain te' where
    rings: "fctrl_rings (plan_data plan) te (?front @ group_by_tid xs) =
              (te', ?front @ group_by_tid (xs @ plan_data plan))"
    and te': "tid_entry_ok te' (xs @ plan_data plan)" by blast
  obtain slp m h srt where plan: "plan = \<lparr>sleep = slp, has_mgnt = m, has_hiq = h, sorted_ring = srt\<rparr>"
    by (cases plan)
  have "fctrl_plan plan te (front @ group_by_tid xs) idle =
      (case fctrl_rings (plan_data plan) te (?front @ group_by_tid xs) of
         (te', res) \<Rightarrow> (phl_init_tx_plan, te', res, idle))"
  proof (cases srt)
    case Nil
    with ok plan show ?thesis
      by (auto simp: fctrl_plan_def plan_ok_def plan_prio_def plan_data_def phl_reset_tx_plan_def
          phl_init_tx_plan_def Let_def split: prod.splits)
  next
    case (Cons s1 srt1)
    with ok plan show ?thesis
      by (cases h; cases m; cases srt1)
        (auto simp: fctrl_plan_def plan_ok_def plan_prio_def plan_data_def phl_reset_tx_plan_def
          phl_init_tx_plan_def Let_def split: prod.splits)
  qed
  with rings te' show ?thesis by simp
qed

lemma flow_ctrl_loop_group:
  assumes "\<forall>k \<in> set ks. k < length ts \<and> plan_ok (tx_plan (ts ! k))" and "distinct ks"
    and "tid_entry_ok te xs"
    and "distinct (map rs_obj (front @ xs @ concat (map (\<lambda>k. sorted_ring (tx_plan (ts ! k))) ks)))"
  shows "\<exists>ts'. tx_flow_ctrl_loop ks ts te (front @ group_by_tid xs) idle =
           (ts', rev (concat (map (\<lambda>k. plan_prio (tx_plan (ts ! k))) ks)) @ front @
                 group_by_tid (xs @ concat (map (\<lambda>k. plan_data (tx_plan (ts ! k))) ks)), idle) \<and>
         (\<forall>k \<in> set ks. tx_plan (ts' ! k) = phl_init_tx_plan) \<and> length ts' = length ts \<and>
         (\<forall>j. j \<notin> set ks \<longrightarrow> ts' ! j = ts ! j)"
  using assms
proof (induction ks arbitrary: ts te xs front)
  case (Cons k ks)
  let ?p = "tx_plan (ts ! k)"
  let ?ts = "ts[k := (ts ! k)\<lparr>tx_plan := phl_init_tx_plan\<rparr>]"
  have k: "k < length ts" "plan_ok ?p" "k \<notin> set ks" using Cons.prems(1,2) by auto
  have same: "?ts ! j = ts ! j" if "j \<in> set ks" for j using that k(3) by (metis nth_list_update_neq)
  have d1: "distinct (map rs_obj (front @ xs @ sorted_ring ?p))" using Cons.prems(4) by auto
  from fctrl_plan_group [OF k(2) Cons.prems(3) d1, of idle] obtain te' where
    step: "fctrl_plan ?p te (front @ group_by_tid xs) idle =
      (phl_init_tx_plan, te', (rev (plan_prio ?p) @ front) @ group_by_tid (xs @ plan_data ?p), idle)"
    and te': "tid_entry_ok te' (xs @ plan_data ?p)" by blast
  have "distinct (map rs_obj (front @ xs @ (plan_prio ?p @ plan_data ?p) @
      concat (map (\<lambda>k. sorted_ring (tx_plan (?ts ! k))) ks)))"
    using Cons.prems(4) same by (simp add: plan_prio_data cong: map_cong)
  then have d2: "distinct (map rs_obj ((rev (plan_prio ?p) @ front) @ (xs @ plan_data ?p) @
      concat (map (\<lambda>k. sorted_ring (tx_plan (?ts ! k))) ks)))" by (rule distinct_shuffle)
  have ok: "\<forall>k \<in> set ks. k < length ?ts \<and> plan_ok (tx_plan (?ts ! k))" using Cons.prems(1) same by auto
  have dk: "distinct ks" using Cons.prems(2) by simp
  have maps: "map (\<lambda>k. plan_prio (tx_plan (?ts ! k))) ks = map (\<lambda>k. plan_prio (tx_plan (ts ! k))) ks"
    "map (\<lambda>k. plan_data (tx_plan (?ts ! k))) ks = map (\<lambda>k. plan_data (tx_plan (ts ! k))) ks"
    using same by auto
  from Cons.IH [OF ok dk te' d2] obtain ts' where
    "tx_flow_ctrl_loop ks ?ts te' ((rev (plan_prio ?p) @ front) @ group_by_tid (xs @ plan_data ?p)) idle =
       (ts', rev (concat (map (\<lambda>k. plan_prio (tx_plan (ts ! k))) ks)) @ (rev (plan_prio ?p) @ front) @
             group_by_tid ((xs @ plan_data ?p) @ concat (map (\<lambda>k. plan_data (tx_plan (ts ! k))) ks)), idle)"
    and r: "\<forall>k \<in> set ks. tx_plan (ts' ! k) = phl_init_tx_plan" "length ts' = length ?ts"
      "\<forall>j. j \<notin> set ks \<longrightarrow> ts' ! j = ?ts ! j"
    unfolding maps by blast
  moreover have "tx_plan (ts' ! k) = phl_init_tx_plan" using r(3) k by simp
  moreover have "\<forall>j. j \<notin> set (k # ks) \<longrightarrow> ts' ! j = ts ! j" using r(3) by auto
  ultimately show ?case using step r by (intro exI [of _ ts']) simp
qed simp

section \<open>Properties\<close>

text \<open>
  when a station's rings are checked, the rings with pending requests are listed by priority:
  high queue, management, then TIDs 7 to 3, TID 0, and the background TIDs 2 and 1 last; the plan's
  flags say whether high-queue and management requests are there. No request is lost.
\<close>

theorem station_rings_by_priority:
  assumes "tring_wf t" and "tx_plan t = phl_init_tx_plan" and "10 \<le> length idle"
    and "phl_check_tring_list t idle = (busy, t', idle')"
  defines "pend \<equiv> (\<lambda>i. tx_ring_contents (phl_ring t ! i) \<noteq> [])"
  shows "map (\<lambda>s. unat (rs_tid s)) (sorted_ring (tx_plan t')) = filter pend [9, 8, 7, 6, 5, 4, 3, 0, 2, 1] \<and>
    has_hiq (tx_plan t') = pend 9 \<and> has_mgnt (tx_plan t') = pend 8 \<and>
    busy = (\<exists>i < 10. pend i) \<and> tring_pending t' = tring_pending t"
proof -
  obtain rings plan where loop: "check_rings_loop (tl_macid t) 0 (phl_ring t) (tx_plan t) idle = (rings, plan, idle')"
    and t': "t' = t\<lparr>phl_ring := rings, tx_plan := plan\<rparr>" "busy = (sorted_ring plan \<noteq> [])"
    using assms(4) by (auto simp: phl_check_tring_list_def split: prod.splits)
  have len: "length (phl_ring t) = 10" using assms(1) by (simp add: tring_wf_def)
  have R: "map (\<lambda>s. unat (rs_tid s)) (sorted_ring plan) = filter pend (tid_order (0 + length (phl_ring t))) \<and>
    (has_mgnt plan \<longleftrightarrow> 8 < 0 + length (phl_ring t) \<and> pend 8) \<and>
    (has_hiq plan \<longleftrightarrow> 9 < 0 + length (phl_ring t) \<and> pend 9) \<and> \<not> sleep plan \<and>
    map tx_ring_contents rings = map tx_ring_contents (phl_ring t)"
    using assms(1,3) len
    by (intro check_rings_loop_order [OF loop])
      (auto simp: tring_wf_def ring_pending_def pend_def assms(2) phl_init_tx_plan_def)
  have ord: "tid_order 10 = [9, 8, 7, 6, 5, 4, 3, 0, 2, 1]" by (simp add: eval_nat_numeral)
  have "busy \<longleftrightarrow> filter pend [9, 8, 7, 6, 5, 4, 3, 0, 2, 1] \<noteq> []"
    using R len ord t'(2) by (metis add_0 list.map_disc_iff)
  moreover have "filter pend [9, 8, 7, 6, 5, 4, 3, 0, 2, 1] \<noteq> [] \<longleftrightarrow> (\<exists>i < 10. pend i)"
  proof -
    have "i \<in> set [9, 8, 7, 6, 5, 4, 3, 0, 2, 1] \<longleftrightarrow> i < 10" for i :: nat by simp presburger
    then show ?thesis unfolding filter_empty_conv by blast
  qed
  ultimately show ?thesis using R len ord t'(1) by (simp add: tring_pending_def)
qed

text \<open>Two stations, one with a management and two data requests, the other with one data request.\<close>

definition demo_tring :: "u16 \<Rightarrow> (nat \<times> nat) list \<Rightarrow> nat rtw_phl_tring_list" where
  "demo_tring macid reqs =
     foldl (\<lambda>t (i, req). t\<lparr>phl_ring := (phl_ring t)[i := snd (ring_add_tx_req (phl_ring t ! i) req)]\<rparr>)
       (the (phl_allocate_phl_tring_list True macid)) reqs"

lemma tring_wf_alloc: "tring_wf (the (phl_allocate_phl_tring_list True macid))"
  by (auto simp: tring_wf_def phl_allocate_phl_tring_list_def tx_ring_wf_def ring_contents_def ring_fill_def)

lemma tring_wf_add:
  assumes "tring_wf t" and "i < 10"
  shows "tring_wf (t\<lparr>phl_ring := (phl_ring t)[i := snd (ring_add_tx_req (phl_ring t ! i) req)]\<rparr>)"
proof -
  let ?r = "phl_ring t ! i"
  have wf: "tx_ring_wf ?r" "tid ?r = of_nat i" using assms by (auto simp: tring_wf_def)
  have "tx_ring_wf (snd (ring_add_tx_req ?r req)) \<and> tid (snd (ring_add_tx_req ?r req)) = tid ?r"
  proof (cases "length (tx_ring_contents ?r) < 4095")
    case True
    from tx_add_room [OF wf(1) True, of req] show ?thesis by auto
  next
    case False
    then have "length (tx_ring_contents ?r) = 4095" using tx_contents_le [OF wf(1)] by simp
    from tx_add_full [OF wf(1) this, of req] wf show ?thesis by simp
  qed
  with assms wf show ?thesis by (auto simp: tring_wf_def nth_list_update)
qed

lemma demo_tring_wf: "\<forall>(i, req) \<in> set reqs. i < 10 \<Longrightarrow> tring_wf (demo_tring macid reqs)"
proof -
  have "\<forall>(i, req) \<in> set reqs. i < 10 \<Longrightarrow> tring_wf t \<Longrightarrow>
      tring_wf (foldl (\<lambda>t (i, req). t\<lparr>phl_ring := (phl_ring t)[i := snd (ring_add_tx_req (phl_ring t ! i) req)]\<rparr>) t reqs)"
    for t :: "nat rtw_phl_tring_list"
    by (induction reqs arbitrary: t) (auto simp: tring_wf_add)
  then show "\<forall>(i, req) \<in> set reqs. i < 10 \<Longrightarrow> tring_wf (demo_tring macid reqs)"
    by (simp add: demo_tring_def tring_wf_alloc)
qed

lemma demo_tring_plan: "tx_plan (demo_tring macid reqs) = phl_init_tx_plan"
proof -
  have "tx_plan (foldl (\<lambda>t (i, req). t\<lparr>phl_ring := (phl_ring t)[i := snd (ring_add_tx_req (phl_ring t ! i) req)]\<rparr>) t reqs)
      = tx_plan t" for t :: "nat rtw_phl_tring_list"
    by (induction reqs arbitrary: t) auto
  then show ?thesis by (simp add: demo_tring_def phl_allocate_phl_tring_list_def)
qed

theorem station_rings_by_priority_witness:
  "\<exists>busy t' idle'. phl_check_tring_list (demo_tring 3 [(1, 11), (8, 12), (2, 13)]) [0..<10] = (busy, t', idle') \<and>
     tring_pending t' = tring_pending (demo_tring 3 [(1, 11), (8, 12), (2, 13)])"
proof -
  let ?t = "demo_tring 3 [(1, 11), (8, 12), (2, 13)]"
  obtain busy t' idle' where c: "phl_check_tring_list ?t [0..<10] = (busy, t', idle')" by (metis prod_cases3)
  have "tring_wf ?t" by (rule demo_tring_wf) simp
  from station_rings_by_priority [OF this demo_tring_plan _ c] c show ?thesis by simp
qed

text \<open>
  the flow control serves, for the plans it is given, first the management and high-queue rings
  and then all data rings grouped by TID: rings of a TID follow each other in the order of the
  stations, TIDs in the order in which they first occur. Every ring is listed exactly once and the
  plans are empty afterwards.
\<close>

theorem flow_ctrl_groups_rings:
  assumes "\<forall>k \<in> set ks. k < length (t_ring_list tx) \<and> plan_ok (tx_plan (t_ring_list tx ! k))"
    and "distinct ks" and "t_fctrl_result tx = []"
    and "distinct (map rs_obj (concat (map (\<lambda>k. sorted_ring (tx_plan (t_ring_list tx ! k))) ks)))"
    and "phl_tx_flow_ctrl ks tx = tx'"
  shows "t_fctrl_result tx' =
       rev (concat (map (\<lambda>k. plan_prio (tx_plan (t_ring_list tx ! k))) ks)) @
       group_by_tid (concat (map (\<lambda>k. plan_data (tx_plan (t_ring_list tx ! k))) ks)) \<and>
     set (t_fctrl_result tx') = (\<Union>k \<in> set ks. set (sorted_ring (tx_plan (t_ring_list tx ! k)))) \<and>
     (\<forall>k \<in> set ks. tx_plan (t_ring_list tx' ! k) = phl_init_tx_plan) \<and>
     ring_sts_idle tx' = ring_sts_idle tx"
proof -
  let ?ts = "t_ring_list tx"
  have te: "tid_entry_ok (replicate 10 None) []" by (simp add: tid_entry_ok_def)
  have d: "distinct (map rs_obj ([] @ [] @ concat (map (\<lambda>k. sorted_ring (tx_plan (?ts ! k))) ks)))"
    using assms(4) by simp
  from flow_ctrl_loop_group [OF assms(1,2) te d, of "ring_sts_idle tx"] obtain ts' where
    loop: "tx_flow_ctrl_loop ks ?ts (replicate 10 None) [] (ring_sts_idle tx) =
      (ts', rev (concat (map (\<lambda>k. plan_prio (tx_plan (?ts ! k))) ks)) @
            group_by_tid (concat (map (\<lambda>k. plan_data (tx_plan (?ts ! k))) ks)), ring_sts_idle tx)"
    and plans: "\<forall>k \<in> set ks. tx_plan (ts' ! k) = phl_init_tx_plan"
    by (auto simp: group_by_tid_def first_tids_def tid_blocks_def)
  have "set (group_by_tid xs) = set xs" for xs
    by (auto simp: group_by_tid_def set_tid_blocks set_first_tids)
  moreover have "set (plan_prio p) \<union> set (plan_data p) = set (sorted_ring p)" for p
    using arg_cong [OF plan_prio_data [of p], of set] by simp
  then have "(\<Union>k \<in> set ks. set (plan_prio (tx_plan (?ts ! k)))) \<union> (\<Union>k \<in> set ks. set (plan_data (tx_plan (?ts ! k))))
      = (\<Union>k \<in> set ks. set (sorted_ring (tx_plan (?ts ! k))))" by (simp flip: UN_Un_distrib)
  ultimately show ?thesis using assms(3,5) loop plans by (auto simp: phl_tx_flow_ctrl_def)
qed

definition demo_sts :: "nat \<Rightarrow> u16 \<Rightarrow> u8 \<Rightarrow> phl_ring_status" where
  "demo_sts obj macid t = \<lparr>rs_obj = obj, rs_macid = macid, req_busy = 1, rs_tid = t\<rparr>"

definition demo_tx :: "nat phl_tx" where
  "demo_tx =
     \<lparr>t_ring_list =
        [\<lparr>tl_macid = 1, phl_ring = [], tx_plan = \<lparr>sleep = False, has_mgnt = True, has_hiq = False,
            sorted_ring = [demo_sts 0 1 8, demo_sts 1 1 6, demo_sts 2 1 0]\<rparr>\<rparr>,
         \<lparr>tl_macid = 2, phl_ring = [], tx_plan = \<lparr>sleep = False, has_mgnt = False, has_hiq = False,
            sorted_ring = [demo_sts 3 2 6, demo_sts 4 2 1]\<rparr>\<rparr>],
      t_ring_free_list = [], t_fctrl_result = [], ring_sts_idle = [5, 6]\<rparr>"

theorem flow_ctrl_groups_rings_witness:
  "map rs_obj (t_fctrl_result (phl_tx_flow_ctrl [0, 1] demo_tx)) = [0, 1, 3, 2, 4]"
proof -
  have ok: "\<forall>k \<in> set [0, 1]. k < length (t_ring_list demo_tx) \<and> plan_ok (tx_plan (t_ring_list demo_tx ! k))"
    by (simp add: demo_tx_def plan_ok_def demo_sts_def)
  have d: "distinct (map rs_obj (concat (map (\<lambda>k. sorted_ring (tx_plan (t_ring_list demo_tx ! k))) [0, 1])))"
    by (simp add: demo_tx_def demo_sts_def)
  have r: "t_fctrl_result demo_tx = []" by (simp add: demo_tx_def)
  have "distinct [0::nat, 1]" by simp
  from flow_ctrl_groups_rings [OF ok this r d refl] show ?thesis
    by (simp add: demo_tx_def demo_sts_def plan_prio_def plan_data_def group_by_tid_def first_tids_def
        tid_blocks_def)
qed

text \<open>
  C30: deregistering the ring set of a macid takes exactly the first set of that macid out of service,
  and freeing the deferred sets afterwards gives back every request that was still pending in them,
  ring by ring in order; the release loop ends for every well-formed ring.
\<close>

theorem deregister_recycles_pending:
  assumes "\<forall>t \<in> set (t_ring_list tx) \<union> set (t_ring_free_list tx). tring_wf t"
    and "phl_deregister_tx_ring macid tx = (st, tx1)" and "phl_free_deferred_tx_ring tx1 = (recycled, tx2)"
  shows "if \<exists>t \<in> set (t_ring_list tx). tl_macid t = macid then
       st = RTW_PHL_STATUS_SUCCESS \<and> t_ring_free_list tx2 = [] \<and>
       (\<exists>as t bs. t_ring_list tx = as @ t # bs \<and> tl_macid t = macid \<and> t_ring_list tx2 = as @ bs \<and>
          recycled = Some (concat (map tring_pending (t_ring_free_list tx)) @ tring_pending t))
     else st = RTW_PHL_STATUS_FAILURE \<and> tx1 = tx"
proof (cases "unlink_tring macid (t_ring_list tx)")
  case None
  have "unlink_tring macid ts = None \<Longrightarrow> \<forall>t \<in> set ts. tl_macid t \<noteq> macid" for ts :: "'a rtw_phl_tring_list list"
    by (induction ts) (auto split: if_splits)
  with None assms(2) show ?thesis by (auto simp: phl_deregister_tx_ring_def)
next
  case (Some p)
  then obtain t us where u: "unlink_tring macid (t_ring_list tx) = Some (t, us)" by (cases p) auto
  from unlink_tring_Some [OF this] obtain as bs where
    s: "t_ring_list tx = as @ t # bs" "us = as @ bs" "tl_macid t = macid" by blast
  have tx1: "st = RTW_PHL_STATUS_SUCCESS"
    "tx1 = tx\<lparr>t_ring_list := us, t_ring_free_list := t_ring_free_list tx @ [t]\<rparr>"
    using assms(2) u by (simp_all add: phl_deregister_tx_ring_def)
  have "\<forall>t \<in> set (t_ring_free_list tx1). phl_free_phl_tring_list t = Some (tring_pending t)"
    using assms(1) s(1) tx1(2) by (auto intro: free_tring_wf)
  from those_map_Some [OF this] assms(3) tx1 have
    "recycled = Some (concat (map tring_pending (t_ring_free_list tx)) @ tring_pending t)"
    "t_ring_list tx2 = us" "t_ring_free_list tx2 = []"
    by (auto simp: phl_free_deferred_tx_ring_def)
  moreover have "\<exists>t \<in> set (t_ring_list tx). tl_macid t = macid" using s by auto
  ultimately show ?thesis using s tx1(1) by auto
qed

definition demo_tx_live :: "nat phl_tx" where
  "demo_tx_live = \<lparr>t_ring_list = [demo_tring 3 [], demo_tring 5 [(0, 21), (8, 22), (0, 23)]],
     t_ring_free_list = [], t_fctrl_result = [], ring_sts_idle = []\<rparr>"

theorem deregister_recycles_pending_witness:
  "\<exists>recycled tx2. phl_free_deferred_tx_ring (snd (phl_deregister_tx_ring 5 demo_tx_live)) = (recycled, tx2) \<and>
     recycled = Some (tring_pending (demo_tring 5 [(0, 21), (8, 22), (0, 23)]))"
proof -
  let ?t = "demo_tring 5 [(0, 21), (8, 22), (0, 23)]"
  obtain st tx1 where d: "phl_deregister_tx_ring 5 demo_tx_live = (st, tx1)" by fastforce
  obtain recycled tx2 where f: "phl_free_deferred_tx_ring tx1 = (recycled, tx2)" by fastforce
  have mac: "tl_macid (demo_tring m reqs) = m" for m reqs
  proof -
    have "tl_macid (foldl (\<lambda>t (i, req). t\<lparr>phl_ring := (phl_ring t)[i := snd (ring_add_tx_req (phl_ring t ! i) req)]\<rparr>) t reqs)
        = tl_macid t" for t :: "nat rtw_phl_tring_list"
      by (induction reqs arbitrary: t) auto
    then show ?thesis by (simp add: demo_tring_def phl_allocate_phl_tring_list_def)
  qed
  have wf: "\<forall>t \<in> set (t_ring_list demo_tx_live) \<union> set (t_ring_free_list demo_tx_live). tring_wf t"
    by (simp add: demo_tx_live_def demo_tring_wf)
  from deregister_recycles_pending [OF wf d f] have
    "\<exists>as t bs. t_ring_list demo_tx_live = as @ t # bs \<and> tl_macid t = 5 \<and>
       recycled = Some (concat (map tring_pending (t_ring_free_list demo_tx_live)) @ tring_pending t)"
    by (auto simp: demo_tx_live_def mac split: if_splits)
  then have "recycled = Some (tring_pending ?t)"
    by (auto simp: demo_tx_live_def mac Cons_eq_append_conv)
  with f d show ?thesis by simp
qed

end
