(* ===== verification/Phl_Reorder.thy ===== *)
theory Phl_Reorder
  imports Phl_Prelude "HOL-Library.Multiset"
begin

text \<open>
  The A-MPDU receive reordering engine of \<^verbatim>\<open>phl/phl_rx.c\<close>: 12-bit sequence number
  arithmetic, the reorder ring of a (station, TID) pair (\<^verbatim>\<open>struct phl_tid_ampdu_rx\<close>),
  release of frames in order, by time-out and on a jump of the window. The engine hands two
  lists to its caller: \<open>frames\<close>, what goes up to the core, and the packets it gives back to
  the bus (\<^verbatim>\<open>recycle_rx_pkt\<close> / \<^verbatim>\<open>phl_recycle_rx_buf\<close>).

  The abstract view is the \<^emph>\<open>window\<close>: the ring read from the slot of
  \<^verbatim>\<open>head_seq_num\<close> on. Every operation of the engine is shown to act on the window as
  shifting: entries leave at the front, empty slots enter at the back.
\<close>

section \<open>Sequence numbers\<close>

definition seq_less :: "u16 \<Rightarrow> u16 \<Rightarrow> bool" where
  "seq_less sq1 sq2 \<longleftrightarrow> (sq1 - sq2) AND 0xfff > 0x800"

definition seq_inc :: "u16 \<Rightarrow> u16" where
  "seq_inc sq = (sq + 1) AND 0xfff"

definition seq_sub :: "u16 \<Rightarrow> u16 \<Rightarrow> u16" where
  "seq_sub sq1 sq2 = (sq1 - sq2) AND 0xfff"

section \<open>The reorder ring\<close>

record 'p phl_tid_ampdu_rx =
  reorder_buf :: "'p option list"
  reorder_time :: "u32 list"
  head_seq_num :: u16
  stored_mpdu_num :: u16
  ssn :: u16
  buf_size :: u16
  ba_tid :: u16
  started :: bool
  removed :: bool

text \<open>What an operation does with the station's reorder timer.\<close>

datatype timer_action = Timer_set | Timer_cancel | Timer_keep

definition reorder_index :: "'p phl_tid_ampdu_rx \<Rightarrow> u16 \<Rightarrow> nat" where
  "reorder_index r sq = unat (seq_sub sq (ssn r) mod buf_size r)"

text \<open>\<^verbatim>\<open>r->reorder_buf[i]\<close>, null outside of the array.\<close>

definition reorder_slot :: "'p phl_tid_ampdu_rx \<Rightarrow> nat \<Rightarrow> 'p option" where
  "reorder_slot r i = (if i < length (reorder_buf r) then reorder_buf r ! i else None)"

definition phl_release_reorder_frame ::
  "'p phl_tid_ampdu_rx \<Rightarrow> nat \<Rightarrow> 'p list \<Rightarrow> 'p phl_tid_ampdu_rx \<times> 'p list" where
  "phl_release_reorder_frame r index frames =
     (case reorder_slot r index of
        None \<Rightarrow> (r\<lparr>head_seq_num := seq_inc (head_seq_num r)\<rparr>, frames)
      | Some pkt \<Rightarrow>
          (r\<lparr>stored_mpdu_num := stored_mpdu_num r - 1,
             reorder_buf := (reorder_buf r)[index := None],
             head_seq_num := seq_inc (head_seq_num r)\<rparr>,
           frames @ [pkt]))"

abbreviation HT_RX_REORDER_BUF_TIMEOUT_MS :: u32 where
  "HT_RX_REORDER_BUF_TIMEOUT_MS \<equiv> 100"

text \<open>
  The slots the time-out scan visits, \<open>j = (index + 1) % buf_size\<close> and on until
  \<open>index\<close> comes round again.
\<close>

definition scan_slots :: "nat \<Rightarrow> nat \<Rightarrow> nat list" where
  "scan_slots n index = map (\<lambda>k. (index + k) mod n) [1..<n]"

text \<open>
  The time-out scan. The flag says that the scan jumped to \<^verbatim>\<open>set_release_timer\<close>; the
  last component collects what the inner loop gives to \<^verbatim>\<open>phl_recycle_rx_buf\<close>.
\<close>

fun reorder_timeout_scan ::
  "u32 \<Rightarrow> nat \<Rightarrow> nat list \<Rightarrow> nat \<Rightarrow> 'p phl_tid_ampdu_rx \<Rightarrow> 'p list \<Rightarrow> 'p list \<Rightarrow>
   bool \<times> 'p phl_tid_ampdu_rx \<times> 'p list \<times> 'p list" where
  "reorder_timeout_scan now index [] skipped r frames recycled = (False, r, frames, recycled)"
| "reorder_timeout_scan now index (j # js) skipped r frames recycled =
     (if reorder_slot r j = None then
        reorder_timeout_scan now index js (Suc skipped) r frames recycled
      else if skipped \<noteq> 0 \<and> now < reorder_time r ! j + HT_RX_REORDER_BUF_TIMEOUT_MS then
        (True, r, frames, recycled)
      else
        let incomplete = List.map_filter (reorder_slot r)
              (takeWhile (\<lambda>i. i \<noteq> j) (scan_slots (unat (buf_size r)) index));
            (r1, frames1) = phl_release_reorder_frame r j frames;
            r2 = r1\<lparr>head_seq_num := (head_seq_num r1 + of_nat skipped) AND 0xfff\<rparr>
        in reorder_timeout_scan now index js 0 r2 frames1 (recycled @ incomplete))"

text \<open>Release while the slot of the head sequence number is filled.\<close>

lemma reorder_slot_SomeD: "reorder_slot r i = Some p \<Longrightarrow> i < length (reorder_buf r)"
  by (auto simp: reorder_slot_def split: if_splits)

function reorder_release_ready ::
  "'p phl_tid_ampdu_rx \<Rightarrow> 'p list \<Rightarrow> 'p phl_tid_ampdu_rx \<times> 'p list" where
  "reorder_release_ready r frames =
     (let index = reorder_index r (head_seq_num r) in
      if reorder_slot r index \<noteq> None then
        let (r', frames') = phl_release_reorder_frame r index frames
        in reorder_release_ready r' frames'
      else (r, frames))"
  by pat_completeness auto
termination
proof (relation "measure (\<lambda>(r, frames). occupied (reorder_buf r))", goal_cases)
  case 1
  show ?case by simp
next
  case (2 r frames index x r' frames')
  then obtain p where s: "reorder_slot r index = Some p" by auto
  then have i: "index < length (reorder_buf r)" by (rule reorder_slot_SomeD)
  with s have "reorder_buf r ! index \<noteq> None" by (simp add: reorder_slot_def)
  from occupied_clear [OF i this] 2 s show ?case
    by (auto simp: phl_release_reorder_frame_def)
qed

declare reorder_release_ready.simps [simp del]

definition phl_reorder_release ::
  "u32 \<Rightarrow> 'p phl_tid_ampdu_rx \<Rightarrow> 'p list \<Rightarrow>
   'p phl_tid_ampdu_rx \<times> 'p list \<times> 'p list \<times> timer_action" where
  "phl_reorder_release cur_time r frames =
     (let index = reorder_index r (head_seq_num r);
          (to_timer, r1, frames1, recycled) =
            (if reorder_slot r index = None \<and> stored_mpdu_num r \<noteq> 0 then
               reorder_timeout_scan cur_time index (scan_slots (unat (buf_size r)) index) 1 r frames []
             else
               case reorder_release_ready r frames of (r', frames') \<Rightarrow> (False, r', frames', []))
      in (r1, frames1, recycled,
          if to_timer \<or> stored_mpdu_num r1 \<noteq> 0 then
            (if \<not> removed r1 then Timer_set else Timer_keep)
          else Timer_cancel))"

text \<open>
  Sequence distances on natural numbers: how far \<open>s\<close> is ahead of \<open>h\<close>.
\<close>

definition seq_dist :: "u16 \<Rightarrow> u16 \<Rightarrow> nat" where
  "seq_dist h s = unat (seq_sub s h)"

lemma seq_mask: "(0xfff :: u16) = mask 12"
  by (simp add: mask_eq_exp_minus_1)

lemma seq_dist_int: "int (seq_dist h s) = (uint s - uint h) mod 4096"
proof -
  have "int (unat (s - h)) = (uint s - uint h) mod 65536"
    by (simp add: uint_word_ariths)
  then show ?thesis
    by (simp add: seq_dist_def seq_sub_def seq_mask unat_and_mask_mod of_nat_mod mod_mod_cancel)
qed

lemma seq_dist_less: "seq_dist h s < 4096"
proof -
  have "int (seq_dist h s) < 4096" by (simp add: seq_dist_int)
  then show ?thesis by linarith
qed

lemma unat_seq_add:
  "unat ((h + of_nat k) AND 0xfff :: u16) = (unat h + k) mod 4096"
proof -
  have "unat (h + of_nat k) mod 4096 = (unat h + k) mod 4096"
    by (simp add: unat_word_ariths unat_of_nat mod_mod_cancel mod_simps)
  then show ?thesis
    unfolding seq_mask by (simp only: unat_and_mask_mod) simp
qed

lemma unat_seq_inc: "unat (seq_inc h) = (unat h + 1) mod 4096"
  using unat_seq_add [of h 1] by (simp add: seq_inc_def)

lemma mod_diff_Suc:
  fixes a :: int
  assumes "m > 1"
  shows "(a - 1) mod m = (if a mod m = 0 then m - 1 else a mod m - 1)"
proof -
  have "(a - 1) mod m = (a mod m - 1) mod m" by (simp add: mod_simps)
  moreover have "0 \<le> a mod m" "a mod m < m" using assms by simp_all
  ultimately show ?thesis using assms
    by (cases "a mod m = 0") (auto simp: zmod_minus1 intro: mod_pos_pos_trivial)
qed

lemma seq_dist_inc:
  "seq_dist (seq_inc h) s = (if seq_dist h s = 0 then 4095 else seq_dist h s - 1)"
proof -
  have "uint (seq_inc h) = (uint h + 1) mod 4096"
    using arg_cong [OF unat_seq_inc [of h], of int] by (simp add: of_nat_mod add.commute)
  then have "int (seq_dist (seq_inc h) s) = (uint s - uint h - 1) mod 4096"
    by (simp add: seq_dist_int mod_simps algebra_simps)
  also have "\<dots> = (if int (seq_dist h s) = 0 then 4095 else int (seq_dist h s) - 1)"
    by (subst mod_diff_Suc) (simp_all add: seq_dist_int)
  finally show ?thesis by (auto split: if_splits)
qed

text \<open>A 12-bit sequence number is determined by its distance from another one.\<close>

lemma seq_dist_inj:
  assumes "seq_dist h s = seq_dist h t" and "unat s < 4096" and "unat t < 4096"
  shows "s = t"
proof -
  from arg_cong [OF assms(1), of int]
  have "(uint s - uint h) mod 4096 = (uint t - uint h) mod 4096"
    by (simp only: seq_dist_int)
  then have "uint s mod 4096 = uint t mod 4096"
    by (metis diff_add_cancel mod_add_left_eq)
  moreover have "uint s < 4096" "uint t < 4096"
    using assms(2,3) uint_nat [of s] uint_nat [of t] by linarith+
  ultimately show ?thesis by (simp add: word_uint_eq_iff)
qed

lemma seq_dist_trans:
  "int (seq_dist a c) = (int (seq_dist a b) + int (seq_dist b c)) mod 4096"
  by (simp add: seq_dist_int mod_simps)

lemma seq_dist_trans_nat: "seq_dist a c = (seq_dist a b + seq_dist b c) mod 4096"
proof -
  have "int (seq_dist a c) = int ((seq_dist a b + seq_dist b c) mod 4096)"
    by (subst seq_dist_trans [of a c b]) (simp add: of_nat_mod)
  then show ?thesis by (simp only: of_nat_eq_iff)
qed

lemma seq_less_iff: "seq_less s h \<longleftrightarrow> 2048 < seq_dist h s"
  by (simp add: seq_less_def seq_dist_def seq_sub_def word_less_nat_alt)

lemma seq_dist_flip:
  assumes "seq_dist a b \<noteq> 0"
  shows "seq_dist a b + seq_dist b a = 4096"
proof -
  have "int (seq_dist a a) = 0" by (simp add: seq_dist_int)
  with seq_dist_trans [of a a b] have "(int (seq_dist a b) + int (seq_dist b a)) mod 4096 = 0"
    by simp
  then obtain k where "int (seq_dist a b) + int (seq_dist b a) = 4096 * k"
    by (auto simp: mod_eq_0_iff_dvd)
  moreover from this assms seq_dist_less [of a b] seq_dist_less [of b a] have "0 < k" "k < 2"
    by linarith+
  ultimately show ?thesis by linarith
qed

lemma seq_less_dist:
  assumes "seq_less a b"
  shows "0 < seq_dist a b" and "seq_dist a b < 2048"
proof -
  from assms have "2048 < seq_dist b a" by (simp add: seq_less_iff)
  with seq_dist_flip [of b a] show "0 < seq_dist a b" "seq_dist a b < 2048"
    using seq_dist_less [of b a] by linarith+
qed

section \<open>Window jumps, arrival of a frame, block ack requests\<close>

function release_reorder_frames_loop ::
  "'p phl_tid_ampdu_rx \<Rightarrow> u16 \<Rightarrow> 'p list \<Rightarrow> 'p phl_tid_ampdu_rx \<times> 'p list" where
  "release_reorder_frames_loop r hseq frames =
     (if seq_less (head_seq_num r) hseq \<and> stored_mpdu_num r \<noteq> 0 then
        let (r', frames') = phl_release_reorder_frame r (reorder_index r (head_seq_num r)) frames
        in release_reorder_frames_loop r' hseq frames'
      else (r, frames))"
  by pat_completeness auto
termination
proof (relation "measure (\<lambda>(r, hseq, frames). seq_dist (head_seq_num r) hseq)", goal_cases)
  case 1
  show ?case by simp
next
  case (2 r hseq frames x r' frames')
  then have "head_seq_num r' = seq_inc (head_seq_num r)"
    by (auto simp: phl_release_reorder_frame_def split: option.splits)
  with 2 seq_less_dist [of "head_seq_num r" hseq] show ?case by (simp add: seq_dist_inc)
qed

declare release_reorder_frames_loop.simps [simp del]

definition phl_release_reorder_frames ::
  "'p phl_tid_ampdu_rx \<Rightarrow> u16 \<Rightarrow> 'p list \<Rightarrow> 'p phl_tid_ampdu_rx \<times> 'p list" where
  "phl_release_reorder_frames r hseq frames =
     (case release_reorder_frames_loop r hseq frames of
        (r', frames') \<Rightarrow> (r'\<lparr>head_seq_num := hseq\<rparr>, frames'))"

text \<open>
  A frame of the session arrives. \<open>accept\<close> is the boolean result of the C function: true when
  the engine took the packet over (stored, released or recycled), false when the caller
  delivers it directly. \<open>now_store\<close> and \<open>now_release\<close> are the two clock readings.
\<close>

record 'p reorder_result =
  rr_taken :: bool
  rr_ring :: "'p phl_tid_ampdu_rx"
  rr_frames :: "'p list"
  rr_recycled :: "'p list"
  rr_timer :: timer_action

definition phl_manage_sta_reorder_buf ::
  "u32 \<Rightarrow> u32 \<Rightarrow> u16 \<Rightarrow> 'p \<Rightarrow> 'p phl_tid_ampdu_rx \<Rightarrow> 'p list \<Rightarrow> 'p reorder_result" where
  "phl_manage_sta_reorder_buf now_store now_release mpdu_seq_num pkt r frames =
     (let head = head_seq_num r in
      if \<not> started r \<and> seq_less mpdu_seq_num head then
        \<lparr>rr_taken = False, rr_ring = r, rr_frames = frames, rr_recycled = [], rr_timer = Timer_keep\<rparr>
      else
        let r = r\<lparr>started := True\<rparr> in
        if seq_less mpdu_seq_num head then
          \<lparr>rr_taken = True, rr_ring = r, rr_frames = frames, rr_recycled = [pkt],
           rr_timer = Timer_keep\<rparr>
        else
          let (r, frames) =
                (if \<not> seq_less mpdu_seq_num (head + buf_size r) then
                   phl_release_reorder_frames r (seq_inc (seq_sub mpdu_seq_num (buf_size r))) frames
                 else (r, frames));
              index = reorder_index r mpdu_seq_num
          in
          if reorder_slot r index \<noteq> None then
            \<lparr>rr_taken = True, rr_ring = r, rr_frames = frames, rr_recycled = [pkt],
             rr_timer = Timer_keep\<rparr>
          else if mpdu_seq_num = head_seq_num r \<and> stored_mpdu_num r = 0 then
            \<lparr>rr_taken = False, rr_ring = r\<lparr>head_seq_num := seq_inc (head_seq_num r)\<rparr>,
             rr_frames = frames, rr_recycled = [], rr_timer = Timer_keep\<rparr>
          else
            let r = r\<lparr>reorder_buf := (reorder_buf r)[index := Some pkt],
                     reorder_time := (reorder_time r)[index := now_store],
                     stored_mpdu_num := stored_mpdu_num r + 1\<rparr>;
                (r, frames, recycled, timer) = phl_reorder_release now_release r frames
            in \<lparr>rr_taken = True, rr_ring = r, rr_frames = frames, rr_recycled = recycled,
                rr_timer = timer\<rparr>)"

text \<open>
  The reordering part of \<^verbatim>\<open>rtw_phl_rx_bar\<close> for a session that exists: a block ack
  request for a sequence number ahead of the window moves the window.
\<close>

definition rx_bar_session ::
  "'p phl_tid_ampdu_rx \<Rightarrow> u16 \<Rightarrow> 'p phl_tid_ampdu_rx \<times> 'p list" where
  "rx_bar_session r sq =
     (if seq_less sq (head_seq_num r) then (r, []) else phl_release_reorder_frames r sq [])"

section \<open>The window\<close>

definition window :: "'p phl_tid_ampdu_rx \<Rightarrow> 'p option list" where
  "window r =
     map (\<lambda>k. reorder_buf r !
            ((reorder_index r (head_seq_num r) + k) mod unat (buf_size r))) [0..<unat (buf_size r)]"

definition shiftw :: "nat \<Rightarrow> 'p option list \<Rightarrow> 'p option list" where
  "shiftw m w = map (\<lambda>k. if k + m < length w then w ! (k + m) else None) [0..<length w]"

definition somes :: "'p option list \<Rightarrow> 'p list" where
  "somes w = List.map_filter (\<lambda>x. x) w"

text \<open>
  Well-formed sessions. The window size divides the sequence space, so that slots follow
  sequence numbers across the wrap, and is small against half of it, so that ``ahead of'' and
  ``behind'' the window are told apart. A stored frame sits at the distance of its own sequence
  number \<open>sq p\<close> from the head.
\<close>

definition reorder_wf :: "('p \<Rightarrow> u16) \<Rightarrow> 'p phl_tid_ampdu_rx \<Rightarrow> bool" where
  "reorder_wf sq r \<longleftrightarrow>
     2 \<le> unat (buf_size r) \<and> unat (buf_size r) \<le> 1024 \<and> unat (buf_size r) dvd 4096 \<and>
     length (reorder_buf r) = unat (buf_size r) \<and> length (reorder_time r) = unat (buf_size r) \<and>
     unat (head_seq_num r) < 4096 \<and>
     unat (stored_mpdu_num r) = occupied (reorder_buf r) \<and>
     (\<forall>k < unat (buf_size r). \<forall>p. window r ! k = Some p \<longrightarrow>
        seq_dist (head_seq_num r) (sq p) = k \<and> unat (sq p) < 4096)"

lemma length_window [simp]: "length (window r) = unat (buf_size r)"
  by (simp add: window_def)

lemma length_shiftw [simp]: "length (shiftw m w) = length w"
  by (simp add: shiftw_def)

lemma nth_shiftw [simp]:
  "k < length w \<Longrightarrow> shiftw m w ! k = (if k + m < length w then w ! (k + m) else None)"
  by (simp add: shiftw_def)

lemma shiftw_0 [simp]: "shiftw 0 w = w"
  by (rule nth_equalityI) auto

lemma shiftw_shiftw: "shiftw n (shiftw m w) = shiftw (m + n) w"
  by (rule nth_equalityI) (auto simp: add.assoc add.commute add.left_commute)

lemma somes_Nil [simp]: "somes [] = []"
  by (simp add: somes_def)

lemma somes_Cons [simp]: "somes (x # w) = (case x of None \<Rightarrow> somes w | Some p \<Rightarrow> p # somes w)"
  by (simp add: somes_def split: option.splits)

lemma somes_append [simp]: "somes (v @ w) = somes v @ somes w"
  by (induction v) (auto split: option.splits)

lemma somes_all_None: "\<forall>x \<in> set w. x = None \<Longrightarrow> somes w = []"
  by (induction w) auto

lemma somes_replicate_None [simp]: "somes (replicate n None) = []"
  by (rule somes_all_None) simp

lemma shiftw_conv_drop: "shiftw m w = drop m w @ replicate (min m (length w)) None"
  by (rule nth_equalityI) (auto simp: nth_append min_def add.commute)

lemma somes_take_shiftw: "somes (take n (shiftw m w)) = somes (take n (drop m w))"
  by (simp add: shiftw_conv_drop)

lemma somes_take_add:
  "somes (take m w) @ somes (take n (shiftw m w)) = somes (take (m + n) w)"
  by (simp add: somes_take_shiftw take_add)

lemma mod_index_inj:
  assumes "(i + k) mod n = (i + l) mod n" and "k < n" and "l < n"
  shows "k = (l::nat)"
proof -
  have *: "k = l" if "(i + k) mod n = (i + l) mod n" "k \<le> l" "l < n" for k l
  proof -
    have "n dvd (i + l) - (i + k)"
      using that(1) [symmetric] that(2) by (subst mod_eq_dvd_iff_nat [symmetric]) simp_all
    then have "n dvd l - k" by simp
    with that show ?thesis using nat_dvd_not_less [of "l - k" n] by linarith
  qed
  from assms show ?thesis using * [of k l] * [of l k] by (cases "k \<le> l") auto
qed

lemma reorder_index_dist:
  "reorder_index r s = seq_dist (ssn r) s mod unat (buf_size r)"
  by (simp add: reorder_index_def seq_dist_def unat_mod)

lemma reorder_index_less: "0 < unat (buf_size r) \<Longrightarrow> reorder_index r s < unat (buf_size r)"
  by (simp add: reorder_index_dist)

text \<open>Slots follow sequence numbers, across the wrap of both.\<close>

lemma reorder_index_add:
  assumes "unat (buf_size r) dvd 4096"
  shows "reorder_index r s = (reorder_index r h + seq_dist h s) mod unat (buf_size r)"
proof -
  have "seq_dist (ssn r) s = (seq_dist (ssn r) h + seq_dist h s) mod 4096"
    by (rule seq_dist_trans_nat)
  then have "seq_dist (ssn r) s mod unat (buf_size r)
      = (seq_dist (ssn r) h + seq_dist h s) mod unat (buf_size r)"
    using assms by (simp add: mod_mod_cancel)
  then show ?thesis by (simp add: reorder_index_dist mod_simps)
qed

lemma window_nth:
  "k < unat (buf_size r) \<Longrightarrow>
   window r ! k = reorder_buf r ! ((reorder_index r (head_seq_num r) + k) mod unat (buf_size r))"
  by (simp add: window_def)

lemma seq_dist_advance:
  assumes "seq_dist h h' = m" and "seq_dist h s = m + k" 
  shows "seq_dist h' s = k"
proof -
  have k: "k < 4096" using seq_dist_less [of h s] assms by linarith
  have "(int m + int (seq_dist h' s)) mod 4096 = int m + int k"
    using seq_dist_trans [of h s h'] assms by simp
  then have "(int m + int (seq_dist h' s)) mod 4096 = (int m + int k) mod 4096" by simp
  then have "int (seq_dist h' s) mod 4096 = int k mod 4096"
    by (metis add_diff_cancel_left' mod_diff_left_eq)
  then show ?thesis using seq_dist_less [of h' s] k by simp
qed

lemma window_occupied:
  assumes "reorder_wf sq r"
  shows "(stored_mpdu_num r = 0) = (\<forall>k < unat (buf_size r). window r ! k = None)"
proof -
  let ?n = "unat (buf_size r)" and ?i = "reorder_index r (head_seq_num r)"
  from assms have n: "0 < ?n" and len: "length (reorder_buf r) = ?n"
    and st: "unat (stored_mpdu_num r) = occupied (reorder_buf r)"
    by (auto simp: reorder_wf_def)
  have "(\<forall>j < ?n. reorder_buf r ! j = None) \<longleftrightarrow> (\<forall>k < ?n. reorder_buf r ! ((?i + k) mod ?n) = None)"
  proof
    assume *: "\<forall>k < ?n. reorder_buf r ! ((?i + k) mod ?n) = None"
    show "\<forall>j < ?n. reorder_buf r ! j = None"
    proof (intro allI impI)
      fix j assume j: "j < ?n"
      have i: "?i < ?n" using n by (rule reorder_index_less)
      let ?k = "(j + ?n - ?i) mod ?n"
      have "(?i + ?k) mod ?n = (?i + (j + ?n - ?i)) mod ?n" by (simp add: mod_simps)
      also have "\<dots> = j" using i j by simp
      finally show "reorder_buf r ! j = None" using * [rule_format, of ?k] n by simp
    qed
  qed (use n in simp)
  moreover have "stored_mpdu_num r = 0 \<longleftrightarrow> occupied (reorder_buf r) = 0"
    using st by (metis unat_0 unsigned_0 word_unat_eq_iff)
  ultimately show ?thesis
    by (simp add: occupied_0_iff len window_nth)
qed

text \<open>
  The central step: clearing the first \<open>m\<close> entries of the window and moving the head by
  \<open>m\<close> shifts the window by \<open>m\<close> and keeps the session well-formed.
\<close>

lemma slide_window:
  assumes wf: "reorder_wf sq r"
    and frame: "buf_size r' = buf_size r" "ssn r' = ssn r"
      "length (reorder_buf r') = length (reorder_buf r)"
      "length (reorder_time r') = length (reorder_time r)"
    and head: "seq_dist (head_seq_num r) (head_seq_num r') = m" "unat (head_seq_num r') < 4096"
    and clear: "\<And>k. k < unat (buf_size r) \<Longrightarrow>
        reorder_buf r' ! ((reorder_index r (head_seq_num r) + k) mod unat (buf_size r))
          = (if k < m then None else window r ! k)"
    and stored: "unat (stored_mpdu_num r') = occupied (reorder_buf r')"
  shows "reorder_wf sq r'" and "window r' = shiftw m (window r)"
proof -
  let ?n = "unat (buf_size r)" and ?i = "reorder_index r (head_seq_num r)"
  from wf have n: "2 \<le> ?n" "?n \<le> 1024" "?n dvd 4096"
    and len: "length (reorder_buf r) = ?n" "length (reorder_time r) = ?n"
    and win: "\<And>k p. k < ?n \<Longrightarrow> window r ! k = Some p \<Longrightarrow>
      seq_dist (head_seq_num r) (sq p) = k \<and> unat (sq p) < 4096"
    by (auto simp: reorder_wf_def)
  have i': "reorder_index r' (head_seq_num r') = (?i + m) mod ?n"
    using reorder_index_add [of r' "head_seq_num r'" "head_seq_num r"] n head(1) frame
    by (simp add: reorder_index_dist)
  show w: "window r' = shiftw m (window r)"
  proof (rule nth_equalityI)
    show "length (window r') = length (shiftw m (window r))" using frame by simp
  next
    fix k assume "k < length (window r')"
    with frame have k: "k < ?n" by simp
    have "window r' ! k = reorder_buf r' ! ((?i + (m + k) mod ?n) mod ?n)"
      using k frame by (simp add: window_nth i' mod_simps add.assoc)
    also have "\<dots> = (if (m + k) mod ?n < m then None else window r ! ((m + k) mod ?n))"
      using n by (intro clear) simp
    also have "\<dots> = (if k + m < ?n then window r ! (k + m) else None)"
    proof (cases "k + m < ?n")
      case True
      then show ?thesis by (simp add: add.commute)
    next
      case False
      have "(m + k) mod ?n < m"
      proof (cases "m < ?n")
        case True
        with False k have "(m + k) mod ?n = m + k - ?n" by (simp add: mod_if)
        with k show ?thesis using False by simp
      next
        case m: False
        have "(m + k) mod ?n < ?n" using n by simp
        with m show ?thesis by linarith
      qed
      with False show ?thesis by simp
    qed
    finally show "window r' ! k = shiftw m (window r) ! k" using k by simp
  qed
  have "seq_dist (head_seq_num r') (sq p) = k \<and> unat (sq p) < 4096"
    if "k < ?n" "window r' ! k = Some p" for k p
  proof -
    from that w have "k + m < ?n" "window r ! (k + m) = Some p" by (auto split: if_splits)
    with win have "seq_dist (head_seq_num r) (sq p) = m + k" "unat (sq p) < 4096"
      by (auto simp: add.commute)
    with head(1) show ?thesis using seq_dist_advance by blast
  qed
  with n len frame head(2) stored show "reorder_wf sq r'"
    by (simp add: reorder_wf_def)
qed

section \<open>Every release shifts the window\<close>

definition slid :: "('p \<Rightarrow> u16) \<Rightarrow> 'p phl_tid_ampdu_rx \<Rightarrow> nat \<Rightarrow> 'p phl_tid_ampdu_rx \<Rightarrow> bool" where
  "slid sq r m r' \<longleftrightarrow>
     reorder_wf sq r' \<and> window r' = shiftw m (window r) \<and>
     seq_dist (head_seq_num r) (head_seq_num r') = m \<and>
     buf_size r' = buf_size r \<and> ssn r' = ssn r \<and> reorder_time r' = reorder_time r \<and>
     started r' = started r \<and> removed r' = removed r \<and> ba_tid r' = ba_tid r"

lemma seq_dist_self [simp]: "seq_dist h h = 0"
proof -
  have "int (seq_dist h h) = 0" by (simp add: seq_dist_int)
  then show ?thesis by simp
qed

lemma slid_refl [simp]: "reorder_wf sq r \<Longrightarrow> slid sq r 0 r"
  by (simp add: slid_def)

lemma slid_trans:
  assumes "slid sq r m r1" and "slid sq r1 k r2" and "m + k < 4096"
  shows "slid sq r (m + k) r2"
  using assms seq_dist_trans_nat [of "head_seq_num r" "head_seq_num r2" "head_seq_num r1"]
  by (auto simp: slid_def shiftw_shiftw)

lemma slid_wf: "slid sq r m r' \<Longrightarrow> reorder_wf sq r'"
  by (simp add: slid_def)

lemma unat_decr: "x \<noteq> 0 \<Longrightarrow> unat (x - 1) = unat x - 1" for x :: "'a::len word"
  by (rule unat_minus_one)

lemma reorder_wfD:
  assumes "reorder_wf sq r"
  shows "2 \<le> unat (buf_size r)" "unat (buf_size r) \<le> 1024" "unat (buf_size r) dvd 4096"
    "length (reorder_buf r) = unat (buf_size r)" "length (reorder_time r) = unat (buf_size r)"
    "unat (head_seq_num r) < 4096" "unat (stored_mpdu_num r) = occupied (reorder_buf r)"
  using assms by (auto simp: reorder_wf_def)

lemma slot_window:
  assumes "reorder_wf sq r" and "k < unat (buf_size r)"
  shows "reorder_slot r ((reorder_index r (head_seq_num r) + k) mod unat (buf_size r)) = window r ! k"
  using assms reorder_wfD [OF assms(1)] by (simp add: reorder_slot_def window_nth)

lemma slot_head:
  assumes "reorder_wf sq r"
  shows "reorder_slot r (reorder_index r (head_seq_num r)) = window r ! 0"
proof -
  have "0 < unat (buf_size r)" using reorder_wfD(1) [OF assms] by linarith
  with slot_window [OF assms, of 0] reorder_index_less [of r] show ?thesis by simp
qed

lemma seq_dist_add:
  assumes "m < 4096"
  shows "seq_dist h ((h + of_nat m) AND 0xfff) = m"
proof -
  have "int (unat ((h + of_nat m) AND 0xfff :: u16)) = int ((unat h + m) mod 4096)"
    by (simp only: unat_seq_add)
  then have "uint ((h + of_nat m) AND 0xfff) = (uint h + int m) mod 4096"
    by (simp add: of_nat_mod)
  then have "int (seq_dist h ((h + of_nat m) AND 0xfff)) = int m mod 4096"
    by (simp add: seq_dist_int mod_simps)
  with assms show ?thesis by simp
qed

lemma seq_inc_add: "(seq_inc h + of_nat k) AND 0xfff = (h + of_nat (Suc k)) AND 0xfff"
proof -
  have "unat ((seq_inc h + of_nat k) AND 0xfff) = unat ((h + of_nat (Suc k)) AND 0xfff)"
    unfolding unat_seq_add unat_seq_inc by (simp add: mod_simps)
  then show ?thesis by (simp only: word_unat_eq_iff)
qed

text \<open>Releasing the first filled slot of the window, \<open>k\<close> behind the head.\<close>

lemma release_at:
  assumes wf: "reorder_wf sq r" and k: "k < unat (buf_size r)"
    and p: "window r ! k = Some p" and empty: "\<forall>i < k. window r ! i = None"
    and rel: "phl_release_reorder_frame r
        ((reorder_index r (head_seq_num r) + k) mod unat (buf_size r)) frames = (r1, frames1)"
    and r2: "r2 = r1\<lparr>head_seq_num := (head_seq_num r1 + of_nat k) AND 0xfff\<rparr>"
  shows "slid sq r (Suc k) r2 \<and> frames1 = frames @ somes (take (Suc k) (window r))"
proof -
  let ?n = "unat (buf_size r)" and ?i = "reorder_index r (head_seq_num r)"
  let ?j = "(?i + k) mod ?n"
  note D = reorder_wfD [OF wf]
  have j: "?j < length (reorder_buf r)" using D by simp
  have slot: "reorder_slot r ?j = Some p" using slot_window [OF wf k] p by simp
  then have bj: "reorder_buf r ! ?j = Some p" using j by (simp add: reorder_slot_def)
  from rel slot have r1: "r1 = r\<lparr>stored_mpdu_num := stored_mpdu_num r - 1,
      reorder_buf := (reorder_buf r)[?j := None], head_seq_num := seq_inc (head_seq_num r)\<rparr>"
    and f1: "frames1 = frames @ [p]"
    by (auto simp: phl_release_reorder_frame_def)
  have head: "head_seq_num r2 = (head_seq_num r + of_nat (Suc k)) AND 0xfff"
    unfolding r2 r1 by (simp add: seq_inc_add del: of_nat_Suc)
  have occ: "Suc (occupied ((reorder_buf r)[?j := None])) = occupied (reorder_buf r)"
    using occupied_clear [OF j] bj by simp
  then have st: "stored_mpdu_num r \<noteq> 0" using D(7) by (metis nat.distinct(1) unsigned_0)
  have dist: "seq_dist (head_seq_num r) (head_seq_num r2) = Suc k"
    unfolding head using k D by (intro seq_dist_add) linarith
  have hd: "unat (head_seq_num r2) < 4096" unfolding head unat_seq_add by simp
  have st': "unat (stored_mpdu_num r2) = occupied (reorder_buf r2)"
    using occ D(7) st by (simp add: r2 r1 unat_decr)
  have clear: "reorder_buf r2 ! ((?i + l) mod ?n) = (if l < Suc k then None else window r ! l)"
    if "l < ?n" for l
    using that k j empty mod_index_inj [of ?i l ?n k]
    by (auto simp: r2 r1 nth_list_update window_nth less_Suc_eq)
  have "reorder_wf sq r2" "window r2 = shiftw (Suc k) (window r)"
    by (rule slide_window [OF wf _ _ _ _ dist hd clear st']; simp add: r2 r1)+
  moreover have "somes (take (Suc k) (window r)) = [p]"
  proof -
    have "somes (take k (window r)) = []"
      using k empty by (intro somes_all_None) (auto simp: in_set_conv_nth)
    with k p show ?thesis by (simp add: take_Suc_conv_app_nth)
  qed
  ultimately show ?thesis using f1 dist by (simp add: slid_def) (simp add: r2 r1)
qed

lemma release_head:
  assumes wf: "reorder_wf sq r"
    and rel: "phl_release_reorder_frame r (reorder_index r (head_seq_num r)) frames = (r1, frames1)"
  shows "slid sq r 1 r1 \<and> frames1 = frames @ somes (take 1 (window r))"
proof -
  let ?n = "unat (buf_size r)" and ?i = "reorder_index r (head_seq_num r)"
  note D = reorder_wfD [OF wf]
  have n: "0 < ?n" using D by linarith
  then have i: "?i < ?n" by (rule reorder_index_less)
  show ?thesis
  proof (cases "window r ! 0")
    case (Some p)
    have "r1 = r1\<lparr>head_seq_num := (head_seq_num r1 + of_nat 0) AND 0xfff\<rparr>"
      using rel by (auto simp: phl_release_reorder_frame_def seq_inc_def and.assoc split: option.splits)
    from release_at [OF wf n Some _ _ this] rel i show ?thesis by simp
  next
    case None
    with slot_head [OF wf] rel have r1: "r1 = r\<lparr>head_seq_num := seq_inc (head_seq_num r)\<rparr>"
      and f: "frames1 = frames"
      by (auto simp: phl_release_reorder_frame_def)
    have dist: "seq_dist (head_seq_num r) (head_seq_num r1) = 1"
      using seq_dist_add [of 1 "head_seq_num r"] by (simp add: r1 seq_inc_def)
    have hd: "unat (head_seq_num r1) < 4096" by (simp add: r1 unat_seq_inc)
    have clear: "reorder_buf r1 ! ((?i + l) mod ?n) = (if l < 1 then None else window r ! l)"
      if "l < ?n" for l
      using that None n i by (auto simp: r1 window_nth)
    have "reorder_wf sq r1" "window r1 = shiftw 1 (window r)"
      by (rule slide_window [OF wf _ _ _ _ dist hd clear]; simp add: r1 D)+
    moreover have "somes (take 1 (window r)) = []"
      using None n take_Suc_conv_app_nth [of 0 "window r"] by simp
    ultimately show ?thesis using f dist by (simp add: slid_def) (simp add: r1)
  qed
qed

lemma reorder_release_ready_slid:
  assumes "reorder_wf sq r" and "reorder_release_ready r frames = (r', frames')"
  shows "\<exists>m \<le> unat (buf_size r). slid sq r m r' \<and> frames' = frames @ somes (take m (window r)) \<and>
           window r' ! 0 = None \<and> (\<forall>i < m. window r ! i \<noteq> None)"
  using assms
proof (induction r frames rule: reorder_release_ready.induct)
  case (1 r frames)
  let ?i = "reorder_index r (head_seq_num r)"
  note D = reorder_wfD [OF 1(2)]
  show ?case
  proof (cases "window r ! 0")
    case None
    with 1(2,3) slot_head [OF 1(2)] have "r' = r" "frames' = frames"
      by (simp_all add: reorder_release_ready.simps [of r frames])
    with None 1(2) show ?thesis by (intro exI [of _ 0]) simp
  next
    case (Some p)
    obtain r1 f1 where rel: "phl_release_reorder_frame r ?i frames = (r1, f1)" by fastforce
    from release_head [OF 1(2) rel] have s1: "slid sq r 1 r1"
      and f1: "f1 = frames @ somes (take 1 (window r))" by auto
    from Some slot_head [OF 1(2)] have slot: "reorder_slot r ?i \<noteq> None" by simp
    with 1(3) rel have ready: "reorder_release_ready r1 f1 = (r', frames')"
      by (simp add: reorder_release_ready.simps [of r frames] Let_def)
    from 1(1) [OF refl slot rel [symmetric] refl slid_wf [OF s1] ready] obtain m where
      m: "m \<le> unat (buf_size r1)" "slid sq r1 m r'" "frames' = f1 @ somes (take m (window r1))"
        "window r' ! 0 = None" "\<forall>i < m. window r1 ! i \<noteq> None" by blast
    from s1 have w1: "window r1 = shiftw 1 (window r)" and b1: "buf_size r1 = buf_size r"
      by (auto simp: slid_def)
    have filled: "\<forall>i < Suc m. window r ! i \<noteq> None \<and> i < unat (buf_size r)"
    proof (intro allI impI)
      fix i assume "i < Suc m"
      then show "window r ! i \<noteq> None \<and> i < unat (buf_size r)"
        using m(1,5) w1 b1 Some D by (cases i) (auto split: if_splits)
    qed
    then have "Suc m \<le> unat (buf_size r)" by auto
    moreover have "slid sq r (1 + m) r'"
      using s1 m(2) by (rule slid_trans) (use m(1) b1 D in simp)
    moreover have "frames' = frames @ somes (take (Suc m) (window r))"
      using m(3) f1 w1 somes_take_add [of 1 "window r" m] by simp
    ultimately show ?thesis using m(4) filled by (intro exI [of _ "Suc m"]) simp
  qed
qed

lemma release_reorder_frames_loop_slid:
  assumes "reorder_wf sq r" and "release_reorder_frames_loop r hseq frames = (r', frames')"
    and "seq_dist (head_seq_num r) hseq < 2048"
  shows "\<exists>m \<le> seq_dist (head_seq_num r) hseq.
           slid sq r m r' \<and> frames' = frames @ somes (take m (window r)) \<and>
           (m = seq_dist (head_seq_num r) hseq \<or> stored_mpdu_num r' = 0)"
  using assms
proof (induction r hseq frames rule: release_reorder_frames_loop.induct)
  case (1 r hseq frames)
  let ?i = "reorder_index r (head_seq_num r)" and ?d = "seq_dist (head_seq_num r) hseq"
  show ?case
  proof (cases "seq_less (head_seq_num r) hseq \<and> stored_mpdu_num r \<noteq> 0")
    case False
    with 1(3) have "r' = r" "frames' = frames"
      by (simp_all add: release_reorder_frames_loop.simps [of r hseq frames] split: if_splits)
    moreover have "?d = 0 \<or> stored_mpdu_num r = 0"
      using False 1(4) seq_dist_flip [of "head_seq_num r" hseq]
      by (cases "?d = 0") (auto simp: seq_less_iff)
    ultimately show ?thesis using 1(2) by (intro exI [of _ 0]) auto
  next
    case True
    obtain r1 f1 where rel: "phl_release_reorder_frame r ?i frames = (r1, f1)" by fastforce
    from release_head [OF 1(2) rel] have s1: "slid sq r 1 r1"
      and f1: "f1 = frames @ somes (take 1 (window r))" by auto
    from True 1(3) rel have loop: "release_reorder_frames_loop r1 hseq f1 = (r', frames')"
      by (simp add: release_reorder_frames_loop.simps [of r hseq frames] Let_def)
    from s1 have d1: "seq_dist (head_seq_num r) (head_seq_num r1) = 1"
      and w1: "window r1 = shiftw 1 (window r)" by (auto simp: slid_def)
    from True seq_less_dist [of "head_seq_num r" hseq] have d: "0 < ?d" by simp
    with d1 have d': "seq_dist (head_seq_num r1) hseq = ?d - 1"
      using seq_dist_advance [of "head_seq_num r" "head_seq_num r1" 1 hseq "?d - 1"] by simp
    from 1(1) [OF True rel [symmetric] refl slid_wf [OF s1] loop] d' 1(4) obtain m where
      m: "m \<le> ?d - 1" "slid sq r1 m r'" "frames' = f1 @ somes (take m (window r1))"
        "m = ?d - 1 \<or> stored_mpdu_num r' = 0" by fastforce
    have "slid sq r (1 + m) r'" using s1 m(2) by (rule slid_trans) (use m(1) 1(4) in linarith)
    moreover have "frames' = frames @ somes (take (1 + m) (window r))"
      using m(3) f1 w1 somes_take_add [of 1 "window r" m] by simp
    ultimately show ?thesis using m(1,4) d by (intro exI [of _ "1 + m"]) auto
  qed
qed

lemma window_take_somes_empty:
  assumes "reorder_wf sq r" and "stored_mpdu_num r = 0"
  shows "somes (take m (window r)) = []" and "shiftw m (window r) = window r"
proof -
  from window_occupied [OF assms(1)] assms(2)
  have e: "\<forall>k < unat (buf_size r). window r ! k = None" by simp
  then show "somes (take m (window r)) = []"
    by (intro somes_all_None) (auto simp: in_set_conv_nth)
  from e show "shiftw m (window r) = window r"
    by (intro nth_equalityI) auto
qed

text \<open>
  \<^verbatim>\<open>phl_release_reorder_frames\<close> moves the window to the new head and releases exactly
  the frames that fall out of it, in order.
\<close>

lemma phl_release_reorder_frames_slid:
  assumes wf: "reorder_wf sq r"
    and rel: "phl_release_reorder_frames r hseq frames = (r', frames')"
    and d: "seq_dist (head_seq_num r) hseq = d" "d < 2048" and h: "unat hseq < 4096"
  shows "slid sq r d r' \<and> frames' = frames @ somes (take d (window r)) \<and> head_seq_num r' = hseq"
proof -
  obtain r1 f1 where loop: "release_reorder_frames_loop r hseq frames = (r1, f1)" by fastforce
  from release_reorder_frames_loop_slid [OF wf loop] d obtain m where
    m: "m \<le> d" "slid sq r m r1" "f1 = frames @ somes (take m (window r))"
      "m = d \<or> stored_mpdu_num r1 = 0" by auto
  from rel loop have r': "r' = r1\<lparr>head_seq_num := hseq\<rparr>" and f': "frames' = f1"
    by (simp_all add: phl_release_reorder_frames_def)
  note D1 = reorder_wfD [OF slid_wf [OF m(2)]]
  have d1: "seq_dist (head_seq_num r) (head_seq_num r1) = m" using m(2) by (simp add: slid_def)
  have rest: "seq_dist (head_seq_num r1) hseq = d - m"
    using seq_dist_advance [OF d1, of hseq "d - m"] d m(1) by simp
  show ?thesis
  proof (cases "m = d")
    case True
    with d d1 have "head_seq_num r1 = hseq"
      using seq_dist_inj [of "head_seq_num r" "head_seq_num r1" hseq] D1(6) h by simp
    then have "r1\<lparr>head_seq_num := hseq\<rparr> = r1" by (cases r1) simp
    with True m f' r' \<open>head_seq_num r1 = hseq\<close> show ?thesis by simp
  next
    case False
    with m have st: "stored_mpdu_num r1 = 0" by simp
    note e = window_take_somes_empty [OF slid_wf [OF m(2)] st]
    from window_occupied [OF slid_wf [OF m(2)]] st
    have none: "\<forall>k < unat (buf_size r1). window r1 ! k = None" by simp
    have "reorder_wf sq r'" "window r' = shiftw (d - m) (window r1)"
      by (rule slide_window [OF slid_wf [OF m(2)], where m = "d - m"];
          simp add: r' rest h D1 none flip: window_nth)+
    then have "slid sq r1 (d - m) r'" using rest by (simp add: slid_def) (simp add: r')
    with m(1,2) d have "slid sq r (m + (d - m)) r'" by (intro slid_trans) auto
    moreover have "somes (take d (window r)) = somes (take m (window r))"
      using somes_take_add [of m "window r" "d - m"] m(1,2) e(1) by (simp add: slid_def)
    ultimately show ?thesis using m f' r' by simp
  qed
qed

section \<open>The time-out scan\<close>

text \<open>
  The scan stands at ring position \<open>index + k\<close>, the head is \<open>skipped\<close> slots back, and
  all ring positions passed so far are empty.
\<close>

definition scan_inv :: "('p \<Rightarrow> u16) \<Rightarrow> nat \<Rightarrow> nat \<Rightarrow> nat \<Rightarrow> 'p phl_tid_ampdu_rx \<Rightarrow> bool" where
  "scan_inv sq index k skipped r \<longleftrightarrow>
     reorder_wf sq r \<and> index < unat (buf_size r) \<and> skipped \<le> k \<and> 1 \<le> k \<and>
     reorder_index r (head_seq_num r) = (index + (k - skipped)) mod unat (buf_size r) \<and>
     (\<forall>q < k. q < unat (buf_size r) \<longrightarrow>
        reorder_buf r ! ((index + q) mod unat (buf_size r)) = None)"

lemma scan_position:
  assumes "scan_inv sq index k skipped r" and "k < unat (buf_size r)"
  shows "(index + k) mod unat (buf_size r) =
         (reorder_index r (head_seq_num r) + skipped) mod unat (buf_size r)"
    and "\<forall>i < skipped. window r ! i = None"
proof -
  let ?n = "unat (buf_size r)"
  from assms have i: "reorder_index r (head_seq_num r) = (index + (k - skipped)) mod ?n"
    and s: "skipped \<le> k"
    and e: "\<forall>q < k. q < ?n \<longrightarrow> reorder_buf r ! ((index + q) mod ?n) = None"
    by (auto simp: scan_inv_def)
  show "(index + k) mod ?n = (reorder_index r (head_seq_num r) + skipped) mod ?n"
    using s by (simp add: i mod_simps)
  show "\<forall>i < skipped. window r ! i = None"
  proof (intro allI impI)
    fix l assume l: "l < skipped"
    then have "window r ! l = reorder_buf r ! ((index + (k - skipped + l)) mod ?n)"
      using s assms(2) by (simp add: window_nth i mod_simps add.assoc)
    also have "\<dots> = None" using e [rule_format, of "k - skipped + l"] l s assms(2) by simp
    finally show "window r ! l = None" .
  qed
qed

lemma scan_nothing_incomplete:
  assumes "scan_inv sq index k skipped r" and "k < unat (buf_size r)"
  shows "List.map_filter (reorder_slot r)
     (takeWhile (\<lambda>i. i \<noteq> (index + k) mod unat (buf_size r)) (scan_slots (unat (buf_size r)) index)) = []"
proof -
  let ?n = "unat (buf_size r)" and ?f = "\<lambda>q. (index + q) mod unat (buf_size r)"
  have "takeWhile (\<lambda>i. i \<noteq> ?f k) (scan_slots ?n index) = map ?f [1..<k]"
  proof -
    have split: "[1..<?n] = [1..<k] @ k # [Suc k..<?n]"
      using assms upt_add_eq_append [of 1 k "?n - k"] by (simp add: scan_inv_def upt_conv_Cons)
    have "?f q \<noteq> ?f k" if "q \<in> set [1..<k]" for q
      using that assms(2) mod_index_inj [of index q ?n k] by auto
    then show ?thesis
      unfolding scan_slots_def split by (subst map_append, subst takeWhile_append2) auto
  qed
  moreover have "reorder_slot r (?f q) = None" if "q \<in> set [1..<k]" for q
    using assms that by (auto simp: scan_inv_def reorder_slot_def)
  ultimately show ?thesis by (simp add: List.map_filter_def filter_empty_conv)
qed

lemma scan_inv_skip:
  assumes "scan_inv sq index k skipped r" and "k < unat (buf_size r)"
    and "reorder_slot r ((index + k) mod unat (buf_size r)) = None"
  shows "scan_inv sq index (Suc k) (Suc skipped) r"
  using assms reorder_wfD(4) [of sq r]
  by (auto simp: scan_inv_def reorder_slot_def less_Suc_eq split: if_splits)

lemma scan_inv_release:
  assumes inv: "scan_inv sq index k skipped r" and k: "k < unat (buf_size r)"
    and slot: "reorder_slot r ((index + k) mod unat (buf_size r)) \<noteq> None"
    and rel: "phl_release_reorder_frame r ((index + k) mod unat (buf_size r)) frames = (r1, frames1)"
    and r2: "r2 = r1\<lparr>head_seq_num := (head_seq_num r1 + of_nat skipped) AND 0xfff\<rparr>"
  shows "slid sq r (Suc skipped) r2 \<and> frames1 = frames @ somes (take (Suc skipped) (window r)) \<and>
         scan_inv sq index (Suc k) 0 r2"
proof -
  let ?n = "unat (buf_size r)"
  from inv have wf: "reorder_wf sq r" and sk: "skipped \<le> k" and i: "index < ?n"
    by (auto simp: scan_inv_def)
  note pos = scan_position [OF inv k] and D = reorder_wfD [OF wf]
  from sk k have s: "skipped < ?n" by linarith
  obtain p where p: "window r ! skipped = Some p"
    using slot slot_window [OF wf s] pos(1) by auto
  from rel pos(1) have rel': "phl_release_reorder_frame r
      ((reorder_index r (head_seq_num r) + skipped) mod ?n) frames = (r1, frames1)" by simp
  from release_at [OF wf s p pos(2) rel' r2]
  have slid: "slid sq r (Suc skipped) r2"
    and f: "frames1 = frames @ somes (take (Suc skipped) (window r))" by auto
  from slid have same: "buf_size r2 = buf_size r" "ssn r2 = ssn r"
    and dist: "seq_dist (head_seq_num r) (head_seq_num r2) = Suc skipped" by (auto simp: slid_def)
  have "reorder_index r2 (head_seq_num r2) = (reorder_index r (head_seq_num r) + Suc skipped) mod ?n"
    using reorder_index_add [of r2 "head_seq_num r2" "head_seq_num r"] dist same D(3)
    by (simp add: reorder_index_dist)
  also have "\<dots> = (index + Suc k) mod ?n" using pos(1) by (metis add_Suc_right mod_Suc_eq)
  finally have idx: "reorder_index r2 (head_seq_num r2) = (index + Suc k) mod ?n" .
  from rel slot r2 have buf: "reorder_buf r2 = (reorder_buf r)[(index + k) mod ?n := None]"
    by (auto simp: phl_release_reorder_frame_def)
  have "\<forall>q < Suc k. q < ?n \<longrightarrow> reorder_buf r2 ! ((index + q) mod ?n) = None"
    using inv k D i by (auto simp: scan_inv_def buf nth_list_update less_Suc_eq)
  with slid_wf [OF slid] idx same i have "scan_inv sq index (Suc k) 0 r2"
    by (simp add: scan_inv_def)
  with slid f show ?thesis by simp
qed

lemma scan_complete:
  assumes "scan_inv sq index (unat (buf_size r)) skipped r"
  shows "stored_mpdu_num r = 0"
proof -
  let ?n = "unat (buf_size r)"
  from assms have wf: "reorder_wf sq r" and sk: "skipped \<le> ?n"
    and i: "reorder_index r (head_seq_num r) = (index + (?n - skipped)) mod ?n"
    and e: "\<forall>q < ?n. reorder_buf r ! ((index + q) mod ?n) = None"
    by (auto simp: scan_inv_def)
  have "window r ! l = None" if "l < ?n" for l
  proof -
    have "window r ! l = reorder_buf r ! ((index + (?n - skipped + l) mod ?n) mod ?n)"
      using that by (simp add: window_nth i mod_simps add.assoc)
    also have "\<dots> = None" using that by (intro e [rule_format]) simp
    finally show ?thesis .
  qed
  then show ?thesis using window_occupied [OF wf] by blast
qed

lemma reorder_timeout_scan_slid:
  assumes "scan_inv sq index k skipped r" and "n = unat (buf_size r)" and "k \<le> n"
    and "reorder_timeout_scan now index (map (\<lambda>k. (index + k) mod n) [k..<n]) skipped r frames rc
           = (flag, r', frames', rc')"
  shows "\<exists>m. m + k \<le> n + skipped \<and> slid sq r m r' \<and>
           frames' = frames @ somes (take m (window r)) \<and> rc' = rc \<and>
           (if flag then window r' ! 0 = None \<and> stored_mpdu_num r' \<noteq> 0 else stored_mpdu_num r' = 0)"
  using assms
proof (induction "n - k" arbitrary: k skipped r frames rc)
  case 0
  then have "k = n" by simp
  with 0 have "r' = r" "frames' = frames" "rc' = rc" "\<not> flag" by simp_all
  with 0 \<open>k = n\<close> show ?case using scan_complete [of sq index r skipped]
    by (intro exI [of _ 0]) (simp add: scan_inv_def)
next
  case (Suc d)
  note inv = Suc.prems(1) and n = Suc.prems(2)
  from Suc.hyps(2) have k: "k < n" by linarith
  then have upt: "[k..<n] = k # [Suc k..<n]" by (rule upt_conv_Cons)
  let ?j = "(index + k) mod n"
  have wf: "reorder_wf sq r" using inv by (simp add: scan_inv_def)
  consider (empty) "reorder_slot r ?j = None"
    | (wait) "reorder_slot r ?j \<noteq> None" "skipped \<noteq> 0"
        "now < reorder_time r ! ?j + HT_RX_REORDER_BUF_TIMEOUT_MS"
    | (release) "reorder_slot r ?j \<noteq> None"
        "\<not> (skipped \<noteq> 0 \<and> now < reorder_time r ! ?j + HT_RX_REORDER_BUF_TIMEOUT_MS)"
    by blast
  then show ?case
  proof cases
    case empty
    with inv k n have "scan_inv sq index (Suc k) (Suc skipped) r" by (simp add: scan_inv_skip)
    from Suc.hyps(1) [OF _ this n] Suc.hyps(2) Suc.prems(4) k upt empty show ?thesis by auto
  next
    case wait
    with Suc.prems(4) upt have "r' = r" "frames' = frames" "rc' = rc" "flag" by simp_all
    moreover have "window r ! 0 = None" using scan_position(2) [OF inv] wait(2) k n by simp
    moreover have "stored_mpdu_num r \<noteq> 0"
    proof -
      have "skipped < unat (buf_size r)" using inv k n by (simp add: scan_inv_def)
      then show ?thesis
        using slot_window [OF wf] scan_position(1) [OF inv] window_occupied [OF wf] wait(1) k n by auto
    qed
    ultimately show ?thesis using wf k by (intro exI [of _ 0]) simp
  next
    case release
    obtain r1 f1 where rel: "phl_release_reorder_frame r ?j frames = (r1, f1)" by fastforce
    define r2 where "r2 = r1\<lparr>head_seq_num := (head_seq_num r1 + of_nat skipped) AND 0xfff\<rparr>"
    from scan_inv_release [OF inv _ _ _ r2_def] rel k n release(1)
    have step: "slid sq r (Suc skipped) r2" "f1 = frames @ somes (take (Suc skipped) (window r))"
      "scan_inv sq index (Suc k) 0 r2" by auto
    then have n2: "n = unat (buf_size r2)" using n by (simp add: slid_def)
    have branch: "(reorder_slot r ?j = None) = False"
      "(skipped \<noteq> 0 \<and> now < reorder_time r ! ?j + HT_RX_REORDER_BUF_TIMEOUT_MS) = False"
      using release by simp_all
    have none: "List.map_filter (reorder_slot r)
        (takeWhile (\<lambda>i. i \<noteq> ?j) (scan_slots (unat (buf_size r)) index)) = []"
      using scan_nothing_incomplete [OF inv] k n by simp
    have scan: "reorder_timeout_scan now index (map (\<lambda>k. (index + k) mod n) [Suc k..<n]) 0 r2 f1 rc
        = (flag, r', frames', rc')"
      using Suc.prems(4) unfolding upt list.map reorder_timeout_scan.simps branch if_False rel none
        Let_def prod.case append_Nil2 r2_def .
    have "d = n - Suc k" using Suc.hyps(2) by linarith
    from Suc.hyps(1) [OF this step(3) n2 _ scan] k obtain m where
      m: "m + Suc k \<le> n" "slid sq r2 m r'" "frames' = f1 @ somes (take m (window r2))" "rc' = rc"
        "if flag then window r' ! 0 = None \<and> stored_mpdu_num r' \<noteq> 0 else stored_mpdu_num r' = 0" by auto
    have sk: "skipped \<le> k" using inv by (simp add: scan_inv_def)
    have "slid sq r (Suc skipped + m) r'"
      using step(1) m(2) by (rule slid_trans) (use m(1) sk k n reorder_wfD(2) [OF wf] in linarith)
    moreover have "frames' = frames @ somes (take (Suc skipped + m) (window r))"
      using m(3) step(1,2) somes_take_add [of "Suc skipped" "window r" m] by (simp add: slid_def)
    ultimately show ?thesis using m sk by (intro exI [of _ "Suc skipped + m"]) auto
  qed
qed

lemma phl_reorder_release_slid:
  assumes wf: "reorder_wf sq r"
    and rel: "phl_reorder_release now r frames = (r', frames', recycled, timer)"
  shows "\<exists>m \<le> unat (buf_size r). slid sq r m r' \<and> frames' = frames @ somes (take m (window r)) \<and>
           recycled = [] \<and> window r' ! 0 = None \<and>
           timer = (if stored_mpdu_num r' = 0 then Timer_cancel
                    else if removed r' then Timer_keep else Timer_set)"
proof (cases "window r ! 0 = None \<and> stored_mpdu_num r \<noteq> 0")
  case False
  obtain r1 f1 where ready: "reorder_release_ready r frames = (r1, f1)" by fastforce
  with False rel slot_head [OF wf] have "r' = r1" "frames' = f1" "recycled = []"
    "timer = (if stored_mpdu_num r1 = 0 then Timer_cancel
              else if removed r1 then Timer_keep else Timer_set)"
    by (auto simp: phl_reorder_release_def split: if_splits)
  with reorder_release_ready_slid [OF wf ready] show ?thesis by blast
next
  case True
  let ?i = "reorder_index r (head_seq_num r)" and ?n = "unat (buf_size r)"
  note D = reorder_wfD [OF wf]
  have i: "?i < ?n" using D by (intro reorder_index_less) linarith
  obtain flag r1 f1 rc where scan:
    "reorder_timeout_scan now ?i (scan_slots ?n ?i) 1 r frames [] = (flag, r1, f1, rc)"
    by (metis prod_cases4)
  have "scan_inv sq ?i 1 1 r"
    using wf i True slot_head [OF wf] D by (auto simp: scan_inv_def reorder_slot_def)
  from reorder_timeout_scan_slid [OF this refl _ scan [unfolded scan_slots_def]] D obtain m where
    m: "m \<le> ?n" "slid sq r m r1" "f1 = frames @ somes (take m (window r))" "rc = []"
      "if flag then window r1 ! 0 = None \<and> stored_mpdu_num r1 \<noteq> 0 else stored_mpdu_num r1 = 0"
    by auto
  have "window r1 ! 0 = None"
    using m(5) window_occupied [OF slid_wf [OF m(2)]] reorder_wfD(1) [OF slid_wf [OF m(2)]]
    by (cases flag) auto
  moreover from True rel slot_head [OF wf] scan have "r' = r1" "frames' = f1" "recycled = rc"
    "timer = (if flag \<or> stored_mpdu_num r1 \<noteq> 0 then if \<not> removed r1 then Timer_set else Timer_keep
              else Timer_cancel)"
    by (auto simp: phl_reorder_release_def split: if_splits)
  ultimately show ?thesis using m by (intro exI [of _ m]) (auto split: if_splits)
qed

section \<open>Arrival of a frame\<close>

text \<open>Storing a frame that falls into an empty slot of the window.\<close>

lemma store_wf:
  assumes wf: "reorder_wf sq r" and d: "seq_dist (head_seq_num r) (sq pkt) = d" "d < unat (buf_size r)"
    and s: "unat (sq pkt) < 4096" and free: "window r ! d = None"
    and r': "r' = r\<lparr>reorder_buf := (reorder_buf r)[reorder_index r (sq pkt) := Some pkt],
                  reorder_time := (reorder_time r)[reorder_index r (sq pkt) := t],
                  stored_mpdu_num := stored_mpdu_num r + 1\<rparr>"
  shows "reorder_wf sq r' \<and> window r' = (window r)[d := Some pkt]"
proof -
  let ?n = "unat (buf_size r)" and ?i = "reorder_index r (head_seq_num r)"
  note D = reorder_wfD [OF wf]
  have j: "reorder_index r (sq pkt) = (?i + d) mod ?n"
    using reorder_index_add [OF D(3), of "sq pkt" "head_seq_num r"] d by simp
  have jl: "(?i + d) mod ?n < length (reorder_buf r)" using D by simp
  have bj: "reorder_buf r ! ((?i + d) mod ?n) = None" using free d by (simp add: window_nth)
  have idx: "reorder_index r' h = reorder_index r h" for h
    by (simp add: r' reorder_index_dist)
  have same: "buf_size r' = buf_size r" "head_seq_num r' = head_seq_num r"
    and buf: "reorder_buf r' = (reorder_buf r)[(?i + d) mod ?n := Some pkt]"
    by (simp_all add: r' j)
  have w: "window r' = (window r)[d := Some pkt]"
  proof (rule nth_equalityI)
    fix k assume "k < length (window r')"
    then have k: "k < ?n" by (simp add: r')
    have "window r' ! k = (reorder_buf r)[(?i + d) mod ?n := Some pkt] ! ((?i + k) mod ?n)"
      using k by (simp add: window_nth idx same buf)
    also have "\<dots> = (window r)[d := Some pkt] ! k"
      using k d jl mod_index_inj [of ?i k ?n d] by (auto simp: nth_list_update window_nth)
    finally show "window r' ! k = (window r)[d := Some pkt] ! k" .
  qed (simp add: r')
  have occ: "occupied (reorder_buf r') = Suc (occupied (reorder_buf r))"
    using occupied_fill [OF jl bj] by (simp add: r' j)
  have "occupied (reorder_buf r') \<le> 1024" using occupied_le_length [of "reorder_buf r'"] D by (simp add: r')
  then have "unat (stored_mpdu_num r + 1) = occupied (reorder_buf r')"
    using D(7) occ by (simp add: unat_word_ariths)
  with D w wf d s have "reorder_wf sq r'"
    unfolding reorder_wf_def by (auto simp: r' nth_list_update split: if_splits)
  with w show ?thesis by simp
qed

text \<open>The number of slots by which the window jumps for a frame at distance \<open>d\<close>.\<close>

abbreviation win_jump :: "nat \<Rightarrow> nat \<Rightarrow> nat" where
  "win_jump n d \<equiv> (if d < n then 0 else d + 1 - n)"

lemma jump_condition:
  assumes n: "unat b \<le> 1024" "2 \<le> unat b" and d: "seq_dist h s \<le> 2048"
  shows "seq_less s (h + b) \<longleftrightarrow> seq_dist h s < unat b"
proof -
  have hb: "seq_dist h (h + b) = unat b"
  proof -
    have "uint (h + b) mod 4096 = (uint h + uint b) mod 4096"
      by (simp add: uint_word_ariths mod_mod_cancel)
    then have "int (seq_dist h (h + b)) = (uint h + uint b - uint h) mod 4096"
      unfolding seq_dist_int by (metis mod_diff_left_eq)
    also have "\<dots> = int (unat b mod 4096)" by (simp add: of_nat_mod)
    finally show ?thesis using n by (simp only: of_nat_eq_iff) simp
  qed
  show ?thesis
  proof (cases "seq_dist h s < unat b")
    case True
    have "seq_dist h s = (unat b + seq_dist (h + b) s) mod 4096"
      using seq_dist_trans_nat [of h s "h + b"] hb by simp
    moreover have "4096 \<le> unat b + seq_dist (h + b) s"
    proof (rule ccontr)
      assume "\<not> 4096 \<le> unat b + seq_dist (h + b) s"
      with calculation have "seq_dist h s = unat b + seq_dist (h + b) s" by simp
      with True show False by simp
    qed
    ultimately show ?thesis using True n by (simp add: seq_less_iff)
  next
    case False
    then have "seq_dist (h + b) s = seq_dist h s - unat b"
      using seq_dist_advance [OF hb, of s "seq_dist h s - unat b"] by simp
    with False d show ?thesis by (simp add: seq_less_iff)
  qed
qed

lemma jump_target:
  assumes n: "unat b \<le> 1024" "2 \<le> unat b" and d: "unat b \<le> seq_dist h s"
  shows "seq_dist h (seq_inc (seq_sub s b)) = seq_dist h s + 1 - unat b"
    and "unat (seq_inc (seq_sub s b)) < 4096"
    and "seq_dist (seq_inc (seq_sub s b)) s = unat b - 1"
proof -
  let ?x = "seq_inc (seq_sub s b)"
  show "unat ?x < 4096" by (simp add: unat_seq_inc)
  have "unat ?x = (seq_dist b s + 1) mod 4096" by (simp add: unat_seq_inc seq_dist_def)
  from arg_cong [OF this, of int] have "uint ?x = ((uint s - uint b) mod 4096 + 1) mod 4096"
    by (simp add: of_nat_mod seq_dist_int add.commute)
  then have "int (seq_dist h ?x) = ((uint s - uint h) - (uint b - 1)) mod 4096"
    by (simp add: seq_dist_int mod_simps algebra_simps)
  also have "\<dots> = (int (seq_dist h s) - (int (unat b) - 1)) mod 4096"
    by (simp add: seq_dist_int mod_simps)
  also have "\<dots> = int (seq_dist h s + 1 - unat b)"
    using n d seq_dist_less [of h s] by (subst mod_pos_pos_trivial; linarith)
  finally show 1: "seq_dist h ?x = seq_dist h s + 1 - unat b" by (simp only: of_nat_eq_iff)
  show "seq_dist ?x s = unat b - 1"
    using seq_dist_advance [OF 1, of s "unat b - 1"] n d by simp
qed

text \<open>
  The cases of \<^verbatim>\<open>phl_manage_sta_reorder_buf\<close> for a started session, in terms of the
  window: a frame behind the window is given back; otherwise the window jumps by \<open>j\<close> slots
  to make room, and the frame is a duplicate, goes up directly, or is stored and the ready part
  of the window is released.
\<close>

lemma manage_cases:
  assumes wf: "reorder_wf sq r" and st: "started r" and s: "unat (sq pkt) < 4096"
    and res: "phl_manage_sta_reorder_buf t1 t2 (sq pkt) pkt r frames = res"
  defines "d \<equiv> seq_dist (head_seq_num r) (sq pkt)"
  defines "j \<equiv> win_jump (unat (buf_size r)) d"
  obtains (old) "2048 < d" "rr_taken res" "rr_ring res = r" "rr_frames res = frames"
      "rr_recycled res = [pkt]"
  | (dup) r1 where "d \<le> 2048" "slid sq r j r1" "window r1 ! (d - j) \<noteq> None"
      "rr_taken res" "rr_ring res = r1" "rr_frames res = frames @ somes (take j (window r))"
      "rr_recycled res = [pkt]"
  | (direct) "d = 0" "j = 0" "stored_mpdu_num r = 0" "\<not> rr_taken res" "slid sq r 1 (rr_ring res)"
      "rr_frames res = frames" "rr_recycled res = []"
  | (stored) r1 r2 m where "d \<le> 2048" "slid sq r j r1" "d - j < unat (buf_size r)"
      "window r1 ! (d - j) = None" "reorder_wf sq r2" "window r2 = (window r1)[d - j := Some pkt]"
      "head_seq_num r2 = head_seq_num r1" "started r2" "m \<le> unat (buf_size r)"
      "slid sq r2 m (rr_ring res)" "rr_taken res"
      "rr_frames res = frames @ somes (take j (window r)) @ somes (take m (window r2))"
      "rr_recycled res = []" "window (rr_ring res) ! 0 = None"
proof -
  note D = reorder_wfD [OF wf]
  have noop: "r\<lparr>started := True\<rparr> = r" using st by (cases r) simp
  show thesis
  proof (cases "seq_less (sq pkt) (head_seq_num r)")
    case True
    with res st noop have "rr_taken res" "rr_ring res = r" "rr_frames res = frames"
      "rr_recycled res = [pkt]"
      by (auto simp: phl_manage_sta_reorder_buf_def Let_def)
    with True show thesis by (intro old) (simp_all add: d_def seq_less_iff)
  next
    case notold: False
    then have d: "d \<le> 2048" by (simp add: d_def seq_less_iff)
    let ?jump = "if \<not> seq_less (sq pkt) (head_seq_num r + buf_size r) then
        phl_release_reorder_frames r (seq_inc (seq_sub (sq pkt) (buf_size r))) frames else (r, frames)"
    obtain r1 f1 where jump: "?jump = (r1, f1)" by fastforce
    have jc: "seq_less (sq pkt) (head_seq_num r + buf_size r) \<longleftrightarrow> d < unat (buf_size r)"
      using jump_condition [of "buf_size r" "head_seq_num r" "sq pkt"] D d by (simp add: d_def)
    have slid1: "slid sq r j r1 \<and> f1 = frames @ somes (take j (window r)) \<and>
        seq_dist (head_seq_num r1) (sq pkt) = d - j \<and> d - j < unat (buf_size r)"
    proof (cases "d < unat (buf_size r)")
      case True
      with jump jc wf show ?thesis by (simp add: j_def d_def)
    next
      case False
      note T = jump_target [of "buf_size r" "head_seq_num r" "sq pkt", folded d_def]
      from False jump jc have
        rel: "phl_release_reorder_frames r (seq_inc (seq_sub (sq pkt) (buf_size r))) frames = (r1, f1)"
        by simp
      have T1: "seq_dist (head_seq_num r) (seq_inc (seq_sub (sq pkt) (buf_size r))) = j"
        using T(1) D False by (simp add: j_def)
      have "j < 2048" using False d D by (simp add: j_def)
      from phl_release_reorder_frames_slid [OF wf rel T1 this T(2)] D False T(3) show ?thesis
        by (simp add: j_def)
    qed
    then have D1: "reorder_wf sq r1" and n1: "buf_size r1 = buf_size r" and s1: "started r1"
      using st by (auto simp: slid_def)
    let ?k = "reorder_index r1 (sq pkt)"
    have slot: "reorder_slot r1 ?k = window r1 ! (d - j)"
      using slot_window [OF D1, of "d - j"] slid1 n1
        reorder_index_add [OF reorder_wfD(3) [OF D1], of "sq pkt" "head_seq_num r1"] by simp
    have res1: "res = (if reorder_slot r1 ?k \<noteq> None then
            \<lparr>rr_taken = True, rr_ring = r1, rr_frames = f1, rr_recycled = [pkt], rr_timer = Timer_keep\<rparr>
          else if sq pkt = head_seq_num r1 \<and> stored_mpdu_num r1 = 0 then
            \<lparr>rr_taken = False, rr_ring = r1\<lparr>head_seq_num := seq_inc (head_seq_num r1)\<rparr>,
             rr_frames = f1, rr_recycled = [], rr_timer = Timer_keep\<rparr>
          else
            let r = r1\<lparr>reorder_buf := (reorder_buf r1)[?k := Some pkt],
                     reorder_time := (reorder_time r1)[?k := t1],
                     stored_mpdu_num := stored_mpdu_num r1 + 1\<rparr>;
                (r, frames, recycled, timer) = phl_reorder_release t2 r f1
            in \<lparr>rr_taken = True, rr_ring = r, rr_frames = frames, rr_recycled = recycled,
                rr_timer = timer\<rparr>)"
      using res notold jump unfolding phl_manage_sta_reorder_buf_def noop Let_def by auto
    consider "reorder_slot r1 ?k \<noteq> None"
      | "reorder_slot r1 ?k = None" "sq pkt = head_seq_num r1 \<and> stored_mpdu_num r1 = 0"
      | "reorder_slot r1 ?k = None" "\<not> (sq pkt = head_seq_num r1 \<and> stored_mpdu_num r1 = 0)"
      by blast
    then show thesis
    proof cases
      case 1
      with res1 slid1 d slot show thesis by (intro dup [of r1]) auto
    next
      case 2
      with slid1 have "d \<le> j" by simp
      with D have d0: "d = 0" "j = 0" by (auto simp: j_def split: if_splits)
      with slid1 2 jump jc D have r1: "r1 = r" "f1 = frames" by (auto split: if_splits)
      obtain r2 f2 where rel: "phl_release_reorder_frame r (reorder_index r (head_seq_num r)) frames
          = (r2, f2)" by fastforce
      have "reorder_slot r (reorder_index r (head_seq_num r)) = None" using 2 r1 by simp
      with rel have "r2 = r\<lparr>head_seq_num := seq_inc (head_seq_num r)\<rparr>"
        by (simp add: phl_release_reorder_frame_def)
      with release_head [OF wf rel] 2 res1 r1 d0 show thesis by (intro direct) auto
    next
      case 3
      define r2 where "r2 = r1\<lparr>reorder_buf := (reorder_buf r1)[?k := Some pkt],
         reorder_time := (reorder_time r1)[?k := t1], stored_mpdu_num := stored_mpdu_num r1 + 1\<rparr>"
      have store: "reorder_wf sq r2 \<and> window r2 = (window r1)[d - j := Some pkt]"
        using slid1 n1 3(1) slot by (intro store_wf [OF D1 _ _ s _ r2_def]) auto
      obtain r3 f3 rc tm where rel: "phl_reorder_release t2 r2 f1 = (r3, f3, rc, tm)"
        by (metis prod_cases4)
      from phl_reorder_release_slid [OF conjunct1 [OF store] rel] obtain m where
        m: "m \<le> unat (buf_size r2)" "slid sq r2 m r3" "f3 = f1 @ somes (take m (window r2))"
          "rc = []" "window r3 ! 0 = None" by blast
      have res3: "res = \<lparr>rr_taken = True, rr_ring = r3, rr_frames = f3, rr_recycled = rc, rr_timer = tm\<rparr>"
        using res1 3 rel by (auto simp: r2_def [symmetric])
      have r2: "buf_size r2 = buf_size r1" "head_seq_num r2 = head_seq_num r1" "started r2"
        using s1 by (simp_all add: r2_def)
      show thesis
        by (rule stored [of r1 r2 m]) (use d slid1 slot 3 store m res3 r2 n1 in simp_all)
    qed
  qed
qed

section \<open>Order and conservation\<close>

text \<open>
  \<open>in_order sq h ps b\<close>: the frames \<open>ps\<close> carry strictly increasing positions below
  \<open>b\<close>, counted from sequence number \<open>h\<close> on without wrapping.
\<close>

definition in_order :: "('p \<Rightarrow> u16) \<Rightarrow> nat \<Rightarrow> 'p list \<Rightarrow> nat \<Rightarrow> bool" where
  "in_order sq h ps b \<longleftrightarrow>
     (\<exists>ks. sorted_wrt (<) ks \<and> (\<forall>k \<in> set ks. k < b) \<and>
           map (\<lambda>p. unat (sq p)) ps = map (\<lambda>k. (h + k) mod 4096) ks)"

lemma in_order_Nil [simp]: "in_order sq h [] b"
  by (auto simp: in_order_def intro: exI [of _ "[]"])

lemma in_order_append:
  assumes "in_order sq h ps b" and "in_order sq h' qs c" and "h' mod 4096 = (h + b) mod 4096"
  shows "in_order sq h (ps @ qs) (b + c)"
proof -
  from assms(1,2) obtain ks ls where
    ks: "sorted_wrt (<) ks" "\<forall>k \<in> set ks. k < b"
      "map (\<lambda>p. unat (sq p)) ps = map (\<lambda>k. (h + k) mod 4096) ks" and
    ls: "sorted_wrt (<) ls" "\<forall>k \<in> set ls. k < c"
      "map (\<lambda>p. unat (sq p)) qs = map (\<lambda>k. (h' + k) mod 4096) ls"
    unfolding in_order_def by blast
  have "(h' + k) mod 4096 = (h + (b + k)) mod 4096" for k
    using assms(3) by (metis add.assoc mod_add_left_eq)
  then have "map (\<lambda>p. unat (sq p)) (ps @ qs) = map (\<lambda>k. (h + k) mod 4096) (ks @ map ((+) b) ls)"
    using ks ls by simp
  moreover have "sorted_wrt (<) (ks @ map ((+) b) ls)"
    using ks ls by (auto simp: sorted_wrt_append sorted_wrt_map)
  moreover have "\<forall>k \<in> set (ks @ map ((+) b) ls). k < b + c" using ks ls by auto
  ultimately show ?thesis unfolding in_order_def by blast
qed

lemma somes_take_conv:
  "somes (take m w) = map (\<lambda>k. the (w ! k)) (filter (\<lambda>k. w ! k \<noteq> None) [0..<min m (length w)])"
proof (induction m)
  case (Suc m)
  show ?case
  proof (cases "m < length w")
    case True
    with Suc show ?thesis
      by (auto simp: take_Suc_conv_app_nth min_def le_Suc_eq not_le split: option.splits)
  next
    case False
    with Suc show ?thesis by (simp add: min_def)
  qed
qed simp

lemma seq_dist_position:
  assumes "seq_dist h s = k" and "unat s < 4096"
  shows "unat s = (unat h + k) mod 4096"
proof -
  have "seq_dist h ((h + of_nat k) AND 0xfff) = k"
    using assms(1) seq_dist_less [of h s] by (intro seq_dist_add) simp
  with assms have "s = (h + of_nat k) AND 0xfff"
    by (intro seq_dist_inj [of h]) (simp_all add: unat_seq_add)
  then show ?thesis by (simp only: unat_seq_add)
qed

lemma window_in_order:
  assumes "reorder_wf sq r"
  shows "in_order sq (unat (head_seq_num r)) (somes (take m (window r))) m"
proof -
  let ?w = "window r"
  let ?ks = "filter (\<lambda>k. ?w ! k \<noteq> None) [0..<min m (length ?w)]"
  have "sorted_wrt (<) ?ks" by (intro sorted_wrt_filter sorted_wrt_upt)
  moreover have "\<forall>k \<in> set ?ks. k < m" by simp
  moreover have "map (\<lambda>p. unat (sq p)) (somes (take m ?w))
      = map (\<lambda>k. (unat (head_seq_num r) + k) mod 4096) ?ks"
  proof -
    have "unat (sq (the (?w ! k))) = (unat (head_seq_num r) + k) mod 4096" if "k \<in> set ?ks" for k
    proof -
      from that obtain p where "?w ! k = Some p" "k < unat (buf_size r)" by auto
      with assms show ?thesis
        using seq_dist_position [of "head_seq_num r" "sq p" k] by (simp add: reorder_wf_def)
    qed
    then show ?thesis unfolding somes_take_conv map_map o_def by (rule map_cong [OF refl])
  qed
  ultimately show ?thesis unfolding in_order_def by blast
qed

lemma slid_head:
  assumes "slid sq r m r'" 
  shows "unat (head_seq_num r') = (unat (head_seq_num r) + m) mod 4096"
  using assms seq_dist_position [of "head_seq_num r" "head_seq_num r'" m]
  by (simp add: slid_def reorder_wf_def)

lemma in_order_mono: "in_order sq h ps b \<Longrightarrow> b \<le> c \<Longrightarrow> in_order sq h ps c"
  unfolding in_order_def by (meson order_less_le_trans)

lemma somes_slid: "slid sq r m r' \<Longrightarrow> somes (take m (window r)) @ somes (window r') = somes (window r)"
proof -
  assume "slid sq r m r'"
  then have "somes (window r') = somes (drop m (window r))" by (simp add: slid_def shiftw_conv_drop)
  then show ?thesis by (metis append_take_drop_id somes_append)
qed

lemma mset_slid:
  "slid sq r m r' \<Longrightarrow>
   mset (somes (window r)) = mset (somes (take m (window r))) + mset (somes (window r'))"
  by (metis mset_append somes_slid)

lemma mset_somes_update:
  "d < length w \<Longrightarrow> w ! d = None \<Longrightarrow> mset (somes (w[d := Some p])) = add_mset p (mset (somes w))"
proof (induction w arbitrary: d)
  case (Cons x w)
  then show ?case by (cases d) (auto split: option.splits)
qed simp

text \<open>
  One arrival: the invariant is kept; what goes up continues the order from the old head and
  stays below the new head; and no frame is lost or duplicated.
\<close>

lemma manage_step:
  assumes wf: "reorder_wf sq r" and st: "started r" and s: "unat (sq pkt) < 4096"
    and res: "phl_manage_sta_reorder_buf t1 t2 (sq pkt) pkt r [] = res"
  defines "up \<equiv> rr_frames res @ (if rr_taken res then [] else [pkt])"
  shows "(reorder_wf sq (rr_ring res) \<and> started (rr_ring res)) \<and>
     (\<exists>b. in_order sq (unat (head_seq_num r)) up b \<and>
          unat (head_seq_num (rr_ring res)) = (unat (head_seq_num r) + b) mod 4096) \<and>
     mset (somes (window r)) + {#pkt#} =
       mset (somes (window (rr_ring res))) + mset up + mset (rr_recycled res)"
    (is "?inv \<and> ?order \<and> ?conserve")
proof -
  let ?d = "seq_dist (head_seq_num r) (sq pkt)"
  let ?j = "win_jump (unat (buf_size r)) ?d"
  let ?h = "unat (head_seq_num r)"
  note D = reorder_wfD [OF wf]
  show ?thesis
  proof (cases rule: manage_cases [OF wf st s res, case_names old dup direct stored])
    case old
    with wf st D(6) have "?inv" "?conserve" by (simp_all add: up_def)
    moreover have "?order" using old D(6) by (intro exI [of _ 0]) (simp add: up_def)
    ultimately show ?thesis by simp
  next
    case (dup r1)
    then have up: "up = somes (take ?j (window r))" and ring: "rr_ring res = r1"
      and rc: "rr_recycled res = [pkt]" by (auto simp: up_def)
    have "?inv" using dup(2) st by (simp add: ring slid_def)
    moreover have "?order"
      using window_in_order [OF wf] slid_head [OF dup(2)] unfolding up ring by blast
    moreover have "?conserve"
      unfolding up ring rc by (simp add: mset_slid [OF dup(2)] union_ac split del: if_split)
    ultimately show ?thesis by blast
  next
    case direct
    then have up: "up = [pkt]" and rc: "rr_recycled res = []" by (simp_all add: up_def)
    have "unat (sq pkt) = (?h + 0) mod 4096" using seq_dist_position [OF direct(1) s] .
    then have "in_order sq ?h [pkt] 1" unfolding in_order_def by (intro exI [of _ "[0]"]) simp
    then have "?order" using slid_head [OF direct(5)] unfolding up by blast
    moreover have "?inv" using direct(5) st by (simp add: slid_def)
    moreover have "?conserve"
      using window_take_somes_empty(1) [OF wf direct(3), of 1]
      unfolding up rc by (simp add: mset_slid [OF direct(5)])
    ultimately show ?thesis by blast
  next
    case (stored r1 r2 m)
    then have up: "up = somes (take ?j (window r)) @ somes (take m (window r2))"
      and rc: "rr_recycled res = []" by (simp_all add: up_def)
    have h2: "unat (head_seq_num r2) = (?h + ?j) mod 4096" using slid_head [OF stored(2)] stored(7) by simp
    have "in_order sq ?h up (?j + m)"
      unfolding up using window_in_order [OF wf] window_in_order [OF stored(5)]
      by (rule in_order_append) (simp add: h2)
    moreover have "unat (head_seq_num (rr_ring res)) = (?h + (?j + m)) mod 4096"
      using slid_head [OF stored(10)] h2 by (simp add: mod_simps add.assoc)
    ultimately have "?order" by blast
    moreover have "?inv" using stored(8,10) by (simp add: slid_def)
    moreover have "?conserve"
    proof -
      have len: "?d - ?j < length (window r1)" using stored(2,3) by (simp add: slid_def)
      have "mset (somes (window r2)) = add_mset pkt (mset (somes (window r1)))"
        unfolding stored(6) by (rule mset_somes_update [OF len stored(4)])
      then show ?thesis
        unfolding up rc mset_slid [OF stored(2)] using mset_slid [OF stored(10)]
        by (simp add: union_ac split del: if_split)
    qed
    ultimately show ?thesis by blast
  qed
qed

section \<open>Whole sessions\<close>

text \<open>
  A session from state \<open>r0\<close>: frames arrive, the reorder timer fires, block ack requests
  come in, in any order. \<open>offered\<close> are the frames that arrived, \<open>up\<close> what went up to
  the core, \<open>dropped\<close> what was given back to the bus. A block ack request exactly half the
  sequence space ahead is excluded: see \<open>half_window_jump_keeps_frames\<close> below.
\<close>

inductive reorder_session ::
  "('p \<Rightarrow> u16) \<Rightarrow> 'p phl_tid_ampdu_rx \<Rightarrow> 'p list \<Rightarrow> 'p list \<Rightarrow> 'p list \<Rightarrow> 'p phl_tid_ampdu_rx \<Rightarrow> bool"
  for sq r0 where
  start: "reorder_session sq r0 [] [] [] r0"
| arrival: "reorder_session sq r0 offered up dropped r \<Longrightarrow> unat (sq pkt) < 4096 \<Longrightarrow>
    phl_manage_sta_reorder_buf t1 t2 (sq pkt) pkt r [] = res \<Longrightarrow>
    reorder_session sq r0 (offered @ [pkt])
      (up @ rr_frames res @ (if rr_taken res then [] else [pkt]))
      (dropped @ rr_recycled res) (rr_ring res)"
| timer: "reorder_session sq r0 offered up dropped r \<Longrightarrow>
    phl_reorder_release now r [] = (r', frames, recycled, t) \<Longrightarrow>
    reorder_session sq r0 offered (up @ frames) (dropped @ recycled) r'"
| bar: "reorder_session sq r0 offered up dropped r \<Longrightarrow> unat s < 4096 \<Longrightarrow>
    seq_dist (head_seq_num r) s \<noteq> 2048 \<Longrightarrow> rx_bar_session r s = (r', frames) \<Longrightarrow>
    reorder_session sq r0 offered (up @ frames) dropped r'"

lemma rx_bar_session_slid:
  assumes "reorder_wf sq r" and "unat s < 4096" and "seq_dist (head_seq_num r) s \<noteq> 2048"
    and "rx_bar_session r s = (r', frames)"
  shows "\<exists>m. slid sq r m r' \<and> frames = somes (take m (window r)) \<and>
           m = (if seq_less s (head_seq_num r) then 0 else seq_dist (head_seq_num r) s)"
proof (cases "seq_less s (head_seq_num r)")
  case True
  with assms show ?thesis by (auto simp: rx_bar_session_def)
next
  case False
  with assms(3) have "seq_dist (head_seq_num r) s < 2048" by (simp add: seq_less_iff)
  from phl_release_reorder_frames_slid [OF assms(1) _ refl this assms(2)] False assms(4)
  show ?thesis by (auto simp: rx_bar_session_def)
qed

lemma slid_step:
  assumes "reorder_wf sq r" and "slid sq r m r'"
  shows "in_order sq (unat (head_seq_num r)) (somes (take m (window r))) m \<and>
         unat (head_seq_num r') = (unat (head_seq_num r) + m) mod 4096 \<and>
         reorder_wf sq r' \<and> started r' = started r \<and>
         mset (somes (window r)) = mset (somes (take m (window r))) + mset (somes (window r'))"
  using window_in_order [OF assms(1)] slid_head [OF assms(2)] mset_slid [OF assms(2)] assms(2)
  by (simp add: slid_def)

lemma in_order_extend:
  assumes "in_order sq h up b" and "unat hd1 = (h + b) mod 4096"
    and "in_order sq (unat hd1) fs c" and "unat hd2 = (unat hd1 + c) mod 4096"
  shows "\<exists>b'. in_order sq h (up @ fs) b' \<and> unat hd2 = (h + b') mod 4096"
proof -
  have "in_order sq h (up @ fs) (b + c)"
    using assms(1,3) by (rule in_order_append) (simp add: assms(2))
  moreover have "unat hd2 = (h + (b + c)) mod 4096" using assms(2,4) by (simp add: mod_simps add.assoc)
  ultimately show ?thesis by blast
qed

lemma reorder_session_inv:
  assumes "reorder_session sq r0 offered up dropped r" and "reorder_wf sq r0" and "started r0"
  shows "(reorder_wf sq r \<and> started r) \<and>
     (\<exists>b. in_order sq (unat (head_seq_num r0)) up b \<and>
          unat (head_seq_num r) = (unat (head_seq_num r0) + b) mod 4096) \<and>
     mset (somes (window r0)) + mset offered = mset (somes (window r)) + mset up + mset dropped"
  using assms
proof (induction rule: reorder_session.induct)
  case start
  have "unat (head_seq_num r0) = (unat (head_seq_num r0) + 0) mod 4096"
    using reorder_wfD(6) [OF start(1)] by simp
  with start show ?case by (auto intro!: exI [of _ 0])
next
  case (arrival offered up dropped r pkt t1 t2 res)
  then have wf: "reorder_wf sq r" "started r" by auto
  from arrival obtain b where b: "in_order sq (unat (head_seq_num r0)) up b"
    "unat (head_seq_num r) = (unat (head_seq_num r0) + b) mod 4096" by auto
  note step = manage_step [OF wf arrival(2,3)]
  from step obtain c where
    "in_order sq (unat (head_seq_num r)) (rr_frames res @ (if rr_taken res then [] else [pkt])) c"
    "unat (head_seq_num (rr_ring res)) = (unat (head_seq_num r) + c) mod 4096" by blast
  from in_order_extend [OF b this] have
    "\<exists>b. in_order sq (unat (head_seq_num r0)) (up @ rr_frames res @ (if rr_taken res then [] else [pkt])) b \<and>
       unat (head_seq_num (rr_ring res)) = (unat (head_seq_num r0) + b) mod 4096" .
  moreover have "mset (somes (window r0)) + mset (offered @ [pkt]) =
      mset (somes (window (rr_ring res))) + mset (up @ rr_frames res @ (if rr_taken res then [] else [pkt]))
        + mset (dropped @ rr_recycled res)"
  proof -
    have "mset (somes (window r0)) + mset offered = mset (somes (window r)) + mset up + mset dropped"
      using arrival by blast
    moreover have "mset (somes (window r)) + {#pkt#} = mset (somes (window (rr_ring res))) +
        mset (rr_frames res @ (if rr_taken res then [] else [pkt])) + mset (rr_recycled res)"
      using step by blast
    ultimately show ?thesis
      by (simp add: union_ac split del: if_split)
  qed
  ultimately show ?case using step by blast
next
  case (timer offered up dropped r now r' frames recycled t)
  then have wf: "reorder_wf sq r" "started r" by auto
  from timer obtain b where b: "in_order sq (unat (head_seq_num r0)) up b"
    "unat (head_seq_num r) = (unat (head_seq_num r0) + b) mod 4096" by auto
  from phl_reorder_release_slid [OF wf(1) timer(2)] obtain m where
    m: "slid sq r m r'" "frames = somes (take m (window r))" "recycled = []" by auto
  note S = slid_step [OF wf(1) m(1), folded m(2)]
  with in_order_extend [OF b, of frames m "head_seq_num r'"] timer m(3) wf(2) show ?case
    by (simp add: union_ac)
next
  case (bar offered up dropped r s r' frames)
  then have wf: "reorder_wf sq r" "started r" by auto
  from bar obtain b where b: "in_order sq (unat (head_seq_num r0)) up b"
    "unat (head_seq_num r) = (unat (head_seq_num r0) + b) mod 4096" by auto
  from rx_bar_session_slid [OF wf(1) bar(2,3,4)] obtain m where
    m: "slid sq r m r'" "frames = somes (take m (window r))" by auto
  note S = slid_step [OF wf(1) m(1), folded m(2)]
  with in_order_extend [OF b, of frames m "head_seq_num r'"] bar wf(2) show ?case
    by (simp add: union_ac)
qed

section \<open>Properties\<close>

text \<open>A sequence of arrivals, executed: what went up, what was given back, the final session.\<close>

fun reorder_arrivals ::
  "('p \<Rightarrow> u16) \<Rightarrow> 'p phl_tid_ampdu_rx \<Rightarrow> (u32 \<times> 'p) list \<Rightarrow> 'p list \<times> 'p list \<times> 'p phl_tid_ampdu_rx" where
  "reorder_arrivals sq r [] = ([], [], r)"
| "reorder_arrivals sq r ((t, pkt) # as) =
     (let res = phl_manage_sta_reorder_buf t t (sq pkt) pkt r [];
          (up, dropped, r') = reorder_arrivals sq (rr_ring res) as
      in (rr_frames res @ (if rr_taken res then [] else [pkt]) @ up, rr_recycled res @ dropped, r'))"

lemma reorder_arrivals_session:
  "reorder_session sq r0 offered up dropped r \<Longrightarrow> \<forall>(t, p) \<in> set as. unat (sq p) < 4096 \<Longrightarrow>
   reorder_arrivals sq r as = (up', dropped', r') \<Longrightarrow>
   reorder_session sq r0 (offered @ map snd as) (up @ up') (dropped @ dropped') r'"
proof (induction as arbitrary: offered up dropped r up' dropped')
  case (Cons a as)
  obtain t pkt where a: "a = (t, pkt)" by (cases a)
  let ?res = "phl_manage_sta_reorder_buf t t (sq pkt) pkt r []"
  let ?u = "rr_frames ?res @ (if rr_taken ?res then [] else [pkt])"
  obtain u d r1 where run: "reorder_arrivals sq (rr_ring ?res) as = (u, d, r1)"
    by (metis prod_cases3)
  with Cons.prems(3) a have e: "up' = ?u @ u" "dropped' = rr_recycled ?res @ d" "r1 = r'"
    by (auto simp: Let_def)
  have "reorder_session sq r0 (offered @ [pkt]) (up @ ?u) (dropped @ rr_recycled ?res) (rr_ring ?res)"
    using Cons.prems(1,2) a by (intro reorder_session.arrival [OF _ _ refl]) auto
  from Cons.IH [OF this _ run [unfolded e(3)]] Cons.prems(2) show ?case unfolding e(1,2) a
    by (simp split del: if_split)
qed simp

text \<open>A small session: four slots, the window about to cross the wrap of the sequence numbers.\<close>

definition demo_ring :: "u16 phl_tid_ampdu_rx" where
  "demo_ring = \<lparr>reorder_buf = replicate 4 None, reorder_time = replicate 4 0, head_seq_num = 4094,
     stored_mpdu_num = 0, ssn = 4094, buf_size = 4, ba_tid = 0, started = True, removed = False\<rparr>"

lemma demo_ring_wf: "reorder_wf (\<lambda>p. p) demo_ring" "started demo_ring"
proof -
  have w: "window demo_ring = replicate 4 None" by code_simp
  have "(4::nat) dvd 4096" by simp
  with w show "reorder_wf (\<lambda>p. p) demo_ring" "started demo_ring"
    unfolding reorder_wf_def by (simp_all add: demo_ring_def)
qed



text \<open>
  \<^verbatim>\<open>phl_reorder_release\<close> hands up the frames of a prefix of the window in order, never
  gives a stored frame back to the bus, always stops at a missing frame, and leaves the reorder
  timer armed exactly when frames are still waiting (unless the session is being removed).
\<close>

theorem reorder_release_stops_at_gap:
  assumes "reorder_wf sq r" and "phl_reorder_release now r frames = (r', frames', recycled, timer)"
  shows "\<exists>m \<le> unat (buf_size r). window r' = shiftw m (window r) \<and>
           seq_dist (head_seq_num r) (head_seq_num r') = m \<and>
           frames' = frames @ somes (take m (window r)) \<and> recycled = [] \<and> window r' ! 0 = None \<and>
           timer = (if stored_mpdu_num r' = 0 then Timer_cancel
                    else if removed r' then Timer_keep else Timer_set)"
  using phl_reorder_release_slid [OF assms] by (auto simp: slid_def)

text \<open>The demo session with the frame at the second position waiting since time 5.\<close>

definition demo_waiting :: "u16 phl_tid_ampdu_rx" where
  "demo_waiting = rr_ring (phl_manage_sta_reorder_buf 5 5 4095 4095 demo_ring [])"

lemma demo_waiting_wf: "reorder_wf (\<lambda>p. p) demo_waiting" "started demo_waiting"
  using manage_step [OF demo_ring_wf, of 4095 5 5, OF _ refl] by (simp_all add: demo_waiting_def)

theorem reorder_release_stops_at_gap_witness:
  "fst (snd (phl_reorder_release 105 demo_waiting [])) = [4095] \<and>
   window (fst (phl_reorder_release 105 demo_waiting [])) ! 0 = None"
proof -
  obtain r' frames' recycled timer where
    rel: "phl_reorder_release 105 demo_waiting [] = (r', frames', recycled, timer)"
    by (metis prod_cases4)
  have "fst (snd (phl_reorder_release 105 demo_waiting [])) = [4095]" by code_simp
  with reorder_release_stops_at_gap [OF demo_waiting_wf(1) rel] rel show ?thesis by auto
qed

text \<open>
  a block ack request for a sequence number ahead of the window moves the head exactly there
  and hands up, in order, every frame stored before it; one behind the window changes nothing.
\<close>

theorem bar_moves_window:
  assumes "reorder_wf sq r" and "unat s < 4096" and "seq_dist (head_seq_num r) s \<noteq> 2048"
    and "rx_bar_session r s = (r', frames)"
  shows "if 2048 < seq_dist (head_seq_num r) s then r' = r \<and> frames = []
         else reorder_wf sq r' \<and> head_seq_num r' = s \<and>
              frames = somes (take (seq_dist (head_seq_num r) s) (window r)) \<and>
              somes (window r) = frames @ somes (window r')"
proof (cases "seq_less s (head_seq_num r)")
  case True
  with assms(4) show ?thesis by (simp add: rx_bar_session_def seq_less_iff)
next
  case False
  with assms(3) have d: "seq_dist (head_seq_num r) s < 2048" by (simp add: seq_less_iff)
  from False assms(4) have "phl_release_reorder_frames r s [] = (r', frames)"
    by (simp add: rx_bar_session_def)
  from phl_release_reorder_frames_slid [OF assms(1) this refl d assms(2)] d show ?thesis
    by (auto dest: slid_wf somes_slid)
qed

theorem bar_moves_window_witness:
  "head_seq_num (fst (rx_bar_session demo_waiting 1)) = 1 \<and>
   snd (rx_bar_session demo_waiting 1) = [4095]"
proof -
  have d: "seq_dist (head_seq_num demo_waiting) 1 = 3" by code_simp
  have f: "snd (rx_bar_session demo_waiting 1) = [4095]" by code_simp
  have "if 2048 < seq_dist (head_seq_num demo_waiting) 1
     then fst (rx_bar_session demo_waiting 1) = demo_waiting \<and> snd (rx_bar_session demo_waiting 1) = []
     else reorder_wf (\<lambda>p. p) (fst (rx_bar_session demo_waiting 1)) \<and>
       head_seq_num (fst (rx_bar_session demo_waiting 1)) = 1 \<and>
       snd (rx_bar_session demo_waiting 1) =
         somes (take (seq_dist (head_seq_num demo_waiting) 1) (window demo_waiting)) \<and>
       somes (window demo_waiting) =
         snd (rx_bar_session demo_waiting 1) @ somes (window (fst (rx_bar_session demo_waiting 1)))"
    by (rule bar_moves_window [OF demo_waiting_wf(1)]) (simp_all add: d)
  with d f show ?thesis by simp
qed

text \<open>
  when the window is asked to jump by exactly half of the sequence space, the release loop does
  not run at all: the head moves, the stored frames stay, and a stored frame is then found at a
  position where its sequence number does not belong.
\<close>

theorem half_window_jump_keeps_frames:
  "let (r', frames) = phl_release_reorder_frames demo_waiting 2046 []
   in seq_dist (head_seq_num demo_waiting) 2046 = 2048 \<and> frames = [] \<and> head_seq_num r' = 2046 \<and>
      somes (window r') = [4095] \<and> \<not> reorder_wf (\<lambda>p. p) r'"
proof -
  let ?r = "fst (phl_release_reorder_frames demo_waiting 2046 [])"
  have d: "seq_dist (head_seq_num demo_waiting) 2046 = 2048" by code_simp
  have f: "snd (phl_release_reorder_frames demo_waiting 2046 []) = []" by code_simp
  have w: "window ?r = [None, Some 4095, None, None]" by code_simp
  have h: "head_seq_num ?r = 2046" by code_simp
  have n: "unat (buf_size ?r) = 4" by code_simp
  have e: "seq_dist (2046::u16) 4095 = 2049" by code_simp
  have "\<not> reorder_wf (\<lambda>p. p) ?r"
  proof
    assume "reorder_wf (\<lambda>p. p) ?r"
    then have "\<forall>k < unat (buf_size ?r). \<forall>p. window ?r ! k = Some p \<longrightarrow>
        seq_dist (head_seq_num ?r) p = k" unfolding reorder_wf_def by blast
    from this [rule_format, of 1 4095] show False using n by (simp add: w h e)
  qed
  with d f w h show ?thesis by (simp add: case_prod_beta)
qed

text \<open>A session with three slots.\<close>

definition demo_ring3 :: "u16 phl_tid_ampdu_rx" where
  "demo_ring3 = \<lparr>reorder_buf = [None, None, None], reorder_time = [0, 0, 0], head_seq_num = 4094,
     stored_mpdu_num = 0, ssn = 0, buf_size = 3, ba_tid = 0, started = True, removed = False\<rparr>"

text \<open>
  with a window size that does not divide 4096 two different sequence numbers of one window
  share a slot once the numbers wrap, so that a new frame is dropped as a duplicate.
\<close>

theorem odd_window_drops_new_frame:
  "fst (snd (reorder_arrivals (\<lambda>p. p) demo_ring3 [(5, 4095), (6, 0 :: u16)])) = [0]"
  by code_simp

end
