(* ===== verification/Phl_Stats.thy ===== *)
theory Phl_Stats
  imports Phl_Prelude
begin

text \<open>
  Traffic statistics (\<^verbatim>\<open>struct rtw_stats\<close>, \<^verbatim>\<open>phl/phl_def.h\<close>) as
  \<^verbatim>\<open>phl/phl_rx.c\<close> and \<^verbatim>\<open>phl/phl_tx.c\<close> maintain them, per device and per station:
  byte counters, the throughput estimate over windows of a second, and the traffic level with its
  change flags. Byte counters are 64 bits and times 32 bits wide and wrap.
\<close>

section \<open>Data\<close>

datatype rtw_tfc_lvl =
    RTW_TFC_IDLE
  | RTW_TFC_ULTRA_LOW
  | RTW_TFC_LOW
  | RTW_TFC_MID
  | RTW_TFC_HIGH
  | RTW_TFC_LVL_MAX

text \<open>The enumerators' values order the levels.\<close>

fun tfc_val :: "rtw_tfc_lvl \<Rightarrow> nat" where
  "tfc_val RTW_TFC_IDLE = 0"
| "tfc_val RTW_TFC_ULTRA_LOW = 1"
| "tfc_val RTW_TFC_LOW = 2"
| "tfc_val RTW_TFC_MID = 3"
| "tfc_val RTW_TFC_HIGH = 4"
| "tfc_val RTW_TFC_LVL_MAX = 0xFF"

lemma tfc_val_inj: "tfc_val x = tfc_val y \<longleftrightarrow> x = y"
  by (cases x; cases y) simp_all

instantiation rtw_tfc_lvl :: linorder
begin

definition less_eq_rtw_tfc_lvl :: "rtw_tfc_lvl \<Rightarrow> rtw_tfc_lvl \<Rightarrow> bool" where
  "less_eq_rtw_tfc_lvl x y \<longleftrightarrow> tfc_val x \<le> tfc_val y"

definition less_rtw_tfc_lvl :: "rtw_tfc_lvl \<Rightarrow> rtw_tfc_lvl \<Rightarrow> bool" where
  "less_rtw_tfc_lvl x y \<longleftrightarrow> tfc_val x < tfc_val y"

instance
  by intro_classes
    (auto simp: less_eq_rtw_tfc_lvl_def less_rtw_tfc_lvl_def tfc_val_inj [symmetric])

end

abbreviation TRAFFIC_CHANGED :: u8 where "TRAFFIC_CHANGED \<equiv> 1"
abbreviation TRAFFIC_INCREASE :: u8 where "TRAFFIC_INCREASE \<equiv> 2"
abbreviation TRAFFIC_DECREASE :: u8 where "TRAFFIC_DECREASE \<equiv> 4"

record rtw_traffic_t =
  trf_lvl :: rtw_tfc_lvl
  trf_sts :: u8

record rtw_stats_tp =
  last_calc_bits :: u64
  last_calc_time_ms :: u32

record rtw_stats =
  tx_byte_uni :: u64
  rx_byte_uni :: u64
  tx_byte_total :: u64
  rx_byte_total :: u64
  tx_tp_kbits :: u32
  rx_tp_kbits :: u32
  last_tx_time_ms :: u32
  last_rx_time_ms :: u32
  txreq_num :: u32
  rx_rate :: u32
  txtp :: rtw_stats_tp
  rxtp :: rtw_stats_tp
  tx_traffic :: rtw_traffic_t
  rx_traffic :: rtw_traffic_t

section \<open>Operations\<close>

definition phl_reset_rx_stats :: "rtw_stats \<Rightarrow> rtw_stats" where
  "phl_reset_rx_stats stats =
     stats\<lparr>rx_byte_uni := 0, rx_byte_total := 0, rx_tp_kbits := 0, last_rx_time_ms := 0,
           rxtp := (rxtp stats)\<lparr>last_calc_time_ms := 0\<rparr>,
           rx_traffic := \<lparr>trf_lvl = RTW_TFC_IDLE, trf_sts = 0\<rparr>\<rparr>"

definition phl_reset_tx_stats :: "rtw_stats \<Rightarrow> rtw_stats" where
  "phl_reset_tx_stats stats =
     stats\<lparr>tx_byte_uni := 0, tx_byte_total := 0, tx_tp_kbits := 0, last_tx_time_ms := 0,
           txtp := (txtp stats)\<lparr>last_calc_time_ms := 0\<rparr>,
           tx_traffic := \<lparr>trf_lvl = RTW_TFC_IDLE, trf_sts = 0\<rparr>\<rparr>"

text \<open>
  The level for a throughput. The RX and TX thresholds of \<^verbatim>\<open>phl_def.h\<close> are the same.
\<close>

definition tfc_lvl_of :: "u32 \<Rightarrow> rtw_tfc_lvl" where
  "tfc_lvl_of tp_kbits =
     (let tp_k = tp_kbits; tp_m = drop_bit 10 tp_kbits in
      if tp_m \<ge> 50 then RTW_TFC_HIGH
      else if tp_m \<ge> 10 then RTW_TFC_MID
      else if tp_m \<ge> 2 then RTW_TFC_LOW
      else if tp_k \<ge> 100 then RTW_TFC_ULTRA_LOW
      else RTW_TFC_IDLE)"

definition traffic_upd :: "rtw_tfc_lvl \<Rightarrow> rtw_traffic_t \<Rightarrow> rtw_traffic_t" where
  "traffic_upd tfc_lvl t =
     (if trf_lvl t > tfc_lvl then t\<lparr>trf_sts := TRAFFIC_CHANGED OR TRAFFIC_DECREASE, trf_lvl := tfc_lvl\<rparr>
      else if trf_lvl t < tfc_lvl then t\<lparr>trf_sts := TRAFFIC_CHANGED OR TRAFFIC_INCREASE, trf_lvl := tfc_lvl\<rparr>
      else if trf_sts t AND (TRAFFIC_CHANGED OR TRAFFIC_INCREASE OR TRAFFIC_DECREASE) \<noteq> 0 then
        t\<lparr>trf_sts := trf_sts t AND NOT (TRAFFIC_CHANGED OR TRAFFIC_INCREASE OR TRAFFIC_DECREASE)\<rparr>
      else t)"

definition phl_rx_traffic_upd :: "rtw_stats \<Rightarrow> rtw_stats" where
  "phl_rx_traffic_upd s = s\<lparr>rx_traffic := traffic_upd (tfc_lvl_of (rx_tp_kbits s)) (rx_traffic s)\<rparr>"

definition phl_tx_traffic_upd :: "rtw_stats \<Rightarrow> rtw_stats" where
  "phl_tx_traffic_upd s = s\<lparr>tx_traffic := traffic_upd (tfc_lvl_of (tx_tp_kbits s)) (tx_traffic s)\<rparr>"

abbreviation RTW_U32_MAX :: u32 where "RTW_U32_MAX \<equiv> 0xFFFFFFFF"
abbreviation RXTP_CALC_DIFF_MS :: u32 where "RXTP_CALC_DIFF_MS \<equiv> 1000"
abbreviation TXTP_CALC_DIFF_MS :: u32 where "TXTP_CALC_DIFF_MS \<equiv> 1000"

text \<open>
  A packet of \<open>pktlen\<close> bytes received at \<open>cur_time\<close>; \<open>bc\<close> and \<open>mc\<close> are the
  broadcast and multicast flags of its metadata.
\<close>

definition phl_update_rx_stats :: "u32 \<Rightarrow> u16 \<Rightarrow> bool \<Rightarrow> bool \<Rightarrow> rtw_stats \<Rightarrow> rtw_stats" where
  "phl_update_rx_stats cur_time pktlen bc mc stats =
     (let stats = stats\<lparr>last_rx_time_ms := cur_time, rx_byte_total := rx_byte_total stats + ucast pktlen\<rparr>;
          stats = (if \<not> bc \<and> \<not> mc then stats\<lparr>rx_byte_uni := rx_byte_uni stats + ucast pktlen\<rparr> else stats)
      in
      if 0 = last_calc_time_ms (rxtp stats) \<or> 0 = last_calc_bits (rxtp stats) then
        stats\<lparr>rxtp := \<lparr>last_calc_bits = rx_byte_uni stats * 8, last_calc_time_ms = last_rx_time_ms stats\<rparr>\<rparr>
      else
        let diff_t = (if cur_time \<ge> last_calc_time_ms (rxtp stats)
                      then cur_time - last_calc_time_ms (rxtp stats)
                      else RTW_U32_MAX - last_calc_time_ms (rxtp stats) + cur_time + 1)
        in
        if diff_t > RXTP_CALC_DIFF_MS \<and> rx_byte_uni stats \<noteq> 0 then
          let diff_bits = rx_byte_uni stats * 8 - last_calc_bits (rxtp stats)
          in stats\<lparr>rx_tp_kbits := ucast (diff_bits div ucast diff_t),
                   rxtp := \<lparr>last_calc_bits = rx_byte_uni stats * 8, last_calc_time_ms = cur_time\<rparr>\<rparr>
        else stats)"

definition phl_update_tx_stats :: "u32 \<Rightarrow> u32 \<Rightarrow> bool \<Rightarrow> bool \<Rightarrow> rtw_stats \<Rightarrow> rtw_stats" where
  "phl_update_tx_stats cur_time total_len bc mc stats =
     (let stats = stats\<lparr>last_tx_time_ms := cur_time, tx_byte_total := tx_byte_total stats + ucast total_len,
                        txreq_num := txreq_num stats + 1\<rparr>;
          stats = (if \<not> bc \<and> \<not> mc then stats\<lparr>tx_byte_uni := tx_byte_uni stats + ucast total_len\<rparr> else stats)
      in
      if 0 = last_calc_time_ms (txtp stats) \<or> 0 = last_calc_bits (txtp stats) then
        stats\<lparr>txtp := \<lparr>last_calc_bits = tx_byte_uni stats * 8, last_calc_time_ms = last_tx_time_ms stats\<rparr>\<rparr>
      else
        let diff_t = (if cur_time \<ge> last_calc_time_ms (txtp stats)
                      then cur_time - last_calc_time_ms (txtp stats)
                      else RTW_U32_MAX - last_calc_time_ms (txtp stats) + cur_time + 1)
        in
        if diff_t > TXTP_CALC_DIFF_MS \<and> tx_byte_uni stats \<noteq> 0 then
          let diff_bits = tx_byte_uni stats * 8 - last_calc_bits (txtp stats)
          in stats\<lparr>tx_tp_kbits := ucast (diff_bits div ucast diff_t),
                   txtp := \<lparr>last_calc_bits = tx_byte_uni stats * 8, last_calc_time_ms = cur_time\<rparr>\<rparr>
        else stats)"

section \<open>Lemmas\<close>

text \<open>Both branches of the elapsed time are the 32-bit difference: this one is exact across the wrap.\<close>

lemma diff_t_exact:
  "(if cur \<ge> t then cur - t else RTW_U32_MAX - t + cur + 1) = (cur - t :: u32)"
proof -
  have "RTW_U32_MAX - t + cur + 1 = (RTW_U32_MAX + 1) + (cur - t)" by (simp only: algebra_simps)
  also have "RTW_U32_MAX + 1 = (0 :: u32)" by simp
  finally show ?thesis by simp
qed

lemma tfc_lvl_of_nat:
  "tfc_lvl_of tp =
     (if 51200 \<le> unat tp then RTW_TFC_HIGH else if 10240 \<le> unat tp then RTW_TFC_MID
      else if 2048 \<le> unat tp then RTW_TFC_LOW else if 100 \<le> unat tp then RTW_TFC_ULTRA_LOW
      else RTW_TFC_IDLE)"
proof -
  have "unat (drop_bit 10 tp) = unat tp div 1024"
    by (simp add: drop_bit_eq_div unat_div)
  then show ?thesis by (simp add: tfc_lvl_of_def Let_def word_le_nat_alt) linarith
qed

lemma tfc_lvl_mono: "tp \<le> tp' \<Longrightarrow> tfc_lvl_of tp \<le> tfc_lvl_of tp'"
  by (auto simp: tfc_lvl_of_nat less_eq_rtw_tfc_lvl_def word_le_nat_alt)

lemma word_mask_split_0:
  fixes x m :: "'a::len word"
  assumes "x AND m = 0"
  shows "x AND NOT m = x"
proof (rule bit_word_eqI)
  fix n
  assume "n < LENGTH('a)"
  moreover have "\<not> bit (x AND m) n" using assms by simp
  ultimately show "bit (x AND NOT m) n = bit x n" by (auto simp: bit_simps)
qed

lemma traffic_upd_same:
  "traffic_upd (trf_lvl t) t = t\<lparr>trf_sts := trf_sts t AND NOT 7\<rparr>"
  using word_mask_split_0 [of "trf_sts t" 7] by (simp add: traffic_upd_def)

section \<open>Properties\<close>

text \<open>
  A traffic update sets the level that belongs to the throughput, and its flags say what
  happened: CHANGED exactly when the level moved, with exactly the direction of the move.
\<close>

theorem traffic_upd_flags:
  assumes "rx_traffic (phl_rx_traffic_upd s) = t"
  shows "trf_lvl t = tfc_lvl_of (rx_tp_kbits s) \<and>
     (bit (trf_sts t) 0 \<longleftrightarrow> trf_lvl t \<noteq> trf_lvl (rx_traffic s)) \<and>
     (bit (trf_sts t) 1 \<longleftrightarrow> trf_lvl (rx_traffic s) < trf_lvl t) \<and>
     (bit (trf_sts t) 2 \<longleftrightarrow> trf_lvl t < trf_lvl (rx_traffic s))"
proof -
  let ?t = "rx_traffic s" and ?l = "tfc_lvl_of (rx_tp_kbits s)"
  have m: "(7 :: u8) = mask 3" by (simp add: mask_eq_exp_minus_1)
  have b: "\<not> bit (trf_sts ?t AND NOT 7) n" if "n < 3" for n
    using that unfolding m by (simp only: bit_simps) simp
  have t: "t = traffic_upd ?l ?t" using assms by (simp add: phl_rx_traffic_upd_def)
  consider "?l < trf_lvl ?t" | "trf_lvl ?t < ?l" | "trf_lvl ?t = ?l" by (rule linorder_cases)
  then show ?thesis
  proof cases
    case 3
    then have "t = ?t\<lparr>trf_sts := trf_sts ?t AND NOT 7\<rparr>" using t traffic_upd_same [of ?t] by simp
    with 3 b [of 0] b [of 1] b [of 2] show ?thesis by simp
  qed (use t in \<open>auto simp: traffic_upd_def bit_numeral_rec\<close>)
qed

text \<open>An idle device, and one that has been receiving for some time.\<close>

definition stats_zero :: rtw_stats where
  "stats_zero = \<lparr>tx_byte_uni = 0, rx_byte_uni = 0, tx_byte_total = 0, rx_byte_total = 0,
     tx_tp_kbits = 0, rx_tp_kbits = 0, last_tx_time_ms = 0, last_rx_time_ms = 0, txreq_num = 0,
     rx_rate = 0, txtp = \<lparr>last_calc_bits = 0, last_calc_time_ms = 0\<rparr>,
     rxtp = \<lparr>last_calc_bits = 0, last_calc_time_ms = 0\<rparr>,
     tx_traffic = \<lparr>trf_lvl = RTW_TFC_IDLE, trf_sts = 0\<rparr>, rx_traffic = \<lparr>trf_lvl = RTW_TFC_IDLE, trf_sts = 0\<rparr>\<rparr>"

theorem traffic_upd_flags_witness:
  "trf_lvl (rx_traffic (phl_rx_traffic_upd (stats_zero\<lparr>rx_tp_kbits := 3000\<rparr>))) = RTW_TFC_LOW"
  using traffic_upd_flags [of "stats_zero\<lparr>rx_tp_kbits := 3000\<rparr>", OF refl]
  by (simp add: tfc_lvl_of_nat)

text \<open>
  the receive statistics count every byte, unicast bytes separately, and a new throughput value
  appears only when more than a second passed since the last one: it is the number of unicast bits
  since then divided by the elapsed milliseconds, also when the clock wrapped in between.
\<close>

theorem rx_throughput_update:
  fixes stats :: rtw_stats
  defines "uni \<equiv> (\<lambda>bc mc len. if bc \<or> mc then rx_byte_uni stats else rx_byte_uni stats + ucast (len :: u16))"
  assumes "last_calc_time_ms (rxtp stats) \<noteq> 0" and "last_calc_bits (rxtp stats) \<noteq> 0"
    and "phl_update_rx_stats cur len bc mc stats = stats'"
  shows "rx_byte_total stats' = rx_byte_total stats + ucast len \<and> rx_byte_uni stats' = uni bc mc len \<and>
     (if cur - last_calc_time_ms (rxtp stats) > 1000 \<and> uni bc mc len \<noteq> 0 then
        rx_tp_kbits stats' = ucast ((uni bc mc len * 8 - last_calc_bits (rxtp stats))
                                      div ucast (cur - last_calc_time_ms (rxtp stats))) \<and>
        last_calc_time_ms (rxtp stats') = cur \<and> last_calc_bits (rxtp stats') = uni bc mc len * 8
      else rx_tp_kbits stats' = rx_tp_kbits stats \<and> rxtp stats' = rxtp stats)"
  using assms(2-4) unfolding uni_def phl_update_rx_stats_def Let_def diff_t_exact
  by (auto split del: if_split split: if_splits)

theorem rx_throughput_update_witness:
  "rx_tp_kbits (phl_update_rx_stats 500 1000 False False
     (stats_zero\<lparr>rx_byte_uni := 2000, rxtp := \<lparr>last_calc_bits = 8000, last_calc_time_ms = 0xFFFFFC00\<rparr>\<rparr>)) = 10"
proof -
  let ?s = "stats_zero\<lparr>rx_byte_uni := 2000, rxtp := \<lparr>last_calc_bits = 8000, last_calc_time_ms = 0xFFFFFC00\<rparr>\<rparr>"
  have "last_calc_time_ms (rxtp ?s) \<noteq> 0" "last_calc_bits (rxtp ?s) \<noteq> 0" by simp_all
  from rx_throughput_update [OF this refl, of 500 1000 False False] show ?thesis by simp
qed

text \<open>
  \<^verbatim>\<open>phl_reset_rx_stats\<close> does not clear the bit count of the last throughput window,
  but the next packet starts a new window from the fresh byte counter and leaves the throughput at
  zero, so no stale count enters an estimate. The same holds for transmission.
\<close>

theorem reset_restarts_window:
  "rxtp (phl_update_rx_stats cur len bc mc (phl_reset_rx_stats s)) =
     \<lparr>last_calc_bits = (if bc \<or> mc then 0 else ucast len * 8), last_calc_time_ms = cur\<rparr> \<and>
   rx_tp_kbits (phl_update_rx_stats cur len bc mc (phl_reset_rx_stats s)) = 0 \<and>
   txtp (phl_update_tx_stats cur tlen bc mc (phl_reset_tx_stats s)) =
     \<lparr>last_calc_bits = (if bc \<or> mc then 0 else ucast tlen * 8), last_calc_time_ms = cur\<rparr> \<and>
   tx_tp_kbits (phl_update_tx_stats cur tlen bc mc (phl_reset_tx_stats s)) = 0"
  by (simp add: phl_update_rx_stats_def phl_reset_rx_stats_def phl_update_tx_stats_def
      phl_reset_tx_stats_def Let_def)

end
