(* ===== verification/Phl_Sta.thy ===== *)
theory Phl_Sta
  imports Phl_Macid Phl_Queue Phl_Tx Phl_Reorder Phl_Stats
begin

text \<open>
  Station management, the rest of \<^verbatim>\<open>phl/phl_sta.c\<close>: the pool of station objects, the queue
  of associated stations of each wifi role, allocation and release of a station (object, macid, TX
  rings, HAL entry), lookup, media status. Station objects are shared by the queues and the macid
  table, so they live in a store indexed by their identity.
\<close>

section \<open>Data\<close>

datatype role_type =
    PHL_RTYPE_NONE | PHL_RTYPE_STATION | PHL_RTYPE_AP | PHL_RTYPE_VAP | PHL_RTYPE_ADHOC
  | PHL_RTYPE_ADHOC_MASTER | PHL_RTYPE_MESH | PHL_RTYPE_MONITOR | PHL_RTYPE_P2P_DEVICE
  | PHL_RTYPE_P2P_GC | PHL_RTYPE_P2P_GO | PHL_RTYPE_TDLS | PHL_RTYPE_NAN

datatype mlme_state = MLME_NO_LINK | MLME_LINKING | MLME_LINKED

type_synonym sta_id = nat

record 'p rtw_phl_stainfo_t =
  wrole :: "nat option"
  active :: bool
  sta_macid :: u16
  mac_addr :: bytes
  sta_stats :: rtw_stats
  bcn_hit_cond :: u8
  hit_rule :: u8
  addr_sel :: u8
  addr_msk :: u8
  tid_rx :: "'p phl_tid_ampdu_rx option list"
  protect :: u8
  sec_mode :: u8
  ps_sta :: u32

record rtw_wifi_role_t =
  rtype :: role_type
  mstate :: mlme_state
  role_mac_addr :: bytes
  assoc_sta_queue :: "sta_id phl_queue"

text \<open>
  The part of \<^verbatim>\<open>struct phl_info_t\<close> and \<^verbatim>\<open>struct rtw_phl_com_t\<close> that the operations use:
  \<open>'p\<close> are received packets, \<open>'q\<close> transmit requests. \<open>hal_entries\<close> logs the stations
  for which \<^verbatim>\<open>rtw_hal_add_sta_entry\<close> was called.
\<close>

record ('p, 'q) phl_sta_ctl =
  stas :: "sta_id \<Rightarrow> 'p rtw_phl_stainfo_t"
  mac_ctl :: "sta_id g6_macid_ctl_t"
  free_sta_queue :: "sta_id phl_queue"
  wifi_roles :: "rtw_wifi_role_t list"
  role_map :: u8
  tx_path :: "'q phl_tx"
  hal_entries :: "sta_id list"

abbreviation upd_sta ::
  "sta_id \<Rightarrow> ('p rtw_phl_stainfo_t \<Rightarrow> 'p rtw_phl_stainfo_t) \<Rightarrow> ('p, 'q) phl_sta_ctl \<Rightarrow> ('p, 'q) phl_sta_ctl" where
  "upd_sta s f st \<equiv> st\<lparr>stas := (stas st)(s := f (stas st s))\<rparr>"

abbreviation upd_role ::
  "nat \<Rightarrow> (rtw_wifi_role_t \<Rightarrow> rtw_wifi_role_t) \<Rightarrow> ('p, 'q) phl_sta_ctl \<Rightarrow> ('p, 'q) phl_sta_ctl" where
  "upd_role r f st \<equiv> st\<lparr>wifi_roles := (wifi_roles st)[r := f (wifi_roles st ! r)]\<rparr>"

definition is_broadcast_mac_addr :: "bytes \<Rightarrow> bool" where
  "is_broadcast_mac_addr addr = list_all (\<lambda>b. b AND 0xff = 0xff) (take 6 addr)"

section \<open>Station queues\<close>

definition phl_stainfo_enqueue ::
  "sta_id phl_queue \<Rightarrow> sta_id option \<Rightarrow> rtw_phl_status \<times> sta_id phl_queue" where
  "phl_stainfo_enqueue q psta =
     (case psta of
        None \<Rightarrow> (RTW_PHL_STATUS_FAILURE, q)
      | Some s \<Rightarrow> (RTW_PHL_STATUS_SUCCESS, q\<lparr>pq_queue := pq_queue q @ [s], pq_cnt := pq_cnt q + 1\<rparr>))"

definition phl_stainfo_dequeue :: "sta_id phl_queue \<Rightarrow> sta_id option \<times> sta_id phl_queue" where
  "phl_stainfo_dequeue q =
     (case pq_queue q of
        [] \<Rightarrow> (None, q)
      | s # ss \<Rightarrow> (Some s, q\<lparr>pq_queue := ss, pq_cnt := pq_cnt q - 1\<rparr>))"

definition phl_stainfo_queue_del ::
  "sta_id phl_queue \<Rightarrow> sta_id option \<Rightarrow> rtw_phl_status \<times> sta_id phl_queue" where
  "phl_stainfo_queue_del q psta =
     (case psta of
        None \<Rightarrow> (RTW_PHL_STATUS_FAILURE, q)
      | Some s \<Rightarrow>
          (RTW_PHL_STATUS_SUCCESS,
           if pq_cnt q \<noteq> 0 then q\<lparr>pq_queue := remove1 s (pq_queue q), pq_cnt := pq_cnt q - 1\<rparr> else q))"

definition phl_stainfo_queue_search ::
  "(sta_id \<Rightarrow> 'p rtw_phl_stainfo_t) \<Rightarrow> sta_id phl_queue \<Rightarrow> bytes \<Rightarrow> sta_id option" where
  "phl_stainfo_queue_search sta_of q addr = List.find (\<lambda>s. mac_addr (sta_of s) = addr) (pq_queue q)"

definition phl_stainfo_queue_get_first :: "sta_id phl_queue \<Rightarrow> sta_id option" where
  "phl_stainfo_queue_get_first q = (case pq_queue q of [] \<Rightarrow> None | s # _ \<Rightarrow> Some s)"

section \<open>Lookup\<close>

definition rtw_phl_get_stainfo_by_addr :: "('p, 'q) phl_sta_ctl \<Rightarrow> nat \<Rightarrow> bytes \<Rightarrow> sta_id option" where
  "rtw_phl_get_stainfo_by_addr st r addr =
     (if is_broadcast_mac_addr addr then
        let macid = wrole_bmc (mac_ctl st) ! r
        in if macid \<ge> max_num (mac_ctl st) then None else mc_sta (mac_ctl st) ! unat macid
      else phl_stainfo_queue_search (stas st) (assoc_sta_queue (wifi_roles st ! r)) addr)"

definition rtw_phl_get_stainfo_self :: "('p, 'q) phl_sta_ctl \<Rightarrow> nat \<Rightarrow> sta_id option" where
  "rtw_phl_get_stainfo_self st r = phl_stainfo_queue_get_first (assoc_sta_queue (wifi_roles st ! r))"

text \<open>\<^verbatim>\<open>phl_get_wrole_by_addr\<close> of \<^verbatim>\<open>phl/phl_role.c\<close>: the first role in use with that address.\<close>

definition phl_get_wrole_by_addr :: "('p, 'q) phl_sta_ctl \<Rightarrow> bytes \<Rightarrow> nat option" where
  "phl_get_wrole_by_addr st addr =
     List.find (\<lambda>ridx. role_map st AND BIT ridx \<noteq> 0 \<and> role_mac_addr (wifi_roles st ! ridx) = addr)
       [0..<length (wifi_roles st)]"

section \<open>Initialisation of the pool\<close>

abbreviation PHL_MAX_STA_NUM :: nat where "PHL_MAX_STA_NUM \<equiv> 128"

text \<open>\<open>hal_ok\<close> stands for the result of \<^verbatim>\<open>rtw_hal_stainfo_init\<close>.\<close>

definition phl_stainfo_init ::
  "bool \<Rightarrow> 'p rtw_phl_stainfo_t \<Rightarrow> rtw_phl_status \<times> 'p rtw_phl_stainfo_t" where
  "phl_stainfo_init hal_ok sta =
     (let sta = sta\<lparr>tid_rx := replicate 8 None, ps_sta := 0\<rparr> in
      if \<not> hal_ok then (RTW_PHL_STATUS_FAILURE, sta)
      else (RTW_PHL_STATUS_SUCCESS, sta\<lparr>active := False\<rparr>))"

text \<open>The loop over the objects \<open>i, i + 1, \<dots>\<close>; true when one of them failed.\<close>

fun stainfo_init_loop ::
  "(nat \<Rightarrow> bool) \<Rightarrow> nat list \<Rightarrow> ('p, 'q) phl_sta_ctl \<Rightarrow> bool \<times> ('p, 'q) phl_sta_ctl" where
  "stainfo_init_loop hal_ok [] st = (False, st)"
| "stainfo_init_loop hal_ok (i # is) st =
     (case phl_stainfo_init (hal_ok i) (stas st i) of
        (sts, sta) \<Rightarrow>
          let st = upd_sta i (\<lambda>_. sta) st in
          if sts \<noteq> RTW_PHL_STATUS_SUCCESS then (True, st)
          else stainfo_init_loop hal_ok is
                 (st\<lparr>free_sta_queue := snd (phl_stainfo_enqueue (free_sta_queue st) (Some i))\<rparr>))"

text \<open>\<^verbatim>\<open>phl_stainfo_ctrl_deinie\<close>: the free queue is drained.\<close>

definition phl_stainfo_ctrl_deinie :: "('p, 'q) phl_sta_ctl \<Rightarrow> rtw_phl_status \<times> ('p, 'q) phl_sta_ctl" where
  "phl_stainfo_ctrl_deinie st =
     (RTW_PHL_STATUS_SUCCESS,
      st\<lparr>free_sta_queue := (free_sta_queue st)
           \<lparr>pq_queue := [], pq_cnt := pq_cnt (free_sta_queue st) - int (length (pq_queue (free_sta_queue st)))\<rparr>\<rparr>)"

definition phl_stainfo_ctrl_init ::
  "bool \<Rightarrow> (nat \<Rightarrow> bool) \<Rightarrow> ('p, 'q) phl_sta_ctl \<Rightarrow> rtw_phl_status \<times> ('p, 'q) phl_sta_ctl" where
  "phl_stainfo_ctrl_init mem_ok hal_ok st =
     (if \<not> mem_ok then (RTW_PHL_STATUS_FAILURE, st)
      else
        case stainfo_init_loop hal_ok [0..<PHL_MAX_STA_NUM] (st\<lparr>free_sta_queue := pq_init\<rparr>) of
          (True, st) \<Rightarrow> (RTW_PHL_STATUS_FAILURE, snd (phl_stainfo_ctrl_deinie st))
        | (False, st) \<Rightarrow> (RTW_PHL_STATUS_SUCCESS, st))"

section \<open>Release\<close>

text \<open>
  \<^verbatim>\<open>_phl_free_stainfo_sw\<close>: the TX rings and the macid are given back. The release of the
  reorder sessions is compiled out.
\<close>

definition phl_free_stainfo_sw_rsc ::
  "('p, 'q) phl_sta_ctl \<Rightarrow> sta_id \<Rightarrow> rtw_phl_status \<times> ('p, 'q) phl_sta_ctl" where
  "phl_free_stainfo_sw_rsc st s =
     (let sta = stas st s;
          (_, tx) = phl_deregister_tx_ring (sta_macid sta) (tx_path st);
          (pstatus, macid, mc) = phl_release_macid (mac_ctl st) (the (wrole sta)) (mac_addr sta) (sta_macid sta)
      in (pstatus, upd_sta s (\<lambda>a. a\<lparr>sta_macid := macid\<rparr>) (st\<lparr>tx_path := tx, mac_ctl := mc\<rparr>)))"

lemma free_rsc_frame:
  assumes "phl_free_stainfo_sw_rsc st s = (p, st')"
  shows "wifi_roles st' = wifi_roles st" and "free_sta_queue st' = free_sta_queue st"
  using assms by (auto simp: phl_free_stainfo_sw_rsc_def Let_def split: prod.splits)

text \<open>
  \<^verbatim>\<open>_phl_self_stainfo_chk\<close>: whether the station is the role's own entry. In station and
  group client mode the answer is always yes, and the address is overwritten by the role's.
\<close>

definition phl_self_stainfo_chk ::
  "('p, 'q) phl_sta_ctl \<Rightarrow> nat \<Rightarrow> sta_id \<Rightarrow> bool \<times> ('p, 'q) phl_sta_ctl" where
  "phl_self_stainfo_chk st r s =
     (let role = wifi_roles st ! r in
      case rtype role of
        PHL_RTYPE_STATION \<Rightarrow> (True, upd_sta s (\<lambda>a. a\<lparr>mac_addr := role_mac_addr role\<rparr>) st)
      | PHL_RTYPE_P2P_GC \<Rightarrow> (True, upd_sta s (\<lambda>a. a\<lparr>mac_addr := role_mac_addr role\<rparr>) st)
      | PHL_RTYPE_AP \<Rightarrow> (role_mac_addr role = mac_addr (stas st s), st)
      | PHL_RTYPE_MESH \<Rightarrow> (role_mac_addr role = mac_addr (stas st s), st)
      | PHL_RTYPE_P2P_GO \<Rightarrow> (role_mac_addr role = mac_addr (stas st s), st)
      | _ \<Rightarrow> (False, st))"

definition phl_free_stainfo_sw ::
  "('p, 'q) phl_sta_ctl \<Rightarrow> sta_id option \<Rightarrow> rtw_phl_status \<times> ('p, 'q) phl_sta_ctl" where
  "phl_free_stainfo_sw st sta =
     (case sta of
        None \<Rightarrow> (RTW_PHL_STATUS_FAILURE, st)
      | Some s \<Rightarrow>
          let r = the (wrole (stas st s));
              (is_self, st) = (if \<not> is_broadcast_mac_addr (mac_addr (stas st s))
                               then phl_self_stainfo_chk st r s else (False, st))
          in
          if is_self then (RTW_PHL_STATUS_SUCCESS, st)
          else
            let st = upd_role r (\<lambda>a. a\<lparr>assoc_sta_queue :=
                       snd (phl_stainfo_queue_del (assoc_sta_queue a) (Some s))\<rparr>) st;
                (_, st) = phl_free_stainfo_sw_rsc st s;
                (pstatus, q) = phl_stainfo_enqueue (free_sta_queue st) (Some s)
            in (pstatus, st\<lparr>free_sta_queue := q\<rparr>))"

text \<open>\<^verbatim>\<open>phl_free_stainfo_hw\<close>: everything but the initial status is compiled out.\<close>

definition phl_free_stainfo_hw ::
  "('p, 'q) phl_sta_ctl \<Rightarrow> sta_id option \<Rightarrow> rtw_phl_status \<times> ('p, 'q) phl_sta_ctl" where
  "phl_free_stainfo_hw st sta = (RTW_PHL_STATUS_FAILURE, st)"

definition phl_free_stainfo_both ::
  "('p, 'q) phl_sta_ctl \<Rightarrow> sta_id option \<Rightarrow> rtw_phl_status \<times> ('p, 'q) phl_sta_ctl" where
  "phl_free_stainfo_both st sta =
     (case phl_free_stainfo_hw st sta of (_, st) \<Rightarrow> phl_free_stainfo_sw st sta)"

section \<open>Allocation\<close>

text \<open>
  \<^verbatim>\<open>_phl_alloc_stainfo_sw\<close>. When the TX rings cannot be registered the macid is released,
  but the status is still the success of the macid allocation. \<open>mem_ok\<close>: the memory for the
  rings was there.
\<close>

definition phl_alloc_stainfo_sw_rsc ::
  "bool \<Rightarrow> ('p, 'q) phl_sta_ctl \<Rightarrow> sta_id \<Rightarrow> rtw_phl_status \<times> ('p, 'q) phl_sta_ctl" where
  "phl_alloc_stainfo_sw_rsc mem_ok st s =
     (let sta = stas st s;
          (pstatus, macid, mc) = phl_alloc_macid (mac_ctl st) s (wrole sta) (mac_addr sta);
          st = upd_sta s (\<lambda>a. case macid of None \<Rightarrow> a | Some m \<Rightarrow> a\<lparr>sta_macid := m\<rparr>) (st\<lparr>mac_ctl := mc\<rparr>)
      in
      if pstatus \<noteq> RTW_PHL_STATUS_SUCCESS then (pstatus, st)
      else
        let (rstatus, tx) = phl_register_tx_ring mem_ok (sta_macid (stas st s)) (tx_path st);
            st = st\<lparr>tx_path := tx\<rparr>
        in
        if rstatus \<noteq> RTW_PHL_STATUS_SUCCESS then
          let (_, macid, mc) = phl_release_macid (mac_ctl st) (the (wrole sta)) (mac_addr sta) (sta_macid (stas st s))
          in (pstatus, upd_sta s (\<lambda>a. a\<lparr>sta_macid := macid\<rparr>) (st\<lparr>mac_ctl := mc\<rparr>))
        else (RTW_PHL_STATUS_SUCCESS, st))"

definition phl_sta_set_default_value :: "'p rtw_phl_stainfo_t \<Rightarrow> 'p rtw_phl_stainfo_t" where
  "phl_sta_set_default_value sta = sta\<lparr>bcn_hit_cond := 0, hit_rule := 0, protect := 0\<rparr>"

definition phl_alloc_stainfo_sw ::
  "bool \<Rightarrow> ('p, 'q) phl_sta_ctl \<Rightarrow> bytes \<Rightarrow> nat \<Rightarrow> sta_id option \<times> ('p, 'q) phl_sta_ctl" where
  "phl_alloc_stainfo_sw mem_ok st sta_addr r =
     (let self = (if rtype (wifi_roles st ! r) = PHL_RTYPE_STATION \<and> \<not> is_broadcast_mac_addr sta_addr
                  then rtw_phl_get_stainfo_self st r else None)
      in
      case self of
        Some s \<Rightarrow> (Some s, upd_sta s (\<lambda>a. a\<lparr>mac_addr := sta_addr\<rparr>) st)
      | None \<Rightarrow>
          (case rtw_phl_get_stainfo_by_addr st r sta_addr of
             Some s \<Rightarrow> (Some s, st)
           | None \<Rightarrow>
               (case phl_stainfo_dequeue (free_sta_queue st) of
                  (None, _) \<Rightarrow> (None, st)
                | (Some s, q) \<Rightarrow>
                    let st = upd_sta s (\<lambda>a. a\<lparr>mac_addr := sta_addr, wrole := Some r\<rparr>) (st\<lparr>free_sta_queue := q\<rparr>);
                        (pstatus, st) = phl_alloc_stainfo_sw_rsc mem_ok st s
                    in
                    if pstatus \<noteq> RTW_PHL_STATUS_SUCCESS then
                      (None, st\<lparr>free_sta_queue := snd (phl_stainfo_enqueue (free_sta_queue st) (Some s))\<rparr>)
                    else
                      let st = upd_sta s phl_sta_set_default_value st
                      in (Some s, upd_role r (\<lambda>a. a\<lparr>assoc_sta_queue :=
                            snd (phl_stainfo_enqueue (assoc_sta_queue a) (Some s))\<rparr>) st))))"

text \<open>\<open>hal_ok\<close> stands for the result of \<^verbatim>\<open>rtw_hal_add_sta_entry\<close>.\<close>

definition phl_alloc_stainfo_hw ::
  "bool \<Rightarrow> ('p, 'q) phl_sta_ctl \<Rightarrow> sta_id option \<Rightarrow> rtw_phl_status \<times> ('p, 'q) phl_sta_ctl" where
  "phl_alloc_stainfo_hw hal_ok st sta =
     (case sta of
        None \<Rightarrow> (RTW_PHL_STATUS_FAILURE, st)
      | Some s \<Rightarrow>
          let st = st\<lparr>hal_entries := hal_entries st @ [s]\<rparr> in
          if \<not> hal_ok then (RTW_PHL_STATUS_FAILURE, st)
          else (RTW_PHL_STATUS_SUCCESS, upd_sta s (\<lambda>a. a\<lparr>active := True\<rparr>) st))"

definition phl_alloc_stainfo_both ::
  "bool \<Rightarrow> bool \<Rightarrow> ('p, 'q) phl_sta_ctl \<Rightarrow> bytes \<Rightarrow> nat \<Rightarrow>
   rtw_phl_status \<times> sta_id option \<times> ('p, 'q) phl_sta_ctl" where
  "phl_alloc_stainfo_both mem_ok hal_ok st sta_addr r =
     (case phl_alloc_stainfo_sw mem_ok st sta_addr r of
        (None, st) \<Rightarrow> (RTW_PHL_STATUS_FAILURE, None, st)
      | (Some s, st) \<Rightarrow>
          let (pstatus, st) = (if \<not> active (stas st s) then phl_alloc_stainfo_hw hal_ok st (Some s)
                               else (RTW_PHL_STATUS_SUCCESS, st))
          in
          if pstatus \<noteq> RTW_PHL_STATUS_SUCCESS then
            (RTW_PHL_STATUS_FAILURE, None, snd (phl_free_stainfo_sw st (Some s)))
          else (RTW_PHL_STATUS_SUCCESS, Some s, st))"

text \<open>\<^verbatim>\<open>_phl_alloc_stainfo\<close>, the body of the station command; \<open>sta\<close> is \<^verbatim>\<open>*sta\<close>.\<close>

definition phl_alloc_stainfo ::
  "bool \<Rightarrow> bool \<Rightarrow> ('p, 'q) phl_sta_ctl \<Rightarrow> sta_id option \<Rightarrow> bytes \<Rightarrow> nat \<Rightarrow> bool \<Rightarrow> bool \<Rightarrow>
   rtw_phl_status \<times> sta_id option \<times> ('p, 'q) phl_sta_ctl" where
  "phl_alloc_stainfo mem_ok hal_ok st sta sta_addr r alloc only_hw =
     (if alloc then
        if only_hw then case phl_alloc_stainfo_hw hal_ok st sta of (ps, st) \<Rightarrow> (ps, sta, st)
        else phl_alloc_stainfo_both mem_ok hal_ok st sta_addr r
      else
        if only_hw then case phl_free_stainfo_hw st sta of (ps, st) \<Rightarrow> (ps, sta, st)
        else case phl_free_stainfo_both st sta of (ps, st) \<Rightarrow> (ps, sta, st))"

text \<open>All stations of a role are released (\<^verbatim>\<open>phl_wifi_role_free_stainfo_sw\<close>).\<close>

function phl_wifi_role_free_stainfo_sw :: "('p, 'q) phl_sta_ctl \<Rightarrow> nat \<Rightarrow> ('p, 'q) phl_sta_ctl" where
  "phl_wifi_role_free_stainfo_sw st r =
     (if r < length (wifi_roles st) then
        case phl_stainfo_dequeue (assoc_sta_queue (wifi_roles st ! r)) of
          (None, _) \<Rightarrow> st
        | (Some s, q) \<Rightarrow>
            let st = upd_role r (\<lambda>a. a\<lparr>assoc_sta_queue := q\<rparr>) st;
                (_, st) = phl_free_stainfo_sw_rsc st s
            in phl_wifi_role_free_stainfo_sw
                 (st\<lparr>free_sta_queue := snd (phl_stainfo_enqueue (free_sta_queue st) (Some s))\<rparr>) r
      else st)"
  by pat_completeness auto
termination
proof (relation "measure (\<lambda>(st, r). length (pq_queue (assoc_sta_queue (wifi_roles st ! r))))", goal_cases)
  case (2 st r x q s st1 y p st2)
  then have "wifi_roles st2 = wifi_roles st1" by (metis free_rsc_frame(1))
  with 2 show ?case by (auto simp: phl_stainfo_dequeue_def split: list.splits)
qed simp

declare phl_wifi_role_free_stainfo_sw.simps [simp del]

section \<open>Media status and changes\<close>

text \<open>
  \<^verbatim>\<open>phl_update_media_status\<close>; \<open>is_sta_linked\<close> is the answer of
  \<^verbatim>\<open>rtw_hal_is_sta_linked\<close>. The calls that update the hardware entry are compiled out.
\<close>

definition phl_update_media_status ::
  "bool \<Rightarrow> ('p, 'q) phl_sta_ctl \<Rightarrow> sta_id \<Rightarrow> bytes \<Rightarrow> bool \<Rightarrow> rtw_phl_status \<times> ('p, 'q) phl_sta_ctl" where
  "phl_update_media_status is_sta_linked st s sta_addr is_connect =
     (let r = the (wrole (stas st s)); role = wifi_roles st ! r in
      if is_connect \<and> is_sta_linked then (RTW_PHL_STATUS_FAILURE, st)
      else if \<not> is_connect \<and> \<not> is_sta_linked then
        (if mstate role = MLME_LINKING then RTW_PHL_STATUS_SUCCESS else RTW_PHL_STATUS_FAILURE,
         if rtype role = PHL_RTYPE_STATION \<or> rtype role = PHL_RTYPE_P2P_GC
         then upd_role r (\<lambda>a. a\<lparr>mstate := MLME_NO_LINK\<rparr>) st else st)
      else
        let st = (if rtype role = PHL_RTYPE_STATION then
                    if is_connect then
                      upd_sta s (\<lambda>a. a\<lparr>mac_addr := sta_addr\<rparr>) (upd_role r (\<lambda>a. a\<lparr>mstate := MLME_LINKED\<rparr>) st)
                    else upd_role r (\<lambda>a. a\<lparr>mstate := MLME_NO_LINK\<rparr>) st
                  else st)
        in (RTW_PHL_STATUS_SUCCESS, st))"

datatype sta_chg_id = STA_CHG_BW | STA_CHG_NSS | STA_CHG_RAMASK | STA_CHG_SEC_MODE | STA_CHG_MBSSID | STA_CHG_MAX

definition change_stainfo ::
  "'p rtw_phl_stainfo_t \<Rightarrow> sta_chg_id \<Rightarrow> u8 \<Rightarrow> rtw_phl_status \<times> 'p rtw_phl_stainfo_t" where
  "change_stainfo sta chg_id chg_info =
     (RTW_PHL_STATUS_SUCCESS,
      case chg_id of
        STA_CHG_SEC_MODE \<Rightarrow> sta\<lparr>sec_mode := chg_info\<rparr>
      | STA_CHG_MBSSID \<Rightarrow> sta\<lparr>addr_sel := 1, addr_msk := chg_info\<rparr>
      | _ \<Rightarrow> sta)"

section \<open>Well-formedness\<close>

text \<open>
  An associated station of a role knows its role and holds a macid that the macid table maps back to
  it and that the role's bitmap marks. Every object is on at most one queue.
\<close>

definition sta_linked :: "('p, 'q) phl_sta_ctl \<Rightarrow> nat \<Rightarrow> sta_id \<Rightarrow> bool" where
  "sta_linked st r s \<longleftrightarrow>
     wrole (stas st s) = Some r \<and> sta_macid (stas st s) < max_num (mac_ctl st) \<and>
     rtw_phl_get_stainfo_by_macid (mac_ctl st) (sta_macid (stas st s)) = Some s \<and>
     phl_macid_is_used (wifi_role_usedmap (mac_ctl st) ! r) (sta_macid (stas st s))"

abbreviation assoc :: "('p, 'q) phl_sta_ctl \<Rightarrow> nat \<Rightarrow> sta_id list" where
  "assoc st r \<equiv> pq_queue (assoc_sta_queue (wifi_roles st ! r))"

definition sta_wf :: "('p, 'q) phl_sta_ctl \<Rightarrow> bool" where
  "sta_wf st \<longleftrightarrow>
     macid_wf (mac_ctl st) \<and> length (wifi_role_usedmap (mac_ctl st)) = length (wifi_roles st) \<and>
     pq_wf (free_sta_queue st) \<and> (\<forall>r < length (wifi_roles st). pq_wf (assoc_sta_queue (wifi_roles st ! r))) \<and>
     (\<forall>r < length (wifi_roles st). set (pq_queue (free_sta_queue st)) \<inter> set (assoc st r) = {}) \<and>
     (\<forall>r < length (wifi_roles st). \<forall>r' < length (wifi_roles st). r \<noteq> r' \<longrightarrow>
        set (assoc st r) \<inter> set (assoc st r') = {}) \<and>
     (\<forall>r < length (wifi_roles st). \<forall>s \<in> set (assoc st r). sta_linked st r s)"

lemma sta_wfD:
  assumes "sta_wf st"
  shows "macid_wf (mac_ctl st)" "length (wifi_role_usedmap (mac_ctl st)) = length (wifi_roles st)"
    "pq_wf (free_sta_queue st)" "r < length (wifi_roles st) \<Longrightarrow> pq_wf (assoc_sta_queue (wifi_roles st ! r))"
    "r < length (wifi_roles st) \<Longrightarrow> set (pq_queue (free_sta_queue st)) \<inter> set (assoc st r) = {}"
    "r < length (wifi_roles st) \<Longrightarrow> r' < length (wifi_roles st) \<Longrightarrow> r \<noteq> r' \<Longrightarrow>
       set (assoc st r) \<inter> set (assoc st r') = {}"
    "r < length (wifi_roles st) \<Longrightarrow> s \<in> set (assoc st r) \<Longrightarrow> sta_linked st r s"
  using assms unfolding sta_wf_def by blast+

text \<open>Two associated stations never share a macid.\<close>

lemma sta_macid_unique:
  assumes "sta_linked st r s" and "sta_linked st r' s'" and "sta_macid (stas st s) = sta_macid (stas st s')"
  shows "s = s'"
  using assms by (simp add: sta_linked_def)

text \<open>A linked station stays linked when another id is claimed or dropped.\<close>

lemma sta_linked_frame:
  assumes "sta_linked st r s" and "stas st' s = stas st s"
    and "max_num (mac_ctl st') = max_num (mac_ctl st)"
    and "rtw_phl_get_stainfo_by_macid (mac_ctl st') (sta_macid (stas st s)) =
         rtw_phl_get_stainfo_by_macid (mac_ctl st) (sta_macid (stas st s))"
    and "phl_macid_is_used (wifi_role_usedmap (mac_ctl st') ! r) (sta_macid (stas st s)) =
         phl_macid_is_used (wifi_role_usedmap (mac_ctl st) ! r) (sta_macid (stas st s))"
  shows "sta_linked st' r s"
  using assms by (simp add: sta_linked_def)

section \<open>Allocation keeps the invariant\<close>

lemma alloc_rsc_cases:
  assumes wf: "macid_wf (mac_ctl st)" and r: "r < length (wifi_role_usedmap (mac_ctl st))"
    and w: "wrole (stas st s) = Some r"
    and al: "phl_alloc_stainfo_sw_rsc True st s = (p, st')"
  obtains (full) "p = RTW_PHL_STATUS_FAILURE" "st' = upd_sta s (\<lambda>a. a\<lparr>sta_macid := max_num (mac_ctl st)\<rparr>) st"
      "\<forall>j < max_num (mac_ctl st). phl_macid_is_used (used_map (mac_ctl st)) j"
  | (got) i where "p = RTW_PHL_STATUS_SUCCESS" "i < max_num (mac_ctl st)"
      "rtw_phl_get_stainfo_by_macid (mac_ctl st) i = None" "macid_wf (mac_ctl st')"
      "stas st' = (stas st)(s := (stas st s)\<lparr>sta_macid := i\<rparr>)"
      "max_num (mac_ctl st') = max_num (mac_ctl st)"
      "\<forall>j < max_num (mac_ctl st). rtw_phl_get_stainfo_by_macid (mac_ctl st') j =
         (if j = i then Some s else rtw_phl_get_stainfo_by_macid (mac_ctl st) j)"
      "wifi_role_usedmap (mac_ctl st') =
         (wifi_role_usedmap (mac_ctl st))[r := phl_macid_map_set (wifi_role_usedmap (mac_ctl st) ! r) i]"
      "wifi_roles st' = wifi_roles st" "free_sta_queue st' = free_sta_queue st"
proof -
  obtain ps m mc where am: "phl_alloc_macid (mac_ctl st) s (Some r) (mac_addr (stas st s)) = (ps, m, mc)"
    by (metis prod_cases3)
  show thesis
  proof (cases rule: alloc_macid_cases [OF wf r am, case_names full got])
    case full
    with al am w show thesis
      by (intro that(1)) (auto simp: phl_alloc_stainfo_sw_rsc_def Let_def)
  next
    case (got i)
    have "rtw_phl_get_stainfo_by_macid (mac_ctl st) i = None"
      using got(4) by (simp add: rtw_phl_get_stainfo_by_macid_def)
    with got al am w show thesis
      by (intro that(2) [of i])
        (auto simp: phl_alloc_stainfo_sw_rsc_def phl_register_tx_ring_def phl_allocate_phl_tring_list_def Let_def)
  qed
qed

lemma nth_upd_role:
  "r < length (wifi_roles st) \<Longrightarrow>
   wifi_roles (upd_role r f st) ! q = (if q = r then f (wifi_roles st ! r) else wifi_roles st ! q)"
  by simp

lemma phl_alloc_stainfo_sw_new:
  assumes wf: "sta_wf st" and r: "r < length (wifi_roles st)"
    and free: "pq_queue (free_sta_queue st) = s # ss"
    and st0_def: "st0 = upd_sta s (\<lambda>a. a\<lparr>mac_addr := addr, wrole := Some r\<rparr>)
                   (st\<lparr>free_sta_queue := snd (phl_stainfo_dequeue (free_sta_queue st))\<rparr>)"
    and al: "phl_alloc_stainfo_sw_rsc True st0 s = (RTW_PHL_STATUS_SUCCESS, st1)"
    and st': "st' = upd_role r (\<lambda>a. a\<lparr>assoc_sta_queue := snd (phl_stainfo_enqueue (assoc_sta_queue a) (Some s))\<rparr>)
                (upd_sta s phl_sta_set_default_value st1)"
  shows "sta_wf st' \<and> assoc st' r = assoc st r @ [s] \<and> pq_queue (free_sta_queue st') = ss \<and>
         mac_addr (stas st' s) = addr"
proof -
  note D = sta_wfD [OF wf]
  have m0: "mac_ctl st0 = mac_ctl st" "wifi_roles st0 = wifi_roles st" by (simp_all add: st0_def)
  have w0: "wrole (stas st0 s) = Some r" by (simp add: st0_def)
  have wf0: "macid_wf (mac_ctl st0)" "r < length (wifi_role_usedmap (mac_ctl st0))" using D(1,2) r m0 by simp_all
  from alloc_rsc_cases [OF wf0 w0 al] obtain i where
    g: "i < max_num (mac_ctl st)" "rtw_phl_get_stainfo_by_macid (mac_ctl st) i = None" "macid_wf (mac_ctl st1)"
      "stas st1 = (stas st0)(s := (stas st0 s)\<lparr>sta_macid := i\<rparr>)" "max_num (mac_ctl st1) = max_num (mac_ctl st)"
      "\<forall>j < max_num (mac_ctl st). rtw_phl_get_stainfo_by_macid (mac_ctl st1) j =
         (if j = i then Some s else rtw_phl_get_stainfo_by_macid (mac_ctl st) j)"
      "wifi_role_usedmap (mac_ctl st1) =
         (wifi_role_usedmap (mac_ctl st))[r := phl_macid_map_set (wifi_role_usedmap (mac_ctl st) ! r) i]"
      "wifi_roles st1 = wifi_roles st" "free_sta_queue st1 = free_sta_queue st0"
    unfolding m0 by auto
  have frees: "pq_queue (free_sta_queue st') = ss" "pq_wf (free_sta_queue st')"
    using D(3) free g(9) by (auto simp: st' st0_def phl_stainfo_dequeue_def pq_wf_def)
  have s_free: "s \<notin> set (assoc st q)" if "q < length (wifi_roles st)" for q
    using D(5) [OF that] free by auto
  have roles: "wifi_roles st' ! q = (if q = r then (wifi_roles st ! r)\<lparr>assoc_sta_queue :=
      (assoc_sta_queue (wifi_roles st ! r))\<lparr>pq_queue := assoc st r @ [s],
        pq_cnt := pq_cnt (assoc_sta_queue (wifi_roles st ! r)) + 1\<rparr>\<rparr> else wifi_roles st ! q)"
    and len: "length (wifi_roles st') = length (wifi_roles st)" for q
    using r g(8) by (simp_all add: st' phl_stainfo_enqueue_def)
  have sets: "set (assoc st' q) = (if q = r then insert s (set (assoc st r)) else set (assoc st q))" for q
    by (simp add: roles)
  have iv: "macid_valid i" using macid_valid_less [OF g(1) D(1)] .
  have linked: "sta_linked st' q t" if q: "q < length (wifi_roles st')" and t: "t \<in> set (assoc st' q)" for q t
  proof (cases "t = s")
    case True
    then have "q = r" using t s_free q len by (auto simp: sets split: if_splits)
    moreover have "phl_macid_is_used (wifi_role_usedmap (mac_ctl st1) ! r) i"
      using is_used_set [OF macid_wfD(3) [OF D(1)] iv iv] g(7) r D(2) by simp
    ultimately show ?thesis using True g
      by (simp add: sta_linked_def st' st0_def phl_sta_set_default_value_def)
  next
    case False
    with t have t': "t \<in> set (assoc st q)" by (auto simp: sets split: if_splits)
    have lk: "sta_linked st q t" using D(7) t' q len by simp
    let ?j = "sta_macid (stas st t)"
    have j: "?j < max_num (mac_ctl st)" "?j \<noteq> i" using lk g(2) by (auto simp: sta_linked_def)
    have jv: "macid_valid ?j" using macid_valid_less [OF j(1) D(1)] .
    have "phl_macid_is_used (wifi_role_usedmap (mac_ctl st1) ! q) ?j =
        phl_macid_is_used (wifi_role_usedmap (mac_ctl st) ! q) ?j"
      using is_used_set [OF macid_wfD(3) [OF D(1)] iv jv] g(7) r D(2) j(2) by (cases "q = r") simp_all
    with lk False g j show ?thesis
      by (intro sta_linked_frame [OF lk]) (simp_all add: st' st0_def)
  qed
  have "pq_wf (assoc_sta_queue (wifi_roles st' ! q))" if "q < length (wifi_roles st')" for q
    using D(4) [of q] that len s_free [OF r] by (auto simp: roles pq_wf_def)
  moreover have "set (pq_queue (free_sta_queue st')) \<inter> set (assoc st' q) = {}" if "q < length (wifi_roles st')" for q
    using D(5) [of q] D(3) that len free frees(1) by (auto simp: sets pq_wf_def)
  moreover have "set (assoc st' q) \<inter> set (assoc st' q') = {}"
    if "q < length (wifi_roles st')" "q' < length (wifi_roles st')" "q \<noteq> q'" for q q'
    using D(6) [of q q'] that len s_free by (auto simp: sets)
  moreover have "macid_wf (mac_ctl st')" "length (wifi_role_usedmap (mac_ctl st')) = length (wifi_roles st')"
    using g(3,7) D(2) len by (simp_all add: st')
  ultimately have "sta_wf st'" using linked frees unfolding sta_wf_def by blast
  moreover have "mac_addr (stas st' s) = addr" by (simp add: st' g(4) st0_def phl_sta_set_default_value_def)
  moreover have "assoc st' r = assoc st r @ [s]" by (simp add: roles)
  ultimately show ?thesis using frees by blast
qed

text \<open>When no macid is left, the object goes back to the end of the free queue.\<close>

lemma phl_alloc_stainfo_sw_full:
  assumes wf: "sta_wf st" and free: "pq_queue (free_sta_queue st) = s # ss"
    and st': "free_sta_queue st' = (free_sta_queue st)\<lparr>pq_queue := ss @ [s]\<rparr>" "mac_ctl st' = mac_ctl st"
      "wifi_roles st' = wifi_roles st" "\<And>t. t \<noteq> s \<Longrightarrow> stas st' t = stas st t"
  shows "sta_wf st'"
proof -
  note D = sta_wfD [OF wf]
  have "pq_wf (free_sta_queue st')" using D(3) free st'(1) by (simp add: pq_wf_def)
  moreover have "set (pq_queue (free_sta_queue st')) = set (pq_queue (free_sta_queue st))"
    using free st'(1) by auto
  moreover have "sta_linked st' q t" if "q < length (wifi_roles st)" "t \<in> set (assoc st q)" for q t
  proof -
    have "t \<noteq> s" using D(5) [OF that(1)] that(2) free by auto
    then show ?thesis using D(7) [OF that] st' by (simp add: sta_linked_def)
  qed
  ultimately show ?thesis using D(1-6) st'(2,3) unfolding sta_wf_def by (simp only:) blast
qed

text \<open>Overwriting the address of a station does not matter to the invariant.\<close>

lemma sta_wf_upd_addr: "sta_wf st \<Longrightarrow> sta_wf (upd_sta s (\<lambda>a. a\<lparr>mac_addr := addr\<rparr>) st)"
  by (simp add: sta_wf_def sta_linked_def)

section \<open>Release keeps the invariant\<close>

lemma phl_free_stainfo_sw_wf:
  assumes wf: "sta_wf st" and r: "r < length (wifi_roles st)" and s: "s \<in> set (assoc st r)"
    and ns: "is_broadcast_mac_addr (mac_addr (stas st s)) \<or> \<not> fst (phl_self_stainfo_chk st r s)"
    and fr: "phl_free_stainfo_sw st (Some s) = (p, st')"
  shows "p = RTW_PHL_STATUS_SUCCESS \<and> sta_wf st' \<and> assoc st' r = remove1 s (assoc st r) \<and>
     pq_queue (free_sta_queue st') = pq_queue (free_sta_queue st) @ [s] \<and>
     rtw_phl_get_stainfo_by_macid (mac_ctl st') (sta_macid (stas st s)) = None \<and>
     stas st' s = (stas st s)\<lparr>sta_macid := max_num (mac_ctl st)\<rparr>"
proof -
  note D = sta_wfD [OF wf]
  have lk: "sta_linked st r s" using D(7) [OF r s] .
  let ?i = "sta_macid (stas st s)"
  let ?q = "assoc_sta_queue (wifi_roles st ! r)"
  have i: "?i < max_num (mac_ctl st)" "phl_macid_is_used (wifi_role_usedmap (mac_ctl st) ! r) ?i"
    and w: "wrole (stas st s) = Some r" using lk by (auto simp: sta_linked_def)
  have rl: "r < length (wifi_role_usedmap (mac_ctl st))" using r D(2) by simp
  have chk: "(if \<not> is_broadcast_mac_addr (mac_addr (stas st s)) then phl_self_stainfo_chk st r s else (False, st))
      = (False, st)"
    using ns by (auto simp: phl_self_stainfo_chk_def Let_def split: role_type.splits)
  obtain ps m mc where rm: "phl_release_macid (mac_ctl st) r (mac_addr (stas st s)) ?i = (ps, m, mc)"
    by (metis prod_cases3)
  obtain dst tx where dr: "phl_deregister_tx_ring ?i (tx_path st) = (dst, tx)" by fastforce
  have cnt: "pq_cnt ?q \<noteq> 0" using D(4) [OF r] s by (auto simp: pq_wf_def)
  have M: "m = max_num (mac_ctl st)" "macid_wf mc" "max_num mc = max_num (mac_ctl st)"
    "\<forall>j < max_num (mac_ctl st). rtw_phl_get_stainfo_by_macid mc j =
       (if j = ?i then None else rtw_phl_get_stainfo_by_macid (mac_ctl st) j)"
    using release_macid_cases [OF D(1) rl i(2,1) rm] by auto
  have um: "wifi_role_usedmap mc = (wifi_role_usedmap (mac_ctl st))
      [r := phl_macid_map_clr (wifi_role_usedmap (mac_ctl st) ! r) ?i]"
  proof -
    have "phl_macid_is_used (used_map (mac_ctl st)) ?i"
      using macid_wf_used(3) [OF D(1) macid_valid_less [OF i(1) D(1)]] rl i(2) by blast
    with rm i(1) show ?thesis by (auto simp: release_macid_unfold drop_id_def)
  qed
  have st': "st' = st\<lparr>wifi_roles := (wifi_roles st)[r := (wifi_roles st ! r)\<lparr>assoc_sta_queue :=
        ?q\<lparr>pq_queue := remove1 s (pq_queue ?q), pq_cnt := pq_cnt ?q - 1\<rparr>\<rparr>],
      tx_path := tx, mac_ctl := mc, stas := (stas st)(s := (stas st s)\<lparr>sta_macid := m\<rparr>),
      free_sta_queue := (free_sta_queue st)\<lparr>pq_queue := pq_queue (free_sta_queue st) @ [s],
        pq_cnt := pq_cnt (free_sta_queue st) + 1\<rparr>\<rparr>" and p: "p = RTW_PHL_STATUS_SUCCESS"
    using fr w chk cnt rm dr
    by (auto simp: phl_free_stainfo_sw_def phl_free_stainfo_sw_rsc_def phl_stainfo_queue_del_def
        phl_stainfo_enqueue_def Let_def)
  have s_assoc: "s \<notin> set (assoc st q)" if "q < length (wifi_roles st)" "q \<noteq> r" for q
    using D(6) [OF r that(1)] that(2) s by auto
  have dist: "distinct (assoc st r)" using D(4) [OF r] by (simp add: pq_wf_def)
  have roles: "assoc st' q = (if q = r then remove1 s (assoc st r) else assoc st q)"
    and len: "length (wifi_roles st') = length (wifi_roles st)" for q
    using r by (simp_all add: st')
  have sub: "t \<noteq> s \<and> t \<in> set (assoc st q)" if "q < length (wifi_roles st)" "t \<in> set (assoc st' q)" for q t
    using that dist s_assoc by (auto simp: roles split: if_splits)
  have linked: "sta_linked st' q t" if q: "q < length (wifi_roles st)" and t: "t \<in> set (assoc st' q)" for q t
  proof -
    have ts: "t \<noteq> s" and tq: "t \<in> set (assoc st q)" using sub [OF q t] by auto
    have lt: "sta_linked st q t" using D(7) [OF q tq] .
    let ?j = "sta_macid (stas st t)"
    have j: "?j \<noteq> ?i" "?j < max_num (mac_ctl st)"
      using sta_macid_unique [OF lt lk] ts lt by (auto simp: sta_linked_def)
    have v: "macid_valid ?i" "macid_valid ?j" using i(1) j(2) D(1) by (auto intro: macid_valid_less)
    have "phl_macid_is_used (wifi_role_usedmap mc ! q) ?j =
        phl_macid_is_used (wifi_role_usedmap (mac_ctl st) ! q) ?j"
      using is_used_clr [OF macid_wfD(3) [OF D(1) rl] v] um rl j(1) by (cases "q = r") simp_all
    with ts M j show ?thesis by (intro sta_linked_frame [OF lt]) (simp_all add: st')
  qed
  have "pq_wf (assoc_sta_queue (wifi_roles st' ! q))" if "q < length (wifi_roles st)" for q
    using D(4) [OF that] D(4) [OF r] s r by (cases "q = r") (auto simp: st' pq_wf_def length_remove1_int)
  moreover have "pq_wf (free_sta_queue st')" using D(3) D(5) [OF r] s by (auto simp: st' pq_wf_def)
  moreover have "set (pq_queue (free_sta_queue st')) \<inter> set (assoc st' q) = {}" if "q < length (wifi_roles st)" for q
    using D(5) [OF that] sub [OF that] by (auto simp: st' simp del: role_type.case)
  moreover have "set (assoc st' q) \<inter> set (assoc st' q') = {}"
    if "q < length (wifi_roles st)" "q' < length (wifi_roles st)" "q \<noteq> q'" for q q'
    using D(6) [OF that] sub [OF that(1)] sub [OF that(2)] by blast
  moreover have "macid_wf (mac_ctl st')" "length (wifi_role_usedmap (mac_ctl st')) = length (wifi_roles st')"
    using M(2) D(2) um by (simp_all add: st')
  ultimately have "sta_wf st'" using linked len unfolding sta_wf_def by (simp only:) blast
  then show ?thesis using p roles [of r] M i by (simp add: st')
qed


section \<open>Properties\<close>

lemma find_append: "List.find P (xs @ ys) = (case List.find P xs of None \<Rightarrow> List.find P ys | Some x \<Rightarrow> Some x)"
  by (induction xs) auto

lemma find_cong: "(\<And>x. x \<in> set xs \<Longrightarrow> P x = Q x) \<Longrightarrow> List.find P xs = List.find Q xs"
  by (induction xs) auto

lemma find_hit:
  assumes "List.find P xs = Some x"
  shows "x \<in> set xs \<and> P x"
  using assms by (auto simp: find_Some_iff)

text \<open>A fresh station is found under its address afterwards.\<close>

lemma new_station_found:
  assumes bc: "\<not> is_broadcast_mac_addr addr" and none: "rtw_phl_get_stainfo_by_addr st r addr = None"
    and q: "assoc st' r = assoc st r @ [s]" and a: "mac_addr (stas st' s) = addr"
    and same: "\<And>t. t \<in> set (assoc st r) \<Longrightarrow> stas st' t = stas st t"
  shows "rtw_phl_get_stainfo_by_addr st' r addr = Some s"
proof -
  have "List.find (\<lambda>t. mac_addr (stas st' t) = addr) (assoc st r) = None"
    using none bc same
    by (simp add: rtw_phl_get_stainfo_by_addr_def phl_stainfo_queue_search_def cong: find_cong)
  then show ?thesis using bc q a
    by (simp add: rtw_phl_get_stainfo_by_addr_def phl_stainfo_queue_search_def find_append)
qed

lemma no_self_entry:
  assumes "rtype (wifi_roles st ! r) = PHL_RTYPE_STATION \<and> \<not> is_broadcast_mac_addr addr \<longrightarrow> assoc st r = []"
  shows "(if rtype (wifi_roles st ! r) = PHL_RTYPE_STATION \<and> \<not> is_broadcast_mac_addr addr
          then rtw_phl_get_stainfo_self st r else None) = None"
  using assms by (simp add: rtw_phl_get_stainfo_self_def phl_stainfo_queue_get_first_def)

text \<open>The resources of a station: nothing but the macid of the object changes.\<close>

lemma alloc_rsc_frame:
  assumes "phl_alloc_stainfo_sw_rsc ok st s = (p, st')"
  shows "wifi_roles st' = wifi_roles st" and "hal_entries st' = hal_entries st"
    and "\<exists>m. stas st' = (stas st)(s := (stas st s)\<lparr>sta_macid := m\<rparr>)"
proof -
  obtain ps m mc where am: "phl_alloc_macid (mac_ctl st) s (wrole (stas st s)) (mac_addr (stas st s)) = (ps, m, mc)"
    by (metis prod_cases3)
  have same: "\<exists>m. stas st = (stas st)(s := (stas st s)\<lparr>sta_macid := m\<rparr>)"
    by (intro exI [of _ "sta_macid (stas st s)"]) simp
  show "wifi_roles st' = wifi_roles st" and "hal_entries st' = hal_entries st"
    using assms am by (auto simp: phl_alloc_stainfo_sw_rsc_def Let_def split: prod.splits if_splits)
  show "\<exists>m. stas st' = (stas st)(s := (stas st s)\<lparr>sta_macid := m\<rparr>)"
    using assms am
    by (cases m) (auto simp: phl_alloc_stainfo_sw_rsc_def Let_def same split: prod.splits if_splits)
qed

lemma alloc_keeps_role_config:
  assumes "phl_alloc_stainfo_sw ok st addr r = (res, st')"
  shows "map (\<lambda>a. (rtype a, role_mac_addr a)) (wifi_roles st') = map (\<lambda>a. (rtype a, role_mac_addr a)) (wifi_roles st)"
proof -
  have upd: "map g (xs[r := f (xs ! r)]) = map g xs" if "\<And>x. g (f x) = g x"
    for g :: "rtw_wifi_role_t \<Rightarrow> role_type \<times> bytes" and f xs
    using that by (cases "r < length xs") (simp_all add: map_update list_update_same_conv list_update_beyond)
  show ?thesis using assms
    by (auto simp: phl_alloc_stainfo_sw_def Let_def upd dest!: alloc_rsc_frame(1) split: option.splits prod.splits if_splits)
qed

text \<open>What \<^verbatim>\<open>phl_alloc_stainfo_sw\<close> does once no station with that address exists.\<close>

lemma alloc_fresh:
  assumes wf: "sta_wf st" and r: "r < length (wifi_roles st)"
    and self: "rtype (wifi_roles st ! r) = PHL_RTYPE_STATION \<and> \<not> is_broadcast_mac_addr addr \<longrightarrow> assoc st r = []"
    and none: "rtw_phl_get_stainfo_by_addr st r addr = None"
    and al: "phl_alloc_stainfo_sw True st addr r = (res, st')"
  obtains (empty) "res = None" "st' = st" "pq_queue (free_sta_queue st) = []"
  | (full) "res = None" "sta_wf st'" "wifi_roles st' = wifi_roles st"
      "\<forall>j < max_num (mac_ctl st). phl_macid_is_used (used_map (mac_ctl st)) j"
  | (fresh) s where "res = Some s" "sta_wf st'" "assoc st' r = assoc st r @ [s]"
      "mac_addr (stas st' s) = addr" "\<And>t. t \<in> set (assoc st r) \<Longrightarrow> stas st' t = stas st t"
proof (cases "pq_queue (free_sta_queue st)")
  case Nil
  with al none no_self_entry [OF self] show thesis
    by (intro that(1)) (auto simp: phl_alloc_stainfo_sw_def phl_stainfo_dequeue_def Let_def)
next
  case (Cons s ss)
  define st0 where "st0 = upd_sta s (\<lambda>a. a\<lparr>mac_addr := addr, wrole := Some r\<rparr>)
      (st\<lparr>free_sta_queue := snd (phl_stainfo_dequeue (free_sta_queue st))\<rparr>)"
  obtain p st1 where al1: "phl_alloc_stainfo_sw_rsc True st0 s = (p, st1)" by fastforce
  have unf: "(res, st') = (if p \<noteq> RTW_PHL_STATUS_SUCCESS then
        (None, st1\<lparr>free_sta_queue := snd (phl_stainfo_enqueue (free_sta_queue st1) (Some s))\<rparr>)
      else (Some s, upd_role r (\<lambda>a. a\<lparr>assoc_sta_queue := snd (phl_stainfo_enqueue (assoc_sta_queue a) (Some s))\<rparr>)
                (upd_sta s phl_sta_set_default_value st1)))"
    using al none no_self_entry [OF self] Cons al1
    by (auto simp: phl_alloc_stainfo_sw_def phl_stainfo_dequeue_def st0_def Let_def)
  note D = sta_wfD [OF wf]
  have wf0: "macid_wf (mac_ctl st0)" "r < length (wifi_role_usedmap (mac_ctl st0))" "wrole (stas st0 s) = Some r"
    using D(1,2) r by (simp_all add: st0_def)
  show thesis
  proof (cases rule: alloc_rsc_cases [OF wf0 al1, case_names full got])
    case full
    with unf have e: "res = None" "st' = st1\<lparr>free_sta_queue := snd (phl_stainfo_enqueue (free_sta_queue st1) (Some s))\<rparr>"
      by auto
    have "sta_wf st'"
      by (rule phl_alloc_stainfo_sw_full [OF wf Cons])
        (use full e Cons in \<open>simp_all add: st0_def phl_stainfo_dequeue_def phl_stainfo_enqueue_def\<close>)
    with e full show thesis by (intro that(2)) (simp_all add: st0_def)
  next
    case (got i)
    with unf have e: "res = Some s" "st' = upd_role r (\<lambda>a. a\<lparr>assoc_sta_queue :=
        snd (phl_stainfo_enqueue (assoc_sta_queue a) (Some s))\<rparr>) (upd_sta s phl_sta_set_default_value st1)"
      by auto
    have N: "sta_wf st' \<and> assoc st' r = assoc st r @ [s] \<and> pq_queue (free_sta_queue st') = ss \<and>
         mac_addr (stas st' s) = addr"
      by (rule phl_alloc_stainfo_sw_new [OF wf r Cons st0_def _ e(2)]) (use al1 got in simp)
    have "stas st' t = stas st t" if "t \<in> set (assoc st r)" for t
    proof -
      have "t \<noteq> s" using D(5) [OF r] that Cons by auto
      with e got show ?thesis by (simp add: st0_def)
    qed
    with N e show thesis by (intro that(3) [of s]) auto
  qed
qed


text \<open>A device with two access points and a station role, four macids and three objects.\<close>

definition demo_sta :: "nat rtw_phl_stainfo_t" where
  "demo_sta =
     (let tp = \<lparr>last_calc_bits = 0, last_calc_time_ms = 0\<rparr>;
          tf = \<lparr>trf_lvl = RTW_TFC_IDLE, trf_sts = 0\<rparr>
      in \<lparr>wrole = None, active = False, sta_macid = 0, mac_addr = [0, 0, 0, 0, 0, 0],
          sta_stats = \<lparr>tx_byte_uni = 0, rx_byte_uni = 0, tx_byte_total = 0, rx_byte_total = 0,
            tx_tp_kbits = 0, rx_tp_kbits = 0, last_tx_time_ms = 0, last_rx_time_ms = 0, txreq_num = 0,
            rx_rate = 0, txtp = tp, rxtp = tp, tx_traffic = tf, rx_traffic = tf\<rparr>,
          bcn_hit_cond = 0, hit_rule = 0, addr_sel = 0, addr_msk = 0, tid_rx = replicate 8 None,
          protect = 0, sec_mode = 0, ps_sta = 0\<rparr>)"

definition demo_role :: "role_type \<Rightarrow> bytes \<Rightarrow> rtw_wifi_role_t" where
  "demo_role ty addr = \<lparr>rtype = ty, mstate = MLME_NO_LINK, role_mac_addr = addr, assoc_sta_queue = pq_init\<rparr>"

definition demo_ctl :: "(nat, nat) phl_sta_ctl" where
  "demo_ctl =
     \<lparr>stas = (\<lambda>_. demo_sta), mac_ctl = snd (phl_macid_ctrl_init 4 (macid_ctl_zero 3)),
      free_sta_queue = \<lparr>pq_queue = [0, 1, 2], pq_cnt = 3\<rparr>,
      wifi_roles = [demo_role PHL_RTYPE_AP [2, 0, 0, 0, 0, 1], demo_role PHL_RTYPE_AP [2, 0, 0, 0, 0, 2],
                    demo_role PHL_RTYPE_STATION [2, 0, 0, 0, 0, 3]],
      role_map = 7, tx_path = demo_tx, hal_entries = []\<rparr>"

lemma demo_ctl_wf: "sta_wf demo_ctl"
proof -
  have m: "macid_wf (mac_ctl demo_ctl)" by (simp add: demo_ctl_def macid_init_wf)
  have len: "length (wifi_role_usedmap (mac_ctl demo_ctl)) = length (wifi_roles demo_ctl)" by code_simp
  have "assoc demo_ctl r = []" "pq_wf (assoc_sta_queue (wifi_roles demo_ctl ! r))" if "r < 3" for r
    using that by (auto simp: demo_ctl_def demo_role_def pq_init_def pq_wf_def less_Suc_eq numeral_3_eq_3)
  with m len show ?thesis by (auto simp: sta_wf_def) (simp_all add: demo_ctl_def pq_wf_def)
qed


text \<open>The state as the invariant sees it after a station was taken off its role's queue again.\<close>

lemma free_fresh_station:
  assumes wf: "sta_wf st" and r: "r < length (wifi_roles st)" and q: "assoc st r = as @ [s]"
    and ty: "rtype (wifi_roles st ! r) = PHL_RTYPE_AP" and ne: "mac_addr (stas st s) \<noteq> role_mac_addr (wifi_roles st ! r)"
    and fr: "phl_free_stainfo_sw st (Some s) = (p, st')"
  shows "p = RTW_PHL_STATUS_SUCCESS \<and> sta_wf st' \<and> assoc st' r = as \<and>
     rtw_phl_get_stainfo_by_macid (mac_ctl st') (sta_macid (stas st s)) = None \<and>
     stas st' = (stas st)(s := (stas st s)\<lparr>sta_macid := max_num (mac_ctl st)\<rparr>)"
proof -
  have ns: "\<not> fst (phl_self_stainfo_chk st r s)" using ty ne by (simp add: phl_self_stainfo_chk_def Let_def)
  have s: "s \<in> set (assoc st r)" using q by simp
  have w: "wrole (stas st s) = Some r" using sta_wfD(7) [OF wf r s] by (simp add: sta_linked_def)
  have "s \<notin> set as" using sta_wfD(4) [OF wf r] q by (simp add: pq_wf_def)
  then have "remove1 s (as @ [s]) = as" by (simp add: remove1_append)
  moreover have "stas st' = (stas st)(s := stas st' s)"
    using fr ns ty w
    by (auto simp: phl_free_stainfo_sw_def phl_free_stainfo_sw_rsc_def phl_self_stainfo_chk_def Let_def fun_eq_iff
        split: prod.splits if_splits)
  ultimately show ?thesis using phl_free_stainfo_sw_wf [OF wf r s disjI2 [OF ns] fr] q by metis
qed

text \<open>
  Allocating a new station on an access point and releasing it again gives back all it took:
  the role's queue and the lookup by address are as before, the macid it held is free, and the
  invariant holds.
\<close>

theorem alloc_free_roundtrip:
  assumes wf: "sta_wf st" and r: "r < length (wifi_roles st)"
    and ap: "rtype (wifi_roles st ! r) = PHL_RTYPE_AP"
    and addr: "\<not> is_broadcast_mac_addr addr" "addr \<noteq> role_mac_addr (wifi_roles st ! r)"
    and new: "rtw_phl_get_stainfo_by_addr st r addr = None"
    and al: "phl_alloc_stainfo_sw True st addr r = (Some s, st1)"
    and fr: "phl_free_stainfo_sw st1 (Some s) = (p, st2)"
  shows "p = RTW_PHL_STATUS_SUCCESS \<and> sta_wf st2 \<and> assoc st2 r = assoc st r \<and>
    rtw_phl_get_stainfo_by_macid (mac_ctl st2) (sta_macid (stas st1 s)) = None \<and>
    rtw_phl_get_stainfo_by_addr st2 r addr = None"
proof -
  have self: "rtype (wifi_roles st ! r) = PHL_RTYPE_STATION \<and> \<not> is_broadcast_mac_addr addr \<longrightarrow> assoc st r = []"
    using ap by simp
  from al have roles: "map (\<lambda>a. (rtype a, role_mac_addr a)) (wifi_roles st1) =
      map (\<lambda>a. (rtype a, role_mac_addr a)) (wifi_roles st)"
    by (rule alloc_keeps_role_config)
  then have len: "length (wifi_roles st1) = length (wifi_roles st)" by (rule map_eq_imp_length_eq)
  have cfg: "rtype (wifi_roles st1 ! r) = PHL_RTYPE_AP" "role_mac_addr (wifi_roles st1 ! r) = role_mac_addr (wifi_roles st ! r)"
    using arg_cong [OF roles, of "\<lambda>xs. xs ! r"] len r ap by simp_all
  obtain F: "sta_wf st1" "assoc st1 r = assoc st r @ [s]" "mac_addr (stas st1 s) = addr"
    "\<And>t. t \<in> set (assoc st r) \<Longrightarrow> stas st1 t = stas st t"
    by (rule alloc_fresh [OF wf r self new al]) auto
  have G: "p = RTW_PHL_STATUS_SUCCESS \<and> sta_wf st2 \<and> assoc st2 r = assoc st r \<and>
     rtw_phl_get_stainfo_by_macid (mac_ctl st2) (sta_macid (stas st1 s)) = None \<and>
     stas st2 = (stas st1)(s := (stas st1 s)\<lparr>sta_macid := max_num (mac_ctl st1)\<rparr>)"
    using free_fresh_station [OF F(1) _ F(2) cfg(1) _ fr] r len cfg(2) addr(2) F(3) by simp
  have "s \<notin> set (assoc st r)" using sta_wfD(4) [OF F(1), of r] r len F(2) by (simp add: pq_wf_def)
  then have "mac_addr (stas st2 t) = mac_addr (stas st t)" if "t \<in> set (assoc st r)" for t
    using G F(4) [OF that] that by auto
  then have "List.find (\<lambda>t. mac_addr (stas st2 t) = addr) (assoc st r) = List.find (\<lambda>t. mac_addr (stas st t) = addr) (assoc st r)"
    by (intro find_cong) simp
  then have "rtw_phl_get_stainfo_by_addr st2 r addr = None"
    using new addr(1) G by (simp only: rtw_phl_get_stainfo_by_addr_def phl_stainfo_queue_search_def if_False)
  with G show ?thesis by blast
qed

theorem alloc_free_roundtrip_witness:
  "fst (phl_free_stainfo_sw (snd (phl_alloc_stainfo_sw True demo_ctl [4, 0, 0, 0, 0, 9] 0)) (Some 0)) = RTW_PHL_STATUS_SUCCESS"
proof -
  let ?a = "[4, 0, 0, 0, 0, 9]"
  have f: "fst (phl_alloc_stainfo_sw True demo_ctl ?a 0) = Some 0" by code_simp
  then obtain st1 where al: "phl_alloc_stainfo_sw True demo_ctl ?a 0 = (Some 0, st1)" by (metis prod.collapse)
  obtain p st2 where fr: "phl_free_stainfo_sw st1 (Some 0) = (p, st2)" by fastforce
  have h: "0 < length (wifi_roles demo_ctl)" "rtype (wifi_roles demo_ctl ! 0) = PHL_RTYPE_AP"
    "\<not> is_broadcast_mac_addr ?a" "?a \<noteq> role_mac_addr (wifi_roles demo_ctl ! 0)"
    "rtw_phl_get_stainfo_by_addr demo_ctl 0 ?a = None"
    by code_simp+
  from alloc_free_roundtrip [OF demo_ctl_wf h al fr] al fr show ?thesis by simp
qed

text \<open>
  C31: When the TX rings of a new station cannot be allocated, \<^verbatim>\<open>_phl_alloc_stainfo_sw\<close> gives
  the macid back and still returns success, so the caller goes on with a station whose macid is the
  invalid id \<^verbatim>\<open>max_num\<close>.
\<close>

theorem ring_failure_reported_as_success:
  assumes wf: "macid_wf (mac_ctl st)" and r: "r < length (wifi_role_usedmap (mac_ctl st))"
    and w: "wrole (stas st s) = Some r"
    and free: "i < max_num (mac_ctl st)" "\<not> phl_macid_is_used (used_map (mac_ctl st)) i"
    and al: "phl_alloc_stainfo_sw_rsc False st s = (p, st')"
  shows "p = RTW_PHL_STATUS_SUCCESS \<and> sta_macid (stas st' s) = max_num (mac_ctl st) \<and> tx_path st' = tx_path st"
proof -
  obtain ps m mc where am: "phl_alloc_macid (mac_ctl st) s (Some r) (mac_addr (stas st s)) = (ps, m, mc)"
    by (metis prod_cases3)
  show ?thesis
  proof (cases rule: alloc_macid_cases [OF wf r am, case_names full got])
    case full
    then show ?thesis using free by blast
  next
    case (got j)
    obtain x m' mc' where rl: "phl_release_macid mc r (mac_addr (stas st s)) j = (x, m', mc')"
      by (metis prod_cases3)
    then have "m' = max_num (mac_ctl st)"
      using got(10) by (auto simp: release_macid_unfold split: if_splits)
    with got(1,2) al am w rl show ?thesis
      by (auto simp: phl_alloc_stainfo_sw_rsc_def phl_register_tx_ring_def phl_allocate_phl_tring_list_def Let_def)
  qed
qed

theorem ring_failure_reported_as_success_witness:
  "fst (phl_alloc_stainfo_sw_rsc False (upd_sta 0 (\<lambda>a. a\<lparr>wrole := Some 1\<rparr>) demo_ctl) 0) = RTW_PHL_STATUS_SUCCESS"
proof -
  let ?st = "upd_sta 0 (\<lambda>a. a\<lparr>wrole := Some 1\<rparr>) demo_ctl"
  obtain p st' where al: "phl_alloc_stainfo_sw_rsc False ?st 0 = (p, st')" by fastforce
  have wf: "macid_wf (mac_ctl ?st)" using sta_wfD(1) [OF demo_ctl_wf] by simp
  have h: "1 < length (wifi_role_usedmap (mac_ctl ?st))" "wrole (stas ?st 0) = Some 1"
    "0 < max_num (mac_ctl ?st)" "\<not> phl_macid_is_used (used_map (mac_ctl ?st)) 0"
    by code_simp+
  from ring_failure_reported_as_success [OF wf h al] al show ?thesis by simp
qed

text \<open>
  The broadcast entry of a role survives the release of its broadcast station. When the macid of
  that station is given to a unicast station of any role afterwards, the broadcast lookup on the first
  role returns that unicast station.
\<close>

theorem stale_broadcast_entry:
  assumes wf: "macid_wf (mac_ctl st)"
    and r: "r < length (wifi_role_usedmap (mac_ctl st))" "r' < length (wifi_role_usedmap (mac_ctl st))"
    and i: "i < max_num (mac_ctl st)" "phl_macid_is_used (wifi_role_usedmap (mac_ctl st) ! r) i"
      "wrole_bmc (mac_ctl st) ! r = i"
    and rl: "phl_release_macid (mac_ctl st) r bc_addr i = (p1, m1, mc1)"
    and addr: "addr \<noteq> bc_addr" and al: "phl_alloc_macid mc1 s (Some r') addr = (p2, Some i, mc2)"
  shows "rtw_phl_get_stainfo_by_addr (st\<lparr>mac_ctl := mc2\<rparr>) r bc_addr = Some s"
proof -
  note R = release_macid_cases [OF wf r(1) i(2,1) rl]
  have len: "r' < length (wifi_role_usedmap mc1)"
    using rl r(2) by (auto simp: release_macid_unfold drop_id_def split: if_splits)
  have bc: "is_broadcast_mac_addr bc_addr" by code_simp
  show ?thesis
  proof (cases rule: alloc_macid_cases [OF conjunct1 [OF conjunct2 [OF conjunct2 [OF R]]] len al, case_names full got])
    case full
    with R i(1) show ?thesis by simp
  next
    case (got k)
    then have k: "k = i" by simp
    with got(8) R i(1) have "rtw_phl_get_stainfo_by_macid mc2 i = Some s" by simp
    then have "mc_sta mc2 ! unat i = Some s"
      by (auto simp: rtw_phl_get_stainfo_by_macid_def Let_def split: if_splits)
    with got(10,12) k R i addr bc show ?thesis by (simp add: rtw_phl_get_stainfo_by_addr_def Let_def)
  qed
qed

theorem stale_broadcast_entry_witness:
  "\<exists>mc2. rtw_phl_get_stainfo_by_addr (demo_ctl\<lparr>mac_ctl := mc2\<rparr>) 0 bc_addr = Some 102"
proof -
  let ?st = "demo_ctl\<lparr>mac_ctl := demo_mc\<rparr>"
  have e: "mac_ctl ?st = demo_mc" by simp
  obtain p1 m1 mc1 where rl: "phl_release_macid demo_mc 0 bc_addr 0 = (p1, m1, mc1)" by (metis prod_cases3)
  obtain p2 m2 mc2 where al: "phl_alloc_macid mc1 102 (Some 1) [4, 0, 0, 0, 0, 9] = (p2, m2, mc2)"
    by (metis prod_cases3)
  have "fst (snd (phl_alloc_macid (snd (snd (phl_release_macid demo_mc 0 bc_addr 0))) 102 (Some 1) [4, 0, 0, 0, 0, 9])) = Some 0"
    by code_simp
  with rl al have m2: "m2 = Some 0" by simp
  have h: "0 < max_num demo_mc" "phl_macid_is_used (wifi_role_usedmap demo_mc ! 0) 0" "wrole_bmc demo_mc ! 0 = 0"
    "[4, 0, 0, 0, 0, 9] \<noteq> bc_addr"
    by code_simp+
  from stale_broadcast_entry [of ?st 0 1 0 p1 m1 mc1 "[4, 0, 0, 0, 0, 9]" 102 p2 mc2] demo_mc_wf h rl al m2
  show ?thesis by auto
qed

text \<open>
  An object that is still marked \<^verbatim>\<open>active\<close> when it is taken from the pool gets a macid but
  no entry in the hardware, whatever the hardware would answer, and it keeps the reorder sessions of
  its previous life. Releases never clear the mark: the release on the hardware side is compiled out.
\<close>

theorem reused_station_skips_hal:
  assumes free: "pq_queue (free_sta_queue st) = s # ss" and act: "active (stas st s)"
    and self: "rtype (wifi_roles st ! r) \<noteq> PHL_RTYPE_STATION" and new: "rtw_phl_get_stainfo_by_addr st r addr = None"
    and al: "phl_alloc_stainfo_both ok hal_ok st addr r = (RTW_PHL_STATUS_SUCCESS, t, st')"
  shows "t = Some s \<and> hal_entries st' = hal_entries st \<and> tid_rx (stas st' s) = tid_rx (stas st s) \<and>
    fst (phl_free_stainfo_hw st' t) = RTW_PHL_STATUS_FAILURE \<and> snd (phl_free_stainfo_hw st' t) = st'"
proof -
  let ?st0 = "upd_sta s (\<lambda>a. a\<lparr>mac_addr := addr, wrole := Some r\<rparr>)
      (st\<lparr>free_sta_queue := snd (phl_stainfo_dequeue (free_sta_queue st))\<rparr>)"
  obtain p st1 where al1: "phl_alloc_stainfo_sw_rsc ok ?st0 s = (p, st1)" by fastforce
  obtain m where m: "stas st1 = (stas ?st0)(s := (stas ?st0 s)\<lparr>sta_macid := m\<rparr>)"
    using alloc_rsc_frame(3) [OF al1] by blast
  have "hal_entries st1 = hal_entries st" using alloc_rsc_frame(2) [OF al1] by simp
  with m free act self new al al1 show ?thesis
    by (auto simp: phl_alloc_stainfo_both_def phl_alloc_stainfo_sw_def phl_stainfo_dequeue_def
        phl_sta_set_default_value_def phl_free_stainfo_hw_def Let_def split: if_splits)
qed

theorem reused_station_skips_hal_witness:
  "let st = upd_sta 0 (\<lambda>a. a\<lparr>active := True\<rparr>) demo_ctl
   in hal_entries (snd (snd (phl_alloc_stainfo_both True True st [4, 0, 0, 0, 0, 9] 0))) = hal_entries st"
proof -
  let ?st = "upd_sta 0 (\<lambda>a. a\<lparr>active := True\<rparr>) demo_ctl" and ?a = "[4, 0, 0, 0, 0, 9]"
  obtain p t st' where al: "phl_alloc_stainfo_both True True ?st ?a 0 = (p, t, st')" by (metis prod_cases3)
  have "fst (phl_alloc_stainfo_both True True ?st ?a 0) = RTW_PHL_STATUS_SUCCESS" by code_simp
  moreover have h: "pq_queue (free_sta_queue ?st) = 0 # [1, 2]" "active (stas ?st 0)"
    "rtype (wifi_roles ?st ! 0) \<noteq> PHL_RTYPE_STATION" "rtw_phl_get_stainfo_by_addr ?st 0 ?a = None"
    by code_simp+
  ultimately show ?thesis using reused_station_skips_hal [OF h, of True True t st'] al by (auto simp: Let_def)
qed

end
