(* ===== verification/Phl_Rx.thy ===== *)
theory Phl_Rx
  imports Phl_Sta Phl_Ring
begin

text \<open>
  The receive path of \<^verbatim>\<open>phl/phl_rx.c\<close> and \<^verbatim>\<open>phl/phl_rx_agg.c\<close>: the pool of packet
  objects, the way of a frame through the reorder session of its station to the ring the core reads,
  block ack sessions, time-outs of a station, recycling. Packet objects and USB receive buffers are
  shared between queues, so they live in stores indexed by their identity.
\<close>

section \<open>Data\<close>

type_synonym pkt_id = nat
type_synonym rxbuf_id = nat

datatype rtw_rx_type =
    RTW_RX_TYPE_WIFI | RTW_RX_TYPE_PPDU_STATUS | RTW_RX_TYPE_CHANNEL_INFO | RTW_RX_TYPE_TX_RPT
  | RTW_RX_TYPE_TX_WP_RELEASE_HOST | RTW_RX_TYPE_DFS_RPT | RTW_RX_TYPE_C2H | RTW_RX_TYPE_MAX

text \<open>The fields of the receive meta data that the path reads; one-bit fields are booleans.\<close>

record rtw_r_meta_data =
  md_ta :: bytes
  md_pktlen :: u16
  md_rx_rate :: u16
  md_amsdu_cut :: bool
  md_last_msdu :: bool
  md_frame_type :: u8
  md_mc :: bool
  md_bc :: bool
  md_more_frag :: bool
  md_pwr_bit :: bool
  md_qos :: bool
  md_tid :: u8
  md_q_null :: bool
  md_seq :: u16
  md_frag_num :: u8
  md_macid :: u16
  md_addr_cam_vld :: bool
  md_mac_addr :: bytes

text \<open>\<open>os_priv\<close>: the packet owns a netbuf. \<open>pkt_length\<close> is \<^verbatim>\<open>pkt_list[0].length\<close>.\<close>

record rtw_phl_rx_pkt =
  rx_type :: rtw_rx_type
  rxbuf_ptr :: "rxbuf_id option"
  os_priv :: bool
  mdata :: rtw_r_meta_data
  pkt_length :: u16
  rx_role :: "nat option"
  tx_sta :: "sta_id option"

record rtw_rx_buf =
  transfer_len :: u32
  pipe_idx :: u8
  pktcnt :: int

text \<open>
  The part of \<^verbatim>\<open>struct phl_info_t\<close> the receive path works on. \<open>netbufs_freed\<close> logs the
  packets whose netbuf went to \<^verbatim>\<open>_os_free_netbuf\<close>; \<open>timers\<close> are the armed reorder timers.
\<close>

record 'q phl_rx_ctl =
  rx_stas :: "(pkt_id, 'q) phl_sta_ctl"
  pkts :: "pkt_id \<Rightarrow> rtw_phl_rx_pkt"
  rx_idle :: "pkt_id list"
  idle_cnt :: u32
  phl_rx_ring :: "pkt_id rtw_phl_rx_ring"
  phl_stats :: rtw_stats
  rx_rate_nmr :: "nat \<Rightarrow> u32"
  append_fcs :: bool
  ap_ps :: bool
  rxbufs :: "rxbuf_id \<Rightarrow> rtw_rx_buf"
  idle_rxbuf_list :: "rxbuf_id phl_queue"
  busy_rxbuf_list :: "rxbuf_id phl_queue"
  pend_rxbuf_list :: "rxbuf_id phl_queue"
  evt_rx :: bool
  netbufs_freed :: "pkt_id list"
  timers :: "sta_id set"

abbreviation upd_pkt ::
  "pkt_id \<Rightarrow> (rtw_phl_rx_pkt \<Rightarrow> rtw_phl_rx_pkt) \<Rightarrow> 'q phl_rx_ctl \<Rightarrow> 'q phl_rx_ctl" where
  "upd_pkt p f st \<equiv> st\<lparr>pkts := (pkts st)(p := f (pkts st p))\<rparr>"

abbreviation upd_rxbuf ::
  "rxbuf_id \<Rightarrow> (rtw_rx_buf \<Rightarrow> rtw_rx_buf) \<Rightarrow> 'q phl_rx_ctl \<Rightarrow> 'q phl_rx_ctl" where
  "upd_rxbuf b f st \<equiv> st\<lparr>rxbufs := (rxbufs st)(b := f (rxbufs st b))\<rparr>"

definition tid_session :: "'q phl_rx_ctl \<Rightarrow> sta_id \<Rightarrow> nat \<Rightarrow> pkt_id phl_tid_ampdu_rx option" where
  "tid_session st s t = tid_rx (stas (rx_stas st) s) ! t"

definition set_session ::
  "sta_id \<Rightarrow> nat \<Rightarrow> pkt_id phl_tid_ampdu_rx option \<Rightarrow> 'q phl_rx_ctl \<Rightarrow> 'q phl_rx_ctl" where
  "set_session s t r st =
     st\<lparr>rx_stas := upd_sta s (\<lambda>a. a\<lparr>tid_rx := (tid_rx a)[t := r]\<rparr>) (rx_stas st)\<rparr>"

definition run_timer :: "sta_id \<Rightarrow> timer_action \<Rightarrow> 'q phl_rx_ctl \<Rightarrow> 'q phl_rx_ctl" where
  "run_timer s a st =
     (case a of
        Timer_set \<Rightarrow> st\<lparr>timers := insert s (timers st)\<rparr>
      | Timer_cancel \<Rightarrow> st\<lparr>timers := timers st - {s}\<rparr>
      | Timer_keep \<Rightarrow> st)"

section \<open>The pool of packet objects\<close>

abbreviation MAX_PHL_RING_RX_PKT_NUM :: nat where "MAX_PHL_RING_RX_PKT_NUM \<equiv> 8192"

definition meta_zero :: rtw_r_meta_data where
  "meta_zero =
     \<lparr>md_ta = replicate 6 0, md_pktlen = 0, md_rx_rate = 0, md_amsdu_cut = False, md_last_msdu = False,
      md_frame_type = 0, md_mc = False, md_bc = False, md_more_frag = False, md_pwr_bit = False,
      md_qos = False, md_tid = 0, md_q_null = False, md_seq = 0, md_frag_num = 0, md_macid = 0,
      md_addr_cam_vld = False, md_mac_addr = replicate 6 0\<rparr>"

definition pkt_zero :: "rtw_rx_type \<Rightarrow> rtw_phl_rx_pkt" where
  "pkt_zero ty =
     \<lparr>rx_type = ty, rxbuf_ptr = None, os_priv = False, mdata = meta_zero, pkt_length = 0,
      rx_role = None, tx_sta = None\<rparr>"

definition rtw_phl_query_phl_rx :: "'q phl_rx_ctl \<Rightarrow> pkt_id option \<times> 'q phl_rx_ctl" where
  "rtw_phl_query_phl_rx st =
     (case rx_idle st of
        [] \<Rightarrow> (None, st)
      | p # ps \<Rightarrow> (Some p, st\<lparr>rx_idle := ps, idle_cnt := idle_cnt st - 1\<rparr>))"

definition rtw_phl_is_phl_rx_idle :: "'q phl_rx_ctl \<Rightarrow> bool" where
  "rtw_phl_is_phl_rx_idle st = (if of_nat MAX_PHL_RING_RX_PKT_NUM = idle_cnt st then True else False)"

definition phl_release_phl_rx :: "'q phl_rx_ctl \<Rightarrow> pkt_id \<Rightarrow> 'q phl_rx_ctl" where
  "phl_release_phl_rx st p =
     st\<lparr>pkts := (pkts st)(p := pkt_zero RTW_RX_TYPE_MAX), rx_idle := rx_idle st @ [p],
        idle_cnt := idle_cnt st + 1\<rparr>"

text \<open>The loop over the objects of the pool; the memory is zeroed first.\<close>

definition phl_alloc_recv_pkt_pool :: "bool \<Rightarrow> 'q phl_rx_ctl \<Rightarrow> rtw_phl_status \<times> 'q phl_rx_ctl" where
  "phl_alloc_recv_pkt_pool mem_ok st =
     (if \<not> mem_ok then (RTW_PHL_STATUS_FAILURE, st)
      else
        (RTW_PHL_STATUS_SUCCESS,
         fold (\<lambda>i st. st\<lparr>rx_idle := rx_idle st @ [i], idle_cnt := idle_cnt st + 1\<rparr>) [0..<MAX_PHL_RING_RX_PKT_NUM]
           (st\<lparr>pkts := (\<lambda>_. pkt_zero RTW_RX_TYPE_WIFI), rx_idle := [], idle_cnt := 0\<rparr>)))"

definition phl_rx_init :: "bool \<Rightarrow> 'q phl_rx_ctl \<Rightarrow> rtw_phl_status \<times> 'q phl_rx_ctl" where
  "phl_rx_init mem_ok st =
     (case phl_alloc_recv_pkt_pool mem_ok st of
        (status, st) \<Rightarrow>
          if status \<noteq> RTW_PHL_STATUS_SUCCESS then (status, st) else (RTW_PHL_STATUS_SUCCESS, st))"

section \<open>Recycling\<close>

text \<open>
  \<^verbatim>\<open>phl_release_rxbuf_usb\<close>, the \<^verbatim>\<open>recycle_rx_buf\<close> of the bus: one packet less refers to
  the buffer; with the last one it becomes idle.
\<close>

definition phl_release_rxbuf_usb :: "'q phl_rx_ctl \<Rightarrow> rxbuf_id \<Rightarrow> rtw_phl_status \<times> 'q phl_rx_ctl" where
  "phl_release_rxbuf_usb st b =
     (let st = (if pktcnt (rxbufs st b) \<noteq> 0 then upd_rxbuf b (\<lambda>a. a\<lparr>pktcnt := pktcnt a - 1\<rparr>) st else st) in
      if pktcnt (rxbufs st b) = 0 then
        (RTW_PHL_STATUS_SUCCESS, st\<lparr>idle_rxbuf_list := snd (pq_push (idle_rxbuf_list st) b Pos_tail)\<rparr>)
      else (RTW_PHL_STATUS_SUCCESS, st))"

definition phl_recycle_rx_buf :: "'q phl_rx_ctl \<Rightarrow> pkt_id \<Rightarrow> 'q phl_rx_ctl" where
  "phl_recycle_rx_buf st p =
     (let st = (case rxbuf_ptr (pkts st p) of None \<Rightarrow> st | Some b \<Rightarrow> snd (phl_release_rxbuf_usb st b))
      in phl_release_phl_rx st p)"

text \<open>The \<^verbatim>\<open>recycle_rx_pkt\<close> of the bus.\<close>

definition phl_recycle_rx_pkt_usb :: "'q phl_rx_ctl \<Rightarrow> pkt_id \<Rightarrow> 'q phl_rx_ctl" where
  "phl_recycle_rx_pkt_usb st p =
     (let st = (if os_priv (pkts st p) then st\<lparr>netbufs_freed := netbufs_freed st @ [p]\<rparr> else st)
      in phl_recycle_rx_buf st p)"

definition rtw_phl_return_rxbuf :: "'q phl_rx_ctl \<Rightarrow> pkt_id option \<Rightarrow> rtw_phl_status \<times> 'q phl_rx_ctl" where
  "rtw_phl_return_rxbuf st recvpkt =
     (case recvpkt of
        None \<Rightarrow> (RTW_PHL_STATUS_FAILURE, st)
      | Some p \<Rightarrow> (RTW_PHL_STATUS_SUCCESS, phl_recycle_rx_buf st p))"

section \<open>Delivery to the core\<close>

definition phl_indic_new_rxpkt :: "'q phl_rx_ctl \<Rightarrow> 'q phl_rx_ctl" where
  "phl_indic_new_rxpkt st = st\<lparr>evt_rx := True\<rparr>"

definition phl_rx_statistics :: "u32 \<Rightarrow> 'q phl_rx_ctl \<Rightarrow> rtw_r_meta_data \<Rightarrow> 'q phl_rx_ctl" where
  "phl_rx_statistics cur_time st m =
     (let upd = phl_update_rx_stats cur_time (md_pktlen m) (md_bc m) (md_mc m);
          mc = mac_ctl (rx_stas st);
          st = (if md_macid m \<ge> max_num mc then st
                else case rtw_phl_get_stainfo_by_macid mc (md_macid m) of
                  None \<Rightarrow> st
                | Some s \<Rightarrow> st\<lparr>rx_stas := upd_sta s (\<lambda>a. a\<lparr>sta_stats := upd (sta_stats a)\<rparr>) (rx_stas st)\<rparr>)
      in st\<lparr>phl_stats := upd (phl_stats st)\<rparr>)"

definition rtw_phl_query_rx_pkt :: "u32 \<Rightarrow> 'q phl_rx_ctl \<Rightarrow> pkt_id option \<times> 'q phl_rx_ctl" where
  "rtw_phl_query_rx_pkt cur_time st =
     (case query_rx_ring (phl_rx_ring st) of
        (recvpkt, ring) \<Rightarrow>
          let st = st\<lparr>phl_rx_ring := ring\<rparr> in
          (recvpkt, case recvpkt of None \<Rightarrow> st | Some p \<Rightarrow> phl_rx_statistics cur_time st (mdata (pkts st p))))"

definition handle_rx_frame :: "'q phl_rx_ctl \<Rightarrow> pkt_id \<Rightarrow> 'q phl_rx_ctl" where
  "handle_rx_frame st p =
     (case phl_add_rx_pkt (phl_rx_ring st) p of
        (status, ring) \<Rightarrow>
          let st = st\<lparr>phl_rx_ring := ring\<rparr> in
          if status = RTW_PHL_STATUS_RESOURCE then phl_recycle_rx_pkt_usb st p else st)"

definition phl_handle_rx_frame_list :: "'q phl_rx_ctl \<Rightarrow> pkt_id list \<Rightarrow> 'q phl_rx_ctl" where
  "phl_handle_rx_frame_list st frames = phl_indic_new_rxpkt (foldl handle_rx_frame st frames)"

text \<open>
  \<^verbatim>\<open>phl_event_indicator\<close>; \<open>rx_process\<close> is the callback of the core, and \<open>None\<close>
  when it registered none.
\<close>

definition phl_event_indicator :: "('q phl_rx_ctl \<Rightarrow> 'q phl_rx_ctl) option \<Rightarrow> 'q phl_rx_ctl \<Rightarrow> 'q phl_rx_ctl" where
  "phl_event_indicator rx_process st =
     (if evt_rx st then
        let st = (case rx_process of None \<Rightarrow> st | Some f \<Rightarrow> f st)
        in st\<lparr>evt_rx := False\<rparr>
      else st)"

definition phl_rx_watchdog :: "'q phl_rx_ctl \<Rightarrow> 'q phl_rx_ctl" where
  "phl_rx_watchdog st = st\<lparr>phl_stats := phl_rx_traffic_upd (phl_stats st)\<rparr>"

section \<open>Power save of the stations of an access point\<close>

text \<open>The station of a received frame, and the roles of \<^verbatim>\<open>ap_ps_sta_ps_change\<close> events.\<close>

definition phl_rx_handle_sta_process :: "'q phl_rx_ctl \<Rightarrow> pkt_id \<Rightarrow> (nat \<times> bytes \<times> bool) option \<times> 'q phl_rx_ctl" where
  "phl_rx_handle_sta_process st p =
     (if \<not> ap_ps st then (None, st)
      else
        let m = mdata (pkts st p);
            ctl = rx_stas st;
            sta = (if md_addr_cam_vld m then rtw_phl_get_stainfo_by_macid (mac_ctl ctl) (md_macid m) else None);
            (role, sta) =
              (case sta of
                 Some s \<Rightarrow> (wrole (stas ctl s), sta)
               | None \<Rightarrow>
                   (case phl_get_wrole_by_addr ctl (md_mac_addr m) of
                      None \<Rightarrow> (None, None)
                    | Some r \<Rightarrow> (Some r, rtw_phl_get_stainfo_by_addr ctl r (md_ta m))))
        in
        case (role, sta) of
          (Some r, Some s) \<Rightarrow>
            let st = upd_pkt p (\<lambda>a. a\<lparr>tx_sta := Some s, rx_role := Some r\<rparr>) st;
                ty = rtype (wifi_roles ctl ! r);
                ps = ps_sta (stas ctl s) \<noteq> 0
            in
            if \<not> md_more_frag m \<and> (md_frame_type m = 2 \<or> md_frame_type m = 1) \<and>
               (ty = PHL_RTYPE_AP \<or> ty = PHL_RTYPE_P2P_GO) \<and> ps \<noteq> md_pwr_bit m
            then (Some (r, mac_addr (stas ctl s), md_pwr_bit m),
                  st\<lparr>rx_stas := upd_sta s (\<lambda>a. a\<lparr>ps_sta := if md_pwr_bit m then 1 else 0\<rparr>) (rx_stas st)\<rparr>)
            else (None, st)
        | _ \<Rightarrow> (None, st))"

section \<open>Reordering\<close>

text \<open>The station of a frame: by macid when the address CAM matched, else by the two addresses.\<close>

definition rx_reorder_sta :: "(pkt_id, 'q) phl_sta_ctl \<Rightarrow> rtw_r_meta_data \<Rightarrow> sta_id option" where
  "rx_reorder_sta ctl m =
     (let sta = (if md_addr_cam_vld m then rtw_phl_get_stainfo_by_macid (mac_ctl ctl) (md_macid m) else None) in
      if (case sta of None \<Rightarrow> True | Some s \<Rightarrow> wrole (stas ctl s) = None) then
        (case phl_get_wrole_by_addr ctl (md_mac_addr m) of
           None \<Rightarrow> None
         | Some r \<Rightarrow> rtw_phl_get_stainfo_by_addr ctl r (md_ta m))
      else sta)"

text \<open>
  The rest of \<^verbatim>\<open>phl_rx_reorder\<close> once the station is known. \<open>t1\<close> and \<open>t2\<close> are the
  clock readings of the reorder engine. What the engine gives back is the frame itself, as too old or
  already there; the receive counters of the hardware station are not part of the state.
\<close>

definition rx_reorder_station ::
  "u32 \<Rightarrow> u32 \<Rightarrow> 'q phl_rx_ctl \<Rightarrow> pkt_id \<Rightarrow> sta_id \<Rightarrow> rtw_phl_status \<times> pkt_id list \<times> 'q phl_rx_ctl" where
  "rx_reorder_station t1 t2 st p s =
     (let m = mdata (pkts st p);
          st = upd_pkt p (\<lambda>a. a\<lparr>tx_sta := Some s, rx_role := wrole (stas (rx_stas st) s)\<rparr>) st
      in
      if unat (md_tid m) \<ge> length (tid_rx (stas (rx_stas st) s)) then
        (RTW_PHL_STATUS_FAILURE, [], phl_recycle_rx_pkt_usb st p)
      else
        case tid_session st s (unat (md_tid m)) of
          None \<Rightarrow> (RTW_PHL_STATUS_SUCCESS, [p], st)
        | Some r \<Rightarrow>
            let res = phl_manage_sta_reorder_buf t1 t2 (md_seq m) p r [];
                st = run_timer s (rr_timer res) (set_session s (unat (md_tid m)) (Some (rr_ring res)) st);
                st = foldl phl_recycle_rx_pkt_usb st (rr_recycled res)
            in (RTW_PHL_STATUS_SUCCESS, rr_frames res @ (if rr_taken res then [] else [p]), st))"

definition phl_rx_reorder ::
  "u32 \<Rightarrow> u32 \<Rightarrow> 'q phl_rx_ctl \<Rightarrow> pkt_id \<Rightarrow> rtw_phl_status \<times> pkt_id list \<times> 'q phl_rx_ctl" where
  "phl_rx_reorder t1 t2 st p =
     (let m = mdata (pkts st p);
          cut = append_fcs st \<and> \<not> (md_amsdu_cut m \<and> \<not> md_last_msdu m)
      in
      if cut \<and> pkt_length (pkts st p) \<le> 4 then (RTW_PHL_STATUS_FAILURE, [], phl_recycle_rx_pkt_usb st p)
      else
        let st = (if cut then upd_pkt p (\<lambda>a. a\<lparr>pkt_length := pkt_length a - 4\<rparr>) st else st) in
        if md_bc m \<or> md_mc m then (RTW_PHL_STATUS_SUCCESS, [p], st)
        else if \<not> md_qos m then (RTW_PHL_STATUS_SUCCESS, [p], st)
        else if md_q_null m then (RTW_PHL_STATUS_SUCCESS, [p], st)
        else if md_more_frag m \<or> md_frag_num m \<noteq> 0 then (RTW_PHL_STATUS_SUCCESS, [p], st)
        else
          case rx_reorder_sta (rx_stas st) m of
            None \<Rightarrow> (RTW_PHL_STATUS_SUCCESS, [p], st)
          | Some s \<Rightarrow> rx_reorder_station t1 t2 st p s)"

abbreviation RTW_DATA_RATE_HE_NSS4_MCS11 :: u16 where "RTW_DATA_RATE_HE_NSS4_MCS11 \<equiv> 0x1BB"

definition phl_rx_handle_normal :: "u32 \<Rightarrow> u32 \<Rightarrow> 'q phl_rx_ctl \<Rightarrow> pkt_id \<Rightarrow> 'q phl_rx_ctl" where
  "phl_rx_handle_normal t1 t2 st p =
     (let rate = md_rx_rate (mdata (pkts st p));
          st = (if rate \<le> RTW_DATA_RATE_HE_NSS4_MCS11
                then st\<lparr>rx_rate_nmr := (rx_rate_nmr st)(unat rate := rx_rate_nmr st (unat rate) + 1)\<rparr> else st)
      in case phl_rx_reorder t1 t2 st p of
           (pstatus, frames, st) \<Rightarrow>
             if pstatus = RTW_PHL_STATUS_SUCCESS then phl_handle_rx_frame_list st frames else st)"

text \<open>
  The reorder timer of a station: every session is given the chance to release. \<open>now i\<close> is the
  clock when the loop reaches session \<open>i\<close>.
\<close>

definition reorder_timer_tid :: "(nat \<Rightarrow> u32) \<Rightarrow> sta_id \<Rightarrow> 'q phl_rx_ctl \<Rightarrow> nat \<Rightarrow> 'q phl_rx_ctl" where
  "reorder_timer_tid now s st i =
     (case tid_session st s i of
        None \<Rightarrow> phl_handle_rx_frame_list st []
      | Some r \<Rightarrow>
          (case phl_reorder_release (now i) r [] of
             (r', frames, recycled, timer) \<Rightarrow>
               let st = run_timer s timer (set_session s i (Some r') st);
                   st = foldl phl_recycle_rx_buf st recycled
               in phl_handle_rx_frame_list st frames))"

definition phl_sta_rx_reorder_timer_expired :: "(nat \<Rightarrow> u32) \<Rightarrow> 'q phl_rx_ctl \<Rightarrow> sta_id \<Rightarrow> 'q phl_rx_ctl" where
  "phl_sta_rx_reorder_timer_expired now st s =
     foldl (reorder_timer_tid now s) st [0..<length (tid_rx (stas (rx_stas st) s))]"

text \<open>
  A block ack request; \<open>None\<close> when \<open>tid\<close> is outside of the array, which the code does not
  check.
\<close>

definition rtw_phl_rx_bar :: "'q phl_rx_ctl \<Rightarrow> sta_id \<Rightarrow> u8 \<Rightarrow> u16 \<Rightarrow> 'q phl_rx_ctl option" where
  "rtw_phl_rx_bar st s t sq =
     (if unat t \<ge> length (tid_rx (stas (rx_stas st) s)) then None
      else
        Some (case tid_session st s (unat t) of
                None \<Rightarrow> st
              | Some r \<Rightarrow>
                  if seq_less sq (head_seq_num r) then st
                  else
                    case rx_bar_session r sq of
                      (r', frames) \<Rightarrow>
                        phl_handle_rx_frame_list (set_session s (unat t) (Some r') st) frames))"

section \<open>Block ack sessions\<close>

abbreviation PHL_MAX_AGG_WSIZE :: u16 where "PHL_MAX_AGG_WSIZE \<equiv> 32"

text \<open>The packets a session still stores are recycled.\<close>

definition phl_tid_ampdu_rx_free :: "'q phl_rx_ctl \<Rightarrow> pkt_id phl_tid_ampdu_rx option \<Rightarrow> 'q phl_rx_ctl" where
  "phl_tid_ampdu_rx_free st r =
     (case r of
        None \<Rightarrow> st
      | Some r \<Rightarrow> foldl phl_recycle_rx_pkt_usb st (List.map_filter (reorder_slot r) [0..<unat (buf_size r)]))"

text \<open>The three allocations may fail; the session starts at the negotiated sequence number.\<close>

definition phl_tid_ampdu_rx_alloc ::
  "bool \<Rightarrow> bool \<Rightarrow> bool \<Rightarrow> u16 \<Rightarrow> u16 \<Rightarrow> u16 \<Rightarrow> 'p phl_tid_ampdu_rx option" where
  "phl_tid_ampdu_rx_alloc r_ok buf_ok time_ok start_sn t bsize =
     (if \<not> r_ok then None
      else if \<not> buf_ok then None
      else if \<not> time_ok then None
      else
        Some \<lparr>reorder_buf = replicate (unat bsize) None, reorder_time = replicate (unat bsize) 0,
              head_seq_num = start_sn, stored_mpdu_num = 0, ssn = start_sn, buf_size = bsize, ba_tid = t,
              started = False, removed = False\<rparr>)"

text \<open>\<open>None\<close> when \<open>tid\<close> is outside of the array, which the code does not check.\<close>

definition rtw_phl_start_rx_ba_session ::
  "bool \<times> bool \<times> bool \<Rightarrow> 'q phl_rx_ctl \<Rightarrow> sta_id \<Rightarrow> u16 \<Rightarrow> u16 \<Rightarrow> u16 \<Rightarrow> u16 \<Rightarrow>
   (rtw_phl_status \<times> 'q phl_rx_ctl) option" where
  "rtw_phl_start_rx_ba_session mem st s start_seq_num ba_policy t bsize =
     (case mem of
        (r_ok, buf_ok, time_ok) \<Rightarrow>
          if ba_policy \<noteq> 0 then Some (RTW_PHL_STATUS_FAILURE, st)
          else
            let bsize = (if bsize = 0 then PHL_MAX_AGG_WSIZE else bsize) in
            (case phl_tid_ampdu_rx_alloc r_ok buf_ok time_ok start_seq_num t bsize of
               None \<Rightarrow> Some (RTW_PHL_STATUS_RESOURCE, st)
             | Some r \<Rightarrow>
                 if unat t \<ge> length (tid_rx (stas (rx_stas st) s)) then None
                 else
                   let st = phl_tid_ampdu_rx_free st (tid_session st s (unat t))
                   in Some (RTW_PHL_STATUS_SUCCESS, set_session s (unat t) (Some r) st)))"

definition rtw_phl_stop_rx_ba_session :: "'q phl_rx_ctl \<Rightarrow> sta_id option \<Rightarrow> u16 \<Rightarrow> 'q phl_rx_ctl" where
  "rtw_phl_stop_rx_ba_session st sta t =
     (case sta of
        None \<Rightarrow> st
      | Some s \<Rightarrow>
          if unat t \<ge> length (tid_rx (stas (rx_stas st) s)) then st
          else
            (case tid_session st s (unat t) of
               None \<Rightarrow> st
             | Some r \<Rightarrow> phl_tid_ampdu_rx_free (set_session s (unat t) None st) (Some (r\<lparr>removed := True\<rparr>))))"

definition free_reorder_tid :: "sta_id \<Rightarrow> 'q phl_rx_ctl \<Rightarrow> nat \<Rightarrow> 'q phl_rx_ctl" where
  "free_reorder_tid s st i =
     (case tid_session st s i of
        None \<Rightarrow> st
      | Some r \<Rightarrow> set_session s i None (phl_tid_ampdu_rx_free st (Some r)))"

text \<open>All sessions are marked, the timer is cancelled, then the sessions are freed.\<close>

definition phl_free_rx_reorder :: "'q phl_rx_ctl \<Rightarrow> sta_id \<Rightarrow> 'q phl_rx_ctl" where
  "phl_free_rx_reorder st s =
     (let st = st\<lparr>rx_stas := upd_sta s (\<lambda>a. a\<lparr>tid_rx := map (map_option (\<lambda>r. r\<lparr>removed := True\<rparr>)) (tid_rx a)\<rparr>) (rx_stas st)\<rparr>;
          st = st\<lparr>timers := timers st - {s}\<rparr>
      in foldl (free_reorder_tid s) st [0..<length (tid_rx (stas (rx_stas st) s))])"

section \<open>Where the packets are\<close>

text \<open>
  A packet object is on the idle list, in the ring to the core, stored by a reorder session, or held
  by somebody: the bus while it handles the packet, or the core until it returns it.
\<close>

definition sess_pkts :: "pkt_id phl_tid_ampdu_rx option \<Rightarrow> pkt_id multiset" where
  "sess_pkts x = (case x of None \<Rightarrow> {#} | Some r \<Rightarrow> mset (somes (window r)))"

definition stored_pkts :: "'q phl_rx_ctl \<Rightarrow> pkt_id multiset" where
  "stored_pkts st = (\<Sum>(s, t) \<in> {..<PHL_MAX_STA_NUM} \<times> {..<8}. sess_pkts (tid_session st s t))"

definition pkt_places :: "'q phl_rx_ctl \<Rightarrow> pkt_id multiset" where
  "pkt_places st = mset (rx_idle st) + mset (rx_ring_contents (phl_rx_ring st)) + stored_pkts st"

text \<open>Stations that a lookup finds are objects of the pool.\<close>

definition stas_in_pool :: "(pkt_id, 'q) phl_sta_ctl \<Rightarrow> bool" where
  "stas_in_pool ctl \<longleftrightarrow>
     (\<forall>m s. rtw_phl_get_stainfo_by_macid (mac_ctl ctl) m = Some s \<longrightarrow> s < PHL_MAX_STA_NUM) \<and>
     (\<forall>r < length (wifi_roles ctl). \<forall>addr s.
        rtw_phl_get_stainfo_by_addr ctl r addr = Some s \<longrightarrow> s < PHL_MAX_STA_NUM)"

abbreviation pkt_seq :: "'q phl_rx_ctl \<Rightarrow> pkt_id \<Rightarrow> u16" where
  "pkt_seq st p \<equiv> md_seq (mdata (pkts st p))"

definition sessions_wf :: "'q phl_rx_ctl \<Rightarrow> bool" where
  "sessions_wf st \<longleftrightarrow>
     (\<forall>s < PHL_MAX_STA_NUM. length (tid_rx (stas (rx_stas st) s)) = 8 \<and>
        (\<forall>t < 8. \<forall>r. tid_session st s t = Some r \<longrightarrow> reorder_wf (pkt_seq st) r))"

definition rx_wf :: "'q phl_rx_ctl \<Rightarrow> pkt_id multiset \<Rightarrow> bool" where
  "rx_wf st held \<longleftrightarrow>
     rx_ring_wf (phl_rx_ring st) \<and> idle_cnt st = of_nat (length (rx_idle st)) \<and> sessions_wf st \<and>
     stas_in_pool (rx_stas st) \<and>
     pkt_places st + held = mset_set {..<MAX_PHL_RING_RX_PKT_NUM}"

lemma rx_wfD:
  assumes "rx_wf st held"
  shows "rx_ring_wf (phl_rx_ring st)" "idle_cnt st = of_nat (length (rx_idle st))" "sessions_wf st"
    "stas_in_pool (rx_stas st)" "pkt_places st + held = mset_set {..<MAX_PHL_RING_RX_PKT_NUM}"
  using assms by (simp_all add: rx_wf_def)

text \<open>A held packet is nowhere else.\<close>

lemma held_not_placed:
  assumes "rx_wf st (add_mset p held)"
  shows "p \<notin># pkt_places st" "p \<notin># held" "p < MAX_PHL_RING_RX_PKT_NUM"
proof -
  have e: "add_mset p (pkt_places st + held) = mset_set {..<MAX_PHL_RING_RX_PKT_NUM}"
    using rx_wfD(5) [OF assms] by simp
  then have "count (mset_set {..<MAX_PHL_RING_RX_PKT_NUM}) p = Suc (count (pkt_places st + held) p)"
    by (metis count_add_mset)
  moreover have "count (mset_set {..<MAX_PHL_RING_RX_PKT_NUM}) p \<le> 1"
    by (cases "p < MAX_PHL_RING_RX_PKT_NUM") simp_all
  ultimately have "count (pkt_places st + held) p = 0" by linarith
  then show "p \<notin># pkt_places st" "p \<notin># held" by (simp_all add: not_in_iff)
  have "p \<in># mset_set {..<MAX_PHL_RING_RX_PKT_NUM}" using e by (metis multi_member_this add_mset_add_single union_commute)
  then show "p < MAX_PHL_RING_RX_PKT_NUM" by simp
qed

lemma stored_in_places:
  assumes "s < PHL_MAX_STA_NUM" and "t < 8" and "tid_session st s t = Some r" and "p \<in> set (somes (window r))"
  shows "p \<in># pkt_places st"
proof -
  have "sess_pkts (tid_session st s t) \<subseteq># stored_pkts st"
    unfolding stored_pkts_def
    using assms(1,2) by (subst sum.remove [of _ "(s, t)"]) auto
  moreover have "p \<in># sess_pkts (tid_session st s t)" using assms(3,4) by (simp add: sess_pkts_def)
  ultimately show ?thesis by (auto simp: pkt_places_def dest: mset_subset_eqD)
qed

section \<open>Sessions\<close>

lemma tid_session_set [simp]:
  "tid_session (set_session s t x st) s' t' =
     (if s' = s \<and> t' = t \<and> t < length (tid_rx (stas (rx_stas st) s)) then x else tid_session st s' t')"
  by (auto simp: tid_session_def set_session_def nth_list_update list_update_beyond)

lemma set_session_frame [simp]:
  "pkts (set_session s t x st) = pkts st" "rx_idle (set_session s t x st) = rx_idle st"
  "idle_cnt (set_session s t x st) = idle_cnt st" "phl_rx_ring (set_session s t x st) = phl_rx_ring st"
  "mac_ctl (rx_stas (set_session s t x st)) = mac_ctl (rx_stas st)"
  "wifi_roles (rx_stas (set_session s t x st)) = wifi_roles (rx_stas st)"
  "mac_addr (stas (rx_stas (set_session s t x st)) u) = mac_addr (stas (rx_stas st) u)"
  "length (tid_rx (stas (rx_stas (set_session s t x st)) u)) = length (tid_rx (stas (rx_stas st) u))"
  by (auto simp: set_session_def)

lemma stored_set_session:
  assumes "s < PHL_MAX_STA_NUM" and "t < 8" and "length (tid_rx (stas (rx_stas st) s)) = 8"
  shows "stored_pkts (set_session s t x st) + sess_pkts (tid_session st s t) = stored_pkts st + sess_pkts x"
proof -
  let ?A = "{..<PHL_MAX_STA_NUM} \<times> {..<8 :: nat}"
  have m: "(s, t) \<in> ?A" using assms by simp
  have rest: "(\<Sum>(s', t') \<in> ?A - {(s, t)}. sess_pkts (tid_session (set_session s t x st) s' t')) =
      (\<Sum>(s', t') \<in> ?A - {(s, t)}. sess_pkts (tid_session st s' t'))"
    by (rule sum.cong) (auto split: if_splits)
  show ?thesis unfolding stored_pkts_def
    by (subst (1 2) sum.remove [OF _ m]) (use rest assms in \<open>simp_all add: union_ac\<close>)
qed

text \<open>A lookup reads addresses, roles and the macid table only.\<close>

lemma stas_in_pool_cong:
  assumes "mac_ctl ctl' = mac_ctl ctl" and "wifi_roles ctl' = wifi_roles ctl"
    and "\<And>s. mac_addr (stas ctl' s) = mac_addr (stas ctl s)"
  shows "stas_in_pool ctl' = stas_in_pool ctl"
  using assms by (simp add: stas_in_pool_def rtw_phl_get_stainfo_by_addr_def phl_stainfo_queue_search_def Let_def)

lemma reorder_wf_cong:
  assumes "reorder_wf sq r" and "\<And>p. p \<in> set (somes (window r)) \<Longrightarrow> sq' p = sq p"
  shows "reorder_wf sq' r"
proof -
  have "p \<in> set (somes (window r))" if "k < unat (buf_size r)" "window r ! k = Some p" for k p
  proof -
    have "Some p \<in> set (window r)" using that by (metis length_window nth_mem)
    then show ?thesis by (auto simp: somes_def List.map_filter_def intro!: image_eqI [of _ _ "Some p"])
  qed
  with assms show ?thesis unfolding reorder_wf_def by metis
qed

text \<open>A step that changes neither queues nor sessions, and the packets only where they are held.\<close>

lemma rx_wf_frame:
  assumes wf: "rx_wf st held"
    and same: "phl_rx_ring st' = phl_rx_ring st" "rx_idle st' = rx_idle st" "idle_cnt st' = idle_cnt st"
      "\<And>s. tid_rx (stas (rx_stas st') s) = tid_rx (stas (rx_stas st) s)" "stas_in_pool (rx_stas st')"
      "\<And>p. p \<in># pkt_places st \<Longrightarrow> pkt_seq st' p = pkt_seq st p"
  shows "rx_wf st' held"
proof -
  have ts: "tid_session st' = tid_session st" using same(4) by (simp add: tid_session_def fun_eq_iff)
  have pl: "pkt_places st' = pkt_places st" using same ts by (simp add: pkt_places_def stored_pkts_def)
  have "reorder_wf (pkt_seq st') r" if "s < PHL_MAX_STA_NUM" "t < 8" "tid_session st s t = Some r" for s t r
  proof (rule reorder_wf_cong)
    show "reorder_wf (pkt_seq st) r" using rx_wfD(3) [OF wf] that by (simp add: sessions_wf_def)
    show "pkt_seq st' p = pkt_seq st p" if "p \<in> set (somes (window r))" for p
      by (rule same(6), rule stored_in_places) fact+
  qed
  moreover have "length (tid_rx (stas (rx_stas st') s)) = 8" if "s < PHL_MAX_STA_NUM" for s
    using rx_wfD(3) [OF wf] that by (simp add: same(4) sessions_wf_def)
  ultimately have "sessions_wf st'" unfolding sessions_wf_def ts by blast
  then show ?thesis using wf unfolding rx_wf_def pl same(1-3) using same(5) by blast
qed

section \<open>Recycling gives a held packet back\<close>

lemma release_phl_rx_wf:
  assumes wf: "rx_wf st (add_mset p held)"
  shows "rx_wf (phl_release_phl_rx st p) held"
proof -
  let ?st = "st\<lparr>pkts := (pkts st)(p := pkt_zero RTW_RX_TYPE_MAX)\<rparr>"
  have "rx_wf ?st (add_mset p held)"
    by (rule rx_wf_frame [OF wf]) (use rx_wfD(4) [OF wf] held_not_placed(1) [OF wf] in auto)
  moreover have "tid_session (phl_release_phl_rx st p) = tid_session ?st"
    by (simp add: phl_release_phl_rx_def tid_session_def fun_eq_iff)
  ultimately show ?thesis
    by (simp add: rx_wf_def phl_release_phl_rx_def pkt_places_def stored_pkts_def sessions_wf_def)
qed

lemma release_rxbuf_frame [simp]:
  "phl_rx_ring (snd (phl_release_rxbuf_usb st b)) = phl_rx_ring st"
  "rx_idle (snd (phl_release_rxbuf_usb st b)) = rx_idle st"
  "idle_cnt (snd (phl_release_rxbuf_usb st b)) = idle_cnt st"
  "rx_stas (snd (phl_release_rxbuf_usb st b)) = rx_stas st"
  "pkts (snd (phl_release_rxbuf_usb st b)) = pkts st"
  by (simp_all add: phl_release_rxbuf_usb_def Let_def)

lemma recycle_rx_buf_wf:
  assumes "rx_wf st (add_mset p held)"
  shows "rx_wf (phl_recycle_rx_buf st p) held"
proof -
  have "rx_wf (snd (phl_release_rxbuf_usb st b)) (add_mset p held)" for b
    by (rule rx_wf_frame [OF assms]) (use rx_wfD(4) [OF assms] in simp_all)
  with assms show ?thesis
    by (auto simp: phl_recycle_rx_buf_def Let_def intro!: release_phl_rx_wf split: option.splits)
qed

lemma recycle_rx_pkt_wf:
  assumes "rx_wf st (add_mset p held)"
  shows "rx_wf (phl_recycle_rx_pkt_usb st p) held"
proof -
  have "rx_wf (st\<lparr>netbufs_freed := x\<rparr>) (add_mset p held)" for x
    by (rule rx_wf_frame [OF assms]) (use rx_wfD(4) [OF assms] in simp_all)
  with assms show ?thesis
    by (auto simp: phl_recycle_rx_pkt_usb_def Let_def intro!: recycle_rx_buf_wf)
qed

text \<open>An operation that takes held packets is done for a whole list of them.\<close>

lemma foldl_held:
  assumes "\<And>st p held. rx_wf st (add_mset p held) \<Longrightarrow> rx_wf (f st p) held" and "rx_wf st (mset ps + held)"
  shows "rx_wf (foldl f st ps) held"
  using assms(2)
proof (induction ps arbitrary: st)
  case (Cons p ps)
  from Cons.prems have "rx_wf st (add_mset p (mset ps + held))" by simp
  from Cons.IH [OF assms(1) [OF this]] show ?case by simp
qed simp

lemma recycle_pkts_wf:
  assumes "rx_wf st (mset ps + held)"
  shows "rx_wf (foldl phl_recycle_rx_pkt_usb st ps) held"
  using recycle_rx_pkt_wf assms by (rule foldl_held)

lemma recycle_bufs_wf:
  assumes "rx_wf st (mset ps + held)"
  shows "rx_wf (foldl phl_recycle_rx_buf st ps) held"
  using recycle_rx_buf_wf assms by (rule foldl_held)

section \<open>Delivery\<close>

lemma handle_rx_frame_wf:
  assumes wf: "rx_wf st (add_mset p held)"
  shows "rx_wf (handle_rx_frame st p) held"
proof (cases "length (rx_ring_contents (phl_rx_ring st)) < 4095")
  case True
  from rx_add_room [OF rx_wfD(1) [OF wf] True, of p] obtain ring' where
    r: "phl_add_rx_pkt (phl_rx_ring st) p = (RTW_PHL_STATUS_FAILURE, ring')" "rx_ring_wf ring'"
      "rx_ring_contents ring' = rx_ring_contents (phl_rx_ring st) @ [p]" by blast
  have "tid_session (st\<lparr>phl_rx_ring := ring'\<rparr>) = tid_session st" by (simp add: tid_session_def fun_eq_iff)
  with wf r show ?thesis
    by (simp add: rx_wf_def handle_rx_frame_def pkt_places_def stored_pkts_def sessions_wf_def)
next
  case False
  with rx_contents_le [OF rx_wfD(1) [OF wf]] have "length (rx_ring_contents (phl_rx_ring st)) = 4095" by simp
  from rx_add_full [OF rx_wfD(1) [OF wf] this] recycle_rx_pkt_wf [OF wf] show ?thesis
    by (simp add: handle_rx_frame_def)
qed

lemma handle_rx_frame_list_wf:
  assumes "rx_wf st (mset frames + held)"
  shows "rx_wf (phl_handle_rx_frame_list st frames) held"
proof -
  have wf: "rx_wf (foldl handle_rx_frame st frames) held"
    by (rule foldl_held [OF handle_rx_frame_wf assms])
  show ?thesis unfolding phl_handle_rx_frame_list_def phl_indic_new_rxpkt_def
    by (rule rx_wf_frame [OF wf]) (use rx_wfD(4) [OF wf] in simp_all)
qed

section \<open>Reordering keeps every packet\<close>

lemma window_started [simp]: "window (r\<lparr>started := b\<rparr>) = window r"
  by (simp add: window_def reorder_index_def)

lemma window_removed [simp]: "window (r\<lparr>removed := b\<rparr>) = window r"
  by (simp add: window_def reorder_index_def)

lemma reorder_wf_started [simp]: "reorder_wf sq (r\<lparr>started := b\<rparr>) = reorder_wf sq r"
  by (simp add: reorder_wf_def)

lemma reorder_wf_removed [simp]: "reorder_wf sq (r\<lparr>removed := b\<rparr>) = reorder_wf sq r"
  by (simp add: reorder_wf_def)

lemma manage_conserves:
  assumes wf: "reorder_wf sq r" and s: "unat (sq pkt) < 4096"
    and res: "phl_manage_sta_reorder_buf t1 t2 (sq pkt) pkt r [] = res"
  shows "reorder_wf sq (rr_ring res) \<and>
     add_mset pkt (mset (somes (window r))) = mset (somes (window (rr_ring res))) +
       mset (rr_frames res @ (if rr_taken res then [] else [pkt])) + mset (rr_recycled res)"
proof (cases "\<not> started r \<and> seq_less (sq pkt) (head_seq_num r)")
  case True
  with wf res show ?thesis by (auto simp: phl_manage_sta_reorder_buf_def)
next
  case False
  let ?r = "r\<lparr>started := True\<rparr>"
  have "phl_manage_sta_reorder_buf t1 t2 (sq pkt) pkt ?r [] = res"
    using False unfolding res [symmetric] by (simp add: phl_manage_sta_reorder_buf_def Let_def)
  from manage_step [of sq ?r, OF _ _ s this] wf show ?thesis by simp
qed

lemma reorder_sta_in_pool:
  assumes "stas_in_pool ctl" and "rx_reorder_sta ctl m = Some s"
  shows "s < PHL_MAX_STA_NUM"
proof -
  have "r < length (wifi_roles ctl)" if "phl_get_wrole_by_addr ctl a = Some r" for a r
    using find_hit [OF that [unfolded phl_get_wrole_by_addr_def]] by simp
  with assms show ?thesis
    by (auto simp: rx_reorder_sta_def stas_in_pool_def Let_def split: option.splits if_splits) blast+
qed

text \<open>Replacing a session moves the packets it no longer stores into the hand of the caller.\<close>

lemma set_session_wf:
  assumes wf: "rx_wf st held" and s: "s < PHL_MAX_STA_NUM" and t: "t < 8"
    and x: "\<And>r. x = Some r \<Longrightarrow> reorder_wf (pkt_seq st) r"
    and bal: "sess_pkts (tid_session st s t) + held = sess_pkts x + held'"
  shows "rx_wf (set_session s t x st) held'"
proof -
  note W = rx_wfD [OF wf]
  let ?st = "set_session s t x st"
  have len: "length (tid_rx (stas (rx_stas st) u)) = 8" if "u < PHL_MAX_STA_NUM" for u
    using W(3) that by (simp add: sessions_wf_def)
  have "sessions_wf ?st" using W(3) len [OF s] x t by (auto simp: sessions_wf_def)
  moreover have "stas_in_pool (rx_stas ?st)" using W(4) by (simp add: stas_in_pool_cong [of "rx_stas ?st" "rx_stas st"])
  moreover have "stored_pkts ?st + held' = stored_pkts st + held"
  proof -
    have "sess_pkts x + (stored_pkts ?st + held') = stored_pkts ?st + (sess_pkts x + held')" by (simp add: union_ac)
    also have "\<dots> = (stored_pkts ?st + sess_pkts (tid_session st s t)) + held"
      by (simp only: bal [symmetric] union_assoc)
    also have "\<dots> = sess_pkts x + (stored_pkts st + held)"
      unfolding stored_set_session [OF s t len [OF s]] by (simp only: union_ac)
    finally show ?thesis by (simp only: add_left_cancel)
  qed
  ultimately show ?thesis using W(1,2,5) by (simp add: rx_wf_def pkt_places_def union_assoc)
qed

lemma run_timer_wf:
  assumes "rx_wf st held"
  shows "rx_wf (run_timer s a st) held"
  by (rule rx_wf_frame [OF assms])
    (use rx_wfD(4) [OF assms] in \<open>auto simp: run_timer_def split: timer_action.splits\<close>)

text \<open>Writing to a packet in hand, but not to its sequence number.\<close>

lemma upd_held_wf:
  assumes "rx_wf st (add_mset p held)"
  shows "rx_wf (upd_pkt p f st) (add_mset p held)"
  by (rule rx_wf_frame [OF assms]) (use rx_wfD(4) [OF assms] held_not_placed(1) [OF assms] in auto)

text \<open>The session of a frame takes it over, hands it on, or gives it back.\<close>

lemma session_arrival_wf:
  assumes wf: "rx_wf st (add_mset p held)" and s: "s < PHL_MAX_STA_NUM" and t: "t < 8"
    and sess: "tid_session st s t = Some r" and sq: "unat (pkt_seq st p) < 4096"
    and res: "phl_manage_sta_reorder_buf t1 t2 (pkt_seq st p) p r [] = res"
  shows "rx_wf (foldl phl_recycle_rx_pkt_usb (run_timer s a (set_session s t (Some (rr_ring res)) st)) (rr_recycled res))
           (mset (rr_frames res @ (if rr_taken res then [] else [p])) + held)"
proof -
  let ?up = "mset (rr_frames res @ (if rr_taken res then [] else [p]))"
  have "reorder_wf (pkt_seq st) r" using rx_wfD(3) [OF wf] s t sess by (simp add: sessions_wf_def)
  note M = manage_conserves [where sq = "pkt_seq st", OF this sq res]
  have "rx_wf (set_session s t (Some (rr_ring res)) st) (mset (rr_recycled res) + (?up + held))"
    by (rule set_session_wf [OF wf s t])
      (use M sess in \<open>simp_all add: sess_pkts_def union_ac del: mset_append\<close>)
  from run_timer_wf [OF this] show ?thesis by (rule recycle_pkts_wf)
qed

lemma rx_reorder_station_wf:
  assumes wf: "rx_wf st (add_mset p held)" and sq: "unat (pkt_seq st p) < 4096" and s: "s < PHL_MAX_STA_NUM"
    and re: "rx_reorder_station t1 t2 st p s = (sts, frames, st')"
  shows "rx_wf st' (mset frames + held) \<and> (sts = RTW_PHL_STATUS_SUCCESS \<or> frames = [])"
proof -
  let ?t = "unat (md_tid (mdata (pkts st p)))"
  define st2 where "st2 = upd_pkt p (\<lambda>a. a\<lparr>tx_sta := Some s, rx_role := wrole (stas (rx_stas st) s)\<rparr>) st"
  have w2: "rx_wf st2 (add_mset p held)" using upd_held_wf [OF wf] by (simp add: st2_def)
  have q2: "pkt_seq st2 p = pkt_seq st p" "rx_stas st2 = rx_stas st" by (simp_all add: st2_def)
  note unf = re [unfolded rx_reorder_station_def Let_def, folded st2_def]
  show ?thesis
  proof (cases "length (tid_rx (stas (rx_stas st2) s)) \<le> ?t")
    case True
    with unf recycle_rx_pkt_wf [OF w2] show ?thesis by auto
  next
    case False
    then have t: "?t < 8" using rx_wfD(3) [OF w2] s by (simp add: sessions_wf_def)
    show ?thesis
    proof (cases "tid_session st2 s ?t")
      case None
      with unf False w2 show ?thesis by auto
    next
      case (Some r)
      let ?res = "phl_manage_sta_reorder_buf t1 t2 (pkt_seq st2 p) p r []"
      from session_arrival_wf [OF w2 s t Some _ refl, of "rr_timer ?res" t1 t2] unf False Some sq show ?thesis
        by (auto simp: q2)
    qed
  qed
qed

lemma rx_reorder_wf:
  assumes wf: "rx_wf st (add_mset p held)" and sq: "unat (pkt_seq st p) < 4096"
    and re: "phl_rx_reorder t1 t2 st p = (sts, frames, st')"
  shows "rx_wf st' (mset frames + held) \<and> (sts = RTW_PHL_STATUS_SUCCESS \<or> frames = [])"
proof -
  let ?m = "mdata (pkts st p)"
  let ?cut = "append_fcs st \<and> \<not> (md_amsdu_cut ?m \<and> \<not> md_last_msdu ?m)"
  define st1 where "st1 = (if ?cut then upd_pkt p (\<lambda>a. a\<lparr>pkt_length := pkt_length a - 4\<rparr>) st else st)"
  have w1: "rx_wf st1 (add_mset p held)" using wf upd_held_wf [OF wf] by (simp add: st1_def)
  have m1: "mdata (pkts st1 p) = ?m" by (simp add: st1_def)
  note unf = re [unfolded phl_rx_reorder_def Let_def, folded st1_def]
  show ?thesis
  proof (cases "?cut \<and> pkt_length (pkts st p) \<le> 4")
    case True
    with unf recycle_rx_pkt_wf [OF wf] show ?thesis by auto
  next
    case False
    have pass: ?thesis if "(sts, frames, st') = (RTW_PHL_STATUS_SUCCESS, [p], st1)" using that w1 by simp
    have sta: ?thesis if "rx_reorder_sta (rx_stas st1) ?m = Some s" "rx_reorder_station t1 t2 st1 p s = (sts, frames, st')" for s
      using rx_reorder_station_wf [OF w1 _ _ that(2)] reorder_sta_in_pool [OF rx_wfD(4) [OF w1] that(1)] sq
      by (simp add: m1)
    from unf False pass sta show ?thesis by (auto split: if_split_asm option.split_asm)
  qed
qed

lemma rx_handle_normal_wf:
  assumes wf: "rx_wf st (add_mset p held)" and sq: "unat (pkt_seq st p) < 4096"
  shows "rx_wf (phl_rx_handle_normal t1 t2 st p) held"
proof -
  define st1 where "st1 = (if md_rx_rate (mdata (pkts st p)) \<le> RTW_DATA_RATE_HE_NSS4_MCS11
     then st\<lparr>rx_rate_nmr := (rx_rate_nmr st)(unat (md_rx_rate (mdata (pkts st p))) :=
            rx_rate_nmr st (unat (md_rx_rate (mdata (pkts st p)))) + 1)\<rparr> else st)"
  have w1: "rx_wf st1 (add_mset p held)"
    by (rule rx_wf_frame [OF wf]) (use rx_wfD(4) [OF wf] in \<open>simp_all add: st1_def\<close>)
  have "pkt_seq st1 p = pkt_seq st p" by (simp add: st1_def)
  moreover obtain sts frames st2 where re: "phl_rx_reorder t1 t2 st1 p = (sts, frames, st2)" by (metis prod_cases3)
  ultimately have "rx_wf st2 (mset frames + held) \<and> (sts = RTW_PHL_STATUS_SUCCESS \<or> frames = [])"
    using rx_reorder_wf [OF w1 _ re] sq by simp
  moreover have "phl_rx_handle_normal t1 t2 st p =
      (if sts = RTW_PHL_STATUS_SUCCESS then phl_handle_rx_frame_list st2 frames else st2)"
    by (simp add: phl_rx_handle_normal_def Let_def st1_def [symmetric] re)
  ultimately show ?thesis by (auto intro: handle_rx_frame_list_wf)
qed

section \<open>The other operations\<close>

lemma query_phl_rx_wf:
  assumes wf: "rx_wf st held" and q: "rtw_phl_query_phl_rx st = (Some p, st')"
  shows "rx_wf st' (add_mset p held)"
proof -
  from q obtain ps where i: "rx_idle st = p # ps" and st': "st' = st\<lparr>rx_idle := ps, idle_cnt := idle_cnt st - 1\<rparr>"
    by (auto simp: rtw_phl_query_phl_rx_def split: list.splits)
  have "tid_session st' = tid_session st" by (simp add: st' tid_session_def fun_eq_iff)
  with wf i show ?thesis by (simp add: rx_wf_def st' pkt_places_def stored_pkts_def sessions_wf_def)
qed

lemma rx_statistics_wf:
  assumes wf: "rx_wf st held"
  shows "rx_wf (phl_rx_statistics now st m) held"
proof (rule rx_wf_frame [OF wf])
  show "stas_in_pool (rx_stas (phl_rx_statistics now st m))"
    using rx_wfD(4) [OF wf]
    by (subst stas_in_pool_cong [of _ "rx_stas st"])
      (auto simp: phl_rx_statistics_def Let_def split: option.splits)
qed (auto simp: phl_rx_statistics_def Let_def split: option.splits)

lemma query_rx_pkt_wf:
  assumes wf: "rx_wf st held" and q: "rtw_phl_query_rx_pkt now st = (recvpkt, st')"
  shows "rx_wf st' (case recvpkt of None \<Rightarrow> held | Some p \<Rightarrow> add_mset p held)"
proof (cases "rx_ring_contents (phl_rx_ring st)")
  case Nil
  with q rx_query_empty [OF rx_wfD(1) [OF wf]] wf show ?thesis by (auto simp: rtw_phl_query_rx_pkt_def)
next
  case (Cons p ps)
  from rx_query_next [OF rx_wfD(1) [OF wf] Cons] obtain ring' where
    r: "query_rx_ring (phl_rx_ring st) = (Some p, ring')" "rx_ring_wf ring'" "rx_ring_contents ring' = ps" by blast
  have "tid_session (st\<lparr>phl_rx_ring := ring'\<rparr>) = tid_session st" by (simp add: tid_session_def fun_eq_iff)
  with wf r Cons have "rx_wf (st\<lparr>phl_rx_ring := ring'\<rparr>) (add_mset p held)"
    by (simp add: rx_wf_def pkt_places_def stored_pkts_def sessions_wf_def)
  from rx_statistics_wf [OF this] q r show ?thesis by (auto simp: rtw_phl_query_rx_pkt_def)
qed

text \<open>A session that slides hands what it released to the ring.\<close>

lemma session_slide_wf:
  assumes wf: "rx_wf st held" and s: "s < PHL_MAX_STA_NUM" and t: "t < 8"
    and sess: "tid_session st s t = Some r" and sl: "slid (pkt_seq st) r m r'"
    and frames: "frames = somes (take m (window r))"
  shows "rx_wf (set_session s t (Some r') st) (mset frames + held)"
  by (rule set_session_wf [OF wf s t])
    (use slid_wf [OF sl] mset_slid [OF sl] sess frames in \<open>auto simp: sess_pkts_def union_ac\<close>)

lemma reorder_timer_tid_wf:
  assumes wf: "rx_wf st held" and s: "s < PHL_MAX_STA_NUM" and t: "t < 8"
  shows "rx_wf (reorder_timer_tid now s st t) held"
proof (cases "tid_session st s t")
  case None
  with wf show ?thesis by (auto simp: reorder_timer_tid_def intro: handle_rx_frame_list_wf)
next
  case (Some r)
  obtain r' frames recycled timer where rel: "phl_reorder_release (now t) r [] = (r', frames, recycled, timer)"
    by (metis prod_cases4)
  have "reorder_wf (pkt_seq st) r" using rx_wfD(3) [OF wf] s t Some by (simp add: sessions_wf_def)
  from phl_reorder_release_slid [OF this rel] obtain m where
    m: "slid (pkt_seq st) r m r'" "frames = somes (take m (window r))" "recycled = []" by auto
  from handle_rx_frame_list_wf [OF run_timer_wf [OF session_slide_wf [OF wf s t Some m(1,2)]]] rel Some m(3)
  show ?thesis by (simp add: reorder_timer_tid_def Let_def)
qed

lemma timer_expired_wf:
  assumes wf: "rx_wf st held" and s: "s < PHL_MAX_STA_NUM"
  shows "rx_wf (phl_sta_rx_reorder_timer_expired now st s) held"
proof -
  have "rx_wf (foldl (reorder_timer_tid now s) st ts) held" if "\<forall>t \<in> set ts. t < 8" for ts
    using that wf by (induction ts arbitrary: st) (auto intro: reorder_timer_tid_wf s)
  moreover have "length (tid_rx (stas (rx_stas st) s)) = 8"
    using rx_wfD(3) [OF wf] s by (simp add: sessions_wf_def)
  ultimately show ?thesis by (simp add: phl_sta_rx_reorder_timer_expired_def)
qed

lemma rx_bar_wf:
  assumes wf: "rx_wf st held" and s: "s < PHL_MAX_STA_NUM" and sq: "unat sn < 4096"
    and far: "\<And>r. tid_session st s (unat t) = Some r \<Longrightarrow> seq_dist (head_seq_num r) sn \<noteq> 2048"
    and b: "rtw_phl_rx_bar st s t sn = Some st'"
  shows "rx_wf st' held"
proof (cases "tid_session st s (unat t)")
  case None
  with b wf show ?thesis by (auto simp: rtw_phl_rx_bar_def split: if_splits)
next
  case (Some r)
  have t: "unat t < 8" using b rx_wfD(3) [OF wf] s by (auto simp: rtw_phl_rx_bar_def sessions_wf_def split: if_splits)
  have rw: "reorder_wf (pkt_seq st) r" using rx_wfD(3) [OF wf] s t Some by (simp add: sessions_wf_def)
  obtain r' frames where rb: "rx_bar_session r sn = (r', frames)" by fastforce
  from rx_bar_session_slid [OF rw sq far [OF Some] rb] obtain m where
    "slid (pkt_seq st) r m r'" "frames = somes (take m (window r))" by blast
  from handle_rx_frame_list_wf [OF session_slide_wf [OF wf s t Some this]] b Some rb wf
  show ?thesis by (auto simp: rtw_phl_rx_bar_def split: if_splits)
qed

section \<open>Start and stop of block ack sessions\<close>

lemma mset_rotate_index:
  fixes i n :: nat
  assumes "0 < n"
  shows "{#(i + k) mod n. k \<in># mset_set {0..<n}#} = mset_set {0..<n}"
proof -
  have inj: "inj_on (\<lambda>k. (i + k) mod n) {0..<n}"
    by (rule inj_onI, erule mod_index_inj) simp_all
  have "(\<lambda>k. (i + k) mod n) ` {0..<n} = {0..<n}"
    by (rule endo_inj_surj) (use assms inj in auto)
  with image_mset_mset_set [OF inj] show ?thesis by simp
qed

lemma somes_mset: "mset (somes w) = {#the x. x \<in># filter_mset (\<lambda>x. x \<noteq> None) (mset w)#}"
  by (induction w) (auto split: option.splits)

text \<open>The slots of a session hold what its window shows.\<close>

lemma mset_slots_window:
  assumes "reorder_wf sq r"
  shows "mset (List.map_filter (reorder_slot r) [0..<unat (buf_size r)]) = mset (somes (window r))"
proof -
  note D = reorder_wfD [OF assms]
  let ?n = "unat (buf_size r)" and ?i = "reorder_index r (head_seq_num r)"
  have len: "length (reorder_buf r) = ?n" and n: "0 < ?n" using assms by (auto simp: reorder_wf_def)
  have "mset (window r) = image_mset ((!) (reorder_buf r)) {#(?i + k) mod ?n. k \<in># mset_set {0..<?n}#}"
    by (simp add: window_def multiset.map_comp comp_def)
  also have "\<dots> = mset (map ((!) (reorder_buf r)) [0..<?n])"
    unfolding mset_rotate_index [OF n] by simp
  finally have "mset (window r) = mset (reorder_buf r)" using len by (metis map_nth)
  moreover have "List.map_filter (reorder_slot r) [0..<?n] = somes (map (reorder_slot r) [0..<?n])"
    by (simp add: somes_def List.map_filter_def filter_map comp_def)
  moreover have "map (reorder_slot r) [0..<?n] = reorder_buf r"
    by (rule nth_equalityI) (simp_all add: len reorder_slot_def)
  ultimately show ?thesis by (simp add: somes_mset)
qed

lemma set_session_recycle:
  "set_session s t x (foldl phl_recycle_rx_pkt_usb st ps) = foldl phl_recycle_rx_pkt_usb (set_session s t x st) ps"
proof (induction ps arbitrary: st)
  case (Cons p ps)
  have "set_session s t x (phl_recycle_rx_pkt_usb st p) = phl_recycle_rx_pkt_usb (set_session s t x st) p"
    by (simp add: set_session_def phl_recycle_rx_pkt_usb_def phl_recycle_rx_buf_def phl_release_rxbuf_usb_def
        phl_release_phl_rx_def Let_def split: option.splits)
  with Cons show ?case by simp
qed simp

text \<open>The new session \<open>x\<close> takes the place of the old one, whose packets are recycled.\<close>

lemma replace_session_wf:
  assumes wf: "rx_wf st held" and s: "s < PHL_MAX_STA_NUM" and t: "t < 8"
    and x: "\<And>r. x = Some r \<Longrightarrow> reorder_wf (pkt_seq st) r \<and> somes (window r) = []"
  shows "rx_wf (set_session s t x (phl_tid_ampdu_rx_free st (tid_session st s t))) held"
proof (cases "tid_session st s t")
  case None
  then show ?thesis using x
    by (cases x) (auto simp: phl_tid_ampdu_rx_free_def sess_pkts_def intro!: set_session_wf [OF wf s t])
next
  case (Some r)
  have "reorder_wf (pkt_seq st) r" using rx_wfD(3) [OF wf] s t Some by (simp add: sessions_wf_def)
  note m = mset_slots_window [OF this]
  have "rx_wf (set_session s t x st) (mset (List.map_filter (reorder_slot r) [0..<unat (buf_size r)]) + held)"
    by (rule set_session_wf [OF wf s t]) (use x m Some in \<open>auto simp: sess_pkts_def split: option.splits\<close>)
  from recycle_pkts_wf [OF this] Some show ?thesis
    by (simp add: phl_tid_ampdu_rx_free_def set_session_recycle)
qed

lemma stop_rx_ba_wf:
  assumes wf: "rx_wf st held" and s: "s < PHL_MAX_STA_NUM"
  shows "rx_wf (rtw_phl_stop_rx_ba_session st (Some s) t) held"
proof (cases "unat t < 8 \<and> tid_session st s (unat t) \<noteq> None")
  case True
  then obtain r where r: "tid_session st s (unat t) = Some r" by blast
  have len: "length (tid_rx (stas (rx_stas st) s)) = 8" using rx_wfD(3) [OF wf] s by (simp add: sessions_wf_def)
  have "reorder_slot (r\<lparr>removed := True\<rparr>) = reorder_slot r" by (simp add: reorder_slot_def fun_eq_iff)
  with replace_session_wf [OF wf s, of "unat t" None] True len r show ?thesis
    by (simp add: rtw_phl_stop_rx_ba_session_def phl_tid_ampdu_rx_free_def set_session_recycle)
next
  case False
  then show ?thesis using wf rx_wfD(3) [OF wf] s by (auto simp: rtw_phl_stop_rx_ba_session_def sessions_wf_def)
qed

text \<open>The window sizes the reorder ring can work with.\<close>

definition ba_size_ok :: "u16 \<Rightarrow> bool" where
  "ba_size_ok bsize \<longleftrightarrow> 2 \<le> unat bsize \<and> unat bsize \<le> 1024 \<and> unat bsize dvd 4096"

lemma alloc_session_wf:
  assumes "ba_size_ok bsize" and "unat sn < 4096" and "phl_tid_ampdu_rx_alloc a b c sn t bsize = Some r"
  shows "reorder_wf sq r \<and> somes (window r) = []"
proof -
  have r: "r = \<lparr>reorder_buf = replicate (unat bsize) None, reorder_time = replicate (unat bsize) 0,
              head_seq_num = sn, stored_mpdu_num = 0, ssn = sn, buf_size = bsize, ba_tid = t,
              started = False, removed = False\<rparr>"
    using assms(3) by (auto simp: phl_tid_ampdu_rx_alloc_def split: if_splits)
  have none: "window r ! k = None" if "k < unat bsize" for k using that by (simp add: r window_def)
  have f: "buf_size r = bsize" "length (reorder_buf r) = unat bsize" "length (reorder_time r) = unat bsize"
    "head_seq_num r = sn" "stored_mpdu_num r = 0" "occupied (reorder_buf r) = 0" by (simp_all add: r)
  have "\<forall>x \<in> set (window r). x = None" using none by (auto simp: in_set_conv_nth f)
  then have "somes (window r) = []" by (rule somes_all_None)
  moreover have "reorder_wf sq r"
    unfolding reorder_wf_def f using assms(1,2) by (simp add: ba_size_ok_def none)
  ultimately show ?thesis by blast
qed

lemma start_rx_ba_wf:
  assumes wf: "rx_wf st held" and s: "s < PHL_MAX_STA_NUM"
    and ok: "bsize = 0 \<or> ba_size_ok bsize" "unat sn < 4096"
    and st: "rtw_phl_start_rx_ba_session mem st s sn pol t bsize = Some (sts, st')"
  shows "rx_wf st' held"
proof -
  obtain a b c where mem: "mem = (a, b, c)" by (metis prod_cases3)
  let ?b = "if bsize = 0 then PHL_MAX_AGG_WSIZE else bsize"
  have okb: "ba_size_ok ?b" using ok(1) by (auto simp: ba_size_ok_def)
  show ?thesis
  proof (cases "pol \<noteq> 0 \<or> phl_tid_ampdu_rx_alloc a b c sn t ?b = (None :: pkt_id phl_tid_ampdu_rx option)")
    case True
    with st wf mem show ?thesis
      by (auto simp: rtw_phl_start_rx_ba_session_def Let_def split: if_split_asm)
  next
    case False
    then obtain r :: "pkt_id phl_tid_ampdu_rx" where r: "phl_tid_ampdu_rx_alloc a b c sn t ?b = Some r" by blast
    have t: "unat t < 8"
      using st False r mem rx_wfD(3) [OF wf] s
      by (auto simp: rtw_phl_start_rx_ba_session_def Let_def sessions_wf_def split: if_splits)
    have "rx_wf (set_session s (unat t) (Some r) (phl_tid_ampdu_rx_free st (tid_session st s (unat t)))) held"
      by (rule replace_session_wf [OF wf s t]) (use alloc_session_wf [OF okb ok(2) r] in auto)
    with st False r mem t show ?thesis
      by (auto simp: rtw_phl_start_rx_ba_session_def Let_def split: if_splits)
  qed
qed

section \<open>The receive path as a state machine\<close>

text \<open>
  What the bus, the core and the timers do, in any order; the second component is the multiset of
  packets in hand, those of the bus and those of the core. The bus fills a packet in from the
  hardware: a new type and new meta data with a 12-bit sequence number. A block ack request for a
  sequence number half the sequence space ahead is excluded: it misplaces stored frames. Sessions
  are negotiated with window sizes the ring can work with.
\<close>

inductive rx_step ::
  "'q phl_rx_ctl \<times> pkt_id multiset \<Rightarrow> 'q phl_rx_ctl \<times> pkt_id multiset \<Rightarrow> bool" where
  query_phl_rx: "rtw_phl_query_phl_rx st = (Some p, st') \<Longrightarrow> rx_step (st, held) (st', add_mset p held)"
| fill: "p \<in># held \<Longrightarrow> unat (md_seq (mdata a)) < 4096 \<Longrightarrow> rx_step (st, held) (upd_pkt p (\<lambda>_. a) st, held)"
| release: "rx_step (st, add_mset p held) (phl_release_phl_rx st p, held)"
| normal: "unat (pkt_seq st p) < 4096 \<Longrightarrow>
    rx_step (st, add_mset p held) (phl_rx_handle_normal t1 t2 st p, held)"
| recycle: "rx_step (st, add_mset p held) (phl_recycle_rx_buf st p, held)"
| query_rx: "rtw_phl_query_rx_pkt now st = (Some p, st') \<Longrightarrow> rx_step (st, held) (st', add_mset p held)"
| query_none: "rtw_phl_query_rx_pkt now st = (None, st') \<Longrightarrow> rx_step (st, held) (st', held)"
| return_rx: "rtw_phl_return_rxbuf st (Some p) = (sts, st') \<Longrightarrow> rx_step (st, add_mset p held) (st', held)"
| timer: "s < PHL_MAX_STA_NUM \<Longrightarrow> rx_step (st, held) (phl_sta_rx_reorder_timer_expired clk st s, held)"
| bar: "s < PHL_MAX_STA_NUM \<Longrightarrow> unat sn < 4096 \<Longrightarrow>
    (\<And>r. tid_session st s (unat t) = Some r \<Longrightarrow> seq_dist (head_seq_num r) sn \<noteq> 2048) \<Longrightarrow>
    rtw_phl_rx_bar st s t sn = Some st' \<Longrightarrow> rx_step (st, held) (st', held)"
| start: "s < PHL_MAX_STA_NUM \<Longrightarrow> bsize = 0 \<or> ba_size_ok bsize \<Longrightarrow> unat sn < 4096 \<Longrightarrow>
    rtw_phl_start_rx_ba_session mem st s sn pol t16 bsize = Some (sts, st') \<Longrightarrow> rx_step (st, held) (st', held)"
| stop: "s < PHL_MAX_STA_NUM \<Longrightarrow> rx_step (st, held) (rtw_phl_stop_rx_ba_session st (Some s) t16, held)"
| watchdog: "rx_step (st, held) (phl_rx_watchdog st, held)"

lemmas rx_step_wfs =
  query_phl_rx_wf release_phl_rx_wf rx_handle_normal_wf recycle_rx_buf_wf timer_expired_wf rx_bar_wf
  start_rx_ba_wf stop_rx_ba_wf

lemma rx_step_wf:
  assumes "rx_step c c'" and "rx_wf (fst c) (snd c)"
  shows "rx_wf (fst c') (snd c')"
  using assms
proof (induction rule: rx_step.induct)
  case (fill p held a st)
  then obtain held' where "held = add_mset p held'" by (metis mset_add)
  with fill show ?case using upd_held_wf [of st p held' "\<lambda>_. a"] by simp
next
  case (query_rx now st p st' held)
  then show ?case using query_rx_pkt_wf [of st held now "Some p" st'] by simp
next
  case (query_none now st st' held)
  then show ?case using query_rx_pkt_wf [of st held now None st'] by simp
next
  case (return_rx st p sts st' held)
  then show ?case using recycle_rx_buf_wf [of st p held] by (simp add: rtw_phl_return_rxbuf_def)
next
  case (watchdog st held)
  then have wf: "rx_wf st held" by simp
  show ?case unfolding phl_rx_watchdog_def fst_conv snd_conv
    by (rule rx_wf_frame [OF wf]) (use rx_wfD(4) [OF wf] in simp_all)
qed (simp_all, (blast intro: rx_step_wfs)+)

lemma rx_steps_wf:
  assumes "rx_step\<^sup>*\<^sup>* c c'" and "rx_wf (fst c) (snd c)"
  shows "rx_wf (fst c') (snd c')"
  using assms by (induction rule: rtranclp_induct) (auto dest: rx_step_wf)

section \<open>Initialisation\<close>

lemma fill_pool:
  "fold (\<lambda>i st. st\<lparr>rx_idle := rx_idle st @ [i], idle_cnt := idle_cnt st + 1\<rparr>) is st =
     st\<lparr>rx_idle := rx_idle st @ is, idle_cnt := idle_cnt st + of_nat (length is)\<rparr>"
  by (induction "is" arbitrary: st) simp_all

lemma rx_init_wf:
  assumes "rx_ring_wf (phl_rx_ring st)" and "rx_ring_contents (phl_rx_ring st) = []"
    and "\<forall>s < PHL_MAX_STA_NUM. tid_rx (stas (rx_stas st) s) = replicate 8 None" and "stas_in_pool (rx_stas st)"
  shows "fst (phl_rx_init True st) = RTW_PHL_STATUS_SUCCESS \<and> rx_wf (snd (phl_rx_init True st)) {#}"
proof -
  let ?st = "st\<lparr>pkts := (\<lambda>_. pkt_zero RTW_RX_TYPE_WIFI), rx_idle := [0..<MAX_PHL_RING_RX_PKT_NUM], idle_cnt := 8192\<rparr>"
  have init: "phl_rx_init True st = (RTW_PHL_STATUS_SUCCESS, ?st)"
    by (simp add: phl_rx_init_def phl_alloc_recv_pkt_pool_def fill_pool del: upt_rec_numeral)
  have none: "tid_session ?st s t = None" if "s < PHL_MAX_STA_NUM" "t < 8" for s t
    using assms(3) that by (simp add: tid_session_def)
  then have "stored_pkts ?st = {#}" by (auto simp: stored_pkts_def sess_pkts_def intro!: sum.neutral)
  moreover have "sessions_wf ?st" using none assms(3) by (simp add: sessions_wf_def)
  ultimately have "rx_wf ?st {#}"
    using assms by (simp add: rx_wf_def pkt_places_def atLeast0LessThan del: upt_rec_numeral)
  with init show ?thesis by simp
qed

text \<open>A device without sessions, its pool just filled.\<close>

definition demo_rx :: "nat phl_rx_ctl" where
  "demo_rx =
     snd (phl_rx_init True
       \<lparr>rx_stas = demo_ctl, pkts = (\<lambda>_. pkt_zero RTW_RX_TYPE_WIFI), rx_idle = [], idle_cnt = 0,
        phl_rx_ring = rx_ring_init, phl_stats = sta_stats demo_sta, rx_rate_nmr = (\<lambda>_. 0), append_fcs = False,
        ap_ps = False, rxbufs = (\<lambda>_. \<lparr>transfer_len = 0, pipe_idx = 0, pktcnt = 0\<rparr>),
        idle_rxbuf_list = pq_init, busy_rxbuf_list = pq_init, pend_rxbuf_list = pq_init, evt_rx = False,
        netbufs_freed = [], timers = {}\<rparr>)"

lemma demo_ctl_in_pool: "stas_in_pool demo_ctl"
proof -
  have sta: "mc_sta (mac_ctl demo_ctl) ! k = None" if "k < 4" for k
    using that by (simp add: demo_ctl_def phl_macid_ctrl_init_def macid_ctl_zero_def Let_def)
  have n: "max_num (mac_ctl demo_ctl) = 4" by code_simp
  have lt: "unat m < 4" if "m < 4" for m :: u16 using that by (simp add: word_less_nat_alt)
  have "assoc demo_ctl r = []" if "r < 3" for r
    using that by (auto simp: demo_ctl_def demo_role_def pq_init_def less_Suc_eq numeral_3_eq_3)
  moreover have "length (wifi_roles demo_ctl) = 3" by (simp add: demo_ctl_def)
  ultimately show ?thesis
    using sta n lt
    by (auto simp: stas_in_pool_def rtw_phl_get_stainfo_by_macid_def rtw_phl_get_stainfo_by_addr_def
        phl_stainfo_queue_search_def Let_def not_le split: if_splits)
qed

lemma demo_rx_wf: "rx_wf demo_rx {#}"
proof -
  have "\<forall>s < PHL_MAX_STA_NUM. tid_rx (stas demo_ctl s) = replicate 8 None"
    by (simp add: demo_ctl_def demo_sta_def Let_def)
  then show ?thesis unfolding demo_rx_def
    by (intro conjunct2 [OF rx_init_wf]) (simp_all add: rx_ring_init_wf rx_ring_init_empty demo_ctl_in_pool)
qed

section \<open>Properties\<close>

text \<open>
  C4: However the bus, the core, the timers and the block ack sessions interleave, no packet object
  is lost or duplicated: at every moment each of the 8192 objects is in exactly one place (idle list,
  ring to the core, one slot of one reorder session, or in hand), and the idle counter counts the idle
  list.
\<close>

theorem rx_packets_conserved:
  assumes "rx_wf st held" and "rx_step\<^sup>*\<^sup>* (st, held) (st', held')"
  shows "mset (rx_idle st') + mset (rx_ring_contents (phl_rx_ring st')) + stored_pkts st' + held' =
      mset_set {..<MAX_PHL_RING_RX_PKT_NUM} \<and> unat (idle_cnt st') = length (rx_idle st')"
proof -
  from rx_steps_wf [OF assms(2)] assms(1) have wf: "rx_wf st' held'" by simp
  note W = rx_wfD [OF wf]
  have e: "mset (rx_idle st') + mset (rx_ring_contents (phl_rx_ring st')) + stored_pkts st' + held' =
      mset_set {..<MAX_PHL_RING_RX_PKT_NUM}"
    using W(5) by (simp add: pkt_places_def)
  then have "size (mset (rx_idle st')) \<le> size (mset_set {..<MAX_PHL_RING_RX_PKT_NUM})"
    by (metis mset_subset_eq_add_left size_mset_mono union_assoc)
  then have "length (rx_idle st') \<le> 8192" by simp
  then have "unat (idle_cnt st') = length (rx_idle st')" by (simp add: W(2) unat_of_nat)
  with e show ?thesis by blast
qed

lemma demo_rx_idle:
  "rx_idle demo_rx = [0..<MAX_PHL_RING_RX_PKT_NUM]" "rx_ring_contents (phl_rx_ring demo_rx) = []"
  "rtw_phl_query_phl_rx demo_rx = (Some 0, demo_rx\<lparr>rx_idle := [1..<MAX_PHL_RING_RX_PKT_NUM], idle_cnt := idle_cnt demo_rx - 1\<rparr>)"
proof -
  show i: "rx_idle demo_rx = [0..<MAX_PHL_RING_RX_PKT_NUM]"
    by (simp add: demo_rx_def phl_rx_init_def phl_alloc_recv_pkt_pool_def fill_pool del: upt_rec_numeral)
  show "rx_ring_contents (phl_rx_ring demo_rx) = []"
    by (simp add: demo_rx_def phl_rx_init_def phl_alloc_recv_pkt_pool_def fill_pool rx_ring_init_empty
        del: upt_rec_numeral)
  have "[0..<MAX_PHL_RING_RX_PKT_NUM] = 0 # [1..<MAX_PHL_RING_RX_PKT_NUM]" by (subst upt_conv_Cons) simp_all
  then show "rtw_phl_query_phl_rx demo_rx =
      (Some 0, demo_rx\<lparr>rx_idle := [1..<MAX_PHL_RING_RX_PKT_NUM], idle_cnt := idle_cnt demo_rx - 1\<rparr>)"
    by (simp add: rtw_phl_query_phl_rx_def i del: upt_rec_numeral)
qed

theorem rx_packets_conserved_witness:
  "\<exists>st'. rx_step (demo_rx, {#}) (st', {#0#}) \<and> unat (idle_cnt st') = length (rx_idle st')"
proof -
  have st: "rx_step (demo_rx, {#}) (demo_rx\<lparr>rx_idle := [1..<MAX_PHL_RING_RX_PKT_NUM], idle_cnt := idle_cnt demo_rx - 1\<rparr>, {#0#})"
    using rx_step.query_phl_rx [OF demo_rx_idle(3), of "{#}"] .
  from rx_packets_conserved [OF demo_rx_wf r_into_rtranclp [of rx_step, OF st]] st show ?thesis by blast
qed



text \<open>
  Starting a session writes behind the array of sessions when the negotiated TID is 8 or more:
  the code checks the TID when a session is stopped and when a frame arrives, but not here. With a TID
  below 8 the session that was asked for is in place afterwards.
\<close>

theorem start_ba_tid_unchecked:
  assumes "length (tid_rx (stas (rx_stas st) s)) = 8"
  shows "rtw_phl_start_rx_ba_session (True, True, True) st s sn 0 t bsize =
    (if unat t < 8 then
       Some (RTW_PHL_STATUS_SUCCESS,
         set_session s (unat t)
           (phl_tid_ampdu_rx_alloc True True True sn t (if bsize = 0 then PHL_MAX_AGG_WSIZE else bsize))
           (phl_tid_ampdu_rx_free st (tid_session st s (unat t))))
     else None) \<and>
   (unat t < 8 \<or> rtw_phl_stop_rx_ba_session st (Some s) t = st)"
  using assms
  by (auto simp: rtw_phl_start_rx_ba_session_def rtw_phl_stop_rx_ba_session_def phl_tid_ampdu_rx_alloc_def Let_def)

theorem start_ba_tid_unchecked_witness:
  "rtw_phl_start_rx_ba_session (True, True, True) demo_rx 0 100 0 9 64 = None"
proof -
  have "length (tid_rx (stas (rx_stas demo_rx) 0)) = 8"
    using rx_wfD(3) [OF demo_rx_wf] by (simp add: sessions_wf_def)
  from start_ba_tid_unchecked [OF this, of 100 9 64] show ?thesis by simp
qed

end
