(* ===== verification/Phl_Usb_Rx.thy ===== *)
theory Phl_Usb_Rx
  imports Phl_Rx
begin

text \<open>
  The receive side of the USB bus layer, \<^verbatim>\<open>phl/hci/phl_trx_usb.c\<close>: the pool of receive
  buffers that travel between the idle list, the outstanding bulk-in requests (busy), the completed
  transfers (pending) and the packets cut out of them; cutting a transfer into packets; dispatch of
  the packets by type. Answers of the hardware layer and of the USB stack are arguments.
\<close>

section \<open>Bulk-in requests\<close>

text \<open>
  \<^verbatim>\<open>_phl_in_token_usb\<close>. \<open>hal_ok\<close>: the size of the receive descriptor could be read;
  \<open>urb_ok\<close>: the request was taken by the USB stack. Without \<open>hal_ok\<close> the buffer that was
  popped is on no list any more.
\<close>

definition phl_in_token_usb ::
  "bool \<Rightarrow> bool \<Rightarrow> 'q phl_rx_ctl \<Rightarrow> u8 \<Rightarrow> rtw_phl_status \<times> 'q phl_rx_ctl" where
  "phl_in_token_usb hal_ok urb_ok st pipe =
     (case pq_pop (idle_rxbuf_list st) Pos_first of
        (True, PNode b, q) \<Rightarrow>
          let st = st\<lparr>idle_rxbuf_list := q\<rparr> in
          if \<not> hal_ok then (RTW_PHL_STATUS_FAILURE, st)
          else
            let st = upd_rxbuf b (\<lambda>a. a\<lparr>pipe_idx := pipe\<rparr>) st;
                st = st\<lparr>busy_rxbuf_list := snd (pq_push (busy_rxbuf_list st) b Pos_tail)\<rparr>
            in
            if \<not> urb_ok then
              let st = st\<lparr>busy_rxbuf_list := pq_del_node (busy_rxbuf_list st) (Some b)\<rparr>
              in (RTW_PHL_STATUS_FAILURE, snd (phl_release_rxbuf_usb st b))
            else (RTW_PHL_STATUS_SUCCESS, st)
      | _ \<Rightarrow> (RTW_PHL_STATUS_RESOURCE, st))"

lemma in_token_success:
  assumes "phl_in_token_usb hal_ok urb_ok st pipe = (RTW_PHL_STATUS_SUCCESS, st')"
  shows "pq_cnt (busy_rxbuf_list st') = pq_cnt (busy_rxbuf_list st) + 1"
  using assms
  by (auto simp: phl_in_token_usb_def pq_push_def Let_def split: prod.splits bool.splits os_list_ptr.splits if_splits)

text \<open>
  The loop of \<^verbatim>\<open>_phl_rx_start_usb\<close> on the packet pipe; \<open>env n\<close> are the two answers the
  \<open>n\<close>-th request gets. The other pipes are not served.
\<close>

function rx_start_loop ::
  "(nat \<Rightarrow> bool \<times> bool) \<Rightarrow> int \<Rightarrow> nat \<Rightarrow> rtw_phl_status \<Rightarrow> 'q phl_rx_ctl \<Rightarrow> rtw_phl_status \<times> 'q phl_rx_ctl" where
  "rx_start_loop env in_token_num n pstatus st =
     (if pq_cnt (busy_rxbuf_list st) < in_token_num then
        case phl_in_token_usb (fst (env n)) (snd (env n)) st 0 of
          (pstatus, st) \<Rightarrow>
            if pstatus \<noteq> RTW_PHL_STATUS_SUCCESS then (pstatus, st)
            else rx_start_loop env in_token_num (Suc n) pstatus st
      else (pstatus, st))"
  by pat_completeness auto
termination
proof (relation "measure (\<lambda>(env, k, n, p, st). nat (k - pq_cnt (busy_rxbuf_list st)))", goal_cases)
  case (2 env k n p st p' st')
  then have tok: "phl_in_token_usb (fst (env n)) (snd (env n)) st 0 = (RTW_PHL_STATUS_SUCCESS, st')" by simp
  from in_token_success [OF tok] 2(1) show ?case by (simp add: tok)
qed simp

declare rx_start_loop.simps [simp del]

definition phl_rx_start_usb ::
  "(nat \<Rightarrow> bool \<times> bool) \<Rightarrow> u8 \<Rightarrow> u32 \<Rightarrow> 'q phl_rx_ctl \<Rightarrow> rtw_phl_status \<times> 'q phl_rx_ctl" where
  "phl_rx_start_usb env max_bulkin_num in_token_num st =
     (if max_bulkin_num > 0 then rx_start_loop env (sint in_token_num) 0 RTW_PHL_STATUS_SUCCESS st
      else (RTW_PHL_STATUS_SUCCESS, st))"

text \<open>The deferred request; the boolean says that the timer is set again.\<close>

definition phl_rx_deferred_in_token ::
  "(nat \<Rightarrow> bool \<times> bool) \<Rightarrow> u8 \<Rightarrow> u32 \<Rightarrow> 'q phl_rx_ctl \<Rightarrow> bool \<times> 'q phl_rx_ctl" where
  "phl_rx_deferred_in_token env max_bulkin_num in_token_num st =
     (case phl_rx_start_usb env max_bulkin_num in_token_num st of
        (pstatus, st) \<Rightarrow>
          if pstatus = RTW_PHL_STATUS_RESOURCE then (True, phl_indic_new_rxpkt st) else (False, st))"

text \<open>
  \<^verbatim>\<open>_phl_rx_init_usb\<close> for fewer than 65536 buffers (the loop counter has 16 bits); \<open>buf_ok i\<close>:
  the memory of buffer \<open>i\<close> was there. The loop stops at the first failure, and the status is
  success all the same.
\<close>

definition rx_init_buf :: "nat \<Rightarrow> 'q phl_rx_ctl \<Rightarrow> 'q phl_rx_ctl" where
  "rx_init_buf i st =
     (upd_rxbuf i (\<lambda>a. a\<lparr>pktcnt := 0\<rparr>) st)
       \<lparr>idle_rxbuf_list := snd (pq_push (idle_rxbuf_list st) i Pos_tail)\<rparr>"

definition phl_rx_init_usb ::
  "bool \<Rightarrow> bool \<Rightarrow> (nat \<Rightarrow> bool) \<Rightarrow> u8 \<Rightarrow> u32 \<Rightarrow> 'q phl_rx_ctl \<Rightarrow> rtw_phl_status \<times> 'q phl_rx_ctl" where
  "phl_rx_init_usb ring_ok block_ok buf_ok pipe_cnt num_rxbuf st =
     (if \<not> ring_ok \<or> \<not> block_ok then (RTW_PHL_STATUS_FAILURE, st)
      else
        let block_cnt_alloc = ucast pipe_cnt * num_rxbuf in
        (RTW_PHL_STATUS_SUCCESS,
         fold rx_init_buf
           (takeWhile buf_ok [0..<unat block_cnt_alloc])
           (st\<lparr>idle_rxbuf_list := pq_init, busy_rxbuf_list := pq_init, pend_rxbuf_list := pq_init\<rparr>)))"

section \<open>Completion of a bulk-in request\<close>

text \<open>The boolean says that the timer for deferred requests is set.\<close>

definition phl_pend_rxbuf_usb ::
  "bool \<Rightarrow> bool \<Rightarrow> 'q phl_rx_ctl \<Rightarrow> rxbuf_id \<Rightarrow> u32 \<Rightarrow> bool \<Rightarrow> rtw_phl_status \<times> bool \<times> 'q phl_rx_ctl" where
  "phl_pend_rxbuf_usb hal_ok urb_ok st b inbuf_len status_ok =
     (let st = (if pq_queue (busy_rxbuf_list st) \<noteq> []
                then st\<lparr>busy_rxbuf_list := pq_del_node (busy_rxbuf_list st) (Some b)\<rparr> else st)
      in
      if status_ok then
        let st = upd_rxbuf b (\<lambda>a. a\<lparr>transfer_len := inbuf_len\<rparr>) st;
            st = st\<lparr>pend_rxbuf_list := snd (pq_push (pend_rxbuf_list st) b Pos_tail)\<rparr>;
            (tok, st) = phl_in_token_usb hal_ok urb_ok st (pipe_idx (rxbufs st b))
        in (RTW_PHL_STATUS_SUCCESS, tok = RTW_PHL_STATUS_RESOURCE, st)
      else (RTW_PHL_STATUS_FAILURE, False, snd (phl_release_rxbuf_usb st b)))"

section \<open>Cutting a transfer into packets\<close>

text \<open>
  What \<^verbatim>\<open>rtw_hal_handle_rx_buffer\<close> reads from the descriptor at an offset of the transfer: type,
  meta data, distance of the packet from the descriptor and its length, and the fragment fields of its
  802.11 header.
\<close>

record hal_rx =
  hr_type :: rtw_rx_type
  hr_mdata :: rtw_r_meta_data
  hr_shift :: int
  hr_length :: u16
  hr_more_frag :: bool
  hr_frag_num :: u8

definition netbuf_len :: "hal_rx \<Rightarrow> u16" where
  "netbuf_len h =
     (if hr_more_frag h \<and> hr_frag_num h = 0 then
        if hr_length h < 1536 then 1536 else hr_length h
      else hr_length h)"

abbreviation align8 :: "int \<Rightarrow> int" where "align8 x \<equiv> (x + 7) div 8 * 8"

text \<open>
  Whether a packet got a netbuf of its own, and what is written to the packet object; without a netbuf
  it points into the buffer.
\<close>

definition cut_alloc :: "(int \<Rightarrow> u16 \<Rightarrow> bool) \<Rightarrow> int \<Rightarrow> hal_rx \<Rightarrow> bool" where
  "cut_alloc nb off h \<longleftrightarrow> hr_type h = RTW_RX_TYPE_WIFI \<and> nb off (netbuf_len h)"

definition cut_pkt :: "rxbuf_id \<Rightarrow> bool \<Rightarrow> hal_rx \<Rightarrow> rtw_phl_rx_pkt \<Rightarrow> rtw_phl_rx_pkt" where
  "cut_pkt b balloc h a =
     a\<lparr>rx_type := hr_type h, mdata := hr_mdata h, pkt_length := hr_length h, os_priv := balloc,
       rxbuf_ptr := if balloc then rxbuf_ptr a else Some b\<rparr>"

lemma query_phl_rx_shrinks:
  "rtw_phl_query_phl_rx st = (Some p, st') \<Longrightarrow> rx_idle st = p # rx_idle st'"
  by (auto simp: rtw_phl_query_phl_rx_def split: list.splits)

text \<open>
  The loop of \<^verbatim>\<open>phl_get_single_rx\<close>: packets cut so far, whether the buffer may be released, and the
  8-bit count of packets that point into it. \<open>nb off len\<close>: a netbuf was available. The loop ends at
  the latest when the pool of packet objects is empty.
\<close>

function get_single_loop ::
  "(int \<Rightarrow> int \<Rightarrow> hal_rx option) \<Rightarrow> (int \<Rightarrow> u16 \<Rightarrow> bool) \<Rightarrow> rxbuf_id \<Rightarrow> int \<Rightarrow> int \<Rightarrow> 'q phl_rx_ctl \<Rightarrow>
   pkt_id list \<Rightarrow> bool \<Rightarrow> u8 \<Rightarrow> 'q phl_rx_ctl \<times> pkt_id list \<times> bool \<times> u8" where
  "get_single_loop hal nb b off tlen st ps brel ref_cnt =
     (case rtw_phl_query_phl_rx st of
        (None, st) \<Rightarrow> (st, ps, brel, ref_cnt)
      | (Some p, st) \<Rightarrow>
          (case hal off tlen of
             None \<Rightarrow> (phl_release_phl_rx st p, ps, brel, ref_cnt)
           | Some h \<Rightarrow>
               let balloc = cut_alloc nb off h;
                   st = upd_pkt p (cut_pkt b balloc h) st;
                   align_offset = align8 (hr_shift h + uint (hr_length h));
                   tlen = tlen - align_offset;
                   brel = (if balloc then brel else False);
                   ref_cnt = (if balloc then ref_cnt else ref_cnt + 1)
               in
               if tlen > 0 then get_single_loop hal nb b (off + align_offset) tlen st (ps @ [p]) brel ref_cnt
               else (st, ps @ [p], brel, ref_cnt)))"
  by pat_completeness auto
termination
  by (relation "measure (\<lambda>(hal, nb, b, off, tlen, st, ps, brel, ref_cnt). length (rx_idle st))")
    (auto dest!: query_phl_rx_shrinks [OF sym])

declare get_single_loop.simps [simp del]

text \<open>The packets, empty when the function returns \<^verbatim>\<open>NULL\<close>.\<close>

definition phl_get_single_rx ::
  "(int \<Rightarrow> int \<Rightarrow> hal_rx option) \<Rightarrow> (int \<Rightarrow> u16 \<Rightarrow> bool) \<Rightarrow> 'q phl_rx_ctl \<Rightarrow> rxbuf_id \<Rightarrow>
   pkt_id list \<times> 'q phl_rx_ctl" where
  "phl_get_single_rx hal nb st b =
     (case get_single_loop hal nb b 0 (sint (transfer_len (rxbufs st b))) st [] True 0 of
        (st, ps, brel, ref_cnt) \<Rightarrow>
          (ps,
           if ps \<noteq> [] then
             if brel then snd (phl_release_rxbuf_usb st b)
             else upd_rxbuf b (\<lambda>a. a\<lparr>pktcnt := uint ref_cnt\<rparr>) st
           else st))"

section \<open>Dispatch\<close>

text \<open>The clock readings \<open>t1\<close>, \<open>t2\<close> are taken per packet.\<close>

definition rx_process_pkt ::
  "(pkt_id \<Rightarrow> u32) \<Rightarrow> (pkt_id \<Rightarrow> u32) \<Rightarrow> 'q phl_rx_ctl \<Rightarrow> pkt_id \<Rightarrow> 'q phl_rx_ctl" where
  "rx_process_pkt t1 t2 st p =
     (case rx_type (pkts st p) of
        RTW_RX_TYPE_WIFI \<Rightarrow> phl_rx_handle_normal (t1 p) (t2 p) st p
      | _ \<Rightarrow> phl_recycle_rx_buf st p)"

definition phl_rx_process_usb ::
  "(pkt_id \<Rightarrow> u32) \<Rightarrow> (pkt_id \<Rightarrow> u32) \<Rightarrow> 'q phl_rx_ctl \<Rightarrow> pkt_id list \<Rightarrow> 'q phl_rx_ctl" where
  "phl_rx_process_usb t1 t2 st ps = foldl (rx_process_pkt t1 t2) st ps"

text \<open>
  One turn of the loop of \<^verbatim>\<open>phl_rx_usb\<close> on the buffer that was popped. \<open>phl_rx\<close> says whether
  the local variable of that name, which keeps its value between turns, points to a packet.
\<close>

definition rx_usb_turn ::
  "(rxbuf_id \<Rightarrow> int \<Rightarrow> int \<Rightarrow> hal_rx option) \<Rightarrow> (int \<Rightarrow> u16 \<Rightarrow> bool) \<Rightarrow> (pkt_id \<Rightarrow> u32) \<Rightarrow> (pkt_id \<Rightarrow> u32) \<Rightarrow>
   bool \<Rightarrow> 'q phl_rx_ctl \<Rightarrow> rxbuf_id \<Rightarrow> bool \<times> 'q phl_rx_ctl" where
  "rx_usb_turn hal nb t1 t2 phl_rx st b =
     (let (phl_rx, st) =
            (if pipe_idx (rxbufs st b) = 0 then
               (case phl_get_single_rx (hal b) nb st b of
                  ([], st) \<Rightarrow> (False, st)
                | (p # ps, st) \<Rightarrow> (True, phl_rx_process_usb t1 t2 st (p # ps)))
             else (phl_rx, st))
      in (phl_rx, if \<not> phl_rx then snd (phl_release_rxbuf_usb st b) else st))"

section \<open>What the packet handling leaves alone\<close>

text \<open>
  The handling of a packet touches the buffers of the bus only through
  \<^verbatim>\<open>phl_recycle_rx_buf\<close>. A predicate that this function keeps, and that depends on the bus state
  only, is therefore kept by all of it.
\<close>

definition bus_eq :: "'q phl_rx_ctl \<Rightarrow> 'q phl_rx_ctl \<Rightarrow> bool" where
  "bus_eq st st' \<longleftrightarrow>
     rxbufs st' = rxbufs st \<and> idle_rxbuf_list st' = idle_rxbuf_list st \<and>
     busy_rxbuf_list st' = busy_rxbuf_list st \<and> pend_rxbuf_list st' = pend_rxbuf_list st \<and>
     rx_idle st' = rx_idle st \<and>
     (\<forall>p. rxbuf_ptr (pkts st' p) = rxbuf_ptr (pkts st p) \<and> mdata (pkts st' p) = mdata (pkts st p))"

locale bus_predicate =
  fixes I :: "'q phl_rx_ctl \<Rightarrow> bool"
  assumes recycle: "I st \<Longrightarrow> I (phl_recycle_rx_buf st p)"
    and frame: "I st \<Longrightarrow> bus_eq st st' \<Longrightarrow> I st'"
begin

lemma recycle_pkt: "I st \<Longrightarrow> I (phl_recycle_rx_pkt_usb st p)"
  by (auto simp: phl_recycle_rx_pkt_usb_def Let_def bus_eq_def intro!: recycle intro: frame)

lemma foldl_keeps:
  assumes "\<And>st p. I st \<Longrightarrow> I (f st p)" and "I st"
  shows "I (foldl f st ps)"
  using assms(2) by (induction ps arbitrary: st) (auto intro: assms(1))

lemma rx_frame: "I st \<Longrightarrow> I (handle_rx_frame st p)"
  by (auto simp: handle_rx_frame_def Let_def bus_eq_def split: prod.splits intro!: recycle_pkt intro: frame)

lemma rx_frame_list:
  assumes "I st"
  shows "I (phl_handle_rx_frame_list st frames)"
proof -
  have "I (foldl handle_rx_frame st frames)" using rx_frame assms by (rule foldl_keeps)
  then show ?thesis unfolding phl_handle_rx_frame_list_def phl_indic_new_rxpkt_def
    by (rule frame) (simp add: bus_eq_def)
qed

lemma session: "I st \<Longrightarrow> I (set_session s t x st)"
  by (erule frame) (simp add: set_session_def bus_eq_def)

lemma timer_keeps: "I st \<Longrightarrow> I (run_timer s a st)"
  by (erule frame) (simp add: run_timer_def bus_eq_def split: timer_action.splits)

lemma upd_pkt_keeps:
  "I st \<Longrightarrow> (\<And>a. rxbuf_ptr (f a) = rxbuf_ptr a \<and> mdata (f a) = mdata a) \<Longrightarrow> I (upd_pkt p f st)"
  by (erule frame) (simp add: bus_eq_def)

lemma reorder_station:
  assumes "I st"
  shows "I (snd (snd (rx_reorder_station t1 t2 st p s)))"
proof -
  have "I (upd_pkt p (\<lambda>a. a\<lparr>tx_sta := Some s, rx_role := wrole (stas (rx_stas st) s)\<rparr>) st)"
    using assms by (rule upd_pkt_keeps) simp
  then show ?thesis
    by (auto simp: rx_reorder_station_def Let_def split: option.splits
        intro!: recycle_pkt foldl_keeps [of phl_recycle_rx_pkt_usb] timer_keeps session)
qed

lemma reorder:
  assumes "I st"
  shows "I (snd (snd (phl_rx_reorder t1 t2 st p)))"
proof -
  have "I (upd_pkt p (\<lambda>a. a\<lparr>pkt_length := pkt_length a - 4\<rparr>) st)" using assms by (rule upd_pkt_keeps) simp
  then show ?thesis using assms
    by (auto simp: phl_rx_reorder_def Let_def split: option.splits intro!: recycle_pkt reorder_station)
qed

lemma handle_normal:
  assumes "I st"
  shows "I (phl_rx_handle_normal t1 t2 st p)"
proof -
  let ?r = "md_rx_rate (mdata (pkts st p))"
  have "I (if ?r \<le> RTW_DATA_RATE_HE_NSS4_MCS11
     then st\<lparr>rx_rate_nmr := (rx_rate_nmr st)(unat ?r := rx_rate_nmr st (unat ?r) + 1)\<rparr> else st)"
    by (rule frame [OF assms]) (simp add: bus_eq_def)
  from reorder [OF this, of t1 t2 p] show ?thesis
    by (auto simp: phl_rx_handle_normal_def Let_def split: prod.splits intro!: rx_frame_list)
qed

lemma process_pkt: "I st \<Longrightarrow> I (rx_process_pkt t1 t2 st p)"
  by (auto simp: rx_process_pkt_def split: rtw_rx_type.splits intro: handle_normal recycle)

lemma process_usb: "I st \<Longrightarrow> I (phl_rx_process_usb t1 t2 st ps)"
  unfolding phl_rx_process_usb_def by (rule foldl_keeps) (rule process_pkt)

lemma query_rx: "I st \<Longrightarrow> I (snd (rtw_phl_query_rx_pkt now st))"
  by (erule frame)
    (auto simp: rtw_phl_query_rx_pkt_def phl_rx_statistics_def bus_eq_def Let_def split: prod.splits option.splits)

lemma timer_tid:
  assumes "I st"
  shows "I (reorder_timer_tid now s st t)"
proof (cases "tid_session st s t")
  case (Some r)
  obtain r' frames recycled a where "phl_reorder_release (now t) r [] = (r', frames, recycled, a)"
    by (metis prod_cases4)
  with Some show ?thesis
    by (simp add: reorder_timer_tid_def Let_def)
      (intro rx_frame_list foldl_keeps [of phl_recycle_rx_buf] recycle timer_keeps session assms)
qed (simp add: reorder_timer_tid_def rx_frame_list assms)

lemma timer_expired: "I st \<Longrightarrow> I (phl_sta_rx_reorder_timer_expired now st s)"
  unfolding phl_sta_rx_reorder_timer_expired_def by (rule foldl_keeps) (rule timer_tid)

lemma bar: "I st \<Longrightarrow> rtw_phl_rx_bar st s t sq = Some st' \<Longrightarrow> I st'"
  by (auto simp: rtw_phl_rx_bar_def split: if_splits option.splits prod.splits intro!: rx_frame_list session)

lemma ampdu_free: "I st \<Longrightarrow> I (phl_tid_ampdu_rx_free st r)"
  unfolding phl_tid_ampdu_rx_free_def
  by (auto split: option.splits intro: foldl_keeps [of phl_recycle_rx_pkt_usb] recycle_pkt)

lemma start_ba: "I st \<Longrightarrow> rtw_phl_start_rx_ba_session mem st s sn pol t bsize = Some (sts, st') \<Longrightarrow> I st'"
  by (auto simp: rtw_phl_start_rx_ba_session_def Let_def split: prod.splits if_splits option.splits
      intro!: session ampdu_free)

lemma stop_ba: "I st \<Longrightarrow> I (rtw_phl_stop_rx_ba_session st x t)"
  by (auto simp: rtw_phl_stop_rx_ba_session_def split: option.splits intro!: session ampdu_free)

end

text \<open>The pending transfers: packet handling never adds or removes one.\<close>

lemma release_rxbuf_pend [simp]: "pend_rxbuf_list (snd (phl_release_rxbuf_usb st b)) = pend_rxbuf_list st"
  by (simp add: phl_release_rxbuf_usb_def Let_def)

lemma release_phl_rx_bus [simp]:
  "pend_rxbuf_list (phl_release_phl_rx st p) = pend_rxbuf_list st"
  "idle_rxbuf_list (phl_release_phl_rx st p) = idle_rxbuf_list st"
  "busy_rxbuf_list (phl_release_phl_rx st p) = busy_rxbuf_list st"
  "rxbufs (phl_release_phl_rx st p) = rxbufs st"
  "pkts (phl_release_phl_rx st p) = (pkts st)(p := pkt_zero RTW_RX_TYPE_MAX)"
  "rx_idle (phl_release_phl_rx st p) = rx_idle st @ [p]"
  by (simp_all add: phl_release_phl_rx_def)

interpretation pend: bus_predicate "\<lambda>st. pend_rxbuf_list st = q" for q
  by unfold_locales (auto simp: phl_recycle_rx_buf_def Let_def bus_eq_def split: option.splits)

lemma get_single_pend: "pend_rxbuf_list (fst (get_single_loop hal nb b off tlen st ps brel ref_cnt)) = pend_rxbuf_list st"
proof (induction hal nb b off tlen st ps brel ref_cnt rule: get_single_loop.induct)
  case (1 hal nb b off tlen st ps brel ref_cnt)
  show ?case
  proof (cases "rtw_phl_query_phl_rx st")
    case (Pair x st1)
    then have q: "pend_rxbuf_list st1 = pend_rxbuf_list st"
      by (auto simp: rtw_phl_query_phl_rx_def split: list.splits)
    show ?thesis
    proof (cases x)
      case None
      with Pair q show ?thesis by (simp add: get_single_loop.simps)
    next
      case (Some p)
      with Pair q 1 [OF Pair [symmetric] Some] show ?thesis
        by (subst get_single_loop.simps) (simp add: Let_def split: option.split)
    qed
  qed
qed

lemma rx_usb_turn_pend: "pend_rxbuf_list (snd (rx_usb_turn hal nb t1 t2 phl_rx st b)) = pend_rxbuf_list st"
proof -
  have "pend_rxbuf_list (snd (phl_get_single_rx h nb st b)) = pend_rxbuf_list st" for h
    using get_single_pend [of h nb b 0 "sint (transfer_len (rxbufs st b))" st "[]" True 0]
    by (auto simp: phl_get_single_rx_def split: prod.splits)
  note single = this
  show ?thesis
  proof (cases "pipe_idx (rxbufs st b) = 0")
    case True
    obtain ps st1 where g: "phl_get_single_rx (hal b) nb st b = (ps, st1)" by fastforce
    then have "pend_rxbuf_list st1 = pend_rxbuf_list st" using single [of "hal b"] by simp
    with g True pend.process_usb [of st1 "pend_rxbuf_list st" t1 t2 ps] show ?thesis
      by (cases ps) (simp_all add: rx_usb_turn_def)
  qed (simp add: rx_usb_turn_def)
qed

lemma rx_usb_turn_pend_eq: "rx_usb_turn hal nb t1 t2 phl_rx st b = (x, st') \<Longrightarrow> pend_rxbuf_list st' = pend_rxbuf_list st"
  by (metis rx_usb_turn_pend snd_conv)

lemma pq_pop_shrinks:
  "pq_pop q Pos_first = (True, PNode b, q') \<Longrightarrow>
   pq_queue q = b # pq_queue q' \<and> pq_cnt q' = pq_cnt q - 1"
  by (auto simp: pq_pop_def split: if_splits)

section \<open>The receive handler\<close>

text \<open>
  The loop of \<^verbatim>\<open>phl_rx_usb\<close>: pending transfers are popped and handled until none is left.
\<close>

function rx_usb_loop ::
  "(rxbuf_id \<Rightarrow> int \<Rightarrow> int \<Rightarrow> hal_rx option) \<Rightarrow> (int \<Rightarrow> u16 \<Rightarrow> bool) \<Rightarrow> (pkt_id \<Rightarrow> u32) \<Rightarrow> (pkt_id \<Rightarrow> u32) \<Rightarrow>
   bool \<Rightarrow> 'q phl_rx_ctl \<Rightarrow> 'q phl_rx_ctl" where
  "rx_usb_loop hal nb t1 t2 phl_rx st =
     (if pq_cnt (pend_rxbuf_list st) \<noteq> 0 then
        case pq_pop (pend_rxbuf_list st) Pos_first of
          (True, PNode b, q) \<Rightarrow>
            (case rx_usb_turn hal nb t1 t2 phl_rx (st\<lparr>pend_rxbuf_list := q\<rparr>) b of
               (phl_rx, st) \<Rightarrow> rx_usb_loop hal nb t1 t2 phl_rx st)
        | _ \<Rightarrow> st
      else st)"
  by pat_completeness auto
termination
  by (relation "measure (\<lambda>(hal, nb, t1, t2, phl_rx, st). length (pq_queue (pend_rxbuf_list st)))")
    (auto dest!: rx_usb_turn_pend_eq pq_pop_shrinks [OF sym] split: prod.split)

declare rx_usb_loop.simps [simp del]

definition phl_rx_usb ::
  "(rxbuf_id \<Rightarrow> int \<Rightarrow> int \<Rightarrow> hal_rx option) \<Rightarrow> (int \<Rightarrow> u16 \<Rightarrow> bool) \<Rightarrow> (pkt_id \<Rightarrow> u32) \<Rightarrow> (pkt_id \<Rightarrow> u32) \<Rightarrow>
   'q phl_rx_ctl \<Rightarrow> rtw_phl_status \<times> 'q phl_rx_ctl" where
  "phl_rx_usb hal nb t1 t2 st = (RTW_PHL_STATUS_SUCCESS, rx_usb_loop hal nb t1 t2 False st)"

section \<open>Where the buffers are\<close>

text \<open>
  The packets that point into a buffer are counted by its \<^verbatim>\<open>pktcnt\<close>, up to a correction \<open>d\<close> for
  a buffer that is being cut. Each of the \<open>n\<close> buffers is idle, requested, pending, referred to by
  packets, or in the hands \<open>B\<close> of a handler.
\<close>

definition buf_users :: "'q phl_rx_ctl \<Rightarrow> rxbuf_id \<Rightarrow> pkt_id set" where
  "buf_users st b = {p. rxbuf_ptr (pkts st p) = Some b}"

definition bufs_in_use :: "nat \<Rightarrow> 'q phl_rx_ctl \<Rightarrow> rxbuf_id multiset" where
  "bufs_in_use n st = mset_set {b. b < n \<and> 0 < pktcnt (rxbufs st b)}"

definition buf_places :: "nat \<Rightarrow> 'q phl_rx_ctl \<Rightarrow> rxbuf_id multiset" where
  "buf_places n st =
     mset (pq_queue (idle_rxbuf_list st)) + mset (pq_queue (busy_rxbuf_list st)) +
     mset (pq_queue (pend_rxbuf_list st)) + bufs_in_use n st"

definition buf_inv :: "nat \<Rightarrow> rxbuf_id multiset \<Rightarrow> (rxbuf_id \<Rightarrow> int) \<Rightarrow> 'q phl_rx_ctl \<Rightarrow> bool" where
  "buf_inv n B d st \<longleftrightarrow>
     pq_wf (idle_rxbuf_list st) \<and> pq_wf (busy_rxbuf_list st) \<and> pq_wf (pend_rxbuf_list st) \<and>
     (\<forall>b. finite (buf_users st b) \<and> pktcnt (rxbufs st b) + d b = int (card (buf_users st b))) \<and>
     (\<forall>b. buf_users st b \<noteq> {} \<longrightarrow> b < n) \<and> (\<forall>p \<in> set (rx_idle st). rxbuf_ptr (pkts st p) = None) \<and>
     buf_places n st + B = mset_set {..<n}"

lemma buf_invD:
  assumes "buf_inv n B d st"
  shows "pq_wf (idle_rxbuf_list st)" "pq_wf (busy_rxbuf_list st)" "pq_wf (pend_rxbuf_list st)"
    "finite (buf_users st b)" "pktcnt (rxbufs st b) + d b = int (card (buf_users st b))"
    "buf_users st b \<noteq> {} \<Longrightarrow> b < n" "p \<in> set (rx_idle st) \<Longrightarrow> rxbuf_ptr (pkts st p) = None"
    "buf_places n st + B = mset_set {..<n}"
  using assms by (auto simp: buf_inv_def)

text \<open>A buffer is in one place only.\<close>

lemma buf_once:
  assumes "buf_inv n B d st" and "add_mset b M \<subseteq># buf_places n st + B"
  shows "b \<notin># M" "b < n"
proof -
  have sub: "add_mset b M \<subseteq># mset_set {..<n}" using assms buf_invD(8) [OF assms(1)] by simp
  have "count (add_mset b M) b \<le> count (mset_set {..<n}) b" using sub by (rule mset_subset_eq_count)
  also have "\<dots> \<le> 1" by (cases "b < n") simp_all
  finally show "b \<notin># M" by (simp add: not_in_iff)
  have "b \<in># mset_set {..<n}" using sub by (meson insert_subset_eq_iff)
  then show "b < n" by simp
qed

text \<open>A buffer that packets refer to is on no list.\<close>

lemma in_use_not_queued:
  assumes "buf_inv n B d st" and "0 < pktcnt (rxbufs st b)" and "b < n"
  shows "b \<notin> set (pq_queue (idle_rxbuf_list st))" "b \<notin># B"
proof -
  have "b \<in># bufs_in_use n st" using assms by (simp add: bufs_in_use_def)
  then obtain M where M: "bufs_in_use n st = add_mset b M" by (meson multi_member_split)
  have "add_mset b (mset (pq_queue (idle_rxbuf_list st)) + B) \<subseteq># buf_places n st + B"
    by (simp add: buf_places_def M union_ac)
  from buf_once(1) [OF assms(1) this] show "b \<notin> set (pq_queue (idle_rxbuf_list st))" "b \<notin># B" by auto
qed

text \<open>Recycling a packet.\<close>

lemma buf_users_release:
  "buf_users (phl_release_phl_rx st p) b = buf_users st b - {p}"
  by (auto simp: buf_users_def pkt_zero_def)

lemma buf_inv_release_phl_rx:
  assumes inv: "buf_inv n B d st" and none: "rxbuf_ptr (pkts st p) = None"
  shows "buf_inv n B d (phl_release_phl_rx st p)"
proof -
  have u: "buf_users (phl_release_phl_rx st p) b = buf_users st b" for b
    using none unfolding buf_users_release by (auto simp: buf_users_def)
  have "rxbuf_ptr (pkts (phl_release_phl_rx st p) q) = None" if "q \<in> set (rx_idle (phl_release_phl_rx st p))" for q
    using buf_invD(7) [OF inv] that by (auto simp: pkt_zero_def)
  with inv show ?thesis by (simp add: buf_inv_def u buf_places_def bufs_in_use_def)
qed

lemma bufs_in_use_upd:
  assumes "b < n"
  shows "mset_set {c. c < n \<and> 0 < pktcnt (((rxbufs st)(b := x)) c)} =
     (if 0 < pktcnt x then add_mset b (bufs_in_use n st - {#b#}) else bufs_in_use n st - {#b#})"
proof -
  let ?U = "{c. c < n \<and> 0 < pktcnt (rxbufs st c)}"
  have e: "{c. c < n \<and> 0 < pktcnt (((rxbufs st)(b := x)) c)} =
      (if 0 < pktcnt x then insert b (?U - {b}) else ?U - {b})" using assms by auto
  have "mset_set (?U - {b}) = bufs_in_use n st - {#b#}"
    by (cases "b \<in> ?U") (simp_all add: bufs_in_use_def mset_set_Diff [of ?U "{b}"] del: mem_Collect_eq)
  then show ?thesis unfolding e by (simp del: insert_Diff_single)
qed

text \<open>
  The correction moves from the counter to the set of users: a packet leaves the buffer's users, or
  the counter catches up with the users a cut has made.
\<close>

lemma buf_inv_recycle:
  assumes inv: "buf_inv n B (\<lambda>_. 0) st"
  shows "buf_inv n B (\<lambda>_. 0) (phl_recycle_rx_buf st p)"
proof (cases "rxbuf_ptr (pkts st p)")
  case None
  with buf_inv_release_phl_rx [OF inv] show ?thesis by (simp add: phl_recycle_rx_buf_def)
next
  case (Some b)
  note D = buf_invD [OF inv]
  have p: "p \<in> buf_users st b" using Some by (simp add: buf_users_def)
  then have bn: "b < n" using D(6) by blast
  have c: "0 < card (buf_users st b)" using p D(4) card_gt_0_iff by blast
  have cnt: "pktcnt (rxbufs st b) = int (card (buf_users st b))" using D(5) [of b] by simp
  then have pos: "0 < pktcnt (rxbufs st b)" using c by simp
  note q = in_use_not_queued [OF inv pos bn]
  define st1 where "st1 = snd (phl_release_rxbuf_usb st b)"
  let ?x = "(rxbufs st b)\<lparr>pktcnt := pktcnt (rxbufs st b) - 1\<rparr>"
  have rx: "rxbufs st1 = (rxbufs st)(b := ?x)"
    and idle: "idle_rxbuf_list st1 = (if pktcnt (rxbufs st b) = 1 then snd (pq_push (idle_rxbuf_list st) b Pos_tail)
        else idle_rxbuf_list st)"
    and rest: "busy_rxbuf_list st1 = busy_rxbuf_list st" "pend_rxbuf_list st1 = pend_rxbuf_list st"
      "pkts st1 = pkts st" "rx_idle st1 = rx_idle st"
    using pos by (auto simp: st1_def phl_release_rxbuf_usb_def Let_def)
  let ?st = "phl_release_phl_rx st1 p"
  have st: "phl_recycle_rx_buf st p = ?st" using Some by (simp add: phl_recycle_rx_buf_def st1_def)
  have users: "buf_users ?st e = buf_users st e - {p}" for e
    unfolding buf_users_release by (simp add: buf_users_def rest)
  have other: "buf_users st e - {p} = buf_users st e" if "e \<noteq> b" for e using that Some by (auto simp: buf_users_def)
  have "int (card (buf_users st b - {p})) = pktcnt (rxbufs st b) - 1"
    using c p D(4) [of b] by (simp add: cnt card_Diff_singleton)
  then have acc: "finite (buf_users ?st e) \<and> pktcnt (rxbufs ?st e) + 0 = int (card (buf_users ?st e))" for e
    using D(4,5) [of e] other [of e] by (auto simp: users rx)
  have places: "buf_places n ?st + B = mset_set {..<n}"
  proof -
    have "b \<in># bufs_in_use n st" using pos bn by (simp add: bufs_in_use_def)
    then obtain M where M: "bufs_in_use n st = add_mset b M" by (meson multi_member_split)
    have "bufs_in_use n ?st = (if 0 < pktcnt ?x then add_mset b M else M)"
      using bufs_in_use_upd [OF bn, of st ?x] by (simp add: bufs_in_use_def [of n ?st] rx M)
    then have "buf_places n ?st = buf_places n st"
      using pos by (auto simp: buf_places_def rest idle pq_push_def M)
    with D(8) show ?thesis by simp
  qed
  have "\<forall>e. buf_users ?st e \<noteq> {} \<longrightarrow> e < n" using D(6) by (auto simp: users)
  moreover have "\<forall>r \<in> set (rx_idle ?st). rxbuf_ptr (pkts ?st r) = None" using D(7) by (auto simp: rest pkt_zero_def)
  moreover have "pq_wf (idle_rxbuf_list ?st)" using D(1) q(1) by (simp add: idle pq_wf_push)
  ultimately show ?thesis using D(2,3) acc places unfolding st by (auto simp: buf_inv_def rest)
qed

lemma buf_inv_cong:
  assumes "bus_eq st st'"
  shows "buf_inv n B d st' = buf_inv n B d st"
proof -
  have "buf_users st' = buf_users st" using assms by (simp add: buf_users_def bus_eq_def fun_eq_iff)
  moreover have "buf_places n st' = buf_places n st" using assms by (simp add: buf_places_def bufs_in_use_def bus_eq_def)
  ultimately show ?thesis using assms unfolding buf_inv_def by (simp add: bus_eq_def)
qed

interpretation bufs: bus_predicate "buf_inv n B (\<lambda>_. 0)" for n B
proof unfold_locales
  show "buf_inv n B (\<lambda>_. 0) (phl_recycle_rx_buf st p)" if "buf_inv n B (\<lambda>_. 0) st" for st :: "'a phl_rx_ctl" and p
    using that by (rule buf_inv_recycle)
  show "buf_inv n B (\<lambda>_. 0) st'" if "buf_inv n B (\<lambda>_. 0) st" "bus_eq st st'" for st st' :: "'a phl_rx_ctl"
    using that(1) buf_inv_cong [OF that(2)] by simp
qed

text \<open>Sequence numbers have twelve bits.\<close>

interpretation seqs: bus_predicate "\<lambda>st. \<forall>p. unat (pkt_seq st p) < 4096"
  by unfold_locales
    (auto simp: phl_recycle_rx_buf_def Let_def bus_eq_def pkt_zero_def meta_zero_def split: option.splits)

section \<open>The operations of the bus keep track of the buffers\<close>

text \<open>Only queue contents matter to the invariant; fields of a buffer other than the counter do not.\<close>

lemma buf_inv_move:
  assumes inv: "buf_inv n B d st"
    and same: "pkts st' = pkts st" "rx_idle st' = rx_idle st" "\<And>b. pktcnt (rxbufs st' b) = pktcnt (rxbufs st b)"
    and wf: "pq_wf (idle_rxbuf_list st')" "pq_wf (busy_rxbuf_list st')" "pq_wf (pend_rxbuf_list st')"
    and bal: "mset (pq_queue (idle_rxbuf_list st')) + mset (pq_queue (busy_rxbuf_list st')) +
      mset (pq_queue (pend_rxbuf_list st')) + B' =
      mset (pq_queue (idle_rxbuf_list st)) + mset (pq_queue (busy_rxbuf_list st)) +
      mset (pq_queue (pend_rxbuf_list st)) + B"
  shows "buf_inv n B' d st'"
proof -
  have u: "buf_users st' = buf_users st" "bufs_in_use n st' = bufs_in_use n st"
    using same by (simp_all add: buf_users_def bufs_in_use_def fun_eq_iff)
  let ?L = "\<lambda>st. mset (pq_queue (idle_rxbuf_list st)) + mset (pq_queue (busy_rxbuf_list st)) +
      mset (pq_queue (pend_rxbuf_list st))"
  have "buf_places n st' + B' = (?L st' + B') + bufs_in_use n st" by (simp add: buf_places_def u union_ac)
  also have "\<dots> = buf_places n st + B" unfolding bal by (simp add: buf_places_def union_ac)
  finally have "buf_places n st' + B' = buf_places n st + B" .
  with inv wf same show ?thesis unfolding buf_inv_def u by simp
qed

lemma pq_wf_shrink: "pq_pop q Pos_first = (True, PNode b, q') \<Longrightarrow> pq_wf q \<Longrightarrow> pq_wf q' \<and> b \<notin> set (pq_queue q')"
  by (auto dest!: pq_pop_shrinks simp: pq_wf_def)

text \<open>A buffer in hand is on no list.\<close>

lemma in_hand_not_queued:
  assumes "buf_inv n (add_mset b B) d st"
  shows "b \<notin> set (pq_queue (idle_rxbuf_list st))" "b \<notin> set (pq_queue (busy_rxbuf_list st))"
    "b \<notin> set (pq_queue (pend_rxbuf_list st))" "pktcnt (rxbufs st b) \<le> 0" "b < n"
proof -
  have sub: "add_mset b (buf_places n st) \<subseteq># buf_places n st + add_mset b B" by simp
  note once = buf_once [OF assms sub]
  show "b < n" using once(2) .
  have "b \<notin># bufs_in_use n st" using once(1) by (simp add: buf_places_def)
  then show "pktcnt (rxbufs st b) \<le> 0" using once(2) by (simp add: bufs_in_use_def)
  show "b \<notin> set (pq_queue (idle_rxbuf_list st))" "b \<notin> set (pq_queue (busy_rxbuf_list st))"
    "b \<notin> set (pq_queue (pend_rxbuf_list st))"
    using once(1) by (auto simp: buf_places_def)
qed

lemma release_in_hand:
  assumes inv: "buf_inv n (add_mset b B) d st" and z: "pktcnt (rxbufs st b) = 0"
  shows "buf_inv n B d (snd (phl_release_rxbuf_usb st b))"
    "idle_rxbuf_list (snd (phl_release_rxbuf_usb st b)) = snd (pq_push (idle_rxbuf_list st) b Pos_tail)"
proof -
  have st: "snd (phl_release_rxbuf_usb st b) = st\<lparr>idle_rxbuf_list := snd (pq_push (idle_rxbuf_list st) b Pos_tail)\<rparr>"
    using z by (simp add: phl_release_rxbuf_usb_def)
  show "buf_inv n B d (snd (phl_release_rxbuf_usb st b))" unfolding st
    by (rule buf_inv_move [OF inv])
      (use buf_invD(1-3) [OF inv] in_hand_not_queued [OF inv] in \<open>simp_all add: pq_wf_push, simp add: pq_push_def\<close>)
  show "idle_rxbuf_list (snd (phl_release_rxbuf_usb st b)) = snd (pq_push (idle_rxbuf_list st) b Pos_tail)"
    by (simp add: st)
qed

text \<open>A buffer on a list has no users.\<close>

lemma popped_idle:
  assumes inv: "buf_inv n B d st" and pop: "pq_pop (idle_rxbuf_list st) Pos_first = (True, PNode b, q)"
  shows "buf_inv n (add_mset b B) d (st\<lparr>idle_rxbuf_list := q\<rparr>)"
  by (rule buf_inv_move [OF inv])
    (use buf_invD(1-3) [OF inv] pq_wf_shrink [OF pop] pq_pop_shrinks [OF pop] in simp_all)

lemma popped_pend:
  assumes inv: "buf_inv n B d st" and pop: "pq_pop (pend_rxbuf_list st) Pos_first = (True, PNode b, q)"
  shows "buf_inv n (add_mset b B) d (st\<lparr>pend_rxbuf_list := q\<rparr>)"
  by (rule buf_inv_move [OF inv])
    (use buf_invD(1-3) [OF inv] pq_wf_shrink [OF pop] pq_pop_shrinks [OF pop] in simp_all)

lemma in_hand_count:
  assumes "buf_inv n (add_mset b B) (\<lambda>_. 0) st"
  shows "pktcnt (rxbufs st b) = 0"
  using in_hand_not_queued(4) [OF assms] buf_invD(5) [OF assms, of b] by simp

lemma del_busy:
  assumes inv: "buf_inv n B d st" and b: "b \<in> set (pq_queue (busy_rxbuf_list st))"
  shows "buf_inv n (add_mset b B) d (st\<lparr>busy_rxbuf_list := pq_del_node (busy_rxbuf_list st) (Some b)\<rparr>)"
proof -
  have "mset (remove1 b (pq_queue (busy_rxbuf_list st))) + {#b#} = mset (pq_queue (busy_rxbuf_list st))"
    using b by simp
  then show ?thesis
    by (intro buf_inv_move [OF inv])
      (use buf_invD(1-3) [OF inv] b in \<open>simp_all add: pq_wf_del, simp add: pq_del_node_def\<close>)
qed

lemma in_token_inv:
  assumes inv: "buf_inv n B (\<lambda>_. 0) st" and tok: "phl_in_token_usb True urb_ok st pipe = (sts, st')"
  shows "buf_inv n B (\<lambda>_. 0) st'"
proof (cases "fst (pq_pop (idle_rxbuf_list st) Pos_first)")
  case False
  with tok inv show ?thesis by (auto simp: phl_in_token_usb_def pq_pop_def split: if_splits)
next
  case True
  then obtain b q where pop: "pq_pop (idle_rxbuf_list st) Pos_first = (True, PNode b, q)"
    by (auto simp: pq_pop_def split: if_splits)
  define st1 where "st1 = upd_rxbuf b (\<lambda>a. a\<lparr>pipe_idx := pipe\<rparr>) (st\<lparr>idle_rxbuf_list := q\<rparr>)"
  have h: "buf_inv n (add_mset b B) (\<lambda>_. 0) st1"
    by (rule buf_inv_move [OF popped_idle [OF inv pop]])
      (use buf_invD(1-3) [OF popped_idle [OF inv pop]] in \<open>simp_all add: st1_def\<close>)
  define st2 where "st2 = st1\<lparr>busy_rxbuf_list := snd (pq_push (busy_rxbuf_list st1) b Pos_tail)\<rparr>"
  have i2: "buf_inv n B (\<lambda>_. 0) st2" unfolding st2_def
    by (rule buf_inv_move [OF h])
      (use buf_invD(1-3) [OF h] in_hand_not_queued [OF h] in \<open>simp_all add: pq_wf_push, simp add: pq_push_def\<close>)
  have b2: "b \<in> set (pq_queue (busy_rxbuf_list st2))" by (simp add: st2_def pq_push_def)
  note d = del_busy [OF i2 b2]
  from release_in_hand(1) [OF d in_hand_count [OF d]] i2 tok pop show ?thesis
    by (auto simp: phl_in_token_usb_def Let_def st2_def st1_def split: if_splits)
qed

lemma pend_rxbuf_inv:
  assumes inv: "buf_inv n B (\<lambda>_. 0) st" and b: "b \<in> set (pq_queue (busy_rxbuf_list st))"
    and pe: "phl_pend_rxbuf_usb True urb_ok st b len ok = (sts, tm, st')"
  shows "buf_inv n B (\<lambda>_. 0) st'"
proof -
  define st1 where "st1 = st\<lparr>busy_rxbuf_list := pq_del_node (busy_rxbuf_list st) (Some b)\<rparr>"
  have h: "buf_inv n (add_mset b B) (\<lambda>_. 0) st1" using del_busy [OF inv b] by (simp add: st1_def)
  show ?thesis
  proof (cases ok)
    case False
    with pe b release_in_hand(1) [OF h in_hand_count [OF h]] show ?thesis
      by (auto simp: phl_pend_rxbuf_usb_def Let_def st1_def)
  next
    case True
    define st2 where "st2 = upd_rxbuf b (\<lambda>a. a\<lparr>transfer_len := len\<rparr>) st1"
    define st3 where "st3 = st2\<lparr>pend_rxbuf_list := snd (pq_push (pend_rxbuf_list st2) b Pos_tail)\<rparr>"
    have "buf_inv n B (\<lambda>_. 0) st3"
      by (rule buf_inv_move [OF h])
        (use buf_invD(1-3) [OF h] in_hand_not_queued [OF h] in
          \<open>simp_all add: st3_def st2_def pq_wf_push, simp add: pq_push_def\<close>)
    moreover obtain tok st4 where t: "phl_in_token_usb True urb_ok st3 (pipe_idx (rxbufs st3 b)) = (tok, st4)"
      by fastforce
    ultimately have "buf_inv n B (\<lambda>_. 0) st4" using in_token_inv by blast
    moreover have "pq_queue (busy_rxbuf_list st) \<noteq> []" using b by auto
    then have "st' = st4" using pe t True
      by (simp add: phl_pend_rxbuf_usb_def Let_def st1_def st2_def st3_def)
    ultimately show ?thesis by simp
  qed
qed

text \<open>
  What is known of the buffers under way: requests are made on the packet pipe only, and a transfer has
  at most 255 times the smallest number of bytes a packet takes.
\<close>

definition lists_ok :: "int \<Rightarrow> 'q phl_rx_ctl \<Rightarrow> bool" where
  "lists_ok adv st \<longleftrightarrow>
     (\<forall>b \<in> set (pq_queue (busy_rxbuf_list st)) \<union> set (pq_queue (pend_rxbuf_list st)). pipe_idx (rxbufs st b) = 0) \<and>
     (\<forall>b \<in> set (pq_queue (pend_rxbuf_list st)). sint (transfer_len (rxbufs st b)) \<le> 255 * adv)"

lemma release_rxbuf_lists [simp]: "lists_ok adv (snd (phl_release_rxbuf_usb st b)) = lists_ok adv st"
  by (auto simp: lists_ok_def phl_release_rxbuf_usb_def Let_def)

interpretation lists: bus_predicate "lists_ok adv" for adv
proof unfold_locales
  show "lists_ok adv (phl_recycle_rx_buf st p)" if "lists_ok adv st" for st :: "'a phl_rx_ctl" and p
    using that by (auto simp: phl_recycle_rx_buf_def lists_ok_def phl_release_rxbuf_usb_def Let_def split: option.splits)
  show "lists_ok adv st'" if "lists_ok adv st" "bus_eq st st'" for st st' :: "'a phl_rx_ctl"
    using that by (simp add: lists_ok_def bus_eq_def)
qed

lemma in_token_lists:
  assumes "lists_ok adv st" and "phl_in_token_usb hal_ok urb_ok st 0 = (sts, st')"
  shows "lists_ok adv st'"
proof (cases "fst (pq_pop (idle_rxbuf_list st) Pos_first)")
  case False
  with assms show ?thesis by (auto simp: phl_in_token_usb_def pq_pop_def split: if_splits)
next
  case True
  then obtain b q where pop: "pq_pop (idle_rxbuf_list st) Pos_first = (True, PNode b, q)"
    by (auto simp: pq_pop_def split: if_splits)
  let ?st = "upd_rxbuf b (\<lambda>a. a\<lparr>pipe_idx := 0\<rparr>) (st\<lparr>idle_rxbuf_list := q\<rparr>)"
  have "lists_ok adv (?st\<lparr>busy_rxbuf_list := snd (pq_push (busy_rxbuf_list st) b Pos_tail)\<rparr>)"
    "lists_ok adv (?st\<lparr>busy_rxbuf_list := pq_del_node (snd (pq_push (busy_rxbuf_list st) b Pos_tail)) (Some b)\<rparr>)"
    "lists_ok adv (st\<lparr>idle_rxbuf_list := q\<rparr>)"
    using assms(1) by (auto simp: lists_ok_def pq_push_def pq_del_node_def dest: notin_set_remove1)
  with assms(2) pop show ?thesis by (auto simp: phl_in_token_usb_def Let_def split: if_splits)
qed

lemma pend_rxbuf_lists:
  assumes ok: "lists_ok adv st" and b: "b \<in> set (pq_queue (busy_rxbuf_list st))" and len: "sint len \<le> 255 * adv"
    and pe: "phl_pend_rxbuf_usb hal_ok urb_ok st b len okc = (sts, tm, st')"
  shows "lists_ok adv st'"
proof -
  define st1 where "st1 = st\<lparr>busy_rxbuf_list := pq_del_node (busy_rxbuf_list st) (Some b)\<rparr>"
  have "set (remove1 b xs) \<subseteq> set xs" for xs :: "rxbuf_id list" by (rule set_remove1_subset)
  then have l1: "lists_ok adv st1" using ok by (simp add: st1_def lists_ok_def pq_del_node_def) blast
  define st3 where "st3 = (upd_rxbuf b (\<lambda>a. a\<lparr>transfer_len := len\<rparr>) st1)
    \<lparr>pend_rxbuf_list := snd (pq_push (pend_rxbuf_list st1) b Pos_tail)\<rparr>"
  have p3: "pipe_idx (rxbufs st3 b) = 0" using ok b by (simp add: st3_def st1_def lists_ok_def)
  have l3: "lists_ok adv st3" using l1 p3 len by (auto simp: st3_def lists_ok_def pq_push_def)
  obtain tok st4 where t: "phl_in_token_usb hal_ok urb_ok st3 0 = (tok, st4)" by fastforce
  have "pq_queue (busy_rxbuf_list st) \<noteq> []" using b by auto
  with pe t p3 l1 in_token_lists [OF l3 t] show ?thesis
    by (cases okc) (auto simp: phl_pend_rxbuf_usb_def Let_def st1_def st3_def)
qed

section \<open>Cutting a transfer\<close>

text \<open>
  What the descriptors say of a transfer: every packet takes at least \<open>adv\<close> bytes, and sequence
  numbers have twelve bits.
\<close>

definition hal_ok :: "int \<Rightarrow> (int \<Rightarrow> int \<Rightarrow> hal_rx option) \<Rightarrow> bool" where
  "hal_ok adv hal \<longleftrightarrow>
     0 < adv \<and> (\<forall>off tlen h. hal off tlen = Some h \<longrightarrow>
        adv \<le> align8 (hr_shift h + uint (hr_length h)) \<and> unat (md_seq (hr_mdata h)) < 4096)"

text \<open>One round of the loop, in front of the test of the remaining length.\<close>

lemma get_single_unfold:
  assumes "get_single_loop hal nb b off tlen st ps brel rc = res"
  obtains (none) "rtw_phl_query_phl_rx st = (None, st)" "res = (st, ps, brel, rc)"
  | (fail) p st1 where "rtw_phl_query_phl_rx st = (Some p, st1)" "res = (phl_release_phl_rx st1 p, ps, brel, rc)"
  | (cut) p st1 h al st2 tlen' brel' rc' where "rtw_phl_query_phl_rx st = (Some p, st1)" "hal off tlen = Some h"
      "st2 = upd_pkt p (cut_pkt b al h) st1" "tlen' = tlen - align8 (hr_shift h + uint (hr_length h))"
      "brel' = (if al then brel else False)" "rc' = (if al then rc else rc + 1)"
      "res = (if tlen' > 0 then get_single_loop hal nb b (off + align8 (hr_shift h + uint (hr_length h))) tlen' st2 (ps @ [p]) brel' rc'
              else (st2, ps @ [p], brel', rc'))"
proof -
  obtain x st1 where q: "rtw_phl_query_phl_rx st = (x, st1)" by fastforce
  show thesis
  proof (cases x)
    case None
    with q have "st1 = st" by (auto simp: rtw_phl_query_phl_rx_def split: list.splits)
    with q None assms show thesis by (intro none) (simp_all add: get_single_loop.simps)
  next
    case (Some p)
    show thesis
    proof (cases "hal off tlen")
      case None
      with q Some assms show thesis by (intro fail) (auto simp: get_single_loop.simps)
    next
      case h: (Some h)
      with q Some assms show thesis
        by (intro cut [OF _ _ refl refl refl refl, of p st1 h "cut_alloc nb off h"])
          (simp_all add: get_single_loop.simps [of hal nb b off tlen st] Let_def split del: if_split)
    qed
  qed
qed

text \<open>Packets leave the pool, and nothing but the cut is written to them.\<close>

lemma get_single_rx_wf:
  assumes "get_single_loop hal nb b off tlen st ps brel rc = (st', ps', brel', rc')"
    and "rx_wf st (mset ps + held)" and "hal_ok adv hal" and "\<forall>p. unat (pkt_seq st p) < 4096"
  shows "rx_wf st' (mset ps' + held) \<and> (\<forall>p. unat (pkt_seq st' p) < 4096)"
  using assms(1,2,4)
proof (induction "length (rx_idle st)" arbitrary: off tlen st ps brel rc rule: less_induct)
  case less
  from less.prems(1) show ?case
  proof (cases rule: get_single_unfold)
    case none
    then show ?thesis using less.prems by simp
  next
    case (fail p st1)
    have "rx_wf st1 (add_mset p (mset ps + held))" using query_phl_rx_wf [OF less.prems(2) fail(1)] .
    from release_phl_rx_wf [OF this] fail less.prems(3) show ?thesis
      by (auto simp: pkt_zero_def meta_zero_def rtw_phl_query_phl_rx_def split: list.splits)
  next
    case (cut p st1 h al st2 tlen' brel'' rc'')
    have "rx_wf st1 (add_mset p (mset ps + held))" using query_phl_rx_wf [OF less.prems(2) cut(1)] .
    from upd_held_wf [OF this] have w: "rx_wf st2 (mset (ps @ [p]) + held)" by (simp add: cut(3))
    have s: "\<forall>q. unat (pkt_seq st2 q) < 4096"
      using less.prems(3) cut(1,2) assms(3)
      by (auto simp: cut(3) cut_pkt_def hal_ok_def rtw_phl_query_phl_rx_def split: list.splits)
    have "length (rx_idle st2) < length (rx_idle st)" using query_phl_rx_shrinks [OF cut(1)] by (simp add: cut(3))
    from less.hyps [OF this _ w s] cut(7) w s show ?thesis by (auto split: if_splits)
  qed
qed

lemma buf_inv_query:
  assumes inv: "buf_inv n B d st" and q: "rtw_phl_query_phl_rx st = (Some p, st')"
  shows "buf_inv n B d st'"
proof -
  from q obtain ps where i: "rx_idle st = p # ps" and st': "st' = st\<lparr>rx_idle := ps, idle_cnt := idle_cnt st - 1\<rparr>"
    by (auto simp: rtw_phl_query_phl_rx_def split: list.splits)
  have "buf_users st' = buf_users st" by (simp add: st' buf_users_def fun_eq_iff)
  with inv i show ?thesis by (simp add: st' buf_inv_def buf_places_def bufs_in_use_def)
qed

lemma query_phl_rx_frame:
  "rtw_phl_query_phl_rx st = (Some p, st') \<Longrightarrow>
     rxbufs st' = rxbufs st \<and> busy_rxbuf_list st' = busy_rxbuf_list st \<and>
     pend_rxbuf_list st' = pend_rxbuf_list st \<and> pkts st' = pkts st"
  by (auto simp: rtw_phl_query_phl_rx_def split: list.splits)

text \<open>A packet that is not idle starts to point into the buffer being cut.\<close>

lemma buf_inv_cut:
  assumes inv: "buf_inv n (add_mset b B) ((\<lambda>_. 0)(b := int k)) st"
    and p: "p \<notin> set (rx_idle st)" "rxbuf_ptr (pkts st p) = None"
  shows "buf_inv n (add_mset b B) ((\<lambda>_. 0)(b := int (if al then k else Suc k))) (upd_pkt p (cut_pkt b al h) st)"
proof -
  note D = buf_invD [OF inv]
  let ?st = "upd_pkt p (cut_pkt b al h) st"
  have u: "buf_users ?st e = (if e = b \<and> \<not> al then insert p (buf_users st b) else buf_users st e)" for e
    using p(2) by (auto simp: buf_users_def cut_pkt_def)
  have "p \<notin> buf_users st b" using p(2) by (simp add: buf_users_def)
  then have "finite (buf_users ?st e) \<and>
      pktcnt (rxbufs ?st e) + ((\<lambda>_. 0)(b := int (if al then k else Suc k))) e = int (card (buf_users ?st e))" for e
    using D(4,5) [of e] by (auto simp: u)
  moreover have "\<forall>e. buf_users ?st e \<noteq> {} \<longrightarrow> e < n" using D(6) in_hand_not_queued(5) [OF inv] by (auto simp: u)
  moreover have "\<forall>q \<in> set (rx_idle ?st). rxbuf_ptr (pkts ?st q) = None" using D(7) p(1) by auto
  moreover have "buf_places n ?st = buf_places n st" by (simp add: buf_places_def bufs_in_use_def)
  ultimately show ?thesis using D(1-3,8) unfolding buf_inv_def by simp
qed

lemma get_single_bufs:
  assumes "get_single_loop hal nb b off tlen st ps brel rc = (st', ps', brel', rc')"
    and "buf_inv n (add_mset b B) ((\<lambda>_. 0)(b := int k)) st" and "distinct (rx_idle st)"
    and "hal_ok adv hal" and "brel = (k = 0)" and "rc = of_nat k"
    and "k \<le> c" and "c < 255" and "tlen \<le> (255 - int c) * adv"
  shows "\<exists>k'. buf_inv n (add_mset b B) ((\<lambda>_. 0)(b := int k')) st' \<and> rxbufs st' = rxbufs st \<and>
     brel' = (k' = 0) \<and> rc' = of_nat k' \<and> k' \<le> 255 \<and> k' + length ps \<le> k + length ps' \<and>
     busy_rxbuf_list st' = busy_rxbuf_list st \<and> pend_rxbuf_list st' = pend_rxbuf_list st"
  using assms(1,2,3,5-9)
proof (induction "length (rx_idle st)" arbitrary: off tlen st ps brel rc k c rule: less_induct)
  case less
  from less.prems(1) show ?case
  proof (cases rule: get_single_unfold)
    case none
    then show ?thesis using less.prems by (intro exI [of _ k]) simp
  next
    case (fail p st1)
    note F = query_phl_rx_frame [OF fail(1)]
    have p0: "rxbuf_ptr (pkts st p) = None"
      using query_phl_rx_shrinks [OF fail(1)] buf_invD(7) [OF less.prems(2)] by simp
    from buf_inv_release_phl_rx [OF buf_inv_query [OF less.prems(2) fail(1)]] p0 F fail(2) less.prems show ?thesis
      by (intro exI [of _ k]) simp
  next
    case (cut p st1 h al st2 tlen' brel'' rc'')
    note F = query_phl_rx_frame [OF cut(1)]
    have idle: "rx_idle st = p # rx_idle st1" using query_phl_rx_shrinks [OF cut(1)] .
    have p0: "rxbuf_ptr (pkts st1 p) = None" using idle buf_invD(7) [OF less.prems(2)] F by simp
    define k2 where "k2 = (if al then k else Suc k)"
    have i2: "buf_inv n (add_mset b B) ((\<lambda>_. 0)(b := int k2)) st2"
      unfolding cut(3) k2_def
      by (rule buf_inv_cut [OF buf_inv_query [OF less.prems(2) cut(1)]]) (use idle less.prems(3) p0 in simp_all)
    have adv: "0 < adv" "adv \<le> align8 (hr_shift h + uint (hr_length h))" using assms(4) cut(2) by (auto simp: hal_ok_def)
    have t2: "tlen' \<le> (255 - int (Suc c)) * adv" using less.prems(8) adv(2) by (simp add: cut(4) algebra_simps)
    have f2: "rxbufs st2 = rxbufs st" "busy_rxbuf_list st2 = busy_rxbuf_list st" "pend_rxbuf_list st2 = pend_rxbuf_list st"
      "length (rx_idle st2) < length (rx_idle st)" "distinct (rx_idle st2)"
      using F idle less.prems(3) by (simp_all add: cut(3))
    have b2: "brel'' = (k2 = 0)" "rc'' = of_nat k2" "k2 \<le> Suc c" and k2: "k2 \<le> Suc k"
      using less.prems(4-6) by (auto simp: cut(5,6) k2_def)
    show ?thesis
    proof (cases "tlen' > 0")
      case True
      have "Suc c < 255"
      proof (rule ccontr)
        assume "\<not> Suc c < 255"
        then have "(255 - int (Suc c)) * adv \<le> 0" using less.prems(7) adv(1) by (simp add: mult_nonpos_nonneg)
        with t2 True show False by simp
      qed
      moreover have "get_single_loop hal nb b (off + align8 (hr_shift h + uint (hr_length h))) tlen' st2 (ps @ [p]) brel'' rc''
          = (st', ps', brel', rc')" using cut(7) True by simp
      ultimately show ?thesis using less.hyps [OF f2(4) _ i2 f2(5) b2 _ t2] f2 k2 by fastforce
    next
      case False
      then show ?thesis using cut(7) i2 f2 b2 k2 less.prems(7) by (intro exI [of _ k2]) simp
    qed
  qed
qed

text \<open>The counter catches up with the packets that were cut.\<close>

lemma buf_inv_settle:
  assumes inv: "buf_inv n (add_mset b B) ((\<lambda>_. 0)(b := int k)) st" and k: "k \<noteq> 0" and z: "pktcnt (rxbufs st b) = 0"
  shows "buf_inv n B (\<lambda>_. 0) (upd_rxbuf b (\<lambda>a. a\<lparr>pktcnt := int k\<rparr>) st)"
proof -
  note D = buf_invD [OF inv]
  let ?x = "(rxbufs st b)\<lparr>pktcnt := int k\<rparr>"
  let ?st = "upd_rxbuf b (\<lambda>a. a\<lparr>pktcnt := int k\<rparr>) st"
  have u: "buf_users ?st = buf_users st" by (simp add: buf_users_def fun_eq_iff)
  have "b \<notin># bufs_in_use n st" using z by (simp add: bufs_in_use_def)
  then have "bufs_in_use n ?st = add_mset b (bufs_in_use n st)"
    using bufs_in_use_upd [OF in_hand_not_queued(5) [OF inv], of st ?x] k
    by (simp add: bufs_in_use_def [of n ?st] diff_single_trivial)
  then have "buf_places n ?st + B = mset_set {..<n}" using D(8) by (simp add: buf_places_def)
  moreover have "pktcnt (rxbufs ?st e) + 0 = int (card (buf_users ?st e))" for e
    using D(5) [of e] z by (auto simp: u)
  ultimately show ?thesis using D(1-4,6,7) unfolding buf_inv_def u by simp
qed

lemma rx_wf_distinct_idle:
  assumes "rx_wf st held"
  shows "distinct (rx_idle st)"
proof -
  have "mset (rx_idle st) \<subseteq># mset_set {..<MAX_PHL_RING_RX_PKT_NUM}"
    using rx_wfD(5) [OF assms, symmetric] by (simp add: pkt_places_def union_assoc)
  then have le: "count (mset (rx_idle st)) p \<le> count (mset_set {..<MAX_PHL_RING_RX_PKT_NUM}) p" for p
    by (rule mset_subset_eq_count)
  have "count (mset_set {..<MAX_PHL_RING_RX_PKT_NUM}) p \<le> 1" for p
    by (cases "p < MAX_PHL_RING_RX_PKT_NUM") simp_all
  with le have "count (mset (rx_idle st)) p \<le> 1" for p by (rule order_trans)
  moreover have "count (mset (rx_idle st)) p \<noteq> 0 \<longleftrightarrow> p \<in> set (rx_idle st)" for p by simp
  ultimately have "count (mset (rx_idle st)) p = (if p \<in> set (rx_idle st) then 1 else 0)" for p
    by (metis le_antisym less_one not_le)
  then show ?thesis by (simp add: distinct_count_atmost_1)
qed

text \<open>
  A transfer is cut: either packets come out and the buffer is accounted for (back on the idle list,
  or counted by the packets that point into it), or none does and the buffer stays in hand.
\<close>

lemma get_single_rx_ok:
  assumes inv: "buf_inv n (add_mset b B) (\<lambda>_. 0) st" and wf: "rx_wf st held"
    and sq: "\<forall>p. unat (pkt_seq st p) < 4096" and hal: "hal_ok adv hal"
    and len: "sint (transfer_len (rxbufs st b)) \<le> 255 * adv" and ok: "lists_ok adv st"
    and g: "phl_get_single_rx hal nb st b = (ps, st')"
  shows "buf_inv n (if ps = [] then add_mset b B else B) (\<lambda>_. 0) st' \<and> rx_wf st' (mset ps + held) \<and>
     (\<forall>p. unat (pkt_seq st' p) < 4096) \<and> lists_ok adv st'"
proof -
  obtain st1 ps1 brel rc where l: "get_single_loop hal nb b 0 (sint (transfer_len (rxbufs st b))) st [] True 0 = (st1, ps1, brel, rc)"
    by (metis prod_cases4)
  have ps: "ps1 = ps" using g l by (simp add: phl_get_single_rx_def)
  have fun0: "(\<lambda>_. 0)(b := int 0) = (\<lambda>_. 0 :: int)" by auto
  have inv0: "buf_inv n (add_mset b B) ((\<lambda>_. 0)(b := int 0)) st" unfolding fun0 by (rule inv)
  have len0: "sint (transfer_len (rxbufs st b)) \<le> (255 - int 0) * adv" using len by simp
  have "\<exists>k'. buf_inv n (add_mset b B) ((\<lambda>_. 0)(b := int k')) st1 \<and> rxbufs st1 = rxbufs st \<and>
     brel = (k' = 0) \<and> rc = of_nat k' \<and> k' \<le> 255 \<and> k' + length ([] :: pkt_id list) \<le> 0 + length ps1 \<and>
     busy_rxbuf_list st1 = busy_rxbuf_list st \<and> pend_rxbuf_list st1 = pend_rxbuf_list st"
    by (rule get_single_bufs [OF l inv0 rx_wf_distinct_idle [OF wf] hal _ _ _ _ len0]) simp_all
  then obtain k where
    K: "buf_inv n (add_mset b B) ((\<lambda>_. 0)(b := int k)) st1" "rxbufs st1 = rxbufs st" "brel = (k = 0)" "rc = of_nat k"
      "k \<le> 255" "k \<le> length ps" "busy_rxbuf_list st1 = busy_rxbuf_list st" "pend_rxbuf_list st1 = pend_rxbuf_list st"
    by (auto simp: ps)
  from get_single_rx_wf [OF l, of held adv] wf hal sq have W: "rx_wf st1 (mset ps + held)" "\<forall>p. unat (pkt_seq st1 p) < 4096"
    by (auto simp: ps)
  have z: "pktcnt (rxbufs st1 b) = 0" using in_hand_count [OF inv] K(2) by simp
  have ok1: "lists_ok adv st1" using ok K(2,7,8) by (simp add: lists_ok_def)
  have frame: "rx_wf st2 (mset ps + held)" "\<forall>p. unat (pkt_seq st2 p) < 4096"
    if "phl_rx_ring st2 = phl_rx_ring st1" "rx_idle st2 = rx_idle st1" "idle_cnt st2 = idle_cnt st1"
      "rx_stas st2 = rx_stas st1" "pkts st2 = pkts st1" for st2
    using that rx_wfD(4) [OF W(1)] W(2) by (auto intro: rx_wf_frame [OF W(1)])
  consider (none) "ps = []" "st' = st1" | (rel) "ps \<noteq> []" "k = 0" "st' = snd (phl_release_rxbuf_usb st1 b)"
  | (use) "ps \<noteq> []" "k \<noteq> 0" "st' = upd_rxbuf b (\<lambda>a. a\<lparr>pktcnt := uint rc\<rparr>) st1"
    using g l K(3) by (auto simp: phl_get_single_rx_def split: if_splits)
  then show ?thesis
  proof cases
    case none
    with K(1,6) W ok1 fun0 show ?thesis by simp
  next
    case rel
    have "buf_inv n B (\<lambda>_. 0) st'" using release_in_hand(1) [OF K(1) z] rel fun0 by simp
    with rel frame [of st'] ok1 show ?thesis by simp
  next
    case use
    have rc: "uint rc = int k" using K(4,5) by (simp add: uint_nat unat_of_nat)
    have "buf_inv n B (\<lambda>_. 0) st'" unfolding use(3) rc using K(1) use(2) z by (intro buf_inv_settle) simp_all
    moreover have "lists_ok adv st'" using ok1 by (auto simp: use(3) lists_ok_def)
    ultimately show ?thesis using use frame [of st'] by simp
  qed
qed

section \<open>The receive handler keeps track of buffers and packets\<close>

text \<open>
  The invariant of the receive side between two operations; \<open>held\<close> are the packets of the core,
  \<open>B\<close> the buffers in hand.
\<close>

definition usb_ok :: "nat \<Rightarrow> int \<Rightarrow> rxbuf_id multiset \<Rightarrow> 'q phl_rx_ctl \<Rightarrow> pkt_id multiset \<Rightarrow> bool" where
  "usb_ok n adv B st held \<longleftrightarrow>
     buf_inv n B (\<lambda>_. 0) st \<and> lists_ok adv st \<and> rx_wf st held \<and> (\<forall>p. unat (pkt_seq st p) < 4096)"

lemma usb_okD:
  assumes "usb_ok n adv B st held"
  shows "buf_inv n B (\<lambda>_. 0) st" "lists_ok adv st" "rx_wf st held" "\<forall>p. unat (pkt_seq st p) < 4096"
  using assms by (simp_all add: usb_ok_def)

lemma usb_okI:
  "buf_inv n B (\<lambda>_. 0) st \<Longrightarrow> lists_ok adv st \<Longrightarrow> rx_wf st held \<Longrightarrow> (\<forall>p. unat (pkt_seq st p) < 4096) \<Longrightarrow>
   usb_ok n adv B st held"
  by (simp add: usb_ok_def)

lemma process_pkt_ok:
  assumes "usb_ok n adv B st (add_mset p held)"
  shows "usb_ok n adv B (rx_process_pkt t1 t2 st p) held"
proof -
  note U = usb_okD [OF assms]
  have "rx_wf (rx_process_pkt t1 t2 st p) held"
    using recycle_rx_buf_wf [OF U(3)] rx_handle_normal_wf [OF U(3), of "t1 p" "t2 p"] U(4)
    by (auto simp: rx_process_pkt_def split: rtw_rx_type.split)
  with U(1,2) seqs.process_pkt [OF U(4)] show ?thesis
    unfolding usb_ok_def by (blast intro: bufs.process_pkt lists.process_pkt)
qed

lemma process_usb_ok:
  assumes "usb_ok n adv B st (mset ps + held)"
  shows "usb_ok n adv B (phl_rx_process_usb t1 t2 st ps) held"
  using assms unfolding phl_rx_process_usb_def
  by (induction ps arbitrary: st) (auto dest: process_pkt_ok)

lemma usb_ok_release:
  assumes "usb_ok n adv (add_mset b B) st held"
  shows "usb_ok n adv B (snd (phl_release_rxbuf_usb st b)) held"
proof -
  note U = usb_okD [OF assms]
  have "rx_wf (snd (phl_release_rxbuf_usb st b)) held"
    by (rule rx_wf_frame [OF U(3)]) (use rx_wfD(4) [OF U(3)] in simp_all)
  with U release_in_hand(1) [OF U(1) in_hand_count [OF U(1)]] show ?thesis by (simp add: usb_ok_def)
qed

lemma rx_usb_turn_ok:
  assumes ok: "usb_ok n adv (add_mset b B) st held" and hal: "hal_ok adv (hal b)"
    and pipe: "pipe_idx (rxbufs st b) = 0" and len: "sint (transfer_len (rxbufs st b)) \<le> 255 * adv"
    and t: "rx_usb_turn hal nb t1 t2 phl_rx st b = (phl_rx', st')"
  shows "usb_ok n adv B st' held"
proof -
  note U = usb_okD [OF ok]
  obtain ps st1 where g: "phl_get_single_rx (hal b) nb st b = (ps, st1)" by fastforce
  have k: "usb_ok n adv (if ps = [] then add_mset b B else B) st1 (mset ps + held)"
    using get_single_rx_ok [OF U(1,3,4) hal len U(2) g] by (simp add: usb_ok_def)
  show ?thesis
  proof (cases ps)
    case Nil
    with k t g pipe usb_ok_release [of n adv b B st1 held] show ?thesis by (auto simp: rx_usb_turn_def)
  next
    case (Cons p qs)
    with k process_usb_ok [of n adv B st1 ps held t1 t2] t g pipe show ?thesis by (auto simp: rx_usb_turn_def)
  qed
qed

lemma rx_usb_loop_ok:
  assumes "usb_ok n adv {#} st held" and "\<forall>b. hal_ok adv (hal b)"
  shows "usb_ok n adv {#} (rx_usb_loop hal nb t1 t2 phl_rx st) held"
  using assms(1)
proof (induction "length (pq_queue (pend_rxbuf_list st))" arbitrary: st phl_rx rule: less_induct)
  case less
  show ?case
  proof (cases "pq_queue (pend_rxbuf_list st)")
    case Nil
    then show ?thesis using less.prems by (simp add: rx_usb_loop.simps pq_pop_def)
  next
    case (Cons b bs)
    note U = usb_okD [OF less.prems]
    have cnt: "0 < pq_cnt (pend_rxbuf_list st)" using buf_invD(3) [OF U(1)] Cons by (simp add: pq_wf_def)
    define q where "q = (pend_rxbuf_list st)\<lparr>pq_queue := bs, pq_cnt := pq_cnt (pend_rxbuf_list st) - 1\<rparr>"
    have pop: "pq_pop (pend_rxbuf_list st) Pos_first = (True, PNode b, q)" using cnt by (simp add: pq_pop_def Cons q_def)
    let ?st = "st\<lparr>pend_rxbuf_list := q\<rparr>"
    obtain phl_rx' st' where t: "rx_usb_turn hal nb t1 t2 phl_rx ?st b = (phl_rx', st')" by fastforce
    have "rx_wf ?st held" by (rule rx_wf_frame [OF U(3)]) (use rx_wfD(4) [OF U(3)] in simp_all)
    then have "usb_ok n adv {#b#} ?st held"
      using popped_pend [OF U(1) pop] U(2,4) Cons by (simp add: usb_ok_def lists_ok_def q_def)
    then have ok: "usb_ok n adv {#} st' held"
      by (rule rx_usb_turn_ok [OF _ _ _ _ t]) (use assms(2) U(2) Cons in \<open>simp_all add: lists_ok_def\<close>)
    have "pq_queue (pend_rxbuf_list st') = bs" using rx_usb_turn_pend_eq [OF t] by (simp add: q_def)
    then have "usb_ok n adv {#} (rx_usb_loop hal nb t1 t2 phl_rx' st') held" using ok Cons by (intro less.hyps) simp_all
    with cnt show ?thesis by (subst rx_usb_loop.simps) (simp add: pop t)
  qed
qed

section \<open>Initialisation and the life of the receive side\<close>

lemma rx_init_fold:
  "pq_queue (idle_rxbuf_list (fold rx_init_buf bs st)) = pq_queue (idle_rxbuf_list st) @ bs \<and>
    pq_cnt (idle_rxbuf_list (fold rx_init_buf bs st)) = pq_cnt (idle_rxbuf_list st) + int (length bs) \<and>
    busy_rxbuf_list (fold rx_init_buf bs st) = busy_rxbuf_list st \<and>
    pend_rxbuf_list (fold rx_init_buf bs st) = pend_rxbuf_list st \<and> pkts (fold rx_init_buf bs st) = pkts st \<and>
    phl_rx_ring (fold rx_init_buf bs st) = phl_rx_ring st \<and> rx_idle (fold rx_init_buf bs st) = rx_idle st \<and>
    idle_cnt (fold rx_init_buf bs st) = idle_cnt st \<and> rx_stas (fold rx_init_buf bs st) = rx_stas st \<and>
    pktcnt (rxbufs (fold rx_init_buf bs st) b) = (if b \<in> set bs then 0 else pktcnt (rxbufs st b))"
  by (induction bs arbitrary: st) (simp_all add: rx_init_buf_def pq_push_def)

text \<open>
  After initialisation all buffers whose memory was there are idle: \<open>n\<close> is the number of the first
  one that failed, or the number asked for.
\<close>

lemma usb_init_ok:
  assumes "phl_rx_init_usb True True buf_ok pipe_cnt num st = (sts, st')" and wf: "rx_wf st held"
    and users: "\<forall>p. rxbuf_ptr (pkts st p) = None" and cnt: "\<forall>b. pktcnt (rxbufs st b) = 0"
    and sq: "\<forall>p. unat (pkt_seq st p) < 4096"
  shows "usb_ok (length (takeWhile buf_ok [0..<unat (ucast pipe_cnt * num :: u32)])) adv {#} st' held"
proof -
  let ?all = "[0..<unat (ucast pipe_cnt * num :: u32)]"
  define bs where "bs = takeWhile buf_ok ?all"
  define st0 where "st0 = st\<lparr>idle_rxbuf_list := pq_init, busy_rxbuf_list := pq_init, pend_rxbuf_list := pq_init\<rparr>"
  have "bs = take (length bs) ?all" unfolding bs_def by (rule takeWhile_eq_take)
  moreover have "length bs \<le> unat (ucast pipe_cnt * num :: u32)" unfolding bs_def
    by (metis length_takeWhile_le length_upt minus_nat.diff_0)
  ultimately have bs0: "bs = [0..<length bs]" by (metis add_0 take_upt)
  then have dist: "distinct bs" by (metis distinct_upt)
  have st': "st' = fold rx_init_buf bs st0"
    using assms(1) by (simp add: phl_rx_init_usb_def bs_def st0_def Let_def)
  have F: "pq_queue (idle_rxbuf_list st') = bs" "pq_cnt (idle_rxbuf_list st') = int (length bs)"
    "busy_rxbuf_list st' = pq_init" "pend_rxbuf_list st' = pq_init" "pkts st' = pkts st"
    "phl_rx_ring st' = phl_rx_ring st" "rx_idle st' = rx_idle st" "idle_cnt st' = idle_cnt st"
    "rx_stas st' = rx_stas st" "\<And>b. pktcnt (rxbufs st' b) = 0"
    using rx_init_fold [of bs st0] cnt by (simp_all add: st' st0_def pq_init_def)
  have u: "buf_users st' b = {}" for b using users by (simp add: buf_users_def F)
  have "mset bs = mset_set {..<length bs}" by (metis bs0 mset_set_upto_eq_mset_upto)
  then have "buf_inv (length bs) {#} (\<lambda>_. 0) st'"
    using u users dist by (simp add: buf_inv_def buf_places_def bufs_in_use_def F pq_wf_def) (simp add: pq_init_def)
  moreover have "lists_ok adv st'" by (simp add: lists_ok_def F pq_init_def)
  moreover have "rx_wf st' held" by (rule rx_wf_frame [OF wf]) (use rx_wfD(4) [OF wf] F in simp_all)
  ultimately show ?thesis using sq by (simp add: usb_ok_def bs_def F)
qed

text \<open>The requests touch nothing but the bus side of the state.\<close>

definition rx_same :: "'q phl_rx_ctl \<Rightarrow> 'q phl_rx_ctl \<Rightarrow> bool" where
  "rx_same st st' \<longleftrightarrow>
     phl_rx_ring st' = phl_rx_ring st \<and> rx_idle st' = rx_idle st \<and> idle_cnt st' = idle_cnt st \<and>
     rx_stas st' = rx_stas st \<and> pkts st' = pkts st"

lemma usb_ok_same:
  assumes "usb_ok n adv B st held" and "rx_same st st'" and "buf_inv n B' (\<lambda>_. 0) st'" and "lists_ok adv st'"
  shows "usb_ok n adv B' st' held"
proof -
  note U = usb_okD [OF assms(1)]
  have "rx_wf st' held" by (rule rx_wf_frame [OF U(3)]) (use rx_wfD(4) [OF U(3)] assms(2) in \<open>simp_all add: rx_same_def\<close>)
  with assms U(4) show ?thesis by (simp add: usb_ok_def rx_same_def)
qed

lemma in_token_same: "phl_in_token_usb hok urb_ok st pipe = (sts, st') \<Longrightarrow> rx_same st st'"
  by (auto simp: phl_in_token_usb_def rx_same_def Let_def split: prod.splits bool.splits os_list_ptr.splits if_splits)

lemma in_token_ok:
  assumes "usb_ok n adv B st held" and "phl_in_token_usb True urb_ok st 0 = (sts, st')"
  shows "usb_ok n adv B st' held"
  using assms(1) in_token_same [OF assms(2)] in_token_inv [OF usb_okD(1) [OF assms(1)] assms(2)]
    in_token_lists [OF usb_okD(2) [OF assms(1)] assms(2)]
  by (rule usb_ok_same)

lemma pend_rxbuf_ok:
  assumes ok: "usb_ok n adv B st held" and b: "b \<in> set (pq_queue (busy_rxbuf_list st))" and len: "sint len \<le> 255 * adv"
    and pe: "phl_pend_rxbuf_usb True urb_ok st b len okc = (sts, tm, st')"
  shows "usb_ok n adv B st' held"
proof -
  have "rx_same st st'"
    using pe by (auto simp: phl_pend_rxbuf_usb_def Let_def rx_same_def split: prod.splits if_splits
        dest!: in_token_same)
  then show ?thesis
    using usb_ok_same [OF ok] pend_rxbuf_inv [OF usb_okD(1) [OF ok] b pe] pend_rxbuf_lists [OF usb_okD(2) [OF ok] b len pe]
    by blast
qed

lemma rx_start_loop_ok:
  assumes "usb_ok n adv B st held" and "\<forall>i. fst (env i)" and "rx_start_loop env k i sts st = (sts', st')"
  shows "usb_ok n adv B st' held \<and> (sts' = RTW_PHL_STATUS_SUCCESS \<longrightarrow> sts = RTW_PHL_STATUS_SUCCESS \<longrightarrow> k \<le> pq_cnt (busy_rxbuf_list st'))"
  using assms
proof (induction env k i sts st rule: rx_start_loop.induct)
  case (1 env k i sts st)
  show ?case
  proof (cases "pq_cnt (busy_rxbuf_list st) < k")
    case False
    then show ?thesis using 1(2,4) by (simp add: rx_start_loop.simps)
  next
    case True
    obtain sts1 st1 where t: "phl_in_token_usb True (snd (env i)) st 0 = (sts1, st1)" by fastforce
    then have t': "phl_in_token_usb (fst (env i)) (snd (env i)) st 0 = (sts1, st1)" using 1(3) by simp
    show ?thesis
      using 1(1) [OF True t' [symmetric]] in_token_ok [OF 1(2) t] 1(3,4) True t'
      by (auto simp: rx_start_loop.simps [of env k i sts st] split: if_splits)
  qed
qed

lemma deferred_in_token_ok:
  assumes ok: "usb_ok n adv B st held" and env: "\<forall>i. fst (env i)"
    and d: "phl_rx_deferred_in_token env mb k st = (tm, st')"
  shows "usb_ok n adv B st' held"
proof -
  obtain sts1 st1 where s: "phl_rx_start_usb env mb k st = (sts1, st1)" by fastforce
  have ok1: "usb_ok n adv B st1 held"
    using s ok rx_start_loop_ok [OF ok env] by (auto simp: phl_rx_start_usb_def split: if_splits)
  note U = usb_okD [OF ok1]
  have "usb_ok n adv B (phl_indic_new_rxpkt st1) held"
    by (rule usb_ok_same [OF ok1 _ bufs.frame [OF U(1)] lists.frame [OF U(2)]])
      (simp_all add: phl_indic_new_rxpkt_def rx_same_def bus_eq_def)
  with ok1 d s show ?thesis by (auto simp: phl_rx_deferred_in_token_def split: if_splits)
qed

text \<open>
  The operations that touch the receive side: bulk-in requests and their completion, the receive
  handler, the core taking and returning packets, reorder timers, block ack requests and sessions.
  The hardware layer answers, descriptors are sound, and completions carry a length that fits.
\<close>

inductive usb_step ::
  "int \<Rightarrow> 'q phl_rx_ctl \<times> pkt_id multiset \<Rightarrow> 'q phl_rx_ctl \<times> pkt_id multiset \<Rightarrow> bool" for adv where
  request: "\<forall>i. fst (env i) \<Longrightarrow> phl_rx_start_usb env mb k st = (sts, st') \<Longrightarrow> usb_step adv (st, held) (st', held)"
| deferred: "\<forall>i. fst (env i) \<Longrightarrow> phl_rx_deferred_in_token env mb k st = (tm, st') \<Longrightarrow>
    usb_step adv (st, held) (st', held)"
| complete: "b \<in> set (pq_queue (busy_rxbuf_list st)) \<Longrightarrow> sint len \<le> 255 * adv \<Longrightarrow>
    phl_pend_rxbuf_usb True urb_ok st b len okc = (sts, tm, st') \<Longrightarrow> usb_step adv (st, held) (st', held)"
| receive: "\<forall>b. hal_ok adv (hal b) \<Longrightarrow> phl_rx_usb hal nb t1 t2 st = (sts, st') \<Longrightarrow>
    usb_step adv (st, held) (st', held)"
| query_rx: "rtw_phl_query_rx_pkt now st = (Some p, st') \<Longrightarrow> usb_step adv (st, held) (st', add_mset p held)"
| return_rx: "rtw_phl_return_rxbuf st (Some p) = (sts, st') \<Longrightarrow> usb_step adv (st, add_mset p held) (st', held)"
| timer: "s < PHL_MAX_STA_NUM \<Longrightarrow> usb_step adv (st, held) (phl_sta_rx_reorder_timer_expired clk st s, held)"
| bar: "s < PHL_MAX_STA_NUM \<Longrightarrow> unat sn < 4096 \<Longrightarrow>
    (\<And>r. tid_session st s (unat t) = Some r \<Longrightarrow> seq_dist (head_seq_num r) sn \<noteq> 2048) \<Longrightarrow>
    rtw_phl_rx_bar st s t sn = Some st' \<Longrightarrow> usb_step adv (st, held) (st', held)"
| start: "s < PHL_MAX_STA_NUM \<Longrightarrow> bsize = 0 \<or> ba_size_ok bsize \<Longrightarrow> unat sn < 4096 \<Longrightarrow>
    rtw_phl_start_rx_ba_session mem st s sn pol t16 bsize = Some (sts, st') \<Longrightarrow> usb_step adv (st, held) (st', held)"
| stop: "s < PHL_MAX_STA_NUM \<Longrightarrow> usb_step adv (st, held) (rtw_phl_stop_rx_ba_session st (Some s) t16, held)"

lemma usb_step_ok:
  assumes "usb_step adv c c'" and "usb_ok n adv {#} (fst c) (snd c)"
  shows "usb_ok n adv {#} (fst c') (snd c')"
  using assms
proof (induction rule: usb_step.induct)
  case (request env mb k st sts st' held)
  then have ok: "usb_ok n adv {#} st held" by simp
  show ?case using request(2) ok rx_start_loop_ok [OF ok request(1)]
    by (cases "mb > 0") (auto simp: phl_rx_start_usb_def)
next
  case (deferred env mb k st tm st' held)
  then show ?case using deferred_in_token_ok [OF _ deferred(1,2)] by simp
next
  case (complete b st len urb_ok okc sts tm st' held)
  then show ?case using pend_rxbuf_ok [OF _ complete(1-3)] by simp
next
  case (receive hal nb t1 t2 st sts st' held)
  then show ?case using rx_usb_loop_ok [of n adv st held hal nb t1 t2 False] by (simp add: phl_rx_usb_def)
next
  case (query_rx now st p st' held)
  then have ok: "usb_ok n adv {#} st held" and st': "snd (rtw_phl_query_rx_pkt now st) = st'" by simp_all
  note U = usb_okD [OF ok]
  have "rx_wf st' (add_mset p held)" using query_rx_pkt_wf [OF U(3) query_rx(1)] by simp
  from bufs.query_rx [OF U(1), of now] lists.query_rx [OF U(2), of now] this seqs.query_rx [OF U(4), of now]
  show ?case unfolding fst_conv snd_conv st' by (rule usb_okI)
next
  case (return_rx st p sts st' held)
  then have ok: "usb_ok n adv {#} st (add_mset p held)" and st': "st' = phl_recycle_rx_buf st p"
    by (simp_all add: rtw_phl_return_rxbuf_def)
  note U = usb_okD [OF ok]
  from bufs.recycle [OF U(1)] lists.recycle [OF U(2)] recycle_rx_buf_wf [OF U(3)] seqs.recycle [OF U(4)]
  show ?case unfolding fst_conv snd_conv st' by (rule usb_okI)
next
  case (timer s st held clk)
  then have ok: "usb_ok n adv {#} st held" by simp
  note U = usb_okD [OF ok]
  from bufs.timer_expired [OF U(1)] lists.timer_expired [OF U(2)] timer_expired_wf [OF U(3) timer(1)]
    seqs.timer_expired [OF U(4)]
  show ?case unfolding fst_conv snd_conv by (rule usb_okI)
next
  case (bar s sn st t st' held)
  then have ok: "usb_ok n adv {#} st held" by simp
  note U = usb_okD [OF ok]
  have "rx_wf st' held" by (rule rx_bar_wf [OF U(3) bar(1,2) _ bar(4)]) (rule bar(3))
  from bufs.bar [OF U(1) bar(4)] lists.bar [OF U(2) bar(4)] this seqs.bar [OF U(4) bar(4)]
  show ?case unfolding fst_conv snd_conv by (rule usb_okI)
next
  case (start s bsize sn mem st pol t16 sts st' held)
  then have ok: "usb_ok n adv {#} st held" by simp
  note U = usb_okD [OF ok]
  from bufs.start_ba [OF U(1) start(4)] lists.start_ba [OF U(2) start(4)] start_rx_ba_wf [OF U(3) start(1-4)]
    seqs.start_ba [OF U(4) start(4)]
  show ?case unfolding fst_conv snd_conv by (rule usb_okI)
next
  case (stop s st held t16)
  then have ok: "usb_ok n adv {#} st held" by simp
  note U = usb_okD [OF ok]
  from bufs.stop_ba [OF U(1)] lists.stop_ba [OF U(2)] stop_rx_ba_wf [OF U(3) stop(1)] seqs.stop_ba [OF U(4)]
  show ?case unfolding fst_conv snd_conv by (rule usb_okI)
qed

lemma usb_steps_ok:
  assumes "(usb_step adv)\<^sup>*\<^sup>* c c'" and "usb_ok n adv {#} (fst c) (snd c)"
  shows "usb_ok n adv {#} (fst c') (snd c')"
  using assms by (induction rule: rtranclp_induct) (auto dest: usb_step_ok)

section \<open>Properties\<close>

lemma bufs_in_use_users:
  assumes "buf_inv n B (\<lambda>_. 0) st"
  shows "bufs_in_use n st = mset_set {b. b < n \<and> (\<exists>p. rxbuf_ptr (pkts st p) = Some b)}"
proof -
  have "0 < pktcnt (rxbufs st b) \<longleftrightarrow> (\<exists>p. rxbuf_ptr (pkts st p) = Some b)" for b
    using buf_invD(4,5) [OF assms, of b] by (auto simp: buf_users_def card_gt_0_iff)
  then show ?thesis by (simp add: bufs_in_use_def)
qed


lemma demo_rx_pkts: "pkts demo_rx = (\<lambda>_. pkt_zero RTW_RX_TYPE_WIFI)" "rxbufs demo_rx = (\<lambda>_. \<lparr>transfer_len = 0, pipe_idx = 0, pktcnt = 0\<rparr>)"
  by (simp_all add: demo_rx_def phl_rx_init_def phl_alloc_recv_pkt_pool_def fill_pool del: upt_rec_numeral)


lemma rx_usb_loop_drains:
  assumes "pq_wf (pend_rxbuf_list st)"
  shows "pq_queue (pend_rxbuf_list (rx_usb_loop hal nb t1 t2 phl_rx st)) = [] \<and>
    pq_cnt (pend_rxbuf_list (rx_usb_loop hal nb t1 t2 phl_rx st)) = 0"
  using assms
proof (induction "pq_queue (pend_rxbuf_list st)" arbitrary: st phl_rx)
  case Nil
  then show ?case by (simp add: rx_usb_loop.simps pq_wf_def)
next
  case (Cons b bs)
  define q where "q = (pend_rxbuf_list st)\<lparr>pq_queue := bs, pq_cnt := pq_cnt (pend_rxbuf_list st) - 1\<rparr>"
  have cnt: "0 < pq_cnt (pend_rxbuf_list st)" using Cons.prems Cons.hyps(2) [symmetric] by (simp add: pq_wf_def)
  then have pop: "pq_pop (pend_rxbuf_list st) Pos_first = (True, PNode b, q)"
    by (simp add: pq_pop_def Cons.hyps(2) [symmetric] q_def)
  obtain phl_rx' st' where t: "rx_usb_turn hal nb t1 t2 phl_rx (st\<lparr>pend_rxbuf_list := q\<rparr>) b = (phl_rx', st')" by fastforce
  have p: "pend_rxbuf_list st' = q" using rx_usb_turn_pend_eq [OF t] by simp
  have "pq_wf q" using pq_wf_shrink [OF pop Cons.prems] by blast
  with Cons.hyps(1) [of st' phl_rx'] p have "pq_queue (pend_rxbuf_list (rx_usb_loop hal nb t1 t2 phl_rx' st')) = [] \<and>
    pq_cnt (pend_rxbuf_list (rx_usb_loop hal nb t1 t2 phl_rx' st')) = 0" by (simp add: q_def)
  with cnt pop t show ?case by (subst (1 2) rx_usb_loop.simps) simp
qed



text \<open>
  A buffer popped for a request is on no list any more when the size of the descriptor cannot be read;
  it is not given back.
\<close>

lemma in_token_loses_buffer:
  assumes "buf_inv n {#} (\<lambda>_. 0) st" and "pq_queue (idle_rxbuf_list st) = b # bs"
  shows "\<exists>st'. phl_in_token_usb False urb_ok st pipe = (RTW_PHL_STATUS_FAILURE, st') \<and> buf_inv n {#b#} (\<lambda>_. 0) st'"
proof -
  let ?q = "(idle_rxbuf_list st)\<lparr>pq_queue := bs, pq_cnt := pq_cnt (idle_rxbuf_list st) - 1\<rparr>"
  have "0 < pq_cnt (idle_rxbuf_list st)" using buf_invD(1) [OF assms(1)] assms(2) by (simp add: pq_wf_def)
  then have pop: "pq_pop (idle_rxbuf_list st) Pos_first = (True, PNode b, ?q)" using assms(2) by (simp add: pq_pop_def)
  from popped_idle [OF assms(1) pop] pop show ?thesis by (simp add: phl_in_token_usb_def)
qed

end
