(* ===== verification/Rtw_Mem.thy ===== *)
theory Rtw_Mem
  imports Phl_Prelude
begin

text \<open>
  Byte buffers of the core layer. A pointer into a buffer is an offset into the list of the bytes from
  the start of the buffer to the end of the memory behind it. Reading or writing outside gives
  \<open>None\<close>, where the C program runs into foreign memory.
\<close>

definition mem_get :: "bytes \<Rightarrow> nat \<Rightarrow> nat \<Rightarrow> bytes option" where
  "mem_get m off n = (if off + n \<le> length m then Some (take n (drop off m)) else None)"

definition mem_put :: "bytes \<Rightarrow> nat \<Rightarrow> bytes \<Rightarrow> bytes option" where
  "mem_put m off bs =
     (if off + length bs \<le> length m then Some (take off m @ bs @ drop (off + length bs) m) else None)"

lemma mem_put_get:
  assumes "mem_put m off bs = Some m'"
  shows "mem_get m' off (length bs) = Some bs" "length m' = length m" "off + length bs \<le> length m"
  using assms by (auto simp: mem_put_def mem_get_def split: if_splits)

lemma mem_put_put:
  assumes "mem_put m off bs = Some m'" and "length cs = length bs"
  shows "mem_put m' off cs = mem_put m off cs"
  using assms by (auto simp: mem_put_def split: if_splits)

lemma mem_get_before:
  assumes "mem_put m off bs = Some m'" and "i + n \<le> off"
  shows "mem_get m' i n = mem_get m i n"
  using assms by (auto simp: mem_put_def mem_get_def drop_take min_def split: if_splits)

lemma length_mem_get: "mem_get m off n = Some bs \<Longrightarrow> length bs = n"
  by (auto simp: mem_get_def split: if_splits)

end
