(* ===== verification/Phl_H2c.thy ===== *)
theory Phl_H2c
  imports Phl_Queue Rtw_Mem "HOL-Library.Multiset"
begin

text \<open>
  The pool of command packets to the firmware (H2C packets), the middle of \<^verbatim>\<open>phl/phl_tx.c\<close>: three idle
  lists by size, the busy list, the state of a packet between its uses, and setting up and freeing the
  pool. A packet is identified by its index in \<^verbatim>\<open>h2c_pkt_buf\<close>; the pointers into its buffer are offsets
  from \<^verbatim>\<open>vir_head\<close>. \<open>None\<close> is the access through a null pointer or behind the end of a buffer.
\<close>

section \<open>Data\<close>

datatype rtw_h2c_pkt_type = H2CB_TYPE_CMD | H2CB_TYPE_DATA | H2CB_TYPE_LONG_DATA | H2CB_TYPE_MAX

text \<open>\<open>h2c_mem\<close> is the buffer at \<^verbatim>\<open>vir_head\<close>; \<open>None\<close> when there is none.\<close>

record rtw_h2c_pkt =
  h2c_mem :: "bytes option"
  vir_data :: nat
  vir_end :: nat
  vir_tail :: nat
  h2c_type :: rtw_h2c_pkt_type
  h2c_id :: u32
  h2c_buf_len :: u32
  h2c_data_len :: u32
  h2c_cache :: bool
  h2c_host_idx :: u16
  h2c_seq :: u8

record phl_h2c_pkt_pool =
  h2c_pkt_buf :: "nat \<Rightarrow> rtw_h2c_pkt"
  idle_h2c_pkt_cmd_list :: "nat phl_queue"
  idle_h2c_pkt_data_list :: "nat phl_queue"
  idle_h2c_pkt_ldata_list :: "nat phl_queue"
  busy_h2c_pkt_list :: "nat phl_queue"

abbreviation MAX_H2C_PKT_NUM :: nat where "MAX_H2C_PKT_NUM \<equiv> 264"
abbreviation H2C_HEAD_LEN :: nat where "H2C_HEAD_LEN \<equiv> 32"

definition get_h2c_size_by_range :: "nat \<Rightarrow> u32" where
  "get_h2c_size_by_range i = (if i < 32 then 8 + 24 + 64 else if i < 32 + 32 then 8 + 24 + 256 else 8 + 24 + 8192)"

section \<open>Lists\<close>

definition enqueue_h2c_pkt :: "nat phl_queue \<Rightarrow> nat option \<Rightarrow> list_pos \<Rightarrow> rtw_phl_status \<times> nat phl_queue" where
  "enqueue_h2c_pkt q p pos =
     (case p of
        None \<Rightarrow> (RTW_PHL_STATUS_FAILURE, q)
      | Some i \<Rightarrow>
          (RTW_PHL_STATUS_SUCCESS,
           q\<lparr>pq_queue := (if pos = Pos_tail then pq_queue q @ [i] else i # pq_queue q), pq_cnt := pq_cnt q + 1\<rparr>))"

definition dequeue_h2c_pkt :: "nat phl_queue \<Rightarrow> nat option \<times> nat phl_queue" where
  "dequeue_h2c_pkt q =
     (case pq_queue q of
        [] \<Rightarrow> (None, q)
      | i # is \<Rightarrow> (Some i, q\<lparr>pq_queue := is, pq_cnt := pq_cnt q - 1\<rparr>))"

text \<open>\<^verbatim>\<open>_phl_reset_h2c_pkt\<close>: the first \<open>len\<close> bytes are cleared.\<close>

definition phl_reset_h2c_pkt :: "rtw_h2c_pkt \<Rightarrow> u32 \<Rightarrow> rtw_h2c_pkt option" where
  "phl_reset_h2c_pkt pkt len =
     (case h2c_mem pkt of
        None \<Rightarrow> None
      | Some m \<Rightarrow>
          (case mem_put m 0 (replicate (unat len) 0) of
             None \<Rightarrow> None
           | Some m \<Rightarrow>
               (let pkt = pkt\<lparr>h2c_mem := Some m, h2c_buf_len := len, h2c_id := 0, h2c_host_idx := 0,
                             h2c_data_len := 0, h2c_seq := 0\<rparr>;
                    ready = (\<lambda>n. pkt\<lparr>vir_data := H2C_HEAD_LEN, vir_tail := H2C_HEAD_LEN, vir_end := H2C_HEAD_LEN + n\<rparr>)
                in Some (case h2c_type pkt of
                           H2CB_TYPE_CMD \<Rightarrow> ready 64
                         | H2CB_TYPE_DATA \<Rightarrow> ready 256
                         | H2CB_TYPE_LONG_DATA \<Rightarrow> ready 8192
                         | H2CB_TYPE_MAX \<Rightarrow> pkt))))"

definition phl_enqueue_busy_h2c_pkt :: "phl_h2c_pkt_pool \<Rightarrow> nat option \<Rightarrow> list_pos \<Rightarrow> rtw_phl_status \<times> phl_h2c_pkt_pool" where
  "phl_enqueue_busy_h2c_pkt pool p pos =
     (case enqueue_h2c_pkt (busy_h2c_pkt_list pool) p pos of (sts, q) \<Rightarrow> (sts, pool\<lparr>busy_h2c_pkt_list := q\<rparr>))"

text \<open>
  A packet goes back to the idle list of its type. For a packet with no such type the list is a null
  pointer.
\<close>

definition phl_enqueue_idle_h2c_pkt :: "phl_h2c_pkt_pool \<Rightarrow> nat option \<Rightarrow> (rtw_phl_status \<times> phl_h2c_pkt_pool) option" where
  "phl_enqueue_idle_h2c_pkt pool p =
     (case p of
        None \<Rightarrow> Some (RTW_PHL_STATUS_FAILURE, pool)
      | Some i \<Rightarrow>
          let put = (\<lambda>len q upd. case phl_reset_h2c_pkt (h2c_pkt_buf pool i) len of
                       None \<Rightarrow> None
                     | Some pkt \<Rightarrow>
                         (case enqueue_h2c_pkt q (Some i) Pos_tail of
                            (sts, q) \<Rightarrow> Some (sts, upd q (pool\<lparr>h2c_pkt_buf := (h2c_pkt_buf pool)(i := pkt)\<rparr>))))
          in (case h2c_type (h2c_pkt_buf pool i) of
                H2CB_TYPE_CMD \<Rightarrow>
                  put (8 + 24 + 64) (idle_h2c_pkt_cmd_list pool) (\<lambda>q pool. pool\<lparr>idle_h2c_pkt_cmd_list := q\<rparr>)
              | H2CB_TYPE_DATA \<Rightarrow>
                  put (8 + 24 + 256) (idle_h2c_pkt_data_list pool) (\<lambda>q pool. pool\<lparr>idle_h2c_pkt_data_list := q\<rparr>)
              | H2CB_TYPE_LONG_DATA \<Rightarrow>
                  put (8 + 24 + 8192) (idle_h2c_pkt_ldata_list pool) (\<lambda>q pool. pool\<lparr>idle_h2c_pkt_ldata_list := q\<rparr>)
              | H2CB_TYPE_MAX \<Rightarrow> None))"

definition phl_query_busy_h2c_pkt :: "phl_h2c_pkt_pool \<Rightarrow> nat option \<times> phl_h2c_pkt_pool" where
  "phl_query_busy_h2c_pkt pool =
     (case dequeue_h2c_pkt (busy_h2c_pkt_list pool) of (p, q) \<Rightarrow> (p, pool\<lparr>busy_h2c_pkt_list := q\<rparr>))"

definition phl_query_idle_h2c_pkt :: "phl_h2c_pkt_pool \<Rightarrow> rtw_h2c_pkt_type \<Rightarrow> (nat option \<times> phl_h2c_pkt_pool) option" where
  "phl_query_idle_h2c_pkt pool ty =
     (case ty of
        H2CB_TYPE_CMD \<Rightarrow>
          (case dequeue_h2c_pkt (idle_h2c_pkt_cmd_list pool) of (p, q) \<Rightarrow> Some (p, pool\<lparr>idle_h2c_pkt_cmd_list := q\<rparr>))
      | H2CB_TYPE_DATA \<Rightarrow>
          (case dequeue_h2c_pkt (idle_h2c_pkt_data_list pool) of (p, q) \<Rightarrow> Some (p, pool\<lparr>idle_h2c_pkt_data_list := q\<rparr>))
      | H2CB_TYPE_LONG_DATA \<Rightarrow>
          (case dequeue_h2c_pkt (idle_h2c_pkt_ldata_list pool) of (p, q) \<Rightarrow> Some (p, pool\<lparr>idle_h2c_pkt_ldata_list := q\<rparr>))
      | H2CB_TYPE_MAX \<Rightarrow> None)"

section \<open>Setting up and freeing\<close>

text \<open>
  The loop of \<^verbatim>\<open>_phl_free_h2c_pkt\<close>, \<open>n\<close> rounds from packet \<open>k\<close> on: the packets whose buffers are freed. A
  packet without a buffer is not stepped over.
\<close>

fun free_h2c_loop :: "nat \<Rightarrow> nat \<Rightarrow> (nat \<Rightarrow> rtw_h2c_pkt) \<Rightarrow> nat list \<times> (nat \<Rightarrow> rtw_h2c_pkt)" where
  "free_h2c_loop 0 k pkts = ([], pkts)"
| "free_h2c_loop (Suc n) k pkts =
     (case h2c_mem (pkts k) of
        None \<Rightarrow> free_h2c_loop n k pkts
      | Some m \<Rightarrow>
          (case free_h2c_loop n (Suc k) (pkts(k := (pkts k)\<lparr>h2c_mem := None, h2c_cache := False\<rparr>)) of
             (freed, pkts) \<Rightarrow> (k # freed, pkts)))"

definition phl_free_h2c_pkt :: "(nat \<Rightarrow> rtw_h2c_pkt) \<Rightarrow> nat list \<times> (nat \<Rightarrow> rtw_h2c_pkt)" where
  "phl_free_h2c_pkt pkts = free_h2c_loop MAX_H2C_PKT_NUM 0 pkts"

text \<open>
  The loop of \<^verbatim>\<open>_phl_alloc_h2c_pkt\<close>: \<open>mem i\<close> is what the allocator gives for packet \<open>i\<close>, \<open>None\<close> when it
  gives nothing.
\<close>

fun alloc_h2c_loop :: "(nat \<Rightarrow> bytes option) \<Rightarrow> nat list \<Rightarrow> rtw_phl_status \<Rightarrow> phl_h2c_pkt_pool \<Rightarrow> rtw_phl_status \<times> phl_h2c_pkt_pool" where
  "alloc_h2c_loop mem [] sts pool = (sts, pool)"
| "alloc_h2c_loop mem (i # is) sts pool =
     (let pkt = (h2c_pkt_buf pool i)\<lparr>h2c_cache := False, h2c_mem := mem i\<rparr>;
          set = (\<lambda>pkt. pool\<lparr>h2c_pkt_buf := (h2c_pkt_buf pool)(i := pkt)\<rparr>)
      in
      if mem i = None then (RTW_PHL_STATUS_RESOURCE, set pkt)
      else
        let pkt = pkt\<lparr>h2c_buf_len := get_h2c_size_by_range i, vir_data := H2C_HEAD_LEN, vir_tail := H2C_HEAD_LEN\<rparr>;
            pool =
              (if i < 32 then
                 (set (pkt\<lparr>h2c_type := H2CB_TYPE_CMD, vir_end := H2C_HEAD_LEN + 64\<rparr>))
                   \<lparr>idle_h2c_pkt_cmd_list := snd (enqueue_h2c_pkt (idle_h2c_pkt_cmd_list pool) (Some i) Pos_tail)\<rparr>
               else if i < 32 + 32 then
                 (set (pkt\<lparr>h2c_type := H2CB_TYPE_DATA, vir_end := H2C_HEAD_LEN + 256\<rparr>))
                   \<lparr>idle_h2c_pkt_data_list := snd (enqueue_h2c_pkt (idle_h2c_pkt_data_list pool) (Some i) Pos_tail)\<rparr>
               else
                 (set (pkt\<lparr>h2c_type := H2CB_TYPE_LONG_DATA, vir_end := H2C_HEAD_LEN + 8192\<rparr>))
                   \<lparr>idle_h2c_pkt_ldata_list := snd (enqueue_h2c_pkt (idle_h2c_pkt_ldata_list pool) (Some i) Pos_tail)\<rparr>)
        in alloc_h2c_loop mem is RTW_PHL_STATUS_SUCCESS pool)"

definition h2c_pkt0 :: rtw_h2c_pkt where
  "h2c_pkt0 = \<lparr>h2c_mem = None, vir_data = 0, vir_end = 0, vir_tail = 0, h2c_type = H2CB_TYPE_CMD, h2c_id = 0,
     h2c_buf_len = 0, h2c_data_len = 0, h2c_cache = False, h2c_host_idx = 0, h2c_seq = 0\<rparr>"

definition h2c_pool0 :: phl_h2c_pkt_pool where
  "h2c_pool0 = \<lparr>h2c_pkt_buf = (\<lambda>_. h2c_pkt0), idle_h2c_pkt_cmd_list = pq_init,
     idle_h2c_pkt_data_list = pq_init, idle_h2c_pkt_ldata_list = pq_init, busy_h2c_pkt_list = pq_init\<rparr>"

text \<open>
  \<^verbatim>\<open>_phl_alloc_h2c_pkt\<close> on an array of cleared packets: the pool, or the buffers that were freed again.
\<close>

definition phl_alloc_h2c_pkt :: "(nat \<Rightarrow> bytes option) \<Rightarrow> phl_h2c_pkt_pool \<Rightarrow> phl_h2c_pkt_pool + nat list" where
  "phl_alloc_h2c_pkt mem pool =
     (case alloc_h2c_loop mem [0..<MAX_H2C_PKT_NUM] RTW_PHL_STATUS_FAILURE pool of
        (sts, pool) \<Rightarrow>
          if sts \<noteq> RTW_PHL_STATUS_SUCCESS then Inr (fst (phl_free_h2c_pkt (h2c_pkt_buf pool))) else Inl pool)"

text \<open>
  \<^verbatim>\<open>_phl_alloc_h2c_pool\<close>; \<open>pool_mem\<close> and \<open>root_mem\<close> say that the memory for the pool and for the array of
  packets is there.
\<close>

definition phl_alloc_h2c_pool ::
  "bool \<Rightarrow> bool \<Rightarrow> (nat \<Rightarrow> bytes option) \<Rightarrow> rtw_phl_status \<times> phl_h2c_pkt_pool option" where
  "phl_alloc_h2c_pool pool_mem root_mem mem =
     (if pool_mem then
        if root_mem then
          (case phl_alloc_h2c_pkt mem h2c_pool0 of
             Inl pool \<Rightarrow> (RTW_PHL_STATUS_SUCCESS, Some pool)
           | Inr freed \<Rightarrow> (RTW_PHL_STATUS_RESOURCE, None))
        else (RTW_PHL_STATUS_RESOURCE, None)
      else (RTW_PHL_STATUS_FAILURE, None))"

definition phl_free_h2c_pool :: "phl_h2c_pkt_pool option \<Rightarrow> nat list" where
  "phl_free_h2c_pool pool = (case pool of None \<Rightarrow> [] | Some p \<Rightarrow> fst (phl_free_h2c_pkt (h2c_pkt_buf p)))"

section \<open>Where packets are and what state they are in\<close>

definition h2c_range_type :: "nat \<Rightarrow> rtw_h2c_pkt_type" where
  "h2c_range_type i = (if i < 32 then H2CB_TYPE_CMD else if i < 32 + 32 then H2CB_TYPE_DATA else H2CB_TYPE_LONG_DATA)"

definition h2c_room :: "rtw_h2c_pkt_type \<Rightarrow> nat" where
  "h2c_room ty = (case ty of H2CB_TYPE_CMD \<Rightarrow> 64 | H2CB_TYPE_DATA \<Rightarrow> 256 | H2CB_TYPE_LONG_DATA \<Rightarrow> 8192 | H2CB_TYPE_MAX \<Rightarrow> 0)"

text \<open>What never changes of a packet: its type and the size of its buffer.\<close>

definition h2c_fixed :: "nat \<Rightarrow> rtw_h2c_pkt \<Rightarrow> bool" where
  "h2c_fixed i pkt \<longleftrightarrow>
     h2c_type pkt = h2c_range_type i \<and>
     (\<exists>m. h2c_mem pkt = Some m \<and> length m = H2C_HEAD_LEN + h2c_room (h2c_range_type i))"

text \<open>A packet ready for a command of its type: empty, with room for the command up to the end of its buffer.\<close>

definition h2c_ready :: "rtw_h2c_pkt_type \<Rightarrow> rtw_h2c_pkt \<Rightarrow> bool" where
  "h2c_ready ty pkt \<longleftrightarrow>
     h2c_type pkt = ty \<and> h2c_data_len pkt = 0 \<and> vir_data pkt = H2C_HEAD_LEN \<and> vir_tail pkt = H2C_HEAD_LEN \<and>
     vir_end pkt = H2C_HEAD_LEN + h2c_room ty \<and> (\<exists>m. h2c_mem pkt = Some m \<and> length m = vir_end pkt)"

fun h2c_idle :: "phl_h2c_pkt_pool \<Rightarrow> rtw_h2c_pkt_type \<Rightarrow> nat list" where
  "h2c_idle pool H2CB_TYPE_CMD = pq_queue (idle_h2c_pkt_cmd_list pool)"
| "h2c_idle pool H2CB_TYPE_DATA = pq_queue (idle_h2c_pkt_data_list pool)"
| "h2c_idle pool H2CB_TYPE_LONG_DATA = pq_queue (idle_h2c_pkt_ldata_list pool)"
| "h2c_idle pool H2CB_TYPE_MAX = []"

lemma all_h2c_types: "(\<forall>ty. P ty) \<longleftrightarrow> P H2CB_TYPE_CMD \<and> P H2CB_TYPE_DATA \<and> P H2CB_TYPE_LONG_DATA \<and> P H2CB_TYPE_MAX"
  by (metis rtw_h2c_pkt_type.exhaust)

definition h2c_places :: "phl_h2c_pkt_pool \<Rightarrow> nat multiset" where
  "h2c_places pool =
     mset (h2c_idle pool H2CB_TYPE_CMD) + mset (h2c_idle pool H2CB_TYPE_DATA) +
     mset (h2c_idle pool H2CB_TYPE_LONG_DATA) + mset (pq_queue (busy_h2c_pkt_list pool))"

definition h2c_counted :: "phl_h2c_pkt_pool \<Rightarrow> bool" where
  "h2c_counted pool \<longleftrightarrow>
     pq_counted (idle_h2c_pkt_cmd_list pool) \<and> pq_counted (idle_h2c_pkt_data_list pool) \<and>
     pq_counted (idle_h2c_pkt_ldata_list pool) \<and> pq_counted (busy_h2c_pkt_list pool)"

definition h2c_wf :: "phl_h2c_pkt_pool \<Rightarrow> nat multiset \<Rightarrow> bool" where
  "h2c_wf pool held \<longleftrightarrow>
     h2c_counted pool \<and> h2c_places pool + held = mset_set {..<MAX_H2C_PKT_NUM} \<and>
     (\<forall>i < MAX_H2C_PKT_NUM. h2c_fixed i (h2c_pkt_buf pool i)) \<and>
     (\<forall>ty. \<forall>i \<in> set (h2c_idle pool ty). h2c_ready ty (h2c_pkt_buf pool i))"

lemmas h2c_defs = h2c_wf_def h2c_counted_def h2c_places_def pq_counted_def all_h2c_types

lemma h2c_held:
  assumes "h2c_wf pool (add_mset p held)"
  shows "p < MAX_H2C_PKT_NUM" "p \<notin> set (h2c_idle pool ty)" "p \<notin> set (pq_queue (busy_h2c_pkt_list pool))"
proof -
  have E: "h2c_places pool + add_mset p held = mset_set {..<MAX_H2C_PKT_NUM}" using assms by (simp add: h2c_wf_def)
  then have "p \<in># mset_set {..<MAX_H2C_PKT_NUM}" by (metis union_mset_add_mset_right union_single_eq_member)
  then show "p < MAX_H2C_PKT_NUM" by simp
  have "count (h2c_places pool + add_mset p held) p \<le> 1" unfolding E by (simp add: count_mset_set')
  then have "count (h2c_places pool) p = 0" by simp
  then show "p \<notin> set (h2c_idle pool ty)" "p \<notin> set (pq_queue (busy_h2c_pkt_list pool))"
    by (cases ty; auto simp: h2c_places_def)+
qed

lemma h2c_wf_upd:
  assumes "h2c_wf pool (add_mset p held)" and "h2c_fixed p pkt"
  shows "h2c_wf (pool\<lparr>h2c_pkt_buf := (h2c_pkt_buf pool)(p := pkt)\<rparr>) (add_mset p held)"
  using assms h2c_held(2) [OF assms(1), of H2CB_TYPE_CMD] h2c_held(2) [OF assms(1), of H2CB_TYPE_DATA]
    h2c_held(2) [OF assms(1), of H2CB_TYPE_LONG_DATA]
  by (auto simp: h2c_defs)

lemma h2c_query_idle_wf:
  assumes wf: "h2c_wf pool held" and q: "phl_query_idle_h2c_pkt pool ty = Some (Some p, pool')"
  shows "h2c_wf pool' (add_mset p held)" "h2c_ready ty (h2c_pkt_buf pool' p)"
  using assms by (cases ty; auto simp: phl_query_idle_h2c_pkt_def dequeue_h2c_pkt_def h2c_defs split: list.splits)+

lemma h2c_busy_wf:
  assumes wf: "h2c_wf pool held" and "phl_query_busy_h2c_pkt pool = (Some p, pool')"
  shows "h2c_wf pool' (add_mset p held)"
  using assms
  by (auto simp: phl_query_busy_h2c_pkt_def dequeue_h2c_pkt_def h2c_defs split: list.splits)

lemma h2c_enqueue_busy_wf:
  assumes "h2c_wf pool (add_mset p held)"
  shows "h2c_wf (snd (phl_enqueue_busy_h2c_pkt pool (Some p) pos)) held"
  using assms by (auto simp: phl_enqueue_busy_h2c_pkt_def enqueue_h2c_pkt_def h2c_defs)

lemma h2c_reset_ready:
  assumes "h2c_fixed i pkt" and "len = of_nat (H2C_HEAD_LEN + h2c_room (h2c_range_type i))"
  shows "\<exists>pkt'. phl_reset_h2c_pkt pkt len = Some pkt' \<and> h2c_fixed i pkt' \<and> h2c_ready (h2c_range_type i) pkt'"
  using assms
  by (auto simp: phl_reset_h2c_pkt_def h2c_fixed_def h2c_ready_def h2c_room_def h2c_range_type_def mem_put_def Let_def)

lemma h2c_enqueue_idle_wf:
  assumes wf: "h2c_wf pool (add_mset p held)"
  shows "\<exists>pool'. phl_enqueue_idle_h2c_pkt pool (Some p) = Some (RTW_PHL_STATUS_SUCCESS, pool') \<and> h2c_wf pool' held"
proof -
  note H = h2c_held [OF wf]
  have fx: "h2c_fixed p (h2c_pkt_buf pool p)" using wf H(1) by (simp add: h2c_wf_def)
  from h2c_reset_ready [OF fx refl] obtain pkt where
    R: "phl_reset_h2c_pkt (h2c_pkt_buf pool p) (of_nat (H2C_HEAD_LEN + h2c_room (h2c_range_type p))) = Some pkt"
    and F: "h2c_fixed p pkt" and Y: "h2c_ready (h2c_range_type p) pkt" by blast
  note wf' = h2c_wf_upd [OF wf F]
  have ty: "h2c_type (h2c_pkt_buf pool p) = h2c_range_type p" using fx by (simp add: h2c_fixed_def)
  show ?thesis
  proof (cases "h2c_range_type p")
    case H2CB_TYPE_CMD
    then show ?thesis using wf' R Y ty
      by (auto simp: phl_enqueue_idle_h2c_pkt_def enqueue_h2c_pkt_def h2c_room_def h2c_defs
          split: rtw_h2c_pkt_type.splits)
  next
    case H2CB_TYPE_DATA
    then show ?thesis using wf' R Y ty
      by (auto simp: phl_enqueue_idle_h2c_pkt_def enqueue_h2c_pkt_def h2c_room_def h2c_defs
          split: rtw_h2c_pkt_type.splits)
  next
    case H2CB_TYPE_LONG_DATA
    then show ?thesis using wf' R Y ty
      by (auto simp: phl_enqueue_idle_h2c_pkt_def enqueue_h2c_pkt_def h2c_room_def h2c_defs
          split: rtw_h2c_pkt_type.splits)
  next
    case H2CB_TYPE_MAX
    then show ?thesis by (simp add: h2c_range_type_def split: if_splits)
  qed
qed

section \<open>The pool as a state machine\<close>

text \<open>
  What the HAL and the bus do with packets, in any order. The second component is the multiset of the
  packets in hand; their holder changes everything but the type and the size of the buffer.
\<close>

inductive h2c_step :: "phl_h2c_pkt_pool \<times> nat multiset \<Rightarrow> phl_h2c_pkt_pool \<times> nat multiset \<Rightarrow> bool" where
  query_idle: "h2c_step (pool, held) (pool', add_mset p held)"
    if "phl_query_idle_h2c_pkt pool ty = Some (Some p, pool')"
| query_busy: "h2c_step (pool, held) (pool', add_mset p held)"
    if "phl_query_busy_h2c_pkt pool = (Some p, pool')"
| use: "h2c_step (pool, add_mset p held) (pool\<lparr>h2c_pkt_buf := (h2c_pkt_buf pool)(p := pkt)\<rparr>, add_mset p held)"
    if "h2c_fixed p pkt"
| enqueue_busy: "h2c_step (pool, add_mset p held) (snd (phl_enqueue_busy_h2c_pkt pool (Some p) pos), held)"
| enqueue_idle: "h2c_step (pool, add_mset p held) (pool', held)"
    if "phl_enqueue_idle_h2c_pkt pool (Some p) = Some (sts, pool')"

lemma h2c_step_wf: "h2c_step c c' \<Longrightarrow> h2c_wf (fst c) (snd c) \<Longrightarrow> h2c_wf (fst c') (snd c')"
proof (induction rule: h2c_step.induct)
  case (enqueue_idle pool p sts pool' held)
  then show ?case using h2c_enqueue_idle_wf [of pool p held] by auto
qed (auto intro: h2c_query_idle_wf h2c_busy_wf h2c_wf_upd h2c_enqueue_busy_wf)

lemma h2c_steps_wf: "h2c_step\<^sup>*\<^sup>* c c' \<Longrightarrow> h2c_wf (fst c) (snd c) \<Longrightarrow> h2c_wf (fst c') (snd c')"
  by (induction rule: rtranclp_induct) (auto dest: h2c_step_wf)

section \<open>Initialisation\<close>

text \<open>The state of the loop after the first \<open>n\<close> packets.\<close>

definition h2c_init_upto :: "nat \<Rightarrow> phl_h2c_pkt_pool \<Rightarrow> bool" where
  "h2c_init_upto n pool \<longleftrightarrow>
     h2c_counted pool \<and> h2c_places pool = mset_set {..<n} \<and>
     (\<forall>i < n. h2c_fixed i (h2c_pkt_buf pool i) \<and> h2c_ready (h2c_range_type i) (h2c_pkt_buf pool i)) \<and>
     (\<forall>i \<ge> n. h2c_pkt_buf pool i = h2c_pkt0) \<and> (\<forall>ty. \<forall>i \<in> set (h2c_idle pool ty). i < n \<and> ty = h2c_range_type i)"

definition h2c_mem_ok :: "(nat \<Rightarrow> bytes option) \<Rightarrow> bool" where
  "h2c_mem_ok mem \<longleftrightarrow> (\<forall>i m. mem i = Some m \<longrightarrow> length m = unat (get_h2c_size_by_range i))"

lemma h2c_init_step:
  assumes init: "h2c_init_upto n pool" and "h2c_mem_ok mem" and m: "mem n = Some m"
  shows "\<exists>pool'. (\<forall>is sts. alloc_h2c_loop mem (n # is) sts pool = alloc_h2c_loop mem is RTW_PHL_STATUS_SUCCESS pool') \<and>
    h2c_init_upto (Suc n) pool'"
proof -
  have len: "length m = unat (get_h2c_size_by_range n)" using assms by (simp add: h2c_mem_ok_def)
  have n: "h2c_pkt_buf pool n = h2c_pkt0" using init by (simp add: h2c_init_upto_def)
  let ?pkt = "h2c_pkt0\<lparr>h2c_cache := False, h2c_mem := Some m, h2c_buf_len := get_h2c_size_by_range n, vir_data := 32, vir_tail := 32,
      h2c_type := h2c_range_type n, vir_end := 32 + h2c_room (h2c_range_type n)\<rparr>"
  have F: "h2c_fixed n ?pkt" "h2c_ready (h2c_range_type n) ?pkt"
    using len by (simp_all add: h2c_fixed_def h2c_ready_def h2c_range_type_def h2c_room_def get_h2c_size_by_range_def h2c_pkt0_def)
  note I = init [unfolded h2c_init_upto_def h2c_counted_def pq_counted_def h2c_places_def all_h2c_types]
  consider "n < 32" | "\<not> n < 32" "n < 64" | "\<not> n < 64" by linarith
  then show ?thesis
  proof cases
    case 1
    then have T: "h2c_range_type n = H2CB_TYPE_CMD" by (simp add: h2c_range_type_def)
    let ?pool = "pool\<lparr>h2c_pkt_buf := (h2c_pkt_buf pool)(n := ?pkt),
        idle_h2c_pkt_cmd_list := snd (enqueue_h2c_pkt (idle_h2c_pkt_cmd_list pool) (Some n) Pos_tail)\<rparr>"
    have "h2c_init_upto (Suc n) ?pool" using I F T
      by (auto simp: h2c_init_upto_def h2c_counted_def pq_counted_def h2c_places_def all_h2c_types enqueue_h2c_pkt_def
          lessThan_Suc less_Suc_eq)
    with 1 T show ?thesis by (intro exI [of _ ?pool]) (simp add: Let_def m n h2c_room_def)
  next
    case 2
    then have T: "h2c_range_type n = H2CB_TYPE_DATA" by (simp add: h2c_range_type_def)
    let ?pool = "pool\<lparr>h2c_pkt_buf := (h2c_pkt_buf pool)(n := ?pkt),
        idle_h2c_pkt_data_list := snd (enqueue_h2c_pkt (idle_h2c_pkt_data_list pool) (Some n) Pos_tail)\<rparr>"
    have "h2c_init_upto (Suc n) ?pool" using I F T
      by (auto simp: h2c_init_upto_def h2c_counted_def pq_counted_def h2c_places_def all_h2c_types enqueue_h2c_pkt_def
          lessThan_Suc less_Suc_eq)
    with 2 T show ?thesis by (intro exI [of _ ?pool]) (simp add: Let_def m n h2c_room_def)
  next
    case 3
    then have T: "h2c_range_type n = H2CB_TYPE_LONG_DATA" by (simp add: h2c_range_type_def)
    let ?pool = "pool\<lparr>h2c_pkt_buf := (h2c_pkt_buf pool)(n := ?pkt),
        idle_h2c_pkt_ldata_list := snd (enqueue_h2c_pkt (idle_h2c_pkt_ldata_list pool) (Some n) Pos_tail)\<rparr>"
    have "h2c_init_upto (Suc n) ?pool" using I F T
      by (auto simp: h2c_init_upto_def h2c_counted_def pq_counted_def h2c_places_def all_h2c_types enqueue_h2c_pkt_def
          lessThan_Suc less_Suc_eq)
    with 3 T show ?thesis by (intro exI [of _ ?pool]) (simp add: Let_def m n h2c_room_def)
  qed
qed

text \<open>The loop runs to the end when all buffers are there, and otherwise up to the first that is missing.\<close>

lemma alloc_h2c_loop_upto:
  assumes "h2c_init_upto n pool" and "h2c_mem_ok mem"
  shows "\<exists>k sts' pool'. alloc_h2c_loop mem [n..<n + d] sts pool = (sts', pool') \<and> n \<le> k \<and> k \<le> n + d \<and> h2c_init_upto k pool' \<and>
    (\<forall>i \<in> {n..<k}. mem i \<noteq> None) \<and> (k < n + d \<longrightarrow> mem k = None \<and> sts' = RTW_PHL_STATUS_RESOURCE) \<and>
    (k = n + d \<longrightarrow> sts' = (if d = 0 then sts else RTW_PHL_STATUS_SUCCESS))"
  using assms
proof (induction d arbitrary: n pool sts)
  case 0
  then show ?case by (intro exI [of _ n]) auto
next
  case (Suc d)
  have l: "[n..<n + Suc d] = n # [Suc n..<Suc n + d]" by (simp add: upt_conv_Cons)
  show ?case
  proof (cases "mem n")
    case None
    have "h2c_init_upto n (pool\<lparr>h2c_pkt_buf := (h2c_pkt_buf pool)(n := (h2c_pkt_buf pool n)\<lparr>h2c_cache := False, h2c_mem := None\<rparr>)\<rparr>)"
    proof -
      have "h2c_pkt_buf pool n = h2c_pkt0" using Suc.prems(1) by (simp add: h2c_init_upto_def)
      then have "(h2c_pkt_buf pool)(n := (h2c_pkt_buf pool n)\<lparr>h2c_cache := False, h2c_mem := None\<rparr>) = h2c_pkt_buf pool"
        by (simp add: h2c_pkt0_def fun_eq_iff)
      then show ?thesis using Suc.prems(1) by simp
    qed
    then show ?thesis unfolding l by (intro exI [of _ n]) (simp add: None Let_def)
  next
    case (Some m)
    from h2c_init_step [OF Suc.prems Some] obtain pool' where
      eq: "\<forall>is sts. alloc_h2c_loop mem (n # is) sts pool = alloc_h2c_loop mem is RTW_PHL_STATUS_SUCCESS pool'"
      and init: "h2c_init_upto (Suc n) pool'" by blast
    from Suc.IH [OF init Suc.prems(2), of RTW_PHL_STATUS_SUCCESS] obtain k sts' pool'' where
      k: "alloc_h2c_loop mem [Suc n..<Suc n + d] RTW_PHL_STATUS_SUCCESS pool' = (sts', pool'')" "Suc n \<le> k" "k \<le> Suc n + d"
        "h2c_init_upto k pool''" "\<forall>i \<in> {Suc n..<k}. mem i \<noteq> None"
        "k < Suc n + d \<longrightarrow> mem k = None \<and> sts' = RTW_PHL_STATUS_RESOURCE"
        "k = Suc n + d \<longrightarrow> sts' = (if d = 0 then RTW_PHL_STATUS_SUCCESS else RTW_PHL_STATUS_SUCCESS)" by blast
    have "\<forall>i \<in> {n..<k}. mem i \<noteq> None" using k(5) Some by (metis atLeastLessThan_iff option.distinct(1) Suc_leI le_neq_implies_less)
    with k show ?thesis unfolding l eq [rule_format] by (intro exI [of _ k] exI [of _ sts'] exI [of _ pool'']) (auto split: if_splits)
  qed
qed

lemma free_h2c_prefix:
  assumes "\<forall>i. n \<le> i \<and> i < k \<longrightarrow> h2c_mem (pkts i) \<noteq> None" and "\<forall>i \<ge> k. h2c_mem (pkts i) = None" and "k - n \<le> r" and "n \<le> k"
  shows "fst (free_h2c_loop r n pkts) = [n..<k]"
  using assms
proof (induction r arbitrary: n pkts)
  case (Suc r)
  show ?case
  proof (cases "n = k")
    case True
    then have "h2c_mem (pkts n) = None" using Suc.prems(2) by simp
    moreover have "fst (free_h2c_loop r n pkts) = [n..<k]" by (rule Suc.IH) (use Suc.prems True in auto)
    ultimately show ?thesis by simp
  next
    case False
    then obtain m where m: "h2c_mem (pkts n) = Some m" using Suc.prems by fastforce
    have "fst (free_h2c_loop r (Suc n) (pkts(n := (pkts n)\<lparr>h2c_mem := None, h2c_cache := False\<rparr>))) = [Suc n..<k]"
      by (rule Suc.IH) (use Suc.prems False in auto)
    with m False Suc.prems(4) show ?thesis by (simp add: case_prod_unfold upt_conv_Cons)
  qed
qed simp

lemma h2c_init_0: "h2c_init_upto 0 h2c_pool0"
  by (simp add: h2c_pool0_def h2c_init_upto_def h2c_counted_def pq_counted_def h2c_places_def all_h2c_types pq_init_def)

lemma h2c_init_done: "h2c_init_upto MAX_H2C_PKT_NUM pool \<Longrightarrow> h2c_wf pool {#}"
  unfolding h2c_init_upto_def h2c_wf_def by (metis add_0_right)

lemma h2c_alloc_wf:
  assumes "h2c_mem_ok mem" and all: "\<forall>i < MAX_H2C_PKT_NUM. mem i \<noteq> None"
  shows "\<exists>pool. phl_alloc_h2c_pool True True mem = (RTW_PHL_STATUS_SUCCESS, Some pool) \<and> h2c_wf pool {#}"
proof -
  from alloc_h2c_loop_upto [OF h2c_init_0 assms(1), of MAX_H2C_PKT_NUM RTW_PHL_STATUS_FAILURE]
  obtain k sts pool where
    k: "alloc_h2c_loop mem [0..<MAX_H2C_PKT_NUM] RTW_PHL_STATUS_FAILURE h2c_pool0 = (sts, pool)"
      "k \<le> MAX_H2C_PKT_NUM" "h2c_init_upto k pool" "k < MAX_H2C_PKT_NUM \<longrightarrow> mem k = None"
      "k = MAX_H2C_PKT_NUM \<longrightarrow> sts = RTW_PHL_STATUS_SUCCESS"
    by (auto split: if_splits)
  have "k = MAX_H2C_PKT_NUM" using k(2,4) all le_neq_implies_less by blast
  with k h2c_init_done show ?thesis
    unfolding phl_alloc_h2c_pool_def phl_alloc_h2c_pkt_def by simp
qed

lemma h2c_alloc_fails:
  assumes "h2c_mem_ok mem" and miss: "j < MAX_H2C_PKT_NUM" "mem j = None"
  shows "\<exists>k. phl_alloc_h2c_pkt mem h2c_pool0 = Inr [0..<k] \<and> (\<forall>i < k. mem i \<noteq> None) \<and> mem k = None"
proof -
  from alloc_h2c_loop_upto [OF h2c_init_0 assms(1), of MAX_H2C_PKT_NUM RTW_PHL_STATUS_FAILURE]
  obtain k sts pool where
    k: "alloc_h2c_loop mem [0..<MAX_H2C_PKT_NUM] RTW_PHL_STATUS_FAILURE h2c_pool0 = (sts, pool)"
      "k \<le> MAX_H2C_PKT_NUM" "h2c_init_upto k pool" "\<forall>i \<in> {0..<k}. mem i \<noteq> None"
      "k < MAX_H2C_PKT_NUM \<longrightarrow> mem k = None \<and> sts = RTW_PHL_STATUS_RESOURCE"
    by auto
  have "k < MAX_H2C_PKT_NUM" using k(2,4) miss by (metis atLeastLessThan_iff le_neq_implies_less zero_le)
  with k(5) have K: "mem k = None" "sts = RTW_PHL_STATUS_RESOURCE" by auto
  have "\<forall>i. 0 \<le> i \<and> i < k \<longrightarrow> h2c_mem (h2c_pkt_buf pool i) \<noteq> None" "\<forall>i \<ge> k. h2c_mem (h2c_pkt_buf pool i) = None"
    using k(3) by (auto simp: h2c_init_upto_def h2c_fixed_def h2c_pkt0_def)
  from free_h2c_prefix [OF this, of MAX_H2C_PKT_NUM] k(2)
  have "fst (free_h2c_loop MAX_H2C_PKT_NUM 0 (h2c_pkt_buf pool)) = [0..<k]" by simp
  with k(1,4) K show ?thesis unfolding phl_alloc_h2c_pkt_def phl_free_h2c_pkt_def by auto
qed

text \<open>
  C13: Command packets. Setting up the pool succeeds when the memory is there, and a failure gives back
  exactly the buffers that were allocated. From then on, whatever the order of use, each of the 264
  packets is on one list or in one hand; a packet that is given out for a type is empty and has room
  for a command of that type inside of its buffer; and returning a packet always succeeds.
\<close>

theorem h2c_pool_conserved:
  assumes mem: "h2c_mem_ok mem"
  shows "((\<forall>i < MAX_H2C_PKT_NUM. mem i \<noteq> None) \<longrightarrow>
     (\<exists>pool. phl_alloc_h2c_pool True True mem = (RTW_PHL_STATUS_SUCCESS, Some pool) \<and>
       (\<forall>pool' held. h2c_step\<^sup>*\<^sup>* (pool, {#}) (pool', held) \<longrightarrow>
          h2c_places pool' + held = mset_set {..<MAX_H2C_PKT_NUM} \<and>
          (\<forall>ty p pool''. phl_query_idle_h2c_pkt pool' ty = Some (Some p, pool'') \<longrightarrow> h2c_ready ty (h2c_pkt_buf pool'' p)) \<and>
          (\<forall>p \<in># held. \<exists>pool''. phl_enqueue_idle_h2c_pkt pool' (Some p) = Some (RTW_PHL_STATUS_SUCCESS, pool''))))) \<and>
   ((\<exists>i < MAX_H2C_PKT_NUM. mem i = None) \<longrightarrow>
     (\<exists>k. phl_alloc_h2c_pkt mem h2c_pool0 = Inr [0..<k] \<and> (\<forall>i < k. mem i \<noteq> None) \<and> mem k = None))"
proof (intro conjI impI)
  assume "\<forall>i < MAX_H2C_PKT_NUM. mem i \<noteq> None"
  from h2c_alloc_wf [OF mem this] obtain pool where
    P: "phl_alloc_h2c_pool True True mem = (RTW_PHL_STATUS_SUCCESS, Some pool)" "h2c_wf pool {#}" by blast
  have "h2c_places pool' + held = mset_set {..<MAX_H2C_PKT_NUM} \<and>
      (\<forall>ty p pool''. phl_query_idle_h2c_pkt pool' ty = Some (Some p, pool'') \<longrightarrow> h2c_ready ty (h2c_pkt_buf pool'' p)) \<and>
      (\<forall>p \<in># held. \<exists>pool''. phl_enqueue_idle_h2c_pkt pool' (Some p) = Some (RTW_PHL_STATUS_SUCCESS, pool''))"
    if "h2c_step\<^sup>*\<^sup>* (pool, {#}) (pool', held)" for pool' held
  proof -
    have wf: "h2c_wf pool' held" using h2c_steps_wf [OF that] P(2) by simp
    then show ?thesis
      using h2c_query_idle_wf(2) h2c_enqueue_idle_wf by (metis h2c_wf_def mset_add)
  qed
  with P(1) show "\<exists>pool. phl_alloc_h2c_pool True True mem = (RTW_PHL_STATUS_SUCCESS, Some pool) \<and>
       (\<forall>pool' held. h2c_step\<^sup>*\<^sup>* (pool, {#}) (pool', held) \<longrightarrow>
          h2c_places pool' + held = mset_set {..<MAX_H2C_PKT_NUM} \<and>
          (\<forall>ty p pool''. phl_query_idle_h2c_pkt pool' ty = Some (Some p, pool'') \<longrightarrow> h2c_ready ty (h2c_pkt_buf pool'' p)) \<and>
          (\<forall>p \<in># held. \<exists>pool''. phl_enqueue_idle_h2c_pkt pool' (Some p) = Some (RTW_PHL_STATUS_SUCCESS, pool'')))"
    by blast
next
  assume "\<exists>i < MAX_H2C_PKT_NUM. mem i = None"
  with h2c_alloc_fails [OF mem]
  show "\<exists>k. phl_alloc_h2c_pkt mem h2c_pool0 = Inr [0..<k] \<and> (\<forall>i < k. mem i \<noteq> None) \<and> mem k = None" by blast
qed

theorem h2c_pool_conserved_witness:
  "(\<exists>pool. phl_alloc_h2c_pool True True (\<lambda>i. Some (replicate (unat (get_h2c_size_by_range i)) 0)) =
      (RTW_PHL_STATUS_SUCCESS, Some pool)) \<and>
   phl_alloc_h2c_pkt (\<lambda>i. if i = 40 then None else Some (replicate (unat (get_h2c_size_by_range i)) 0)) h2c_pool0 =
     Inr [0..<40]" (is "?A \<and> ?B")
proof
  have "h2c_mem_ok (\<lambda>i. Some (replicate (unat (get_h2c_size_by_range i)) 0))" by (simp add: h2c_mem_ok_def)
  from h2c_pool_conserved [OF this] show ?A by blast
  have "h2c_mem_ok (\<lambda>i. if i = 40 then None else Some (replicate (unat (get_h2c_size_by_range i)) 0))"
    by (simp add: h2c_mem_ok_def)
  moreover have "\<exists>i < MAX_H2C_PKT_NUM. (if i = 40 then None else Some (replicate (unat (get_h2c_size_by_range i)) (0 :: u8))) = None"
    by (rule exI [of _ 40]) simp
  ultimately show ?B using h2c_pool_conserved by (fastforce split: if_splits)
qed

end
