(* ===== verification/Phl_Usb_Tx.thy ===== *)
theory Phl_Usb_Tx
  imports Phl_Tx Phl_H2c
begin

text \<open>
  The transmit side of the USB bus layer, \<^verbatim>\<open>phl/hci/phl_trx_usb.c\<close>: the pools of transmit
  buffers, packing of the requests of a TX ring into a buffer, submission, completion, and the
  transmit handler that serves the rings in the order of the plan of \<open>Phl_Tx\<close>. The two build options
  of the packing loop are fields of the bus; the answers of the HAL, of the core and of the USB stack
  are arguments.
\<close>

section \<open>Data\<close>

datatype rtw_packet_type =
    RTW_PHL_PKT_TYPE_DATA | RTW_PHL_PKT_TYPE_MGNT | RTW_PHL_PKT_TYPE_H2C | RTW_PHL_PKT_TYPE_CTRL

datatype rtw_treq_type = RTW_PHL_TREQ_TYPE_NORMAL | RTW_PHL_TREQ_TYPE_TEST_PATTERN | RTW_PHL_TREQ_TYPE_MAX

record rtw_t_meta_data =
  tm_type :: rtw_packet_type
  tm_dma_ch :: u8
  usb_pkt_ofst :: u8
  wdinfo_en :: u8
  tm_pktlen :: u16
  tm_tid :: u8
  tm_macid :: u16

text \<open>The pieces of a packet; a piece with a null \<^verbatim>\<open>vir_addr\<close> is \<open>None\<close>.\<close>

record rtw_xmit_req =
  treq_type :: rtw_treq_type
  t_mdata :: rtw_t_meta_data
  total_len :: u32
  pkt_list :: "bytes option list"

text \<open>
  The bus: \<open>txagg\<close> and \<open>txpad\<close> say whether \<^verbatim>\<open>CONFIG_PHL_USB_TX_AGGREGATION\<close> and
  \<^verbatim>\<open>CONFIG_PHL_USB_TX_PADDING_CHK\<close> are defined; then the sizes and the limit on descriptors in a bulk
  transaction.
\<close>

record usb_bus =
  txagg :: bool
  txpad :: bool
  bus_tx_buf_size :: u32
  usb_bulkout_size :: u32
  max_bulkout_wd_num :: u8

text \<open>
  Answers: the descriptor the HAL writes for a request, the two recycle callbacks of the core (a
  callback may be missing), the HAL's mark of an aggregate in its first descriptor, the bulk endpoint
  of a DMA channel, and the answer of the USB stack to a transfer.
\<close>

record tx_env =
  hal_fill_wd :: "rtw_xmit_req \<Rightarrow> bytes option"
  ops_tx_recycle :: "(rtw_xmit_req \<Rightarrow> rtw_phl_status) option"
  ops_tx_test_recycle :: "(rtw_xmit_req \<Rightarrow> rtw_phl_status) option"
  hal_usb_tx_agg_cfg :: "bytes \<Rightarrow> u8 \<Rightarrow> bytes"
  hal_get_bulkout_id :: "u8 \<Rightarrow> u8"
  os_usb_tx :: "nat \<Rightarrow> u8 \<Rightarrow> u32 \<Rightarrow> bytes \<Rightarrow> rtw_phl_status"

abbreviation MGMT_TID :: u8 where "MGMT_TID \<equiv> 8"
abbreviation PKT_OFFSET_DUMMY :: u32 where "PKT_OFFSET_DUMMY \<equiv> 8"
abbreviation IDX_NONE :: u32 where "IDX_NONE \<equiv> 0xffffffff"

definition wd_len_of :: "rtw_t_meta_data \<Rightarrow> u32" where
  "wd_len_of md = (if wdinfo_en md = 1 then 48 else 24)"

definition align8 :: "u32 \<Rightarrow> u32" where
  "align8 len = (len + 8 - 1) AND NOT (8 - 1)"

definition GET_SHIFT_OFFSET :: "u32 \<Rightarrow> nat" where
  "GET_SHIFT_OFFSET bulk_size = (if bulk_size = 1024 then 10 else if bulk_size = 512 then 9 else 6)"

section \<open>Writing one request\<close>

text \<open>The pieces go to the buffer one behind the other; the length counts at 32 bits.\<close>

fun copy_pkts :: "bytes \<Rightarrow> nat \<Rightarrow> u32 \<Rightarrow> bytes option list \<Rightarrow> (bytes \<times> u32) option" where
  "copy_pkts buf off packet_len [] = Some (buf, packet_len)"
| "copy_pkts buf off packet_len (None # ps) = copy_pkts buf off packet_len ps"
| "copy_pkts buf off packet_len (Some p # ps) =
     (case mem_put buf off p of
        None \<Rightarrow> None
      | Some buf \<Rightarrow> copy_pkts buf (off + length p) (packet_len + of_nat (length p)) ps)"

text \<open>
  \<^verbatim>\<open>_phl_prepare_tx_usb\<close>: status, buffer and length of what was written. The request is handed to
  the recycle callback of its kind; \<open>None\<close> is a write behind the end of the buffer.
\<close>

definition tx_recycle_status :: "tx_env \<Rightarrow> rtw_xmit_req \<Rightarrow> rtw_phl_status" where
  "tx_recycle_status env tx_req =
     (case treq_type tx_req of
        RTW_PHL_TREQ_TYPE_TEST_PATTERN \<Rightarrow>
          (case ops_tx_test_recycle env of None \<Rightarrow> RTW_PHL_STATUS_FAILURE | Some f \<Rightarrow> f tx_req)
      | RTW_PHL_TREQ_TYPE_NORMAL \<Rightarrow>
          (case ops_tx_recycle env of None \<Rightarrow> RTW_PHL_STATUS_FAILURE | Some f \<Rightarrow> f tx_req)
      | RTW_PHL_TREQ_TYPE_MAX \<Rightarrow> RTW_PHL_STATUS_FAILURE)"

definition phl_prepare_tx_usb :: "tx_env \<Rightarrow> rtw_xmit_req \<Rightarrow> bytes \<Rightarrow> nat \<Rightarrow> (rtw_phl_status \<times> bytes \<times> u32) option" where
  "phl_prepare_tx_usb env tx_req buf off =
     (case hal_fill_wd env tx_req of
        None \<Rightarrow> Some (RTW_PHL_STATUS_FAILURE, buf, 0)
      | Some wd \<Rightarrow>
          (case mem_put buf off wd of
             None \<Rightarrow> None
           | Some buf \<Rightarrow>
               let dummy = (if usb_pkt_ofst (t_mdata tx_req) = 1 then PKT_OFFSET_DUMMY else 0) in
               (case copy_pkts buf (off + length wd + unat dummy) (of_nat (length wd) + dummy) (pkt_list tx_req) of
                  None \<Rightarrow> None
                | Some (buf, packet_len) \<Rightarrow>
                    Some (tx_recycle_status env tx_req, buf, packet_len))))"

section \<open>Looking ahead\<close>

lemma unat_next_le: "unat cnt < unat busy \<Longrightarrow> unat (cnt + 1) = unat cnt + 1" for cnt busy :: u16
  using unat_u16_less [of busy] by (simp add: unat_word_ariths)

text \<open>
  \<^verbatim>\<open>_usb_tx_agg_preprocess\<close>: the position of the last request that will be packed, and whether the
  transfer would end on the border of a bulk packet. The loop's variables are its arguments, \<open>busy\<close>
  is \<^verbatim>\<open>ring_sts->req_busy\<close>. It returns \<open>last_idx\<close>, \<open>cnt\<close> and \<open>tx_len\<close>.
\<close>

function agg_pre_loop ::
  "usb_bus \<Rightarrow> rtw_xmit_req rtw_phl_tx_ring \<Rightarrow> u16 \<Rightarrow> u16 \<Rightarrow> u16 \<Rightarrow> u32 \<Rightarrow> u32 \<Rightarrow> u8 \<Rightarrow> u8 \<Rightarrow> u32 \<times> u16 \<times> u32" where
  "agg_pre_loop bus ring busy rptr cnt packet_len tx_len trasc_agg_cnt trasc_idx =
     (let stop = ((if cnt \<noteq> 0 then ucast (cnt - 1) else IDX_NONE), cnt, tx_len) in
      if cnt < busy then
        case entry ring ! unat ((rptr + cnt) mod MAX_PHL_RING_ENTRY_NUM) of
          None \<Rightarrow> stop
        | Some tx_req \<Rightarrow>
            let wd_len = wd_len_of (t_mdata tx_req) in
            if align8 (wd_len + total_len tx_req) + tx_len > bus_tx_buf_size bus - PKT_OFFSET_DUMMY then stop
            else
              let packet_align_len = align8 packet_len - packet_len in
              if (tx_len + wd_len + packet_align_len) mod usb_bulkout_size bus = 0 then stop
              else
                let packet_len = wd_len + total_len tx_req;
                    tx_len = tx_len + packet_align_len + packet_len;
                    trasc_agg_cnt = trasc_agg_cnt + 1;
                    shifted = drop_bit (GET_SHIFT_OFFSET (usb_bulkout_size bus)) tx_len;
                    (trasc_idx, trasc_agg_cnt) =
                      (if ucast trasc_idx \<noteq> shifted then (ucast shifted, 0) else (trasc_idx, trasc_agg_cnt))
                in
                if trasc_agg_cnt \<ge> max_bulkout_wd_num bus then (ucast cnt, cnt, tx_len)
                else if tm_type (t_mdata tx_req) \<noteq> RTW_PHL_PKT_TYPE_DATA then (IDX_NONE, cnt + 1, tx_len)
                else if \<not> txagg bus then (IDX_NONE, cnt + 1, tx_len)
                else agg_pre_loop bus ring busy rptr (cnt + 1) packet_len tx_len trasc_agg_cnt trasc_idx
      else (IDX_NONE, cnt, tx_len))"
  by pat_completeness auto
termination
  by (relation "measure (\<lambda>(bus, ring, busy, rptr, cnt, _). unat busy - unat cnt)")
    (use unat_next_le in \<open>simp_all add: word_less_nat_alt diff_less_mono2\<close>)

declare agg_pre_loop.simps [simp del]

definition usb_tx_agg_preprocess :: "usb_bus \<Rightarrow> rtw_xmit_req rtw_phl_tx_ring \<Rightarrow> u16 \<Rightarrow> u32 \<times> bool" where
  "usb_tx_agg_preprocess bus ring busy =
     (case agg_pre_loop bus ring busy (ucast (phl_next_idx ring)) 0 0 0 0 0 of
        (last_idx, cnt, tx_len) \<Rightarrow>
          (if last_idx = IDX_NONE \<and> tx_len \<noteq> 0 \<and> cnt \<le> busy then ucast cnt - 1 else last_idx,
           tx_len \<noteq> 0 \<and> tx_len mod usb_bulkout_size bus = 0))"

section \<open>Packing a ring into a buffer\<close>

text \<open>
  The variables of the loop of \<^verbatim>\<open>_phl_handle_xmit_ring_usb\<close>. \<open>xs_off\<close> is \<^verbatim>\<open>tx_buf_data\<close> as an offset into
  the buffer; \<open>xs_done\<close> collects the requests the loop has taken.
\<close>

record xmit_st =
  xs_ring :: "rtw_xmit_req rtw_phl_tx_ring"
  xs_busy :: u16
  xs_buf :: bytes
  xs_off :: nat
  xs_packet_len :: u32
  xs_tx_len :: u32
  xs_agg_cnt :: u8
  xs_trasc_agg_cnt :: u8
  xs_trasc_idx :: u8
  xs_status :: rtw_phl_status
  xs_type :: rtw_packet_type
  xs_done :: "rtw_xmit_req list"

text \<open>The fields of a request that the bus layer fills in; the last request may get the dummy.\<close>

definition xmit_fill_mdata :: "u16 \<Rightarrow> 'p rtw_phl_tx_ring \<Rightarrow> bool \<Rightarrow> rtw_xmit_req \<Rightarrow> rtw_xmit_req" where
  "xmit_fill_mdata macid ring dummy tx_req =
     tx_req\<lparr>t_mdata := (t_mdata tx_req)\<lparr>tm_macid := macid, tm_tid := tid ring, tm_dma_ch := dma_ch ring,
        tm_pktlen := ucast (total_len tx_req),
        usb_pkt_ofst := (if dummy then 1 else usb_pkt_ofst (t_mdata tx_req))\<rparr>\<rparr>"

text \<open>Alignment in front of a request of an aggregate; \<open>None\<close> ends the loop at the border of a bulk packet.\<close>

definition xmit_align :: "usb_bus \<Rightarrow> u32 \<Rightarrow> xmit_st \<Rightarrow> xmit_st option" where
  "xmit_align bus wd_len s =
     (if txagg bus \<and> xs_type s = RTW_PHL_PKT_TYPE_DATA then
        let packet_align_len = align8 (xs_packet_len s);
            check_len = xs_tx_len s + wd_len + packet_align_len - xs_packet_len s
        in
        if xs_tx_len s \<noteq> 0 \<and> check_len mod usb_bulkout_size bus = 0 then None
        else
          Some (s\<lparr>xs_off := xs_off s + unat packet_align_len,
                  xs_tx_len := (if packet_align_len > xs_packet_len s
                                then xs_tx_len s + (packet_align_len - xs_packet_len s) else xs_tx_len s)\<rparr>)
      else Some s)"

text \<open>What follows when a request was written: the loop goes on when the flag says so.\<close>

definition xmit_taken :: "usb_bus \<Rightarrow> u16 \<Rightarrow> rtw_xmit_req \<Rightarrow> xmit_st \<Rightarrow> bool \<times> xmit_st" where
  "xmit_taken bus rptr tx_req s =
     (let s = s\<lparr>xs_busy := xs_busy s - 1, xs_ring := (xs_ring s)\<lparr>phl_idx := ucast rptr\<rparr>,
               xs_agg_cnt := xs_agg_cnt s + 1, xs_trasc_agg_cnt := xs_trasc_agg_cnt s + 1,
               xs_done := xs_done s @ [tx_req]\<rparr>
      in
      if xs_type s \<noteq> RTW_PHL_PKT_TYPE_DATA then (False, s)
      else
        let (stop, s) =
              (if txagg bus then
                 let shifted = drop_bit (GET_SHIFT_OFFSET (usb_bulkout_size bus)) (xs_tx_len s);
                     s = (if ucast (xs_trasc_idx s) \<noteq> shifted
                          then s\<lparr>xs_trasc_idx := ucast shifted, xs_trasc_agg_cnt := 0\<rparr> else s)
                 in (xs_trasc_agg_cnt s \<ge> max_bulkout_wd_num bus, s)
               else (xs_agg_cnt s = 1, s))
        in
        if stop then (False, s)
        else if xs_busy s \<noteq> 0 then
          let next_idx = rptr + 1 in
          (True, s\<lparr>xs_ring := (xs_ring s)\<lparr>phl_next_idx :=
             (if next_idx \<ge> MAX_PHL_RING_ENTRY_NUM then 0 else phl_next_idx (xs_ring s) + 1)\<rparr>\<rparr>)
        else (True, s))"

text \<open>One round of the loop; the flag says whether it goes on.\<close>

definition xmit_step :: "usb_bus \<Rightarrow> tx_env \<Rightarrow> u16 \<Rightarrow> u32 \<Rightarrow> bool \<Rightarrow> xmit_st \<Rightarrow> (bool \<times> xmit_st) option" where
  "xmit_step bus env macid last_idx is_dummy s =
     (let rptr = ucast (phl_next_idx (xs_ring s)) :: u16 in
      case entry (xs_ring s) ! unat rptr of
        None \<Rightarrow> Some (False, s)
      | Some tx_req \<Rightarrow>
          (let dummy = (last_idx \<noteq> IDX_NONE \<and> xs_agg_cnt s = ucast last_idx \<and> is_dummy);
               tx_req = xmit_fill_mdata macid (xs_ring s) dummy tx_req;
               s = s\<lparr>xs_ring := (xs_ring s)\<lparr>entry := (entry (xs_ring s))[unat rptr := Some tx_req]\<rparr>,
                     xs_type := tm_type (t_mdata tx_req)\<rparr>;
               wd_len = wd_len_of (t_mdata tx_req) + (if dummy then PKT_OFFSET_DUMMY else 0);
               limit = (if txpad bus then bus_tx_buf_size bus - PKT_OFFSET_DUMMY else bus_tx_buf_size bus)
           in
           if align8 (wd_len + total_len tx_req) + xs_tx_len s > limit then Some (False, s)
           else
             (case xmit_align bus wd_len s of
                None \<Rightarrow> Some (False, s)
              | Some s \<Rightarrow>
                  (case phl_prepare_tx_usb env tx_req (xs_buf s) (xs_off s) of
                     None \<Rightarrow> None
                   | Some (pstatus, buf, packet_len) \<Rightarrow>
                       (let s = s\<lparr>xs_buf := buf, xs_packet_len := packet_len, xs_tx_len := xs_tx_len s + packet_len,
                                  xs_status := pstatus\<rparr>
                        in Some (if pstatus = RTW_PHL_STATUS_SUCCESS then xmit_taken bus rptr tx_req s
                                 else (False, s)))))))"

lemma xmit_taken_busy: "xmit_taken bus rptr tx_req s = (c, s') \<Longrightarrow> xs_busy s' = xs_busy s - 1"
  by (auto simp: xmit_taken_def Let_def split: if_splits)

lemma xmit_align_busy: "xmit_align bus wd_len s = Some s' \<Longrightarrow> xs_busy s' = xs_busy s"
  by (auto simp: xmit_align_def Let_def split: if_splits)

lemma xmit_step_busy:
  assumes "xmit_step bus env macid last_idx is_dummy s = Some (True, s')"
  shows "xs_busy s' = xs_busy s - 1"
  using assms
  by (auto simp: xmit_step_def Let_def split: option.splits if_splits prod.splits
      dest!: xmit_align_busy xmit_taken_busy)

function xmit_ring_loop :: "usb_bus \<Rightarrow> tx_env \<Rightarrow> u16 \<Rightarrow> u32 \<Rightarrow> bool \<Rightarrow> xmit_st \<Rightarrow> xmit_st option" where
  "xmit_ring_loop bus env macid last_idx is_dummy s =
     (if xs_busy s = 0 then Some s
      else case xmit_step bus env macid last_idx is_dummy s of
             None \<Rightarrow> None
           | Some (True, s) \<Rightarrow> xmit_ring_loop bus env macid last_idx is_dummy s
           | Some (False, s) \<Rightarrow> Some s)"
  by pat_completeness auto
termination
proof (relation "measure (\<lambda>(bus, env, macid, last_idx, is_dummy, s). unat (xs_busy s))", goal_cases)
  case (2 bus env macid last_idx is_dummy s ret p s')
  then have "xs_busy s' = xs_busy s - 1" using xmit_step_busy by simp
  with 2(1) show ?case by (simp add: measure_unat)
qed simp

declare xmit_ring_loop.simps [simp del]

section \<open>Transmit buffers\<close>

text \<open>A buffer for a command holds a command packet of \<open>Phl_H2c\<close> while it is in use.\<close>

datatype usb_data = Ub_null | Ub_mem bytes | Ub_h2c nat

record phl_usb_buf =
  ub_type :: rtw_packet_type
  ub_buffer :: usb_data
  ub_buf_len :: u32

text \<open>A buffer is identified by a number; \<open>usb_buf\<close> is the memory it has.\<close>

record phl_usb_tx_buf_resource =
  usb_buf :: "nat \<Rightarrow> phl_usb_buf"
  idle_txbuf_list :: "nat phl_queue"
  mgmt_txbuf_list :: "nat phl_queue"
  h2c_txbuf_list :: "nat phl_queue"

definition enqueue_usb_buf :: "nat phl_queue \<Rightarrow> nat option \<Rightarrow> list_pos \<Rightarrow> rtw_phl_status \<times> nat phl_queue" where
  "enqueue_usb_buf q b pos =
     (case b of
        None \<Rightarrow> (RTW_PHL_STATUS_FAILURE, q)
      | Some i \<Rightarrow>
          (RTW_PHL_STATUS_SUCCESS,
           q\<lparr>pq_queue := (if pos = Pos_tail then pq_queue q @ [i] else i # pq_queue q), pq_cnt := pq_cnt q + 1\<rparr>))"

definition dequeue_usb_buf :: "nat phl_queue \<Rightarrow> nat option \<times> nat phl_queue" where
  "dequeue_usb_buf q =
     (case pq_queue q of
        [] \<Rightarrow> (None, q)
      | i # is \<Rightarrow> (Some i, q\<lparr>pq_queue := is, pq_cnt := pq_cnt q - 1\<rparr>))"

text \<open>
  \<^verbatim>\<open>_phl_free_txbuf_pool_usb\<close>: the buffers that are freed, list by list. The loop takes buffers
  until a list is empty.
\<close>

function free_txbuf_loop :: "nat phl_queue \<Rightarrow> nat list" where
  "free_txbuf_loop q = (case dequeue_usb_buf q of (None, _) \<Rightarrow> [] | (Some b, q) \<Rightarrow> b # free_txbuf_loop q)"
  by pat_completeness auto
termination
  by (relation "measure (\<lambda>q. length (pq_queue q))") (auto simp: dequeue_usb_buf_def split: list.splits)

declare free_txbuf_loop.simps [simp del]

definition phl_free_txbuf_pool_usb :: "phl_usb_tx_buf_resource option \<Rightarrow> nat list" where
  "phl_free_txbuf_pool_usb pool =
     (case pool of
        None \<Rightarrow> []
      | Some ring \<Rightarrow>
          free_txbuf_loop (idle_txbuf_list ring) @ free_txbuf_loop (mgmt_txbuf_list ring) @
          free_txbuf_loop (h2c_txbuf_list ring))"

text \<open>
  What the allocator gives for one buffer: nothing for the object, the object without its memory, or
  both. \<^verbatim>\<open>_phl_alloc_txbuf_usb\<close> frees an object without its memory and returns the pointer to it.
\<close>

datatype txbuf_mem = No_object | No_buffer | Both bytes

text \<open>
  The three loops of \<^verbatim>\<open>_phl_alloc_txbuf_pool_usb\<close>, over the numbers of the buffers: \<open>None\<close> is the use of
  a freed object.
\<close>

fun alloc_txbuf_loop ::
  "(nat \<Rightarrow> txbuf_mem) \<Rightarrow> rtw_packet_type \<Rightarrow> u32 \<Rightarrow> nat list \<Rightarrow> rtw_phl_status \<Rightarrow> (nat \<Rightarrow> phl_usb_buf) \<Rightarrow> nat phl_queue \<Rightarrow>
   (bool \<times> rtw_phl_status \<times> (nat \<Rightarrow> phl_usb_buf) \<times> nat phl_queue) option" where
  "alloc_txbuf_loop mem ty sz [] sts bufs q = Some (True, sts, bufs, q)"
| "alloc_txbuf_loop mem ty sz (b # bs) sts bufs q =
     (case mem b of
        No_object \<Rightarrow> Some (False, RTW_PHL_STATUS_RESOURCE, bufs, q)
      | No_buffer \<Rightarrow> None
      | Both m \<Rightarrow>
          alloc_txbuf_loop mem ty sz bs RTW_PHL_STATUS_SUCCESS
            (bufs(b := \<lparr>ub_type = ty, ub_buffer = Ub_mem m, ub_buf_len = sz\<rparr>)) (snd (enqueue_usb_buf q (Some b) Pos_tail)))"

fun alloc_h2cbuf_loop ::
  "(nat \<Rightarrow> bool) \<Rightarrow> nat list \<Rightarrow> rtw_phl_status \<Rightarrow> (nat \<Rightarrow> phl_usb_buf) \<Rightarrow> nat phl_queue \<Rightarrow>
   bool \<times> rtw_phl_status \<times> (nat \<Rightarrow> phl_usb_buf) \<times> nat phl_queue" where
  "alloc_h2cbuf_loop mem [] sts bufs q = (True, sts, bufs, q)"
| "alloc_h2cbuf_loop mem (b # bs) sts bufs q =
     (if \<not> mem b then (False, RTW_PHL_STATUS_RESOURCE, bufs, q)
      else alloc_h2cbuf_loop mem bs RTW_PHL_STATUS_SUCCESS
             (bufs(b := \<lparr>ub_type = RTW_PHL_PKT_TYPE_H2C, ub_buffer = Ub_null, ub_buf_len = 0\<rparr>))
             (snd (enqueue_usb_buf q (Some b) Pos_tail)))"

record tx_bus_cap =
  cap_tx_buf_num :: nat
  cap_tx_buf_size :: u32
  cap_tx_mgnt_buf_num :: nat
  cap_tx_mgnt_buf_size :: u32
  cap_tx_h2c_buf_num :: nat

definition usb_buf0 :: phl_usb_buf where
  "usb_buf0 = \<lparr>ub_type = RTW_PHL_PKT_TYPE_DATA, ub_buffer = Ub_null, ub_buf_len = 0\<rparr>"

definition txbuf_pool0 :: phl_usb_tx_buf_resource where
  "txbuf_pool0 = \<lparr>usb_buf = (\<lambda>_. usb_buf0), idle_txbuf_list = pq_init, mgmt_txbuf_list = pq_init, h2c_txbuf_list = pq_init\<rparr>"

text \<open>
  \<^verbatim>\<open>_phl_alloc_txbuf_pool_usb\<close>: status, the pool when it was set up, and the buffers given back when not.
\<close>

definition phl_alloc_txbuf_pool_usb ::
  "bool \<Rightarrow> (nat \<Rightarrow> txbuf_mem) \<Rightarrow> (nat \<Rightarrow> bool) \<Rightarrow> tx_bus_cap \<Rightarrow>
   (rtw_phl_status \<times> phl_usb_tx_buf_resource option \<times> nat list) option" where
  "phl_alloc_txbuf_pool_usb ring_mem mem h2c_ok cap =
     (if \<not> ring_mem then Some (RTW_PHL_STATUS_FAILURE, None, [])
      else
        let n = cap_tx_buf_num cap; m = cap_tx_mgnt_buf_num cap; ring = txbuf_pool0;
            back = (\<lambda>sts ring. Some (sts, None, phl_free_txbuf_pool_usb (Some ring)))
        in
        (case alloc_txbuf_loop mem RTW_PHL_PKT_TYPE_DATA (cap_tx_buf_size cap) [0..<n] RTW_PHL_STATUS_FAILURE
                (usb_buf ring) (idle_txbuf_list ring) of
           None \<Rightarrow> None
         | Some (ok, sts, bufs, q) \<Rightarrow>
             (let ring = ring\<lparr>usb_buf := bufs, idle_txbuf_list := q\<rparr> in
              if \<not> ok then back sts ring
              else
                (case alloc_txbuf_loop mem RTW_PHL_PKT_TYPE_MGNT (cap_tx_mgnt_buf_size cap) [n..<n + m] sts
                        (usb_buf ring) (mgmt_txbuf_list ring) of
                   None \<Rightarrow> None
                 | Some (ok, sts, bufs, q) \<Rightarrow>
                     (let ring = ring\<lparr>usb_buf := bufs, mgmt_txbuf_list := q\<rparr> in
                      if \<not> ok then back sts ring
                      else
                        (case alloc_h2cbuf_loop h2c_ok [n + m..<n + m + cap_tx_h2c_buf_num cap] sts
                                (usb_buf ring) (h2c_txbuf_list ring) of
                           (ok, sts, bufs, q) \<Rightarrow>
                             (let ring = ring\<lparr>usb_buf := bufs, h2c_txbuf_list := q\<rparr> in
                              if ok \<and> sts = RTW_PHL_STATUS_SUCCESS then Some (sts, Some ring, [])
                              else back sts ring)))))))"

text \<open>
  \<^verbatim>\<open>phl_tx_release_buf_usb\<close>: a finished transfer gives its buffer back, and the command packet in it.
  \<open>None\<close> is a command buffer that holds no packet.
\<close>

definition phl_tx_release_buf_usb ::
  "nat \<Rightarrow> phl_usb_tx_buf_resource \<Rightarrow> phl_h2c_pkt_pool \<Rightarrow>
   (rtw_phl_status \<times> phl_usb_tx_buf_resource \<times> phl_h2c_pkt_pool) option" where
  "phl_tx_release_buf_usb b res h2c =
     (case ub_type (usb_buf res b) of
        RTW_PHL_PKT_TYPE_H2C \<Rightarrow>
          (case (case ub_buffer (usb_buf res b) of
                   Ub_null \<Rightarrow> phl_enqueue_idle_h2c_pkt h2c None
                 | Ub_h2c p \<Rightarrow> phl_enqueue_idle_h2c_pkt h2c (Some p)
                 | Ub_mem m \<Rightarrow> None) of
             None \<Rightarrow> None
           | Some (_, h2c) \<Rightarrow>
               (case enqueue_usb_buf (h2c_txbuf_list res) (Some b) Pos_tail of
                  (sts, q) \<Rightarrow>
                    Some (sts, res\<lparr>usb_buf := (usb_buf res)(b := (usb_buf res b)\<lparr>ub_buffer := Ub_null\<rparr>),
                                   h2c_txbuf_list := q\<rparr>, h2c)))
      | RTW_PHL_PKT_TYPE_MGNT \<Rightarrow>
          (case enqueue_usb_buf (mgmt_txbuf_list res) (Some b) Pos_tail of
             (sts, q) \<Rightarrow> Some (sts, res\<lparr>mgmt_txbuf_list := q\<rparr>, h2c))
      | _ \<Rightarrow>
          (case enqueue_usb_buf (idle_txbuf_list res) (Some b) Pos_tail of
             (sts, q) \<Rightarrow> Some (sts, res\<lparr>idle_txbuf_list := q\<rparr>, h2c)))"

section \<open>The transmit handler\<close>

datatype phl_tx_status =
    PHL_TX_STATUS_IDLE | PHL_TX_STATUS_RUNNING | PHL_TX_STATUS_STOP_INPROGRESS | PHL_TX_STATUS_SW_PAUSE

text \<open>A transfer given to the USB stack: buffer, bulk endpoint, length, and the buffer's bytes.\<close>

record usb_transfer =
  xf_buf :: nat
  xf_bulk_id :: u8
  xf_len :: u32
  xf_data :: bytes

text \<open>
  The state: the rings and status objects of \<open>Phl_Tx\<close>, the buffer pool (null before it is set up), the
  status of the handler, and the transfers the USB stack has accepted, oldest first.
\<close>

record usb_tx =
  ut_tx :: "rtw_xmit_req phl_tx"
  txbuf_pool :: "phl_usb_tx_buf_resource option"
  phl_sw_tx_sts :: phl_tx_status
  ut_sent :: "usb_transfer list"

definition phl_req_tx_stop_usb :: "usb_tx \<Rightarrow> usb_tx" where
  "phl_req_tx_stop_usb st = st\<lparr>phl_sw_tx_sts := PHL_TX_STATUS_STOP_INPROGRESS\<rparr>"

definition phl_tx_stop_usb :: "usb_tx \<Rightarrow> usb_tx" where
  "phl_tx_stop_usb st = st\<lparr>phl_sw_tx_sts := PHL_TX_STATUS_SW_PAUSE\<rparr>"

definition phl_tx_resume_usb :: "usb_tx \<Rightarrow> usb_tx" where
  "phl_tx_resume_usb st = st\<lparr>phl_sw_tx_sts := PHL_TX_STATUS_RUNNING\<rparr>"

definition phl_is_tx_sw_pause_usb :: "usb_tx \<Rightarrow> bool" where
  "phl_is_tx_sw_pause_usb st = (if phl_sw_tx_sts st = PHL_TX_STATUS_SW_PAUSE then True else False)"

text \<open>
  \<^verbatim>\<open>ring_ptr\<close> of a status object: the position of the ring set and the ring; \<open>None\<close> when the set is gone.
\<close>

definition ring_ptr :: "phl_ring_status \<Rightarrow> 'p phl_tx \<Rightarrow> (nat \<times> 'p rtw_phl_tx_ring) option" where
  "ring_ptr ring_sts tx =
     map_option (\<lambda>k. (k, phl_ring (t_ring_list tx ! k) ! unat (rs_tid ring_sts)))
       (find_tring (rs_macid ring_sts) 0 (t_ring_list tx))"

text \<open>
  \<^verbatim>\<open>_phl_tx_flow_ctrl_usb\<close>: a buffer for a ring; without one the status object goes back. \<open>tx_buf\<close> is the
  caller's variable.
\<close>

definition phl_tx_flow_ctrl_usb :: "phl_ring_status \<Rightarrow> nat option \<Rightarrow> usb_tx \<Rightarrow> (nat option \<times> usb_tx) option" where
  "phl_tx_flow_ctrl_usb target_ring tx_buf st =
     (case (case txbuf_pool st of
              None \<Rightarrow> Some (tx_buf, st)
            | Some reso \<Rightarrow>
                (case ring_ptr target_ring (ut_tx st) of
                   None \<Rightarrow> None
                 | Some (k, tring) \<Rightarrow>
                     if tid tring = MGMT_TID then
                       (case dequeue_usb_buf (mgmt_txbuf_list reso) of
                          (b, q) \<Rightarrow> Some (b, st\<lparr>txbuf_pool := Some (reso\<lparr>mgmt_txbuf_list := q\<rparr>)\<rparr>))
                     else
                       (case dequeue_usb_buf (idle_txbuf_list reso) of
                          (b, q) \<Rightarrow> Some (b, st\<lparr>txbuf_pool := Some (reso\<lparr>idle_txbuf_list := q\<rparr>)\<rparr>)))) of
        None \<Rightarrow> None
      | Some (tx_buf, st) \<Rightarrow>
          Some (tx_buf,
            if tx_buf = None then
              st\<lparr>ut_tx := (ut_tx st)\<lparr>ring_sts_idle := phl_release_ring_sts (ring_sts_idle (ut_tx st)) target_ring\<rparr>\<rparr>
            else st))"

text \<open>The loop of \<^verbatim>\<open>_phl_handle_xmit_ring_usb\<close> from its start.\<close>

definition xmit_start :: "rtw_xmit_req rtw_phl_tx_ring \<Rightarrow> u16 \<Rightarrow> bytes \<Rightarrow> xmit_st" where
  "xmit_start ring busy buf =
     \<lparr>xs_ring = ring, xs_busy = busy, xs_buf = buf, xs_off = 0, xs_packet_len = 0, xs_tx_len = 0, xs_agg_cnt = 0,
      xs_trasc_agg_cnt = 0, xs_trasc_idx = 0, xs_status = RTW_PHL_STATUS_FAILURE, xs_type = RTW_PHL_PKT_TYPE_DATA,
      xs_done = []\<rparr>"

definition xmit_pack :: "usb_bus \<Rightarrow> tx_env \<Rightarrow> u16 \<Rightarrow> rtw_xmit_req rtw_phl_tx_ring \<Rightarrow> u16 \<Rightarrow> bytes \<Rightarrow> xmit_st option" where
  "xmit_pack bus env macid ring busy buf =
     (case (if txpad bus then usb_tx_agg_preprocess bus ring busy else (IDX_NONE, False)) of
        (last_idx, is_dummy) \<Rightarrow> xmit_ring_loop bus env macid last_idx is_dummy (xmit_start ring busy buf))"

text \<open>
  \<^verbatim>\<open>_phl_handle_xmit_ring_usb\<close> on the ring that a status object names. A ring that is gone, a missing pool
  and a buffer without memory are null pointers.
\<close>

definition set_ring :: "nat \<Rightarrow> nat \<Rightarrow> 'p rtw_phl_tx_ring \<Rightarrow> 'p phl_tx \<Rightarrow> 'p phl_tx" where
  "set_ring k t ring tx =
     tx\<lparr>t_ring_list := (t_ring_list tx)
          [k := (t_ring_list tx ! k)\<lparr>phl_ring := (phl_ring (t_ring_list tx ! k))[t := ring]\<rparr>]\<rparr>"

definition phl_handle_xmit_ring_usb ::
  "usb_bus \<Rightarrow> tx_env \<Rightarrow> phl_ring_status \<Rightarrow> nat \<Rightarrow> usb_tx \<Rightarrow> (rtw_phl_status \<times> usb_tx) option" where
  "phl_handle_xmit_ring_usb bus env ring_sts b st =
     (case ring_ptr ring_sts (ut_tx st) of
        None \<Rightarrow> None
      | Some (k, tring) \<Rightarrow>
         (case txbuf_pool st of
            None \<Rightarrow> None
          | Some res \<Rightarrow>
             (case ub_buffer (usb_buf res b) of
                Ub_mem buf \<Rightarrow>
                  (case xmit_pack bus env (rs_macid ring_sts) tring (req_busy ring_sts) buf of
                     None \<Rightarrow> None
                   | Some s \<Rightarrow>
                      (let data = (if xs_status s = RTW_PHL_STATUS_SUCCESS \<and> txagg bus \<and> xs_type s = RTW_PHL_PKT_TYPE_DATA \<and>
                                      xs_agg_cnt s > 1
                                   then hal_usb_tx_agg_cfg env (xs_buf s) (xs_agg_cnt s) else xs_buf s);
                           bulk_id = hal_get_bulkout_id env (dma_ch tring);
                           (pstatus, sent) =
                             (if xs_status s = RTW_PHL_STATUS_SUCCESS then
                                let sts = os_usb_tx env b bulk_id (xs_tx_len s) data in
                                (sts, if sts = RTW_PHL_STATUS_SUCCESS
                                      then [\<lparr>xf_buf = b, xf_bulk_id = bulk_id, xf_len = xs_tx_len s, xf_data = data\<rparr>]
                                      else [])
                              else (xs_status s, []));
                           res = res\<lparr>usb_buf := (usb_buf res)(b := (usb_buf res b)\<lparr>ub_buffer := Ub_mem data\<rparr>)\<rparr>;
                           (pstatus, res) =
                             (if pstatus = RTW_PHL_STATUS_FAILURE then
                                if tid tring = MGMT_TID then
                                  (case enqueue_usb_buf (mgmt_txbuf_list res) (Some b) Pos_tail of
                                     (sts, q) \<Rightarrow> (sts, res\<lparr>mgmt_txbuf_list := q\<rparr>))
                                else
                                  (case enqueue_usb_buf (idle_txbuf_list res) (Some b) Pos_tail of
                                     (sts, q) \<Rightarrow> (sts, res\<lparr>idle_txbuf_list := q\<rparr>))
                              else (pstatus, res));
                           tx = set_ring k (unat (rs_tid ring_sts)) (xs_ring s) (ut_tx st);
                           tx = tx\<lparr>ring_sts_idle := phl_release_ring_sts (ring_sts_idle tx) ring_sts\<rparr>
                       in Some (pstatus, st\<lparr>ut_tx := tx, txbuf_pool := Some res, ut_sent := ut_sent st @ sent\<rparr>)))
              | _ \<Rightarrow> None)))"

text \<open>The loop of \<^verbatim>\<open>_phl_tx_callback_usb\<close> over the rings in the order of the flow control.\<close>

fun tx_callback_loop ::
  "usb_bus \<Rightarrow> tx_env \<Rightarrow> phl_ring_status list \<Rightarrow> nat option \<Rightarrow> usb_tx \<Rightarrow> usb_tx option" where
  "tx_callback_loop bus env [] tx_buf st = Some st"
| "tx_callback_loop bus env (ring_sts # rs) tx_buf st =
     (case phl_tx_flow_ctrl_usb ring_sts tx_buf (st\<lparr>ut_tx := (ut_tx st)\<lparr>t_fctrl_result := rs\<rparr>\<rparr>) of
        None \<Rightarrow> None
      | Some (None, st) \<Rightarrow> tx_callback_loop bus env rs None st
      | Some (Some b, st) \<Rightarrow>
          (case phl_handle_xmit_ring_usb bus env ring_sts b st of
             None \<Rightarrow> None
           | Some (_, st) \<Rightarrow> tx_callback_loop bus env rs (Some b) st))"

text \<open>
  \<^verbatim>\<open>_phl_tx_callback_usb\<close>; also gives the requests that the release of ring sets recycles.
\<close>

definition phl_tx_callback_usb :: "usb_bus \<Rightarrow> tx_env \<Rightarrow> usb_tx \<Rightarrow> (rtw_xmit_req list \<times> usb_tx) option" where
  "phl_tx_callback_usb bus env st =
     (if phl_sw_tx_sts st = PHL_TX_STATUS_SW_PAUSE then Some ([], st)
      else
        (case phl_check_xmit_ring_resource (ut_tx st) of
           (avail, sta_list, tx) \<Rightarrow>
             (case (if avail then
                      let tx = phl_tx_flow_ctrl sta_list tx in
                      tx_callback_loop bus env (t_fctrl_result tx) None (st\<lparr>ut_tx := tx\<rparr>)
                    else Some (st\<lparr>ut_tx := tx\<rparr>)) of
                None \<Rightarrow> None
              | Some st \<Rightarrow>
                  (let st = (if phl_sw_tx_sts st = PHL_TX_STATUS_STOP_INPROGRESS then phl_tx_stop_usb st else st) in
                   case phl_free_deferred_tx_ring (ut_tx st) of
                     (None, _) \<Rightarrow> None
                   | (Some reqs, tx) \<Rightarrow> Some (reqs, st\<lparr>ut_tx := tx\<rparr>)))))"

end
