(* ===== verification/Phl_Usb_Pack.thy ===== *)
theory Phl_Usb_Pack
  imports Phl_Usb_Tx
begin

text \<open>
  What the packing loop of \<^verbatim>\<open>_phl_handle_xmit_ring_usb\<close> puts into a buffer: the requests of the ring in
  their order, each as descriptor and payload, each at an offset that is a multiple of eight, never
  behind the end of the buffer.
\<close>

section \<open>Alignment\<close>

definition al8 :: "nat \<Rightarrow> nat" where
  "al8 n = (n + 7) div 8 * 8"

lemma al8_0 [simp]: "al8 0 = 0"
  by (simp add: al8_def)

lemma al8_ge: "n \<le> al8 n"
  unfolding al8_def by linarith

lemma al8_less: "al8 n < n + 8"
  unfolding al8_def by linarith

lemma al8_dvd [simp]: "8 dvd al8 n"
  by (simp add: al8_def)

lemma al8_add:
  assumes "8 dvd a"
  shows "al8 (a + n) = a + al8 n"
proof -
  from assms obtain k where "a = 8 * k" by (auto simp: dvd_def)
  then show ?thesis unfolding al8_def by presburger
qed

lemma al8_least:
  assumes "8 dvd l" and "n \<le> l"
  shows "al8 n \<le> l"
proof -
  from assms(1) obtain k where "l = 8 * k" by (auto simp: dvd_def)
  with assms(2) show ?thesis unfolding al8_def by presburger
qed

lemma and_not_7: "x AND NOT 7 = push_bit 3 (drop_bit 3 x)" for x :: u32
proof (rule bit_word_eqI)
  fix n assume "n < LENGTH(32)"
  moreover have "bit (7 :: u32) n \<longleftrightarrow> n < 3" if "n < 32"
  proof -
    have "(7 :: u32) = mask 3" by (simp add: mask_eq_exp_minus_1)
    then show ?thesis using that by (simp only: bit_mask_iff) simp
  qed
  ultimately show "bit (x AND NOT 7) n = bit (push_bit 3 (drop_bit 3 x)) n"
    by (auto simp: bit_simps)
qed

lemma unat_align8:
  assumes "unat x + 7 < 2 ^ 32"
  shows "unat (align8 x) = al8 (unat x)"
proof -
  have s: "unat (x + 7) = unat x + 7" using assms by (simp add: unat_word_ariths)
  have "align8 x = (x + 7) AND NOT 7" unfolding align8_def by (simp add: add.commute)
  then have "align8 x = push_bit 3 (drop_bit 3 (x + 7))" by (simp only: and_not_7)
  moreover have "unat (push_bit 3 (drop_bit 3 (x + 7))) = take_bit 32 (push_bit 3 ((unat x + 7) div 8))"
    by (simp add: unsigned_push_bit_eq drop_bit_eq_div unat_div_distrib s)
  moreover have "(unat x + 7) div 8 * 8 < 2 ^ 32" using assms by linarith
  ultimately show ?thesis by (simp add: al8_def push_bit_eq_mult take_bit_eq_mod)
qed

section \<open>The layout of a buffer\<close>

text \<open>The end of the last frame, when each starts at the next multiple of eight.\<close>

definition pack_len :: "bytes list \<Rightarrow> nat" where
  "pack_len = foldl (\<lambda>e f. al8 e + length f) 0"

lemma pack_len_Nil [simp]: "pack_len [] = 0"
  by (simp add: pack_len_def)

lemma pack_len_snoc [simp]: "pack_len (fs @ [f]) = al8 (pack_len fs) + length f"
  by (simp add: pack_len_def)

definition frames_at :: "bytes \<Rightarrow> bytes list \<Rightarrow> bool" where
  "frames_at buf fs \<longleftrightarrow>
     (\<forall>i < length fs. mem_get buf (al8 (pack_len (take i fs))) (length (fs ! i)) = Some (fs ! i))"

lemma frames_at_Nil [simp]: "frames_at buf []"
  by (simp add: frames_at_def)

lemma pack_len_mono: "i \<le> j \<Longrightarrow> pack_len (take i fs) \<le> pack_len (take j fs)"
proof (induction j)
  case (Suc j)
  have "pack_len (take j fs) \<le> pack_len (take (Suc j) fs)"
    by (cases "j < length fs") (auto simp: take_Suc_conv_app_nth intro: le_trans [OF al8_ge])
  with Suc show ?case by (cases "i = Suc j") auto
qed simp

lemma frame_before:
  assumes "i < length fs"
  shows "al8 (pack_len (take i fs)) + length (fs ! i) \<le> pack_len fs"
  using pack_len_mono [of "Suc i" "length fs" fs] assms by (simp add: take_Suc_conv_app_nth)

lemma frames_at_snoc:
  assumes "frames_at buf fs" and "mem_put buf (al8 (pack_len fs)) f = Some buf'"
  shows "frames_at buf' (fs @ [f])"
  unfolding frames_at_def
proof (intro allI impI)
  fix i assume i: "i < length (fs @ [f])"
  show "mem_get buf' (al8 (pack_len (take i (fs @ [f])))) (length ((fs @ [f]) ! i)) = Some ((fs @ [f]) ! i)"
  proof (cases "i < length fs")
    case True
    have "al8 (pack_len (take i fs)) + length (fs ! i) \<le> al8 (pack_len fs)"
      using frame_before [OF True] al8_ge [of "pack_len fs"] by linarith
    from mem_get_before [OF assms(2) this] assms(1) True show ?thesis
      by (simp add: frames_at_def nth_append)
  next
    case False
    with i have "i = length fs" by simp
    then show ?thesis using mem_put_get(1) [OF assms(2)] by simp
  qed
qed

section \<open>One request\<close>

definition payload :: "rtw_xmit_req \<Rightarrow> bytes" where
  "payload req = concat (map (case_option [] id) (pkt_list req))"

definition frame_of :: "tx_env \<Rightarrow> rtw_xmit_req \<Rightarrow> bytes" where
  "frame_of env req = the (hal_fill_wd env req) @ payload req"

lemma mem_put_append:
  assumes "mem_put buf off p = Some buf1"
  shows "mem_put buf1 (off + length p) q = mem_put buf off (p @ q)"
proof -
  have off: "off + length p \<le> length buf" and b: "buf1 = take off buf @ p @ drop (off + length p) buf"
    using assms by (auto simp: mem_put_def split: if_splits)
  then have "length buf1 = length buf" by simp
  moreover have "take (off + length p) buf1 = take off buf @ p" using off b by simp
  moreover have "drop (off + length p + length q) buf1 = drop (off + length (p @ q)) buf"
    using off b by (simp add: add.commute add.left_commute)
  ultimately show ?thesis by (simp add: mem_put_def add.assoc)
qed

lemma mem_put_room: "off + length p \<le> length buf \<Longrightarrow> \<exists>buf'. mem_put buf off p = Some buf'"
  by (simp add: mem_put_def)

lemma copy_pkts_put:
  assumes "off + length (concat (map (case_option [] id) ps)) \<le> length buf"
  shows "\<exists>buf'. mem_put buf off (concat (map (case_option [] id) ps)) = Some buf' \<and>
    copy_pkts buf off len ps = Some (buf', len + of_nat (length (concat (map (case_option [] id) ps))))"
  using assms
proof (induction buf off len ps rule: copy_pkts.induct)
  case (1 buf off len)
  then show ?case by (simp add: mem_put_def)
next
  case (2 buf off len ps)
  then show ?case by simp
next
  case (3 buf off len p ps)
  then obtain buf1 where b: "mem_put buf off p = Some buf1" using mem_put_room [of off p buf] by auto
  have "off + length p + length (concat (map (case_option [] id) ps)) \<le> length buf1"
    using 3(2) mem_put_get(2) [OF b] by simp
  from 3(1) [OF b this] mem_put_append [OF b] b show ?case by (simp add: add.assoc)
qed

text \<open>
  What the HAL, the core and the caller promise of a request: a descriptor of the length that the loop
  counts with, no dummy asked for, \<^verbatim>\<open>total_len\<close> the length of the pieces, and a recycle callback that
  succeeds.
\<close>

definition req_ok :: "tx_env \<Rightarrow> rtw_xmit_req \<Rightarrow> bool" where
  "req_ok env req \<longleftrightarrow>
     (\<exists>wd. hal_fill_wd env req = Some wd \<and> length wd = unat (wd_len_of (t_mdata req))) \<and>
     usb_pkt_ofst (t_mdata req) \<noteq> 1 \<and> unat (total_len req) = length (payload req) \<and> length (payload req) < 65536 \<and>
     tx_recycle_status env req = RTW_PHL_STATUS_SUCCESS"

lemma wd_len_cases: "unat (wd_len_of md) = 48 \<or> unat (wd_len_of md) = 24"
  by (simp add: wd_len_of_def)

lemma frame_length:
  assumes "req_ok env req"
  shows "length (frame_of env req) = unat (wd_len_of (t_mdata req)) + unat (total_len req)"
    and "length (frame_of env req) < 65600"
  using assms wd_len_cases [of "t_mdata req"] by (auto simp: req_ok_def frame_of_def)

lemma prepare_ok:
  assumes ok: "req_ok env req" and room: "off + length (frame_of env req) \<le> length buf"
  shows "\<exists>buf'. mem_put buf off (frame_of env req) = Some buf' \<and>
    phl_prepare_tx_usb env req buf off = Some (RTW_PHL_STATUS_SUCCESS, buf', of_nat (length (frame_of env req)))"
proof -
  from ok obtain wd where wd: "hal_fill_wd env req = Some wd" by (auto simp: req_ok_def)
  then have F: "frame_of env req = wd @ payload req" by (simp add: frame_of_def)
  from room F obtain buf1 where b1: "mem_put buf off wd = Some buf1" using mem_put_room [of off wd buf] by auto
  have "off + length wd + length (payload req) \<le> length buf1" using room F mem_put_get(2) [OF b1] by simp
  from copy_pkts_put [OF this [unfolded payload_def], of "of_nat (length wd)", folded payload_def] obtain buf2 where
    b2: "mem_put buf1 (off + length wd) (payload req) = Some buf2"
      "copy_pkts buf1 (off + length wd) (of_nat (length wd)) (pkt_list req) =
        Some (buf2, of_nat (length wd) + of_nat (length (payload req)))" by blast
  have "mem_put buf off (frame_of env req) = Some buf2" using mem_put_append [OF b1] b2(1) F by simp
  with wd b1 b2 ok F show ?thesis by (simp add: phl_prepare_tx_usb_def req_ok_def)
qed

section \<open>The ring under the loop\<close>

definition next_marked :: "'p rtw_phl_tx_ring \<Rightarrow> bool" where
  "next_marked ring \<longleftrightarrow> unat (phl_next_idx ring) = (unat (phl_idx ring) + 1) mod 4096"

lemma next_marked_u16: "next_marked ring \<Longrightarrow> unat (ucast (phl_next_idx ring) :: u16) = (unat (phl_idx ring) + 1) mod 4096"
  unfolding next_marked_def by (subst unat_idx_u16) simp_all

lemma ring_head:
  assumes wf: "tx_ring_wf ring" and c: "tx_ring_contents ring = q # qs" and nxt: "next_marked ring"
  defines "e \<equiv> unat (ucast (phl_next_idx ring) :: u16)"
  shows "entry ring ! e = Some q"
    and "tx_ring_wf (ring\<lparr>entry := (entry ring)[e := Some f]\<rparr>)"
    and "tx_ring_contents (ring\<lparr>entry := (entry ring)[e := Some f]\<rparr>) = f # qs"
proof -
  note D = tx_ring_idxD [OF wf]
  let ?r = "unat (phl_idx ring)" and ?w = "unat (core_idx ring)"
  have e: "e = (?r + 1) mod 4096" unfolding e_def using nxt by (rule next_marked_u16)
  have len: "length (ring_contents 4096 (entry ring) ?r ?w) = Suc (length qs)"
    using arg_cong [OF c, of length] unfolding tx_ring_contents_def by simp
  then have fill: "0 < ring_fill 4096 ?r ?w" by simp
  define rest where "rest = ring_contents 4096 ((entry ring)[e := Some f]) ((?r + 1) mod 4096) ?w"
  have old: "ring_contents 4096 (entry ring) ?r ?w = entry ring ! e # rest"
    using ring_contents_read [OF D(1,2) fill D(3), of "Some f"] unfolding rest_def e by simp
  have new: "ring_contents 4096 ((entry ring)[e := Some f]) ?r ?w = Some f # rest"
    using ring_contents_read [OF D(1,2) fill, of "(entry ring)[e := Some f]" "Some f"] D(3) unfolding rest_def e by simp
  have nn: "\<forall>x \<in> set (entry ring ! e # rest). x \<noteq> None" using wf old unfolding tx_ring_wf_def by simp
  have "the (entry ring ! e) = q" "map the rest = qs" using c old unfolding tx_ring_contents_def by simp_all
  then show "entry ring ! e = Some q" "tx_ring_contents (ring\<lparr>entry := (entry ring)[e := Some f]\<rparr>) = f # qs"
    using nn new unfolding tx_ring_contents_def by auto
  show "tx_ring_wf (ring\<lparr>entry := (entry ring)[e := Some f]\<rparr>)"
    using D nn new unfolding tx_ring_wf_def by simp
qed

lemma ring_taken:
  assumes wf: "tx_ring_wf ring" and c: "tx_ring_contents ring = f # qs" and nxt: "next_marked ring"
  defines "rptr \<equiv> ucast (phl_next_idx ring) :: u16"
  shows "tx_ring_wf (ring\<lparr>phl_idx := ucast rptr\<rparr>)"
    and "tx_ring_contents (ring\<lparr>phl_idx := ucast rptr\<rparr>) = qs"
    and "next_marked (ring\<lparr>phl_idx := ucast rptr,
           phl_next_idx := (if rptr + 1 \<ge> MAX_PHL_RING_ENTRY_NUM then 0 else phl_next_idx ring + 1)\<rparr>)"
proof -
  from tx_take_next [OF wf c nxt [unfolded next_marked_def]]
  show "tx_ring_wf (ring\<lparr>phl_idx := ucast rptr\<rparr>)" "tx_ring_contents (ring\<lparr>phl_idx := ucast rptr\<rparr>) = qs"
    by (auto simp: ring_take_next_def rptr_def Let_def)
  have n: "unat (phl_next_idx ring) < 4096" using nxt unfolding next_marked_def by simp
  have r: "unat rptr = unat (phl_next_idx ring)" unfolding rptr_def using n by (rule unat_idx_u16)
  then have u: "unat (ucast rptr :: u32) = unat (phl_next_idx ring)" using n by (simp add: unsigned_ucast_eq take_bit_eq_mod)
  have iff: "rptr + 1 \<ge> MAX_PHL_RING_ENTRY_NUM \<longleftrightarrow> unat (phl_next_idx ring) = 4095"
    using unat_idx_wrap(2) [of rptr] n r by simp
  show "next_marked (ring\<lparr>phl_idx := ucast rptr,
           phl_next_idx := (if rptr + 1 \<ge> MAX_PHL_RING_ENTRY_NUM then 0 else phl_next_idx ring + 1)\<rparr>)"
    using n u iff unat_u32_inc [of "phl_next_idx ring"] by (auto simp: next_marked_def)
qed

lemma fill_same [simp]:
  "t_mdata (xmit_fill_mdata macid ring False req) = (t_mdata req)\<lparr>tm_macid := macid, tm_tid := tid ring,
     tm_dma_ch := dma_ch ring, tm_pktlen := ucast (total_len req)\<rparr>"
  "total_len (xmit_fill_mdata macid ring False req) = total_len req"
  "pkt_list (xmit_fill_mdata macid ring False req) = pkt_list req"
  "xmit_fill_mdata macid ring False (xmit_fill_mdata macid ring False req) = xmit_fill_mdata macid ring False req"
  by (simp_all add: xmit_fill_mdata_def)

lemma fill_cong:
  assumes "tid ring = tid ring'" and "dma_ch ring = dma_ch ring'"
  shows "xmit_fill_mdata macid ring dummy = xmit_fill_mdata macid ring' dummy"
  using assms by (simp add: xmit_fill_mdata_def fun_eq_iff)

section \<open>The loop\<close>

text \<open>
  What holds whenever the loop ends, and what holds in addition whenever it goes on. \<open>ring0\<close> is the ring
  at the start, \<open>L\<close> the size the loop checks against.
\<close>

definition xmit_out :: "tx_env \<Rightarrow> nat \<Rightarrow> u16 \<Rightarrow> rtw_xmit_req rtw_phl_tx_ring \<Rightarrow> xmit_st \<Rightarrow> bool" where
  "xmit_out env L macid ring0 s \<longleftrightarrow>
     tx_ring_wf (xs_ring s) \<and> tid (xs_ring s) = tid ring0 \<and> dma_ch (xs_ring s) = dma_ch ring0 \<and>
     xs_done s @ map (xmit_fill_mdata macid ring0 False) (tx_ring_contents (xs_ring s)) =
       map (xmit_fill_mdata macid ring0 False) (tx_ring_contents ring0) \<and>
     L \<le> length (xs_buf s) \<and> frames_at (xs_buf s) (map (frame_of env) (xs_done s)) \<and>
     unat (xs_tx_len s) = pack_len (map (frame_of env) (xs_done s)) \<and> pack_len (map (frame_of env) (xs_done s)) \<le> L \<and>
     xs_status s = (if xs_done s = [] then RTW_PHL_STATUS_FAILURE else RTW_PHL_STATUS_SUCCESS)"

definition xmit_inv :: "usb_bus \<Rightarrow> tx_env \<Rightarrow> nat \<Rightarrow> u16 \<Rightarrow> rtw_packet_type \<Rightarrow> rtw_xmit_req rtw_phl_tx_ring \<Rightarrow> xmit_st \<Rightarrow> bool" where
  "xmit_inv bus env L macid ty ring0 s \<longleftrightarrow>
     xmit_out env L macid ring0 s \<and> unat (xs_busy s) = length (tx_ring_contents (xs_ring s)) \<and>
     (xs_busy s \<noteq> 0 \<longrightarrow> next_marked (xs_ring s)) \<and>
     xs_off s + unat (xs_packet_len s) = pack_len (map (frame_of env) (xs_done s)) \<and> 8 dvd xs_off s \<and>
     (xs_done s \<noteq> [] \<longrightarrow> txagg bus \<and> ty = RTW_PHL_PKT_TYPE_DATA) \<and> (xs_done s = [] \<longrightarrow> xs_agg_cnt s = 0)"

definition pack_pre :: "usb_bus \<Rightarrow> tx_env \<Rightarrow> u16 \<Rightarrow> rtw_packet_type \<Rightarrow> rtw_xmit_req rtw_phl_tx_ring \<Rightarrow> bool" where
  "pack_pre bus env macid ty ring0 \<longleftrightarrow>
     tx_ring_wf ring0 \<and> \<not> txpad bus \<and> 8 dvd unat (bus_tx_buf_size bus) \<and> unat (bus_tx_buf_size bus) < 2 ^ 31 \<and>
     (\<forall>req \<in> set (tx_ring_contents ring0).
        tm_type (t_mdata req) = ty \<and> req_ok env (xmit_fill_mdata macid ring0 False req))"

lemma xmit_align_step:
  assumes inv: "xmit_inv bus env L macid ty ring0 s" and L: "L < 2 ^ 31" and ty: "xs_type s = ty"
    and a: "xmit_align bus wd_len s = Some s'"
  shows "xs_off s' = al8 (pack_len (map (frame_of env) (xs_done s)))"
    and "unat (xs_tx_len s') = al8 (pack_len (map (frame_of env) (xs_done s)))"
    and "s' = s\<lparr>xs_off := xs_off s', xs_tx_len := xs_tx_len s'\<rparr>"
proof -
  let ?pl = "pack_len (map (frame_of env) (xs_done s))"
  have I: "unat (xs_tx_len s) = ?pl" "?pl \<le> L" "xs_off s + unat (xs_packet_len s) = ?pl" "8 dvd xs_off s"
    using inv by (auto simp: xmit_inv_def xmit_out_def)
  have al: "unat (align8 (xs_packet_len s)) = al8 (unat (xs_packet_len s))"
    using I L by (intro unat_align8) simp
  have off: "xs_off s + al8 (unat (xs_packet_len s)) = al8 ?pl" using al8_add [OF I(4)] I(3) by metis
  have p: "al8 ?pl < 2 ^ 32" using al8_less [of ?pl] I(2) L by simp
  have "xs_off s' = al8 ?pl \<and> unat (xs_tx_len s') = al8 ?pl"
  proof (cases "txagg bus \<and> ty = RTW_PHL_PKT_TYPE_DATA")
    case False
    then have "xs_done s = []" using inv by (auto simp: xmit_inv_def)
    with False a ty I show ?thesis by (auto simp: xmit_align_def)
  next
    case True
    have le: "xs_packet_len s \<le> align8 (xs_packet_len s)" using al al8_ge by (simp add: word_le_nat_alt)
    have d: "unat (align8 (xs_packet_len s) - xs_packet_len s) = al8 (unat (xs_packet_len s)) - unat (xs_packet_len s)"
      using le al by (simp add: unat_sub)
    have "unat (xs_tx_len s + (align8 (xs_packet_len s) - xs_packet_len s)) = al8 ?pl"
      using d I p off al8_ge [of "unat (xs_packet_len s)"] by (subst unat_word_ariths) (simp add: d)
    moreover have "align8 (xs_packet_len s) > xs_packet_len s \<or> align8 (xs_packet_len s) = xs_packet_len s"
      using le by (auto simp: order_le_less)
    ultimately show ?thesis using True a ty al off I
      by (auto simp: xmit_align_def Let_def split: if_splits)
  qed
  then show "xs_off s' = al8 ?pl" "unat (xs_tx_len s') = al8 ?pl" by auto
  show "s' = s\<lparr>xs_off := xs_off s', xs_tx_len := xs_tx_len s'\<rparr>"
    using a by (auto simp: xmit_align_def Let_def split: if_splits)
qed

lemma xmit_taken_step:
  assumes out: "xmit_out env L macid ring0 s'" and ty: "xs_type s' = ty"
    and s': "s' = s\<lparr>xs_busy := xs_busy s - 1, xs_ring := (xs_ring s)\<lparr>phl_idx := ucast rptr\<rparr>, xs_done := xs_done s @ [req]\<rparr>"
    and busy: "unat (xs_busy s') = length (tx_ring_contents (xs_ring s'))"
    and nxt: "next_marked ((xs_ring s')\<lparr>phl_next_idx :=
      (if rptr + 1 \<ge> MAX_PHL_RING_ENTRY_NUM then 0 else phl_next_idx (xs_ring s') + 1)\<rparr>)"
    and len: "xs_off s + unat (xs_packet_len s) = pack_len (map (frame_of env) (xs_done s'))" "8 dvd xs_off s"
    and agg: "xs_agg_cnt s = 0 \<or> txagg bus"
    and t: "xmit_taken bus rptr req s = (c, s'')"
  shows "xmit_out env L macid ring0 s''" and "c \<Longrightarrow> xmit_inv bus env L macid ty ring0 s''" and "xs_done s'' \<noteq> []"
proof -
  have wf: "tx_ring_wf (r\<lparr>phl_next_idx := x\<rparr>) = tx_ring_wf r" "tx_ring_contents (r\<lparr>phl_next_idx := x\<rparr>) = tx_ring_contents r"
    for r :: "rtw_xmit_req rtw_phl_tx_ring" and x
    by (simp_all add: tx_ring_wf_def tx_ring_contents_def)
  show "xmit_out env L macid ring0 s''"
    using t out unfolding s' by (auto simp: xmit_taken_def xmit_out_def Let_def wf split: if_splits)
  show "xs_done s'' \<noteq> []" using t by (auto simp: xmit_taken_def Let_def split: if_splits)
  assume c: "c"
  have "txagg bus \<and> ty = RTW_PHL_PKT_TYPE_DATA"
    using t c ty agg unfolding s' by (auto simp: xmit_taken_def Let_def split: if_splits)
  moreover have "xs_off s'' = xs_off s" "xs_packet_len s'' = xs_packet_len s" "xs_done s'' = xs_done s'"
      "xs_busy s'' = xs_busy s'" "xs_ring s'' = (if xs_busy s' \<noteq> 0 then (xs_ring s')\<lparr>phl_next_idx :=
      (if rptr + 1 \<ge> MAX_PHL_RING_ENTRY_NUM then 0 else phl_next_idx (xs_ring s') + 1)\<rparr> else xs_ring s')"
    using t c unfolding s' by (auto simp: xmit_taken_def Let_def split: if_splits)
  ultimately show "xmit_inv bus env L macid ty ring0 s''"
    using \<open>xmit_out env L macid ring0 s''\<close> \<open>xs_done s'' \<noteq> []\<close> busy nxt len wf
    unfolding xmit_inv_def by simp
qed

text \<open>One round, when a request is pending and no dummy is asked for.\<close>

lemma xmit_step_head:
  assumes wf: "tx_ring_wf (xs_ring s)" and c: "tx_ring_contents (xs_ring s) = q # qs" and nxt: "next_marked (xs_ring s)"
    and "\<not> txpad bus" and f: "xmit_fill_mdata macid (xs_ring s) False q = f" and ty: "tm_type (t_mdata f) = ty"
  defines "rptr \<equiv> ucast (phl_next_idx (xs_ring s)) :: u16"
  defines "s1 \<equiv> s\<lparr>xs_ring := (xs_ring s)\<lparr>entry := (entry (xs_ring s))[unat rptr := Some f]\<rparr>, xs_type := ty\<rparr>"
  shows "xmit_step bus env macid last_idx False s =
     (if align8 (wd_len_of (t_mdata f) + total_len f) + xs_tx_len s > bus_tx_buf_size bus then Some (False, s1)
      else case xmit_align bus (wd_len_of (t_mdata f)) s1 of None \<Rightarrow> Some (False, s1)
        | Some s \<Rightarrow> (case phl_prepare_tx_usb env f (xs_buf s) (xs_off s) of None \<Rightarrow> None
           | Some (pstatus, buf, packet_len) \<Rightarrow>
              (let s = s\<lparr>xs_buf := buf, xs_packet_len := packet_len, xs_tx_len := xs_tx_len s + packet_len, xs_status := pstatus\<rparr>
               in Some (if pstatus = RTW_PHL_STATUS_SUCCESS then xmit_taken bus rptr f s else (False, s)))))"
  unfolding xmit_step_def Let_def ring_head(1) [OF wf c nxt] simp_thms option.case f ty s1_def rptr_def
  using assms(4) by simp

lemma xmit_step_ok:
  assumes pre: "pack_pre bus env macid ty ring0" and inv: "xmit_inv bus env L macid ty ring0 s"
    and L: "L = unat (bus_tx_buf_size bus)" and busy: "xs_busy s \<noteq> 0"
  shows "\<exists>c s'. xmit_step bus env macid last_idx False s = Some (c, s') \<and> xmit_out env L macid ring0 s' \<and>
    (c \<longrightarrow> xmit_inv bus env L macid ty ring0 s') \<and>
    (xs_done s \<noteq> [] \<or> al8 (length (frame_of env (xmit_fill_mdata macid ring0 False (hd (tx_ring_contents (xs_ring s)))))) \<le> L \<longrightarrow>
       xs_done s' \<noteq> [])"
proof -
  let ?fill = "xmit_fill_mdata macid ring0 False" and ?pl = "pack_len (map (frame_of env) (xs_done s))"
  have out: "xmit_out env L macid ring0 s" using inv by (simp add: xmit_inv_def)
  note O = out [unfolded xmit_out_def]
  have I: "unat (xs_busy s) = length (tx_ring_contents (xs_ring s))" "next_marked (xs_ring s)"
    "xs_off s + unat (xs_packet_len s) = ?pl" "8 dvd xs_off s" "xs_done s \<noteq> [] \<longrightarrow> txagg bus \<and> ty = RTW_PHL_PKT_TYPE_DATA"
    "xs_done s = [] \<longrightarrow> xs_agg_cnt s = 0"
    using inv busy by (auto simp: xmit_inv_def)
  have "unat (xs_busy s) \<noteq> 0" using busy by (simp add: unat_eq_0)
  with I(1) obtain q qs where c: "tx_ring_contents (xs_ring s) = q # qs" by (metis length_0_conv list.exhaust)
  define f where "f = ?fill q"
  have fill: "xmit_fill_mdata macid (xs_ring s) False = ?fill" using O by (intro fill_cong) auto
  have D: "xs_done s @ f # map ?fill qs = map ?fill (tx_ring_contents ring0)" using O c by (simp add: f_def)
  then have "f \<in> set (map ?fill (tx_ring_contents ring0))" by (metis in_set_conv_decomp)
  then have ok: "req_ok env f" and ft: "tm_type (t_mdata f) = ty" using pre by (auto simp: pack_pre_def)
  have pL: "8 dvd L" "L < 2 ^ 31" "\<not> txpad bus" using pre L by (auto simp: pack_pre_def)
  let ?rptr = "ucast (phl_next_idx (xs_ring s)) :: u16"
  let ?ring = "(xs_ring s)\<lparr>entry := (entry (xs_ring s))[unat ?rptr := Some f]\<rparr>"
  have wf: "tx_ring_wf (xs_ring s)" using O by simp
  note H1 = ring_head(1) [OF wf c I(2)] and H = ring_head(2,3) [OF wf c I(2), of f]
  define s1 where "s1 = s\<lparr>xs_ring := ?ring, xs_type := ty\<rparr>"
  have nm1: "next_marked ?ring" using I(2) by (simp add: next_marked_def)
  have inv1: "xmit_inv bus env L macid ty ring0 s1"
    using inv H D c nm1 unfolding s1_def xmit_inv_def xmit_out_def by (simp add: f_def)
  then have out1: "xmit_out env L macid ring0 s1" by (simp add: xmit_inv_def)
  have done1: "xs_done s1 = xs_done s" by (simp add: s1_def)
  let ?wl = "wd_len_of (t_mdata f)"
  have sum: "unat (?wl + total_len f) = length (frame_of env f)" "length (frame_of env f) < 65600"
  proof -
    show "length (frame_of env f) < 65600" using frame_length(2) [OF ok] .
    then show "unat (?wl + total_len f) = length (frame_of env f)"
      using frame_length(1) [OF ok] by (subst unat_word_ariths) simp
  qed
  have al: "unat (align8 (?wl + total_len f)) = al8 (length (frame_of env f))"
    using sum by (subst unat_align8) simp_all
  have lhs: "unat (align8 (?wl + total_len f) + xs_tx_len s) = al8 (length (frame_of env f)) + ?pl"
  proof -
    have "al8 (length (frame_of env f)) + ?pl < 2 ^ 32"
      using sum(2) al8_less [of "length (frame_of env f)"] O pL(2) by simp
    then show ?thesis using al O by (subst unat_word_ariths) simp
  qed
  note step = xmit_step_head [OF wf c I(2) pL(3) fill [THEN fun_cong, of q, folded f_def] ft, of env last_idx, folded s1_def]
  show ?thesis
  proof (cases "align8 (?wl + total_len f) + xs_tx_len s > bus_tx_buf_size bus")
    case True
    then have "al8 (length (frame_of env f)) + ?pl > L" using lhs L by (simp add: word_less_nat_alt)
    then have "\<not> al8 (length (frame_of env f)) \<le> L" if "xs_done s = []" using that by simp
    then show ?thesis unfolding step using True out1 done1 c by (auto simp: f_def)
  next
    case False
    then have fits: "al8 (length (frame_of env f)) + ?pl \<le> L" using lhs L by (simp add: word_less_nat_alt not_less)
    show ?thesis
    proof (cases "xmit_align bus ?wl s1")
      case None
      then have "xs_done s \<noteq> []" using O unfolding s1_def by (auto simp: xmit_align_def Let_def unat_eq_0 split: if_splits)
      then show ?thesis unfolding step using False None out1 done1 by auto
    next
      case (Some s2)
      have "xs_type s1 = ty" by (simp add: s1_def)
      note A = xmit_align_step [OF inv1 pL(2) this Some]
      have "al8 (length (frame_of env f)) + al8 ?pl \<le> L"
        using al8_least [OF pL(1) fits] al8_add [of "al8 (length (frame_of env f))" ?pl] by simp
      then have room: "al8 ?pl + length (frame_of env f) \<le> L" using al8_ge [of "length (frame_of env f)"] by simp
      obtain tl' where s2: "s2 = s1\<lparr>xs_off := al8 ?pl, xs_tx_len := tl'\<rparr>" and tl': "unat tl' = al8 ?pl"
        using A unfolding done1 by metis
      have len2: "al8 ?pl + length (frame_of env f) \<le> length (xs_buf s)" using room O by linarith
      from prepare_ok [OF ok len2] obtain buf where
        buf: "mem_put (xs_buf s) (al8 ?pl) (frame_of env f) = Some buf"
          "phl_prepare_tx_usb env f (xs_buf s) (al8 ?pl) = Some (RTW_PHL_STATUS_SUCCESS, buf, of_nat (length (frame_of env f)))"
        by blast
      define s3 where "s3 = s2\<lparr>xs_buf := buf, xs_packet_len := of_nat (length (frame_of env f)),
        xs_tx_len := tl' + of_nat (length (frame_of env f)), xs_status := RTW_PHL_STATUS_SUCCESS\<rparr>"
      let ?s4 = "s3\<lparr>xs_busy := xs_busy s3 - 1, xs_ring := (xs_ring s3)\<lparr>phl_idx := ucast ?rptr\<rparr>, xs_done := xs_done s3 @ [f]\<rparr>"
      obtain c' s5 where t: "xmit_taken bus ?rptr f s3 = (c', s5)" by fastforce
      have step': "xmit_step bus env macid last_idx False s = Some (c', s5)"
        unfolding step using False Some buf(2) t by (simp add: s2 s1_def s3_def)
      have ulen: "unat (of_nat (length (frame_of env f)) :: u32) = length (frame_of env f)"
        using sum(2) by (simp add: unat_of_nat)
      have utl: "unat (tl' + of_nat (length (frame_of env f))) = al8 ?pl + length (frame_of env f)"
        using tl' ulen room pL(2) by (subst unat_word_ariths) simp
      note T = ring_taken [OF H nm1]
      have r3: "xs_ring s3 = ?ring" "xs_done s3 = xs_done s" "xs_type s3 = ty" "xs_busy s3 = xs_busy s" "xs_off s3 = al8 ?pl"
        "xs_packet_len s3 = of_nat (length (frame_of env f))" "xs_agg_cnt s3 = xs_agg_cnt s"
        by (simp_all add: s3_def s2 s1_def)
      have out4: "xmit_out env L macid ring0 ?s4"
        using O T(1,2) D frames_at_snoc [OF _ buf(1)] mem_put_get(2) [OF buf(1)] utl room
        unfolding xmit_out_def r3 by (simp add: s3_def)
      have busy4: "unat (xs_busy s - 1) = length qs"
        using I(1) c busy by (simp add: unat_minus_one)
      have q: "xs_type ?s4 = ty" "unat (xs_busy ?s4) = length (tx_ring_contents (xs_ring ?s4))"
        "xs_off s3 + unat (xs_packet_len s3) = pack_len (map (frame_of env) (xs_done ?s4))" "8 dvd xs_off s3"
        "xs_agg_cnt s3 = 0 \<or> txagg bus"
        using T(2) busy4 ulen I(5,6) r3 by auto
      have nm4: "next_marked ((xs_ring ?s4)\<lparr>phl_next_idx :=
          (if ?rptr + 1 \<ge> MAX_PHL_RING_ENTRY_NUM then 0 else phl_next_idx (xs_ring ?s4) + 1)\<rparr>)"
        using T(3) by (simp add: r3 cong: if_cong)
      note F = xmit_taken_step [OF out4 q(1) refl q(2) nm4 q(3,4,5) t]
      show ?thesis using step' F by blast
    qed
  qed
qed

lemma xmit_ring_loop_ok:
  assumes pre: "pack_pre bus env macid ty ring0" and inv: "xmit_inv bus env L macid ty ring0 s"
    and L: "L = unat (bus_tx_buf_size bus)"
  shows "\<exists>s'. xmit_ring_loop bus env macid last_idx False s = Some s' \<and> xmit_out env L macid ring0 s' \<and>
    (xs_done s \<noteq> [] \<or> xs_busy s \<noteq> 0 \<and>
       al8 (length (frame_of env (xmit_fill_mdata macid ring0 False (hd (tx_ring_contents (xs_ring s)))))) \<le> L \<longrightarrow>
       xs_done s' \<noteq> [])"
  using inv
proof (induction "unat (xs_busy s)" arbitrary: s rule: less_induct)
  case less
  note loop = xmit_ring_loop.simps [of bus env macid last_idx False s]
  show ?case
  proof (cases "xs_busy s = 0")
    case True
    then show ?thesis unfolding loop using less.prems by (simp add: xmit_inv_def)
  next
    case False
    from xmit_step_ok [OF pre less.prems L False, of last_idx] obtain c s' where
      st: "xmit_step bus env macid last_idx False s = Some (c, s')" "xmit_out env L macid ring0 s'"
        "c \<longrightarrow> xmit_inv bus env L macid ty ring0 s'"
        "xs_done s \<noteq> [] \<or> al8 (length (frame_of env (xmit_fill_mdata macid ring0 False (hd (tx_ring_contents (xs_ring s)))))) \<le> L \<longrightarrow>
           xs_done s' \<noteq> []" by blast
    show ?thesis
    proof (cases c)
      case True
      with st have inv': "xmit_inv bus env L macid ty ring0 s'" by simp
      have "xs_busy s' = xs_busy s - 1" using st(1) True xmit_step_busy by simp
      then have "unat (xs_busy s') < unat (xs_busy s)" using False measure_unat by simp
      from less.hyps [OF this inv'] st(1,4) True False show ?thesis unfolding loop by auto
    next
      case c: False
      with st(1,2,4) False show ?thesis unfolding loop by auto
    qed
  qed
qed

text \<open>
  C2: Packing. For a ring whose requests are of one type and have a \<^verbatim>\<open>total_len\<close> that is the length of
  their pieces, and a buffer of \<^verbatim>\<open>tx_buf_size\<close> bytes, a multiple of eight: the loop never writes behind
  the end of the buffer. The requests it takes are the first of the ring, in their order, and they are
  no longer pending; the buffer holds descriptor and payload of each at the next multiple of eight, and
  the length of the transfer is the end of the last. The status is success exactly when something was
  taken, and something is taken when the first request fits.
\<close>

theorem usb_tx_packs_requests:
  assumes pre: "pack_pre bus env macid ty ring" and some: "tx_ring_contents ring \<noteq> []" and nxt: "next_marked ring"
    and buf: "unat (bus_tx_buf_size bus) \<le> length buf"
  shows "\<exists>s n. xmit_pack bus env macid ring (of_nat (length (tx_ring_contents ring))) buf = Some s \<and>
    xs_done s = map (xmit_fill_mdata macid ring False) (take n (tx_ring_contents ring)) \<and>
    map (xmit_fill_mdata macid ring False) (tx_ring_contents (xs_ring s)) =
      map (xmit_fill_mdata macid ring False) (drop n (tx_ring_contents ring)) \<and>
    frames_at (xs_buf s) (map (frame_of env) (xs_done s)) \<and>
    unat (xs_tx_len s) = pack_len (map (frame_of env) (xs_done s)) \<and> xs_tx_len s \<le> bus_tx_buf_size bus \<and>
    (xs_status s = RTW_PHL_STATUS_SUCCESS \<longleftrightarrow> n > 0) \<and>
    (al8 (length (frame_of env (xmit_fill_mdata macid ring False (hd (tx_ring_contents ring))))) \<le>
       unat (bus_tx_buf_size bus) \<longrightarrow> n > 0)"
proof -
  let ?c = "tx_ring_contents ring" and ?fill = "xmit_fill_mdata macid ring False" and ?L = "unat (bus_tx_buf_size bus)"
  have wf: "tx_ring_wf ring" using pre by (simp add: pack_pre_def)
  have len: "unat (of_nat (length ?c) :: u16) = length ?c" using tx_contents_le [OF wf] by (simp add: unat_of_nat)
  have inv: "xmit_inv bus env ?L macid ty ring (xmit_start ring (of_nat (length ?c)) buf)"
    using wf nxt buf len by (simp add: xmit_inv_def xmit_out_def xmit_start_def)
  have busy: "xs_busy (xmit_start ring (of_nat (length ?c)) buf) \<noteq> 0"
    using len some by (auto simp: xmit_start_def)
  have pack: "xmit_pack bus env macid ring (of_nat (length ?c)) buf =
      xmit_ring_loop bus env macid IDX_NONE False (xmit_start ring (of_nat (length ?c)) buf)"
    using pre by (simp add: xmit_pack_def pack_pre_def)
  from xmit_ring_loop_ok [OF pre inv refl, of IDX_NONE] obtain s where
    s: "xmit_pack bus env macid ring (of_nat (length ?c)) buf = Some s" "xmit_out env ?L macid ring s"
      "al8 (length (frame_of env (?fill (hd ?c)))) \<le> ?L \<longrightarrow> xs_done s \<noteq> []"
    using busy unfolding pack by (auto simp: xmit_start_def)
  let ?n = "length (xs_done s)"
  have "xs_done s @ map ?fill (tx_ring_contents (xs_ring s)) = map ?fill ?c" using s(2) by (simp add: xmit_out_def)
  then have "xs_done s = map ?fill (take ?n ?c)" "map ?fill (tx_ring_contents (xs_ring s)) = map ?fill (drop ?n ?c)"
    by (metis append_eq_conv_conj take_map, metis append_eq_conv_conj drop_map)
  with s show ?thesis unfolding xmit_out_def
    by (intro exI [of _ s] exI [of _ ?n]) (auto simp: word_le_nat_alt)
qed

text \<open>A ring of two requests.\<close>

definition demo_req :: "rtw_packet_type \<Rightarrow> nat \<Rightarrow> rtw_xmit_req" where
  "demo_req ty n = \<lparr>treq_type = RTW_PHL_TREQ_TYPE_NORMAL,
     t_mdata = \<lparr>tm_type = ty, tm_dma_ch = 0, usb_pkt_ofst = 0, wdinfo_en = 1, tm_pktlen = 0, tm_tid = 0, tm_macid = 0\<rparr>,
     total_len = of_nat n, pkt_list = [Some (replicate n 7)]\<rparr>"

definition demo_env :: tx_env where
  "demo_env = \<lparr>hal_fill_wd = (\<lambda>_. Some (replicate 48 1)), ops_tx_recycle = Some (\<lambda>_. RTW_PHL_STATUS_SUCCESS),
     ops_tx_test_recycle = None, hal_usb_tx_agg_cfg = (\<lambda>buf _. buf), hal_get_bulkout_id = (\<lambda>_. 0),
     os_usb_tx = (\<lambda>_ _ _ _. RTW_PHL_STATUS_SUCCESS)\<rparr>"

definition demo_bus :: usb_bus where
  "demo_bus = \<lparr>txagg = True, txpad = False, bus_tx_buf_size = 2048, usb_bulkout_size = 512, max_bulkout_wd_num = 10\<rparr>"

definition empty_ring :: "u8 \<Rightarrow> 'p rtw_phl_tx_ring" where
  "empty_ring t = \<lparr>tid = t, dma_ch = 0, band = 0, tx_thres = 0, core_idx = 0, phl_idx = 0, phl_next_idx = 0,
     entry = replicate 4096 None\<rparr>"

fun demo_ring :: "'p list \<Rightarrow> 'p rtw_phl_tx_ring \<Rightarrow> 'p rtw_phl_tx_ring" where
  "demo_ring [] ring = ring_mark_next ring"
| "demo_ring (r # rs) ring = demo_ring rs (snd (ring_add_tx_req ring r))"

lemma demo_ring_ok:
  assumes "tx_ring_wf ring" and "length (tx_ring_contents ring) + length rs < 4096"
  shows "tx_ring_wf (demo_ring rs ring) \<and> tx_ring_contents (demo_ring rs ring) = tx_ring_contents ring @ rs \<and>
    next_marked (demo_ring rs ring)"
  using assms
proof (induction rs arbitrary: ring)
  case Nil
  then show ?case using mark_next_idx [of ring] tx_ring_idxD [of ring] by (simp add: next_marked_def)
next
  case (Cons r rs)
  then have "length (tx_ring_contents ring) < 4095" by simp
  from tx_add_room [OF Cons.prems(1) this, of r] obtain ring' where
    "ring_add_tx_req ring r = (RTW_PHL_STATUS_SUCCESS, ring')" "tx_ring_wf ring'"
    "tx_ring_contents ring' = tx_ring_contents ring @ [r]" by blast
  with Cons.IH [of ring'] Cons.prems(2) show ?case by simp
qed

lemma empty_ring_ok: "tx_ring_wf (empty_ring t)" "tx_ring_contents (empty_ring t) = []"
  by (simp_all add: tx_ring_wf_def tx_ring_contents_def empty_ring_def ring_contents_def ring_fill_def)

lemmas demo_ring_of = demo_ring_ok [OF empty_ring_ok(1), unfolded empty_ring_ok append_Nil list.size add_0]

declare demo_ring.simps [simp del]

lemma demo_req_type [simp]: "tm_type (t_mdata (demo_req ty n)) = ty"
  by (simp add: demo_req_def)

lemma demo_req_ok:
  assumes "n < 65536"
  shows "req_ok demo_env (xmit_fill_mdata macid ring False (demo_req ty n))"
  using assms
  by (simp add: req_ok_def demo_env_def demo_req_def xmit_fill_mdata_def payload_def wd_len_of_def tx_recycle_status_def
      unat_of_nat)

lemma demo_pre:
  assumes "length ns < 4096" and "\<forall>n \<in> set ns. n < 65536"
  shows "pack_pre demo_bus demo_env macid ty (demo_ring (map (demo_req ty) ns) (empty_ring t))"
  using demo_ring_of [of "map (demo_req ty) ns" t] assms
  unfolding pack_pre_def by (auto simp: demo_bus_def intro!: demo_req_ok)

lemma demo_frame: "length (frame_of demo_env (xmit_fill_mdata macid ring False (demo_req ty n))) = 48 + n"
  by (simp add: frame_of_def demo_env_def payload_def demo_req_def)

theorem usb_tx_packs_requests_witness:
  "\<exists>s. xmit_pack demo_bus demo_env 3 (demo_ring (map (demo_req RTW_PHL_PKT_TYPE_DATA) [100, 33]) (empty_ring 0)) 2
      (replicate 2048 0) = Some s \<and> xs_status s = RTW_PHL_STATUS_SUCCESS \<and> unat (xs_tx_len s) = pack_len (map (frame_of demo_env) (xs_done s))"
proof -
  let ?rs = "map (demo_req RTW_PHL_PKT_TYPE_DATA) [100, 33]"
  let ?ring = "demo_ring ?rs (empty_ring 0)"
  have R: "tx_ring_contents ?ring = ?rs" "next_marked ?ring" using demo_ring_of [of ?rs 0] by auto
  have pre: "pack_pre demo_bus demo_env 3 RTW_PHL_PKT_TYPE_DATA ?ring" by (rule demo_pre) simp_all
  have L: "unat (bus_tx_buf_size demo_bus) = 2048" by (simp add: demo_bus_def)
  show ?thesis
    using usb_tx_packs_requests [OF pre _ R(2), of "replicate 2048 0"] unfolding R(1) L
    by (simp add: demo_frame al8_def) blast
qed

lemma copy_pkts_None:
  assumes "off \<le> length buf" and "length buf < off + length (concat (map (case_option [] id) ps))"
  shows "copy_pkts buf off len ps = None"
  using assms
proof (induction buf off len ps rule: copy_pkts.induct)
  case (3 buf off len p ps)
  show ?case
  proof (cases "mem_put buf off p")
    case (Some buf1)
    from 3(1) [OF Some] 3(3) mem_put_get(2,3) [OF Some] show ?thesis by (simp add: Some)
  qed simp
qed simp_all

text \<open>
  C36: A management ring is served from buffers that are smaller than the size the loop checks against.
  A first request that passes the check and is longer than its buffer makes the loop write behind the
  end of the buffer.
\<close>

theorem usb_tx_small_buffer_overrun:
  assumes pre: "pack_pre bus env macid ty ring" and c: "tx_ring_contents ring = req # reqs" and nxt: "next_marked ring"
    and fits: "al8 (length (frame_of env (xmit_fill_mdata macid ring False req))) \<le> unat (bus_tx_buf_size bus)"
    and small: "length buf < length (frame_of env (xmit_fill_mdata macid ring False req))"
  shows "xmit_pack bus env macid ring (of_nat (length (tx_ring_contents ring))) buf = None"
proof -
  let ?f = "xmit_fill_mdata macid ring False req"
  let ?s = "xmit_start ring (of_nat (Suc (length reqs))) buf"
  have wf: "tx_ring_wf ring" and ok: "req_ok env ?f" and ty: "tm_type (t_mdata ?f) = ty" and p: "\<not> txpad bus"
    using pre c by (auto simp: pack_pre_def)
  from ok obtain wd where wd: "hal_fill_wd env ?f = Some wd" "usb_pkt_ofst (t_mdata ?f) \<noteq> 1" by (auto simp: req_ok_def)
  then have F: "frame_of env ?f = wd @ payload ?f" by (simp add: frame_of_def)
  have prep: "phl_prepare_tx_usb env ?f buf 0 = None"
  proof (cases "mem_put buf 0 wd")
    case None
    then show ?thesis by (simp add: phl_prepare_tx_usb_def wd)
  next
    case (Some buf1)
    have "copy_pkts buf1 (length wd) (of_nat (length wd)) (pkt_list ?f) = None"
      using small F mem_put_get(2,3) [OF Some] by (intro copy_pkts_None) (simp_all add: payload_def)
    then show ?thesis using Some wd by (simp add: phl_prepare_tx_usb_def)
  qed
  have sum: "unat (wd_len_of (t_mdata ?f) + total_len ?f) = length (frame_of env ?f)"
    using frame_length [OF ok] by (subst unat_word_ariths) simp
  have "unat (align8 (wd_len_of (t_mdata ?f) + total_len ?f)) = al8 (length (frame_of env ?f))"
    using sum frame_length(2) [OF ok] by (subst unat_align8) simp_all
  then have chk: "\<not> align8 (wd_len_of (t_mdata ?f) + total_len ?f) > bus_tx_buf_size bus"
    using fits by (simp add: word_less_nat_alt not_less)
  have al: "align8 0 = 0" by (simp add: align8_def)
  define s0 where "s0 = ?s"
  have S: "xs_ring s0 = ring" "xs_tx_len s0 = 0" "xs_packet_len s0 = 0" "xs_off s0 = 0" "xs_buf s0 = buf"
    by (simp_all add: s0_def xmit_start_def)
  have "xmit_step bus env macid IDX_NONE False s0 = None"
    using chk prep al
    by (subst xmit_step_head [where s = s0, unfolded S, OF wf c nxt p refl ty]) (simp add: xmit_align_def S Let_def)
  moreover have "unat (of_nat (Suc (length reqs)) :: u16) = Suc (length reqs)"
    using tx_contents_le [OF wf] c by (simp only: unat_of_nat) simp
  then have "of_nat (Suc (length reqs)) \<noteq> (0 :: u16)" by (metis nat.distinct(1) unat_0)
  ultimately show ?thesis using c p
    by (simp add: xmit_pack_def xmit_ring_loop.simps [of _ _ _ _ _ s0] s0_def [symmetric, simplified])
      (simp add: s0_def xmit_start_def)
qed

theorem usb_tx_small_buffer_overrun_witness:
  "xmit_pack demo_bus demo_env 0 (demo_ring (map (demo_req RTW_PHL_PKT_TYPE_MGNT) [1500]) (empty_ring MGMT_TID)) 1
     (replicate 1536 0) = None"
proof -
  let ?rs = "map (demo_req RTW_PHL_PKT_TYPE_MGNT) [1500]"
  let ?ring = "demo_ring ?rs (empty_ring MGMT_TID)"
  have R: "tx_ring_contents ?ring = demo_req RTW_PHL_PKT_TYPE_MGNT 1500 # []" "next_marked ?ring"
    using demo_ring_of [of ?rs MGMT_TID] by auto
  have pre: "pack_pre demo_bus demo_env 0 RTW_PHL_PKT_TYPE_MGNT ?ring" by (rule demo_pre) simp_all
  have L: "unat (bus_tx_buf_size demo_bus) = 2048" by (simp add: demo_bus_def)
  show ?thesis
    using usb_tx_small_buffer_overrun [OF pre R, of "replicate 1536 0"] unfolding R(1) L demo_frame
    by (simp add: al8_def)
qed

end
