(* ===== verification/Phl_Usb_Bufs.thy ===== *)
theory Phl_Usb_Bufs
  imports Phl_Usb_Tx
begin

text \<open>
  The transmit buffers of the USB layer over time. Every buffer of the pool is on one list or in one
  transfer that the USB stack has accepted; data and management buffers never change lists and keep
  their memory. The steps are runs of the transmit handler with any answers of the USB stack, finished
  transfers, and whatever the core does to the rings.
\<close>

section \<open>Where the buffers are\<close>

text \<open>
  Assumed of the code below and above: it answers success or failure, and marking an aggregate keeps the
  length of the buffer.
\<close>

definition env_ok :: "tx_env \<Rightarrow> bool" where
  "env_ok env \<longleftrightarrow>
     (\<forall>req. tx_recycle_status env req \<in> {RTW_PHL_STATUS_SUCCESS, RTW_PHL_STATUS_FAILURE}) \<and>
     (\<forall>b id len buf. os_usb_tx env b id len buf \<in> {RTW_PHL_STATUS_SUCCESS, RTW_PHL_STATUS_FAILURE}) \<and>
     (\<forall>buf n. length (hal_usb_tx_agg_cfg env buf n) = length buf)"

definition data_bufs :: "tx_bus_cap \<Rightarrow> nat set" where
  "data_bufs cap = {..<cap_tx_buf_num cap}"

definition mgnt_bufs :: "tx_bus_cap \<Rightarrow> nat set" where
  "mgnt_bufs cap = {cap_tx_buf_num cap..<cap_tx_buf_num cap + cap_tx_mgnt_buf_num cap}"

definition h2c_bufs :: "tx_bus_cap \<Rightarrow> nat set" where
  "h2c_bufs cap = {cap_tx_buf_num cap + cap_tx_mgnt_buf_num cap..<
     cap_tx_buf_num cap + cap_tx_mgnt_buf_num cap + cap_tx_h2c_buf_num cap}"

definition has_mem :: "rtw_packet_type \<Rightarrow> u32 \<Rightarrow> phl_usb_buf \<Rightarrow> bool" where
  "has_mem ty sz ub \<longleftrightarrow> ub_type ub = ty \<and> (\<exists>m. ub_buffer ub = Ub_mem m \<and> length m = unat sz)"

definition txbuf_wf :: "tx_bus_cap \<Rightarrow> phl_usb_tx_buf_resource \<Rightarrow> nat multiset \<Rightarrow> bool" where
  "txbuf_wf cap res fl \<longleftrightarrow>
     mset (pq_queue (idle_txbuf_list res)) + mset (pq_queue (mgmt_txbuf_list res)) +
       mset (pq_queue (h2c_txbuf_list res)) + fl =
     mset_set (data_bufs cap \<union> mgnt_bufs cap \<union> h2c_bufs cap) \<and>
     set (pq_queue (idle_txbuf_list res)) \<subseteq> data_bufs cap \<and> set (pq_queue (mgmt_txbuf_list res)) \<subseteq> mgnt_bufs cap \<and>
     set (pq_queue (h2c_txbuf_list res)) \<subseteq> h2c_bufs cap \<and> set_mset fl \<subseteq> data_bufs cap \<union> mgnt_bufs cap \<and>
     (\<forall>b \<in> data_bufs cap. has_mem RTW_PHL_PKT_TYPE_DATA (cap_tx_buf_size cap) (usb_buf res b)) \<and>
     (\<forall>b \<in> mgnt_bufs cap. has_mem RTW_PHL_PKT_TYPE_MGNT (cap_tx_mgnt_buf_size cap) (usb_buf res b))"

section \<open>The packing loop keeps the buffer\<close>

lemma copy_pkts_length: "copy_pkts buf off len ps = Some (buf', len') \<Longrightarrow> length buf' = length buf"
  by (induction buf off len ps rule: copy_pkts.induct) (auto split: option.splits dest: mem_put_get(2))

lemma prepare_length:
  assumes "phl_prepare_tx_usb env req buf off = Some (sts, buf', len)"
  shows "length buf' = length buf" "sts = RTW_PHL_STATUS_FAILURE \<or> sts = tx_recycle_status env req"
  using assms
  by (auto simp: phl_prepare_tx_usb_def Let_def split: option.splits dest!: copy_pkts_length mem_put_get(2))

definition xmit_kept :: "nat \<Rightarrow> xmit_st \<Rightarrow> bool" where
  "xmit_kept n s \<longleftrightarrow> length (xs_buf s) = n \<and> xs_status s \<in> {RTW_PHL_STATUS_SUCCESS, RTW_PHL_STATUS_FAILURE}"

lemma xmit_taken_kept: "xmit_taken bus rptr req s = (c, s') \<Longrightarrow> xmit_kept n s' = xmit_kept n s"
  by (auto simp: xmit_taken_def Let_def xmit_kept_def split: if_splits)

lemma xmit_align_kept: "xmit_align bus wd_len s = Some s' \<Longrightarrow> xmit_kept n s' = xmit_kept n s"
  by (auto simp: xmit_align_def Let_def xmit_kept_def split: if_splits)

lemma xmit_kept_ring [simp]: "xmit_kept n (s\<lparr>xs_ring := r, xs_type := t\<rparr>) = xmit_kept n s"
  by (simp add: xmit_kept_def)

lemma xmit_step_kept:
  assumes env: "env_ok env" and k: "xmit_kept n s" and st: "xmit_step bus env macid last_idx is_dummy s = Some (c, s')"
  shows "xmit_kept n s'"
proof -
  have prep: "xmit_kept n (t\<lparr>xs_buf := buf, xs_packet_len := len, xs_tx_len := x, xs_status := sts\<rparr>)"
    if "phl_prepare_tx_usb env req (xs_buf t) (xs_off t) = Some (sts, buf, len)" "xmit_kept n t" for t req sts buf len x
    using prepare_length [OF that(1)] that(2) env by (auto simp: xmit_kept_def env_ok_def)
  show ?thesis using st k
    by (auto simp: xmit_step_def Let_def xmit_align_kept xmit_taken_kept split: option.splits if_splits prod.splits
        intro!: prep)
qed

lemma xmit_loop_kept:
  assumes env: "env_ok env"
  shows "xmit_ring_loop bus env macid last_idx is_dummy s = Some s' \<Longrightarrow> xmit_kept n s \<Longrightarrow> xmit_kept n s'"
proof (induction "unat (xs_busy s)" arbitrary: s rule: less_induct)
  case less
  note loop = xmit_ring_loop.simps [of bus env macid last_idx is_dummy s]
  show ?case
  proof (cases "xs_busy s = 0")
    case True
    then show ?thesis using less.prems loop by simp
  next
    case False
    then obtain c t where st: "xmit_step bus env macid last_idx is_dummy s = Some (c, t)"
      using less.prems(1) loop by (auto split: option.splits)
    have kept: "xmit_kept n t" using xmit_step_kept [OF env less.prems(2) st] .
    show ?thesis
    proof (cases c)
      case True
      then have "xs_busy t = xs_busy s - 1" using st xmit_step_busy by simp
      then have "unat (xs_busy t) < unat (xs_busy s)" using False measure_unat by simp
      from less.hyps [OF this _ kept] show ?thesis using less.prems(1) loop False st True by simp
    next
      case c: False
      then show ?thesis using less.prems(1) loop False st kept by simp
    qed
  qed
qed

section \<open>One ring\<close>

text \<open>The buffers that serve a ring.\<close>

definition ring_bufs :: "tx_bus_cap \<Rightarrow> 'p rtw_phl_tx_ring \<Rightarrow> nat set" where
  "ring_bufs cap tring = (if tid tring = MGMT_TID then mgnt_bufs cap else data_bufs cap)"

lemma ring_bufs_simps:
  "tid tring = MGMT_TID \<Longrightarrow> ring_bufs cap tring = mgnt_bufs cap"
  "tid tring \<noteq> MGMT_TID \<Longrightarrow> ring_bufs cap tring = data_bufs cap"
  by (simp_all add: ring_bufs_def)

lemma dequeue_wf:
  assumes wf: "txbuf_wf cap res fl"
  shows "dequeue_usb_buf (mgmt_txbuf_list res) = (Some b, q) \<Longrightarrow>
      b \<in> mgnt_bufs cap \<and> txbuf_wf cap (res\<lparr>mgmt_txbuf_list := q\<rparr>) (add_mset b fl)"
    and "dequeue_usb_buf (idle_txbuf_list res) = (Some b, q) \<Longrightarrow>
      b \<in> data_bufs cap \<and> txbuf_wf cap (res\<lparr>idle_txbuf_list := q\<rparr>) (add_mset b fl)"
  using wf by (auto simp: dequeue_usb_buf_def txbuf_wf_def split: list.splits)

lemma dequeue_none: "dequeue_usb_buf q = (None, q') \<Longrightarrow> q' = q"
  by (auto simp: dequeue_usb_buf_def split: list.splits)

lemma enqueue_wf:
  assumes wf: "txbuf_wf cap res (add_mset b fl)"
  shows "b \<in> mgnt_bufs cap \<Longrightarrow> txbuf_wf cap (res\<lparr>mgmt_txbuf_list := snd (enqueue_usb_buf (mgmt_txbuf_list res) (Some b) Pos_tail)\<rparr>) fl"
    and "b \<in> data_bufs cap \<Longrightarrow> txbuf_wf cap (res\<lparr>idle_txbuf_list := snd (enqueue_usb_buf (idle_txbuf_list res) (Some b) Pos_tail)\<rparr>) fl"
  using wf by (auto simp: enqueue_usb_buf_def txbuf_wf_def)

lemma write_buf_wf:
  assumes wf: "txbuf_wf cap res fl" and "ub_buffer (usb_buf res b) = Ub_mem m" and "length m' = length m"
  shows "txbuf_wf cap (res\<lparr>usb_buf := (usb_buf res)(b := (usb_buf res b)\<lparr>ub_buffer := Ub_mem m'\<rparr>)\<rparr>) fl"
  using assms by (auto simp: txbuf_wf_def has_mem_def)

lemma flow_ctrl_wf:
  assumes wf: "txbuf_wf cap res fl" and res: "txbuf_pool st = Some res"
    and f: "phl_tx_flow_ctrl_usb ring_sts tx_buf st = Some (b, st')"
  shows "ut_sent st' = ut_sent st"
    and "b = None \<Longrightarrow> txbuf_pool st' = Some res"
    and "b = Some i \<Longrightarrow> \<exists>res' k tring. txbuf_pool st' = Some res' \<and> txbuf_wf cap res' (add_mset i fl) \<and>
      ring_ptr ring_sts (ut_tx st') = Some (k, tring) \<and> i \<in> ring_bufs cap tring"
  using f res dequeue_wf [OF wf]
  by (auto simp: phl_tx_flow_ctrl_usb_def ring_bufs_simps split: option.splits if_splits prod.splits dest: dequeue_none)

lemma handle_wf:
  assumes env: "env_ok env" and wf: "txbuf_wf cap res (add_mset b fl)" and res: "txbuf_pool st = Some res"
    and r: "ring_ptr ring_sts (ut_tx st) = Some (k, tring)"
    and b: "b \<in> ring_bufs cap tring"
    and h: "phl_handle_xmit_ring_usb bus env ring_sts b st = Some (sts, st')"
  shows "\<exists>res' sent. txbuf_pool st' = Some res' \<and> ut_sent st' = ut_sent st @ sent \<and>
    txbuf_wf cap res' (fl + mset (map xf_buf sent))"
proof -
  obtain buf where buf: "ub_buffer (usb_buf res b) = Ub_mem buf"
    using h by (auto simp: phl_handle_xmit_ring_usb_def r res split: usb_data.splits)
  obtain s where s: "xmit_pack bus env (rs_macid ring_sts) tring (req_busy ring_sts) buf = Some s"
    using h by (auto simp: phl_handle_xmit_ring_usb_def r res buf split: option.splits)
  have k: "xmit_kept (length buf) s"
    using s xmit_loop_kept [OF env] by (auto simp: xmit_pack_def xmit_kept_def xmit_start_def split: prod.splits)
  define data where "data = (if xs_status s = RTW_PHL_STATUS_SUCCESS \<and> txagg bus \<and> xs_type s = RTW_PHL_PKT_TYPE_DATA \<and>
      xs_agg_cnt s > 1 then hal_usb_tx_agg_cfg env (xs_buf s) (xs_agg_cnt s) else xs_buf s)"
  have "length data = length buf" using k env by (simp add: data_def xmit_kept_def env_ok_def)
  from write_buf_wf [OF wf buf this]
  have wf': "txbuf_wf cap (res\<lparr>usb_buf := (usb_buf res)(b := (usb_buf res b)\<lparr>ub_buffer := Ub_mem data\<rparr>)\<rparr>) (add_mset b fl)" .
  let ?sub = "os_usb_tx env b (hal_get_bulkout_id env (dma_ch tring)) (xs_tx_len s) data"
  have sub: "?sub \<in> {RTW_PHL_STATUS_SUCCESS, RTW_PHL_STATUS_FAILURE}" using env by (simp add: env_ok_def)
  show ?thesis
  proof (cases "xs_status s = RTW_PHL_STATUS_SUCCESS \<and> ?sub = RTW_PHL_STATUS_SUCCESS")
    case True
    then show ?thesis using h wf' unfolding phl_handle_xmit_ring_usb_def r res option.case prod.case usb_data.case buf s
        data_def [symmetric] Let_def by auto
  next
    case False
    then have "(if xs_status s = RTW_PHL_STATUS_SUCCESS then ?sub else xs_status s) = RTW_PHL_STATUS_FAILURE"
      using k sub by (auto simp: xmit_kept_def)
    then show ?thesis using False h enqueue_wf [OF wf'] b
      unfolding phl_handle_xmit_ring_usb_def r res option.case prod.case usb_data.case buf s data_def [symmetric]
      by (auto simp: case_prod_unfold Let_def ring_bufs_simps split: if_splits)
  qed
qed

section \<open>The handler\<close>

definition pool_ok :: "tx_bus_cap \<Rightarrow> usb_tx \<Rightarrow> nat multiset \<Rightarrow> bool" where
  "pool_ok cap st fl \<longleftrightarrow> (\<exists>res. txbuf_pool st = Some res \<and> txbuf_wf cap res fl)"

lemma tx_callback_loop_wf:
  assumes env: "env_ok env"
  shows "pool_ok cap st fl \<Longrightarrow> tx_callback_loop bus env rs tx_buf st = Some st' \<Longrightarrow>
    \<exists>sent. ut_sent st' = ut_sent st @ sent \<and> pool_ok cap st' (fl + mset (map xf_buf sent))"
proof (induction rs arbitrary: tx_buf st fl)
  case (Cons r rs)
  let ?st = "st\<lparr>ut_tx := (ut_tx st)\<lparr>t_fctrl_result := rs\<rparr>\<rparr>"
  obtain res where res: "txbuf_pool ?st = Some res" "txbuf_wf cap res fl" using Cons.prems(1) by (auto simp: pool_ok_def)
  obtain b st1 where f: "phl_tx_flow_ctrl_usb r tx_buf ?st = Some (b, st1)"
    using Cons.prems(2) by (auto split: option.splits)
  note F = flow_ctrl_wf [OF res(2,1) f]
  show ?case
  proof (cases b)
    case None
    with Cons.prems(2) f have "tx_callback_loop bus env rs None st1 = Some st'" by simp
    moreover have "pool_ok cap st1 fl" using F(2) [OF None] res by (simp add: pool_ok_def)
    ultimately show ?thesis using Cons.IH F(1) by fastforce
  next
    case (Some i)
    with Cons.prems(2) f obtain sts st2 where
      h: "phl_handle_xmit_ring_usb bus env r i st1 = Some (sts, st2)" "tx_callback_loop bus env rs (Some i) st2 = Some st'"
      by (auto split: option.splits)
    from F(3) [OF Some] obtain res1 k tring where
      "txbuf_pool st1 = Some res1" "txbuf_wf cap res1 (add_mset i fl)" "ring_ptr r (ut_tx st1) = Some (k, tring)"
      "i \<in> ring_bufs cap tring" by blast
    from handle_wf [OF env this(2,1,3,4) h(1)] obtain res2 sent where
      H: "txbuf_pool st2 = Some res2" "ut_sent st2 = ut_sent st1 @ sent" "txbuf_wf cap res2 (fl + mset (map xf_buf sent))" by blast
    then have "pool_ok cap st2 (fl + mset (map xf_buf sent))" by (simp add: pool_ok_def)
    from Cons.IH [OF this h(2)] obtain sent' where
      "ut_sent st' = ut_sent st2 @ sent'" "pool_ok cap st' (fl + mset (map xf_buf sent) + mset (map xf_buf sent'))" by blast
    then show ?thesis using H(2) F(1) by (intro exI [of _ "sent @ sent'"]) (simp add: add.assoc)
  qed
qed simp

lemma tx_callback_wf:
  assumes env: "env_ok env" and ok: "pool_ok cap st fl" and cb: "phl_tx_callback_usb bus env st = Some (reqs, st')"
  shows "\<exists>sent. ut_sent st' = ut_sent st @ sent \<and> pool_ok cap st' (fl + mset (map xf_buf sent))"
proof -
  have P: "pool_ok cap (t\<lparr>ut_tx := tx\<rparr>) f = pool_ok cap t f" "pool_ok cap (phl_tx_stop_usb t) f = pool_ok cap t f"
      "ut_sent (phl_tx_stop_usb t) = ut_sent t" for t tx f
    by (simp_all add: pool_ok_def phl_tx_stop_usb_def)
  show ?thesis
  proof (cases "phl_sw_tx_sts st = PHL_TX_STATUS_SW_PAUSE")
    case True
    then show ?thesis using cb ok by (simp add: phl_tx_callback_usb_def)
  next
    case False
    then obtain st1 tx rs where
      l: "st1 = st\<lparr>ut_tx := tx\<rparr> \<or> tx_callback_loop bus env rs None (st\<lparr>ut_tx := tx\<rparr>) = Some st1" and
      st': "\<exists>tx. st' = st1\<lparr>ut_tx := tx\<rparr> \<or> st' = (phl_tx_stop_usb st1)\<lparr>ut_tx := tx\<rparr>"
      using cb by (auto simp: phl_tx_callback_usb_def Let_def split: option.splits if_splits prod.splits)
    from l have "\<exists>sent. ut_sent st1 = ut_sent st @ sent \<and> pool_ok cap st1 (fl + mset (map xf_buf sent))"
    proof
      assume "st1 = st\<lparr>ut_tx := tx\<rparr>"
      then show ?thesis using ok P by simp
    next
      assume "tx_callback_loop bus env rs None (st\<lparr>ut_tx := tx\<rparr>) = Some st1"
      from tx_callback_loop_wf [OF env _ this, of cap fl] ok P show ?thesis by simp
    qed
    then show ?thesis using st' P by auto
  qed
qed

text \<open>
  The second component is the multiset of the buffers in transfers. The USB stack finishes transfers in
  any order, each once.
\<close>

inductive usb_step :: "usb_bus \<Rightarrow> usb_tx \<times> nat multiset \<Rightarrow> usb_tx \<times> nat multiset \<Rightarrow> bool" for bus where
  step_callback: "env_ok env \<Longrightarrow> phl_tx_callback_usb bus env st = Some (reqs, st') \<Longrightarrow> ut_sent st' = ut_sent st @ sent \<Longrightarrow>
    usb_step bus (st, fl) (st', fl + mset (map xf_buf sent))"
| step_finished: "txbuf_pool st = Some res \<Longrightarrow> phl_tx_release_buf_usb b res h2c = Some (sts, res', h2c') \<Longrightarrow>
    usb_step bus (st, add_mset b fl) (st\<lparr>txbuf_pool := Some res'\<rparr>, fl)"
| step_core: "usb_step bus (st, fl) (st\<lparr>ut_tx := tx\<rparr>, fl)"
| step_status: "usb_step bus (st, fl) (st\<lparr>phl_sw_tx_sts := sts\<rparr>, fl)"

lemma release_wf:
  assumes wf: "txbuf_wf cap res (add_mset b fl)" and "phl_tx_release_buf_usb b res h2c = Some (sts, res', h2c')"
  shows "txbuf_wf cap res' fl" and "h2c' = h2c" and "sts = RTW_PHL_STATUS_SUCCESS"
proof -
  from wf have "b \<in> data_bufs cap \<or> b \<in> mgnt_bufs cap" by (auto simp: txbuf_wf_def)
  then consider "b \<in> data_bufs cap" "ub_type (usb_buf res b) = RTW_PHL_PKT_TYPE_DATA"
    | "b \<in> mgnt_bufs cap" "ub_type (usb_buf res b) = RTW_PHL_PKT_TYPE_MGNT"
    using wf by (auto simp: txbuf_wf_def has_mem_def)
  then have "txbuf_wf cap res' fl \<and> h2c' = h2c \<and> sts = RTW_PHL_STATUS_SUCCESS"
  proof cases
    case 1
    then show ?thesis using assms(2) enqueue_wf(2) [OF wf]
      by (auto simp: phl_tx_release_buf_usb_def enqueue_usb_buf_def split: prod.splits)
  next
    case 2
    then show ?thesis using assms(2) enqueue_wf(1) [OF wf]
      by (auto simp: phl_tx_release_buf_usb_def enqueue_usb_buf_def split: prod.splits)
  qed
  then show "txbuf_wf cap res' fl" "h2c' = h2c" "sts = RTW_PHL_STATUS_SUCCESS" by auto
qed

lemma usb_step_wf:
  assumes "usb_step bus x y" and "pool_ok cap (fst x) (snd x)"
  shows "pool_ok cap (fst y) (snd y)"
  using assms
proof (induction rule: usb_step.induct)
  case (step_callback env st reqs st' sent fl)
  then show ?case using tx_callback_wf [OF step_callback(1) _ step_callback(2), of cap fl] by auto
next
  case (step_finished st res b h2c sts res' h2c' fl)
  then show ?case using release_wf(1) [OF _ step_finished(2)] by (auto simp: pool_ok_def)
qed (auto simp: pool_ok_def)

lemma usb_steps_wf:
  assumes "(usb_step bus)\<^sup>*\<^sup>* x y" and "pool_ok cap (fst x) (snd x)"
  shows "pool_ok cap (fst y) (snd y)"
  using assms by (induction rule: rtranclp_induct) (auto intro: usb_step_wf)

section \<open>Setting up and freeing the pool\<close>

lemma free_txbuf_loop_queue: "free_txbuf_loop q = pq_queue q"
proof (induction q rule: free_txbuf_loop.induct)
  case (1 q)
  show ?case
  proof (cases "pq_queue q")
    case Nil
    then show ?thesis by (subst free_txbuf_loop.simps) (simp add: dequeue_usb_buf_def)
  next
    case (Cons b bs)
    then have d: "dequeue_usb_buf q = (Some b, q\<lparr>pq_queue := bs, pq_cnt := pq_cnt q - 1\<rparr>)" by (simp add: dequeue_usb_buf_def)
    with 1 [OF d [symmetric] refl] Cons show ?thesis by (subst free_txbuf_loop.simps) simp
  qed
qed

lemma alloc_txbuf_loop_all:
  assumes "alloc_txbuf_loop mem ty sz bs sts bufs q = Some (True, sts', bufs', q')" and "distinct bs"
  shows "pq_queue q' = pq_queue q @ bs \<and> (\<forall>b. b \<notin> set bs \<longrightarrow> bufs' b = bufs b) \<and>
    (\<forall>b \<in> set bs. \<exists>m. mem b = Both m \<and> bufs' b = \<lparr>ub_type = ty, ub_buffer = Ub_mem m, ub_buf_len = sz\<rparr>)"
  using assms
proof (induction bs arbitrary: sts bufs q)
  case (Cons a bs)
  then obtain m where m: "mem a = Both m" "alloc_txbuf_loop mem ty sz bs RTW_PHL_STATUS_SUCCESS
      (bufs(a := \<lparr>ub_type = ty, ub_buffer = Ub_mem m, ub_buf_len = sz\<rparr>)) (snd (enqueue_usb_buf q (Some a) Pos_tail)) =
      Some (True, sts', bufs', q')" by (auto split: txbuf_mem.splits)
  from Cons.prems(2) have d: "distinct bs" "a \<notin> set bs" by auto
  from Cons.IH [OF m(2) d(1)] m(1) d(2) show ?case by (auto simp: enqueue_usb_buf_def)
qed auto

lemmas alloc_txbuf_loop_ok = alloc_txbuf_loop_all [THEN conjunct1] alloc_txbuf_loop_all [THEN conjunct2, THEN conjunct1, rule_format]
  alloc_txbuf_loop_all [THEN conjunct2, THEN conjunct2, rule_format]

lemma alloc_h2cbuf_loop_ok:
  assumes "alloc_h2cbuf_loop mem bs sts bufs q = (True, sts', bufs', q')"
  shows "pq_queue q' = pq_queue q @ bs" and "b \<notin> set bs \<Longrightarrow> bufs' b = bufs b"
  using assms
  by (induction bs arbitrary: sts bufs q) (auto simp: enqueue_usb_buf_def split: if_splits)

definition txbuf_mem_ok :: "tx_bus_cap \<Rightarrow> (nat \<Rightarrow> txbuf_mem) \<Rightarrow> bool" where
  "txbuf_mem_ok cap mem \<longleftrightarrow>
     (\<forall>b m. mem b = Both m \<longrightarrow> length m = unat (if b \<in> data_bufs cap then cap_tx_buf_size cap else cap_tx_mgnt_buf_size cap))"

lemma alloc_pool_wf:
  assumes mem: "txbuf_mem_ok cap mem"
    and a: "phl_alloc_txbuf_pool_usb ring_mem mem h2c_ok cap = Some (RTW_PHL_STATUS_SUCCESS, Some res, freed)"
  shows "txbuf_wf cap res {#}"
proof -
  let ?n = "cap_tx_buf_num cap" and ?m = "cap_tx_mgnt_buf_num cap" and ?h = "cap_tx_h2c_buf_num cap"
  obtain s1 b1 q1 s2 b2 q2 s3 b3 q3 where
    1: "alloc_txbuf_loop mem RTW_PHL_PKT_TYPE_DATA (cap_tx_buf_size cap) [0..<?n] RTW_PHL_STATUS_FAILURE (\<lambda>_. usb_buf0) pq_init = Some (True, s1, b1, q1)"
    and 2: "alloc_txbuf_loop mem RTW_PHL_PKT_TYPE_MGNT (cap_tx_mgnt_buf_size cap) [?n..<?n + ?m] s1 b1 pq_init = Some (True, s2, b2, q2)"
    and 3: "alloc_h2cbuf_loop h2c_ok [?n + ?m..<?n + ?m + ?h] s2 b2 pq_init = (True, s3, b3, q3)"
    and res: "res = \<lparr>usb_buf = b3, idle_txbuf_list = q1, mgmt_txbuf_list = q2, h2c_txbuf_list = q3\<rparr>"
    using a by (auto simp: phl_alloc_txbuf_pool_usb_def Let_def txbuf_pool0_def split: if_splits option.splits prod.splits)
  have q: "pq_queue q1 = [0..<?n]" "pq_queue q2 = [?n..<?n + ?m]" "pq_queue q3 = [?n + ?m..<?n + ?m + ?h]"
    using alloc_txbuf_loop_ok(1) [OF 1] alloc_txbuf_loop_ok(1) [OF 2] alloc_h2cbuf_loop_ok(1) [OF 3] by (simp_all add: pq_init_def)
  have d: "has_mem RTW_PHL_PKT_TYPE_DATA (cap_tx_buf_size cap) (b3 b)" if "b \<in> data_bufs cap" for b
    using that alloc_txbuf_loop_ok(3) [OF 1, of b] alloc_txbuf_loop_ok(2) [OF 2, of b] alloc_h2cbuf_loop_ok(2) [OF 3, of b] mem
    by (auto simp: data_bufs_def has_mem_def txbuf_mem_ok_def)
  have g: "has_mem RTW_PHL_PKT_TYPE_MGNT (cap_tx_mgnt_buf_size cap) (b3 b)" if "b \<in> mgnt_bufs cap" for b
    using that alloc_txbuf_loop_ok(3) [OF 2, of b] alloc_h2cbuf_loop_ok(2) [OF 3, of b] mem
    by (auto simp: mgnt_bufs_def data_bufs_def has_mem_def txbuf_mem_ok_def)
  have "mset (pq_queue q1) + mset (pq_queue q2) + mset (pq_queue q3) = mset ([0..<?n] @ [?n..<?n + ?m] @ [?n + ?m..<?n + ?m + ?h])"
    unfolding q by (simp add: add.assoc)
  also have "\<dots> = mset_set (set ([0..<?n] @ [?n..<?n + ?m] @ [?n + ?m..<?n + ?m + ?h]))"
    by (subst mset_set_set) auto
  also have "set ([0..<?n] @ [?n..<?n + ?m] @ [?n + ?m..<?n + ?m + ?h]) = data_bufs cap \<union> mgnt_bufs cap \<union> h2c_bufs cap"
    by (auto simp: data_bufs_def mgnt_bufs_def h2c_bufs_def)
  finally show ?thesis using d g q unfolding txbuf_wf_def res
    by (auto simp: data_bufs_def mgnt_bufs_def h2c_bufs_def)
qed

text \<open>
  C3: Transmit buffers are conserved. From a pool that was set up, after any sequence of runs of the
  transmit handler, finished transfers and changes of the rings, every buffer is on exactly one list
  or in exactly one transfer; the idle list has the data buffers with memory of \<^verbatim>\<open>tx_buf_size\<close>, the management
  list the smaller ones; the buffer of a transfer can be given back; and freeing the pool frees
  exactly the buffers that are in no transfer.
\<close>

theorem usb_txbufs_conserved:
  assumes "txbuf_mem_ok cap mem"
    and "phl_alloc_txbuf_pool_usb True mem h2c_ok cap = Some (RTW_PHL_STATUS_SUCCESS, Some res0, freed)"
    and "txbuf_pool st0 = Some res0" and "(usb_step bus)\<^sup>*\<^sup>* (st0, {#}) (st, fl)"
  shows "\<exists>res. txbuf_pool st = Some res \<and>
    mset (pq_queue (idle_txbuf_list res)) + mset (pq_queue (mgmt_txbuf_list res)) + mset (pq_queue (h2c_txbuf_list res)) + fl =
      mset_set (data_bufs cap \<union> mgnt_bufs cap \<union> h2c_bufs cap) \<and>
    (\<forall>b \<in> set (pq_queue (idle_txbuf_list res)). has_mem RTW_PHL_PKT_TYPE_DATA (cap_tx_buf_size cap) (usb_buf res b)) \<and>
    (\<forall>b \<in> set (pq_queue (mgmt_txbuf_list res)). has_mem RTW_PHL_PKT_TYPE_MGNT (cap_tx_mgnt_buf_size cap) (usb_buf res b)) \<and>
    (\<forall>b \<in># fl. \<forall>h2c. \<exists>res'. phl_tx_release_buf_usb b res h2c = Some (RTW_PHL_STATUS_SUCCESS, res', h2c)) \<and>
    mset (phl_free_txbuf_pool_usb (Some res)) + fl = mset_set (data_bufs cap \<union> mgnt_bufs cap \<union> h2c_bufs cap)"
proof -
  have "pool_ok cap st fl"
    using usb_steps_wf [OF assms(4)] alloc_pool_wf [OF assms(1,2)] assms(3) by (simp add: pool_ok_def)
  then obtain res where res: "txbuf_pool st = Some res" and wf: "txbuf_wf cap res fl" by (auto simp: pool_ok_def)
  have "\<exists>res'. phl_tx_release_buf_usb b res h2c = Some (RTW_PHL_STATUS_SUCCESS, res', h2c)" if "b \<in># fl" for b h2c
  proof -
    have "ub_type (usb_buf res b) = RTW_PHL_PKT_TYPE_DATA \<or> ub_type (usb_buf res b) = RTW_PHL_PKT_TYPE_MGNT"
      using wf that by (auto simp: txbuf_wf_def has_mem_def)
    then show ?thesis by (auto simp: phl_tx_release_buf_usb_def enqueue_usb_buf_def)
  qed
  with wf res show ?thesis
    unfolding txbuf_wf_def by (auto simp: phl_free_txbuf_pool_usb_def free_txbuf_loop_queue add.assoc)
qed

definition demo_cap :: tx_bus_cap where
  "demo_cap = \<lparr>cap_tx_buf_num = 2, cap_tx_buf_size = 16, cap_tx_mgnt_buf_num = 1, cap_tx_mgnt_buf_size = 8, cap_tx_h2c_buf_num = 1\<rparr>"

theorem usb_txbufs_conserved_witness:
  "\<exists>res0 res. phl_alloc_txbuf_pool_usb True (\<lambda>b. Both (replicate (if b < 2 then 16 else 8) 0)) (\<lambda>_. True) demo_cap =
      Some (RTW_PHL_STATUS_SUCCESS, Some res0, []) \<and>
    mset (phl_free_txbuf_pool_usb (Some res)) = mset_set {0, 1, 2, 3 :: nat}"
proof -
  let ?mem = "\<lambda>b :: nat. Both (replicate (if b < 2 then 16 else 8) 0)"
  have m: "txbuf_mem_ok demo_cap ?mem" by (auto simp: txbuf_mem_ok_def demo_cap_def data_bufs_def)
  obtain res0 where a: "phl_alloc_txbuf_pool_usb True ?mem (\<lambda>_. True) demo_cap = Some (RTW_PHL_STATUS_SUCCESS, Some res0, [])"
    by (simp add: phl_alloc_txbuf_pool_usb_def demo_cap_def Let_def upt_rec)
  define st0 :: usb_tx where "st0 = \<lparr>ut_tx = \<lparr>t_ring_list = [], t_ring_free_list = [], t_fctrl_result = [], ring_sts_idle = []\<rparr>,
    txbuf_pool = Some res0, phl_sw_tx_sts = PHL_TX_STATUS_RUNNING, ut_sent = []\<rparr>"
  have p: "txbuf_pool st0 = Some res0" by (simp add: st0_def)
  have "(usb_step bus)\<^sup>*\<^sup>* (st0, {#}) (st0\<lparr>phl_sw_tx_sts := PHL_TX_STATUS_STOP_INPROGRESS\<rparr>, {#})" for bus
    by (rule r_into_rtranclp) (rule step_status)
  from usb_txbufs_conserved [OF m a p this]
  obtain res where "mset (phl_free_txbuf_pool_usb (Some res)) =
      mset_set (data_bufs demo_cap \<union> mgnt_bufs demo_cap \<union> h2c_bufs demo_cap)" by auto
  moreover have "data_bufs demo_cap \<union> mgnt_bufs demo_cap \<union> h2c_bufs demo_cap = {0, 1, 2, 3}"
    by (auto simp: data_bufs_def mgnt_bufs_def h2c_bufs_def demo_cap_def)
  ultimately show ?thesis using a by metis
qed

end
