(* ===== verification/Phl_Msg.thy ===== *)
theory Phl_Msg
  imports Phl_Queue Phl_Macid "HOL-Library.Multiset" "HOL-Library.Sublist"
begin

text \<open>
  The message hub, \<^verbatim>\<open>phl/phl_msg_hub.c\<close>: sixteen messages that modules send and one thread forwards to the
  receivers of the PHL and of the core, with the receivers' masks of module ids. Calls of receivers and of
  completion routines are recorded as events. \<open>None\<close> is an access behind the end of a mask.
\<close>

section \<open>Status flags and masks\<close>

definition SET_STATUS_FLAG :: "'a::len word \<Rightarrow> 'a word \<Rightarrow> 'a word" where
  "SET_STATUS_FLAG status flags = status OR flags"

definition TEST_STATUS_FLAG :: "'a::len word \<Rightarrow> 'a word \<Rightarrow> bool" where
  "TEST_STATUS_FLAG status flags \<longleftrightarrow> (status AND flags) = flags"

definition CLEAR_STATUS_FLAG :: "'a::len word \<Rightarrow> 'a word \<Rightarrow> 'a word" where
  "CLEAR_STATUS_FLAG status flags = status AND NOT flags"

abbreviation MSG_HUB_INIT :: u32 where "MSG_HUB_INIT \<equiv> BIT 0"
abbreviation MSG_HUB_STARTED :: u32 where "MSG_HUB_STARTED \<equiv> BIT 1"
abbreviation MSG_RECVER_INIT :: u8 where "MSG_RECVER_INIT \<equiv> BIT 0"
abbreviation MSG_RECVER_CLR_CTX :: u8 where "MSG_RECVER_CLR_CTX \<equiv> BIT 1"

lemma TEST_BIT: "TEST_STATUS_FLAG s (BIT n) \<longleftrightarrow> bit s n" if n: "n < LENGTH('a)" for s :: "'a::len word"
proof
  assume "TEST_STATUS_FLAG s (BIT n)"
  then have "bit (s AND BIT n) n \<longleftrightarrow> bit (BIT n :: 'a word) n" unfolding TEST_STATUS_FLAG_def by (rule arg_cong)
  with n show "bit s n" unfolding bit_and_iff bit_BIT_iff by simp
next
  assume "bit s n"
  then show "TEST_STATUS_FLAG s (BIT n)" unfolding TEST_STATUS_FLAG_def
    by (intro bit_word_eqI) (auto simp: bit_and_iff bit_BIT_iff simp del: push_bit_of_1)
qed

lemma flag_simps:
  fixes s :: "'a::len word"
  assumes "n < LENGTH('a)" and "m < LENGTH('a)"
  shows "TEST_STATUS_FLAG (SET_STATUS_FLAG s (BIT m)) (BIT n) \<longleftrightarrow> n = m \<or> TEST_STATUS_FLAG s (BIT n)"
    and "TEST_STATUS_FLAG (CLEAR_STATUS_FLAG s (BIT m)) (BIT n) \<longleftrightarrow> n \<noteq> m \<and> TEST_STATUS_FLAG s (BIT n)"
  using assms unfolding TEST_BIT [OF assms(1)] SET_STATUS_FLAG_def CLEAR_STATUS_FLAG_def
  by (auto simp: bit_or_iff bit_and_iff bit_not_iff bit_BIT_iff simp del: push_bit_of_1)

abbreviation MODL_MASK_LEN :: nat where "MODL_MASK_LEN \<equiv> 16"

definition chk_bitmap_bit :: "u8 list \<Rightarrow> u8 \<Rightarrow> bool option" where
  "chk_bitmap_bit bitmap mid =
     (if unat mid div 8 < length bitmap then Some (bitmap ! (unat mid div 8) AND BIT (unat mid mod 8) \<noteq> 0) else None)"

text \<open>The loops of \<^verbatim>\<open>_add_bitmap_bit\<close> and \<^verbatim>\<open>_clr_bitmap_bit\<close> over at most 255 ids.\<close>

definition add_bit :: "u8 list \<Rightarrow> u8 \<Rightarrow> u8 list" where
  "add_bit bitmap mid = bitmap[unat mid div 8 := bitmap ! (unat mid div 8) OR BIT (unat mid mod 8)]"

definition clr_bit :: "u8 list \<Rightarrow> u8 \<Rightarrow> u8 list" where
  "clr_bit bitmap mid = bitmap[unat mid div 8 := bitmap ! (unat mid div 8) AND NOT (BIT (unat mid mod 8))]"

fun add_bitmap_bit :: "u8 list \<Rightarrow> u8 list \<Rightarrow> u8 list option" where
  "add_bitmap_bit bitmap [] = Some bitmap"
| "add_bitmap_bit bitmap (mid # arr) =
     (if unat mid div 8 < length bitmap then add_bitmap_bit (add_bit bitmap mid) arr else None)"

fun clr_bitmap_bit :: "u8 list \<Rightarrow> u8 list \<Rightarrow> u8 list option" where
  "clr_bitmap_bit bitmap [] = Some bitmap"
| "clr_bitmap_bit bitmap (mid # arr) =
     (if unat mid div 8 < length bitmap then clr_bitmap_bit (clr_bit bitmap mid) arr else None)"

section \<open>The hub\<close>

record phl_msg =
  msg_id :: u32
  inbuf :: nat
  inlen :: u32
  outbuf :: nat
  outlen :: u32
  msg_band_idx :: u8
  msg_rsvd :: "nat list"

text \<open>A completion routine with its argument; a null pointer is \<open>None\<close>.\<close>

record phl_msg_ex =
  ex_ctx :: phl_msg
  ex_completion :: "(nat \<times> nat) option"

text \<open>\<open>rv_ctx\<close> stands for callback and argument of a receiver.\<close>

record phl_msg_receiver_ex =
  rv_status :: u8
  rv_bitmap :: "u8 list"
  rv_ctx :: nat

datatype hub_event = Notified nat nat phl_msg | Completed nat nat phl_msg

record phl_msg_hub =
  hub_status :: u32
  msg_pool :: "nat \<Rightarrow> phl_msg_ex"
  idle_msg_q :: "nat phl_queue"
  wait_msg_q :: "nat phl_queue"
  recver :: "phl_msg_receiver_ex list"
  hub_events :: "hub_event list"

abbreviation MAX_MSG_NUM :: nat where "MAX_MSG_NUM \<equiv> 16"
abbreviation MSG_RECV_MAX :: nat where "MSG_RECV_MAX \<equiv> 2"

definition MSG_MDL_ID_FIELD :: "u32 \<Rightarrow> u8" where
  "MSG_MDL_ID_FIELD mid = ucast (drop_bit 16 mid AND 0xFF)"

definition msg0 :: phl_msg where
  "msg0 = \<lparr>msg_id = 0, inbuf = 0, inlen = 0, outbuf = 0, outlen = 0, msg_band_idx = 0, msg_rsvd = [0, 0, 0, 0]\<rparr>"

definition msg_ex0 :: phl_msg_ex where
  "msg_ex0 = \<lparr>ex_ctx = msg0, ex_completion = None\<rparr>"

definition recver0 :: phl_msg_receiver_ex where
  "recver0 = \<lparr>rv_status = 0, rv_bitmap = replicate MODL_MASK_LEN 0, rv_ctx = 0\<rparr>"

definition pop_front_idle_msg :: "phl_msg_hub \<Rightarrow> nat option \<times> phl_msg_hub" where
  "pop_front_idle_msg hub =
     (case pq_deq (idle_msg_q hub) of
        None \<Rightarrow> (None, hub)
      | Some (i, q) \<Rightarrow> (Some i, hub\<lparr>idle_msg_q := q, msg_pool := (msg_pool hub)(i := msg_ex0)\<rparr>))"

definition push_back_idle_msg :: "phl_msg_hub \<Rightarrow> nat \<Rightarrow> phl_msg_hub" where
  "push_back_idle_msg hub i =
     (let ex = msg_pool hub i;
          hub = (case ex_completion ex of
                   None \<Rightarrow> hub
                 | Some (f, priv) \<Rightarrow> hub\<lparr>hub_events := hub_events hub @ [Completed f priv (ex_ctx ex)]\<rparr>)
      in hub\<lparr>idle_msg_q := snd (pq_push (idle_msg_q hub) i Pos_tail)\<rparr>)"

definition pop_front_wait_msg :: "phl_msg_hub \<Rightarrow> nat option \<times> phl_msg_hub" where
  "pop_front_wait_msg hub =
     (case pq_deq (wait_msg_q hub) of
        None \<Rightarrow> (None, hub)
      | Some (i, q) \<Rightarrow> (Some i, hub\<lparr>wait_msg_q := q\<rparr>))"

definition push_back_wait_msg :: "phl_msg_hub \<Rightarrow> nat \<Rightarrow> phl_msg_hub" where
  "push_back_wait_msg hub i = hub\<lparr>wait_msg_q := snd (pq_push (wait_msg_q hub) i Pos_tail)\<rparr>"

text \<open>
  The loop of \<^verbatim>\<open>msg_forward\<close> from layer \<open>l\<close> on: the receivers afterwards and the calls. A receiver that was
  deregistered is cleared here.
\<close>

fun forward_loop :: "phl_msg \<Rightarrow> nat \<Rightarrow> phl_msg_receiver_ex list \<Rightarrow> (phl_msg_receiver_ex list \<times> hub_event list) option" where
  "forward_loop msg l [] = Some ([], [])"
| "forward_loop msg l (rv # rvs) =
     (if \<not> TEST_STATUS_FLAG (rv_status rv) MSG_RECVER_INIT then
        map_option (\<lambda>(rvs, evs). ((if TEST_STATUS_FLAG (rv_status rv) MSG_RECVER_CLR_CTX then recver0 else rv) # rvs, evs))
          (forward_loop msg (Suc l) rvs)
      else
        (case chk_bitmap_bit (rv_bitmap rv) (MSG_MDL_ID_FIELD (msg_id msg)) of
           None \<Rightarrow> None
         | Some hit \<Rightarrow>
             map_option (\<lambda>(rvs, evs). (rv # rvs, if hit then Notified l (rv_ctx rv) msg # evs else evs))
               (forward_loop msg (Suc l) rvs)))"

definition msg_forward :: "phl_msg_hub \<Rightarrow> nat \<Rightarrow> phl_msg_hub option" where
  "msg_forward hub i =
     (if \<not> TEST_STATUS_FLAG (hub_status hub) MSG_HUB_STARTED then Some hub
      else map_option (\<lambda>(rvs, evs). hub\<lparr>recver := rvs, hub_events := hub_events hub @ evs\<rparr>)
             (forward_loop (ex_ctx (msg_pool hub i)) 0 (recver hub)))"

text \<open>The inner loop of \<^verbatim>\<open>msg_thread_hdl\<close>, when no message arrives meanwhile.\<close>

lemma pop_front_wait_length:
  "pop_front_wait_msg hub = (Some i, hub') \<Longrightarrow> length (pq_queue (wait_msg_q hub')) < length (pq_queue (wait_msg_q hub))"
  by (auto simp: pop_front_wait_msg_def pq_deq_def pq_pop_def split: option.splits if_splits)

lemma wait_q_push_idle: "wait_msg_q (push_back_idle_msg hub i) = wait_msg_q hub"
  by (simp add: push_back_idle_msg_def Let_def split: option.splits)

lemma wait_q_forward: "msg_forward hub i = Some hub' \<Longrightarrow> wait_msg_q hub' = wait_msg_q hub"
  by (auto simp: msg_forward_def split: if_splits)

function msg_thread_loop :: "phl_msg_hub \<Rightarrow> phl_msg_hub option" where
  "msg_thread_loop hub =
     (case pop_front_wait_msg hub of
        (None, hub) \<Rightarrow> Some hub
      | (Some i, hub) \<Rightarrow>
          (case msg_forward hub i of
             None \<Rightarrow> None
           | Some hub \<Rightarrow> msg_thread_loop (push_back_idle_msg hub i)))"
  by pat_completeness auto
termination
  by (relation "measure (\<lambda>hub. length (pq_queue (wait_msg_q hub)))")
    (auto simp: wait_q_push_idle dest!: wait_q_forward pop_front_wait_length [OF sym])

text \<open>The loop with which the thread ends: \<open>n\<close> bounds the rounds of the outer loop.\<close>

function msg_drain_inner :: "phl_msg_hub \<Rightarrow> phl_msg_hub" where
  "msg_drain_inner hub =
     (case pop_front_wait_msg hub of
        (None, hub) \<Rightarrow> hub
      | (Some i, hub) \<Rightarrow> msg_drain_inner (push_back_idle_msg hub i))"
  by pat_completeness auto
termination
  by (relation "measure (\<lambda>hub. length (pq_queue (wait_msg_q hub)))")
    (auto simp: wait_q_push_idle dest!: pop_front_wait_length [OF sym])

declare msg_thread_loop.simps [simp del] msg_drain_inner.simps [simp del]

fun msg_drain :: "nat \<Rightarrow> phl_msg_hub \<Rightarrow> phl_msg_hub option" where
  "msg_drain n hub =
     (if pq_cnt (idle_msg_q hub) = int MAX_MSG_NUM then Some hub
      else case n of 0 \<Rightarrow> None | Suc n \<Rightarrow> msg_drain n (msg_drain_inner hub))"

declare msg_drain.simps [simp del]

section \<open>Life of the hub\<close>

text \<open>What \<^verbatim>\<open>phl->msg_hub\<close> points to.\<close>

datatype hub_ptr = Hub_null | Hub phl_msg_hub | Hub_freed

definition hub0 :: phl_msg_hub where
  "hub0 = \<lparr>hub_status = 0, msg_pool = (\<lambda>_. msg_ex0), idle_msg_q = pq_init, wait_msg_q = pq_init,
     recver = replicate MSG_RECV_MAX recver0, hub_events = []\<rparr>"

definition phl_msg_hub_init :: "bool \<Rightarrow> hub_ptr \<Rightarrow> rtw_phl_status \<times> hub_ptr" where
  "phl_msg_hub_init mem_ok p =
     (if p \<noteq> Hub_null then (RTW_PHL_STATUS_FAILURE, p)
      else if \<not> mem_ok then (RTW_PHL_STATUS_RESOURCE, p)
      else (RTW_PHL_STATUS_SUCCESS, Hub (hub0\<lparr>hub_status := SET_STATUS_FLAG (hub_status hub0) MSG_HUB_INIT\<rparr>)))"

definition phl_msg_hub_start :: "phl_msg_hub \<Rightarrow> rtw_phl_status \<times> phl_msg_hub" where
  "phl_msg_hub_start hub =
     (if \<not> TEST_STATUS_FLAG (hub_status hub) MSG_HUB_INIT \<or> TEST_STATUS_FLAG (hub_status hub) MSG_HUB_STARTED
      then (RTW_PHL_STATUS_FAILURE, hub)
      else
        (RTW_PHL_STATUS_SUCCESS,
         hub\<lparr>msg_pool := (\<lambda>_. msg_ex0),
             idle_msg_q := foldl (\<lambda>q i. snd (pq_push q i Pos_tail)) (idle_msg_q hub) [0..<MAX_MSG_NUM],
             hub_status := SET_STATUS_FLAG (hub_status hub) MSG_HUB_STARTED\<rparr>))"

text \<open>\<^verbatim>\<open>phl_msg_hub_stop\<close> waits for the thread; \<open>None\<close> when the thread does not end within \<open>n\<close> rounds.\<close>

definition phl_msg_hub_stop :: "nat \<Rightarrow> phl_msg_hub \<Rightarrow> (rtw_phl_status \<times> phl_msg_hub) option" where
  "phl_msg_hub_stop n hub =
     (if \<not> TEST_STATUS_FLAG (hub_status hub) MSG_HUB_STARTED then Some (RTW_PHL_STATUS_FAILURE, hub)
      else
        (case msg_drain n (hub\<lparr>hub_status := CLEAR_STATUS_FLAG (hub_status hub) MSG_HUB_STARTED\<rparr>) of
           None \<Rightarrow> None
         | Some hub \<Rightarrow>
             Some (RTW_PHL_STATUS_SUCCESS,
                   hub\<lparr>idle_msg_q := pq_reset (idle_msg_q hub), wait_msg_q := pq_reset (wait_msg_q hub)\<rparr>)))"

text \<open>\<^verbatim>\<open>phl_msg_hub_deinit\<close> frees the hub and leaves the pointer to it. A null or freed hub is not defended against.\<close>

definition phl_msg_hub_deinit :: "nat \<Rightarrow> hub_ptr \<Rightarrow> (rtw_phl_status \<times> hub_ptr) option" where
  "phl_msg_hub_deinit n p =
     (case p of
        Hub hub \<Rightarrow>
          if \<not> TEST_STATUS_FLAG (hub_status hub) MSG_HUB_INIT then Some (RTW_PHL_STATUS_FAILURE, p)
          else
            (case phl_msg_hub_stop n (hub\<lparr>hub_status := CLEAR_STATUS_FLAG (hub_status hub) MSG_HUB_INIT\<rparr>) of
               None \<Rightarrow> None
             | Some _ \<Rightarrow> Some (RTW_PHL_STATUS_SUCCESS, Hub_freed))
      | _ \<Rightarrow> None)"

text \<open>
  \<^verbatim>\<open>phl_msg_hub_send\<close> in its two locked sections: a message is taken and filled, then it is put on the wait
  queue.
\<close>

definition hub_send_take ::
  "phl_msg_hub \<Rightarrow> (nat \<times> nat) option \<Rightarrow> phl_msg option \<Rightarrow> rtw_phl_status \<times> nat option \<times> phl_msg_hub" where
  "hub_send_take hub attr msg =
     (if \<not> TEST_STATUS_FLAG (hub_status hub) MSG_HUB_STARTED \<or> msg = None then (RTW_PHL_STATUS_FAILURE, None, hub)
      else
        (case pop_front_idle_msg hub of
           (None, hub) \<Rightarrow> (RTW_PHL_STATUS_RESOURCE, None, hub)
         | (Some i, hub) \<Rightarrow>
             (RTW_PHL_STATUS_SUCCESS, Some i,
              hub\<lparr>msg_pool := (msg_pool hub)(i := (msg_pool hub i)\<lparr>ex_ctx := the msg,
                    ex_completion := (if attr \<noteq> None then attr else ex_completion (msg_pool hub i))\<rparr>)\<rparr>)))"

definition phl_msg_hub_send ::
  "phl_msg_hub \<Rightarrow> (nat \<times> nat) option \<Rightarrow> phl_msg option \<Rightarrow> rtw_phl_status \<times> phl_msg_hub" where
  "phl_msg_hub_send hub attr msg =
     (case hub_send_take hub attr msg of
        (sts, None, hub) \<Rightarrow> (sts, hub)
      | (sts, Some i, hub) \<Rightarrow> (sts, push_back_wait_msg hub i))"

section \<open>Receivers\<close>

definition phl_msg_hub_register_recver :: "phl_msg_hub \<Rightarrow> nat option \<Rightarrow> nat \<Rightarrow> rtw_phl_status \<times> phl_msg_hub" where
  "phl_msg_hub_register_recver hub ctx layer =
     (if \<not> TEST_STATUS_FLAG (hub_status hub) MSG_HUB_INIT \<or> layer \<ge> MSG_RECV_MAX \<or> ctx = None
      then (RTW_PHL_STATUS_FAILURE, hub)
      else
        let rv = recver hub ! layer in
        if TEST_STATUS_FLAG (rv_status rv) MSG_RECVER_INIT then (RTW_PHL_STATUS_FAILURE, hub)
        else
          (RTW_PHL_STATUS_SUCCESS,
           hub\<lparr>recver := (recver hub)[layer := rv\<lparr>rv_ctx := the ctx, rv_bitmap := replicate MODL_MASK_LEN 0,
                 rv_status := SET_STATUS_FLAG (rv_status rv) MSG_RECVER_INIT\<rparr>]\<rparr>))"

definition phl_msg_hub_update_recver_mask ::
  "phl_msg_hub \<Rightarrow> nat \<Rightarrow> u8 list \<Rightarrow> bool \<Rightarrow> (rtw_phl_status \<times> phl_msg_hub) option" where
  "phl_msg_hub_update_recver_mask hub layer mdl_id clr =
     (if \<not> TEST_STATUS_FLAG (hub_status hub) MSG_HUB_INIT \<or> layer \<ge> MSG_RECV_MAX then Some (RTW_PHL_STATUS_FAILURE, hub)
      else
        let rv = recver hub ! layer in
        if \<not> TEST_STATUS_FLAG (rv_status rv) MSG_RECVER_INIT then Some (RTW_PHL_STATUS_FAILURE, hub)
        else
          map_option
            (\<lambda>bm. (RTW_PHL_STATUS_SUCCESS, hub\<lparr>recver := (recver hub)[layer := rv\<lparr>rv_bitmap := bm\<rparr>]\<rparr>))
            (if clr then clr_bitmap_bit (rv_bitmap rv) mdl_id else add_bitmap_bit (rv_bitmap rv) mdl_id))"

definition phl_msg_hub_deregister_recver :: "phl_msg_hub \<Rightarrow> nat \<Rightarrow> rtw_phl_status \<times> phl_msg_hub" where
  "phl_msg_hub_deregister_recver hub layer =
     (if \<not> TEST_STATUS_FLAG (hub_status hub) MSG_HUB_INIT \<or> layer \<ge> MSG_RECV_MAX then (RTW_PHL_STATUS_FAILURE, hub)
      else
        let rv = recver hub ! layer in
        if \<not> TEST_STATUS_FLAG (rv_status rv) MSG_RECVER_INIT then (RTW_PHL_STATUS_FAILURE, hub)
        else
          (RTW_PHL_STATUS_SUCCESS,
           hub\<lparr>recver := (recver hub)[layer := rv\<lparr>rv_status :=
             SET_STATUS_FLAG (CLEAR_STATUS_FLAG (rv_status rv) MSG_RECVER_INIT) MSG_RECVER_CLR_CTX\<rparr>]\<rparr>))"

section \<open>Masks are sets of module ids\<close>

text \<open>Insertion and removal of many ids, for any provider of the interface of \<open>Phl_Macid\<close>.\<close>

context id_set
begin

lemma foldl_ins:
  "invar s \<Longrightarrow> \<forall>i \<in> set is. valid i \<Longrightarrow> invar (foldl ins s is) \<and> elems (foldl ins s is) = elems s \<union> set is"
  by (induction "is" arbitrary: s) (auto simp: elems_ins invar_ins)

lemma foldl_del:
  "invar s \<Longrightarrow> \<forall>i \<in> set is. valid i \<Longrightarrow> invar (foldl del s is) \<and> elems (foldl del s is) = elems s - set is"
  by (induction "is" arbitrary: s) (auto simp: elems_del invar_del)

end

definition mask_wf :: "u8 list \<Rightarrow> bool" where
  "mask_wf bm \<longleftrightarrow> length bm = MODL_MASK_LEN"

definition bk_module :: "u8 \<Rightarrow> bool" where
  "bk_module mid \<longleftrightarrow> unat mid < 128"

definition mask_has :: "u8 list \<Rightarrow> u8 \<Rightarrow> bool" where
  "mask_has bm mid \<longleftrightarrow> bit (bm ! (unat mid div 8)) (unat mid mod 8)"

lemma chk_bitmap_bit_wf:
  assumes "mask_wf bm"
  shows "chk_bitmap_bit bm mid = (if bk_module mid then Some (mask_has bm mid) else None)"
proof -
  have "unat mid div 8 < 16 \<longleftrightarrow> unat mid < 128" by (simp add: div_less_iff_less_mult)
  then show ?thesis using assms word_and_BIT_neq_0_iff [of "bm ! (unat mid div 8)" "unat mid mod 8"]
    by (simp add: chk_bitmap_bit_def mask_wf_def bk_module_def mask_has_def)
qed

lemma u8_eq_iff: "i = j \<longleftrightarrow> unat i div 8 = unat j div 8 \<and> unat i mod 8 = unat j mod 8" for i j :: u8
  by (metis div_mult_mod_eq word_unat_eq_iff)

interpretation mask: id_set mask_wf bk_module mask_has add_bit clr_bit
proof unfold_locales
  fix s and i j :: u8
  assume s: "mask_wf s" and i: "bk_module i"
  show "mask_wf (add_bit s i)" "mask_wf (clr_bit s i)" using s by (simp_all add: mask_wf_def add_bit_def clr_bit_def)
  have len: "unat i div 8 < length s" using s i by (simp add: mask_wf_def bk_module_def div_less_iff_less_mult)
  have m: "unat j mod 8 < LENGTH(8)" by simp
  show "mask_has (add_bit s i) j \<longleftrightarrow> j = i \<or> mask_has s j"
    using len m u8_eq_iff [of j i]
    by (cases "unat j div 8 = unat i div 8")
      (auto simp: mask_has_def add_bit_def bit_or_iff bit_BIT_iff simp del: push_bit_of_1)
  show "mask_has (clr_bit s i) j \<longleftrightarrow> j \<noteq> i \<and> mask_has s j"
    using len m u8_eq_iff [of j i]
    by (cases "unat j div 8 = unat i div 8")
      (auto simp: mask_has_def clr_bit_def bit_and_iff bit_not_iff bit_BIT_iff simp del: push_bit_of_1)
qed

lemma add_bitmap_bit_foldl:
  assumes "mask_wf bm" and "\<forall>i \<in> set arr. bk_module i"
  shows "add_bitmap_bit bm arr = Some (foldl add_bit bm arr)" and "clr_bitmap_bit bm arr = Some (foldl clr_bit bm arr)"
  using assms
proof (induction arr arbitrary: bm)
  case (Cons i arr)
  {
    case 1
    then have "unat i div 8 < length bm" by (simp add: mask_wf_def bk_module_def div_less_iff_less_mult)
    with 1 Cons.IH(1) [of "add_bit bm i"] mask.invar_ins show ?case by simp
  next
    case 2
    then have "unat i div 8 < length bm" by (simp add: mask_wf_def bk_module_def div_less_iff_less_mult)
    with 2 Cons.IH(2) [of "clr_bit bm i"] mask.invar_del show ?case by simp
  }
qed simp_all

section \<open>Forwarding\<close>

definition hub_wf :: "phl_msg_hub \<Rightarrow> bool" where
  "hub_wf hub \<longleftrightarrow> length (recver hub) = MSG_RECV_MAX \<and> (\<forall>rv \<in> set (recver hub). mask_wf (rv_bitmap rv))"

definition registered :: "phl_msg_hub \<Rightarrow> nat \<Rightarrow> bool" where
  "registered hub l \<longleftrightarrow> l < MSG_RECV_MAX \<and> TEST_STATUS_FLAG (rv_status (recver hub ! l)) MSG_RECVER_INIT"

text \<open>The modules whose messages a receiver gets.\<close>

definition subscribed :: "phl_msg_hub \<Rightarrow> nat \<Rightarrow> u8 set" where
  "subscribed hub l = (if registered hub l then {m. bk_module m \<and> mask_has (rv_bitmap (recver hub ! l)) m} else {})"

abbreviation module_of :: "phl_msg \<Rightarrow> u8" where
  "module_of msg \<equiv> MSG_MDL_ID_FIELD (msg_id msg)"

definition notifications :: "phl_msg_hub \<Rightarrow> phl_msg \<Rightarrow> hub_event list" where
  "notifications hub msg =
     map (\<lambda>l. Notified l (rv_ctx (recver hub ! l)) msg) (filter (\<lambda>l. module_of msg \<in> subscribed hub l) [0..<MSG_RECV_MAX])"

lemma two_recvers: "length rvs = MSG_RECV_MAX \<Longrightarrow> \<exists>a b. rvs = [a, b]"
  by (auto simp: numeral_2_eq_2 length_Suc_conv)

definition rv_cleared :: "phl_msg_receiver_ex \<Rightarrow> phl_msg_receiver_ex" where
  "rv_cleared rv =
     (if \<not> TEST_STATUS_FLAG (rv_status rv) MSG_RECVER_INIT \<and> TEST_STATUS_FLAG (rv_status rv) MSG_RECVER_CLR_CTX
      then recver0 else rv)"

lemma forward_loop_Cons:
  assumes "mask_wf (rv_bitmap rv)" and "bk_module (module_of msg)" and "forward_loop msg (Suc l) rvs = Some (rvs', evs)"
  shows "forward_loop msg l (rv # rvs) = Some (rv_cleared rv # rvs',
    (if TEST_STATUS_FLAG (rv_status rv) MSG_RECVER_INIT \<and> mask_has (rv_bitmap rv) (module_of msg)
     then [Notified l (rv_ctx rv) msg] else []) @ evs)"
  using assms by (simp add: chk_bitmap_bit_wf rv_cleared_def)

lemma msg_forward_events:
  assumes wf: "hub_wf hub" and st: "TEST_STATUS_FLAG (hub_status hub) MSG_HUB_STARTED"
    and m: "bk_module (module_of (ex_ctx (msg_pool hub i)))"
  shows "msg_forward hub i = Some (hub\<lparr>recver := map rv_cleared (recver hub),
      hub_events := hub_events hub @ notifications hub (ex_ctx (msg_pool hub i))\<rparr>)"
proof -
  obtain a b where r: "recver hub = [a, b]" using wf two_recvers [of "recver hub"] by (auto simp: hub_wf_def)
  have w: "mask_wf (rv_bitmap a)" "mask_wf (rv_bitmap b)" using wf r by (auto simp: hub_wf_def)
  let ?msg = "ex_ctx (msg_pool hub i)"
  have 0: "forward_loop ?msg 2 [] = Some ([], [])" by simp
  have 1: "forward_loop ?msg 0 [a, b] = Some (map rv_cleared [a, b], notifications hub ?msg)"
    using forward_loop_Cons [OF w(1) m forward_loop_Cons [OF w(2) m 0 [unfolded numeral_2_eq_2]]] m
    by (simp add: notifications_def subscribed_def registered_def r upt_rec del: forward_loop.simps)
  then show ?thesis using st by (simp add: msg_forward_def r)
qed

lemma forward_frame:
  assumes "hub_wf hub"
  shows "hub_wf (hub\<lparr>recver := map rv_cleared (recver hub)\<rparr>)"
    and "registered (hub\<lparr>recver := map rv_cleared (recver hub)\<rparr>) l = registered hub l"
    and "subscribed (hub\<lparr>recver := map rv_cleared (recver hub)\<rparr>) l = subscribed hub l"
proof -
  have z: "mask_wf (rv_bitmap recver0)" "\<not> TEST_STATUS_FLAG (rv_status recver0) MSG_RECVER_INIT"
    by (simp_all add: recver0_def mask_wf_def TEST_STATUS_FLAG_def)
  show "hub_wf (hub\<lparr>recver := map rv_cleared (recver hub)\<rparr>)"
    using assms z by (auto simp: hub_wf_def rv_cleared_def)
  show r: "registered (hub\<lparr>recver := map rv_cleared (recver hub)\<rparr>) l = registered hub l"
    using assms z by (auto simp: registered_def hub_wf_def rv_cleared_def split: if_splits)
  have "rv_cleared rv = rv" if "TEST_STATUS_FLAG (rv_status rv) MSG_RECVER_INIT" for rv
    using that by (simp add: rv_cleared_def)
  then show "subscribed (hub\<lparr>recver := map rv_cleared (recver hub)\<rparr>) l = subscribed hub l"
    using assms unfolding subscribed_def r by (auto simp: registered_def hub_wf_def)
qed

lemma msg_forward_fg:
  assumes wf: "hub_wf hub" and st: "TEST_STATUS_FLAG (hub_status hub) MSG_HUB_STARTED"
    and m: "\<not> bk_module (module_of (ex_ctx (msg_pool hub i)))" and r: "registered hub l"
  shows "msg_forward hub i = None"
proof -
  obtain a b where ab: "recver hub = [a, b]" using wf two_recvers [of "recver hub"] by (auto simp: hub_wf_def)
  have w: "mask_wf (rv_bitmap a)" "mask_wf (rv_bitmap b)" using wf ab by (auto simp: hub_wf_def)
  have "l = 0 \<or> l = 1" using r by (auto simp: registered_def)
  then show ?thesis using st m w r chk_bitmap_bit_wf
    by (auto simp: msg_forward_def ab registered_def)
qed

section \<open>Senders, thread and receivers side by side\<close>

text \<open>
  Besides the hub: the messages that senders have taken and not yet put on the wait queue, the message in
  the hands of the thread with a flag that says it is forwarded, and all that was put on the wait queue.
\<close>

record hub_run =
  hr_hub :: phl_msg_hub
  hr_send :: "nat list"
  hr_thread :: "(nat \<times> bool) option"
  hr_sent :: "phl_msg_ex list"

inductive hub_step :: "hub_run \<Rightarrow> hub_run \<Rightarrow> bool" where
  hub_take: "hub_send_take (hr_hub r) attr msg = (sts, Some i, hub) \<Longrightarrow>
    hub_step r (r\<lparr>hr_hub := hub, hr_send := i # hr_send r\<rparr>)"
| hub_put: "i \<in> set (hr_send r) \<Longrightarrow>
    hub_step r (r\<lparr>hr_hub := push_back_wait_msg (hr_hub r) i, hr_send := remove1 i (hr_send r),
                  hr_sent := hr_sent r @ [msg_pool (hr_hub r) i]\<rparr>)"
| hub_pop: "hr_thread r = None \<Longrightarrow> pop_front_wait_msg (hr_hub r) = (Some i, hub) \<Longrightarrow>
    hub_step r (r\<lparr>hr_hub := hub, hr_thread := Some (i, False)\<rparr>)"
| hub_forward: "hr_thread r = Some (i, False) \<Longrightarrow> msg_forward (hr_hub r) i = Some hub \<Longrightarrow>
    hub_step r (r\<lparr>hr_hub := hub, hr_thread := Some (i, True)\<rparr>)"
| hub_recycle: "hr_thread r = Some (i, True) \<Longrightarrow>
    hub_step r (r\<lparr>hr_hub := push_back_idle_msg (hr_hub r) i, hr_thread := None\<rparr>)"
| hub_recvers: "hub_step r (r\<lparr>hr_hub := (hr_hub r)\<lparr>recver := rvs\<rparr>\<rparr>)"

definition completions :: "phl_msg_ex list \<Rightarrow> hub_event list" where
  "completions exs = concat (map (\<lambda>ex. case ex_completion ex of None \<Rightarrow> [] | Some (f, p) \<Rightarrow> [Completed f p (ex_ctx ex)]) exs)"

fun is_completed :: "hub_event \<Rightarrow> bool" where
  "is_completed (Completed f p msg) = True"
| "is_completed (Notified l c msg) = False"

fun notified_of :: "nat \<Rightarrow> hub_event list \<Rightarrow> phl_msg list" where
  "notified_of l [] = []"
| "notified_of l (Completed f p msg # evs) = notified_of l evs"
| "notified_of l (Notified k c msg # evs) = (if k = l then [msg] else []) @ notified_of l evs"

lemma notified_of_append [simp]: "notified_of l (xs @ ys) = notified_of l xs @ notified_of l ys"
  by (induction l xs rule: notified_of.induct) auto

fun in_thread :: "(nat \<times> bool) option \<Rightarrow> nat list" where
  "in_thread None = []"
| "in_thread (Some (i, b)) = [i]"

fun thread_done :: "(nat \<times> bool) option \<Rightarrow> nat list" where
  "thread_done (Some (i, True)) = [i]"
| "thread_done _ = []"

definition hub_places :: "hub_run \<Rightarrow> nat list" where
  "hub_places r = pq_queue (idle_msg_q (hr_hub r)) @ pq_queue (wait_msg_q (hr_hub r)) @ hr_send r @ in_thread (hr_thread r)"

definition hub_inv :: "hub_run \<Rightarrow> phl_msg_ex list \<Rightarrow> bool" where
  "hub_inv r handled \<longleftrightarrow>
     pq_counted (idle_msg_q (hr_hub r)) \<and> pq_counted (wait_msg_q (hr_hub r)) \<and>
     mset (hub_places r) = mset_set {..<MAX_MSG_NUM} \<and>
     hr_sent r = handled @ map (msg_pool (hr_hub r)) (in_thread (hr_thread r) @ pq_queue (wait_msg_q (hr_hub r))) \<and>
     filter is_completed (hub_events (hr_hub r)) = completions handled \<and>
     (\<forall>l. subseq (notified_of l (hub_events (hr_hub r)))
            (map ex_ctx (handled @ map (msg_pool (hr_hub r)) (thread_done (hr_thread r)))))"

lemma hub_places_distinct: "mset (hub_places r) = mset_set {..<MAX_MSG_NUM} \<Longrightarrow> distinct (hub_places r)"
  by (metis distinct_upt lessThan_atLeast0 mset_eq_imp_distinct_iff mset_upt)

lemma push_deq_simps [simp]:
  "pq_queue (snd (pq_push q i Pos_tail)) = pq_queue q @ [i]" "pq_counted (snd (pq_push q i Pos_tail)) = pq_counted q"
  by (simp_all add: pq_push_def pq_counted_def)

lemma pq_deq_counted:
  assumes "pq_counted q" and "pq_deq q = Some (i, q')"
  shows "pq_queue q = i # pq_queue q'" "pq_counted q'"
  using pq.deq_SomeD [OF assms] by auto

lemma notified_of_forward:
  assumes "forward_loop msg k rvs = Some (rvs', evs)"
  shows "filter is_completed evs = []" "notified_of l evs = [] \<or> notified_of l evs = [msg]"
    "l < k \<Longrightarrow> notified_of l evs = []"
  using assms
proof (induction msg k rvs arbitrary: rvs' evs rule: forward_loop.induct)
  case (2 msg k rv rvs)
  {
    case 1
    then show ?case using 2 by (auto split: if_splits option.splits)
  next
    case 2
    then show ?case using "2.IH" by (fastforce split: if_splits option.splits)
  next
    case 3
    then show ?case using "2.IH" by (fastforce split: if_splits option.splits)
  }
qed auto

lemma msg_forward_frame:
  assumes "msg_forward hub i = Some hub'"
  shows "\<exists>rvs evs. hub' = hub\<lparr>recver := rvs, hub_events := hub_events hub @ evs\<rparr> \<and>
    (evs = [] \<or> (\<exists>rvs0. forward_loop (ex_ctx (msg_pool hub i)) 0 rvs0 = Some (rvs, evs)))"
proof (cases "TEST_STATUS_FLAG (hub_status hub) MSG_HUB_STARTED")
  case True
  then show ?thesis using assms by (auto simp: msg_forward_def)
next
  case False
  then show ?thesis using assms by (intro exI [of _ "recver hub"] exI [of _ "[]"]) (simp add: msg_forward_def)
qed

lemma hub_step_inv:
  assumes "hub_step r r'" and inv: "hub_inv r handled"
  shows "\<exists>handled'. hub_inv r' handled'"
  using assms(1)
proof cases
  case (hub_take attr msg sts i hub)
  then obtain q where q: "pq_deq (idle_msg_q (hr_hub r)) = Some (i, q)"
    and h: "hub = (hr_hub r)\<lparr>idle_msg_q := q, msg_pool := msg_pool hub\<rparr>" "\<forall>j. j \<noteq> i \<longrightarrow> msg_pool hub j = msg_pool (hr_hub r) j"
    by (auto simp: hub_send_take_def pop_front_idle_msg_def split: if_splits option.splits)
  have c: "pq_queue (idle_msg_q (hr_hub r)) = i # pq_queue q" "pq_counted q"
    using pq_deq_counted [OF _ q] inv by (auto simp: hub_inv_def)
  have d: "i \<notin> set (pq_queue (wait_msg_q (hr_hub r)))" "i \<notin> set (in_thread (hr_thread r))"
    using hub_places_distinct [of r] inv c by (auto simp: hub_inv_def hub_places_def)
  then have "thread_done (hr_thread r) = [] \<or> (\<exists>j. thread_done (hr_thread r) = [j] \<and> j \<noteq> i)"
    by (cases "hr_thread r" rule: thread_done.cases) auto
  then have same: "map (msg_pool hub) (thread_done (hr_thread r)) = map (msg_pool (hr_hub r)) (thread_done (hr_thread r))"
      "map (msg_pool hub) (in_thread (hr_thread r) @ pq_queue (wait_msg_q (hr_hub r))) =
       map (msg_pool (hr_hub r)) (in_thread (hr_thread r) @ pq_queue (wait_msg_q (hr_hub r)))"
    using h(2) d by auto
  have eqs: "wait_msg_q hub = wait_msg_q (hr_hub r)" "hub_events hub = hub_events (hr_hub r)" "idle_msg_q hub = q"
    by (subst h(1), simp)+
  have M: "mset (hub_places r') = mset_set {..<MAX_MSG_NUM}"
  proof -
    have "mset (hub_places r') = mset (hub_places r)" using c hub_take(1) by (simp add: hub_places_def eqs)
    then show ?thesis using inv by (simp only: hub_inv_def)
  qed
  have R: "hr_hub r' = hub" "hr_thread r' = hr_thread r" "hr_sent r' = hr_sent r" using hub_take(1) by simp_all
  have "hub_inv r' handled" unfolding hub_inv_def R eqs same using inv [unfolded hub_inv_def] c(2) M by blast
  then show ?thesis ..
next
  case (hub_put i)
  then obtain S where "mset (hr_send r) = add_mset i S" by (metis mset_add set_mset_mset)
  with inv hub_put show ?thesis
    by (intro exI [of _ handled]) (simp add: hub_inv_def hub_places_def push_back_wait_msg_def)
next
  case (hub_pop i hub)
  then obtain q where q: "pq_deq (wait_msg_q (hr_hub r)) = Some (i, q)" "hub = (hr_hub r)\<lparr>wait_msg_q := q\<rparr>"
    by (auto simp: pop_front_wait_msg_def split: option.splits)
  then have "pq_queue (wait_msg_q (hr_hub r)) = i # pq_queue q" "pq_counted q"
    using pq_deq_counted [OF _ q(1)] inv by (auto simp: hub_inv_def)
  with inv hub_pop(1,2) q(2) show ?thesis
    by (intro exI [of _ handled]) (simp add: hub_inv_def hub_places_def)
next
  case (hub_forward i hub)
  then obtain rvs evs where h: "hub = (hr_hub r)\<lparr>recver := rvs, hub_events := hub_events (hr_hub r) @ evs\<rparr>"
    and e: "evs = [] \<or> (\<exists>rvs0. forward_loop (ex_ctx (msg_pool (hr_hub r) i)) 0 rvs0 = Some (rvs, evs))"
    using msg_forward_frame [OF hub_forward(3)] by blast
  have n: "filter is_completed evs = []" "notified_of l evs = [] \<or> notified_of l evs = [ex_ctx (msg_pool (hr_hub r) i)]" for l
    using e notified_of_forward by fastforce+
  have "subseq (notified_of l (hub_events (hr_hub r)) @ notified_of l evs) (map ex_ctx handled @ [ex_ctx (msg_pool (hr_hub r) i)])" for l
    using inv n(2) [of l] hub_forward(2)
    by (auto simp: hub_inv_def intro: list_emb_append_mono subseq_rev_drop_many)
  with inv hub_forward n(1) h show ?thesis
    by (intro exI [of _ handled]) (simp add: hub_inv_def hub_places_def)
next
  case (hub_recycle i)
  let ?ex = "msg_pool (hr_hub r) i"
  have "hub_events (push_back_idle_msg (hr_hub r) i) = hub_events (hr_hub r) @ completions [?ex]"
    "idle_msg_q (push_back_idle_msg (hr_hub r) i) = snd (pq_push (idle_msg_q (hr_hub r)) i Pos_tail)"
    "msg_pool (push_back_idle_msg (hr_hub r) i) = msg_pool (hr_hub r)"
    by (auto simp: push_back_idle_msg_def completions_def Let_def split: option.splits)
  moreover have "filter is_completed (completions exs) = completions exs" "notified_of l (completions exs) = []" for exs l
    by (induction exs) (auto simp: completions_def split: option.splits)
  moreover have "completions (handled @ [?ex]) = completions handled @ completions [?ex]" by (simp add: completions_def)
  ultimately show ?thesis using inv hub_recycle wait_q_push_idle
    by (intro exI [of _ "handled @ [?ex]"]) (simp add: hub_inv_def hub_places_def)
next
  case (hub_recvers rvs)
  with inv show ?thesis by (intro exI [of _ handled]) (simp add: hub_inv_def hub_places_def)
qed

lemma hub_steps_inv:
  assumes "hub_step\<^sup>*\<^sup>* r r'" and "hub_inv r handled"
  shows "\<exists>handled'. hub_inv r' handled'"
  using assms by (induction rule: rtranclp_induct) (auto dest: hub_step_inv)

lemma foldl_push: "pq_queue (foldl (\<lambda>q i. snd (pq_push q i Pos_tail)) q is) = pq_queue q @ is \<and>
    pq_counted (foldl (\<lambda>q i. snd (pq_push q i Pos_tail)) q is) = pq_counted q"
  by (induction "is" arbitrary: q) auto

text \<open>
  C9: The message hub. After the hub was set up and started, in every interleaving of senders, thread and
  changes of the receivers: each of the sixteen messages is in exactly one place; the thread handles
  messages in the order in which they were sent, none is lost and none handled twice; the completion
  routine of each handled message was called exactly once, in that order; and no receiver saw a message
  twice or out of order.
\<close>

theorem msg_hub_exactly_once:
  assumes "phl_msg_hub_init True Hub_null = (RTW_PHL_STATUS_SUCCESS, Hub hub)"
    and "phl_msg_hub_start hub = (RTW_PHL_STATUS_SUCCESS, hub1)"
    and "hub_step\<^sup>*\<^sup>* \<lparr>hr_hub = hub1, hr_send = [], hr_thread = None, hr_sent = []\<rparr> r"
  shows "mset (pq_queue (idle_msg_q (hr_hub r)) @ pq_queue (wait_msg_q (hr_hub r)) @ hr_send r @ in_thread (hr_thread r)) =
      mset_set {..<MAX_MSG_NUM} \<and>
    (\<exists>handled. hr_sent r = handled @ map (msg_pool (hr_hub r)) (in_thread (hr_thread r) @ pq_queue (wait_msg_q (hr_hub r))) \<and>
      filter is_completed (hub_events (hr_hub r)) = completions handled \<and>
      (\<forall>l. subseq (notified_of l (hub_events (hr_hub r)))
         (map ex_ctx (handled @ map (msg_pool (hr_hub r)) (thread_done (hr_thread r))))))"
proof -
  let ?r = "\<lparr>hr_hub = hub1, hr_send = [], hr_thread = None, hr_sent = []\<rparr>"
  have h: "hub = hub0\<lparr>hub_status := SET_STATUS_FLAG (hub_status hub0) MSG_HUB_INIT\<rparr>"
    using assms(1) by (simp add: phl_msg_hub_init_def)
  have "idle_msg_q hub1 = foldl (\<lambda>q i. snd (pq_push q i Pos_tail)) pq_init [0..<MAX_MSG_NUM]"
    "wait_msg_q hub1 = pq_init" "hub_events hub1 = []"
    using assms(2) by (auto simp: phl_msg_hub_start_def h hub0_def split: if_splits)
  moreover have "mset [0..<MAX_MSG_NUM] = mset_set {..<MAX_MSG_NUM}" by (simp add: lessThan_atLeast0)
  ultimately have "hub_inv ?r []" using foldl_push [of pq_init "[0..<MAX_MSG_NUM]"]
    by (simp add: hub_inv_def hub_places_def completions_def pq_init_def pq_counted_def del: upt_rec_numeral)
  from hub_steps_inv [OF assms(3) this] show ?thesis by (auto simp: hub_inv_def hub_places_def)
qed

definition demo_msg :: "u32 \<Rightarrow> phl_msg" where
  "demo_msg mdl = msg0\<lparr>msg_id := push_bit 16 mdl\<rparr>"

theorem msg_hub_exactly_once_witness:
  "\<exists>hub hub1 (r :: hub_run). phl_msg_hub_init True Hub_null = (RTW_PHL_STATUS_SUCCESS, Hub hub) \<and>
    phl_msg_hub_start hub = (RTW_PHL_STATUS_SUCCESS, hub1) \<and>
    hr_sent r = [\<lparr>ex_ctx = demo_msg 3, ex_completion = Some (7, 9)\<rparr>] \<and>
    mset (pq_queue (idle_msg_q (hr_hub r)) @ pq_queue (wait_msg_q (hr_hub r)) @ hr_send r @ in_thread (hr_thread r)) =
      mset_set {..<MAX_MSG_NUM}"
proof -
  define hub where "hub = hub0\<lparr>hub_status := SET_STATUS_FLAG (hub_status hub0) MSG_HUB_INIT\<rparr>"
  have i: "phl_msg_hub_init True Hub_null = (RTW_PHL_STATUS_SUCCESS, Hub hub)" by (simp add: phl_msg_hub_init_def hub_def)
  have f: "TEST_STATUS_FLAG (hub_status hub) MSG_HUB_INIT" "\<not> TEST_STATUS_FLAG (hub_status hub) MSG_HUB_STARTED"
    by (simp_all add: hub_def hub0_def SET_STATUS_FLAG_def TEST_STATUS_FLAG_def)
  define hub1 where "hub1 = snd (phl_msg_hub_start hub)"
  have s: "phl_msg_hub_start hub = (RTW_PHL_STATUS_SUCCESS, hub1)"
    using f unfolding hub1_def phl_msg_hub_start_def by (simp del: upt_rec_numeral)
  let ?r = "\<lparr>hr_hub = hub1, hr_send = [], hr_thread = None, hr_sent = []\<rparr>"
  have st: "TEST_STATUS_FLAG (hub_status hub1) MSG_HUB_STARTED"
    using f flag_simps(1) [of 1 1 "hub_status hub"] unfolding hub1_def phl_msg_hub_start_def by simp
  have "pq_deq (idle_msg_q hub1) = Some (0, \<lparr>pq_queue = [1..<16], pq_cnt = 15\<rparr>)"
    using f unfolding hub1_def phl_msg_hub_start_def
    by (simp add: hub_def hub0_def pq_deq_def pq_pop_def pq_push_def pq_init_def upt_rec)
  then obtain hub2 where t: "hub_send_take hub1 (Some (7, 9)) (Some (demo_msg 3)) = (RTW_PHL_STATUS_SUCCESS, Some 0, hub2)"
      "msg_pool hub2 0 = \<lparr>ex_ctx = demo_msg 3, ex_completion = Some (7, 9)\<rparr>"
    using st by (simp add: hub_send_take_def pop_front_idle_msg_def)
  let ?r1 = "?r\<lparr>hr_hub := hub2, hr_send := [0]\<rparr>"
  let ?r2 = "?r1\<lparr>hr_hub := push_back_wait_msg hub2 0, hr_send := [], hr_sent := [msg_pool hub2 0]\<rparr>"
  have "hub_step ?r ?r1" using hub_take [of ?r "Some (7, 9)" "Some (demo_msg 3)" RTW_PHL_STATUS_SUCCESS 0 hub2] t(1) by simp
  moreover have "hub_step ?r1 ?r2" using hub_put [of 0 ?r1] by simp
  ultimately have "hub_step\<^sup>*\<^sup>* ?r ?r2" by (meson converse_rtranclp_into_rtranclp r_into_rtranclp)
  moreover obtain r2 where r2: "r2 = ?r2" by blast
  ultimately have "hub_step\<^sup>*\<^sup>* ?r r2" by simp
  from msg_hub_exactly_once [OF i s this] have
    "mset (pq_queue (idle_msg_q (hr_hub r2)) @ pq_queue (wait_msg_q (hr_hub r2)) @ hr_send r2 @ in_thread (hr_thread r2)) =
      mset_set {..<MAX_MSG_NUM}" ..
  moreover have "hr_sent r2 = [\<lparr>ex_ctx = demo_msg 3, ex_completion = Some (7, 9)\<rparr>]" using t(2) r2 by simp
  ultimately show ?thesis using i s by blast
qed

lemma update_mask_subscribed:
  assumes wf: "hub_wf hub" and init: "TEST_STATUS_FLAG (hub_status hub) MSG_HUB_INIT" and r: "registered hub l"
    and ids: "\<forall>i \<in> set ids. bk_module i"
  shows "\<exists>hub'. phl_msg_hub_update_recver_mask hub l ids clr = Some (RTW_PHL_STATUS_SUCCESS, hub') \<and> hub_wf hub' \<and>
    (\<forall>k. subscribed hub' k = (if k = l then if clr then subscribed hub l - set ids else subscribed hub l \<union> set ids
                              else subscribed hub k))"
proof -
  have l: "l < 2" and rt: "TEST_STATUS_FLAG (rv_status (recver hub ! l)) MSG_RECVER_INIT" and len: "length (recver hub) = 2"
    using r wf by (auto simp: registered_def hub_wf_def)
  then have w: "mask_wf (rv_bitmap (recver hub ! l))" using wf by (simp add: hub_wf_def)
  define bm where "bm = (if clr then foldl clr_bit (rv_bitmap (recver hub ! l)) ids else foldl add_bit (rv_bitmap (recver hub ! l)) ids)"
  define hub' where "hub' = hub\<lparr>recver := (recver hub)[l := (recver hub ! l)\<lparr>rv_bitmap := bm\<rparr>]\<rparr>"
  have u: "phl_msg_hub_update_recver_mask hub l ids clr = Some (RTW_PHL_STATUS_SUCCESS, hub')"
    using init l rt add_bitmap_bit_foldl [OF w ids]
    by (simp add: phl_msg_hub_update_recver_mask_def Let_def hub'_def bm_def)
  have e: "mask_wf bm" "mask.elems bm = (if clr then mask.elems (rv_bitmap (recver hub ! l)) - set ids
      else mask.elems (rv_bitmap (recver hub ! l)) \<union> set ids)"
    using mask.foldl_ins [OF w ids] mask.foldl_del [OF w ids] by (auto simp: bm_def)
  have reg: "registered hub' k = registered hub k" for k
    using l len by (cases "k = l") (auto simp: registered_def hub'_def)
  have sub: "subscribed h k = (if registered h k then mask.elems (rv_bitmap (recver h ! k)) else {})" for h k
    by (simp add: subscribed_def mask.elems_def)
  have "hub_wf hub'" using wf e(1) len l unfolding hub_wf_def hub'_def by (auto dest!: set_update_subset_insert [THEN subsetD])
  moreover have "subscribed hub' k = (if k = l then if clr then subscribed hub l - set ids else subscribed hub l \<union> set ids
      else subscribed hub k)" for k
    unfolding sub reg using r e(2) l len by (auto simp: hub'_def)
  ultimately show ?thesis using u by blast
qed

text \<open>
  Subscriptions. On a hub that is set up, adding and clearing module ids of a registered receiver adds
  and clears exactly these in the set of modules it is subscribed to and changes no other receiver;
  forwarding a message of a background module calls exactly the receivers that are subscribed to its
  module, each once, and changes no subscription.
\<close>

theorem msg_hub_subscriptions:
  assumes "hub_wf hub" and "TEST_STATUS_FLAG (hub_status hub) MSG_HUB_INIT"
  shows "(\<forall>l ids clr. registered hub l \<and> (\<forall>i \<in> set ids. bk_module i) \<longrightarrow>
      (\<exists>hub'. phl_msg_hub_update_recver_mask hub l ids clr = Some (RTW_PHL_STATUS_SUCCESS, hub') \<and> hub_wf hub' \<and>
        (\<forall>k. subscribed hub' k = (if k = l then if clr then subscribed hub l - set ids else subscribed hub l \<union> set ids
                                  else subscribed hub k)))) \<and>
    (\<forall>i. TEST_STATUS_FLAG (hub_status hub) MSG_HUB_STARTED \<and> bk_module (module_of (ex_ctx (msg_pool hub i))) \<longrightarrow>
      (\<exists>hub'. msg_forward hub i = Some hub' \<and> hub_wf hub' \<and>
        hub_events hub' = hub_events hub @ map (\<lambda>l. Notified l (rv_ctx (recver hub ! l)) (ex_ctx (msg_pool hub i)))
          (filter (\<lambda>l. module_of (ex_ctx (msg_pool hub i)) \<in> subscribed hub l) [0..<MSG_RECV_MAX]) \<and>
        (\<forall>k. subscribed hub' k = subscribed hub k)))"
proof (intro conjI allI impI)
  fix l ids clr
  assume "registered hub l \<and> (\<forall>i \<in> set ids. bk_module i)"
  then show "\<exists>hub'. phl_msg_hub_update_recver_mask hub l ids clr = Some (RTW_PHL_STATUS_SUCCESS, hub') \<and> hub_wf hub' \<and>
        (\<forall>k. subscribed hub' k = (if k = l then if clr then subscribed hub l - set ids else subscribed hub l \<union> set ids
                                  else subscribed hub k))"
    using update_mask_subscribed [OF assms] by blast
next
  fix i
  assume "TEST_STATUS_FLAG (hub_status hub) MSG_HUB_STARTED \<and> bk_module (module_of (ex_ctx (msg_pool hub i)))"
  then have f: "msg_forward hub i = Some (hub\<lparr>recver := map rv_cleared (recver hub),
      hub_events := hub_events hub @ notifications hub (ex_ctx (msg_pool hub i))\<rparr>)"
    using msg_forward_events [OF assms(1)] by blast
  have ev: "hub_wf (h\<lparr>hub_events := e\<rparr>) = hub_wf h" "subscribed (h\<lparr>hub_events := e\<rparr>) k = subscribed h k" for h e k
    by (simp_all add: hub_wf_def subscribed_def registered_def)
  show "\<exists>hub'. msg_forward hub i = Some hub' \<and> hub_wf hub' \<and>
        hub_events hub' = hub_events hub @ map (\<lambda>l. Notified l (rv_ctx (recver hub ! l)) (ex_ctx (msg_pool hub i)))
          (filter (\<lambda>l. module_of (ex_ctx (msg_pool hub i)) \<in> subscribed hub l) [0..<MSG_RECV_MAX]) \<and>
        (\<forall>k. subscribed hub' k = subscribed hub k)"
    unfolding f using forward_frame [OF assms(1)] by (simp add: ev notifications_def del: upt_rec_numeral)
qed

lemma demo_hub_ok: "hub_wf (hub0\<lparr>hub_status := 3, recver := [recver0\<lparr>rv_status := 1\<rparr>, recver0]\<rparr>)"
  by (simp add: hub_wf_def mask_wf_def recver0_def)

theorem msg_hub_subscriptions_witness:
  "\<exists>hub'. phl_msg_hub_update_recver_mask (hub0\<lparr>hub_status := 3, recver := [recver0\<lparr>rv_status := 1\<rparr>, recver0]\<rparr>) 0 [3, 42] False =
     Some (RTW_PHL_STATUS_SUCCESS, hub') \<and> subscribed hub' 0 = {3, 42}"
proof -
  let ?hub = "hub0\<lparr>hub_status := 3, recver := [recver0\<lparr>rv_status := 1\<rparr>, recver0]\<rparr>"
  have i: "TEST_STATUS_FLAG (hub_status ?hub) MSG_HUB_INIT" by (simp add: TEST_STATUS_FLAG_def)
  have r: "registered ?hub 0" "subscribed ?hub 0 = {}"
  proof -
    show "registered ?hub 0" by (simp add: registered_def TEST_STATUS_FLAG_def)
    have "replicate 16 (0 :: u8) ! (unat m div 8) = 0" if "bk_module m" for m
      using that by (simp add: bk_module_def div_less_iff_less_mult)
    then show "subscribed ?hub 0 = {}" by (auto simp: subscribed_def mask_has_def recver0_def)
  qed
  have "\<forall>i \<in> set [3, 42]. bk_module i" by (simp add: bk_module_def)
  with r(1) have "registered ?hub 0 \<and> (\<forall>i \<in> set [3, 42]. bk_module i)" by blast
  from msg_hub_subscriptions [OF demo_hub_ok i, THEN conjunct1, THEN spec, THEN spec, THEN spec, THEN mp, OF this, of False]
  obtain hub' where
    "phl_msg_hub_update_recver_mask ?hub 0 [3, 42] False = Some (RTW_PHL_STATUS_SUCCESS, hub')"
    "subscribed hub' 0 = subscribed ?hub 0 \<union> set [3, 42]" by auto
  with r show ?thesis by auto
qed

text \<open>
  A message of a foreground module (scan, connect, and the like, ids from 129 on) makes forwarding read behind the
  mask of the first registered receiver, which has 128 bits.
\<close>

theorem msg_hub_foreground_out_of_bounds:
  assumes "hub_wf hub" and "TEST_STATUS_FLAG (hub_status hub) MSG_HUB_STARTED" and "registered hub l"
  shows "msg_forward hub i = None \<longleftrightarrow> \<not> bk_module (module_of (ex_ctx (msg_pool hub i)))"
  using msg_forward_events [OF assms(1,2)] msg_forward_fg [OF assms(1,2) _ assms(3)] by (metis option.distinct(1))

theorem msg_hub_foreground_out_of_bounds_witness:
  "msg_forward (hub0\<lparr>hub_status := 3, recver := [recver0\<lparr>rv_status := 1\<rparr>, recver0],
     msg_pool := (\<lambda>_. \<lparr>ex_ctx = demo_msg 130, ex_completion = None\<rparr>)\<rparr>) 0 = None"
proof -
  let ?hub = "hub0\<lparr>hub_status := 3, recver := [recver0\<lparr>rv_status := 1\<rparr>, recver0]\<rparr>"
  let ?hub1 = "?hub\<lparr>msg_pool := (\<lambda>_. \<lparr>ex_ctx = demo_msg 130, ex_completion = None\<rparr>)\<rparr>"
  have "hub_wf ?hub1" using demo_hub_ok by (simp add: hub_wf_def)
  moreover have "TEST_STATUS_FLAG (hub_status ?hub1) MSG_HUB_STARTED" by (simp add: TEST_STATUS_FLAG_def)
  moreover have "registered ?hub1 0" by (simp add: registered_def TEST_STATUS_FLAG_def)
  moreover have "MSG_MDL_ID_FIELD (push_bit 16 130) = 130" by (simp add: MSG_MDL_ID_FIELD_def)
  then have "\<not> bk_module (module_of (ex_ctx (msg_pool ?hub1 0)))" by (simp add: demo_msg_def bk_module_def)
  ultimately show ?thesis using msg_hub_foreground_out_of_bounds [of ?hub1 0 0] by simp
qed

section \<open>Stopping\<close>

lemma push_back_idle_fields:
  "idle_msg_q (push_back_idle_msg hub i) = snd (pq_push (idle_msg_q hub) i Pos_tail)"
  "msg_pool (push_back_idle_msg hub i) = msg_pool hub" "hub_status (push_back_idle_msg hub i) = hub_status hub"
  "hub_events (push_back_idle_msg hub i) = hub_events hub @ completions [msg_pool hub i]"
  by (auto simp: push_back_idle_msg_def completions_def Let_def split: option.splits)

lemma msg_drain_inner_all:
  assumes "pq_counted (idle_msg_q hub)" and "pq_counted (wait_msg_q hub)"
  shows "pq_queue (idle_msg_q (msg_drain_inner hub)) = pq_queue (idle_msg_q hub) @ pq_queue (wait_msg_q hub) \<and>
    pq_queue (wait_msg_q (msg_drain_inner hub)) = [] \<and> pq_counted (idle_msg_q (msg_drain_inner hub)) \<and>
    pq_counted (wait_msg_q (msg_drain_inner hub)) \<and> hub_status (msg_drain_inner hub) = hub_status hub \<and>
    hub_events (msg_drain_inner hub) = hub_events hub @ completions (map (msg_pool hub) (pq_queue (wait_msg_q hub)))"
  using assms
proof (induction "pq_queue (wait_msg_q hub)" arbitrary: hub)
  case Nil
  then have "pq_deq (wait_msg_q hub) = None" using pq.deq_Nil by metis
  then have "msg_drain_inner hub = hub" by (subst msg_drain_inner.simps) (simp add: pop_front_wait_msg_def)
  with Nil show ?case by (simp add: completions_def)
next
  case (Cons i js)
  then obtain q where q: "pq_deq (wait_msg_q hub) = Some (i, q)" "pq_counted q" "pq_queue q = js"
    using pq.deq_Cons by metis
  let ?hub = "push_back_idle_msg (hub\<lparr>wait_msg_q := q\<rparr>) i"
  have eq: "msg_drain_inner hub = msg_drain_inner ?hub"
    by (subst msg_drain_inner.simps) (simp add: pop_front_wait_msg_def q)
  have w: "wait_msg_q ?hub = q" by (simp add: wait_q_push_idle)
  have IH: "pq_queue (idle_msg_q (msg_drain_inner ?hub)) = pq_queue (idle_msg_q ?hub) @ js \<and>
    pq_queue (wait_msg_q (msg_drain_inner ?hub)) = [] \<and> pq_counted (idle_msg_q (msg_drain_inner ?hub)) \<and>
    pq_counted (wait_msg_q (msg_drain_inner ?hub)) \<and> hub_status (msg_drain_inner ?hub) = hub_status ?hub \<and>
    hub_events (msg_drain_inner ?hub) = hub_events ?hub @ completions (map (msg_pool ?hub) js)"
    using Cons.hyps(1) [of ?hub] Cons.prems(1) q(2,3) w by (simp add: push_back_idle_fields)
  then show ?case unfolding eq using Cons.hyps(2) [symmetric] by (simp add: push_back_idle_fields completions_def)
qed

lemma msg_drain_stuck:
  assumes "pq_counted (idle_msg_q hub)" and "pq_counted (wait_msg_q hub)"
    and "length (pq_queue (idle_msg_q hub)) + length (pq_queue (wait_msg_q hub)) < MAX_MSG_NUM"
  shows "msg_drain n hub = None"
  using assms
proof (induction n arbitrary: hub)
  case 0
  then show ?case by (subst msg_drain.simps) (simp add: pq_counted_def)
next
  case (Suc n)
  from Suc.IH [of "msg_drain_inner hub"] msg_drain_inner_all [OF Suc.prems(1,2)] Suc.prems
  show ?case by (subst msg_drain.simps) (simp add: pq_counted_def)
qed

text \<open>
  C37: Stopping the hub. When no sender holds a message, stopping ends after at most one round, completes
  every waiting message exactly once in order, calls no receiver, and leaves a hub that can be started again
  with all sixteen messages idle. While a message is held by a sender that does not put it back, the thread
  never ends, whatever the number of rounds.
\<close>

theorem msg_hub_stop_drains:
  assumes c: "pq_counted (idle_msg_q hub)" "pq_counted (wait_msg_q hub)"
    and f: "TEST_STATUS_FLAG (hub_status hub) MSG_HUB_STARTED" "TEST_STATUS_FLAG (hub_status hub) MSG_HUB_INIT"
  shows "(length (pq_queue (idle_msg_q hub)) + length (pq_queue (wait_msg_q hub)) = MAX_MSG_NUM \<longrightarrow>
      (\<exists>hub' hub''. phl_msg_hub_stop 1 hub = Some (RTW_PHL_STATUS_SUCCESS, hub') \<and>
        hub_events hub' = hub_events hub @ completions (map (msg_pool hub) (pq_queue (wait_msg_q hub))) \<and>
        phl_msg_hub_start hub' = (RTW_PHL_STATUS_SUCCESS, hub'') \<and> pq_queue (idle_msg_q hub'') = [0..<MAX_MSG_NUM])) \<and>
    (length (pq_queue (idle_msg_q hub)) + length (pq_queue (wait_msg_q hub)) < MAX_MSG_NUM \<longrightarrow>
      (\<forall>n. phl_msg_hub_stop n hub = None))"
proof (intro conjI impI allI)
  let ?hub = "hub\<lparr>hub_status := CLEAR_STATUS_FLAG (hub_status hub) MSG_HUB_STARTED\<rparr>"
  let ?d = "if pq_cnt (idle_msg_q hub) = int MAX_MSG_NUM then ?hub else msg_drain_inner ?hub"
  assume l: "length (pq_queue (idle_msg_q hub)) + length (pq_queue (wait_msg_q hub)) = MAX_MSG_NUM"
  have D: "pq_queue (idle_msg_q (msg_drain_inner ?hub)) = pq_queue (idle_msg_q hub) @ pq_queue (wait_msg_q hub)"
    "pq_counted (idle_msg_q (msg_drain_inner ?hub))" "hub_status (msg_drain_inner ?hub) = hub_status ?hub"
    "hub_events (msg_drain_inner ?hub) = hub_events hub @ completions (map (msg_pool hub) (pq_queue (wait_msg_q hub)))"
    using msg_drain_inner_all [of ?hub] c by simp_all
  have cnt: "pq_cnt (idle_msg_q (msg_drain_inner ?hub)) = int MAX_MSG_NUM" using D(1,2) l by (simp add: pq_counted_def)
  have "msg_drain 1 ?hub = Some ?d"
    using cnt by (simp add: msg_drain.simps [of 0] msg_drain.simps [of "Suc 0"])
  moreover have ev: "hub_events ?d = hub_events hub @ completions (map (msg_pool hub) (pq_queue (wait_msg_q hub)))"
    using c(1) l D(4) by (auto simp: pq_counted_def completions_def)
  moreover have st: "hub_status ?d = hub_status ?hub" using D(3) by simp
  ultimately have stop: "phl_msg_hub_stop 1 hub = Some (RTW_PHL_STATUS_SUCCESS,
      ?d\<lparr>idle_msg_q := pq_reset (idle_msg_q ?d), wait_msg_q := pq_reset (wait_msg_q ?d)\<rparr>)"
    using f(1) by (simp add: phl_msg_hub_stop_def)
  have "\<not> TEST_STATUS_FLAG (hub_status ?hub) MSG_HUB_STARTED" "TEST_STATUS_FLAG (hub_status ?hub) MSG_HUB_INIT"
    using f flag_simps(2) [of 1 1 "hub_status hub"] flag_simps(2) [of 0 1 "hub_status hub"] by simp_all
  with stop ev st foldl_push [of "pq_reset (idle_msg_q ?d)" "[0..<MAX_MSG_NUM]"]
  show "\<exists>hub' hub''. phl_msg_hub_stop 1 hub = Some (RTW_PHL_STATUS_SUCCESS, hub') \<and>
      hub_events hub' = hub_events hub @ completions (map (msg_pool hub) (pq_queue (wait_msg_q hub))) \<and>
      phl_msg_hub_start hub' = (RTW_PHL_STATUS_SUCCESS, hub'') \<and> pq_queue (idle_msg_q hub'') = [0..<MAX_MSG_NUM]"
    by (simp add: phl_msg_hub_start_def pq_reset_def del: upt_rec_numeral)
next
  fix n
  let ?hub = "hub\<lparr>hub_status := CLEAR_STATUS_FLAG (hub_status hub) MSG_HUB_STARTED\<rparr>"
  assume "length (pq_queue (idle_msg_q hub)) + length (pq_queue (wait_msg_q hub)) < MAX_MSG_NUM"
  then have "msg_drain n ?hub = None" using c by (intro msg_drain_stuck) simp_all
  then show "phl_msg_hub_stop n hub = None" using f(1) by (simp add: phl_msg_hub_stop_def)
qed

theorem msg_hub_stop_drains_witness:
  "phl_msg_hub_stop 1000 (hub0\<lparr>hub_status := 3, idle_msg_q := \<lparr>pq_queue = [0..<15], pq_cnt = 15\<rparr>\<rparr>) = None"
  using msg_hub_stop_drains [of "hub0\<lparr>hub_status := 3, idle_msg_q := \<lparr>pq_queue = [0..<15], pq_cnt = 15\<rparr>\<rparr>"]
  by (simp add: pq_counted_def hub0_def pq_init_def TEST_STATUS_FLAG_def)

end
