(* ===== verification/Phl_Dispr.thy ===== *)
theory Phl_Dispr
  imports Phl_Msg "HOL-Library.Monad_Syntax"
begin

text \<open>
  The command dispatcher, \<^verbatim>\<open>phl/phl_cmd_dispatcher.c\<close>: background modules in three priorities, twenty-four messages that
  are dispatched to them in two phases, and eight command requests that wait for one token, all handled by one thread.
  The dispatcher calls modules and requests. What a call does is taken from a script: its return code, and the calls of
  the dispatcher's own interface that are made while it runs, by the callee or by other threads. Completion routines are
  recorded and call nothing. \<open>None\<close> is a write behind the end of a mask, damage to a linked list, or the end of the script. The order of
  modules that a message may bring along is compiled out, as is the mode with one thread for every dispatcher.
\<close>

section \<open>Data\<close>

abbreviation MSG_STATUS_ENQ :: u16 where "MSG_STATUS_ENQ \<equiv> BIT 0"
abbreviation MSG_STATUS_RUN :: u16 where "MSG_STATUS_RUN \<equiv> BIT 1"
abbreviation MSG_STATUS_NOTIFY_COMPLETE :: u16 where "MSG_STATUS_NOTIFY_COMPLETE \<equiv> BIT 2"
abbreviation MSG_STATUS_CANCEL :: u16 where "MSG_STATUS_CANCEL \<equiv> BIT 3"
abbreviation MSG_STATUS_PRE_PHASE :: u16 where "MSG_STATUS_PRE_PHASE \<equiv> BIT 4"
abbreviation MSG_STATUS_FAIL :: u16 where "MSG_STATUS_FAIL \<equiv> BIT 5"
abbreviation MSG_STATUS_OWNER_BK_MDL :: u16 where "MSG_STATUS_OWNER_BK_MDL \<equiv> BIT 6"
abbreviation MSG_STATUS_OWNER_REQ :: u16 where "MSG_STATUS_OWNER_REQ \<equiv> BIT 7"
abbreviation MSG_STATUS_CLR_SNDR_MSG_IF_PENDING :: u16 where "MSG_STATUS_CLR_SNDR_MSG_IF_PENDING \<equiv> BIT 8"
abbreviation MSG_STATUS_PENDING :: u16 where "MSG_STATUS_PENDING \<equiv> BIT 9"
abbreviation MSG_STATUS_FOR_ABORT :: u16 where "MSG_STATUS_FOR_ABORT \<equiv> BIT 10"
abbreviation MSG_STATUS_PENDING_DURING_CANNOT_IO :: u16 where "MSG_STATUS_PENDING_DURING_CANNOT_IO \<equiv> BIT 11"

abbreviation REQ_STATUS_ENQ :: u8 where "REQ_STATUS_ENQ \<equiv> BIT 0"
abbreviation REQ_STATUS_RUN :: u8 where "REQ_STATUS_RUN \<equiv> BIT 1"
abbreviation REQ_STATUS_CANCEL :: u8 where "REQ_STATUS_CANCEL \<equiv> BIT 2"
abbreviation REQ_STATUS_LAST_PERMIT :: u8 where "REQ_STATUS_LAST_PERMIT \<equiv> BIT 3"
abbreviation REQ_STATUS_PREPARE :: u8 where "REQ_STATUS_PREPARE \<equiv> BIT 4"

abbreviation MDL_INIT :: u8 where "MDL_INIT \<equiv> BIT 0"
abbreviation MDL_STARTED :: u8 where "MDL_STARTED \<equiv> BIT 1"

abbreviation DISPR_INIT :: u16 where "DISPR_INIT \<equiv> BIT 0"
abbreviation DISPR_STARTED :: u16 where "DISPR_STARTED \<equiv> BIT 1"
abbreviation DISPR_MSGQ_INIT :: u16 where "DISPR_MSGQ_INIT \<equiv> BIT 2"
abbreviation DISPR_REQ_INIT :: u16 where "DISPR_REQ_INIT \<equiv> BIT 3"
abbreviation DISPR_NOTIFY_IDLE :: u16 where "DISPR_NOTIFY_IDLE \<equiv> BIT 4"
abbreviation DISPR_CLR_PEND_MSG :: u16 where "DISPR_CLR_PEND_MSG \<equiv> BIT 5"
abbreviation DISPR_CTRL_PRESENT :: u16 where "DISPR_CTRL_PRESENT \<equiv> BIT 6"
abbreviation DISPR_WAIT_ABORT_MSG_DONE :: u16 where "DISPR_WAIT_ABORT_MSG_DONE \<equiv> BIT 7"
abbreviation DISPR_CANNOT_IO :: u16 where "DISPR_CANNOT_IO \<equiv> BIT 8"

abbreviation MSG_INDC_PRE_PHASE :: u8 where "MSG_INDC_PRE_PHASE \<equiv> BIT 0"
abbreviation MSG_INDC_FAIL :: u8 where "MSG_INDC_FAIL \<equiv> BIT 1"
abbreviation MSG_INDC_CANCEL :: u8 where "MSG_INDC_CANCEL \<equiv> BIT 2"
abbreviation MSG_INDC_CANNOT_IO :: u8 where "MSG_INDC_CANNOT_IO \<equiv> BIT 3"

abbreviation MSG_OPT_SKIP_NOTIFY_OPT_MDL :: u8 where "MSG_OPT_SKIP_NOTIFY_OPT_MDL \<equiv> BIT 0"
abbreviation MSG_OPT_BLIST_PRESENT :: u8 where "MSG_OPT_BLIST_PRESENT \<equiv> BIT 1"
abbreviation MSG_OPT_CLR_SNDR_MSG_IF_PENDING :: u8 where "MSG_OPT_CLR_SNDR_MSG_IF_PENDING \<equiv> BIT 2"
abbreviation MSG_OPT_SEND_IN_ABORT :: u8 where "MSG_OPT_SEND_IN_ABORT \<equiv> BIT 3"
abbreviation MSG_OPT_PENDING_DURING_CANNOT_IO :: u8 where "MSG_OPT_PENDING_DURING_CANNOT_IO \<equiv> BIT 4"

abbreviation PHL_MDL_PHY_MGNT :: u8 where "PHL_MDL_PHY_MGNT \<equiv> 1"
abbreviation PHL_MDL_POWER_MGNT :: u8 where "PHL_MDL_POWER_MGNT \<equiv> 41"
abbreviation PHL_FG_MDL_START :: u8 where "PHL_FG_MDL_START \<equiv> 129"
abbreviation PHL_MDL_ID_MAX :: u8 where "PHL_MDL_ID_MAX \<equiv> 255"

abbreviation MSG_EVT_PHY_ON :: u16 where "MSG_EVT_PHY_ON \<equiv> 1"
abbreviation MSG_EVT_PHY_IDLE :: u16 where "MSG_EVT_PHY_IDLE \<equiv> 2"
abbreviation MSG_EVT_DEV_CANNOT_IO :: u16 where "MSG_EVT_DEV_CANNOT_IO \<equiv> 56"
abbreviation MSG_EVT_DEV_RESUME_IO :: u16 where "MSG_EVT_DEV_RESUME_IO \<equiv> 57"
abbreviation MSG_EVT_MAX :: u16 where "MSG_EVT_MAX \<equiv> 0x7fff"

abbreviation MAX_PHL_MSG_NUM :: nat where "MAX_PHL_MSG_NUM \<equiv> 24"
abbreviation MAX_CMD_REQ_NUM :: nat where "MAX_CMD_REQ_NUM \<equiv> 8"

datatype phl_mdl_ret_code = MDL_RET_SUCCESS | MDL_RET_FAIL | MDL_RET_IGNORE | MDL_RET_PENDING | MDL_RET_CANNOT_IO

definition STOP_DISPATCH_MSG :: "phl_mdl_ret_code \<Rightarrow> bool" where
  "STOP_DISPATCH_MSG ret \<longleftrightarrow> ret \<noteq> MDL_RET_SUCCESS \<and> ret \<noteq> MDL_RET_IGNORE"

text \<open>Fields of a message id.\<close>

definition MSG_EVT_ID_FIELD :: "u32 \<Rightarrow> u16" where
  "MSG_EVT_ID_FIELD mid = ucast (mid AND 0xFFFF)"

definition MSG_INDC_FIELD :: "u32 \<Rightarrow> u8" where
  "MSG_INDC_FIELD mid = ucast (drop_bit 24 mid AND 0xFF)"

definition SET_MSG_INDC_FIELD :: "u32 \<Rightarrow> u8 \<Rightarrow> u32" where
  "SET_MSG_INDC_FIELD mid indc = (mid AND NOT (push_bit 24 (ucast indc))) OR push_bit 24 (ucast indc)"

definition CLEAR_MSG_INDC_FIELD :: "u32 \<Rightarrow> u8 \<Rightarrow> u32" where
  "CLEAR_MSG_INDC_FIELD mid indc = mid AND NOT (push_bit 24 (ucast indc))"

definition IS_DISPR_CTRL :: "'a::len word \<Rightarrow> bool" where
  "IS_DISPR_CTRL mdl_id \<longleftrightarrow> mdl_id < 10"

text \<open>Priorities are the indices of the module queues: 0 roles, 1 optional, 2 mandatory; 3 is no priority.\<close>

abbreviation PHL_MDL_PRI_OPTIONAL :: nat where "PHL_MDL_PRI_OPTIONAL \<equiv> 1"
abbreviation PHL_MDL_PRI_MAX :: nat where "PHL_MDL_PRI_MAX \<equiv> 3"

definition get_mdl_priority :: "u8 \<Rightarrow> nat" where
  "get_mdl_priority i = (if i < 10 then 3 else if i \<le> 40 then 0 else if i \<le> 70 then 2 else if i \<le> 127 then 1 else 3)"

record phl_bk_module =
  mdl_id :: u8
  mdl_status :: u8
  mdl_freed :: bool

text \<open>A message with the dispatcher's data; the module of the sender is named by its id, a completion routine with its argument by a number.\<close>

record phl_dispr_msg_ex =
  mx_status :: u16
  mx_msg :: phl_msg
  mx_premap :: "u8 list"
  mx_postmap :: "u8 list"
  mx_completion :: "nat option"
  mx_module :: "u8 option"

text \<open>\<^verbatim>\<open>notify.id_arr\<close> may be null; \<open>attr_len\<close> is \<^verbatim>\<open>notify.len\<close>.\<close>

record phl_msg_attribute =
  attr_opt :: u8
  attr_id_arr :: "u8 list option"
  attr_len :: u8
  attr_completion :: "nat option"

datatype token_op_type = TOKEN_OP_NONE | TOKEN_OP_ADD_CMD_REQ | TOKEN_OP_FREE_CMD_REQ | TOKEN_OP_CANCEL_CMD_REQ | TOKEN_OP_RENEW_CMD_REQ

record phl_token_op_info =
  op_used :: bool
  op_type :: token_op_type
  op_data :: u8

text \<open>A request: its module, whether all its callbacks are there.\<close>

record phl_cmd_token_req =
  req_module_id :: u8
  req_ops :: bool

record phl_cmd_token_req_ex =
  rq_status :: u8
  rq_req :: phl_cmd_token_req
  rq_add_info :: phl_token_op_info
  rq_free_info :: phl_token_op_info

text \<open>The nodes that can be on the queue of token operations.\<close>

datatype op_node = Add_info nat | Free_info nat | Renew_info

text \<open>What is recorded: calls of modules, of the current request, of completion routines; and messages taken over with a routine.\<close>

datatype dispr_event =
    Ev_msg u8 phl_msg | Ev_req nat phl_msg | Ev_acquired nat | Ev_abort nat | Ev_complete nat phl_msg | Ev_sent nat
  | Ev_mdl_init u8 | Ev_mdl_deinit u8 | Ev_mdl_start u8 | Ev_mdl_stop u8

datatype dispr_call =
    Call_send phl_msg "phl_msg_attribute option" | Call_cancel_msg u32 | Call_clr_pending
  | Call_add_req phl_cmd_token_req | Call_cancel_req u32 | Call_free_token u32 | Call_io_status u8 bool

text \<open>\<^verbatim>\<open>struct cmd_dispatcher\<close>, with the semaphore of the thread, the script and the record.\<close>

record cmd_dispatcher =
  d_status :: u16
  module_q :: "phl_bk_module phl_queue list"
  msg_ex_pool :: "phl_dispr_msg_ex list"
  msg_wait_q :: "nat phl_queue"
  msg_idle_q :: "nat phl_queue"
  msg_pend_q :: "nat phl_queue"
  token_req_ex_pool :: "phl_cmd_token_req_ex list"
  token_req_wait_q :: "nat phl_queue"
  token_req_idle_q :: "nat phl_queue"
  token_op_q :: "op_node phl_queue"
  token_cnt :: int
  cur_cmd_req :: "nat option"
  d_bitmap :: "u8 list"
  d_basemap :: "u8 list"
  pending_evt :: "u8 \<Rightarrow> u16"
  controller :: phl_bk_module
  renew_req_info :: phl_token_op_info
  exclusive_mdl :: u8
  msg_q_sema :: nat
  d_script :: "(phl_mdl_ret_code \<times> dispr_call list) list"
  d_events :: "dispr_event list"

definition upd_ex :: "nat \<Rightarrow> (phl_dispr_msg_ex \<Rightarrow> phl_dispr_msg_ex) \<Rightarrow> cmd_dispatcher \<Rightarrow> cmd_dispatcher" where
  "upd_ex i f obj = obj\<lparr>msg_ex_pool := (msg_ex_pool obj)[i := f (msg_ex_pool obj ! i)]\<rparr>"

definition upd_req :: "nat \<Rightarrow> (phl_cmd_token_req_ex \<Rightarrow> phl_cmd_token_req_ex) \<Rightarrow> cmd_dispatcher \<Rightarrow> cmd_dispatcher" where
  "upd_req i f obj = obj\<lparr>token_req_ex_pool := (token_req_ex_pool obj)[i := f (token_req_ex_pool obj ! i)]\<rparr>"

definition mx_set :: "u16 \<Rightarrow> phl_dispr_msg_ex \<Rightarrow> phl_dispr_msg_ex" where
  "mx_set f ex = ex\<lparr>mx_status := SET_STATUS_FLAG (mx_status ex) f\<rparr>"

definition mx_clear :: "u16 \<Rightarrow> phl_dispr_msg_ex \<Rightarrow> phl_dispr_msg_ex" where
  "mx_clear f ex = ex\<lparr>mx_status := CLEAR_STATUS_FLAG (mx_status ex) f\<rparr>"

definition mx_test :: "cmd_dispatcher \<Rightarrow> nat \<Rightarrow> u16 \<Rightarrow> bool" where
  "mx_test obj i f = TEST_STATUS_FLAG (mx_status (msg_ex_pool obj ! i)) f"

definition mx_indc :: "u8 \<Rightarrow> phl_dispr_msg_ex \<Rightarrow> phl_dispr_msg_ex" where
  "mx_indc f ex = ex\<lparr>mx_msg := (mx_msg ex)\<lparr>msg_id := SET_MSG_INDC_FIELD (msg_id (mx_msg ex)) f\<rparr>\<rparr>"

definition rq_set :: "u8 \<Rightarrow> phl_cmd_token_req_ex \<Rightarrow> phl_cmd_token_req_ex" where
  "rq_set f r = r\<lparr>rq_status := SET_STATUS_FLAG (rq_status r) f\<rparr>"

definition rq_clear :: "u8 \<Rightarrow> phl_cmd_token_req_ex \<Rightarrow> phl_cmd_token_req_ex" where
  "rq_clear f r = r\<lparr>rq_status := CLEAR_STATUS_FLAG (rq_status r) f\<rparr>"

definition rq_test :: "cmd_dispatcher \<Rightarrow> nat \<Rightarrow> u8 \<Rightarrow> bool" where
  "rq_test obj i f = TEST_STATUS_FLAG (rq_status (token_req_ex_pool obj ! i)) f"

definition d_set :: "u16 \<Rightarrow> cmd_dispatcher \<Rightarrow> cmd_dispatcher" where
  "d_set f obj = obj\<lparr>d_status := SET_STATUS_FLAG (d_status obj) f\<rparr>"

definition d_clear :: "u16 \<Rightarrow> cmd_dispatcher \<Rightarrow> cmd_dispatcher" where
  "d_clear f obj = obj\<lparr>d_status := CLEAR_STATUS_FLAG (d_status obj) f\<rparr>"

definition d_test :: "cmd_dispatcher \<Rightarrow> u16 \<Rightarrow> bool" where
  "d_test obj f = TEST_STATUS_FLAG (d_status obj) f"

definition log_event :: "dispr_event \<Rightarrow> cmd_dispatcher \<Rightarrow> cmd_dispatcher" where
  "log_event ev obj = obj\<lparr>d_events := d_events obj @ [ev]\<rparr>"

text \<open>The module and the event of message \<open>i\<close>.\<close>

definition mx_mdl :: "cmd_dispatcher \<Rightarrow> nat \<Rightarrow> u8" where
  "mx_mdl obj i = MSG_MDL_ID_FIELD (msg_id (mx_msg (msg_ex_pool obj ! i)))"

definition mx_evt :: "cmd_dispatcher \<Rightarrow> nat \<Rightarrow> u16" where
  "mx_evt obj i = MSG_EVT_ID_FIELD (msg_id (mx_msg (msg_ex_pool obj ! i)))"

text \<open>The mask of the modules and the base mask lie one after the other: a test of an id above 127 reads the second one.\<close>

definition chk_module :: "cmd_dispatcher \<Rightarrow> u8 \<Rightarrow> bool" where
  "chk_module obj mid = mask_has (d_bitmap obj @ d_basemap obj) mid"

definition notify_bk_thread :: "cmd_dispatcher \<Rightarrow> cmd_dispatcher" where
  "notify_bk_thread obj = obj\<lparr>msg_q_sema := msg_q_sema obj + 1\<rparr>"

section \<open>Queues of messages\<close>

definition get_info :: "cmd_dispatcher \<Rightarrow> op_node \<Rightarrow> phl_token_op_info" where
  "get_info obj node =
     (case node of Add_info i \<Rightarrow> rq_add_info (token_req_ex_pool obj ! i) | Free_info i \<Rightarrow> rq_free_info (token_req_ex_pool obj ! i)
      | Renew_info \<Rightarrow> renew_req_info obj)"

definition set_info :: "op_node \<Rightarrow> phl_token_op_info \<Rightarrow> cmd_dispatcher \<Rightarrow> cmd_dispatcher" where
  "set_info node info obj =
     (case node of
        Add_info i \<Rightarrow> upd_req i (\<lambda>r. r\<lparr>rq_add_info := info\<rparr>) obj
      | Free_info i \<Rightarrow> upd_req i (\<lambda>r. r\<lparr>rq_free_info := info\<rparr>) obj
      | Renew_info \<Rightarrow> obj\<lparr>renew_req_info := info\<rparr>)"

definition push_back_token_op_info :: "cmd_dispatcher \<Rightarrow> op_node \<Rightarrow> token_op_type \<Rightarrow> u8 \<Rightarrow> bool \<times> cmd_dispatcher" where
  "push_back_token_op_info obj node type data =
     (if op_used (get_info obj node) then (False, obj)
      else
        let obj = set_info node \<lparr>op_used = True, op_type = type, op_data = data\<rparr> obj;
            obj = obj\<lparr>token_op_q := snd (pq_push (token_op_q obj) node Pos_tail)\<rparr> in
        (True, notify_bk_thread obj))"

definition on_abort_msg_complete :: "cmd_dispatcher \<Rightarrow> cmd_dispatcher" where
  "on_abort_msg_complete obj =
     snd (push_back_token_op_info (d_clear DISPR_WAIT_ABORT_MSG_DONE obj) Renew_info TOKEN_OP_RENEW_CMD_REQ 0xff)"

definition dispr_pop_front_idle_msg :: "cmd_dispatcher \<Rightarrow> nat option \<times> cmd_dispatcher" where
  "dispr_pop_front_idle_msg obj =
     (case pq_deq (msg_idle_q obj) of
        None \<Rightarrow> (None, obj)
      | Some (i, q) \<Rightarrow>
          (Some i, upd_ex i (\<lambda>ex. \<lparr>mx_status = 0, mx_msg = msg0, mx_premap = replicate MODL_MASK_LEN 0, mx_postmap = replicate MODL_MASK_LEN 0,
                                   mx_completion = None, mx_module = None\<rparr>) (obj\<lparr>msg_idle_q := q\<rparr>)))"

text \<open>The call of the completion routine in \<^verbatim>\<open>push_back_idle_msg\<close>.\<close>

definition msg_complete :: "cmd_dispatcher \<Rightarrow> nat \<Rightarrow> cmd_dispatcher" where
  "msg_complete obj i =
     (case mx_completion (msg_ex_pool obj ! i) of
        None \<Rightarrow> obj
      | Some c \<Rightarrow>
          if mx_test obj i MSG_STATUS_NOTIFY_COMPLETE then
            let obj = (if mx_test obj i MSG_STATUS_CANCEL then upd_ex i (mx_indc MSG_INDC_CANCEL) obj else obj);
                obj = log_event (Ev_complete c (mx_msg (msg_ex_pool obj ! i))) obj in
            upd_ex i (mx_clear MSG_STATUS_NOTIFY_COMPLETE) obj
          else obj)"

definition dispr_push_back_idle_msg :: "cmd_dispatcher \<Rightarrow> nat \<Rightarrow> cmd_dispatcher" where
  "dispr_push_back_idle_msg obj i =
     (let obj = msg_complete obj i;
          obj = (if mx_test obj i MSG_STATUS_FOR_ABORT then on_abort_msg_complete obj else obj);
          obj = upd_ex i (\<lambda>ex. ex\<lparr>mx_status := 0\<rparr>) obj;
          obj = (if pending_evt obj (mx_mdl obj i) = mx_evt obj i
                 then obj\<lparr>pending_evt := (pending_evt obj)(mx_mdl obj i := MSG_EVT_MAX)\<rparr> else obj);
          obj = upd_ex i (\<lambda>ex. ex\<lparr>mx_msg := (mx_msg ex)\<lparr>msg_id := 0\<rparr>\<rparr>) obj in
      obj\<lparr>msg_idle_q := snd (pq_push (msg_idle_q obj) i Pos_tail)\<rparr>)"

definition dispr_pop_front_wait_msg :: "cmd_dispatcher \<Rightarrow> nat option \<times> cmd_dispatcher" where
  "dispr_pop_front_wait_msg obj =
     (case pq_deq (msg_wait_q obj) of
        None \<Rightarrow> (None, obj)
      | Some (i, q) \<Rightarrow>
          (Some i, upd_ex i (mx_clear MSG_STATUS_PENDING \<circ> mx_clear MSG_STATUS_ENQ \<circ> mx_set MSG_STATUS_RUN) (obj\<lparr>msg_wait_q := q\<rparr>)))"

definition dispr_push_back_wait_msg :: "cmd_dispatcher \<Rightarrow> nat \<Rightarrow> cmd_dispatcher" where
  "dispr_push_back_wait_msg obj i =
     (let obj = upd_ex i (mx_clear MSG_STATUS_RUN \<circ> mx_set MSG_STATUS_ENQ) obj in
      notify_bk_thread (obj\<lparr>msg_wait_q := snd (pq_push (msg_wait_q obj) i Pos_tail)\<rparr>))"

definition is_higher_priority :: "cmd_dispatcher \<Rightarrow> nat \<Rightarrow> nat \<Rightarrow> bool" where
  "is_higher_priority obj input i \<longleftrightarrow> IS_DISPR_CTRL (mx_mdl obj input) \<and> \<not> IS_DISPR_CTRL (mx_mdl obj i)"

definition insert_msg_by_priority :: "cmd_dispatcher \<Rightarrow> nat \<Rightarrow> cmd_dispatcher" where
  "insert_msg_by_priority obj i =
     (let obj = upd_ex i (mx_clear MSG_STATUS_RUN \<circ> mx_set MSG_STATUS_ENQ) obj in
      notify_bk_thread (obj\<lparr>msg_wait_q := snd (pq_insert (msg_wait_q obj) (Some (is_higher_priority obj)) i)\<rparr>))"

definition pop_front_pending_msg :: "cmd_dispatcher \<Rightarrow> nat option \<times> cmd_dispatcher" where
  "pop_front_pending_msg obj =
     (case pq_deq (msg_pend_q obj) of None \<Rightarrow> (None, obj) | Some (i, q) \<Rightarrow> (Some i, obj\<lparr>msg_pend_q := q\<rparr>))"

definition push_back_pending_msg :: "cmd_dispatcher \<Rightarrow> nat \<Rightarrow> cmd_dispatcher" where
  "push_back_pending_msg obj i =
     (let obj = upd_ex i (mx_clear MSG_STATUS_RUN \<circ> mx_set MSG_STATUS_ENQ) obj;
          obj = (if mx_test obj i MSG_STATUS_CLR_SNDR_MSG_IF_PENDING
                 then obj\<lparr>pending_evt := (pending_evt obj)(mx_mdl obj i := mx_evt obj i)\<rparr> else obj) in
      obj\<lparr>msg_pend_q := snd (pq_push (msg_pend_q obj) i Pos_tail)\<rparr>)"

lemma pend_q_push_wait [simp]:
  "msg_pend_q (dispr_push_back_wait_msg obj i) = msg_pend_q obj" "msg_pend_q (insert_msg_by_priority obj i) = msg_pend_q obj"
  by (simp_all add: dispr_push_back_wait_msg_def insert_msg_by_priority_def notify_bk_thread_def upd_ex_def Let_def)

lemma pop_front_pending_length:
  "pop_front_pending_msg obj = (Some i, obj') \<Longrightarrow> length (pq_queue (msg_pend_q obj')) < length (pq_queue (msg_pend_q obj))"
  by (auto simp: pop_front_pending_msg_def pq_deq_def pq_pop_def split: option.splits if_splits)

text \<open>The event id is asked here where the module id is meant.\<close>

function clear_pending_loop :: "cmd_dispatcher \<Rightarrow> cmd_dispatcher" where
  "clear_pending_loop obj =
     (case pop_front_pending_msg obj of
        (None, obj) \<Rightarrow> obj
      | (Some i, obj) \<Rightarrow>
          clear_pending_loop (if IS_DISPR_CTRL (mx_evt obj i) then insert_msg_by_priority obj i else dispr_push_back_wait_msg obj i))"
  by pat_completeness auto
termination
  by (relation "measure (\<lambda>obj. length (pq_queue (msg_pend_q obj)))") (auto dest!: pop_front_pending_length [OF sym])

declare clear_pending_loop.simps [simp del]

definition clear_pending_msg :: "cmd_dispatcher \<Rightarrow> cmd_dispatcher" where
  "clear_pending_msg obj =
     (if \<not> d_test obj DISPR_CLR_PEND_MSG then obj else clear_pending_loop (d_clear DISPR_CLR_PEND_MSG obj))"

section \<open>Cancelling, masks\<close>

definition is_special_msg :: "cmd_dispatcher \<Rightarrow> nat \<Rightarrow> bool" where
  "is_special_msg obj i \<longleftrightarrow>
     d_test obj DISPR_CANNOT_IO \<and>
     (exclusive_mdl obj = mx_mdl obj i \<or> mx_evt obj i = MSG_EVT_DEV_CANNOT_IO \<or> mx_evt obj i = MSG_EVT_DEV_RESUME_IO \<or>
      mx_evt obj i = MSG_EVT_PHY_ON \<or> mx_evt obj i = MSG_EVT_PHY_IDLE)"

definition is_msg_canceled :: "cmd_dispatcher \<Rightarrow> nat \<Rightarrow> bool \<times> cmd_dispatcher" where
  "is_msg_canceled obj i =
     (let pend = pending_evt obj (mx_mdl obj i) in
      if \<not> d_test obj DISPR_STARTED \<or> mx_test obj i MSG_STATUS_CANCEL then (True, obj)
      else if pend \<noteq> MSG_EVT_MAX \<and> pend \<noteq> mx_evt obj i then (True, upd_ex i (mx_set MSG_STATUS_CANCEL) obj)
      else if d_test obj DISPR_CANNOT_IO then
        if is_special_msg obj i then (False, upd_ex i (mx_indc MSG_INDC_CANNOT_IO) obj)
        else if \<not> mx_test obj i MSG_STATUS_PENDING_DURING_CANNOT_IO
        then (True, upd_ex i (mx_indc MSG_INDC_CANNOT_IO \<circ> mx_set MSG_STATUS_CANCEL) obj)
        else (False, upd_ex i (mx_set MSG_STATUS_PENDING) obj)
      else (False, obj))"

definition dispr_cancel_ex :: "phl_dispr_msg_ex \<Rightarrow> phl_dispr_msg_ex" where
  "dispr_cancel_ex ex = mx_set MSG_STATUS_CANCEL (ex\<lparr>mx_premap := replicate MODL_MASK_LEN 0, mx_postmap := replicate MODL_MASK_LEN 0\<rparr>)"

definition cancel_msg :: "cmd_dispatcher \<Rightarrow> nat \<Rightarrow> cmd_dispatcher" where
  "cancel_msg obj i = upd_ex i dispr_cancel_ex obj"

definition cancel_running_msg :: "cmd_dispatcher \<Rightarrow> cmd_dispatcher" where
  "cancel_running_msg obj =
     foldl (\<lambda>obj i. if mx_test obj i MSG_STATUS_RUN then cancel_msg obj i else obj) obj [0 ..< MAX_PHL_MSG_NUM]"

text \<open>A write behind the end of a mask has no result.\<close>

definition set_maps :: "nat \<Rightarrow> (u8 list \<Rightarrow> u8 list option) \<Rightarrow> cmd_dispatcher \<Rightarrow> cmd_dispatcher option" where
  "set_maps i f obj =
     do {
       pre \<leftarrow> f (mx_premap (msg_ex_pool obj ! i));
       post \<leftarrow> f (mx_postmap (msg_ex_pool obj ! i));
       Some (upd_ex i (\<lambda>ex. ex\<lparr>mx_premap := pre, mx_postmap := post\<rparr>) obj)
     }"

definition set_msg_bitmap :: "cmd_dispatcher \<Rightarrow> nat \<Rightarrow> u8 \<Rightarrow> cmd_dispatcher option" where
  "set_msg_bitmap obj i mid =
     do {
       obj \<leftarrow> set_maps i (\<lambda>_. Some (d_bitmap obj)) obj;
       if chk_module obj mid then set_maps i (\<lambda>m. add_bitmap_bit m [mid]) obj else Some obj
     }"

definition set_msg_custom_bitmap :: "cmd_dispatcher \<Rightarrow> nat \<Rightarrow> u8 \<Rightarrow> u8 list \<Rightarrow> u8 \<Rightarrow> cmd_dispatcher option" where
  "set_msg_custom_bitmap obj i opt id_arr mid =
     do {
       obj \<leftarrow> if opt AND MSG_OPT_SKIP_NOTIFY_OPT_MDL \<noteq> 0 then set_maps i (\<lambda>_. Some (d_basemap obj)) obj else Some obj;
       obj \<leftarrow> if opt AND MSG_OPT_BLIST_PRESENT \<noteq> 0 then set_maps i (\<lambda>m. clr_bitmap_bit m id_arr) obj
              else set_maps i (\<lambda>m. add_bitmap_bit m id_arr) obj;
       if chk_module obj mid then set_maps i (\<lambda>m. add_bitmap_bit m [mid]) obj else Some obj
     }"

text \<open>\<^verbatim>\<open>get_msg_bitmap\<close>: whether the mask of the first phase is the current one, and the message marked with the phase.\<close>

definition get_msg_bitmap :: "cmd_dispatcher \<Rightarrow> nat \<Rightarrow> bool \<times> cmd_dispatcher" where
  "get_msg_bitmap obj i =
     (if mx_test obj i MSG_STATUS_PRE_PHASE then (True, upd_ex i (mx_indc MSG_INDC_PRE_PHASE) obj)
      else (False, upd_ex i (\<lambda>ex. ex\<lparr>mx_msg := (mx_msg ex)\<lparr>msg_id := CLEAR_MSG_INDC_FIELD (msg_id (mx_msg ex)) MSG_INDC_PRE_PHASE\<rparr>\<rparr>) obj))"

definition phase_map :: "bool \<Rightarrow> phl_dispr_msg_ex \<Rightarrow> u8 list" where
  "phase_map pre ex = (if pre then mx_premap ex else mx_postmap ex)"

definition is_bitmap_empty :: "u8 list \<Rightarrow> bool" where
  "is_bitmap_empty bm \<longleftrightarrow> bm = replicate MODL_MASK_LEN 0"

section \<open>Queues of requests\<close>

definition op_info0 :: phl_token_op_info where
  "op_info0 = \<lparr>op_used = False, op_type = TOKEN_OP_NONE, op_data = 0\<rparr>"

definition pop_front_idle_req :: "cmd_dispatcher \<Rightarrow> nat option \<times> cmd_dispatcher" where
  "pop_front_idle_req obj =
     (case pq_deq (token_req_idle_q obj) of
        None \<Rightarrow> (None, obj)
      | Some (i, q) \<Rightarrow>
          (Some i, upd_req i (\<lambda>_. \<lparr>rq_status = 0, rq_req = \<lparr>req_module_id = 0, req_ops = False\<rparr>, rq_add_info = op_info0, rq_free_info = op_info0\<rparr>)
             (obj\<lparr>token_req_idle_q := q\<rparr>)))"

definition push_back_idle_req :: "cmd_dispatcher \<Rightarrow> nat \<Rightarrow> cmd_dispatcher" where
  "push_back_idle_req obj i =
     (let obj = upd_req i (\<lambda>r. r\<lparr>rq_status := 0\<rparr>) obj;
          obj = obj\<lparr>pending_evt := (pending_evt obj)(req_module_id (rq_req (token_req_ex_pool obj ! i)) := MSG_EVT_MAX)\<rparr> in
      obj\<lparr>token_req_idle_q := snd (pq_push (token_req_idle_q obj) i Pos_tail)\<rparr>)"

definition pop_front_wait_req :: "cmd_dispatcher \<Rightarrow> nat option \<times> cmd_dispatcher" where
  "pop_front_wait_req obj =
     (case pq_deq (token_req_wait_q obj) of
        None \<Rightarrow> (None, obj)
      | Some (i, q) \<Rightarrow> (Some i, upd_req i (rq_clear REQ_STATUS_ENQ \<circ> rq_set REQ_STATUS_PREPARE) (obj\<lparr>token_req_wait_q := q\<rparr>)))"

definition push_back_wait_req :: "cmd_dispatcher \<Rightarrow> nat \<Rightarrow> cmd_dispatcher" where
  "push_back_wait_req obj i =
     upd_req i (rq_set REQ_STATUS_ENQ) (obj\<lparr>token_req_wait_q := snd (pq_push (token_req_wait_q obj) i Pos_tail)\<rparr>)"

section \<open>The interface for modules and requests\<close>

text \<open>Module and status of the current request.\<close>

definition get_cur_cmd_req_id :: "cmd_dispatcher \<Rightarrow> u8 \<times> u8" where
  "get_cur_cmd_req_id obj =
     (case cur_cmd_req obj of
        None \<Rightarrow> (PHL_MDL_ID_MAX, 0)
      | Some r \<Rightarrow>
          (if \<not> rq_test obj r REQ_STATUS_RUN \<or> rq_test obj r REQ_STATUS_CANCEL then PHL_MDL_ID_MAX
           else req_module_id (rq_req (token_req_ex_pool obj ! r)), rq_status (token_req_ex_pool obj ! r)))"

definition get_module_by_id :: "cmd_dispatcher \<Rightarrow> u8 \<Rightarrow> u8 option" where
  "get_module_by_id obj mid =
     (if IS_DISPR_CTRL mid then if d_test obj DISPR_CTRL_PRESENT then Some (mdl_id (controller obj)) else None
      else if \<not> chk_module obj mid then None
      else if list_ex (\<lambda>q. list_ex (\<lambda>m. mdl_id m = mid) (pq_queue q)) (module_q obj) then Some mid else None)"

definition GEN_VALID_HDL :: "nat \<Rightarrow> u32" where
  "GEN_VALID_HDL i = BIT 31 OR of_nat i"

definition IS_HDL_VALID :: "u32 \<Rightarrow> bool" where
  "IS_HDL_VALID hdl \<longleftrightarrow> hdl AND BIT 31 \<noteq> 0"

definition GET_IDX_FROM_HDL :: "u32 \<Rightarrow> nat" where
  "GET_IDX_FROM_HDL hdl = unat (hdl AND 0xFF)"

text \<open>The options of a message, as \<^verbatim>\<open>dispr_send_msg\<close> applies them.\<close>

definition send_attr :: "cmd_dispatcher \<Rightarrow> nat \<Rightarrow> phl_msg_attribute \<Rightarrow> u8 \<Rightarrow> cmd_dispatcher option" where
  "send_attr obj i attr mid =
     do {
       obj \<leftarrow> set_msg_custom_bitmap obj i (attr_opt attr)
                (case attr_id_arr attr of None \<Rightarrow> [] | Some arr \<Rightarrow> take (unat (attr_len attr)) arr) mid;
       let obj = (case attr_completion attr of
                    None \<Rightarrow> obj
                  | Some c \<Rightarrow> log_event (Ev_sent c) (upd_ex i (\<lambda>ex. (mx_set MSG_STATUS_NOTIFY_COMPLETE ex)\<lparr>mx_completion := Some c\<rparr>) obj));
       let obj = (if TEST_STATUS_FLAG (attr_opt attr) MSG_OPT_CLR_SNDR_MSG_IF_PENDING
                  then upd_ex i (mx_set MSG_STATUS_CLR_SNDR_MSG_IF_PENDING) obj else obj);
       Some (if TEST_STATUS_FLAG (attr_opt attr) MSG_OPT_PENDING_DURING_CANNOT_IO
             then upd_ex i (mx_set MSG_STATUS_PENDING_DURING_CANNOT_IO) obj else obj)
     }"

text \<open>The sender of a message: the current request or a module.\<close>

definition send_owner :: "cmd_dispatcher \<Rightarrow> nat \<Rightarrow> u8 \<Rightarrow> u8 \<Rightarrow> cmd_dispatcher" where
  "send_owner obj i mid cur_req_id =
     (if cur_req_id = mid then upd_ex i (mx_set MSG_STATUS_OWNER_REQ) obj
      else case get_module_by_id obj mid of
             None \<Rightarrow> obj
           | Some m \<Rightarrow> upd_ex i (\<lambda>ex. (mx_set MSG_STATUS_OWNER_BK_MDL ex)\<lparr>mx_module := Some m\<rparr>) obj)"

text \<open>Whether a module that is neither the controller nor in the mask may not send now.\<close>

definition send_refused :: "cmd_dispatcher \<Rightarrow> u8 \<Rightarrow> u8 \<Rightarrow> u8 \<Rightarrow> bool" where
  "send_refused obj mid cur_req_id req_status \<longleftrightarrow>
     \<not> IS_DISPR_CTRL mid \<and> \<not> chk_module obj mid \<and>
     (cur_req_id \<noteq> PHL_MDL_ID_MAX \<and> cur_req_id \<noteq> mid \<or> cur_req_id = PHL_MDL_ID_MAX \<and> req_status = 0 \<or>
      cur_req_id = PHL_MDL_ID_MAX \<and> \<not> TEST_STATUS_FLAG req_status REQ_STATUS_LAST_PERMIT)"

text \<open>The last part: refused in the abort of a request, or queued.\<close>

definition send_queue ::
  "cmd_dispatcher \<Rightarrow> nat \<Rightarrow> phl_msg_attribute option \<Rightarrow> u8 \<Rightarrow> u8 \<Rightarrow> rtw_phl_status \<times> u32 \<times> cmd_dispatcher" where
  "send_queue obj i attr mid req_status =
     (if mx_test obj i MSG_STATUS_OWNER_REQ \<and> TEST_STATUS_FLAG req_status REQ_STATUS_LAST_PERMIT \<and>
         (case attr of None \<Rightarrow> True | Some a \<Rightarrow> \<not> TEST_STATUS_FLAG (attr_opt a) MSG_OPT_SEND_IN_ABORT)
      then (RTW_PHL_STATUS_FAILURE, 0, dispr_push_back_idle_msg (upd_ex i (mx_indc MSG_INDC_FAIL) obj) i)
      else
        let obj = (if mx_test obj i MSG_STATUS_OWNER_REQ \<and> TEST_STATUS_FLAG req_status REQ_STATUS_LAST_PERMIT
                   then d_set DISPR_WAIT_ABORT_MSG_DONE (upd_ex i (mx_set MSG_STATUS_FOR_ABORT) obj) else obj);
            obj = upd_ex i (mx_set MSG_STATUS_PRE_PHASE) obj;
            obj = (if IS_DISPR_CTRL mid then insert_msg_by_priority obj i else dispr_push_back_wait_msg obj i) in
        (RTW_PHL_STATUS_SUCCESS, GEN_VALID_HDL i, obj))"

text \<open>\<^verbatim>\<open>dispr_send_msg\<close>: status, handle and dispatcher. The handle is written on success, and cleared when a message of an abort is refused.\<close>

definition dispr_send_msg ::
  "cmd_dispatcher \<Rightarrow> phl_msg \<Rightarrow> phl_msg_attribute option \<Rightarrow> (rtw_phl_status \<times> u32 \<times> cmd_dispatcher) option" where
  "dispr_send_msg obj msg attr =
     (let mid = MSG_MDL_ID_FIELD (msg_id msg); (cur_req_id, req_status) = get_cur_cmd_req_id obj in
      if \<not> d_test obj DISPR_STARTED then Some (RTW_PHL_STATUS_UNEXPECTED_ERROR, 0, obj)
      else if (case attr of None \<Rightarrow> False | Some a \<Rightarrow> attr_id_arr a = None \<and> attr_len a \<noteq> 0)
      then Some (RTW_PHL_STATUS_INVALID_PARAM, 0, obj)
      else if send_refused obj mid cur_req_id req_status then Some (RTW_PHL_STATUS_INVALID_PARAM, 0, obj)
      else case dispr_pop_front_idle_msg obj of
             (None, obj) \<Rightarrow> Some (RTW_PHL_STATUS_RESOURCE, 0, obj)
           | (Some i, obj) \<Rightarrow>
               do {
                 obj \<leftarrow> set_msg_bitmap (upd_ex i (\<lambda>ex. ex\<lparr>mx_msg := msg\<rparr>) obj) i mid;
                 obj \<leftarrow> case attr of None \<Rightarrow> Some obj | Some a \<Rightarrow> send_attr obj i a mid;
                 Some (send_queue (send_owner obj i mid cur_req_id) i attr mid req_status)
               })"

definition dispr_cancel_msg :: "cmd_dispatcher \<Rightarrow> u32 \<Rightarrow> rtw_phl_status \<times> cmd_dispatcher" where
  "dispr_cancel_msg obj hdl =
     (if \<not> d_test obj DISPR_STARTED then (RTW_PHL_STATUS_UNEXPECTED_ERROR, obj)
      else if \<not> IS_HDL_VALID hdl \<or> GET_IDX_FROM_HDL hdl \<ge> MAX_PHL_MSG_NUM then (RTW_PHL_STATUS_FAILURE, obj)
      else
        let i = GET_IDX_FROM_HDL hdl in
        if \<not> mx_test obj i MSG_STATUS_ENQ \<and> \<not> mx_test obj i MSG_STATUS_RUN then (RTW_PHL_STATUS_FAILURE, obj)
        else (RTW_PHL_STATUS_SUCCESS, cancel_msg obj i))"

definition dispr_clr_pending_msg :: "cmd_dispatcher \<Rightarrow> cmd_dispatcher" where
  "dispr_clr_pending_msg obj = notify_bk_thread (d_set DISPR_CLR_PEND_MSG obj)"

definition chk_cmd_req_ops :: "phl_cmd_token_req \<Rightarrow> bool" where
  "chk_cmd_req_ops req \<longleftrightarrow> \<not> req_module_id req < PHL_FG_MDL_START \<and> req_ops req"

text \<open>
  A token operation is linked into its queue through its request. \<open>None\<close>: a request that is taken is cleared with an
  operation of it still linked, or an operation is linked a second time.
\<close>

definition is_linked :: "cmd_dispatcher \<Rightarrow> op_node \<Rightarrow> bool" where
  "is_linked obj node \<longleftrightarrow> node \<in> set (pq_queue (token_op_q obj))"

definition dispr_add_token_req :: "cmd_dispatcher \<Rightarrow> phl_cmd_token_req \<Rightarrow> (rtw_phl_status \<times> u32 \<times> cmd_dispatcher) option" where
  "dispr_add_token_req obj req =
     (if \<not> d_test obj DISPR_STARTED \<or> \<not> chk_cmd_req_ops req then Some (RTW_PHL_STATUS_UNEXPECTED_ERROR, 0, obj)
      else case pop_front_idle_req obj of
             (None, obj) \<Rightarrow> Some (RTW_PHL_STATUS_RESOURCE, 0, obj)
           | (Some i, obj) \<Rightarrow>
               if is_linked obj (Add_info i) \<or> is_linked obj (Free_info i) then None
               else
                 let obj = push_back_wait_req (upd_req i (\<lambda>r. r\<lparr>rq_req := req\<rparr>) obj) i;
                     stat = (if \<not> fst (pq_get_front (token_op_q obj)) \<and> token_cnt obj = 0 then RTW_PHL_STATUS_SUCCESS
                             else RTW_PHL_STATUS_PENDING);
                     obj = snd (push_back_token_op_info obj (Add_info i) TOKEN_OP_ADD_CMD_REQ (of_nat i)) in
                 Some (stat, GEN_VALID_HDL i, obj))"

text \<open>The end of \<^verbatim>\<open>dispr_cancel_token_req\<close> and \<^verbatim>\<open>dispr_free_token\<close>.\<close>

definition push_free_info :: "cmd_dispatcher \<Rightarrow> nat \<Rightarrow> token_op_type \<Rightarrow> (rtw_phl_status \<times> cmd_dispatcher) option" where
  "push_free_info obj i type =
     (let obj = upd_req i (rq_set REQ_STATUS_CANCEL) obj in
      if \<not> op_used (get_info obj (Free_info i)) \<and> is_linked obj (Free_info i) then None
      else
        let (ok, obj) = push_back_token_op_info obj (Free_info i) type (of_nat i) in
        Some (if ok then RTW_PHL_STATUS_SUCCESS else RTW_PHL_STATUS_FAILURE, obj))"

definition dispr_cancel_token_req :: "cmd_dispatcher \<Rightarrow> u32 \<Rightarrow> (rtw_phl_status \<times> cmd_dispatcher) option" where
  "dispr_cancel_token_req obj hdl =
     (if \<not> d_test obj DISPR_STARTED then Some (RTW_PHL_STATUS_UNEXPECTED_ERROR, obj)
      else if \<not> IS_HDL_VALID hdl \<or> GET_IDX_FROM_HDL hdl \<ge> MAX_CMD_REQ_NUM then Some (RTW_PHL_STATUS_FAILURE, obj)
      else
        let i = GET_IDX_FROM_HDL hdl in
        if \<not> rq_test obj i REQ_STATUS_ENQ \<and> \<not> rq_test obj i REQ_STATUS_RUN \<and> \<not> rq_test obj i REQ_STATUS_PREPARE
        then Some (RTW_PHL_STATUS_FAILURE, obj)
        else push_free_info obj i TOKEN_OP_CANCEL_CMD_REQ)"

definition dispr_free_token :: "cmd_dispatcher \<Rightarrow> u32 \<Rightarrow> (rtw_phl_status \<times> cmd_dispatcher) option" where
  "dispr_free_token obj hdl =
     (if \<not> d_test obj DISPR_STARTED then Some (RTW_PHL_STATUS_UNEXPECTED_ERROR, obj)
      else if cur_cmd_req obj = None \<or> token_cnt obj = 0 \<or> \<not> IS_HDL_VALID hdl \<or> GET_IDX_FROM_HDL hdl \<ge> MAX_CMD_REQ_NUM
      then Some (RTW_PHL_STATUS_FAILURE, obj)
      else
        let i = GET_IDX_FROM_HDL hdl in
        if \<not> rq_test obj i REQ_STATUS_RUN \<and> \<not> rq_test obj i REQ_STATUS_PREPARE then Some (RTW_PHL_STATUS_FAILURE, obj)
        else push_free_info obj i TOKEN_OP_FREE_CMD_REQ)"

text \<open>Messages of the dispatcher itself.\<close>

definition bk_msg :: "u8 \<Rightarrow> u16 \<Rightarrow> phl_msg" where
  "bk_msg mid evt = msg0\<lparr>msg_id := push_bit 16 (ucast mid) OR ucast evt\<rparr>"

definition attr0 :: phl_msg_attribute where
  "attr0 = \<lparr>attr_opt = 0, attr_id_arr = None, attr_len = 0, attr_completion = None\<rparr>"

definition send_bk_msg_phy_on :: "cmd_dispatcher \<Rightarrow> cmd_dispatcher option" where
  "send_bk_msg_phy_on obj = map_option (snd \<circ> snd) (dispr_send_msg obj (bk_msg PHL_MDL_POWER_MGNT MSG_EVT_PHY_ON) (Some attr0))"

definition send_bk_msg_phy_idle :: "cmd_dispatcher \<Rightarrow> cmd_dispatcher option" where
  "send_bk_msg_phy_idle obj = map_option (snd \<circ> snd) (dispr_send_msg obj (bk_msg PHL_MDL_POWER_MGNT MSG_EVT_PHY_IDLE) (Some attr0))"

definition send_dev_io_status_change :: "cmd_dispatcher \<Rightarrow> bool \<Rightarrow> (rtw_phl_status \<times> u32 \<times> cmd_dispatcher) option" where
  "send_dev_io_status_change obj allow_io =
     dispr_send_msg obj (bk_msg PHL_MDL_PHY_MGNT (if allow_io then MSG_EVT_DEV_RESUME_IO else MSG_EVT_DEV_CANNOT_IO)) (Some attr0)"

definition dispr_notify_dev_io_status :: "cmd_dispatcher \<Rightarrow> u8 \<Rightarrow> bool \<Rightarrow> (rtw_phl_status \<times> cmd_dispatcher) option" where
  "dispr_notify_dev_io_status obj mid allow_io =
     (if \<not> allow_io then
        if \<not> d_test obj DISPR_CANNOT_IO
        then map_option (\<lambda>(sts, _, obj). (sts, obj))
               (send_dev_io_status_change ((d_set DISPR_CANNOT_IO obj)\<lparr>exclusive_mdl := mid\<rparr>) allow_io)
        else Some (RTW_PHL_STATUS_SUCCESS, obj)
      else if d_test obj DISPR_CANNOT_IO
      then map_option (\<lambda>(sts, _, obj). (sts, dispr_clr_pending_msg obj))
             (send_dev_io_status_change ((d_clear DISPR_CANNOT_IO obj)\<lparr>exclusive_mdl := PHL_MDL_ID_MAX\<rparr>) allow_io)
      else Some (RTW_PHL_STATUS_SUCCESS, obj))"

section \<open>Calls out of the dispatcher\<close>

fun run_call :: "dispr_call \<Rightarrow> cmd_dispatcher \<Rightarrow> cmd_dispatcher option" where
  "run_call (Call_send msg attr) obj = map_option (snd \<circ> snd) (dispr_send_msg obj msg attr)"
| "run_call (Call_cancel_msg hdl) obj = Some (snd (dispr_cancel_msg obj hdl))"
| "run_call Call_clr_pending obj = Some (dispr_clr_pending_msg obj)"
| "run_call (Call_add_req req) obj = map_option (snd \<circ> snd) (dispr_add_token_req obj req)"
| "run_call (Call_cancel_req hdl) obj = map_option snd (dispr_cancel_token_req obj hdl)"
| "run_call (Call_free_token hdl) obj = map_option snd (dispr_free_token obj hdl)"
| "run_call (Call_io_status mid allow_io) obj = map_option snd (dispr_notify_dev_io_status obj mid allow_io)"

fun run_calls :: "dispr_call list \<Rightarrow> cmd_dispatcher \<Rightarrow> cmd_dispatcher option" where
  "run_calls [] obj = Some obj"
| "run_calls (c # cs) obj = do { obj \<leftarrow> run_call c obj; run_calls cs obj }"

definition callback :: "dispr_event \<Rightarrow> cmd_dispatcher \<Rightarrow> (phl_mdl_ret_code \<times> cmd_dispatcher) option" where
  "callback ev obj =
     (case d_script obj of
        [] \<Rightarrow> None
      | (ret, cs) # rest \<Rightarrow> do { obj \<leftarrow> run_calls cs (log_event ev (obj\<lparr>d_script := rest\<rparr>)); Some (ret, obj) })"

section \<open>The token\<close>

text \<open>One round of the loop of \<^verbatim>\<open>deregister_cur_cmd_req\<close> over the messages.\<close>

definition cancel_req_msg :: "u8 \<Rightarrow> cmd_dispatcher \<Rightarrow> nat \<Rightarrow> cmd_dispatcher" where
  "cancel_req_msg mid obj i =
     (if mid \<noteq> mx_mdl obj i then obj
      else
        let obj = cancel_msg (upd_ex i (mx_clear MSG_STATUS_OWNER_REQ) obj) i in
        if mx_test obj i MSG_STATUS_PENDING then clear_pending_msg (dispr_clr_pending_msg obj) else obj)"

definition deregister_cur_cmd_req :: "cmd_dispatcher \<Rightarrow> bool \<Rightarrow> cmd_dispatcher option" where
  "deregister_cur_cmd_req obj notify =
     (case cur_cmd_req obj of
        None \<Rightarrow> Some obj
      | Some r \<Rightarrow>
          do {
            let obj = upd_req r (rq_clear REQ_STATUS_RUN) obj;
            let obj = foldl (cancel_req_msg (req_module_id (rq_req (token_req_ex_pool obj ! r)))) obj [0 ..< MAX_PHL_MSG_NUM];
            obj \<leftarrow> if notify then
                     do {
                       (ret, obj) \<leftarrow> callback (Ev_abort r) (upd_req r (rq_set REQ_STATUS_LAST_PERMIT) obj);
                       Some (upd_req r (rq_clear REQ_STATUS_LAST_PERMIT) obj)
                     }
                   else Some obj;
            let obj = push_back_idle_req obj r;
            Some (obj\<lparr>token_cnt := token_cnt obj - 1, cur_cmd_req := None\<rparr>)
          })"

definition register_cur_cmd_req :: "cmd_dispatcher \<Rightarrow> nat \<Rightarrow> (bool \<times> cmd_dispatcher) option" where
  "register_cur_cmd_req obj r =
     do {
       let obj = upd_req r (rq_clear REQ_STATUS_PREPARE \<circ> rq_set REQ_STATUS_RUN) obj;
       (ret, obj) \<leftarrow> callback (Ev_acquired r) (obj\<lparr>cur_cmd_req := Some r, token_cnt := token_cnt obj + 1\<rparr>);
       if ret = MDL_RET_FAIL then map_option (\<lambda>obj. (False, obj)) (deregister_cur_cmd_req obj False) else Some (True, obj)
     }"

definition cancel_all_cmd_req :: "cmd_dispatcher \<Rightarrow> cmd_dispatcher" where
  "cancel_all_cmd_req obj =
     obj\<lparr>token_req_ex_pool := map (\<lambda>r. if rq_status r \<noteq> 0 then rq_set REQ_STATUS_CANCEL r else r) (token_req_ex_pool obj)\<rparr>"

text \<open>The loop of \<^verbatim>\<open>dispr_process_token_req\<close>.\<close>

partial_function (option) process_token_loop :: "cmd_dispatcher \<Rightarrow> cmd_dispatcher option" where
  "process_token_loop obj =
     (case pop_front_wait_req obj of
        (None, obj) \<Rightarrow>
          if d_test obj DISPR_NOTIFY_IDLE then Some obj else send_bk_msg_phy_idle (d_set DISPR_NOTIFY_IDLE obj)
      | (Some r, obj) \<Rightarrow>
          do {
            obj \<leftarrow> if d_test obj DISPR_NOTIFY_IDLE then send_bk_msg_phy_on (d_clear DISPR_NOTIFY_IDLE obj) else Some obj;
            (ok, obj) \<leftarrow> register_cur_cmd_req obj r;
            if ok then Some obj else process_token_loop obj
          })"

definition dispr_process_token_req :: "cmd_dispatcher \<Rightarrow> cmd_dispatcher option" where
  "dispr_process_token_req obj =
     (if \<not> d_test obj DISPR_STARTED \<or> token_cnt obj > 0 \<or> d_test obj DISPR_WAIT_ABORT_MSG_DONE then Some obj
      else process_token_loop obj)"

definition handle_token_op_info :: "cmd_dispatcher \<Rightarrow> op_node \<Rightarrow> cmd_dispatcher option" where
  "handle_token_op_info obj node =
     (let info = get_info obj node; r = unat (op_data info) in
      case op_type info of
        TOKEN_OP_RENEW_CMD_REQ \<Rightarrow> dispr_process_token_req obj
      | TOKEN_OP_ADD_CMD_REQ \<Rightarrow> dispr_process_token_req obj
      | TOKEN_OP_FREE_CMD_REQ \<Rightarrow>
          if r \<ge> MAX_CMD_REQ_NUM \<or> \<not> rq_test obj r REQ_STATUS_RUN then Some obj
          else do { obj \<leftarrow> deregister_cur_cmd_req obj False; dispr_process_token_req obj }
      | TOKEN_OP_CANCEL_CMD_REQ \<Rightarrow>
          if r \<ge> MAX_CMD_REQ_NUM then Some obj
          else if rq_test obj r REQ_STATUS_ENQ then
            do {
              (ret, obj) \<leftarrow> callback (Ev_abort r) (obj\<lparr>token_req_wait_q := pq_del_node (token_req_wait_q obj) (Some r)\<rparr>);
              Some (push_back_idle_req obj r)
            }
          else if rq_test obj r REQ_STATUS_RUN then do { obj \<leftarrow> deregister_cur_cmd_req obj True; dispr_process_token_req obj }
          else Some obj
      | TOKEN_OP_NONE \<Rightarrow> Some obj)"

partial_function (option) token_op_hanler :: "cmd_dispatcher \<Rightarrow> cmd_dispatcher option" where
  "token_op_hanler obj =
     (case pq_deq (token_op_q obj) of
        None \<Rightarrow> Some obj
      | Some (node, q) \<Rightarrow>
          do {
            obj \<leftarrow> handle_token_op_info (obj\<lparr>token_op_q := q\<rparr>) node;
            token_op_hanler (set_info node ((get_info obj node)\<lparr>op_used := False\<rparr>) obj)
          })"

section \<open>Dispatching\<close>

definition cur_req_hdl :: "cmd_dispatcher \<Rightarrow> nat \<Rightarrow> cmd_dispatcher option" where
  "cur_req_hdl obj i =
     (case cur_cmd_req obj of
        None \<Rightarrow> Some obj
      | Some r \<Rightarrow>
          if \<not> rq_test obj r REQ_STATUS_RUN \<or> rq_test obj r REQ_STATUS_CANCEL \<or> mx_test obj i MSG_STATUS_FOR_ABORT then Some obj
          else map_option snd (callback (Ev_req r (mx_msg (msg_ex_pool obj ! i))) obj))"

definition notify_msg_fail :: "cmd_dispatcher \<Rightarrow> nat \<Rightarrow> phl_mdl_ret_code \<Rightarrow> cmd_dispatcher option" where
  "notify_msg_fail obj i ret =
     do {
       let obj = upd_ex i (mx_indc MSG_INDC_FAIL \<circ> mx_set MSG_STATUS_FAIL) obj;
       let obj = (if ret = MDL_RET_CANNOT_IO then upd_ex i (mx_indc MSG_INDC_CANNOT_IO) obj else obj);
       obj \<leftarrow> case mx_module (msg_ex_pool obj ! i) of
                None \<Rightarrow> Some obj
              | Some m \<Rightarrow>
                  if mx_test obj i MSG_STATUS_OWNER_BK_MDL \<and> (IS_DISPR_CTRL (mx_mdl obj i) \<or> chk_module obj m)
                  then map_option snd (callback (Ev_msg m (mx_msg (msg_ex_pool obj ! i))) obj) else Some obj;
       if mx_test obj i MSG_STATUS_OWNER_REQ then cur_req_hdl obj i else Some obj
     }"

text \<open>The module that failed is put into the first reserved word of the message.\<close>

definition feed_mdl_msg :: "cmd_dispatcher \<Rightarrow> u8 \<Rightarrow> nat \<Rightarrow> (phl_mdl_ret_code \<times> cmd_dispatcher) option" where
  "feed_mdl_msg obj m i =
     do {
       (ret, obj) \<leftarrow> callback (Ev_msg m (mx_msg (msg_ex_pool obj ! i))) obj;
       obj \<leftarrow> if ret = MDL_RET_FAIL \<or> ret = MDL_RET_CANNOT_IO then
                notify_msg_fail (upd_ex i (\<lambda>ex. ex\<lparr>mx_msg := (mx_msg ex)\<lparr>msg_rsvd := (msg_rsvd (mx_msg ex))[0 := unat m]\<rparr>\<rparr>) obj) i ret
              else if ret = MDL_RET_PENDING then Some (upd_ex i (mx_set MSG_STATUS_PENDING) obj)
              else Some (upd_ex i (\<lambda>ex. if MSG_INDC_FIELD (msg_id (mx_msg ex)) AND MSG_INDC_PRE_PHASE \<noteq> 0
                                        then ex\<lparr>mx_premap := clr_bit (mx_premap ex) m\<rparr>
                                        else ex\<lparr>mx_postmap := clr_bit (mx_postmap ex) m\<rparr>) obj);
       Some (ret, obj)
     }"

text \<open>The walk along one queue of modules: whether the dispatching is to stop.\<close>

fun feed_mdls :: "bool \<Rightarrow> phl_bk_module list \<Rightarrow> nat \<Rightarrow> cmd_dispatcher \<Rightarrow> (bool \<times> cmd_dispatcher) option" where
  "feed_mdls pre [] i obj = Some (False, obj)"
| "feed_mdls pre (m # ms) i obj =
     (if \<not> mask_has (phase_map pre (msg_ex_pool obj ! i)) (mdl_id m) \<or> \<not> TEST_STATUS_FLAG (mdl_status m) MDL_STARTED
      then feed_mdls pre ms i obj
      else do {
        (ret, obj) \<leftarrow> feed_mdl_msg obj (mdl_id m) i;
        if STOP_DISPATCH_MSG ret then Some (True, obj) else feed_mdls pre ms i obj
      })"

text \<open>The sender of a message and its priority.\<close>

definition owner_id :: "phl_dispr_msg_ex \<Rightarrow> u8" where
  "owner_id ex = (case mx_module ex of None \<Rightarrow> PHL_MDL_ID_MAX | Some m \<Rightarrow> m)"

definition owner_priority :: "phl_dispr_msg_ex \<Rightarrow> nat" where
  "owner_priority ex = (if owner_id ex \<le> 128 then get_mdl_priority (owner_id ex) else PHL_MDL_PRI_MAX)"

text \<open>The loop over the priorities; the first phase walks the queues forwards, the second backwards.\<close>

fun phase_loop :: "bool \<Rightarrow> nat \<Rightarrow> nat list \<Rightarrow> nat \<Rightarrow> cmd_dispatcher \<Rightarrow> cmd_dispatcher option" where
  "phase_loop pre pri [] i obj = Some obj"
| "phase_loop pre pri (p # ps) i obj =
     do {
       let owner = owner_id (msg_ex_pool obj ! i);
       (stop, obj) \<leftarrow> if pri = p \<and> mask_has (phase_map pre (msg_ex_pool obj ! i)) owner
                      then map_option (\<lambda>(ret, obj). (STOP_DISPATCH_MSG ret, obj)) (feed_mdl_msg obj owner i)
                      else Some (False, obj);
       if stop then Some obj
       else do {
         (stop, obj) \<leftarrow> feed_mdls pre (if pre then pq_queue (module_q obj ! p) else rev (pq_queue (module_q obj ! p))) i obj;
         if stop then Some obj else phase_loop pre pri ps i obj
       }
     }"

definition msg_pre_phase_hdl :: "cmd_dispatcher \<Rightarrow> nat \<Rightarrow> cmd_dispatcher option" where
  "msg_pre_phase_hdl obj i = phase_loop True (owner_priority (msg_ex_pool obj ! i)) [2, 1, 0] i obj"

definition msg_post_phase_hdl :: "cmd_dispatcher \<Rightarrow> nat \<Rightarrow> cmd_dispatcher option" where
  "msg_post_phase_hdl obj i = phase_loop False (owner_priority (msg_ex_pool obj ! i)) [0, 1, 2] i obj"

definition notify_dispr_controller :: "cmd_dispatcher \<Rightarrow> nat \<Rightarrow> cmd_dispatcher option" where
  "notify_dispr_controller obj i =
     (if \<not> d_test obj DISPR_CTRL_PRESENT then Some obj else map_option snd (feed_mdl_msg obj (mdl_id (controller obj)) i))"

text \<open>\<^verbatim>\<open>MSG_REDIRECT_CHK\<close> with the two ends of \<^verbatim>\<open>msg_dispatch\<close>: recycling and rescheduling.\<close>

definition msg_recycle :: "cmd_dispatcher \<Rightarrow> nat \<Rightarrow> cmd_dispatcher" where
  "msg_recycle obj i = dispr_push_back_idle_msg obj i"

definition msg_reschedule :: "cmd_dispatcher \<Rightarrow> nat \<Rightarrow> cmd_dispatcher" where
  "msg_reschedule obj i = (if mx_test obj i MSG_STATUS_PENDING then push_back_pending_msg obj i else dispr_push_back_wait_msg obj i)"

definition redirect_chk :: "cmd_dispatcher \<Rightarrow> nat \<Rightarrow> (cmd_dispatcher \<Rightarrow> cmd_dispatcher option) \<Rightarrow> cmd_dispatcher option" where
  "redirect_chk obj i go =
     (if mx_test obj i MSG_STATUS_FAIL \<or> mx_test obj i MSG_STATUS_CANCEL then Some (msg_recycle obj i)
      else if mx_test obj i MSG_STATUS_PENDING then Some (msg_reschedule obj i)
      else go obj)"

text \<open>The end of the first phase and the second phase; \<open>pre\<close> says which mask is the current one.\<close>

definition msg_invalid :: "cmd_dispatcher \<Rightarrow> nat \<Rightarrow> cmd_dispatcher" where
  "msg_invalid obj i = msg_recycle (upd_ex i (mx_set MSG_STATUS_CANCEL) obj) i"

definition msg_dispatch_post :: "bool \<Rightarrow> cmd_dispatcher \<Rightarrow> nat \<Rightarrow> cmd_dispatcher option" where
  "msg_dispatch_post pre obj i =
     (if \<not> is_bitmap_empty (phase_map pre (msg_ex_pool obj ! i)) then Some (msg_invalid obj i)
      else
        do {
          let (pre, obj) = get_msg_bitmap (upd_ex i (mx_clear MSG_STATUS_PRE_PHASE) obj) i;
          obj \<leftarrow> if is_bitmap_empty (phase_map pre (msg_ex_pool obj ! i)) then Some obj else msg_post_phase_hdl obj i;
          redirect_chk obj i (\<lambda>obj.
            if is_bitmap_empty (phase_map pre (msg_ex_pool obj ! i))
            then do { obj \<leftarrow> cur_req_hdl obj i; Some (msg_recycle obj i) }
            else Some (msg_invalid obj i))
        })"

definition msg_dispatch :: "cmd_dispatcher \<Rightarrow> nat \<Rightarrow> cmd_dispatcher option" where
  "msg_dispatch obj i =
     (let (pre, obj) = get_msg_bitmap obj i in
      redirect_chk obj i (\<lambda>obj.
        do {
          obj \<leftarrow> notify_dispr_controller obj i;
          redirect_chk obj i (\<lambda>obj.
            do {
              obj \<leftarrow> if MSG_INDC_FIELD (msg_id (mx_msg (msg_ex_pool obj ! i))) AND MSG_INDC_PRE_PHASE \<noteq> 0 \<and>
                        \<not> is_bitmap_empty (phase_map pre (msg_ex_pool obj ! i))
                     then msg_pre_phase_hdl obj i else Some obj;
              redirect_chk obj i (\<lambda>obj. msg_dispatch_post pre obj i)
            })
        }))"

definition and_bitmaps :: "u8 list \<Rightarrow> u8 list \<Rightarrow> u8 list" where
  "and_bitmaps ref bm = map2 (AND) bm ref"

text \<open>One round of the thread, after it was woken up.\<close>

definition dispr_thread_loop_hdl :: "cmd_dispatcher \<Rightarrow> cmd_dispatcher option" where
  "dispr_thread_loop_hdl obj =
     do {
       obj \<leftarrow> token_op_hanler (clear_pending_msg obj);
       case dispr_pop_front_wait_msg obj of
         (None, obj) \<Rightarrow> Some obj
       | (Some i, obj) \<Rightarrow>
           let (canceled, obj) = is_msg_canceled obj i in
           if canceled then Some (dispr_push_back_idle_msg obj i)
           else msg_dispatch (upd_ex i (\<lambda>ex. ex\<lparr>mx_premap := and_bitmaps (d_bitmap obj) (mx_premap ex),
                                              mx_postmap := and_bitmaps (d_bitmap obj) (mx_postmap ex)\<rparr>) obj) i
     }"

section \<open>Modules\<close>

text \<open>A call of a module, with its result, the module afterwards and the dispatcher.\<close>

definition bk_module_init :: "cmd_dispatcher \<Rightarrow> phl_bk_module \<Rightarrow> (bool \<times> phl_bk_module \<times> cmd_dispatcher) option" where
  "bk_module_init obj module =
     (if TEST_STATUS_FLAG (mdl_status module) MDL_INIT then Some (False, module, obj)
      else do {
        (ret, obj) \<leftarrow> callback (Ev_mdl_init (mdl_id module)) obj;
        Some (if ret = MDL_RET_SUCCESS then (True, module\<lparr>mdl_status := SET_STATUS_FLAG (mdl_status module) MDL_INIT\<rparr>, obj)
              else (False, module, obj))
      })"

definition bk_module_deinit :: "cmd_dispatcher \<Rightarrow> phl_bk_module \<Rightarrow> (phl_bk_module \<times> cmd_dispatcher) option" where
  "bk_module_deinit obj module =
     do {
       obj \<leftarrow> if TEST_STATUS_FLAG (mdl_status module) MDL_INIT then map_option snd (callback (Ev_mdl_deinit (mdl_id module)) obj) else Some obj;
       Some (module\<lparr>mdl_status := CLEAR_STATUS_FLAG (mdl_status module) MDL_INIT\<rparr>, obj)
     }"

definition bk_module_start :: "cmd_dispatcher \<Rightarrow> phl_bk_module \<Rightarrow> (bool \<times> phl_bk_module \<times> cmd_dispatcher) option" where
  "bk_module_start obj module =
     (if \<not> TEST_STATUS_FLAG (mdl_status module) MDL_INIT \<or> TEST_STATUS_FLAG (mdl_status module) MDL_STARTED then Some (False, module, obj)
      else do {
        (ret, obj) \<leftarrow> callback (Ev_mdl_start (mdl_id module)) obj;
        Some (if ret = MDL_RET_SUCCESS then (True, module\<lparr>mdl_status := SET_STATUS_FLAG (mdl_status module) MDL_STARTED\<rparr>, obj)
              else (False, module, obj))
      })"

definition bk_module_stop :: "cmd_dispatcher \<Rightarrow> phl_bk_module \<Rightarrow> (bool \<times> phl_bk_module \<times> cmd_dispatcher) option" where
  "bk_module_stop obj module =
     (if \<not> TEST_STATUS_FLAG (mdl_status module) MDL_STARTED then Some (False, module, obj)
      else do {
        (ret, obj) \<leftarrow> callback (Ev_mdl_stop (mdl_id module)) obj;
        Some (ret = MDL_RET_SUCCESS, module\<lparr>mdl_status := CLEAR_STATUS_FLAG (mdl_status module) MDL_STARTED\<rparr>, obj)
      })"

text \<open>Module \<open>n\<close> of queue \<open>p\<close>.\<close>

definition get_mdl :: "cmd_dispatcher \<Rightarrow> nat \<Rightarrow> nat \<Rightarrow> phl_bk_module" where
  "get_mdl obj p n = pq_queue (module_q obj ! p) ! n"

definition set_mdl :: "nat \<Rightarrow> nat \<Rightarrow> phl_bk_module \<Rightarrow> cmd_dispatcher \<Rightarrow> cmd_dispatcher" where
  "set_mdl p n module obj = obj\<lparr>module_q := (module_q obj)[p := (module_q obj ! p)\<lparr>pq_queue := (pq_queue (module_q obj ! p))[n := module]\<rparr>]\<rparr>"

definition set_mdl_maps :: "(u8 list \<Rightarrow> u8 list option) \<Rightarrow> bool \<Rightarrow> cmd_dispatcher \<Rightarrow> cmd_dispatcher option" where
  "set_mdl_maps f base obj =
     do {
       bm \<leftarrow> f (d_bitmap obj);
       bs \<leftarrow> if base then f (d_basemap obj) else Some (d_basemap obj);
       Some (obj\<lparr>d_bitmap := bm, d_basemap := bs\<rparr>)
     }"

text \<open>The start of a module that is in queue \<open>p\<close>, with its entry in the masks.\<close>

definition start_mdl :: "nat \<Rightarrow> nat \<Rightarrow> cmd_dispatcher \<Rightarrow> (bool \<times> cmd_dispatcher) option" where
  "start_mdl p n obj =
     do {
       (ret, module, obj) \<leftarrow> bk_module_start obj (get_mdl obj p n);
       let obj = set_mdl p n module obj;
       obj \<leftarrow> if ret then set_mdl_maps (\<lambda>m. add_bitmap_bit m [mdl_id module]) (p \<noteq> PHL_MDL_PRI_OPTIONAL) obj else Some obj;
       Some (ret, obj)
     }"

text \<open>
  The operations have the result of the allocation as an argument where there is one. A module that cannot be
  initialised or started is freed while it is in its queue; it is marked here, and no operation is defined on the queue any more.
\<close>

definition dispr_register_module :: "bool \<Rightarrow> cmd_dispatcher \<Rightarrow> u8 \<Rightarrow> bool \<Rightarrow> (rtw_phl_status \<times> cmd_dispatcher) option" where
  "dispr_register_module mem_ok obj mid ops_ok =
     (let p = get_mdl_priority mid; n = length (pq_queue (module_q obj ! p)) in
      if \<not> d_test obj DISPR_INIT \<or> p = PHL_MDL_PRI_MAX \<or> \<not> ops_ok \<or> chk_module obj mid \<or> \<not> mem_ok then Some (RTW_PHL_STATUS_FAILURE, obj)
      else do {
        let obj = obj\<lparr>module_q := (module_q obj)[p := snd (pq_push (module_q obj ! p) \<lparr>mdl_id = mid, mdl_status = 0, mdl_freed = False\<rparr> Pos_tail)]\<rparr>;
        (ret, module, obj) \<leftarrow> bk_module_init obj (get_mdl obj p n);
        let obj = set_mdl p n module obj;
        (ret, obj) \<leftarrow> if ret \<and> d_test obj DISPR_STARTED then start_mdl p n obj else Some (ret, obj);
        if ret then Some (RTW_PHL_STATUS_SUCCESS, obj)
        else do {
          (module, obj) \<leftarrow> bk_module_deinit obj (get_mdl obj p n);
          Some (RTW_PHL_STATUS_FAILURE, set_mdl p n (module\<lparr>mdl_freed := True\<rparr>) obj)
        }
      })"

definition dispr_deregister_module :: "cmd_dispatcher \<Rightarrow> u8 \<Rightarrow> (rtw_phl_status \<times> cmd_dispatcher) option" where
  "dispr_deregister_module obj mid =
     (let p = get_mdl_priority mid in
      if \<not> d_test obj DISPR_INIT \<or> p = PHL_MDL_PRI_MAX then Some (RTW_PHL_STATUS_FAILURE, obj)
      else case pq_search_node (module_q obj ! p) True (Some (\<lambda>m. mdl_id m = mid)) of
             (True, PNode module, q) \<Rightarrow>
               do {
                 obj \<leftarrow> set_mdl_maps (\<lambda>m. clr_bitmap_bit m [mdl_id module]) True (obj\<lparr>module_q := (module_q obj)[p := q]\<rparr>);
                 (_, module, obj) \<leftarrow> bk_module_stop obj module;
                 (_, obj) \<leftarrow> bk_module_deinit obj module;
                 Some (RTW_PHL_STATUS_SUCCESS, obj)
               }
           | _ \<Rightarrow> Some (RTW_PHL_STATUS_FAILURE, obj))"

text \<open>The walks over all modules: queue after queue, from the front.\<close>

definition mdl_places :: "cmd_dispatcher \<Rightarrow> (nat \<times> nat) list" where
  "mdl_places obj = concat (map (\<lambda>p. map (Pair p) [0 ..< length (pq_queue (module_q obj ! p))]) [0 ..< PHL_MDL_PRI_MAX])"

fun walk_mdls :: "(nat \<Rightarrow> nat \<Rightarrow> cmd_dispatcher \<Rightarrow> cmd_dispatcher option) \<Rightarrow> (nat \<times> nat) list \<Rightarrow> cmd_dispatcher \<Rightarrow> cmd_dispatcher option" where
  "walk_mdls f [] obj = Some obj"
| "walk_mdls f ((p, n) # ps) obj = do { obj \<leftarrow> f p n obj; walk_mdls f ps obj }"

definition dispr_module_init :: "cmd_dispatcher \<Rightarrow> (rtw_phl_status \<times> cmd_dispatcher) option" where
  "dispr_module_init obj =
     (if \<not> d_test obj DISPR_INIT then Some (RTW_PHL_STATUS_FAILURE, obj)
      else map_option (Pair RTW_PHL_STATUS_SUCCESS)
             (walk_mdls (\<lambda>p n obj. do { (_, module, obj) \<leftarrow> bk_module_init obj (get_mdl obj p n); Some (set_mdl p n module obj) })
                (mdl_places obj) obj))"

definition dispr_module_start :: "cmd_dispatcher \<Rightarrow> (rtw_phl_status \<times> cmd_dispatcher) option" where
  "dispr_module_start obj =
     (if \<not> d_test obj DISPR_STARTED then Some (RTW_PHL_STATUS_UNEXPECTED_ERROR, obj)
      else map_option (Pair RTW_PHL_STATUS_SUCCESS) (walk_mdls (\<lambda>p n obj. map_option snd (start_mdl p n obj)) (mdl_places obj) obj))"

definition stop_mdl :: "nat \<Rightarrow> nat \<Rightarrow> cmd_dispatcher \<Rightarrow> cmd_dispatcher option" where
  "stop_mdl p n obj =
     do {
       obj \<leftarrow> set_mdl_maps (\<lambda>m. clr_bitmap_bit m [mdl_id (get_mdl obj p n)]) True obj;
       (_, module, obj) \<leftarrow> bk_module_stop obj (get_mdl obj p n);
       Some (set_mdl p n module obj)
     }"

definition dispr_module_stop :: "cmd_dispatcher \<Rightarrow> (rtw_phl_status \<times> cmd_dispatcher) option" where
  "dispr_module_stop obj =
     (if \<not> d_test obj DISPR_STARTED then Some (RTW_PHL_STATUS_UNEXPECTED_ERROR, obj)
      else map_option (Pair RTW_PHL_STATUS_SUCCESS) (walk_mdls stop_mdl (mdl_places obj) obj))"

text \<open>The loop that empties queue \<open>p\<close>; no call changes the queue, so its length is enough as a bound.\<close>

fun deinit_mdls :: "nat \<Rightarrow> nat \<Rightarrow> cmd_dispatcher \<Rightarrow> cmd_dispatcher option" where
  "deinit_mdls p 0 obj = Some obj"
| "deinit_mdls p (Suc n) obj =
     (case pq_deq (module_q obj ! p) of
        None \<Rightarrow> Some obj
      | Some (m, q) \<Rightarrow> do { (_, obj) \<leftarrow> bk_module_deinit (obj\<lparr>module_q := (module_q obj)[p := q]\<rparr>) m; deinit_mdls p n obj })"

definition dispr_module_deinit :: "cmd_dispatcher \<Rightarrow> (rtw_phl_status \<times> cmd_dispatcher) option" where
  "dispr_module_deinit obj =
     (if \<not> d_test obj DISPR_INIT then Some (RTW_PHL_STATUS_FAILURE, obj)
      else do {
        obj \<leftarrow> deinit_mdls 0 (length (pq_queue (module_q obj ! 0))) obj;
        obj \<leftarrow> deinit_mdls 1 (length (pq_queue (module_q obj ! 1))) obj;
        obj \<leftarrow> deinit_mdls 2 (length (pq_queue (module_q obj ! 2))) obj;
        Some (RTW_PHL_STATUS_SUCCESS, obj)
      })"

section \<open>Start and stop\<close>

definition mx0 :: phl_dispr_msg_ex where
  "mx0 = \<lparr>mx_status = 0, mx_msg = msg0, mx_premap = replicate MODL_MASK_LEN 0, mx_postmap = replicate MODL_MASK_LEN 0,
          mx_completion = None, mx_module = None\<rparr>"

definition rq0 :: phl_cmd_token_req_ex where
  "rq0 = \<lparr>rq_status = 0, rq_req = \<lparr>req_module_id = 0, req_ops = False\<rparr>, rq_add_info = op_info0, rq_free_info = op_info0\<rparr>"

text \<open>A new dispatcher: \<^verbatim>\<open>dispr_init\<close> on cleared memory.\<close>

definition dispr_init :: "(phl_mdl_ret_code \<times> dispr_call list) list \<Rightarrow> cmd_dispatcher option" where
  "dispr_init script =
     (let obj = \<lparr>d_status = 0, module_q = replicate PHL_MDL_PRI_MAX pq_init, msg_ex_pool = replicate MAX_PHL_MSG_NUM mx0,
                 msg_wait_q = pq_init, msg_idle_q = pq_init, msg_pend_q = pq_init,
                 token_req_ex_pool = replicate MAX_CMD_REQ_NUM rq0, token_req_wait_q = pq_init, token_req_idle_q = pq_init,
                 token_op_q = pq_init, token_cnt = 0, cur_cmd_req = None, d_bitmap = replicate MODL_MASK_LEN 0,
                 d_basemap = replicate MODL_MASK_LEN 0, pending_evt = (\<lambda>_. 0), controller = \<lparr>mdl_id = PHL_MDL_PHY_MGNT, mdl_status = 0, mdl_freed = False\<rparr>,
                 renew_req_info = op_info0, exclusive_mdl = 0, msg_q_sema = 0, d_script = script, d_events = []\<rparr>;
          obj = d_set DISPR_NOTIFY_IDLE (d_set DISPR_INIT obj) in
      do {
        (_, ctrl, obj) \<leftarrow> bk_module_init obj (controller obj);
        Some (obj\<lparr>controller := ctrl\<rparr>)
      })"

definition init_dispr_msg_pool :: "cmd_dispatcher \<Rightarrow> cmd_dispatcher" where
  "init_dispr_msg_pool obj =
     (if d_test obj DISPR_MSGQ_INIT then obj
      else
        let obj = obj\<lparr>msg_idle_q := pq_init, msg_wait_q := pq_init, msg_pend_q := pq_init, msg_ex_pool := replicate MAX_PHL_MSG_NUM mx0\<rparr> in
        d_set DISPR_MSGQ_INIT (foldl dispr_push_back_idle_msg obj [0 ..< MAX_PHL_MSG_NUM]))"

definition init_cmd_req_pool :: "cmd_dispatcher \<Rightarrow> cmd_dispatcher" where
  "init_cmd_req_pool obj =
     (if d_test obj DISPR_REQ_INIT then obj
      else
        let obj = obj\<lparr>token_req_wait_q := pq_init, token_req_idle_q := pq_init, token_op_q := pq_init, token_req_ex_pool := replicate MAX_CMD_REQ_NUM rq0\<rparr> in
        d_set DISPR_REQ_INIT
          (foldl (\<lambda>obj i. obj\<lparr>token_req_idle_q := snd (pq_push (token_req_idle_q obj) i Pos_tail)\<rparr>) obj [0 ..< MAX_CMD_REQ_NUM]))"

definition init_dispr_mdl_mgnt_info :: "cmd_dispatcher \<Rightarrow> cmd_dispatcher" where
  "init_dispr_mdl_mgnt_info obj = obj\<lparr>pending_evt := (\<lambda>i. if i < PHL_MDL_ID_MAX then MSG_EVT_MAX else pending_evt obj i)\<rparr>"

text \<open>The semaphore is made anew by the engine before the dispatcher is started.\<close>

definition dispr_start :: "cmd_dispatcher \<Rightarrow> (rtw_phl_status \<times> cmd_dispatcher) option" where
  "dispr_start obj =
     (if d_test obj DISPR_STARTED then Some (RTW_PHL_STATUS_UNEXPECTED_ERROR, obj)
      else do {
        let obj = init_dispr_mdl_mgnt_info (init_cmd_req_pool (init_dispr_msg_pool obj));
        let obj = d_set DISPR_STARTED (obj\<lparr>renew_req_info := op_info0, msg_q_sema := 0, exclusive_mdl := PHL_MDL_ID_MAX\<rparr>);
        (ret, ctrl, obj) \<leftarrow> bk_module_start obj (controller obj);
        let obj = obj\<lparr>controller := ctrl\<rparr>;
        Some (RTW_PHL_STATUS_SUCCESS, if ret then d_set DISPR_CTRL_PRESENT obj else obj)
      })"

definition dispr_thread_stop_prior_hdl :: "cmd_dispatcher \<Rightarrow> cmd_dispatcher option" where
  "dispr_thread_stop_prior_hdl obj =
     do {
       let obj = d_clear DISPR_CTRL_PRESENT (d_clear DISPR_STARTED obj);
       (_, ctrl, obj) \<leftarrow> bk_module_stop obj (controller obj);
       Some (cancel_running_msg (cancel_all_cmd_req (obj\<lparr>controller := ctrl\<rparr>)))
     }"

text \<open>The two inner loops of \<^verbatim>\<open>clear_waiting_msg\<close>.\<close>

function pend_to_wait :: "cmd_dispatcher \<Rightarrow> cmd_dispatcher" where
  "pend_to_wait obj = (case pop_front_pending_msg obj of (None, obj) \<Rightarrow> obj | (Some i, obj) \<Rightarrow> pend_to_wait (dispr_push_back_wait_msg obj i))"
  by pat_completeness auto
termination
  by (relation "measure (\<lambda>obj. length (pq_queue (msg_pend_q obj)))") (auto dest!: pop_front_pending_length [OF sym])

declare pend_to_wait.simps [simp del]

lemma dispr_pop_wait_length:
  "dispr_pop_front_wait_msg obj = (Some i, obj') \<Longrightarrow> length (pq_queue (msg_wait_q obj')) < length (pq_queue (msg_wait_q obj))"
  by (auto simp: dispr_pop_front_wait_msg_def pq_deq_def pq_pop_def upd_ex_def split: option.splits if_splits)

lemma dispr_wait_q_push_idle [simp]: "msg_wait_q (dispr_push_back_idle_msg obj i) = msg_wait_q obj"
  by (simp add: dispr_push_back_idle_msg_def msg_complete_def on_abort_msg_complete_def push_back_token_op_info_def set_info_def
      notify_bk_thread_def upd_ex_def log_event_def d_clear_def Let_def split: option.splits)

function wait_to_idle :: "cmd_dispatcher \<Rightarrow> cmd_dispatcher" where
  "wait_to_idle obj = (case dispr_pop_front_wait_msg obj of (None, obj) \<Rightarrow> obj | (Some i, obj) \<Rightarrow> wait_to_idle (dispr_push_back_idle_msg obj i))"
  by pat_completeness auto
termination
  by (relation "measure (\<lambda>obj. length (pq_queue (msg_wait_q obj)))") (auto dest!: dispr_pop_wait_length [OF sym])

declare wait_to_idle.simps [simp del]

text \<open>The outer loop ends only when all messages are idle.\<close>

partial_function (option) clear_waiting_msg :: "cmd_dispatcher \<Rightarrow> cmd_dispatcher option" where
  "clear_waiting_msg obj = (if pq_cnt (msg_idle_q obj) = int MAX_PHL_MSG_NUM then Some obj else clear_waiting_msg (wait_to_idle (pend_to_wait obj)))"

text \<open>The inner loop and the outer loop of \<^verbatim>\<open>clear_wating_req\<close>.\<close>

partial_function (option) abort_waiting :: "cmd_dispatcher \<Rightarrow> cmd_dispatcher option" where
  "abort_waiting obj =
     (case pop_front_wait_req obj of
        (None, obj) \<Rightarrow> Some obj
      | (Some r, obj) \<Rightarrow> do { (_, obj) \<leftarrow> callback (Ev_abort r) obj; abort_waiting (push_back_idle_req obj r) })"

partial_function (option) clear_wating_req :: "cmd_dispatcher \<Rightarrow> cmd_dispatcher option" where
  "clear_wating_req obj =
     (if pq_cnt (token_req_idle_q obj) = int MAX_CMD_REQ_NUM then Some obj else do { obj \<leftarrow> abort_waiting obj; clear_wating_req obj })"

definition dispr_thread_leave_hdl :: "cmd_dispatcher \<Rightarrow> cmd_dispatcher option" where
  "dispr_thread_leave_hdl obj =
     do { obj \<leftarrow> deregister_cur_cmd_req obj True; obj \<leftarrow> clear_waiting_msg obj; clear_wating_req obj }"

definition dispr_thread_stop_post_hdl :: "cmd_dispatcher \<Rightarrow> cmd_dispatcher" where
  "dispr_thread_stop_post_hdl obj = (d_clear DISPR_REQ_INIT (d_clear DISPR_MSGQ_INIT obj))\<lparr>token_cnt := 0\<rparr>"

section \<open>Queries\<close>

definition dispr_get_cur_cmd_req :: "cmd_dispatcher \<Rightarrow> rtw_phl_status \<times> nat option" where
  "dispr_get_cur_cmd_req obj =
     (if \<not> d_test obj (DISPR_INIT OR DISPR_STARTED) then (RTW_PHL_STATUS_UNEXPECTED_ERROR, None)
      else case cur_cmd_req obj of
             None \<Rightarrow> (RTW_PHL_STATUS_FAILURE, None)
           | Some r \<Rightarrow> if \<not> rq_test obj r REQ_STATUS_RUN \<or> rq_test obj r REQ_STATUS_CANCEL then (RTW_PHL_STATUS_FAILURE, None)
                       else (RTW_PHL_STATUS_SUCCESS, Some r))"

definition dispr_is_fg_empty :: "cmd_dispatcher \<Rightarrow> bool" where
  "dispr_is_fg_empty obj \<longleftrightarrow>
     \<not> (pq_queue (token_req_wait_q obj) \<noteq> [] \<and> pq_cnt (token_req_wait_q obj) > 0) \<and>
     \<not> (fst (pq_get_front (token_op_q obj)) \<or> token_cnt obj > 0)"

end
