(* ===== verification/Phl_Dispr_Inv.thy ===== *)
theory Phl_Dispr_Inv
  imports Phl_Dispr
begin

text \<open>
  The invariant of the command dispatcher, kept by every operation: where messages and requests are, who has the token, which
  completion routines are owed, and how often the semaphore is up. Lists in it name what is in no queue at the moment.
\<close>

section \<open>The invariant\<close>

lemma test_u16 [simp]:
  fixes s :: u16
  shows "TEST_STATUS_FLAG s 1 \<longleftrightarrow> bit s 0" "TEST_STATUS_FLAG s 2 \<longleftrightarrow> bit s 1" "TEST_STATUS_FLAG s 4 \<longleftrightarrow> bit s 2"
    "TEST_STATUS_FLAG s 8 \<longleftrightarrow> bit s 3" "TEST_STATUS_FLAG s 16 \<longleftrightarrow> bit s 4" "TEST_STATUS_FLAG s 32 \<longleftrightarrow> bit s 5"
    "TEST_STATUS_FLAG s 64 \<longleftrightarrow> bit s 6" "TEST_STATUS_FLAG s 128 \<longleftrightarrow> bit s 7" "TEST_STATUS_FLAG s 256 \<longleftrightarrow> bit s 8"
    "TEST_STATUS_FLAG s 512 \<longleftrightarrow> bit s 9" "TEST_STATUS_FLAG s 1024 \<longleftrightarrow> bit s 10" "TEST_STATUS_FLAG s 2048 \<longleftrightarrow> bit s 11"
  using TEST_BIT [of 0 s] TEST_BIT [of 1 s] TEST_BIT [of 2 s] TEST_BIT [of 3 s] TEST_BIT [of 4 s] TEST_BIT [of 5 s] TEST_BIT [of 6 s]
    TEST_BIT [of 7 s] TEST_BIT [of 8 s] TEST_BIT [of 9 s] TEST_BIT [of 10 s] TEST_BIT [of 11 s]
  by simp_all

lemma test_u8 [simp]:
  fixes s :: u8
  shows "TEST_STATUS_FLAG s 1 \<longleftrightarrow> bit s 0" "TEST_STATUS_FLAG s 2 \<longleftrightarrow> bit s 1" "TEST_STATUS_FLAG s 4 \<longleftrightarrow> bit s 2"
    "TEST_STATUS_FLAG s 8 \<longleftrightarrow> bit s 3" "TEST_STATUS_FLAG s 16 \<longleftrightarrow> bit s 4"
  using TEST_BIT [of 0 s] TEST_BIT [of 1 s] TEST_BIT [of 2 s] TEST_BIT [of 3 s] TEST_BIT [of 4 s] by simp_all

lemma flag_bits [simp]:
  fixes s :: "'a::len word"
  shows "bit (SET_STATUS_FLAG s f) n \<longleftrightarrow> bit s n \<or> bit f n" "bit (CLEAR_STATUS_FLAG s f) n \<longleftrightarrow> bit s n \<and> \<not> bit f n"
  by (auto simp: SET_STATUS_FLAG_def CLEAR_STATUS_FLAG_def bit_or_iff bit_and_iff bit_not_iff bit_imp_le_length)

text \<open>The completion routine that a message is to call, the routines taken over and the routines called.\<close>

definition owed :: "phl_dispr_msg_ex \<Rightarrow> nat option" where
  "owed ex = (if TEST_STATUS_FLAG (mx_status ex) MSG_STATUS_NOTIFY_COMPLETE then mx_completion ex else None)"

definition outstanding :: "phl_dispr_msg_ex list \<Rightarrow> nat multiset" where
  "outstanding pool = (\<Sum>o'\<leftarrow>map owed pool. case o' of None \<Rightarrow> {#} | Some c \<Rightarrow> {#c#})"

fun sent_of :: "dispr_event \<Rightarrow> nat multiset" where
  "sent_of (Ev_sent c) = {#c#}"
| "sent_of _ = {#}"

fun completed_of :: "dispr_event \<Rightarrow> nat multiset" where
  "completed_of (Ev_complete c m) = {#c#}"
| "completed_of _ = {#}"

definition sent :: "cmd_dispatcher \<Rightarrow> nat multiset" where
  "sent obj = (\<Sum>e\<leftarrow>d_events obj. sent_of e)"

definition completed :: "cmd_dispatcher \<Rightarrow> nat multiset" where
  "completed obj = (\<Sum>e\<leftarrow>d_events obj. completed_of e)"

definition all_below :: "nat \<Rightarrow> nat multiset" where
  "all_below n = mset [0 ..< n]"

lemma in_all_below [simp]: "i \<in># all_below n \<longleftrightarrow> i < n"
  by (simp add: all_below_def)

lemma all_below_distinct: "mset xs = all_below n \<Longrightarrow> distinct xs"
  by (metis all_below_def distinct_upt mset_eq_imp_distinct_iff)

text \<open>Every message is in one queue or among \<open>ms\<close>, and an idle one owes nothing.\<close>

definition msg_inv :: "nat list \<Rightarrow> cmd_dispatcher \<Rightarrow> bool" where
  "msg_inv ms obj \<longleftrightarrow>
     length (msg_ex_pool obj) = MAX_PHL_MSG_NUM \<and>
     pq_counted (msg_idle_q obj) \<and> pq_counted (msg_wait_q obj) \<and> pq_counted (msg_pend_q obj) \<and>
     mset (pq_queue (msg_idle_q obj)) + mset (pq_queue (msg_wait_q obj)) + mset (pq_queue (msg_pend_q obj)) + mset ms = all_below MAX_PHL_MSG_NUM \<and>
     (\<forall>i \<in> set (pq_queue (msg_idle_q obj)). owed (msg_ex_pool obj ! i) = None) \<and>
     sent obj = completed obj + outstanding (msg_ex_pool obj)"

text \<open>Every request is in one queue, the current one, or among \<open>rs\<close>; the token is taken when there is a current one.\<close>

definition cur_req :: "cmd_dispatcher \<Rightarrow> nat list" where
  "cur_req obj = (case cur_cmd_req obj of None \<Rightarrow> [] | Some r \<Rightarrow> [r])"

definition req_inv :: "nat list \<Rightarrow> cmd_dispatcher \<Rightarrow> bool" where
  "req_inv rs obj \<longleftrightarrow>
     length (token_req_ex_pool obj) = MAX_CMD_REQ_NUM \<and>
     pq_counted (token_req_idle_q obj) \<and> pq_counted (token_req_wait_q obj) \<and>
     mset (pq_queue (token_req_idle_q obj)) + mset (pq_queue (token_req_wait_q obj)) + mset (cur_req obj) + mset rs = all_below MAX_CMD_REQ_NUM \<and>
     token_cnt obj = int (length (cur_req obj)) \<and>
     (\<forall>r < MAX_CMD_REQ_NUM. r \<notin> set rs \<longrightarrow> rq_test obj r REQ_STATUS_ENQ \<longrightarrow> r \<in> set (pq_queue (token_req_wait_q obj))) \<and>
     (\<forall>r < MAX_CMD_REQ_NUM. rq_test obj r REQ_STATUS_RUN \<or> rq_test obj r REQ_STATUS_LAST_PERMIT \<longrightarrow> cur_cmd_req obj = Some r) \<and>
     (\<forall>r < MAX_CMD_REQ_NUM. \<not> (rq_test obj r REQ_STATUS_RUN \<and> rq_test obj r REQ_STATUS_LAST_PERMIT))"

text \<open>No message is marked for an abort, and the dispatcher waits for none.\<close>

definition abort_inv :: "cmd_dispatcher \<Rightarrow> bool" where
  "abort_inv obj \<longleftrightarrow> \<not> d_test obj DISPR_WAIT_ABORT_MSG_DONE \<and> (\<forall>ex \<in> set (msg_ex_pool obj). \<not> TEST_STATUS_FLAG (mx_status ex) MSG_STATUS_FOR_ABORT)"

text \<open>The semaphore is up as often as messages wait, less \<open>k\<close>, and up when there are token operations, unless \<open>b\<close>.\<close>

definition wake_inv :: "nat \<Rightarrow> bool \<Rightarrow> cmd_dispatcher \<Rightarrow> bool" where
  "wake_inv k b obj \<longleftrightarrow>
     pq_counted (token_op_q obj) \<and> length (pq_queue (msg_wait_q obj)) \<le> msg_q_sema obj + k \<and>
     (b \<or> pq_queue (token_op_q obj) = [] \<or> msg_q_sema obj > 0)"

text \<open>Module ids of messages are below the one that stands for no module.\<close>

fun call_ok :: "dispr_call \<Rightarrow> bool" where
  "call_ok (Call_send msg attr) \<longleftrightarrow> MSG_MDL_ID_FIELD (msg_id msg) \<noteq> PHL_MDL_ID_MAX"
| "call_ok _ \<longleftrightarrow> True"

definition script_ok :: "(phl_mdl_ret_code \<times> dispr_call list) list \<Rightarrow> bool" where
  "script_ok sc \<longleftrightarrow> list_all (\<lambda>(ret, cs). list_all call_ok cs) sc"

definition d_inv :: "nat list \<Rightarrow> nat list \<Rightarrow> nat \<Rightarrow> bool \<Rightarrow> cmd_dispatcher \<Rightarrow> bool" where
  "d_inv ms rs k b obj \<longleftrightarrow> msg_inv ms obj \<and> req_inv rs obj \<and> abort_inv obj \<and> wake_inv k b obj \<and> script_ok (d_script obj)"

lemmas inv_defs = d_inv_def msg_inv_def req_inv_def abort_inv_def wake_inv_def

lemma outstanding_upd:
  assumes "i < length pool"
  shows "outstanding (pool[i := ex]) + (case owed (pool ! i) of None \<Rightarrow> {#} | Some c \<Rightarrow> {#c#}) =
    outstanding pool + (case owed ex of None \<Rightarrow> {#} | Some c \<Rightarrow> {#c#})"
proof -
  let ?v = "\<lambda>o'. case o' of None \<Rightarrow> {#} | Some c \<Rightarrow> {#c#}"
  have split: "pool = take i pool @ pool ! i # drop (Suc i) pool" using assms by (rule id_take_nth_drop)
  have "outstanding (xs @ e # ys) = ?v (owed e) + outstanding (xs @ ys)" for xs e ys
    by (simp add: outstanding_def ac_simps)
  from this [of "take i pool" "pool ! i" "drop (Suc i) pool"] this [of "take i pool" ex "drop (Suc i) pool"] show ?thesis
    using assms split by (simp add: upd_conv_take_nth_drop ac_simps)
qed

lemma outstanding_same: "owed ex = owed (pool ! i) \<Longrightarrow> i < length pool \<Longrightarrow> outstanding (pool[i := ex]) = outstanding pool"
  using outstanding_upd [of i pool ex] by simp

lemma msg_inv_bound:
  assumes "msg_inv ms obj"
    and "i \<in> set ms \<union> set (pq_queue (msg_idle_q obj)) \<union> set (pq_queue (msg_wait_q obj)) \<union> set (pq_queue (msg_pend_q obj))"
  shows "i < MAX_PHL_MSG_NUM"
proof -
  have "i \<in># mset (pq_queue (msg_idle_q obj)) + mset (pq_queue (msg_wait_q obj)) + mset (pq_queue (msg_pend_q obj)) + mset ms"
    using assms(2) by auto
  then show ?thesis using assms(1) unfolding msg_inv_def by simp
qed

lemma req_inv_bound:
  assumes "req_inv rs obj" and "r \<in> set rs \<union> set (pq_queue (token_req_idle_q obj)) \<union> set (pq_queue (token_req_wait_q obj)) \<union> set (cur_req obj)"
  shows "r < MAX_CMD_REQ_NUM"
proof -
  have "r \<in># mset (pq_queue (token_req_idle_q obj)) + mset (pq_queue (token_req_wait_q obj)) + mset (cur_req obj) + mset rs"
    using assms(2) by auto
  then show ?thesis using assms(1) unfolding req_inv_def by simp
qed

text \<open>Changes of a message that leave what it owes and set no mark for an abort.\<close>

definition mild :: "phl_dispr_msg_ex \<Rightarrow> phl_dispr_msg_ex \<Rightarrow> bool" where
  "mild ex ex' \<longleftrightarrow> owed ex' = owed ex \<and> (bit (mx_status ex') 10 \<longrightarrow> bit (mx_status ex) 10)"

lemma d_inv_upd_ex:
  assumes "d_inv ms rs k b obj" and "mild (msg_ex_pool obj ! i) (f (msg_ex_pool obj ! i))"
  shows "d_inv ms rs k b (upd_ex i f obj)"
proof (cases "i < length (msg_ex_pool obj)")
  case True
  have "abort_inv (upd_ex i f obj)"
    using assms True unfolding d_inv_def abort_inv_def mild_def upd_ex_def d_test_def
    by (auto dest!: set_update_subset_insert [THEN subsetD] dest: nth_mem)
  moreover have "msg_inv ms (upd_ex i f obj)"
    using assms outstanding_same [of "f (msg_ex_pool obj ! i)" "msg_ex_pool obj" i] True
    unfolding d_inv_def msg_inv_def mild_def upd_ex_def
    by (auto simp: nth_list_update sent_def completed_def)
  ultimately show ?thesis using assms
    by (auto simp: d_inv_def req_inv_def wake_inv_def upd_ex_def rq_test_def cur_req_def cong: option.case_cong)
next
  case False
  then show ?thesis using assms(1) by (simp add: upd_ex_def list_update_beyond)
qed

lemma mild_simps [simp]:
  "mild ex (mx_set f ex) \<longleftrightarrow> (mx_completion ex \<noteq> None \<and> bit f 2 \<longrightarrow> bit (mx_status ex) 2) \<and> (bit f 10 \<longrightarrow> bit (mx_status ex) 10)"
  "mild ex (mx_indc g ex)" "mild ex (ex\<lparr>mx_premap := p\<rparr>)" "mild ex (ex\<lparr>mx_postmap := q\<rparr>)" "mild ex (ex\<lparr>mx_premap := p, mx_postmap := q\<rparr>)"
  "mild ex (ex\<lparr>mx_msg := m\<rparr>)" "mild ex (ex\<lparr>mx_module := md\<rparr>)"
  by (auto simp: mild_def owed_def mx_set_def mx_indc_def)

lemma mild_clear [simp]: "mild ex (mx_clear f ex) \<longleftrightarrow> (mx_completion ex \<noteq> None \<and> bit f 2 \<longrightarrow> \<not> bit (mx_status ex) 2)"
  by (auto simp: mild_def owed_def mx_clear_def)

lemma mild_trans: "mild ex ex' \<Longrightarrow> mild ex' ex'' \<Longrightarrow> mild ex ex''"
  by (simp add: mild_def)

lemma d_inv_frame [simp]:
  "d_inv ms rs k b (obj\<lparr>pending_evt := pe\<rparr>) = d_inv ms rs k b obj"
  "d_inv ms rs k b (obj\<lparr>exclusive_mdl := x\<rparr>) = d_inv ms rs k b obj"
  by (simp_all add: inv_defs rq_test_def cur_req_def d_test_def sent_def completed_def cong: option.case_cong)

lemma d_inv_notify: "d_inv ms rs k b obj \<Longrightarrow> d_inv ms rs k b (notify_bk_thread obj)"
  by (auto simp: inv_defs notify_bk_thread_def rq_test_def cur_req_def d_test_def sent_def completed_def cong: option.case_cong)

lemma d_inv_flag:
  assumes "d_inv ms rs k b obj"
  shows "\<not> bit f 7 \<Longrightarrow> d_inv ms rs k b (d_set f obj)" and "d_inv ms rs k b (d_clear f obj)"
  using assms by (auto simp: inv_defs d_set_def d_clear_def rq_test_def cur_req_def d_test_def sent_def completed_def cong: option.case_cong)

lemma d_inv_log:
  assumes "d_inv ms rs k b obj" and "sent_of ev = {#}" and "completed_of ev = {#}"
  shows "d_inv ms rs k b (log_event ev obj)"
  using assms by (auto simp: inv_defs log_event_def rq_test_def cur_req_def d_test_def sent_def completed_def cong: option.case_cong)

lemma take_idle:
  assumes "d_inv ms rs k b obj" and "pq_deq (msg_idle_q obj) = Some (i, q)"
  shows "d_inv (i # ms) rs k b (obj\<lparr>msg_idle_q := q\<rparr>)" and "owed (msg_ex_pool obj ! i) = None" and "i < MAX_PHL_MSG_NUM"
proof -
  have q: "pq_queue (msg_idle_q obj) = i # pq_queue q" "pq_counted q"
    using pq_deq_counted [OF _ assms(2)] assms(1) by (auto simp: d_inv_def msg_inv_def)
  then show "d_inv (i # ms) rs k b (obj\<lparr>msg_idle_q := q\<rparr>)" "owed (msg_ex_pool obj ! i) = None" using assms(1)
    by (auto simp: inv_defs rq_test_def cur_req_def d_test_def sent_def completed_def cong: option.case_cong)
  show "i < MAX_PHL_MSG_NUM" using assms(1) q by (intro msg_inv_bound [of ms obj]) (auto simp: d_inv_def)
qed

lemma take_wait:
  assumes "d_inv ms rs (Suc k) b obj" and "pq_deq (msg_wait_q obj) = Some (i, q)"
  shows "d_inv (i # ms) rs k b (obj\<lparr>msg_wait_q := q\<rparr>)"
proof -
  have q: "pq_queue (msg_wait_q obj) = i # pq_queue q" "pq_counted q"
    using pq_deq_counted [OF _ assms(2)] assms(1) by (auto simp: d_inv_def msg_inv_def)
  then show ?thesis using assms(1)
    by (auto simp: inv_defs rq_test_def cur_req_def d_test_def sent_def completed_def cong: option.case_cong)
qed

lemma take_pend:
  assumes "d_inv ms rs k b obj" and "pq_deq (msg_pend_q obj) = Some (i, q)"
  shows "d_inv (i # ms) rs k b (obj\<lparr>msg_pend_q := q\<rparr>)"
proof -
  have q: "pq_queue (msg_pend_q obj) = i # pq_queue q" "pq_counted q"
    using pq_deq_counted [OF _ assms(2)] assms(1) by (auto simp: d_inv_def msg_inv_def)
  then show ?thesis using assms(1)
    by (auto simp: inv_defs rq_test_def cur_req_def d_test_def sent_def completed_def cong: option.case_cong)
qed

lemma put_idle:
  assumes "d_inv (i # ms) rs k b obj" and "owed (msg_ex_pool obj ! i) = None"
  shows "d_inv ms rs k b (obj\<lparr>msg_idle_q := snd (pq_push (msg_idle_q obj) i Pos_tail)\<rparr>)"
  using assms by (auto simp: inv_defs rq_test_def cur_req_def d_test_def sent_def completed_def cong: option.case_cong)

lemma put_pend:
  assumes "d_inv (i # ms) rs k b obj"
  shows "d_inv ms rs k b (obj\<lparr>msg_pend_q := snd (pq_push (msg_pend_q obj) i Pos_tail)\<rparr>)"
  using assms by (auto simp: inv_defs rq_test_def cur_req_def d_test_def sent_def completed_def cong: option.case_cong)

lemma put_wait:
  assumes "d_inv (i # ms) rs k b obj" and "pq_counted q" and "mset (pq_queue q) = add_mset i (mset (pq_queue (msg_wait_q obj)))"
  shows "d_inv ms rs k b (notify_bk_thread (obj\<lparr>msg_wait_q := q\<rparr>))"
proof -
  have "length (pq_queue q) = Suc (length (pq_queue (msg_wait_q obj)))"
    using arg_cong [OF assms(3), of size] by simp
  then show ?thesis using assms
    by (auto simp: inv_defs notify_bk_thread_def rq_test_def cur_req_def d_test_def sent_def completed_def cong: option.case_cong)
qed

lemma mset_pq_insert_loop [simp]: "mset (pq_insert_loop p x xs) = add_mset x (mset xs)"
  by (induction xs) auto

lemma mild_enq: "mild ex ((mx_clear MSG_STATUS_RUN \<circ> mx_set MSG_STATUS_ENQ) ex)"
  by (simp add: mild_trans [of ex "mx_set MSG_STATUS_ENQ ex"])

lemma d_inv_enq: "d_inv ms rs k b obj \<Longrightarrow> d_inv ms rs k b (upd_ex i (mx_clear MSG_STATUS_RUN \<circ> mx_set MSG_STATUS_ENQ) obj)"
  by (erule d_inv_upd_ex) (rule mild_enq)

lemma push_wait_inv: "d_inv (i # ms) rs k b obj \<Longrightarrow> d_inv ms rs k b (dispr_push_back_wait_msg obj i)"
  unfolding dispr_push_back_wait_msg_def Let_def
  by (intro put_wait d_inv_enq) (auto simp: d_inv_def msg_inv_def upd_ex_def)

lemma insert_wait_inv: "d_inv (i # ms) rs k b obj \<Longrightarrow> d_inv ms rs k b (insert_msg_by_priority obj i)"
  unfolding insert_msg_by_priority_def Let_def
  by (intro put_wait d_inv_enq) (auto simp: d_inv_def msg_inv_def upd_ex_def pq_insert_def pq_counted_def)

lemma push_pend_inv: "d_inv (i # ms) rs k b obj \<Longrightarrow> d_inv ms rs k b (push_back_pending_msg obj i)"
  unfolding push_back_pending_msg_def Let_def
  by (drule d_inv_enq [where i = i], intro put_pend) (simp split: if_split)

lemma pop_idle_inv:
  assumes "d_inv ms rs k b obj" and "dispr_pop_front_idle_msg obj = (Some i, obj')"
  shows "d_inv (i # ms) rs k b obj'" and "i < MAX_PHL_MSG_NUM" and "mx_status (msg_ex_pool obj' ! i) = 0" and "mx_completion (msg_ex_pool obj' ! i) = None"
proof -
  obtain q where q: "pq_deq (msg_idle_q obj) = Some (i, q)"
    and obj': "obj' = upd_ex i (\<lambda>ex. \<lparr>mx_status = 0, mx_msg = msg0, mx_premap = replicate MODL_MASK_LEN 0, mx_postmap = replicate MODL_MASK_LEN 0,
                                   mx_completion = None, mx_module = None\<rparr>) (obj\<lparr>msg_idle_q := q\<rparr>)"
    using assms(2) by (auto simp: dispr_pop_front_idle_msg_def split: option.splits)
  show "d_inv (i # ms) rs k b obj'" unfolding obj'
    by (rule d_inv_upd_ex [OF take_idle(1) [OF assms(1) q]]) (use take_idle(2) [OF assms(1) q] in \<open>simp add: mild_def owed_def\<close>)
  show "i < MAX_PHL_MSG_NUM" by (rule take_idle(3) [OF assms(1) q])
  moreover have "length (msg_ex_pool obj) = MAX_PHL_MSG_NUM" using assms(1) by (simp add: d_inv_def msg_inv_def)
  ultimately show "mx_status (msg_ex_pool obj' ! i) = 0" "mx_completion (msg_ex_pool obj' ! i) = None"
    by (simp_all add: obj' upd_ex_def)
qed

lemma pop_wait_inv:
  assumes "d_inv ms rs (Suc k) b obj" and "dispr_pop_front_wait_msg obj = (Some i, obj')"
  shows "d_inv (i # ms) rs k b obj'"
proof -
  obtain q where q: "pq_deq (msg_wait_q obj) = Some (i, q)"
    and obj': "obj' = upd_ex i (mx_clear MSG_STATUS_PENDING \<circ> mx_clear MSG_STATUS_ENQ \<circ> mx_set MSG_STATUS_RUN) (obj\<lparr>msg_wait_q := q\<rparr>)"
    using assms(2) by (auto simp: dispr_pop_front_wait_msg_def split: option.splits)
  have "mild ex ((mx_clear MSG_STATUS_PENDING \<circ> mx_clear MSG_STATUS_ENQ \<circ> mx_set MSG_STATUS_RUN) ex)" for ex
    by (simp add: mild_def owed_def mx_set_def mx_clear_def)
  then show ?thesis unfolding obj' by (rule d_inv_upd_ex [OF take_wait [OF assms(1) q]])
qed

lemma clear_pending_loop_inv: "d_inv ms rs k b obj \<Longrightarrow> d_inv ms rs k b (clear_pending_loop obj)"
proof (induction obj rule: clear_pending_loop.induct)
  case (1 obj)
  show ?case
  proof (cases "pq_deq (msg_pend_q obj)")
    case None
    then show ?thesis using 1(2) by (subst clear_pending_loop.simps) (simp add: pop_front_pending_msg_def)
  next
    case (Some p)
    then obtain i q where q: "pq_deq (msg_pend_q obj) = Some (i, q)" by (cases p) simp
    then have pop: "pop_front_pending_msg obj = (Some i, obj\<lparr>msg_pend_q := q\<rparr>)" by (simp add: pop_front_pending_msg_def)
    have "d_inv (i # ms) rs k b (obj\<lparr>msg_pend_q := q\<rparr>)" by (rule take_pend [OF 1(2) q])
    then have "d_inv ms rs k b (if IS_DISPR_CTRL (mx_evt (obj\<lparr>msg_pend_q := q\<rparr>) i) then insert_msg_by_priority (obj\<lparr>msg_pend_q := q\<rparr>) i
        else dispr_push_back_wait_msg (obj\<lparr>msg_pend_q := q\<rparr>) i)"
      by (simp add: push_wait_inv insert_wait_inv)
    then show ?thesis using 1(1) [OF pop [symmetric] refl] pop by (subst clear_pending_loop.simps) simp
  qed
qed

lemma clear_pending_inv: "d_inv ms rs k b obj \<Longrightarrow> d_inv ms rs k b (clear_pending_msg obj)"
  by (simp add: clear_pending_msg_def clear_pending_loop_inv d_inv_flag)

lemma d_inv_no_abort: "d_inv ms rs k b obj \<Longrightarrow> i < MAX_PHL_MSG_NUM \<Longrightarrow> \<not> mx_test obj i MSG_STATUS_FOR_ABORT"
  by (auto simp: d_inv_def abort_inv_def msg_inv_def mx_test_def)

lemma put_done:
  assumes "d_inv ms rs k b obj" and "i < MAX_PHL_MSG_NUM" and "owed (msg_ex_pool obj ! i) = Some c"
  shows "d_inv ms rs k b (upd_ex i (mx_clear MSG_STATUS_NOTIFY_COMPLETE) (log_event (Ev_complete c m) obj))"
    and "owed (mx_clear MSG_STATUS_NOTIFY_COMPLETE ex) = None"
proof -
  show none: "owed (mx_clear MSG_STATUS_NOTIFY_COMPLETE ex) = None" for ex by (simp add: owed_def mx_clear_def)
  have "outstanding (msg_ex_pool obj) = add_mset c (outstanding ((msg_ex_pool obj)[i := mx_clear MSG_STATUS_NOTIFY_COMPLETE (msg_ex_pool obj ! i)]))"
    using outstanding_upd [of i "msg_ex_pool obj" "mx_clear MSG_STATUS_NOTIFY_COMPLETE (msg_ex_pool obj ! i)"] none assms
    by (simp add: d_inv_def msg_inv_def)
  then have "msg_inv ms (upd_ex i (mx_clear MSG_STATUS_NOTIFY_COMPLETE) (log_event (Ev_complete c m) obj))"
    using assms none unfolding d_inv_def msg_inv_def upd_ex_def log_event_def sent_def completed_def
    by (auto simp: nth_list_update)
  moreover have "abort_inv (upd_ex i (mx_clear MSG_STATUS_NOTIFY_COMPLETE) (log_event (Ev_complete c m) obj))"
    using assms unfolding d_inv_def abort_inv_def upd_ex_def log_event_def d_test_def mx_clear_def msg_inv_def
    by (auto dest!: set_update_subset_insert [THEN subsetD] dest: nth_mem)
  ultimately show "d_inv ms rs k b (upd_ex i (mx_clear MSG_STATUS_NOTIFY_COMPLETE) (log_event (Ev_complete c m) obj))"
    using assms(1) by (auto simp: d_inv_def req_inv_def wake_inv_def upd_ex_def log_event_def rq_test_def cur_req_def cong: option.case_cong)
qed

text \<open>The first part of \<^verbatim>\<open>push_back_idle_msg\<close>: afterwards the message owes nothing.\<close>

lemma completed_inv:
  assumes "d_inv ms rs k b obj" and "i < MAX_PHL_MSG_NUM"
  defines "obj' \<equiv> msg_complete obj i"
  shows "d_inv ms rs k b obj'" and "owed (msg_ex_pool obj' ! i) = None"
proof -
  define obj1 where "obj1 = (if mx_test obj i MSG_STATUS_CANCEL then upd_ex i (mx_indc MSG_INDC_CANCEL) obj else obj)"
  have inv1: "d_inv ms rs k b obj1" using assms(1) by (auto simp: obj1_def intro!: d_inv_upd_ex)
  have len: "length (msg_ex_pool obj) = MAX_PHL_MSG_NUM" using assms(1) by (simp add: d_inv_def msg_inv_def)
  have owed1: "owed (msg_ex_pool obj1 ! i) = owed (msg_ex_pool obj ! i)"
    using assms(2) len by (simp add: obj1_def upd_ex_def owed_def mx_indc_def)
  have "d_inv ms rs k b obj' \<and> owed (msg_ex_pool obj' ! i) = None"
  proof (cases "owed (msg_ex_pool obj ! i)")
    case None
    then have "obj' = obj" by (auto simp: obj'_def msg_complete_def owed_def mx_test_def split: option.splits if_splits)
    then show ?thesis using assms(1) None by simp
  next
    case (Some c)
    then have obj': "obj' = upd_ex i (mx_clear MSG_STATUS_NOTIFY_COMPLETE) (log_event (Ev_complete c (mx_msg (msg_ex_pool obj1 ! i))) obj1)"
      by (auto simp: obj'_def msg_complete_def obj1_def owed_def mx_test_def Let_def split: option.splits if_splits)
    have "length (msg_ex_pool obj1) = MAX_PHL_MSG_NUM" using inv1 by (simp add: d_inv_def msg_inv_def)
    then have "owed (msg_ex_pool obj' ! i) = None" using assms(2) by (simp add: obj' upd_ex_def log_event_def owed_def mx_clear_def)
    then show ?thesis using put_done(1) [OF inv1 assms(2)] owed1 Some obj' by simp
  qed
  then show "d_inv ms rs k b obj'" "owed (msg_ex_pool obj' ! i) = None" by auto
qed

lemma push_idle_inv:
  assumes "d_inv (i # ms) rs k b obj"
  shows "d_inv ms rs k b (dispr_push_back_idle_msg obj i)"
proof -
  have i: "i < MAX_PHL_MSG_NUM" using assms by (intro msg_inv_bound [of "i # ms" obj]) (auto simp: d_inv_def)
  define obj1 where "obj1 = msg_complete obj i"
  have inv1: "d_inv (i # ms) rs k b obj1" and none: "owed (msg_ex_pool obj1 ! i) = None"
    using completed_inv [OF assms i] unfolding obj1_def by auto
  define obj2 where "obj2 = upd_ex i (\<lambda>ex. ex\<lparr>mx_status := 0\<rparr>) obj1"
  have inv2: "d_inv (i # ms) rs k b obj2" unfolding obj2_def
    by (rule d_inv_upd_ex [OF inv1]) (use none in \<open>simp add: mild_def owed_def\<close>)
  have len: "length (msg_ex_pool obj2) = MAX_PHL_MSG_NUM" using inv2 by (simp add: d_inv_def msg_inv_def)
  define obj3 where "obj3 = (if pending_evt obj2 (mx_mdl obj2 i) = mx_evt obj2 i
                 then obj2\<lparr>pending_evt := (pending_evt obj2)(mx_mdl obj2 i := MSG_EVT_MAX)\<rparr> else obj2)"
  have inv3: "d_inv (i # ms) rs k b obj3" using inv2 by (simp add: obj3_def)
  define obj4 where "obj4 = upd_ex i (\<lambda>ex. ex\<lparr>mx_msg := (mx_msg ex)\<lparr>msg_id := 0\<rparr>\<rparr>) obj3"
  have inv4: "d_inv (i # ms) rs k b obj4" unfolding obj4_def by (rule d_inv_upd_ex [OF inv3]) simp
  have "owed (msg_ex_pool obj4 ! i) = None"
    using i len inv1 by (simp add: obj4_def obj3_def obj2_def upd_ex_def owed_def d_inv_def msg_inv_def)
  from put_idle [OF inv4 this] show ?thesis
    using d_inv_no_abort [OF inv1 i] unfolding dispr_push_back_idle_msg_def Let_def
    by (simp only: obj1_def [symmetric] if_False obj2_def [symmetric] obj3_def [symmetric] obj4_def [symmetric])
qed

lemma set_maps_inv:
  assumes "set_maps i f obj = Some obj'" and "d_inv ms rs k b obj" and "i < MAX_PHL_MSG_NUM"
  shows "d_inv ms rs k b obj'" and "mx_status (msg_ex_pool obj' ! i) = mx_status (msg_ex_pool obj ! i)"
    and "mx_completion (msg_ex_pool obj' ! i) = mx_completion (msg_ex_pool obj ! i)"
proof -
  obtain p q where obj': "obj' = upd_ex i (\<lambda>ex. ex\<lparr>mx_premap := p, mx_postmap := q\<rparr>) obj"
    using assms(1) by (auto simp: set_maps_def split: bind_splits)
  then show "d_inv ms rs k b obj'" using d_inv_upd_ex [OF assms(2)] by simp
  have "length (msg_ex_pool obj) = MAX_PHL_MSG_NUM" using assms(2) by (simp add: d_inv_def msg_inv_def)
  then show "mx_status (msg_ex_pool obj' ! i) = mx_status (msg_ex_pool obj ! i)"
    "mx_completion (msg_ex_pool obj' ! i) = mx_completion (msg_ex_pool obj ! i)"
    using assms(3) by (simp_all add: obj' upd_ex_def)
qed

text \<open>What is kept while a new message is filled: the invariant, and that the message has no routine and no owner yet.\<close>

definition filling :: "nat list \<Rightarrow> nat list \<Rightarrow> nat \<Rightarrow> bool \<Rightarrow> nat \<Rightarrow> cmd_dispatcher \<Rightarrow> bool" where
  "filling ms rs k b i obj \<longleftrightarrow> d_inv (i # ms) rs k b obj \<and> i < MAX_PHL_MSG_NUM \<and> \<not> mx_test obj i MSG_STATUS_OWNER_REQ"

lemma filling_maps: "set_maps i f obj = Some obj' \<Longrightarrow> filling ms rs k b i obj \<Longrightarrow> filling ms rs k b i obj' \<and>
    mx_completion (msg_ex_pool obj' ! i) = mx_completion (msg_ex_pool obj ! i)"
  using set_maps_inv [of i f obj obj' "i # ms" rs k b] by (auto simp: filling_def mx_test_def)

lemma filling_bitmap:
  assumes "set_msg_bitmap obj i mid = Some obj'" and "filling ms rs k b i obj"
  shows "filling ms rs k b i obj'" "mx_completion (msg_ex_pool obj' ! i) = mx_completion (msg_ex_pool obj ! i)"
  using assms filling_maps unfolding set_msg_bitmap_def
  by (auto split: bind_splits if_splits dest!: filling_maps)

lemma filling_custom_bitmap:
  assumes "set_msg_custom_bitmap obj i opt arr mid = Some obj'" and "filling ms rs k b i obj"
  shows "filling ms rs k b i obj' \<and> mx_completion (msg_ex_pool obj' ! i) = mx_completion (msg_ex_pool obj ! i)"
proof -
  obtain obj1 where 1: "(if opt AND MSG_OPT_SKIP_NOTIFY_OPT_MDL \<noteq> 0 then set_maps i (\<lambda>_. Some (d_basemap obj)) obj else Some obj) = Some obj1"
    using assms(1) unfolding set_msg_custom_bitmap_def by (auto split: bind_splits)
  then have f1: "filling ms rs k b i obj1" "mx_completion (msg_ex_pool obj1 ! i) = mx_completion (msg_ex_pool obj ! i)"
    using assms(2) filling_maps [of i _ obj obj1] by (auto split: if_splits)
  obtain g obj2 where 2: "set_maps i g obj1 = Some obj2"
    and 3: "(if chk_module obj2 mid then set_maps i (\<lambda>m. add_bitmap_bit m [mid]) obj2 else Some obj2) = Some obj'"
    using assms(1) 1 unfolding set_msg_custom_bitmap_def by (cases "opt AND MSG_OPT_BLIST_PRESENT \<noteq> 0") (auto split: bind_splits)
  show ?thesis using filling_maps [OF 2 f1(1)] f1(2) 3 filling_maps [of i _ obj2 obj'] by (auto split: if_splits)
qed

lemma filling_upd:
  assumes "filling ms rs k b i obj" and "mild (msg_ex_pool obj ! i) (f (msg_ex_pool obj ! i))"
    and "\<not> bit (mx_status (f (msg_ex_pool obj ! i))) 7"
  shows "filling ms rs k b i (upd_ex i f obj)"
  using assms d_inv_upd_ex [of "i # ms" rs k b obj i f]
  by (auto simp: filling_def mx_test_def upd_ex_def d_inv_def msg_inv_def)

lemma filling_sent:
  assumes "filling ms rs k b i obj" and "mx_completion (msg_ex_pool obj ! i) = None"
  shows "filling ms rs k b i (log_event (Ev_sent c) (upd_ex i (\<lambda>ex. (mx_set MSG_STATUS_NOTIFY_COMPLETE ex)\<lparr>mx_completion := Some c\<rparr>) obj))"
proof -
  let ?ex = "(mx_set MSG_STATUS_NOTIFY_COMPLETE (msg_ex_pool obj ! i))\<lparr>mx_completion := Some c\<rparr>"
  let ?obj = "log_event (Ev_sent c) (upd_ex i (\<lambda>ex. (mx_set MSG_STATUS_NOTIFY_COMPLETE ex)\<lparr>mx_completion := Some c\<rparr>) obj)"
  have inv: "d_inv (i # ms) rs k b obj" and i: "i < MAX_PHL_MSG_NUM" using assms(1) by (auto simp: filling_def)
  have len: "length (msg_ex_pool obj) = MAX_PHL_MSG_NUM" using inv by (simp add: d_inv_def msg_inv_def)
  have owed: "owed (msg_ex_pool obj ! i) = None" "owed ?ex = Some c" using assms(2) by (simp_all add: owed_def mx_set_def)
  have out: "outstanding ((msg_ex_pool obj)[i := ?ex]) = add_mset c (outstanding (msg_ex_pool obj))"
    using outstanding_upd [of i "msg_ex_pool obj" ?ex] len i owed by simp
  have "mset (pq_queue (msg_idle_q obj)) + mset (pq_queue (msg_wait_q obj)) + mset (pq_queue (msg_pend_q obj)) + mset (i # ms) = all_below MAX_PHL_MSG_NUM"
    using inv by (simp add: d_inv_def msg_inv_def)
  then have "mset (pq_queue (msg_idle_q obj) @ pq_queue (msg_wait_q obj) @ pq_queue (msg_pend_q obj) @ i # ms) = all_below MAX_PHL_MSG_NUM"
    by (simp add: ac_simps)
  then have "i \<notin> set (pq_queue (msg_idle_q obj))" using all_below_distinct by fastforce
  then have "\<forall>j \<in> set (pq_queue (msg_idle_q obj)). (msg_ex_pool obj)[i := ?ex] ! j = msg_ex_pool obj ! j"
    by (metis nth_list_update_neq)
  then have "msg_inv (i # ms) ?obj"
    using inv out unfolding d_inv_def msg_inv_def upd_ex_def log_event_def sent_def completed_def
    by simp
  moreover have "abort_inv ?obj"
    using inv i unfolding d_inv_def abort_inv_def upd_ex_def log_event_def d_test_def mx_set_def msg_inv_def
    by (auto dest!: set_update_subset_insert [THEN subsetD] dest: nth_mem)
  ultimately have "d_inv (i # ms) rs k b ?obj"
    using inv by (auto simp: d_inv_def req_inv_def wake_inv_def upd_ex_def log_event_def rq_test_def cur_req_def cong: option.case_cong)
  then show ?thesis using assms(1) len by (simp add: filling_def mx_test_def upd_ex_def log_event_def mx_set_def)
qed

lemma filling_attr:
  assumes "send_attr obj i attr mid = Some obj'" and "filling ms rs k b i obj" and "mx_completion (msg_ex_pool obj ! i) = None"
  shows "filling ms rs k b i obj'"
proof -
  obtain obj1 where 1: "set_msg_custom_bitmap obj i (attr_opt attr)
      (case attr_id_arr attr of None \<Rightarrow> [] | Some arr \<Rightarrow> take (unat (attr_len attr)) arr) mid = Some obj1"
    using assms(1) unfolding send_attr_def by (auto split: bind_splits)
  define obj2 where "obj2 = (case attr_completion attr of None \<Rightarrow> obj1
      | Some c \<Rightarrow> log_event (Ev_sent c) (upd_ex i (\<lambda>ex. (mx_set MSG_STATUS_NOTIFY_COMPLETE ex)\<lparr>mx_completion := Some c\<rparr>) obj1))"
  define obj3 where "obj3 = (if TEST_STATUS_FLAG (attr_opt attr) MSG_OPT_CLR_SNDR_MSG_IF_PENDING
                  then upd_ex i (mx_set MSG_STATUS_CLR_SNDR_MSG_IF_PENDING) obj2 else obj2)"
  have f1: "filling ms rs k b i obj1" "mx_completion (msg_ex_pool obj1 ! i) = None"
    using filling_custom_bitmap [OF 1 assms(2)] assms(3) by auto
  have f2: "filling ms rs k b i obj2" using f1 filling_sent [OF f1] unfolding obj2_def by (cases "attr_completion attr") simp_all
  have set: "filling ms rs k b i o' \<Longrightarrow> \<not> bit f 2 \<and> \<not> bit f 7 \<and> \<not> bit f 10 \<Longrightarrow> filling ms rs k b i (upd_ex i (mx_set f) o')" for f o'
    by (rule filling_upd) (auto simp: filling_def mx_test_def, auto simp: mx_set_def)
  have f3: "filling ms rs k b i obj3" using f2 by (auto simp: obj3_def intro!: set)
  have "Some obj' = Some (if TEST_STATUS_FLAG (attr_opt attr) MSG_OPT_PENDING_DURING_CANNOT_IO
             then upd_ex i (mx_set MSG_STATUS_PENDING_DURING_CANNOT_IO) obj3 else obj3)"
    using assms(1) unfolding send_attr_def 1 Option.bind.bind_lunit Let_def obj3_def obj2_def by (rule sym)
  then show ?thesis using f3 by (auto intro!: set)
qed

lemma cur_req_no_permit:
  assumes "req_inv rs obj" and "get_cur_cmd_req_id obj = (mid, st)" and "mid \<noteq> PHL_MDL_ID_MAX"
  shows "\<not> TEST_STATUS_FLAG st REQ_STATUS_LAST_PERMIT"
proof -
  obtain r where cur: "cur_cmd_req obj = Some r" using assms(2,3) by (cases "cur_cmd_req obj") (simp_all add: get_cur_cmd_req_id_def)
  have run: "rq_test obj r REQ_STATUS_RUN"
  proof (rule ccontr)
    assume "\<not> rq_test obj r REQ_STATUS_RUN"
    then have "fst (get_cur_cmd_req_id obj) = PHL_MDL_ID_MAX" by (simp add: get_cur_cmd_req_id_def cur)
    then show False using assms(2,3) by simp
  qed
  have st: "st = rq_status (token_req_ex_pool obj ! r)" using assms(2) by (simp add: get_cur_cmd_req_id_def cur)
  have "r < MAX_CMD_REQ_NUM" using cur by (intro req_inv_bound [OF assms(1)]) (simp add: cur_req_def)
  then have "\<not> rq_test obj r REQ_STATUS_LAST_PERMIT" using assms(1) run unfolding req_inv_def by blast
  then show ?thesis unfolding rq_test_def st .
qed

lemma send_queue_inv:
  assumes "d_inv (i # ms) rs k b obj" and "\<not> (mx_test obj i MSG_STATUS_OWNER_REQ \<and> TEST_STATUS_FLAG st REQ_STATUS_LAST_PERMIT)"
  shows "d_inv ms rs k b (snd (snd (send_queue obj i attr mid st)))"
proof -
  have "d_inv (i # ms) rs k b (upd_ex i (mx_set MSG_STATUS_PRE_PHASE) obj)" by (rule d_inv_upd_ex [OF assms(1)]) simp
  then show ?thesis using assms(2) push_wait_inv insert_wait_inv unfolding send_queue_def Let_def by auto
qed

text \<open>A message is sent: nothing happens, or it is taken, filled and queued.\<close>

lemma send_cases:
  assumes "dispr_send_msg obj msg attr = Some (sts, hdl, obj')"
  obtains "obj' = obj" | i obj1 obj2 obj3 where "dispr_pop_front_idle_msg obj = (Some i, obj1)"
    "set_msg_bitmap (upd_ex i (\<lambda>ex. ex\<lparr>mx_msg := msg\<rparr>) obj1) i (MSG_MDL_ID_FIELD (msg_id msg)) = Some obj2"
    "(case attr of None \<Rightarrow> Some obj2 | Some a \<Rightarrow> send_attr obj2 i a (MSG_MDL_ID_FIELD (msg_id msg))) = Some obj3"
    "(sts, hdl, obj') = send_queue (send_owner obj3 i (MSG_MDL_ID_FIELD (msg_id msg)) (fst (get_cur_cmd_req_id obj))) i attr
       (MSG_MDL_ID_FIELD (msg_id msg)) (snd (get_cur_cmd_req_id obj))"
proof (cases "obj' = obj")
  case False
  obtain cid st where cur: "get_cur_cmd_req_id obj = (cid, st)" by fastforce
  show ?thesis using assms cur False that(2) unfolding dispr_send_msg_def Let_def
    by (auto split: if_splits option.splits prod.splits bind_splits simp: dispr_pop_front_idle_msg_def)
qed (use that in blast)

lemma dispr_send_msg_inv:
  assumes "dispr_send_msg obj msg attr = Some (sts, hdl, obj')" and "d_inv ms rs k b obj" and "MSG_MDL_ID_FIELD (msg_id msg) \<noteq> PHL_MDL_ID_MAX"
  shows "d_inv ms rs k b obj'"
proof -
  obtain cid st where cur: "get_cur_cmd_req_id obj = (cid, st)" by fastforce
  let ?mid = "MSG_MDL_ID_FIELD (msg_id msg)"
  from assms(1) show ?thesis
  proof (cases rule: send_cases)
    case 1
    then show ?thesis using assms(2) by simp
  next
    case (2 i obj1 obj2 obj3)
    note pop = 2(1) and bm = 2(2) and at = 2(3)
    have sq: "obj' = snd (snd (send_queue (send_owner obj3 i ?mid cid) i attr ?mid st))"
      using arg_cong [OF 2(4), of "snd \<circ> snd"] cur by simp
    note p = pop_idle_inv [OF assms(2) pop]
    have "filling ms rs k b i obj1" using p by (simp add: filling_def mx_test_def)
    then have f: "filling ms rs k b i (upd_ex i (\<lambda>ex. ex\<lparr>mx_msg := msg\<rparr>) obj1)" by (rule filling_upd) (use p in auto)
    have "mx_completion (msg_ex_pool (upd_ex i (\<lambda>ex. ex\<lparr>mx_msg := msg\<rparr>) obj1) ! i) = None"
      using p by (simp add: upd_ex_def d_inv_def msg_inv_def)
    then have f2: "filling ms rs k b i obj2" "mx_completion (msg_ex_pool obj2 ! i) = None" using filling_bitmap [OF bm f] by auto
    then have f3: "filling ms rs k b i obj3" using at filling_attr by (auto split: option.splits)
    have inv3: "d_inv (i # ms) rs k b obj3" and len: "length (msg_ex_pool obj3) = MAX_PHL_MSG_NUM" and i: "i < MAX_PHL_MSG_NUM"
      using f3 by (auto simp: filling_def d_inv_def msg_inv_def)
    have mild: "mild ex ((mx_set MSG_STATUS_OWNER_BK_MDL ex)\<lparr>mx_module := m\<rparr>)" for ex m
      by (simp add: mild_def owed_def mx_set_def)
    have inv4: "d_inv (i # ms) rs k b (send_owner obj3 i ?mid cid)"
      using inv3 mild unfolding send_owner_def by (auto intro!: d_inv_upd_ex split: option.splits)
    have "mx_test (send_owner obj3 i ?mid cid) i MSG_STATUS_OWNER_REQ \<Longrightarrow> cid = ?mid"
      using f3 len i unfolding send_owner_def by (auto simp: filling_def mx_test_def upd_ex_def mx_set_def split: option.splits if_splits)
    then have "\<not> (mx_test (send_owner obj3 i ?mid cid) i MSG_STATUS_OWNER_REQ \<and> TEST_STATUS_FLAG st REQ_STATUS_LAST_PERMIT)"
      using cur_req_no_permit [OF _ cur] assms(2,3) by (auto simp: d_inv_def)
    then show ?thesis using send_queue_inv [OF inv4] sq by simp
  qed
qed

text \<open>Sending does not touch the requests.\<close>

definition req_view :: "cmd_dispatcher \<Rightarrow> nat option \<times> phl_cmd_token_req_ex list" where
  "req_view obj = (cur_cmd_req obj, token_req_ex_pool obj)"

lemma req_view_simps [simp]:
  "req_view (upd_ex i f obj) = req_view obj" "req_view (log_event e obj) = req_view obj" "req_view (d_set fl obj) = req_view obj"
  "req_view (d_clear fl obj) = req_view obj" "req_view (notify_bk_thread obj) = req_view obj"
  "req_view (obj\<lparr>pending_evt := pe\<rparr>) = req_view obj" "req_view (obj\<lparr>exclusive_mdl := x\<rparr>) = req_view obj"
  "req_view (obj\<lparr>msg_idle_q := q\<rparr>) = req_view obj" "req_view (obj\<lparr>msg_wait_q := q\<rparr>) = req_view obj"
  "req_view (obj\<lparr>msg_pend_q := q\<rparr>) = req_view obj" "req_view (obj\<lparr>token_op_q := oq\<rparr>) = req_view obj"
  "req_view (obj\<lparr>renew_req_info := info\<rparr>) = req_view obj" "req_view (obj\<lparr>d_script := sc\<rparr>) = req_view obj"
  by (simp_all add: req_view_def upd_ex_def log_event_def d_set_def d_clear_def notify_bk_thread_def)

lemma req_view_push [simp]:
  "req_view (dispr_push_back_wait_msg obj i) = req_view obj" "req_view (insert_msg_by_priority obj i) = req_view obj"
  "req_view (push_back_pending_msg obj i) = req_view obj" "req_view (msg_complete obj i) = req_view obj"
  "req_view (on_abort_msg_complete obj) = req_view obj"
  by (simp_all add: dispr_push_back_wait_msg_def insert_msg_by_priority_def push_back_pending_msg_def msg_complete_def
      on_abort_msg_complete_def push_back_token_op_info_def set_info_def Let_def split: option.splits)

lemma req_view_push_idle [simp]: "req_view (dispr_push_back_idle_msg obj i) = req_view obj"
  by (simp add: dispr_push_back_idle_msg_def Let_def)

lemma req_view_pop: "dispr_pop_front_idle_msg obj = (x, obj') \<Longrightarrow> req_view obj' = req_view obj"
  by (auto simp: dispr_pop_front_idle_msg_def split: option.splits)

lemma req_view_maps: "set_maps i f obj = Some obj' \<Longrightarrow> req_view obj' = req_view obj"
  by (auto simp: set_maps_def split: bind_splits)

lemma req_view_bitmap:
  "set_msg_bitmap obj i mid = Some obj' \<Longrightarrow> req_view obj' = req_view obj"
  "set_msg_custom_bitmap obj i opt arr mid = Some obj' \<Longrightarrow> req_view obj' = req_view obj"
  by (auto simp: set_msg_bitmap_def set_msg_custom_bitmap_def split: bind_splits if_splits dest!: req_view_maps)

lemma req_view_send_attr: "send_attr obj i a mid = Some obj' \<Longrightarrow> req_view obj' = req_view obj"
  by (cases "attr_completion a") (auto simp: send_attr_def Let_def split: bind_splits dest!: req_view_bitmap)

lemma req_view_send_queue [simp]: "req_view (snd (snd (send_queue obj i a mid st))) = req_view obj"
  unfolding send_queue_def Let_def
  by (simp only: if_distrib [of snd] if_distrib [of req_view] snd_conv req_view_simps req_view_push req_view_push_idle if_cancel)

lemma req_view_send_owner [simp]: "req_view (send_owner obj i mid cid) = req_view obj"
  by (simp add: send_owner_def split: option.splits)

lemma req_view_send:
  assumes "dispr_send_msg obj msg attr = Some (sts, hdl, obj')"
  shows "req_view obj' = req_view obj"
  using assms
proof (cases rule: send_cases)
  case (2 i obj1 obj2 obj3)
  have "req_view obj3 = req_view obj2" using 2(3) req_view_send_attr by (auto split: option.splits)
  then show ?thesis using req_view_bitmap(1) [OF 2(2)] req_view_pop [OF 2(1)] arg_cong [OF 2(4), of "req_view \<circ> snd \<circ> snd"] by simp
qed simp

section \<open>Requests\<close>

text \<open>Changes of a request that leave the flags of its place.\<close>

definition mild_rq :: "phl_cmd_token_req_ex \<Rightarrow> phl_cmd_token_req_ex \<Rightarrow> bool" where
  "mild_rq r r' \<longleftrightarrow> (\<forall>n \<in> {0, 1, 3}. bit (rq_status r') n = bit (rq_status r) n)"

lemma d_inv_upd_req:
  assumes "d_inv ms rs k b obj" and "mild_rq (token_req_ex_pool obj ! r) (f (token_req_ex_pool obj ! r))"
  shows "d_inv ms rs k b (upd_req r f obj)"
proof (cases "r < length (token_req_ex_pool obj)")
  case True
  have "rq_test (upd_req r f obj) r' g = rq_test obj r' g" if "g \<in> {1, 2, 8}" for r' g
    using assms(2) True that by (auto simp: rq_test_def upd_req_def mild_rq_def nth_list_update)
  then have "req_inv rs (upd_req r f obj)" using assms(1)
    by (simp add: d_inv_def req_inv_def cur_req_def) (simp add: upd_req_def)
  then show ?thesis using assms(1)
    by (simp add: d_inv_def msg_inv_def abort_inv_def wake_inv_def upd_req_def d_test_def sent_def completed_def)
next
  case False
  then show ?thesis using assms(1) by (simp add: upd_req_def list_update_beyond)
qed

lemma set_info_inv: "d_inv ms rs k b obj \<Longrightarrow> d_inv ms rs k b (set_info nd info obj)"
proof (cases nd)
  case Renew_info
  then show "d_inv ms rs k b obj \<Longrightarrow> ?thesis"
    by (simp add: set_info_def inv_defs rq_test_def cur_req_def d_test_def sent_def completed_def cong: option.case_cong)
qed (auto simp: set_info_def mild_rq_def intro!: d_inv_upd_req)

lemma push_op_inv:
  assumes "d_inv ms rs k b obj"
  shows "d_inv ms rs k b (snd (push_back_token_op_info obj nd t da))"
proof -
  have "d_inv ms rs k b (notify_bk_thread (obj\<lparr>token_op_q := snd (pq_push (token_op_q obj) nd Pos_tail)\<rparr>))" if "d_inv ms rs k b obj" for obj
    using that by (auto simp: inv_defs notify_bk_thread_def rq_test_def cur_req_def d_test_def sent_def completed_def cong: option.case_cong)
  then show ?thesis
    using set_info_inv [OF assms] assms by (simp add: push_back_token_op_info_def Let_def)
qed

lemma take_op:
  assumes "d_inv ms rs k True obj" and "pq_deq (token_op_q obj) = Some (nd, q)"
  shows "d_inv ms rs k True (obj\<lparr>token_op_q := q\<rparr>)"
  using assms pq_deq_counted [OF _ assms(2)]
  by (auto simp: inv_defs rq_test_def cur_req_def d_test_def sent_def completed_def cong: option.case_cong)

lemma ops_done: "d_inv ms rs k True obj \<Longrightarrow> pq_deq (token_op_q obj) = None \<Longrightarrow> d_inv ms rs k b obj"
  by (auto simp: d_inv_def wake_inv_def pq_deq_def pq_pop_def pq_counted_def split: if_splits)

lemma push_free_inv:
  assumes "push_free_info obj i t = Some (sts, obj')" and "d_inv ms rs k b obj"
  shows "d_inv ms rs k b obj'"
proof -
  have "d_inv ms rs k b (upd_req i (rq_set REQ_STATUS_CANCEL) obj)"
    by (rule d_inv_upd_req [OF assms(2)]) (simp add: mild_rq_def rq_set_def)
  from push_op_inv [OF this, of "Free_info i" t "of_nat i"] show ?thesis using assms(1)
    by (auto simp: push_free_info_def Let_def split: if_splits prod.splits)
qed

text \<open>Request \<open>r\<close> moves: the other requests stay where they are, and the flags of \<open>r\<close> tell its new place.\<close>

lemma req_move:
  assumes inv: "d_inv ms rs k b obj"
    and obj': "obj' = obj\<lparr>token_req_ex_pool := (token_req_ex_pool obj)[r := ex], token_req_idle_q := qi, token_req_wait_q := qw,
                          cur_cmd_req := c, token_cnt := int (length (cur_req obj'))\<rparr>"
    and counted: "pq_counted qi" "pq_counted qw"
    and places: "mset (pq_queue qi) + mset (pq_queue qw) + mset (cur_req obj') + mset rs' = all_below MAX_CMD_REQ_NUM"
    and others: "set (pq_queue (token_req_wait_q obj)) \<subseteq> insert r (set (pq_queue qw))" "set rs \<subseteq> insert r (set rs')"
      "cur_cmd_req obj \<in> {None, Some r, c}"
    and flags: "r \<in> set rs' \<or> \<not> bit (rq_status ex) 0 \<or> r \<in> set (pq_queue qw)" "\<not> bit (rq_status ex) 1 \<and> \<not> bit (rq_status ex) 3 \<or> c = Some r"
      "\<not> bit (rq_status ex) 1 \<or> \<not> bit (rq_status ex) 3"
  shows "d_inv ms rs' k b obj'"
proof -
  have req: "req_inv rs obj" and len: "length (token_req_ex_pool obj) = MAX_CMD_REQ_NUM" using inv by (auto simp: d_inv_def req_inv_def)
  have test: "rq_test obj' x g = (if x = r then TEST_STATUS_FLAG (rq_status ex) g else rq_test obj x g)" if "x < MAX_CMD_REQ_NUM" for x g
    using that len by (subst obj') (simp add: rq_test_def nth_list_update)
  have f: "length (token_req_ex_pool obj') = MAX_CMD_REQ_NUM" "token_req_idle_q obj' = qi" "token_req_wait_q obj' = qw" "cur_cmd_req obj' = c"
    "token_cnt obj' = int (length (cur_req obj'))"
    using len by (subst obj', simp)+
  have "req_inv rs' obj'" unfolding req_inv_def f
  proof (intro conjI allI impI)
    fix x :: nat assume x: "x < MAX_CMD_REQ_NUM"
    show "\<not> (rq_test obj' x REQ_STATUS_RUN \<and> rq_test obj' x REQ_STATUS_LAST_PERMIT)"
      using req x flags(3) by (simp add: test req_inv_def)
    { assume "rq_test obj' x REQ_STATUS_RUN \<or> rq_test obj' x REQ_STATUS_LAST_PERMIT"
      then show "c = Some x" using req x flags(2) others(3) by (auto simp: test req_inv_def split: if_splits) }
    { assume "x \<notin> set rs'" "rq_test obj' x REQ_STATUS_ENQ"
      then show "x \<in> set (pq_queue qw)" using req x flags(1) others(1,2) by (auto simp: test req_inv_def split: if_splits) }
  qed (use counted places in simp_all)
  then show ?thesis using inv
    by (subst (asm) obj', subst obj') (simp add: d_inv_def msg_inv_def abort_inv_def wake_inv_def d_test_def sent_def completed_def)
qed

lemma req_distinct:
  assumes "req_inv rs obj"
  shows "distinct (pq_queue (token_req_idle_q obj) @ pq_queue (token_req_wait_q obj) @ cur_req obj @ rs)"
  by (rule all_below_distinct) (use assms in \<open>simp add: req_inv_def ac_simps\<close>)

lemma pop_idle_req_inv:
  assumes "d_inv ms rs k b obj" and "pop_front_idle_req obj = (Some r, obj')"
  shows "d_inv ms (r # rs) k b obj'" and "rq_status (token_req_ex_pool obj' ! r) = 0" and "r < MAX_CMD_REQ_NUM"
proof -
  have req: "req_inv rs obj" using assms(1) by (simp add: d_inv_def)
  obtain q where deq: "pq_deq (token_req_idle_q obj) = Some (r, q)"
    using assms(2) by (auto simp: pop_front_idle_req_def split: option.splits)
  then have q: "pq_queue (token_req_idle_q obj) = r # pq_queue q" "pq_counted q"
    using pq_deq_counted [OF _ deq] req by (auto simp: req_inv_def)
  show r: "r < MAX_CMD_REQ_NUM" by (rule req_inv_bound [OF req]) (simp add: q)
  have obj': "obj' = upd_req r (\<lambda>_. \<lparr>rq_status = 0, rq_req = \<lparr>req_module_id = 0, req_ops = False\<rparr>, rq_add_info = op_info0, rq_free_info = op_info0\<rparr>)
             (obj\<lparr>token_req_idle_q := q\<rparr>)" using assms(2) deq by (simp add: pop_front_idle_req_def)
  then show "rq_status (token_req_ex_pool obj' ! r) = 0" using r req by (simp add: upd_req_def req_inv_def)
  have cur: "cur_req obj' = cur_req obj" "token_cnt obj = int (length (cur_req obj))" using req by (simp_all add: obj' cur_req_def upd_req_def req_inv_def)
  show "d_inv ms (r # rs) k b obj'"
  proof (rule req_move [OF assms(1), where r = r and qi = q and qw = "token_req_wait_q obj" and c = "cur_cmd_req obj"])
    show "obj' = obj\<lparr>token_req_ex_pool := (token_req_ex_pool obj)[r := \<lparr>rq_status = 0, rq_req = \<lparr>req_module_id = 0, req_ops = False\<rparr>,
         rq_add_info = op_info0, rq_free_info = op_info0\<rparr>], token_req_idle_q := q, token_req_wait_q := token_req_wait_q obj,
         cur_cmd_req := cur_cmd_req obj, token_cnt := int (length (cur_req obj'))\<rparr>"
      using cur by (simp add: obj' upd_req_def)
  qed (use req q cur in \<open>auto simp: req_inv_def\<close>)
qed

text \<open>The state of a request that is in no queue: not marked as queued, or just taken.\<close>

lemma push_wait_req_inv:
  assumes "d_inv ms (r # rs) k b obj" and "\<not> rq_test obj r REQ_STATUS_RUN" and "\<not> rq_test obj r REQ_STATUS_LAST_PERMIT"
  shows "d_inv ms rs k b (push_back_wait_req obj r)"
proof -
  have req: "req_inv (r # rs) obj" using assms(1) by (simp add: d_inv_def)
  let ?obj' = "push_back_wait_req obj r"
  have cur: "cur_req ?obj' = cur_req obj" "token_cnt obj = int (length (cur_req obj))"
    using req by (simp_all add: push_back_wait_req_def cur_req_def upd_req_def req_inv_def)
  show ?thesis
  proof (rule req_move [OF assms(1), where r = r and qi = "token_req_idle_q obj" and qw = "snd (pq_push (token_req_wait_q obj) r Pos_tail)"
        and c = "cur_cmd_req obj" and ex = "rq_set REQ_STATUS_ENQ (token_req_ex_pool obj ! r)"])
    show "?obj' = obj\<lparr>token_req_ex_pool := (token_req_ex_pool obj)[r := rq_set REQ_STATUS_ENQ (token_req_ex_pool obj ! r)],
         token_req_idle_q := token_req_idle_q obj, token_req_wait_q := snd (pq_push (token_req_wait_q obj) r Pos_tail),
         cur_cmd_req := cur_cmd_req obj, token_cnt := int (length (cur_req ?obj'))\<rparr>"
      using cur by (simp add: push_back_wait_req_def upd_req_def)
  qed (use req cur assms(2,3) in \<open>auto simp: req_inv_def rq_set_def rq_test_def\<close>)
qed

lemma push_idle_req_inv:
  assumes "d_inv ms (r # rs) k b obj"
  shows "d_inv ms rs k b (push_back_idle_req obj r)"
proof -
  have req: "req_inv (r # rs) obj" using assms(1) by (simp add: d_inv_def)
  let ?ex = "(token_req_ex_pool obj ! r)\<lparr>rq_status := 0\<rparr>"
  define pe where "pe = pending_evt (push_back_idle_req obj r)"
  let ?obj' = "(push_back_idle_req obj r)\<lparr>pending_evt := pending_evt obj\<rparr>"
  have cur: "cur_req ?obj' = cur_req obj" "token_cnt obj = int (length (cur_req obj))"
    using req by (simp_all add: push_back_idle_req_def cur_req_def upd_req_def req_inv_def Let_def)
  have "d_inv ms rs k b ?obj'"
  proof (rule req_move [OF assms(1), where r = r and qi = "snd (pq_push (token_req_idle_q obj) r Pos_tail)" and qw = "token_req_wait_q obj"
        and c = "cur_cmd_req obj" and ex = ?ex])
    show "?obj' = obj\<lparr>token_req_ex_pool := (token_req_ex_pool obj)[r := ?ex],
         token_req_idle_q := snd (pq_push (token_req_idle_q obj) r Pos_tail), token_req_wait_q := token_req_wait_q obj,
         cur_cmd_req := cur_cmd_req obj, token_cnt := int (length (cur_req ?obj'))\<rparr>"
      using cur by (simp add: push_back_idle_req_def upd_req_def Let_def)
  qed (use req cur in \<open>auto simp: req_inv_def\<close>)
  then show ?thesis by simp
qed

lemma pop_wait_req_inv:
  assumes "d_inv ms rs k b obj" and "pop_front_wait_req obj = (Some r, obj')"
  shows "d_inv ms (r # rs) k b obj'" and "\<not> rq_test obj' r REQ_STATUS_ENQ"
proof -
  have req: "req_inv rs obj" using assms(1) by (simp add: d_inv_def)
  obtain q where deq: "pq_deq (token_req_wait_q obj) = Some (r, q)"
    using assms(2) by (auto simp: pop_front_wait_req_def split: option.splits)
  then have q: "pq_queue (token_req_wait_q obj) = r # pq_queue q" "pq_counted q"
    using pq_deq_counted [OF _ deq] req by (auto simp: req_inv_def)
  have r: "r < MAX_CMD_REQ_NUM" by (rule req_inv_bound [OF req]) (simp add: q)
  let ?ex = "(rq_clear REQ_STATUS_ENQ \<circ> rq_set REQ_STATUS_PREPARE) (token_req_ex_pool obj ! r)"
  have obj': "obj' = upd_req r (rq_clear REQ_STATUS_ENQ \<circ> rq_set REQ_STATUS_PREPARE) (obj\<lparr>token_req_wait_q := q\<rparr>)"
    using assms(2) deq by (simp add: pop_front_wait_req_def)
  then show "\<not> rq_test obj' r REQ_STATUS_ENQ" using r req by (simp add: upd_req_def req_inv_def rq_test_def rq_clear_def)
  have cur: "cur_req obj' = cur_req obj" "token_cnt obj = int (length (cur_req obj))"
    using req by (simp_all add: obj' cur_req_def upd_req_def req_inv_def)
  have "r \<notin> set (cur_req obj)" using req_distinct [OF req] q by auto
  then have "\<not> rq_test obj r REQ_STATUS_RUN" "\<not> rq_test obj r REQ_STATUS_LAST_PERMIT"
    using req r by (auto simp: req_inv_def cur_req_def)
  then show "d_inv ms (r # rs) k b obj'"
  proof (intro req_move [OF assms(1), where r = r and qi = "token_req_idle_q obj" and qw = q and c = "cur_cmd_req obj" and ex = ?ex])
    show "obj' = obj\<lparr>token_req_ex_pool := (token_req_ex_pool obj)[r := ?ex], token_req_idle_q := token_req_idle_q obj, token_req_wait_q := q,
         cur_cmd_req := cur_cmd_req obj, token_cnt := int (length (cur_req obj'))\<rparr>"
      using cur by (simp add: obj' upd_req_def)
  qed (use req q cur in \<open>auto simp: req_inv_def rq_test_def rq_set_def rq_clear_def\<close>)
qed

lemma del_wait_req_inv:
  assumes "d_inv ms rs k b obj" and "rq_test obj r REQ_STATUS_ENQ" and "r < MAX_CMD_REQ_NUM" and "r \<notin> set rs"
  shows "d_inv ms (r # rs) k b (obj\<lparr>token_req_wait_q := pq_del_node (token_req_wait_q obj) (Some r)\<rparr>)"
proof -
  have req: "req_inv rs obj" using assms(1) by (simp add: d_inv_def)
  have wait: "r \<in> set (pq_queue (token_req_wait_q obj))" using req assms(2-4) by (auto simp: req_inv_def)
  let ?q = "pq_del_node (token_req_wait_q obj) (Some r)"
  let ?obj' = "obj\<lparr>token_req_wait_q := ?q\<rparr>"
  have q: "pq_queue ?q = remove1 r (pq_queue (token_req_wait_q obj))" "pq_counted ?q"
    using wait req by (auto simp: pq_del_node_def pq_counted_def req_inv_def length_remove1_int)
  then have places: "add_mset r (mset (pq_queue ?q)) = mset (pq_queue (token_req_wait_q obj))" using wait by (simp add: q)
  have cur: "cur_req ?obj' = cur_req obj" "token_cnt obj = int (length (cur_req obj))"
    using req by (simp_all add: cur_req_def upd_req_def req_inv_def)
  have "r \<notin> set (cur_req obj)" using req_distinct [OF req] wait by auto
  then have no: "\<not> rq_test obj r REQ_STATUS_RUN" "\<not> rq_test obj r REQ_STATUS_LAST_PERMIT"
    using req assms(3) by (auto simp: req_inv_def cur_req_def)
  show "d_inv ms (r # rs) k b ?obj'"
  proof (rule req_move [OF assms(1), where r = r and qi = "token_req_idle_q obj" and qw = ?q and c = "cur_cmd_req obj" and ex = "token_req_ex_pool obj ! r"])
    show "?obj' = obj\<lparr>token_req_ex_pool := (token_req_ex_pool obj)[r := token_req_ex_pool obj ! r], token_req_idle_q := token_req_idle_q obj,
        token_req_wait_q := ?q, cur_cmd_req := cur_cmd_req obj, token_cnt := int (length (cur_req ?obj'))\<rparr>"
      using cur by simp
    show "set (pq_queue (token_req_wait_q obj)) \<subseteq> insert r (set (pq_queue ?q))"
      using arg_cong [OF places, of set_mset] by auto
    show "mset (pq_queue (token_req_idle_q obj)) + mset (pq_queue ?q) + mset (cur_req ?obj') + mset (r # rs) = all_below MAX_CMD_REQ_NUM"
      using req cur(1) unfolding req_inv_def places [symmetric] by simp
  qed (use req q cur no in \<open>auto simp: req_inv_def rq_test_def\<close>)
qed

text \<open>Calls of the interface.\<close>

lemma dispr_add_token_req_inv:
  assumes "dispr_add_token_req obj req = Some (sts, hdl, obj')" and "d_inv ms rs k b obj"
  shows "d_inv ms rs k b obj'"
proof (cases "\<not> d_test obj DISPR_STARTED \<or> \<not> chk_cmd_req_ops req \<or> fst (pop_front_idle_req obj) = None")
  case True
  then show ?thesis using assms
    by (auto simp: dispr_add_token_req_def pop_front_idle_req_def split: if_splits option.splits prod.splits)
next
  case False
  then obtain r obj1 where pop: "pop_front_idle_req obj = (Some r, obj1)" by (cases "pop_front_idle_req obj") auto
  let ?obj2 = "upd_req r (\<lambda>x. x\<lparr>rq_req := req\<rparr>) obj1"
  note p = pop_idle_req_inv [OF assms(2) pop]
  have 2: "d_inv ms (r # rs) k b ?obj2" by (rule d_inv_upd_req [OF p(1)]) (simp add: mild_rq_def)
  have "rq_status (token_req_ex_pool ?obj2 ! r) = 0" using p by (simp add: upd_req_def d_inv_def req_inv_def)
  then have "d_inv ms rs k b (push_back_wait_req ?obj2 r)" by (intro push_wait_req_inv 2) (simp_all add: rq_test_def)
  from push_op_inv [OF this, of "Add_info r" TOKEN_OP_ADD_CMD_REQ "of_nat r"] show ?thesis using assms(1) False pop
    by (auto simp: dispr_add_token_req_def Let_def split: if_splits)
qed

lemma cancel_msg_inv: "d_inv ms rs k b obj \<Longrightarrow> d_inv ms rs k b (cancel_msg obj i)"
  unfolding cancel_msg_def by (erule d_inv_upd_ex) (simp add: dispr_cancel_ex_def mild_def owed_def mx_set_def)

lemma dispr_clr_pending_inv: "d_inv ms rs k b obj \<Longrightarrow> d_inv ms rs k b (dispr_clr_pending_msg obj)"
  unfolding dispr_clr_pending_msg_def by (intro d_inv_notify d_inv_flag(1)) simp_all

lemma bk_msg_mdl [simp]: "MSG_MDL_ID_FIELD (msg_id (bk_msg mid evt)) = mid"
proof -
  have "(0xFF :: u32) = mask 8" by (simp add: mask_eq_exp_minus_1)
  then have "bit (0xFF :: u32) n" if "n < 8" for n using that by (simp only: bit_mask_iff) simp
  then show ?thesis unfolding MSG_MDL_ID_FIELD_def bk_msg_def
    by (intro bit_word_eqI) (auto simp: bit_simps dest: bit_imp_le_length)
qed

lemma send_bk_inv:
  assumes "d_inv ms rs k b obj"
  shows "send_bk_msg_phy_on obj = Some obj' \<Longrightarrow> d_inv ms rs k b obj' \<and> req_view obj' = req_view obj"
    and "send_bk_msg_phy_idle obj = Some obj' \<Longrightarrow> d_inv ms rs k b obj' \<and> req_view obj' = req_view obj"
    and "send_dev_io_status_change obj allow = Some (sts, hdl, obj') \<Longrightarrow> d_inv ms rs k b obj' \<and> req_view obj' = req_view obj"
  using assms by (auto simp: send_bk_msg_phy_on_def send_bk_msg_phy_idle_def send_dev_io_status_change_def
      intro: dispr_send_msg_inv req_view_send)

lemma clr_pending_view [simp]: "req_view (dispr_clr_pending_msg obj) = req_view obj"
  by (simp add: dispr_clr_pending_msg_def)

lemma io_status_inv:
  assumes "dispr_notify_dev_io_status obj mid allow = Some (sts, obj')" and "d_inv ms rs k b obj"
  shows "d_inv ms rs k b obj' \<and> req_view obj' = req_view obj"
proof -
  have set: "d_inv ms rs k b ((d_set DISPR_CANNOT_IO obj)\<lparr>exclusive_mdl := mid\<rparr>)"
    "d_inv ms rs k b ((d_clear DISPR_CANNOT_IO obj)\<lparr>exclusive_mdl := PHL_MDL_ID_MAX\<rparr>)"
    using assms(2) by (simp_all add: d_inv_flag)
  show ?thesis
  proof (cases "allow \<longleftrightarrow> d_test obj DISPR_CANNOT_IO")
    case True
    show ?thesis
    proof (cases allow)
      case True
      then obtain hdl obj1 where 1: "send_dev_io_status_change ((d_clear DISPR_CANNOT_IO obj)\<lparr>exclusive_mdl := PHL_MDL_ID_MAX\<rparr>) allow = Some (sts, hdl, obj1)"
        and obj': "obj' = dispr_clr_pending_msg obj1" using \<open>allow \<longleftrightarrow> _\<close> assms(1) by (auto simp: dispr_notify_dev_io_status_def)
      show ?thesis using send_bk_inv(3) [OF set(2) 1] by (simp add: obj' dispr_clr_pending_inv)
    next
      case False
      then obtain hdl where 1: "send_dev_io_status_change ((d_set DISPR_CANNOT_IO obj)\<lparr>exclusive_mdl := mid\<rparr>) allow = Some (sts, hdl, obj')"
        using \<open>allow \<longleftrightarrow> _\<close> assms(1) by (auto simp: dispr_notify_dev_io_status_def)
      show ?thesis using send_bk_inv(3) [OF set(1) 1] by simp
    qed
  qed (use assms in \<open>auto simp: dispr_notify_dev_io_status_def\<close>)
qed

lemma cur_simps [simp]:
  "cur_cmd_req (upd_req i f obj) = cur_cmd_req obj" "cur_cmd_req (set_info nd info obj) = cur_cmd_req obj"
  "cur_cmd_req (notify_bk_thread obj) = cur_cmd_req obj"
  by (simp_all add: upd_req_def set_info_def notify_bk_thread_def split: op_node.splits)

lemma push_op_cur [simp]: "cur_cmd_req (snd (push_back_token_op_info obj nd t da)) = cur_cmd_req obj"
  by (simp add: push_back_token_op_info_def Let_def)

lemma add_req_cur: "dispr_add_token_req obj req = Some (sts, hdl, obj') \<Longrightarrow> cur_cmd_req obj' = cur_cmd_req obj"
  by (auto simp: dispr_add_token_req_def pop_front_idle_req_def push_back_wait_req_def Let_def split: if_splits option.splits)

lemma push_free_cur: "push_free_info obj i t = Some (sts, obj') \<Longrightarrow> cur_cmd_req obj' = cur_cmd_req obj"
  using push_op_cur [of "upd_req i (rq_set REQ_STATUS_CANCEL) obj" "Free_info i" t "of_nat i"]
  by (auto simp: push_free_info_def Let_def simp del: push_op_cur split: if_splits prod.splits)

lemma run_call_inv:
  assumes "run_call c obj = Some obj'" and "d_inv ms rs k b obj" and "call_ok c"
  shows "d_inv ms rs k b obj' \<and> cur_cmd_req obj' = cur_cmd_req obj"
proof (cases c)
  case (Call_send msg attr)
  then show ?thesis using assms by (auto intro: dispr_send_msg_inv dest: req_view_send simp: req_view_def)
next
  case (Call_cancel_msg hdl)
  then show ?thesis using assms by (auto simp: dispr_cancel_msg_def Let_def cancel_msg_inv, auto simp: cancel_msg_def upd_ex_def)
next
  case Call_clr_pending
  then show ?thesis using assms clr_pending_view [of obj] by (auto simp: dispr_clr_pending_inv req_view_def simp del: clr_pending_view)
next
  case (Call_add_req req)
  then show ?thesis using assms by (auto dest: dispr_add_token_req_inv add_req_cur)
next
  case (Call_cancel_req hdl)
  then show ?thesis using assms
    by (auto simp: dispr_cancel_token_req_def Let_def split: if_splits dest: push_free_inv push_free_cur)
next
  case (Call_free_token hdl)
  then show ?thesis using assms
    by (auto simp: dispr_free_token_def Let_def split: if_splits dest: push_free_inv push_free_cur)
next
  case (Call_io_status mid allow)
  then show ?thesis using assms by (auto dest!: io_status_inv simp: req_view_def)
qed

lemma run_calls_inv:
  "run_calls cs obj = Some obj' \<Longrightarrow> d_inv ms rs k b obj \<Longrightarrow> list_all call_ok cs \<Longrightarrow> d_inv ms rs k b obj' \<and> cur_cmd_req obj' = cur_cmd_req obj"
proof (induction cs arbitrary: obj)
  case (Cons c cs)
  then obtain obj1 where "run_call c obj = Some obj1" "run_calls cs obj1 = Some obj'" by (auto split: bind_splits)
  then show ?case using Cons.IH [of obj1] run_call_inv [of c obj obj1] Cons.prems by simp
qed simp

fun is_call :: "dispr_event \<Rightarrow> bool" where
  "is_call (Ev_sent c) \<longleftrightarrow> False"
| "is_call (Ev_complete c m) \<longleftrightarrow> False"
| "is_call _ \<longleftrightarrow> True"

lemma callback_inv:
  assumes "callback ev obj = Some (ret, obj')" and "d_inv ms rs k b obj" and "is_call ev"
  shows "d_inv ms rs k b obj' \<and> cur_cmd_req obj' = cur_cmd_req obj"
proof -
  obtain cs rest where sc: "d_script obj = (ret, cs) # rest" and run: "run_calls cs (log_event ev (obj\<lparr>d_script := rest\<rparr>)) = Some obj'"
    using assms(1) by (auto simp: callback_def split: list.splits bind_splits)
  have ok: "list_all call_ok cs" using assms(2) sc by (simp add: d_inv_def script_ok_def)
  have "d_inv ms rs k b (obj\<lparr>d_script := rest\<rparr>)" using assms(2) sc
    by (auto simp: inv_defs script_ok_def rq_test_def cur_req_def d_test_def sent_def completed_def cong: option.case_cong)
  then have "d_inv ms rs k b (log_event ev (obj\<lparr>d_script := rest\<rparr>))" by (rule d_inv_log) (use assms(3) in \<open>cases ev; simp\<close>)+
  from run_calls_inv [OF run this ok] show ?thesis by (simp add: log_event_def)
qed

lemma clear_pending_loop_view: "req_view (clear_pending_loop obj) = req_view obj"
proof (induction obj rule: clear_pending_loop.induct)
  case (1 obj)
  show ?case
  proof (cases "pop_front_pending_msg obj")
    case (Pair x obj1)
    then have v: "req_view obj1 = req_view obj" by (auto simp: pop_front_pending_msg_def split: option.splits)
    show ?thesis
    proof (cases x)
      case None
      then show ?thesis using Pair v by (subst clear_pending_loop.simps) simp
    next
      case (Some i)
      then show ?thesis using Pair v 1 [of x obj1 i] by (subst clear_pending_loop.simps) simp
    qed
  qed
qed

lemma clear_pending_view [simp]: "req_view (clear_pending_msg obj) = req_view obj"
  by (simp add: clear_pending_msg_def clear_pending_loop_view)

lemma cancel_view [simp]: "req_view (cancel_msg obj i) = req_view obj"
  by (simp add: cancel_msg_def)

lemma cancel_req_msg_inv: "d_inv ms rs k b obj \<Longrightarrow> d_inv ms rs k b (cancel_req_msg mid obj i) \<and> req_view (cancel_req_msg mid obj i) = req_view obj"
  unfolding cancel_req_msg_def Let_def
  by (auto intro!: clear_pending_inv dispr_clr_pending_inv cancel_msg_inv d_inv_upd_ex)

lemma cancel_req_msgs_inv:
  "d_inv ms rs k b obj \<Longrightarrow> d_inv ms rs k b (foldl (cancel_req_msg mid) obj is) \<and> req_view (foldl (cancel_req_msg mid) obj is) = req_view obj"
proof (induction "is" arbitrary: obj)
  case (Cons i "is")
  then show ?case using Cons.IH [of "cancel_req_msg mid obj i"] cancel_req_msg_inv [OF Cons.prems, of mid i] by simp
qed simp

text \<open>The current request keeps its place when its flags change.\<close>

lemma cur_flags_inv:
  assumes "d_inv ms rs k b obj" and "cur_cmd_req obj = Some r"
    and "bit (rq_status (f (token_req_ex_pool obj ! r))) 0 = bit (rq_status (token_req_ex_pool obj ! r)) 0"
    and "\<not> bit (rq_status (f (token_req_ex_pool obj ! r))) 1 \<or> \<not> bit (rq_status (f (token_req_ex_pool obj ! r))) 3"
  shows "d_inv ms rs k b (upd_req r f obj)"
proof -
  have req: "req_inv rs obj" using assms(1) by (simp add: d_inv_def)
  have cur: "cur_req (upd_req r f obj) = cur_req obj" "token_cnt obj = int (length (cur_req obj))"
    using req by (simp_all add: cur_req_def req_inv_def)
  have r: "r < MAX_CMD_REQ_NUM" by (rule req_inv_bound [OF req]) (simp add: cur_req_def assms(2))
  have "r \<in> set rs \<or> \<not> bit (rq_status (f (token_req_ex_pool obj ! r))) 0 \<or> r \<in> set (pq_queue (token_req_wait_q obj))"
    using req r assms(3) by (auto simp: req_inv_def rq_test_def)
  then show ?thesis
  proof (intro req_move [OF assms(1), where r = r and qi = "token_req_idle_q obj" and qw = "token_req_wait_q obj" and c = "cur_cmd_req obj"
        and ex = "f (token_req_ex_pool obj ! r)"])
    show "upd_req r f obj = obj\<lparr>token_req_ex_pool := (token_req_ex_pool obj)[r := f (token_req_ex_pool obj ! r)],
        token_req_idle_q := token_req_idle_q obj, token_req_wait_q := token_req_wait_q obj, cur_cmd_req := cur_cmd_req obj,
        token_cnt := int (length (cur_req (upd_req r f obj)))\<rparr>"
      using cur by (simp add: upd_req_def)
  qed (use req cur assms(2,4) in \<open>auto simp: req_inv_def\<close>)
qed

text \<open>The end of \<^verbatim>\<open>deregister_cur_cmd_req\<close>.\<close>

lemma cur_done_inv:
  assumes "d_inv ms rs k b obj" and "cur_cmd_req obj = Some r"
  shows "d_inv ms rs k b ((push_back_idle_req obj r)\<lparr>token_cnt := token_cnt (push_back_idle_req obj r) - 1, cur_cmd_req := None\<rparr>)"
proof -
  have req: "req_inv rs obj" using assms(1) by (simp add: d_inv_def)
  let ?ex = "(token_req_ex_pool obj ! r)\<lparr>rq_status := 0\<rparr>"
  let ?new = "(push_back_idle_req obj r)\<lparr>token_cnt := token_cnt (push_back_idle_req obj r) - 1, cur_cmd_req := None\<rparr>"
  let ?obj' = "?new\<lparr>pending_evt := pending_evt obj\<rparr>"
  have cur: "cur_req ?obj' = []" "cur_req obj = [r]" "token_cnt obj = 1"
    using req assms(2) by (simp_all add: cur_req_def req_inv_def)
  have "d_inv ms rs k b ?obj'"
  proof (rule req_move [OF assms(1), where r = r and qi = "snd (pq_push (token_req_idle_q obj) r Pos_tail)" and qw = "token_req_wait_q obj"
        and c = None and ex = ?ex])
    show "?obj' = obj\<lparr>token_req_ex_pool := (token_req_ex_pool obj)[r := ?ex],
         token_req_idle_q := snd (pq_push (token_req_idle_q obj) r Pos_tail), token_req_wait_q := token_req_wait_q obj,
         cur_cmd_req := None, token_cnt := int (length (cur_req ?obj'))\<rparr>"
      using cur by (simp add: push_back_idle_req_def upd_req_def Let_def)
  qed (use req cur assms(2) in \<open>auto simp: req_inv_def\<close>)
  then show ?thesis by simp
qed

lemma deregister_inv:
  assumes "deregister_cur_cmd_req obj notify = Some obj'" and "d_inv ms rs k b obj"
  shows "d_inv ms rs k b obj' \<and> cur_cmd_req obj' = None"
proof (cases "cur_cmd_req obj")
  case None
  then show ?thesis using assms by (simp add: deregister_cur_cmd_req_def)
next
  case (Some r)
  define obj1 where "obj1 = upd_req r (rq_clear REQ_STATUS_RUN) obj"
  define obj2 where "obj2 = foldl (cancel_req_msg (req_module_id (rq_req (token_req_ex_pool obj1 ! r)))) obj1 [0 ..< MAX_PHL_MSG_NUM]"
  have req: "req_inv rs obj" using assms(2) by (simp add: d_inv_def)
  have r: "r < MAX_CMD_REQ_NUM" by (rule req_inv_bound [OF req]) (simp add: cur_req_def Some)
  have 1: "d_inv ms rs k b obj1" unfolding obj1_def by (rule cur_flags_inv [OF assms(2) Some]) (simp_all add: rq_clear_def)
  note 2 = cancel_req_msgs_inv [OF 1, of "req_module_id (rq_req (token_req_ex_pool obj1 ! r))" "[0 ..< MAX_PHL_MSG_NUM]", folded obj2_def]
  have cur2: "cur_cmd_req obj2 = Some r" using 2 Some by (simp add: req_view_def obj1_def)
  have run2: "\<not> bit (rq_status (token_req_ex_pool obj2 ! r)) 1"
    using 2 r req by (simp add: req_view_def obj1_def upd_req_def rq_clear_def req_inv_def)
  have body: "obj' = (push_back_idle_req obj3 r)\<lparr>token_cnt := token_cnt (push_back_idle_req obj3 r) - 1, cur_cmd_req := None\<rparr>"
    if "(if notify then do { (ret, obj) \<leftarrow> callback (Ev_abort r) (upd_req r (rq_set REQ_STATUS_LAST_PERMIT) obj2);
                       Some (upd_req r (rq_clear REQ_STATUS_LAST_PERMIT) obj) } else Some obj2) = Some obj3" for obj3
    using assms(1) that unfolding deregister_cur_cmd_req_def Some option.case Let_def obj1_def [symmetric] obj2_def [symmetric] by simp
  obtain obj3 where 3: "(if notify then do { (ret, obj) \<leftarrow> callback (Ev_abort r) (upd_req r (rq_set REQ_STATUS_LAST_PERMIT) obj2);
                       Some (upd_req r (rq_clear REQ_STATUS_LAST_PERMIT) obj) } else Some obj2) = Some obj3"
    using assms(1) unfolding deregister_cur_cmd_req_def Some option.case Let_def obj1_def [symmetric] obj2_def [symmetric]
    by (auto split: bind_splits)
  have "d_inv ms rs k b obj3 \<and> cur_cmd_req obj3 = Some r"
  proof (cases notify)
    case True
    then obtain ret obj4 where 4: "callback (Ev_abort r) (upd_req r (rq_set REQ_STATUS_LAST_PERMIT) obj2) = Some (ret, obj4)"
      and obj3: "obj3 = upd_req r (rq_clear REQ_STATUS_LAST_PERMIT) obj4" using 3 by (auto split: bind_splits)
    have "d_inv ms rs k b (upd_req r (rq_set REQ_STATUS_LAST_PERMIT) obj2)"
      by (rule cur_flags_inv) (use 2 cur2 run2 in \<open>auto simp: rq_set_def\<close>)
    from callback_inv [OF 4 this] have inv4: "d_inv ms rs k b obj4" "cur_cmd_req obj4 = Some r" using cur2 by auto
    then show ?thesis unfolding obj3 by (auto intro!: cur_flags_inv simp: rq_clear_def)
  qed (use 2 3 cur2 in auto)
  then show ?thesis using body [OF 3] cur_done_inv by auto
qed

lemma register_inv:
  assumes "register_cur_cmd_req obj r = Some (ok, obj')" and "d_inv ms (r # rs) k b obj" and "cur_cmd_req obj = None"
    and "\<not> rq_test obj r REQ_STATUS_ENQ"
  shows "d_inv ms rs k b obj' \<and> (\<not> ok \<longrightarrow> cur_cmd_req obj' = None)"
proof -
  have req: "req_inv (r # rs) obj" using assms(2) by (simp add: d_inv_def)
  have r: "r < MAX_CMD_REQ_NUM" by (rule req_inv_bound [OF req]) simp
  let ?ex = "(rq_clear REQ_STATUS_PREPARE \<circ> rq_set REQ_STATUS_RUN) (token_req_ex_pool obj ! r)"
  define obj1 where "obj1 = upd_req r (rq_clear REQ_STATUS_PREPARE \<circ> rq_set REQ_STATUS_RUN) obj"
  define obj2 where "obj2 = obj1\<lparr>cur_cmd_req := Some r, token_cnt := token_cnt obj1 + 1\<rparr>"
  have cur: "cur_req obj2 = [r]" "token_cnt obj = 0" "cur_req obj = []" using req assms(3) by (simp_all add: cur_req_def req_inv_def obj2_def)
  have no: "\<not> rq_test obj r REQ_STATUS_LAST_PERMIT" using req r assms(3) by (auto simp: req_inv_def)
  have 2: "d_inv ms rs k b obj2"
  proof (rule req_move [OF assms(2), where r = r and qi = "token_req_idle_q obj" and qw = "token_req_wait_q obj" and c = "Some r" and ex = ?ex])
    show "obj2 = obj\<lparr>token_req_ex_pool := (token_req_ex_pool obj)[r := ?ex], token_req_idle_q := token_req_idle_q obj,
        token_req_wait_q := token_req_wait_q obj, cur_cmd_req := Some r, token_cnt := int (length (cur_req obj2))\<rparr>"
      using cur by (simp add: obj2_def obj1_def upd_req_def)
  qed (use req cur no assms(3,4) in \<open>auto simp: req_inv_def rq_test_def rq_set_def rq_clear_def\<close>)
  obtain ret obj3 where 3: "callback (Ev_acquired r) obj2 = Some (ret, obj3)"
    and rest: "(if ret = MDL_RET_FAIL then map_option (\<lambda>obj. (False, obj)) (deregister_cur_cmd_req obj3 False) else Some (True, obj3)) = Some (ok, obj')"
    using assms(1) unfolding register_cur_cmd_req_def obj2_def obj1_def Let_def by (auto split: bind_splits)
  have "d_inv ms rs k b obj3" using callback_inv [OF 3 2] by simp
  then show ?thesis using rest deregister_inv [of obj3 False obj'] by (auto split: if_splits)
qed

lemma process_token_loop_inv:
  assumes "process_token_loop obj = Some obj'" and "d_inv ms rs k b obj" and "cur_cmd_req obj = None"
  shows "d_inv ms rs k b obj'"
  using assms
proof (induction obj obj' rule: process_token_loop.raw_induct [rotated, consumes 1, case_names 1])
  case (1 loop obj obj')
  obtain x obj1 where pop: "pop_front_wait_req obj = (x, obj1)" by fastforce
  show ?case
  proof (cases x)
    case None
    then have "obj1 = obj" using pop by (auto simp: pop_front_wait_req_def split: option.splits)
    then have 2: "(if d_test obj DISPR_NOTIFY_IDLE then Some obj else send_bk_msg_phy_idle (d_set DISPR_NOTIFY_IDLE obj)) = Some obj'"
      using 1(2) pop None by simp
    have "d_inv ms rs k b (d_set DISPR_NOTIFY_IDLE obj)" by (rule d_inv_flag [OF 1(3)]) simp
    from send_bk_inv(2) [OF this, of obj'] show ?thesis using 2 1(3) by (simp split: if_splits)
  next
    case (Some r)
    note p = pop_wait_req_inv [OF 1(3) pop [unfolded Some]]
    have cur1: "cur_cmd_req obj1 = None" using pop 1(4) by (auto simp: pop_front_wait_req_def split: option.splits)
    obtain obj2 ok obj3 where 2: "(if d_test obj1 DISPR_NOTIFY_IDLE then send_bk_msg_phy_on (d_clear DISPR_NOTIFY_IDLE obj1) else Some obj1) = Some obj2"
      and 3: "register_cur_cmd_req obj2 r = Some (ok, obj3)" and rest: "(if ok then Some obj3 else loop obj3) = Some obj'"
      using 1(2) unfolding pop Some prod.case option.case by (auto split: bind_splits)
    have "d_inv ms (r # rs) k b obj2 \<and> req_view obj2 = req_view obj1"
      using 2 p(1) send_bk_inv(1) [OF d_inv_flag(2) [OF p(1)], of DISPR_NOTIFY_IDLE obj2] by (simp split: if_splits)
    then have "d_inv ms rs k b obj3 \<and> (\<not> ok \<longrightarrow> cur_cmd_req obj3 = None)"
      using p(2) cur1 by (intro register_inv [OF 3]) (auto simp: req_view_def rq_test_def)
    then show ?thesis using rest 1(1) [of obj3 obj'] by (auto split: if_splits)
  qed
qed

lemma dispr_process_token_req_inv:
  assumes "dispr_process_token_req obj = Some obj'" and "d_inv ms rs k b obj"
  shows "d_inv ms rs k b obj'"
proof (cases "\<not> d_test obj DISPR_STARTED \<or> token_cnt obj > 0 \<or> d_test obj DISPR_WAIT_ABORT_MSG_DONE")
  case False
  then have "cur_cmd_req obj = None" using assms(2) by (auto simp: d_inv_def req_inv_def cur_req_def split: option.splits)
  then show ?thesis using assms False process_token_loop_inv by (auto simp: dispr_process_token_req_def)
qed (use assms in \<open>auto simp: dispr_process_token_req_def\<close>)

lemma handle_token_op_info_inv:
  assumes "handle_token_op_info obj nd = Some obj'" and "d_inv ms [] k b obj"
  shows "d_inv ms [] k b obj'"
proof -
  let ?r = "unat (op_data (get_info obj nd))"
  have dereg: "d_inv ms [] k b o'" if "deregister_cur_cmd_req obj n \<bind> dispr_process_token_req = Some o'" for n o'
    using that dispr_process_token_req_inv deregister_inv [of obj n] assms(2) by (auto split: bind_splits)
  have del: "d_inv ms [] k b o'" if "rq_test obj ?r REQ_STATUS_ENQ" "?r < MAX_CMD_REQ_NUM"
    "callback (Ev_abort ?r) (obj\<lparr>token_req_wait_q := pq_del_node (token_req_wait_q obj) (Some ?r)\<rparr>) = Some (ret, obj1)"
    "o' = push_back_idle_req obj1 ?r" for ret obj1 o'
    using callback_inv [OF that(3)] del_wait_req_inv [OF assms(2) that(1,2)] push_idle_req_inv that(4) by auto
  show ?thesis using assms dereg del dispr_process_token_req_inv [of obj]
    by (cases "op_type (get_info obj nd)") (auto simp: handle_token_op_info_def Let_def split: if_splits bind_splits)
qed

lemma token_op_hanler_inv:
  assumes "token_op_hanler obj = Some obj'" and "d_inv ms [] k True obj"
  shows "d_inv ms [] k b obj'"
  using assms
proof (induction obj obj' rule: token_op_hanler.raw_induct [rotated, consumes 1, case_names 1])
  case (1 loop obj obj')
  show ?case
  proof (cases "pq_deq (token_op_q obj)")
    case None
    then show ?thesis using 1(2,3) ops_done by auto
  next
    case (Some p)
    then obtain nd q where deq: "pq_deq (token_op_q obj) = Some (nd, q)" by (cases p) simp
    then obtain obj1 where 2: "handle_token_op_info (obj\<lparr>token_op_q := q\<rparr>) nd = Some obj1"
      and rest: "loop (set_info nd ((get_info obj1 nd)\<lparr>op_used := False\<rparr>) obj1) = Some obj'"
      using 1(2) by (auto split: bind_splits)
    show ?thesis by (rule 1(1) [OF rest]) (rule set_info_inv [OF handle_token_op_info_inv [OF 2 take_op [OF 1(3) deq]]])
  qed
qed

lemma mild_comp: "mild ex (g ex) \<Longrightarrow> mild (g ex) (f (g ex)) \<Longrightarrow> mild ex ((f \<circ> g) ex)"
  by (simp add: mild_def)

lemma cur_req_hdl_inv: "cur_req_hdl obj i = Some obj' \<Longrightarrow> d_inv ms rs k b obj \<Longrightarrow> d_inv ms rs k b obj'"
  by (auto simp: cur_req_hdl_def split: option.splits if_splits dest: callback_inv)

lemma notify_msg_fail_inv:
  assumes "notify_msg_fail obj i ret = Some obj'" and "d_inv ms rs k b obj"
  shows "d_inv ms rs k b obj'"
proof -
  define obj1 where "obj1 = upd_ex i (mx_indc MSG_INDC_FAIL \<circ> mx_set MSG_STATUS_FAIL) obj"
  define obj2 where "obj2 = (if ret = MDL_RET_CANNOT_IO then upd_ex i (mx_indc MSG_INDC_CANNOT_IO) obj1 else obj1)"
  have "d_inv ms rs k b obj1" unfolding obj1_def by (intro d_inv_upd_ex [OF assms(2)] mild_comp) simp_all
  then have 2: "d_inv ms rs k b obj2" by (auto simp: obj2_def intro: d_inv_upd_ex)
  obtain obj3 where 3: "(case mx_module (msg_ex_pool obj2 ! i) of
                None \<Rightarrow> Some obj2
              | Some m \<Rightarrow>
                  if mx_test obj2 i MSG_STATUS_OWNER_BK_MDL \<and> (IS_DISPR_CTRL (mx_mdl obj2 i) \<or> chk_module obj2 m)
                  then map_option snd (callback (Ev_msg m (mx_msg (msg_ex_pool obj2 ! i))) obj2) else Some obj2) = Some obj3"
    and rest: "(if mx_test obj3 i MSG_STATUS_OWNER_REQ then cur_req_hdl obj3 i else Some obj3) = Some obj'"
    using assms(1) unfolding notify_msg_fail_def Let_def obj1_def [symmetric] obj2_def [symmetric]
    by (auto split: bind_splits)
  have "d_inv ms rs k b obj3" using 3 2 by (auto split: option.splits if_splits dest: callback_inv)
  then show ?thesis using rest by (auto split: if_splits dest: cur_req_hdl_inv)
qed

lemma feed_mdl_msg_inv:
  assumes "feed_mdl_msg obj m i = Some (ret, obj')" and "d_inv ms rs k b obj"
  shows "d_inv ms rs k b obj'"
proof -
  let ?rsvd = "\<lambda>ex. ex\<lparr>mx_msg := (mx_msg ex)\<lparr>msg_rsvd := (msg_rsvd (mx_msg ex))[0 := unat m]\<rparr>\<rparr>"
  let ?clr = "\<lambda>ex. if MSG_INDC_FIELD (msg_id (mx_msg ex)) AND MSG_INDC_PRE_PHASE \<noteq> 0
                                        then ex\<lparr>mx_premap := clr_bit (mx_premap ex) m\<rparr>
                                        else ex\<lparr>mx_postmap := clr_bit (mx_postmap ex) m\<rparr>"
  obtain obj1 where 1: "callback (Ev_msg m (mx_msg (msg_ex_pool obj ! i))) obj = Some (ret, obj1)"
    and rest: "(if ret = MDL_RET_FAIL \<or> ret = MDL_RET_CANNOT_IO then notify_msg_fail (upd_ex i ?rsvd obj1) i ret
              else if ret = MDL_RET_PENDING then Some (upd_ex i (mx_set MSG_STATUS_PENDING) obj1)
              else Some (upd_ex i ?clr obj1)) = Some obj'"
    using assms(1) unfolding feed_mdl_msg_def by (auto split: bind_splits)
  have inv1: "d_inv ms rs k b obj1" using callback_inv [OF 1 assms(2)] by simp
  have "d_inv ms rs k b (upd_ex i ?rsvd obj1)" "d_inv ms rs k b (upd_ex i (mx_set MSG_STATUS_PENDING) obj1)" "d_inv ms rs k b (upd_ex i ?clr obj1)"
    by (rule d_inv_upd_ex [OF inv1], simp)+
  then show ?thesis using rest by (auto split: if_splits dest: notify_msg_fail_inv)
qed

lemma feed_mdls_inv: "feed_mdls pre mdls i obj = Some (stop, obj') \<Longrightarrow> d_inv ms rs k b obj \<Longrightarrow> d_inv ms rs k b obj'"
  by (induction pre mdls i obj rule: feed_mdls.induct) (auto split: if_splits bind_splits dest: feed_mdl_msg_inv)

lemma phase_loop_inv: "phase_loop pre pri ps i obj = Some obj' \<Longrightarrow> d_inv ms rs k b obj \<Longrightarrow> d_inv ms rs k b obj'"
proof (induction ps arbitrary: obj)
  case (Cons p ps)
  let ?owner = "owner_id (msg_ex_pool obj ! i)"
  obtain stop obj1 where 1: "(if pri = p \<and> mask_has (phase_map pre (msg_ex_pool obj ! i)) ?owner
                      then map_option (\<lambda>(ret, obj). (STOP_DISPATCH_MSG ret, obj)) (feed_mdl_msg obj ?owner i)
                      else Some (False, obj)) = Some (stop, obj1)"
    and 2: "(if stop then Some obj1 else do {
         (stop, obj) \<leftarrow> feed_mdls pre (if pre then pq_queue (module_q obj1 ! p) else rev (pq_queue (module_q obj1 ! p))) i obj1;
         if stop then Some obj else phase_loop pre pri ps i obj }) = Some obj'"
    using Cons.prems(1) unfolding phase_loop.simps Let_def by (auto split: bind_splits)
  have inv1: "d_inv ms rs k b obj1" using 1 Cons.prems(2) by (auto split: if_splits dest: feed_mdl_msg_inv)
  show ?case
  proof (cases stop)
    case False
    then obtain stop2 obj2 where "feed_mdls pre (if pre then pq_queue (module_q obj1 ! p) else rev (pq_queue (module_q obj1 ! p))) i obj1 = Some (stop2, obj2)"
      and "(if stop2 then Some obj2 else phase_loop pre pri ps i obj2) = Some obj'" using 2 by (auto split: bind_splits)
    then show ?thesis using feed_mdls_inv [OF _ inv1] Cons.IH by (auto split: if_splits)
  qed (use 2 inv1 in simp)
qed simp

lemma msg_phase_inv:
  "msg_pre_phase_hdl obj i = Some obj' \<Longrightarrow> d_inv ms rs k b obj \<Longrightarrow> d_inv ms rs k b obj'"
  "msg_post_phase_hdl obj i = Some obj' \<Longrightarrow> d_inv ms rs k b obj \<Longrightarrow> d_inv ms rs k b obj'"
  unfolding msg_pre_phase_hdl_def msg_post_phase_hdl_def by (rule phase_loop_inv; assumption)+

lemma redirect_chk_inv:
  assumes "redirect_chk obj i go = Some obj'" and "d_inv (i # ms) rs k b obj"
    and "\<And>obj'. d_inv (i # ms) rs k b obj \<Longrightarrow> go obj = Some obj' \<Longrightarrow> d_inv ms rs k b obj'"
  shows "d_inv ms rs k b obj'"
  using assms by (auto simp: redirect_chk_def msg_recycle_def msg_reschedule_def split: if_splits intro: push_idle_inv push_pend_inv push_wait_inv)

lemma msg_invalid_inv: "d_inv (i # ms) rs k b obj \<Longrightarrow> d_inv ms rs k b (msg_invalid obj i)"
  unfolding msg_invalid_def msg_recycle_def by (intro push_idle_inv d_inv_upd_ex) simp_all

lemma get_msg_bitmap_inv: "get_msg_bitmap obj i = (pre, obj') \<Longrightarrow> d_inv ms rs k b obj \<Longrightarrow> d_inv ms rs k b obj'"
  by (auto simp: get_msg_bitmap_def split: if_splits intro!: d_inv_upd_ex)

lemma msg_dispatch_post_inv:
  assumes "msg_dispatch_post pre obj i = Some obj'" and "d_inv (i # ms) rs k b obj"
  shows "d_inv ms rs k b obj'"
proof (cases "is_bitmap_empty (phase_map pre (msg_ex_pool obj ! i))")
  case True
  obtain pre1 obj1 where 1: "get_msg_bitmap (upd_ex i (mx_clear MSG_STATUS_PRE_PHASE) obj) i = (pre1, obj1)" by fastforce
  have inv1: "d_inv (i # ms) rs k b obj1" by (rule get_msg_bitmap_inv [OF 1]) (rule d_inv_upd_ex [OF assms(2)], simp)
  obtain obj2 where 2: "(if is_bitmap_empty (phase_map pre1 (msg_ex_pool obj1 ! i)) then Some obj1 else msg_post_phase_hdl obj1 i) = Some obj2"
    and 3: "redirect_chk obj2 i (\<lambda>obj. if is_bitmap_empty (phase_map pre1 (msg_ex_pool obj ! i))
            then do { obj \<leftarrow> cur_req_hdl obj i; Some (msg_recycle obj i) } else Some (msg_invalid obj i)) = Some obj'"
    using assms(1) True 1 unfolding msg_dispatch_post_def by (auto split: bind_splits)
  have inv2: "d_inv (i # ms) rs k b obj2" using 2 inv1 by (auto split: if_splits dest: msg_phase_inv)
  show ?thesis
    by (rule redirect_chk_inv [OF 3 inv2])
      (auto split: if_splits bind_splits simp: msg_recycle_def intro: msg_invalid_inv push_idle_inv dest: cur_req_hdl_inv)
qed (use assms in \<open>auto simp: msg_dispatch_post_def msg_invalid_inv\<close>)

lemma notify_controller_inv: "notify_dispr_controller obj i = Some obj' \<Longrightarrow> d_inv ms rs k b obj \<Longrightarrow> d_inv ms rs k b obj'"
  by (auto simp: notify_dispr_controller_def split: if_splits dest: feed_mdl_msg_inv)

lemma msg_dispatch_inv:
  assumes "msg_dispatch obj i = Some obj'" and "d_inv (i # ms) rs k b obj"
  shows "d_inv ms rs k b obj'"
proof -
  obtain pre obj1 where 1: "get_msg_bitmap obj i = (pre, obj1)" by fastforce
  have inv1: "d_inv (i # ms) rs k b obj1" by (rule get_msg_bitmap_inv [OF 1 assms(2)])
  have step: "d_inv ms rs k b o'"
    if st: "(if c then msg_pre_phase_hdl o1 i else Some o1) \<bind> (\<lambda>o2. redirect_chk o2 i (\<lambda>obj. msg_dispatch_post pre obj i)) = Some o'"
      and "d_inv (i # ms) rs k b o1" for c o1 o'
  proof -
    obtain o2 where "(if c then msg_pre_phase_hdl o1 i else Some o1) = Some o2"
      and 3: "redirect_chk o2 i (\<lambda>obj. msg_dispatch_post pre obj i) = Some o'"
      using st unfolding Option.bind_eq_Some_conv by blast
    then have "d_inv (i # ms) rs k b o2" using that(2) by (auto split: if_splits dest: msg_phase_inv)
    from redirect_chk_inv [OF 3 this] show ?thesis by (blast intro: msg_dispatch_post_inv)
  qed
  have go: "d_inv ms rs k b o'"
    if st: "notify_dispr_controller o1 i \<bind> (\<lambda>obj. redirect_chk obj i (\<lambda>obj.
            (if MSG_INDC_FIELD (msg_id (mx_msg (msg_ex_pool obj ! i))) AND MSG_INDC_PRE_PHASE \<noteq> 0 \<and>
                        \<not> is_bitmap_empty (phase_map pre (msg_ex_pool obj ! i))
                     then msg_pre_phase_hdl obj i else Some obj) \<bind> (\<lambda>obj. redirect_chk obj i (\<lambda>obj. msg_dispatch_post pre obj i)))) = Some o'"
      and "d_inv (i # ms) rs k b o1" for o1 o'
  proof -
    obtain o2 where "notify_dispr_controller o1 i = Some o2" and 3: "redirect_chk o2 i (\<lambda>obj.
            (if MSG_INDC_FIELD (msg_id (mx_msg (msg_ex_pool obj ! i))) AND MSG_INDC_PRE_PHASE \<noteq> 0 \<and>
                        \<not> is_bitmap_empty (phase_map pre (msg_ex_pool obj ! i))
                     then msg_pre_phase_hdl obj i else Some obj) \<bind> (\<lambda>obj. redirect_chk obj i (\<lambda>obj. msg_dispatch_post pre obj i))) = Some o'"
      using st by (auto split: bind_splits)
    then have "d_inv (i # ms) rs k b o2" using that(2) by (blast intro: notify_controller_inv)
    from redirect_chk_inv [OF 3 this] step show ?thesis by blast
  qed
  show ?thesis using assms(1) unfolding msg_dispatch_def 1 Let_def prod.case
    by (elim redirect_chk_inv [OF _ inv1]) (rule go)
qed

lemma is_msg_canceled_inv: "is_msg_canceled obj i = (c, obj') \<Longrightarrow> d_inv ms rs k b obj \<Longrightarrow> d_inv ms rs k b obj'"
  by (auto simp: is_msg_canceled_def Let_def split: if_splits intro!: d_inv_upd_ex mild_comp)

lemma dispr_thread_loop_inv:
  assumes "dispr_thread_loop_hdl obj = Some obj'" and "d_inv [] [] 1 True obj"
  shows "d_inv [] [] 0 False obj'"
proof -
  obtain obj1 where 1: "token_op_hanler (clear_pending_msg obj) = Some obj1"
    and rest: "(case dispr_pop_front_wait_msg obj1 of
         (None, obj) \<Rightarrow> Some obj
       | (Some i, obj) \<Rightarrow>
           let (canceled, obj) = is_msg_canceled obj i in
           if canceled then Some (dispr_push_back_idle_msg obj i)
           else msg_dispatch (upd_ex i (\<lambda>ex. ex\<lparr>mx_premap := and_bitmaps (d_bitmap obj) (mx_premap ex),
                                              mx_postmap := and_bitmaps (d_bitmap obj) (mx_postmap ex)\<rparr>) obj) i) = Some obj'"
    using assms(1) unfolding dispr_thread_loop_hdl_def by (auto split: bind_splits)
  have inv1: "d_inv [] [] 1 False obj1" by (rule token_op_hanler_inv [OF 1 clear_pending_inv [OF assms(2)]])
  obtain x obj2 where pop: "dispr_pop_front_wait_msg obj1 = (x, obj2)" by fastforce
  show ?thesis
  proof (cases x)
    case None
    then have "obj2 = obj1" "pq_deq (msg_wait_q obj1) = None" using pop by (auto simp: dispr_pop_front_wait_msg_def split: option.splits)
    then show ?thesis using inv1 rest pop None
      by (auto simp: d_inv_def wake_inv_def msg_inv_def pq_deq_def pq_pop_def pq_counted_def split: if_splits)
  next
    case (Some i)
    have inv2: "d_inv [i] [] 0 False obj2" using pop_wait_inv [of "[]" "[]" 0 False obj1 i obj2] inv1 pop Some by simp
    obtain c obj3 where 3: "is_msg_canceled obj2 i = (c, obj3)" by fastforce
    have inv3: "d_inv [i] [] 0 False obj3" by (rule is_msg_canceled_inv [OF 3 inv2])
    have "d_inv [i] [] 0 False (upd_ex i (\<lambda>ex. ex\<lparr>mx_premap := and_bitmaps (d_bitmap obj3) (mx_premap ex),
                                              mx_postmap := and_bitmaps (d_bitmap obj3) (mx_postmap ex)\<rparr>) obj3)"
      by (rule d_inv_upd_ex [OF inv3]) simp
    then show ?thesis using rest push_idle_inv [OF inv3] unfolding pop Some 3 option.case prod.case Let_def
      by (auto split: if_splits intro: msg_dispatch_inv)
  qed
qed

end
