(* ===== verification/Phl_Dispr_Run.thy ===== *)
theory Phl_Dispr_Run
  imports Phl_Dispr_Inv
begin

text \<open>
  Whole runs of the command dispatcher: the start establishes the invariant, a stopped dispatcher ends its thread, and the
  order in which modules get a message.
\<close>

section \<open>Stopping\<close>

lemma d_inv_mono: "d_inv ms rs k b obj \<Longrightarrow> k \<le> k' \<Longrightarrow> b \<longrightarrow> b' \<Longrightarrow> d_inv ms rs k' b' obj"
  by (auto simp: d_inv_def wake_inv_def)

text \<open>What is left alone by the handling of queued messages.\<close>

definition stop_view :: "cmd_dispatcher \<Rightarrow> (phl_mdl_ret_code \<times> dispr_call list) list \<times> bool \<times> nat option" where
  "stop_view obj = (d_script obj, d_test obj DISPR_STARTED, cur_cmd_req obj)"

lemma stop_view_simps [simp]:
  "stop_view (upd_ex i f obj) = stop_view obj" "stop_view (log_event e obj) = stop_view obj" "stop_view (notify_bk_thread obj) = stop_view obj"
  "stop_view (obj\<lparr>pending_evt := pe\<rparr>) = stop_view obj"
  "stop_view (obj\<lparr>msg_idle_q := q\<rparr>) = stop_view obj" "stop_view (obj\<lparr>msg_wait_q := q\<rparr>) = stop_view obj"
  "stop_view (obj\<lparr>msg_pend_q := q\<rparr>) = stop_view obj" "stop_view (obj\<lparr>token_op_q := oq\<rparr>) = stop_view obj"
  "stop_view (upd_req r g obj) = stop_view obj"
  "stop_view (obj\<lparr>renew_req_info := info\<rparr>) = stop_view obj"
  "\<not> bit fl 1 \<Longrightarrow> stop_view (d_set fl obj) = stop_view obj" "\<not> bit fl 1 \<Longrightarrow> stop_view (d_clear fl obj) = stop_view obj"
  by (simp_all add: stop_view_def upd_ex_def upd_req_def log_event_def d_set_def d_clear_def notify_bk_thread_def d_test_def)

lemma stop_view_push [simp]:
  "stop_view (dispr_push_back_wait_msg obj i) = stop_view obj" "stop_view (insert_msg_by_priority obj i) = stop_view obj"
  "stop_view (msg_complete obj i) = stop_view obj" "stop_view (on_abort_msg_complete obj) = stop_view obj"
  by (simp_all add: dispr_push_back_wait_msg_def insert_msg_by_priority_def msg_complete_def
      on_abort_msg_complete_def push_back_token_op_info_def set_info_def Let_def split: option.splits)

lemma stop_view_push_idle [simp]: "stop_view (dispr_push_back_idle_msg obj i) = stop_view obj"
  by (simp add: dispr_push_back_idle_msg_def Let_def)

lemma clear_pending_loop_stop: "stop_view (clear_pending_loop obj) = stop_view obj"
proof (induction obj rule: clear_pending_loop.induct)
  case (1 obj)
  obtain x obj1 where pop: "pop_front_pending_msg obj = (x, obj1)" by fastforce
  then have v: "stop_view obj1 = stop_view obj" by (auto simp: pop_front_pending_msg_def split: option.splits)
  show ?case
  proof (cases x)
    case None
    then show ?thesis using pop v by (subst clear_pending_loop.simps) simp
  next
    case (Some i)
    then show ?thesis using pop v 1 [of x obj1 i] by (subst clear_pending_loop.simps) simp
  qed
qed

lemma cancel_req_msg_stop [simp]: "stop_view (cancel_req_msg mid obj i) = stop_view obj"
  by (simp add: cancel_req_msg_def cancel_msg_def dispr_clr_pending_msg_def clear_pending_msg_def clear_pending_loop_stop Let_def)

lemma foldl_cancel_stop [simp]: "stop_view (foldl (cancel_req_msg mid) obj is) = stop_view obj"
  by (induction "is" arbitrary: obj) simp_all

text \<open>The loops over the messages.\<close>

lemma pend_to_wait_inv:
  "d_inv ms rs k b obj \<Longrightarrow> d_inv ms rs k b (pend_to_wait obj) \<and> pq_queue (msg_pend_q (pend_to_wait obj)) = [] \<and> stop_view (pend_to_wait obj) = stop_view obj"
proof (induction obj rule: pend_to_wait.induct)
  case (1 obj)
  show ?case
  proof (cases "pq_deq (msg_pend_q obj)")
    case None
    then have "pop_front_pending_msg obj = (None, obj)" by (simp add: pop_front_pending_msg_def)
    moreover have "pq_queue (msg_pend_q obj) = []" using None 1(2)
      by (auto simp: d_inv_def msg_inv_def pq_deq_def pq_pop_def pq_counted_def split: if_splits)
    ultimately show ?thesis using 1(2) by (subst (1 2 3) pend_to_wait.simps) simp
  next
    case (Some p)
    then obtain i q where q: "pq_deq (msg_pend_q obj) = Some (i, q)" by (cases p) simp
    then have pop: "pop_front_pending_msg obj = (Some i, obj\<lparr>msg_pend_q := q\<rparr>)" by (simp add: pop_front_pending_msg_def)
    have "d_inv ms rs k b (dispr_push_back_wait_msg (obj\<lparr>msg_pend_q := q\<rparr>) i)" by (intro push_wait_inv take_pend [OF 1(2) q])
    from 1(1) [OF pop [symmetric] refl this] show ?thesis using pop by (subst (1 2 3) pend_to_wait.simps) simp
  qed
qed

lemma pend_q_push_idle [simp]: "msg_pend_q (dispr_push_back_idle_msg obj i) = msg_pend_q obj"
  by (simp add: dispr_push_back_idle_msg_def msg_complete_def on_abort_msg_complete_def push_back_token_op_info_def set_info_def
      notify_bk_thread_def upd_ex_def log_event_def d_clear_def Let_def split: option.splits)

lemma wait_to_idle_inv:
  "d_inv ms rs k b obj \<Longrightarrow> d_inv ms rs k b (wait_to_idle obj) \<and> pq_queue (msg_wait_q (wait_to_idle obj)) = [] \<and>
    msg_pend_q (wait_to_idle obj) = msg_pend_q obj \<and> stop_view (wait_to_idle obj) = stop_view obj"
proof (induction obj rule: wait_to_idle.induct)
  case (1 obj)
  show ?case
  proof (cases "pq_deq (msg_wait_q obj)")
    case None
    then have "dispr_pop_front_wait_msg obj = (None, obj)" by (simp add: dispr_pop_front_wait_msg_def)
    moreover have "pq_queue (msg_wait_q obj) = []" using None 1(2)
      by (auto simp: d_inv_def msg_inv_def pq_deq_def pq_pop_def pq_counted_def split: if_splits)
    ultimately show ?thesis using 1(2) by (subst (1 2 3 4) wait_to_idle.simps) simp
  next
    case (Some p)
    then obtain i obj1 where pop: "dispr_pop_front_wait_msg obj = (Some i, obj1)" by (cases p) (simp add: dispr_pop_front_wait_msg_def)
    then have v: "stop_view obj1 = stop_view obj" "msg_pend_q obj1 = msg_pend_q obj"
      by (auto simp: dispr_pop_front_wait_msg_def upd_ex_def [of _ _ "obj\<lparr>msg_wait_q := _\<rparr>"] stop_view_def d_test_def split: option.splits)
    have "d_inv (i # ms) rs k b obj1" by (rule pop_wait_inv [OF _ pop]) (rule d_inv_mono [OF 1(2)], simp_all)
    from 1(1) [OF pop [symmetric] refl push_idle_inv [OF this]] show ?thesis using pop v by (subst (1 2 3 4) wait_to_idle.simps) simp
  qed
qed

lemma outstanding_none: "(\<And>ex. ex \<in> set pool \<Longrightarrow> owed ex = None) \<Longrightarrow> outstanding pool = {#}"
  by (induction pool) (auto simp: outstanding_def)

lemma all_idle_done:
  assumes "d_inv [] rs k b obj" and "pq_queue (msg_wait_q obj) = []" and "pq_queue (msg_pend_q obj) = []"
  shows "pq_cnt (msg_idle_q obj) = int MAX_PHL_MSG_NUM" and "completed obj = sent obj"
proof -
  have inv: "msg_inv [] obj" using assms(1) by (simp add: d_inv_def)
  have all: "mset (pq_queue (msg_idle_q obj)) = all_below MAX_PHL_MSG_NUM" using inv assms(2,3) by (simp add: msg_inv_def)
  have "length (pq_queue (msg_idle_q obj)) = MAX_PHL_MSG_NUM" using arg_cong [OF all, of size] unfolding all_below_def size_mset by simp
  then show "pq_cnt (msg_idle_q obj) = int MAX_PHL_MSG_NUM" using inv by (simp add: msg_inv_def pq_counted_def)
  have "set (pq_queue (msg_idle_q obj)) = {0 ..< MAX_PHL_MSG_NUM}" using arg_cong [OF all, of set_mset] by (simp add: all_below_def)
  then have "owed ex = None" if "ex \<in> set (msg_ex_pool obj)" for ex
    using inv that by (auto simp: msg_inv_def in_set_conv_nth)
  then have "outstanding (msg_ex_pool obj) = {#}" by (rule outstanding_none)
  then show "completed obj = sent obj" using inv by (simp add: msg_inv_def)
qed

lemma clear_waiting_msg_returns:
  assumes "d_inv [] rs k b obj"
  shows "\<exists>obj'. clear_waiting_msg obj = Some obj' \<and> d_inv [] rs k b obj' \<and> pq_cnt (msg_idle_q obj') = int MAX_PHL_MSG_NUM \<and>
    stop_view obj' = stop_view obj"
proof (cases "pq_cnt (msg_idle_q obj) = int MAX_PHL_MSG_NUM")
  case True
  then show ?thesis using assms by (subst clear_waiting_msg.simps) simp
next
  case False
  let ?obj' = "wait_to_idle (pend_to_wait obj)"
  note p = pend_to_wait_inv [OF assms] and w = wait_to_idle_inv [of "[]" rs k b "pend_to_wait obj"]
  have "d_inv [] rs k b ?obj'" "pq_cnt (msg_idle_q ?obj') = int MAX_PHL_MSG_NUM" "stop_view ?obj' = stop_view obj"
    using p w all_idle_done(1) [of rs k b ?obj'] by auto
  moreover have "clear_waiting_msg obj = clear_waiting_msg ?obj'" using False by (subst clear_waiting_msg.simps) simp
  moreover have "clear_waiting_msg ?obj' = Some ?obj'" using calculation(2) by (subst clear_waiting_msg.simps) simp
  ultimately show ?thesis by simp
qed

text \<open>A stopped dispatcher: a call changes flags, the semaphore and the exclusive module.\<close>

definition flags_only :: "cmd_dispatcher \<Rightarrow> cmd_dispatcher \<Rightarrow> bool" where
  "flags_only obj obj' \<longleftrightarrow> \<not> d_test obj' DISPR_STARTED \<and> (\<forall>n. n \<noteq> 5 \<and> n \<noteq> 8 \<longrightarrow> bit (d_status obj') n = bit (d_status obj) n) \<and>
     obj' = obj\<lparr>d_status := d_status obj', msg_q_sema := msg_q_sema obj', exclusive_mdl := exclusive_mdl obj'\<rparr>"

lemma flags_only_refl: "\<not> d_test obj DISPR_STARTED \<Longrightarrow> flags_only obj obj"
  by (simp add: flags_only_def)

lemma flags_only_trans: "flags_only o1 o2 \<Longrightarrow> flags_only o2 o3 \<Longrightarrow> flags_only o1 o3"
  by (cases o1, cases o2, cases o3) (simp add: flags_only_def d_test_def)

lemma send_stopped: "\<not> d_test obj DISPR_STARTED \<Longrightarrow> dispr_send_msg obj msg attr = Some (RTW_PHL_STATUS_UNEXPECTED_ERROR, 0, obj)"
  by (simp add: dispr_send_msg_def Let_def split: prod.splits)

lemma flag_bit: "bit (32 :: int) n \<longleftrightarrow> n = 5" "bit (256 :: int) n \<longleftrightarrow> n = 8"
  using bit_exp_iff [where ?'a = int, of 5 n] bit_exp_iff [where ?'a = int, of 8 n] by auto

lemma run_call_stopped:
  assumes "\<not> d_test obj DISPR_STARTED"
  shows "\<exists>obj'. run_call c obj = Some obj' \<and> flags_only obj obj'"
proof (cases c)
  case (Call_io_status mid allow)
  then show ?thesis using assms
    by (auto simp: dispr_notify_dev_io_status_def send_dev_io_status_change_def send_stopped flags_only_def dispr_clr_pending_msg_def
        notify_bk_thread_def d_set_def d_clear_def d_test_def flag_bit)
qed (use assms in \<open>auto simp: send_stopped dispr_cancel_msg_def dispr_add_token_req_def dispr_cancel_token_req_def dispr_free_token_def
      dispr_clr_pending_msg_def notify_bk_thread_def d_set_def d_test_def flags_only_def flag_bit\<close>)

lemma run_calls_stopped: "\<not> d_test obj DISPR_STARTED \<Longrightarrow> \<exists>obj'. run_calls cs obj = Some obj' \<and> flags_only obj obj'"
proof (induction cs arbitrary: obj)
  case (Cons c cs)
  obtain obj1 where 1: "run_call c obj = Some obj1" "flags_only obj obj1" using run_call_stopped [OF Cons.prems] by blast
  then have "\<not> d_test obj1 DISPR_STARTED" by (simp add: flags_only_def)
  from Cons.IH [OF this] 1 show ?case by (auto intro: flags_only_trans)
qed (simp add: flags_only_refl)

lemma callback_stopped:
  assumes "\<not> d_test obj DISPR_STARTED" and "d_script obj \<noteq> []"
  shows "\<exists>ret obj'. callback ev obj = Some (ret, obj') \<and> \<not> d_test obj' DISPR_STARTED \<and> d_script obj' = tl (d_script obj) \<and>
    token_req_wait_q obj' = token_req_wait_q obj \<and> cur_cmd_req obj' = cur_cmd_req obj \<and> msg_idle_q obj' = msg_idle_q obj"
proof -
  obtain ret cs rest where sc: "d_script obj = (ret, cs) # rest" using assms(2) by (cases "d_script obj") auto
  let ?obj = "log_event ev (obj\<lparr>d_script := rest\<rparr>)"
  have "\<not> d_test ?obj DISPR_STARTED" using assms(1) by (simp add: d_test_def log_event_def)
  from run_calls_stopped [OF this] obtain obj' where run: "run_calls cs ?obj = Some obj'" and fl: "flags_only ?obj obj'" by blast
  have "d_script obj' = rest" "token_req_wait_q obj' = token_req_wait_q obj" "cur_cmd_req obj' = cur_cmd_req obj" "msg_idle_q obj' = msg_idle_q obj"
    using fl by (subst fl [unfolded flags_only_def, THEN conjunct2, THEN conjunct2], simp add: log_event_def)+
  moreover have "\<not> d_test obj' DISPR_STARTED" using fl by (simp add: flags_only_def)
  ultimately show ?thesis using run sc by (auto simp: callback_def)
qed

lemma stop_view_idle_req [simp]: "stop_view (push_back_idle_req obj r) = stop_view obj"
  by (simp add: push_back_idle_req_def Let_def) (simp add: stop_view_def d_test_def upd_req_def)

lemma deregister_stopped:
  assumes "\<not> d_test obj DISPR_STARTED" and "d_script obj \<noteq> []"
  shows "\<exists>obj'. deregister_cur_cmd_req obj True = Some obj' \<and> \<not> d_test obj' DISPR_STARTED \<and>
    length (d_script obj) \<le> length (d_script obj') + 1"
proof (cases "cur_cmd_req obj")
  case None
  then show ?thesis using assms by (simp add: deregister_cur_cmd_req_def)
next
  case (Some r)
  define obj1 where "obj1 = upd_req r (rq_clear REQ_STATUS_RUN) obj"
  define obj2 where "obj2 = foldl (cancel_req_msg (req_module_id (rq_req (token_req_ex_pool obj1 ! r)))) obj1 [0 ..< MAX_PHL_MSG_NUM]"
  define obj3 where "obj3 = upd_req r (rq_set REQ_STATUS_LAST_PERMIT) obj2"
  have view: "stop_view obj3 = stop_view obj" by (simp add: obj3_def obj2_def obj1_def)
  then have "\<not> d_test obj3 DISPR_STARTED" "d_script obj3 \<noteq> []" using assms by (simp_all add: stop_view_def)
  from callback_stopped [OF this, of "Ev_abort r"] obtain ret obj4 where 4: "callback (Ev_abort r) obj3 = Some (ret, obj4)"
    "\<not> d_test obj4 DISPR_STARTED" "d_script obj4 = tl (d_script obj3)" by blast
  let ?obj5 = "push_back_idle_req (upd_req r (rq_clear REQ_STATUS_LAST_PERMIT) obj4) r"
  have v5: "stop_view ?obj5 = stop_view obj4" by simp
  have "deregister_cur_cmd_req obj True = Some (?obj5\<lparr>token_cnt := token_cnt ?obj5 - 1, cur_cmd_req := None\<rparr>)"
    unfolding deregister_cur_cmd_req_def Some option.case Let_def obj1_def [symmetric] obj2_def [symmetric] obj3_def [symmetric] by (simp add: 4)
  then show ?thesis using 4 v5 view by (simp add: stop_view_def d_test_def)
qed

lemma pq_deq_none: "pq_counted q \<Longrightarrow> pq_deq q = None \<longleftrightarrow> pq_queue q = []"
  by (auto simp: pq_deq_def pq_pop_def pq_counted_def)

lemma abort_waiting_returns:
  assumes "d_inv ms [] k b obj" and "\<not> d_test obj DISPR_STARTED" and "length (pq_queue (token_req_wait_q obj)) \<le> length (d_script obj)"
  shows "\<exists>obj'. abort_waiting obj = Some obj' \<and> d_inv ms [] k b obj' \<and> pq_queue (token_req_wait_q obj') = [] \<and>
    msg_idle_q obj' = msg_idle_q obj \<and> cur_cmd_req obj' = cur_cmd_req obj"
  using assms
proof (induction "length (pq_queue (token_req_wait_q obj))" arbitrary: obj)
  case 0
  then have "pop_front_wait_req obj = (None, obj)" by (simp add: pop_front_wait_req_def pq_deq_def pq_pop_def)
  then show ?case using 0 by (subst abort_waiting.simps) simp
next
  case (Suc n)
  obtain r q where q: "pq_deq (token_req_wait_q obj) = Some (r, q)" "pq_queue (token_req_wait_q obj) = r # pq_queue q"
    using Suc(2,3) pq_deq_none [of "token_req_wait_q obj"] pq_deq_counted [of "token_req_wait_q obj"]
    by (cases "pq_deq (token_req_wait_q obj)") (auto simp: d_inv_def req_inv_def)
  then obtain obj1 where pop: "pop_front_wait_req obj = (Some r, obj1)" and f1: "token_req_wait_q obj1 = q" "d_script obj1 = d_script obj"
    "d_test obj1 DISPR_STARTED = d_test obj DISPR_STARTED" "msg_idle_q obj1 = msg_idle_q obj" "cur_cmd_req obj1 = cur_cmd_req obj"
    by (simp add: pop_front_wait_req_def upd_req_def d_test_def)
  have "\<not> d_test obj1 DISPR_STARTED" "d_script obj1 \<noteq> []" using Suc.prems f1 q by auto
  from callback_stopped [OF this, of "Ev_abort r"] obtain ret obj2 where 2: "callback (Ev_abort r) obj1 = Some (ret, obj2)"
    and f2: "\<not> d_test obj2 DISPR_STARTED" "d_script obj2 = tl (d_script obj1)" "token_req_wait_q obj2 = token_req_wait_q obj1"
      "cur_cmd_req obj2 = cur_cmd_req obj1" "msg_idle_q obj2 = msg_idle_q obj1" by blast
  let ?obj3 = "push_back_idle_req obj2 r"
  have "d_inv ms [r] k b obj1" by (rule pop_wait_req_inv(1) [OF Suc.prems(1) pop])
  then have "d_inv ms [r] k b obj2" using callback_inv [OF 2] by simp
  then have 3: "d_inv ms [] k b ?obj3" by (rule push_idle_req_inv)
  have f3: "token_req_wait_q ?obj3 = q" "d_script ?obj3 = tl (d_script obj)" "\<not> d_test ?obj3 DISPR_STARTED" "msg_idle_q ?obj3 = msg_idle_q obj"
    "cur_cmd_req ?obj3 = cur_cmd_req obj"
    using f1 f2 by (simp_all add: push_back_idle_req_def upd_req_def d_test_def Let_def)
  have "\<exists>obj'. abort_waiting ?obj3 = Some obj' \<and> d_inv ms [] k b obj' \<and> pq_queue (token_req_wait_q obj') = [] \<and>
    msg_idle_q obj' = msg_idle_q ?obj3 \<and> cur_cmd_req obj' = cur_cmd_req ?obj3"
    by (rule Suc.hyps(1)) (use Suc q f3 3 in auto)
  moreover have "abort_waiting obj = abort_waiting ?obj3" by (subst abort_waiting.simps) (simp add: pop 2)
  ultimately show ?case using f3 by simp
qed

lemma all_req_idle:
  assumes "d_inv ms [] k b obj" and "pq_queue (token_req_wait_q obj) = []" and "cur_cmd_req obj = None"
  shows "pq_cnt (token_req_idle_q obj) = int MAX_CMD_REQ_NUM"
proof -
  have inv: "req_inv [] obj" using assms(1) by (simp add: d_inv_def)
  have all: "mset (pq_queue (token_req_idle_q obj)) = all_below MAX_CMD_REQ_NUM" using inv assms(2,3) by (simp add: req_inv_def cur_req_def)
  have "length (pq_queue (token_req_idle_q obj)) = MAX_CMD_REQ_NUM" using arg_cong [OF all, of size] unfolding all_below_def size_mset by simp
  then show ?thesis using inv by (simp add: req_inv_def pq_counted_def)
qed

lemma clear_wating_req_returns:
  assumes "d_inv ms [] k b obj" and "\<not> d_test obj DISPR_STARTED" and "length (pq_queue (token_req_wait_q obj)) \<le> length (d_script obj)"
    and "cur_cmd_req obj = None"
  shows "\<exists>obj'. clear_wating_req obj = Some obj' \<and> d_inv ms [] k b obj' \<and> pq_cnt (token_req_idle_q obj') = int MAX_CMD_REQ_NUM \<and>
    msg_idle_q obj' = msg_idle_q obj"
proof (cases "pq_cnt (token_req_idle_q obj) = int MAX_CMD_REQ_NUM")
  case True
  then show ?thesis using assms by (subst clear_wating_req.simps) simp
next
  case False
  obtain obj' where 1: "abort_waiting obj = Some obj'" "d_inv ms [] k b obj'" "pq_queue (token_req_wait_q obj') = []"
    "msg_idle_q obj' = msg_idle_q obj" "cur_cmd_req obj' = None" using abort_waiting_returns [OF assms(1-3)] assms(4) by auto
  have c: "pq_cnt (token_req_idle_q obj') = int MAX_CMD_REQ_NUM" by (rule all_req_idle [OF 1(2,3,5)])
  then have "clear_wating_req obj' = Some obj'" by (subst clear_wating_req.simps) simp
  moreover have "clear_wating_req obj = clear_wating_req obj'" using False 1(1) by (subst clear_wating_req.simps) simp
  ultimately show ?thesis using 1 c by simp
qed

lemma req_wait_bound: "req_inv rs obj \<Longrightarrow> length (pq_queue (token_req_wait_q obj)) \<le> MAX_CMD_REQ_NUM"
proof -
  assume "req_inv rs obj"
  then have "size (mset (pq_queue (token_req_idle_q obj)) + mset (pq_queue (token_req_wait_q obj)) + mset (cur_req obj) + mset rs) =
      size (mset [0 ..< MAX_CMD_REQ_NUM])" by (simp only: req_inv_def all_below_def)
  then show ?thesis unfolding size_union size_mset by simp
qed

lemma leave_returns:
  assumes "d_inv [] [] k b obj" and "\<not> d_test obj DISPR_STARTED" and "length (d_script obj) > MAX_CMD_REQ_NUM"
  shows "\<exists>obj'. dispr_thread_leave_hdl obj = Some obj' \<and> d_inv [] [] k b obj' \<and> pq_cnt (token_req_idle_q obj') = int MAX_CMD_REQ_NUM \<and>
    pq_cnt (msg_idle_q obj') = int MAX_PHL_MSG_NUM"
proof -
  have "d_script obj \<noteq> []" using assms(3) by auto
  from deregister_stopped [OF assms(2) this] obtain obj1 where 1: "deregister_cur_cmd_req obj True = Some obj1"
    "\<not> d_test obj1 DISPR_STARTED" "length (d_script obj1) \<ge> MAX_CMD_REQ_NUM" using assms(3) by fastforce
  have inv1: "d_inv [] [] k b obj1" "cur_cmd_req obj1 = None" using deregister_inv [OF 1(1) assms(1)] by auto
  obtain obj2 where 2: "clear_waiting_msg obj1 = Some obj2" "d_inv [] [] k b obj2" "pq_cnt (msg_idle_q obj2) = int MAX_PHL_MSG_NUM"
    "stop_view obj2 = stop_view obj1" using clear_waiting_msg_returns [OF inv1(1)] by blast
  have "length (pq_queue (token_req_wait_q obj2)) \<le> length (d_script obj2)"
    using req_wait_bound [of "[]" obj2] 1 2 by (auto simp: stop_view_def d_inv_def)
  then obtain obj3 where 3: "clear_wating_req obj2 = Some obj3" "d_inv [] [] k b obj3" "pq_cnt (token_req_idle_q obj3) = int MAX_CMD_REQ_NUM"
    "msg_idle_q obj3 = msg_idle_q obj2" using clear_wating_req_returns [OF 2(2)] 1(2) 2(4) inv1(2) by (auto simp: stop_view_def)
  then show ?thesis using 1 2 by (auto simp: dispr_thread_leave_hdl_def)
qed

section \<open>Modules and the start\<close>

text \<open>What holds after every call of a module and does not speak of modules.\<close>

locale mdl_stable =
  fixes P :: "cmd_dispatcher \<Rightarrow> bool"
  assumes call: "callback ev obj = Some (ret, obj') \<Longrightarrow> is_call ev \<Longrightarrow> P obj \<Longrightarrow> P obj'"
    and frame: "P (obj\<lparr>module_q := mq\<rparr>) = P obj" "P (obj\<lparr>d_bitmap := bm\<rparr>) = P obj" "P (obj\<lparr>d_basemap := bs\<rparr>) = P obj"
      "P (obj\<lparr>controller := ct\<rparr>) = P obj"
begin

lemma bk_module:
  "bk_module_init obj m = Some (ret, m', obj') \<Longrightarrow> P obj \<Longrightarrow> P obj'"
  "bk_module_deinit obj m = Some (m', obj') \<Longrightarrow> P obj \<Longrightarrow> P obj'"
  "bk_module_start obj m = Some (ret, m', obj') \<Longrightarrow> P obj \<Longrightarrow> P obj'"
  "bk_module_stop obj m = Some (ret, m', obj') \<Longrightarrow> P obj \<Longrightarrow> P obj'"
  by (auto simp: bk_module_init_def bk_module_deinit_def bk_module_start_def bk_module_stop_def split: if_splits bind_splits dest: call)

lemma set_mdl [simp]: "P (set_mdl p n m obj) = P obj"
  by (simp add: set_mdl_def frame)

lemma set_mdl_maps: "set_mdl_maps f base obj = Some obj' \<Longrightarrow> P obj' = P obj"
  by (auto simp: set_mdl_maps_def frame split: bind_splits)

lemma start_mdl: "start_mdl p n obj = Some (ret, obj') \<Longrightarrow> P obj \<Longrightarrow> P obj'"
  by (auto simp: start_mdl_def Let_def split: bind_splits if_splits dest!: bk_module(3) set_mdl_maps)

lemma stop_mdl: "stop_mdl p n obj = Some obj' \<Longrightarrow> P obj \<Longrightarrow> P obj'"
  by (auto simp: stop_mdl_def Let_def split: bind_splits if_splits dest!: set_mdl_maps bk_module(4))

lemma walk_mdls: "walk_mdls f ps obj = Some obj' \<Longrightarrow> (\<And>p n obj obj'. f p n obj = Some obj' \<Longrightarrow> P obj \<Longrightarrow> P obj') \<Longrightarrow> P obj \<Longrightarrow> P obj'"
  by (induction f ps obj rule: walk_mdls.induct) (auto split: bind_splits)

lemma register_module:
  assumes "dispr_register_module mem_ok obj mid ops_ok = Some (sts, obj')" and "P obj"
  shows "P obj'"
proof (cases "\<not> d_test obj DISPR_INIT \<or> get_mdl_priority mid = PHL_MDL_PRI_MAX \<or> \<not> ops_ok \<or> chk_module obj mid \<or> \<not> mem_ok")
  case False
  let ?p = "get_mdl_priority mid" and ?n = "length (pq_queue (module_q obj ! get_mdl_priority mid))"
  define obj0 where "obj0 = obj\<lparr>module_q := (module_q obj)[?p := snd (pq_push (module_q obj ! ?p) \<lparr>mdl_id = mid, mdl_status = 0, mdl_freed = False\<rparr> Pos_tail)]\<rparr>"
  obtain r1 m1 obj1 r2 obj2 where 1: "bk_module_init obj0 (get_mdl obj0 ?p ?n) = Some (r1, m1, obj1)"
    and 2: "(if r1 \<and> d_test (set_mdl ?p ?n m1 obj1) DISPR_STARTED then start_mdl ?p ?n (set_mdl ?p ?n m1 obj1) else Some (r1, set_mdl ?p ?n m1 obj1)) = Some (r2, obj2)"
    and 3: "(if r2 then Some (RTW_PHL_STATUS_SUCCESS, obj2) else do { (module, obj) \<leftarrow> bk_module_deinit obj2 (get_mdl obj2 ?p ?n);
        Some (RTW_PHL_STATUS_FAILURE, set_mdl ?p ?n (module\<lparr>mdl_freed := True\<rparr>) obj) }) = Some (sts, obj')"
    using assms(1) False unfolding dispr_register_module_def Let_def obj0_def by (auto split: bind_splits)
  have "P obj0" using assms(2) by (simp add: obj0_def frame)
  then have "P obj1" by (rule bk_module(1) [OF 1])
  then have "P obj2" using 2 by (auto split: if_splits dest: start_mdl)
  then show ?thesis using 3 by (auto split: if_splits bind_splits dest: bk_module(2))
qed (use assms in \<open>auto simp: dispr_register_module_def Let_def\<close>)

lemma deregister_module:
  assumes "dispr_deregister_module obj mid = Some (sts, obj')" and "P obj"
  shows "P obj'"
proof -
  have "P o'" if "set_mdl_maps f c (obj\<lparr>module_q := mq\<rparr>) = Some o'" for f c mq o'
    using set_mdl_maps [OF that] assms(2) by (simp add: frame)
  then show ?thesis using assms unfolding dispr_deregister_module_def Let_def
    by (auto split: if_splits prod.splits os_list_ptr.splits bool.splits bind_splits dest!: bk_module(2) bk_module(4))
qed

lemma module_init: "dispr_module_init obj = Some (sts, obj') \<Longrightarrow> P obj \<Longrightarrow> P obj'"
  by (auto simp: dispr_module_init_def split: if_splits elim!: walk_mdls) (auto split: bind_splits dest!: bk_module(1))

lemma module_start: "dispr_module_start obj = Some (sts, obj') \<Longrightarrow> P obj \<Longrightarrow> P obj'"
  by (auto simp: dispr_module_start_def split: if_splits elim!: walk_mdls dest!: start_mdl)

lemma module_stop: "dispr_module_stop obj = Some (sts, obj') \<Longrightarrow> P obj \<Longrightarrow> P obj'"
  by (auto simp: dispr_module_stop_def split: if_splits elim!: walk_mdls dest!: stop_mdl)

end

lemma d_inv_mdl_frame:
  "d_inv ms rs k b (obj\<lparr>module_q := mq\<rparr>) = d_inv ms rs k b obj" "d_inv ms rs k b (obj\<lparr>d_bitmap := bm\<rparr>) = d_inv ms rs k b obj"
  "d_inv ms rs k b (obj\<lparr>d_basemap := bs\<rparr>) = d_inv ms rs k b obj" "d_inv ms rs k b (obj\<lparr>controller := ct\<rparr>) = d_inv ms rs k b obj"
  by (simp_all add: inv_defs rq_test_def cur_req_def d_test_def sent_def completed_def cong: option.case_cong)

interpretation run_inv: mdl_stable "d_inv ms rs k b" for ms rs k b
  by unfold_locales (use callback_inv in blast, simp_all add: d_inv_mdl_frame)

text \<open>Before the start: the pools are not in use.\<close>

definition unstarted :: "cmd_dispatcher \<Rightarrow> bool" where
  "unstarted obj \<longleftrightarrow>
     d_inv [0 ..< MAX_PHL_MSG_NUM] [0 ..< MAX_CMD_REQ_NUM] 0 False obj \<and> sent obj = completed obj \<and>
     \<not> d_test obj DISPR_STARTED \<and> \<not> d_test obj DISPR_MSGQ_INIT \<and> \<not> d_test obj DISPR_REQ_INIT"

lemma callback_stopped_frame:
  assumes "callback ev obj = Some (ret, obj')" and "\<not> d_test obj DISPR_STARTED"
  shows "\<not> d_test obj' DISPR_STARTED \<and> d_test obj' DISPR_MSGQ_INIT = d_test obj DISPR_MSGQ_INIT \<and> d_test obj' DISPR_REQ_INIT = d_test obj DISPR_REQ_INIT \<and>
    d_events obj' = d_events obj @ [ev]"
proof -
  obtain cs rest where run: "run_calls cs (log_event ev (obj\<lparr>d_script := rest\<rparr>)) = Some obj'"
    using assms(1) by (auto simp: callback_def split: list.splits bind_splits)
  have st: "\<not> d_test (log_event ev (obj\<lparr>d_script := rest\<rparr>)) DISPR_STARTED" using assms(2) by (simp add: d_test_def log_event_def)
  have fl: "flags_only (log_event ev (obj\<lparr>d_script := rest\<rparr>)) obj'" using run_calls_stopped [OF st, of cs] run by simp
  have "d_events obj' = d_events obj @ [ev]" using fl
    by (subst fl [unfolded flags_only_def, THEN conjunct2, THEN conjunct2]) (simp add: log_event_def)
  then show ?thesis using fl by (auto simp: flags_only_def d_test_def log_event_def)
qed

interpretation made_inv: mdl_stable unstarted
proof
  fix ev obj ret obj'
  assume cb: "callback ev obj = Some (ret, obj')" "is_call ev" "unstarted obj"
  then have "sent obj' = sent obj" "completed obj' = completed obj"
    using callback_stopped_frame [OF cb(1)] by (cases ev; simp add: unstarted_def sent_def completed_def)+
  then show "unstarted obj'" using cb callback_inv [OF cb(1)] callback_stopped_frame [OF cb(1)] by (simp add: unstarted_def)
qed (simp_all add: unstarted_def d_inv_mdl_frame sent_def completed_def d_test_def)

lemma dispr_init_unstarted:
  assumes "dispr_init script = Some obj" and "script_ok script"
  shows "unstarted obj"
proof -
  define obj0 where "obj0 = d_set DISPR_NOTIFY_IDLE (d_set DISPR_INIT \<lparr>d_status = 0, module_q = replicate PHL_MDL_PRI_MAX pq_init,
                 msg_ex_pool = replicate MAX_PHL_MSG_NUM mx0, msg_wait_q = pq_init, msg_idle_q = pq_init, msg_pend_q = pq_init,
                 token_req_ex_pool = replicate MAX_CMD_REQ_NUM rq0, token_req_wait_q = pq_init, token_req_idle_q = pq_init,
                 token_op_q = pq_init, token_cnt = 0, cur_cmd_req = None, d_bitmap = replicate MODL_MASK_LEN 0,
                 d_basemap = replicate MODL_MASK_LEN 0, pending_evt = (\<lambda>_. 0), controller = \<lparr>mdl_id = PHL_MDL_PHY_MGNT, mdl_status = 0, mdl_freed = False\<rparr>,
                 renew_req_info = op_info0, exclusive_mdl = 0, msg_q_sema = 0, d_script = script, d_events = []\<rparr>)"
  have "outstanding (replicate n mx0) = {#}" for n by (rule outstanding_none) (simp add: owed_def mx0_def)
  then have "unstarted obj0"
    using assms(2) by (simp add: unstarted_def obj0_def inv_defs d_set_def d_test_def sent_def completed_def all_below_def cur_req_def pq_init_def
        pq_counted_def rq_test_def rq0_def mx0_def)
  moreover obtain ret ct obj1 where "bk_module_init obj0 (controller obj0) = Some (ret, ct, obj1)" and obj: "obj = obj1\<lparr>controller := ct\<rparr>"
    using assms(1) unfolding dispr_init_def Let_def obj0_def [symmetric] by (auto split: bind_splits)
  ultimately have "unstarted obj1" by (blast intro: made_inv.bk_module(1))
  then show ?thesis by (simp add: obj made_inv.frame)
qed

lemma fold_push_idle: "d_inv is rs k b obj \<Longrightarrow> d_inv [] rs k b (foldl dispr_push_back_idle_msg obj is)"
proof (induction "is" arbitrary: obj)
  case (Cons i "is")
  then show ?case by (simp add: push_idle_inv)
qed simp

lemma init_msg_pool_inv:
  assumes "unstarted obj"
  shows "d_inv [] [0 ..< MAX_CMD_REQ_NUM] 0 False (init_dispr_msg_pool obj)"
proof -
  let ?obj = "obj\<lparr>msg_idle_q := pq_init, msg_wait_q := pq_init, msg_pend_q := pq_init, msg_ex_pool := replicate MAX_PHL_MSG_NUM mx0\<rparr>"
  have out: "outstanding (replicate n mx0) = {#}" for n by (rule outstanding_none) (simp add: owed_def mx0_def)
  have "msg_inv [0 ..< MAX_PHL_MSG_NUM] ?obj"
    using assms out by (simp add: unstarted_def msg_inv_def sent_def completed_def all_below_def pq_init_def pq_counted_def)
  moreover have "abort_inv ?obj" "wake_inv 0 False ?obj" "req_inv [0 ..< MAX_CMD_REQ_NUM] ?obj" "script_ok (d_script ?obj)"
    using assms by (auto simp: unstarted_def inv_defs d_test_def rq_test_def cur_req_def mx0_def pq_init_def)
  ultimately have "d_inv [0 ..< MAX_PHL_MSG_NUM] [0 ..< MAX_CMD_REQ_NUM] 0 False ?obj" by (simp add: d_inv_def)
  from fold_push_idle [OF this] have "d_inv [] [0 ..< MAX_CMD_REQ_NUM] 0 False (d_set DISPR_MSGQ_INIT (foldl dispr_push_back_idle_msg ?obj [0 ..< MAX_PHL_MSG_NUM]))"
    by (intro d_inv_flag(1)) simp_all
  then show ?thesis using assms unfolding init_dispr_msg_pool_def Let_def unstarted_def by (simp only: if_False)
qed

lemma fold_push_req:
  "pq_counted (token_req_idle_q obj) \<Longrightarrow>
   \<exists>q. foldl (\<lambda>obj i. obj\<lparr>token_req_idle_q := snd (pq_push (token_req_idle_q obj) i Pos_tail)\<rparr>) obj is = obj\<lparr>token_req_idle_q := q\<rparr> \<and>
     pq_queue q = pq_queue (token_req_idle_q obj) @ is \<and> pq_counted q"
proof (induction "is" arbitrary: obj)
  case Nil
  then show ?case by (intro exI [of _ "token_req_idle_q obj"]) simp
next
  case (Cons i "is")
  let ?obj = "obj\<lparr>token_req_idle_q := snd (pq_push (token_req_idle_q obj) i Pos_tail)\<rparr>"
  have "pq_counted (token_req_idle_q ?obj)" "pq_queue (token_req_idle_q ?obj) = pq_queue (token_req_idle_q obj) @ [i]"
    using Cons.prems by (simp_all add: pq_push_def pq_counted_def)
  from Cons.IH [OF this(1)] this(2) show ?case by fastforce
qed

lemma init_req_pool_inv:
  assumes "d_inv [] [0 ..< MAX_CMD_REQ_NUM] k False obj" and "\<not> d_test obj DISPR_REQ_INIT" and "cur_cmd_req obj = None"
  shows "d_inv [] [] k False (init_cmd_req_pool obj)" and "token_op_q (init_cmd_req_pool obj) = pq_init"
    and "msg_wait_q (init_cmd_req_pool obj) = msg_wait_q obj"
proof -
  let ?obj = "obj\<lparr>token_req_wait_q := pq_init, token_req_idle_q := pq_init, token_op_q := pq_init, token_req_ex_pool := replicate MAX_CMD_REQ_NUM rq0\<rparr>"
  have "pq_counted (token_req_idle_q ?obj)" by (simp add: pq_counted_def pq_init_def)
  from fold_push_req [OF this, of "[0 ..< MAX_CMD_REQ_NUM]"] obtain q where
    fold: "foldl (\<lambda>obj i. obj\<lparr>token_req_idle_q := snd (pq_push (token_req_idle_q obj) i Pos_tail)\<rparr>) ?obj [0 ..< MAX_CMD_REQ_NUM] = ?obj\<lparr>token_req_idle_q := q\<rparr>"
    and q: "pq_queue q = [0 ..< MAX_CMD_REQ_NUM]" "pq_counted q" by (auto simp add: pq_init_def simp del: upt_Suc foldl_Cons)
  then have eq: "init_cmd_req_pool obj = d_set DISPR_REQ_INIT (?obj\<lparr>token_req_idle_q := q\<rparr>)"
    using assms(2) unfolding init_cmd_req_pool_def Let_def by (simp only: if_False)
  show "token_op_q (init_cmd_req_pool obj) = pq_init" "msg_wait_q (init_cmd_req_pool obj) = msg_wait_q obj" by (simp_all add: eq d_set_def)
  have "req_inv [] (?obj\<lparr>token_req_idle_q := q\<rparr>)"
    using assms q by (simp add: req_inv_def d_inv_def cur_req_def rq_test_def rq0_def pq_init_def pq_counted_def all_below_def)
  moreover have "msg_inv [] (?obj\<lparr>token_req_idle_q := q\<rparr>)" "abort_inv (?obj\<lparr>token_req_idle_q := q\<rparr>)" "wake_inv k False (?obj\<lparr>token_req_idle_q := q\<rparr>)"
    "script_ok (d_script (?obj\<lparr>token_req_idle_q := q\<rparr>))"
    using assms(1) by (simp_all add: inv_defs d_test_def sent_def completed_def pq_init_def pq_counted_def)
  ultimately have "d_inv [] [] k False (?obj\<lparr>token_req_idle_q := q\<rparr>)" by (simp add: d_inv_def)
  then show "d_inv [] [] k False (init_cmd_req_pool obj)" unfolding eq by (intro d_inv_flag(1)) simp_all
qed

lemma wait_q_init_msg [simp]: "\<not> d_test obj DISPR_MSGQ_INIT \<Longrightarrow> msg_wait_q (init_dispr_msg_pool obj) = pq_init"
proof -
  have "msg_wait_q (foldl dispr_push_back_idle_msg obj is) = msg_wait_q obj" for "is" obj by (induction "is" arbitrary: obj) simp_all
  then show "\<not> d_test obj DISPR_MSGQ_INIT \<Longrightarrow> ?thesis" unfolding init_dispr_msg_pool_def Let_def by (simp add: d_set_def del: upt_Suc)
qed

lemma push_idle_req_flag [simplified, simp]: "d_test (dispr_push_back_idle_msg obj i) DISPR_REQ_INIT = d_test obj DISPR_REQ_INIT"
  by (simp add: dispr_push_back_idle_msg_def msg_complete_def on_abort_msg_complete_def push_back_token_op_info_def set_info_def
      notify_bk_thread_def upd_ex_def log_event_def d_clear_def d_test_def Let_def split: option.splits)

lemma view_init_msg:
  "cur_cmd_req (init_dispr_msg_pool obj) = cur_cmd_req obj" "d_test (init_dispr_msg_pool obj) DISPR_REQ_INIT = d_test obj DISPR_REQ_INIT"
proof -
  have fold: "stop_view (foldl dispr_push_back_idle_msg obj is) = stop_view obj"
    "d_test (foldl dispr_push_back_idle_msg obj is) DISPR_REQ_INIT = d_test obj DISPR_REQ_INIT" for "is" obj
    by (induction "is" arbitrary: obj) simp_all
  show "cur_cmd_req (init_dispr_msg_pool obj) = cur_cmd_req obj"
    using fold(1) by (simp add: init_dispr_msg_pool_def stop_view_def Let_def d_set_def del: upt_Suc)
  show "d_test (init_dispr_msg_pool obj) DISPR_REQ_INIT = d_test obj DISPR_REQ_INIT"
    using fold(2) by (auto simp: init_dispr_msg_pool_def d_test_def Let_def d_set_def simp del: upt_Suc)
qed

lemma d_inv_reset:
  "d_inv ms rs k b obj \<Longrightarrow> token_op_q obj = pq_init \<Longrightarrow> msg_wait_q obj = pq_init \<Longrightarrow>
   d_inv ms rs k b (obj\<lparr>renew_req_info := info, msg_q_sema := n, exclusive_mdl := x\<rparr>)"
  by (simp add: inv_defs rq_test_def cur_req_def d_test_def sent_def completed_def pq_init_def cong: option.case_cong)

lemma dispr_start_inv:
  assumes "dispr_start obj = Some (sts, obj')" and "unstarted obj"
  shows "d_inv [] [] 0 False obj'"
proof -
  let ?obj1 = "init_cmd_req_pool (init_dispr_msg_pool obj)"
  define obj2 where "obj2 = d_set DISPR_STARTED ((init_dispr_mdl_mgnt_info ?obj1)\<lparr>renew_req_info := op_info0, msg_q_sema := 0, exclusive_mdl := PHL_MDL_ID_MAX\<rparr>)"
  have un: "\<not> d_test obj DISPR_MSGQ_INIT" "\<not> d_test obj DISPR_REQ_INIT" "\<not> d_test obj DISPR_STARTED" using assms(2) by (auto simp: unstarted_def)
  have "token_cnt obj = int (length (cur_req obj))" "mset (cur_req obj) + mset [0 ..< MAX_CMD_REQ_NUM] \<subseteq># all_below MAX_CMD_REQ_NUM"
    using assms(2) by (auto simp: unstarted_def d_inv_def req_inv_def intro!: mset_subset_eq_exists_conv [THEN iffD2] simp del: upt_Suc mset_upt)
      (metis (no_types, lifting) add.assoc add.commute)
  then have cur: "cur_cmd_req obj = None" by (auto simp: cur_req_def all_below_def split: option.splits)
  note i = init_req_pool_inv [OF init_msg_pool_inv [OF assms(2)], unfolded view_init_msg, OF un(2) cur]
  have "d_inv [] [] 0 False ((init_dispr_mdl_mgnt_info ?obj1)\<lparr>renew_req_info := op_info0, msg_q_sema := 0, exclusive_mdl := PHL_MDL_ID_MAX\<rparr>)"
    by (rule d_inv_reset) (use i un in \<open>simp_all add: init_dispr_mdl_mgnt_info_def\<close>)
  then have 2: "d_inv [] [] 0 False obj2" unfolding obj2_def by (intro d_inv_flag(1)) simp_all
  obtain ret ct obj3 where 3: "bk_module_start obj2 (controller obj2) = Some (ret, ct, obj3)"
    and obj': "obj' = (if ret then d_set DISPR_CTRL_PRESENT (obj3\<lparr>controller := ct\<rparr>) else obj3\<lparr>controller := ct\<rparr>)"
    using assms(1) un unfolding dispr_start_def Let_def obj2_def [symmetric] by (auto split: bind_splits)
  have "d_inv [] [] 0 False (obj3\<lparr>controller := ct\<rparr>)" using run_inv.bk_module(3) [OF 3 2] by (simp add: d_inv_mdl_frame)
  then show ?thesis unfolding obj' by (auto intro: d_inv_flag(1))
qed

lemma cancel_all_inv: "d_inv ms rs k b obj \<Longrightarrow> d_inv ms rs k b (cancel_all_cmd_req obj)"
proof -
  assume inv: "d_inv ms rs k b obj"
  have "rq_test (cancel_all_cmd_req obj) r f = rq_test obj r f" if "r < MAX_CMD_REQ_NUM" "f \<in> {1, 2, 8}" for r f
    using that inv by (auto simp: rq_test_def cancel_all_cmd_req_def d_inv_def req_inv_def rq_set_def)
  then have "req_inv rs (cancel_all_cmd_req obj)" using inv
    by (simp add: d_inv_def req_inv_def cur_req_def) (simp add: cancel_all_cmd_req_def)
  then show ?thesis using inv
    by (simp add: d_inv_def msg_inv_def abort_inv_def wake_inv_def cancel_all_cmd_req_def d_test_def sent_def completed_def)
qed

lemma cancel_running_inv: "d_inv ms rs k b obj \<Longrightarrow> d_inv ms rs k b (cancel_running_msg obj)"
proof -
  have "d_inv ms rs k b (foldl (\<lambda>obj i. if mx_test obj i MSG_STATUS_RUN then cancel_msg obj i else obj) obj is)" if "d_inv ms rs k b obj" for "is" obj
    using that by (induction "is" arbitrary: obj) (simp_all add: cancel_msg_inv)
  then show "d_inv ms rs k b obj \<Longrightarrow> ?thesis" unfolding cancel_running_msg_def by blast
qed

lemma stop_prior_inv:
  assumes "dispr_thread_stop_prior_hdl obj = Some obj'" and "d_inv ms rs k b obj"
  shows "d_inv ms rs k b obj'"
proof -
  let ?obj = "d_clear DISPR_CTRL_PRESENT (d_clear DISPR_STARTED obj)"
  obtain ret ct obj1 where 1: "bk_module_stop ?obj (controller ?obj) = Some (ret, ct, obj1)"
    and obj': "obj' = cancel_running_msg (cancel_all_cmd_req (obj1\<lparr>controller := ct\<rparr>))"
    using assms(1) unfolding dispr_thread_stop_prior_hdl_def Let_def by (auto split: bind_splits)
  have "d_inv ms rs k b obj1" by (rule run_inv.bk_module(4) [OF 1]) (intro d_inv_flag(2) assms(2))
  then show ?thesis unfolding obj' by (intro cancel_running_inv cancel_all_inv) (simp add: d_inv_mdl_frame)
qed

section \<open>Runs of a dispatcher\<close>

definition mdls_ok :: "cmd_dispatcher \<Rightarrow> bool" where
  "mdls_ok obj \<longleftrightarrow> list_all (\<lambda>q. list_all (\<lambda>m. \<not> mdl_freed m) (pq_queue q)) (module_q obj)"

inductive dispr_made :: "cmd_dispatcher \<Rightarrow> bool" where
  init: "dispr_init script = Some obj \<Longrightarrow> script_ok script \<Longrightarrow> dispr_made obj"
| register: "dispr_made obj \<Longrightarrow> mdls_ok obj \<Longrightarrow> dispr_register_module mem_ok obj mid ops_ok = Some (sts, obj') \<Longrightarrow> dispr_made obj'"
| deregister: "dispr_made obj \<Longrightarrow> mdls_ok obj \<Longrightarrow> dispr_deregister_module obj mid = Some (sts, obj') \<Longrightarrow> dispr_made obj'"
| module_init: "dispr_made obj \<Longrightarrow> mdls_ok obj \<Longrightarrow> dispr_module_init obj = Some (sts, obj') \<Longrightarrow> dispr_made obj'"

text \<open>Calls of the interface, wake-ups of the thread and operations on modules, in any order, until the thread is to end.\<close>

inductive dispr_reach :: "cmd_dispatcher \<Rightarrow> bool" where
  start: "dispr_made obj \<Longrightarrow> mdls_ok obj \<Longrightarrow> dispr_start obj = Some (sts, obj') \<Longrightarrow> dispr_reach obj'"
| call: "dispr_reach obj \<Longrightarrow> mdls_ok obj \<Longrightarrow> call_ok c \<Longrightarrow> run_call c obj = Some obj' \<Longrightarrow> dispr_reach obj'"
| wake: "dispr_reach obj \<Longrightarrow> mdls_ok obj \<Longrightarrow> msg_q_sema obj > 0 \<Longrightarrow>
    dispr_thread_loop_hdl (obj\<lparr>msg_q_sema := msg_q_sema obj - 1\<rparr>) = Some obj' \<Longrightarrow> dispr_reach obj'"
| register: "dispr_reach obj \<Longrightarrow> mdls_ok obj \<Longrightarrow> dispr_register_module mem_ok obj mid ops_ok = Some (sts, obj') \<Longrightarrow> dispr_reach obj'"
| deregister: "dispr_reach obj \<Longrightarrow> mdls_ok obj \<Longrightarrow> dispr_deregister_module obj mid = Some (sts, obj') \<Longrightarrow> dispr_reach obj'"
| module_start: "dispr_reach obj \<Longrightarrow> mdls_ok obj \<Longrightarrow> dispr_module_start obj = Some (sts, obj') \<Longrightarrow> dispr_reach obj'"
| module_stop: "dispr_reach obj \<Longrightarrow> mdls_ok obj \<Longrightarrow> dispr_module_stop obj = Some (sts, obj') \<Longrightarrow> dispr_reach obj'"
| stop: "dispr_reach obj \<Longrightarrow> mdls_ok obj \<Longrightarrow> dispr_thread_stop_prior_hdl obj = Some obj' \<Longrightarrow> dispr_reach obj'"

lemma made_unstarted: "dispr_made obj \<Longrightarrow> unstarted obj"
  by (induction rule: dispr_made.induct)
    (blast intro: dispr_init_unstarted made_inv.register_module made_inv.deregister_module made_inv.module_init)+

lemma sema_taken: "d_inv ms rs 0 False obj \<Longrightarrow> msg_q_sema obj > 0 \<Longrightarrow> d_inv ms rs 1 True (obj\<lparr>msg_q_sema := msg_q_sema obj - 1\<rparr>)"
  by (simp add: inv_defs rq_test_def cur_req_def d_test_def sent_def completed_def cong: option.case_cong)

lemma reach_inv: "dispr_reach obj \<Longrightarrow> d_inv [] [] 0 False obj"
proof (induction rule: dispr_reach.induct)
  case (call obj c obj')
  then show ?case using run_call_inv by blast
next
  case (wake obj obj')
  then show ?case by (blast intro: dispr_thread_loop_inv sema_taken)
qed (blast intro: dispr_start_inv made_unstarted run_inv.register_module run_inv.deregister_module run_inv.module_start run_inv.module_stop stop_prior_inv)+

lemma mset_all_below:
  assumes "mset xs = all_below n"
  shows "distinct xs" and "set xs = {0 ..< n}"
  using all_below_distinct [OF assms] mset_eq_setD [of xs "[0 ..< n]"] assms by (auto simp: all_below_def)

text \<open>
  C7: whatever is called and whatever the modules do, each of the twenty-four messages is in exactly one of the three
  queues whenever the thread sleeps, and every completion routine handed over with a message has either been called once
  or belongs to a message that still has to call it.
\<close>

theorem dispr_messages_conserved:
  assumes "dispr_reach obj"
  shows "distinct (pq_queue (msg_idle_q obj) @ pq_queue (msg_wait_q obj) @ pq_queue (msg_pend_q obj)) \<and>
    set (pq_queue (msg_idle_q obj) @ pq_queue (msg_wait_q obj) @ pq_queue (msg_pend_q obj)) = {0 ..< MAX_PHL_MSG_NUM} \<and>
    sent obj = completed obj + outstanding (msg_ex_pool obj)"
proof -
  have inv: "msg_inv [] obj" using reach_inv [OF assms] by (simp add: d_inv_def)
  then have "mset (pq_queue (msg_idle_q obj) @ pq_queue (msg_wait_q obj) @ pq_queue (msg_pend_q obj)) = all_below MAX_PHL_MSG_NUM"
    by (simp add: msg_inv_def add.assoc)
  moreover have "sent obj = completed obj + outstanding (msg_ex_pool obj)" using inv by (simp add: msg_inv_def)
  ultimately show ?thesis using mset_all_below by blast
qed

text \<open>
  C8: whenever the thread sleeps, each of the eight requests is idle, waiting or the one that has the token, and only that one
  is marked as running; the counter of the token is one when there is such a request and zero otherwise.
\<close>

theorem dispr_one_token:
  assumes "dispr_reach obj"
  shows "distinct (pq_queue (token_req_idle_q obj) @ pq_queue (token_req_wait_q obj) @ cur_req obj) \<and>
    set (pq_queue (token_req_idle_q obj) @ pq_queue (token_req_wait_q obj) @ cur_req obj) = {0 ..< MAX_CMD_REQ_NUM} \<and>
    token_cnt obj = (if cur_cmd_req obj = None then 0 else 1) \<and>
    (\<forall>r < MAX_CMD_REQ_NUM. rq_test obj r REQ_STATUS_RUN \<longrightarrow> cur_cmd_req obj = Some r)"
proof -
  have inv: "req_inv [] obj" using reach_inv [OF assms] by (simp add: d_inv_def)
  then have "mset (pq_queue (token_req_idle_q obj) @ pq_queue (token_req_wait_q obj) @ cur_req obj) = all_below MAX_CMD_REQ_NUM"
    by (simp add: req_inv_def add.assoc)
  moreover have "token_cnt obj = (if cur_cmd_req obj = None then 0 else 1)" using inv by (auto simp: req_inv_def cur_req_def)
  moreover have "\<forall>r < MAX_CMD_REQ_NUM. rq_test obj r REQ_STATUS_RUN \<longrightarrow> cur_cmd_req obj = Some r" using inv by (auto simp: req_inv_def)
  ultimately show ?thesis using mset_all_below by blast
qed


text \<open>
  no message is ever marked as the last one of an aborted request, and the dispatcher never waits for such a message
  before it gives away the token: the request is not running any more when it is told to abort, so what it sends then
  counts as a message of nobody.
\<close>

theorem dispr_abort_msg_never:
  assumes "dispr_reach obj"
  shows "\<not> d_test obj DISPR_WAIT_ABORT_MSG_DONE \<and> (\<forall>i < MAX_PHL_MSG_NUM. \<not> mx_test obj i MSG_STATUS_FOR_ABORT)"
  using reach_inv [OF assms] d_inv_no_abort by (auto simp: d_inv_def abort_inv_def)

text \<open>
  C11: once the dispatcher is stopped the thread ends: its last handler returns, whatever the abort routines of the requests
  do, with all messages and all requests idle, and by then every completion routine ever handed over has been called.
\<close>

theorem dispr_leave_completes:
  assumes "dispr_reach obj" and "\<not> d_test obj DISPR_STARTED" and "length (d_script obj) > MAX_CMD_REQ_NUM"
  shows "\<exists>obj'. dispr_thread_leave_hdl obj = Some obj' \<and> pq_cnt (msg_idle_q obj') = int MAX_PHL_MSG_NUM \<and>
    pq_cnt (token_req_idle_q obj') = int MAX_CMD_REQ_NUM \<and> completed obj' = sent obj'"
proof -
  obtain obj' where l: "dispr_thread_leave_hdl obj = Some obj'" "d_inv [] [] 0 False obj'" "pq_cnt (token_req_idle_q obj') = int MAX_CMD_REQ_NUM"
    "pq_cnt (msg_idle_q obj') = int MAX_PHL_MSG_NUM" using leave_returns [OF reach_inv [OF assms(1)] assms(2,3)] by blast
  have "size (mset (pq_queue (msg_idle_q obj')) + mset (pq_queue (msg_wait_q obj')) + mset (pq_queue (msg_pend_q obj'))) = size (mset [0 ..< MAX_PHL_MSG_NUM])"
    using l(2) by (simp add: d_inv_def msg_inv_def all_below_def)
  then have "pq_queue (msg_wait_q obj') = []" "pq_queue (msg_pend_q obj') = []"
    using l(2,4) unfolding size_union size_mset by (auto simp: d_inv_def msg_inv_def pq_counted_def)
  from all_idle_done(2) [OF l(2) this] show ?thesis using l by blast
qed

section \<open>The order of the modules\<close>

text \<open>The modules of priority \<open>p\<close> that get a message in a phase: the sender first, then the others as they are queued.\<close>

definition order_at :: "bool \<Rightarrow> phl_dispr_msg_ex \<Rightarrow> phl_bk_module phl_queue list \<Rightarrow> nat \<Rightarrow> u8 list" where
  "order_at pre ex mq p =
     (let mdls = (if pre then pq_queue (mq ! p) else rev (pq_queue (mq ! p)));
          due = map mdl_id (filter (\<lambda>m. mask_has (phase_map pre ex) (mdl_id m) \<and> TEST_STATUS_FLAG (mdl_status m) MDL_STARTED) mdls) in
      if owner_priority ex = p \<and> mask_has (phase_map pre ex) (owner_id ex) then owner_id ex # filter (\<lambda>m. m \<noteq> owner_id ex) due else due)"

definition quiet :: "nat \<Rightarrow> cmd_dispatcher \<Rightarrow> bool" where
  "quiet n obj \<longleftrightarrow> take n (d_script obj) = replicate n (MDL_RET_SUCCESS, [])"

definition mdls_placed :: "phl_bk_module phl_queue list \<Rightarrow> bool" where
  "mdls_placed mq \<longleftrightarrow>
     (\<forall>p < PHL_MDL_PRI_MAX. distinct (map mdl_id (pq_queue (mq ! p))) \<and> (\<forall>m \<in> set (pq_queue (mq ! p)). get_mdl_priority (mdl_id m) = p))"

definition clr_phase :: "bool \<Rightarrow> phl_dispr_msg_ex \<Rightarrow> u8 list \<Rightarrow> phl_dispr_msg_ex" where
  "clr_phase pre ex ids = (if pre then ex\<lparr>mx_premap := foldl clr_bit (mx_premap ex) ids\<rparr> else ex\<lparr>mx_postmap := foldl clr_bit (mx_postmap ex) ids\<rparr>)"

text \<open>The dispatcher after message \<open>i\<close> was given to the modules \<open>ids\<close>.\<close>

definition fed :: "bool \<Rightarrow> nat \<Rightarrow> u8 list \<Rightarrow> cmd_dispatcher \<Rightarrow> cmd_dispatcher" where
  "fed pre i ids obj =
     obj\<lparr>d_script := drop (length ids) (d_script obj), d_events := d_events obj @ map (\<lambda>m. Ev_msg m (mx_msg (msg_ex_pool obj ! i))) ids,
         msg_ex_pool := (msg_ex_pool obj)[i := clr_phase pre (msg_ex_pool obj ! i) ids]\<rparr>"

lemma clr_phase_simps [simp]:
  "mx_msg (clr_phase pre ex ids) = mx_msg ex" "mx_module (clr_phase pre ex ids) = mx_module ex" "clr_phase pre ex [] = ex"
  "phase_map pre (clr_phase pre ex ids) = foldl clr_bit (phase_map pre ex) ids"
  "clr_phase pre (clr_phase pre ex xs) ys = clr_phase pre ex (xs @ ys)"
  by (simp_all add: clr_phase_def phase_map_def)

lemma owner_clr [simp]: "owner_id (clr_phase pre ex ids) = owner_id ex" "owner_priority (clr_phase pre ex ids) = owner_priority ex"
  by (simp_all add: owner_id_def owner_priority_def)

lemma fed_nil [simp]: "fed pre i [] obj = obj"
  by (simp add: fed_def)

lemma fed_fed: "i < length (msg_ex_pool obj) \<Longrightarrow> fed pre i ys (fed pre i xs obj) = fed pre i (xs @ ys) obj"
  by (simp add: fed_def add.commute)

lemma fed_simps [simp]:
  "module_q (fed pre i ids obj) = module_q obj" "length (msg_ex_pool (fed pre i ids obj)) = length (msg_ex_pool obj)"
  "i < length (msg_ex_pool obj) \<Longrightarrow> msg_ex_pool (fed pre i ids obj) ! i = clr_phase pre (msg_ex_pool obj ! i) ids"
  by (simp_all add: fed_def)

lemma quiet_fed: "quiet n obj \<Longrightarrow> length ids + m \<le> n \<Longrightarrow> quiet m (fed pre i ids obj)"
proof -
  let ?k = "length ids"
  assume q: "quiet n obj" and n: "?k + m \<le> n"
  have "take (?k + m) (d_script obj) = take (?k + m) (take n (d_script obj))" using n by (simp add: min_absorb1)
  also have "\<dots> = replicate (?k + m) (MDL_RET_SUCCESS, [])" using q n by (simp add: quiet_def min_absorb1)
  finally have "drop ?k (take (?k + m) (d_script obj)) = replicate m (MDL_RET_SUCCESS, [])" by simp
  then show ?thesis by (simp add: quiet_def fed_def drop_take)
qed

abbreviation in_phase :: "bool \<Rightarrow> phl_dispr_msg_ex \<Rightarrow> bool" where
  "in_phase pre ex \<equiv> (MSG_INDC_FIELD (msg_id (mx_msg ex)) AND MSG_INDC_PRE_PHASE \<noteq> 0) = pre"

lemma feed_one:
  assumes "quiet n obj" and "n > 0" and "in_phase pre (msg_ex_pool obj ! i)"
  shows "feed_mdl_msg obj m i = Some (MDL_RET_SUCCESS, fed pre i [m] obj)"
proof -
  obtain rest where "d_script obj = (MDL_RET_SUCCESS, []) # rest" using assms(1,2) by (cases n; cases "d_script obj") (auto simp: quiet_def)
  then have "callback (Ev_msg m (mx_msg (msg_ex_pool obj ! i))) obj =
      Some (MDL_RET_SUCCESS, log_event (Ev_msg m (mx_msg (msg_ex_pool obj ! i))) (obj\<lparr>d_script := drop 1 (d_script obj)\<rparr>))"
    by (simp add: callback_def)
  then show ?thesis using assms(3)
    by (auto simp: feed_mdl_msg_def fed_def log_event_def upd_ex_def clr_phase_def split: if_splits)
qed

lemma mask_clr: "mask_wf bm \<Longrightarrow> bk_module m \<Longrightarrow> bk_module x \<Longrightarrow> mask_has (clr_bit bm m) x \<longleftrightarrow> x \<noteq> m \<and> mask_has bm x"
  by (rule mask.member_del)

lemma mask_clrs:
  "mask_wf bm \<Longrightarrow> \<forall>m \<in> set ids. bk_module m \<Longrightarrow> bk_module x \<Longrightarrow> mask_has (foldl clr_bit bm ids) x \<longleftrightarrow> x \<notin> set ids \<and> mask_has bm x"
  by (induction ids arbitrary: bm) (auto simp: mask_clr mask.invar_del)

lemma feed_mdls_fed:
  assumes "quiet n obj" and "length mdls \<le> n" and "in_phase pre (msg_ex_pool obj ! i)" and "i < length (msg_ex_pool obj)"
    and "mask_wf (phase_map pre (msg_ex_pool obj ! i))" and "\<forall>m \<in> set mdls. bk_module (mdl_id m)" and "distinct (map mdl_id mdls)"
  shows "feed_mdls pre mdls i obj = Some (False, fed pre i (map mdl_id (filter (\<lambda>m. mask_has (phase_map pre (msg_ex_pool obj ! i)) (mdl_id m) \<and>
      TEST_STATUS_FLAG (mdl_status m) MDL_STARTED) mdls)) obj)"
  using assms
proof (induction mdls arbitrary: obj n)
  case (Cons m mdls)
  let ?bm = "phase_map pre (msg_ex_pool obj ! i)"
  show ?case
  proof (cases "mask_has ?bm (mdl_id m) \<and> TEST_STATUS_FLAG (mdl_status m) MDL_STARTED")
    case True
    let ?obj = "fed pre i [mdl_id m] obj"
    have feed: "feed_mdl_msg obj (mdl_id m) i = Some (MDL_RET_SUCCESS, ?obj)" by (rule feed_one [OF Cons.prems(1)]) (use Cons.prems in auto)
    have same: "mask_has (clr_bit ?bm (mdl_id m)) (mdl_id x) \<longleftrightarrow> mask_has ?bm (mdl_id x)" if "x \<in> set mdls" for x
    proof -
      have "mdl_id x \<in> mdl_id ` set mdls" using that by simp
      then have "mdl_id x \<noteq> mdl_id m" using Cons.prems(7) by auto
      then show ?thesis using that Cons.prems(5,6) by (subst mask_clr) auto
    qed
    have "feed_mdls pre mdls i ?obj = Some (False, fed pre i (map mdl_id (filter (\<lambda>x. mask_has (phase_map pre (msg_ex_pool ?obj ! i)) (mdl_id x) \<and>
        TEST_STATUS_FLAG (mdl_status x) MDL_STARTED) mdls)) ?obj)"
      by (rule Cons.IH [OF quiet_fed [OF Cons.prems(1), of "[mdl_id m]" "length mdls"]]) (use Cons.prems mask.invar_del in auto)
    also have "filter (\<lambda>x. mask_has (phase_map pre (msg_ex_pool ?obj ! i)) (mdl_id x) \<and> TEST_STATUS_FLAG (mdl_status x) MDL_STARTED) mdls =
        filter (\<lambda>x. mask_has ?bm (mdl_id x) \<and> TEST_STATUS_FLAG (mdl_status x) MDL_STARTED) mdls"
      by (rule filter_cong) (use same Cons.prems(4) in auto)
    finally show ?thesis using True feed Cons.prems(4) by (simp add: STOP_DISPATCH_MSG_def fed_fed)
  qed (use Cons in auto)
qed simp

lemma priority_bk: "get_mdl_priority m < PHL_MDL_PRI_MAX \<Longrightarrow> bk_module m"
  by (simp add: get_mdl_priority_def bk_module_def word_le_nat_alt word_less_nat_alt split: if_splits)

lemma placed_bk: "mdls_placed mq \<Longrightarrow> p < PHL_MDL_PRI_MAX \<Longrightarrow> m \<in> set (pq_queue (mq ! p)) \<Longrightarrow> bk_module (mdl_id m)"
  by (rule priority_bk) (auto simp: mdls_placed_def)

lemma owner_pri: "owner_priority ex < PHL_MDL_PRI_MAX \<Longrightarrow> get_mdl_priority (owner_id ex) = owner_priority ex"
  by (simp add: owner_priority_def split: if_splits)

lemma order_at_mem:
  assumes "mdls_placed mq" and "p < PHL_MDL_PRI_MAX" and "m \<in> set (order_at pre ex mq p)"
  shows "get_mdl_priority m = p" and "bk_module m"
proof -
  show pri: "get_mdl_priority m = p"
    using assms owner_pri [of ex] by (auto simp: order_at_def mdls_placed_def Let_def split: if_splits)
  then show "bk_module m" using assms(2) by (intro priority_bk) simp
qed

text \<open>Modules of other priorities do not matter.\<close>

lemma order_at_clr:
  assumes "mdls_placed mq" and "p < PHL_MDL_PRI_MAX" and "mask_wf (phase_map pre ex)" and "\<forall>m \<in> set ids. bk_module m \<and> get_mdl_priority m \<noteq> p"
  shows "order_at pre (clr_phase pre ex ids) mq p = order_at pre ex mq p"
proof -
  have has: "mask_has (foldl clr_bit (phase_map pre ex) ids) x \<longleftrightarrow> mask_has (phase_map pre ex) x" if "bk_module x" "get_mdl_priority x = p" for x
    using that assms(3,4) by (subst mask_clrs) auto
  have "filter (\<lambda>m. mask_has (foldl clr_bit (phase_map pre ex) ids) (mdl_id m) \<and> P m) (if pre then pq_queue (mq ! p) else rev (pq_queue (mq ! p))) =
      filter (\<lambda>m. mask_has (phase_map pre ex) (mdl_id m) \<and> P m) (if pre then pq_queue (mq ! p) else rev (pq_queue (mq ! p)))" for P
    by (rule filter_cong) (use assms(1,2) placed_bk [OF assms(1,2)] has in \<open>auto simp: mdls_placed_def split: if_splits\<close>)
  moreover have "owner_priority ex = p \<Longrightarrow> mask_has (foldl clr_bit (phase_map pre ex) ids) (owner_id ex) \<longleftrightarrow> mask_has (phase_map pre ex) (owner_id ex)"
    using owner_pri [of ex] priority_bk [of "owner_id ex"] assms(2) by (intro has) auto
  ultimately show ?thesis by (simp add: order_at_def Let_def cong: conj_cong)
qed

lemma phase_loop_step:
  assumes "quiet n obj" and "Suc (length (pq_queue (module_q obj ! p))) \<le> n" and "in_phase pre (msg_ex_pool obj ! i)" and "i < length (msg_ex_pool obj)"
    and "mask_wf (phase_map pre (msg_ex_pool obj ! i))" and "mdls_placed (module_q obj)" and "p < PHL_MDL_PRI_MAX"
  shows "phase_loop pre (owner_priority (msg_ex_pool obj ! i)) (p # ps) i obj =
    phase_loop pre (owner_priority (msg_ex_pool obj ! i)) ps i (fed pre i (order_at pre (msg_ex_pool obj ! i) (module_q obj) p) obj)"
proof -
  let ?ex = "msg_ex_pool obj ! i" and ?mdls = "if pre then pq_queue (module_q obj ! p) else rev (pq_queue (module_q obj ! p))"
  have mdls: "length ?mdls = length (pq_queue (module_q obj ! p))" "\<forall>m \<in> set ?mdls. bk_module (mdl_id m)" "distinct (map mdl_id ?mdls)"
    using placed_bk [OF assms(6,7)] assms(6,7) by (auto simp: mdls_placed_def rev_map [symmetric])
  show ?thesis
  proof (cases "owner_priority ?ex = p \<and> mask_has (phase_map pre ?ex) (owner_id ?ex)")
    case False
    then show ?thesis using feed_mdls_fed [OF assms(1) _ assms(3-5) mdls(2,3)] assms(2) mdls(1)
      by (auto simp: order_at_def Let_def)
  next
    case True
    let ?o = "owner_id ?ex" and ?obj = "fed pre i [owner_id (msg_ex_pool obj ! i)] obj"
    have bk: "bk_module ?o" using True owner_pri [of ?ex] assms(7) by (intro priority_bk) simp
    have feed: "feed_mdl_msg obj ?o i = Some (MDL_RET_SUCCESS, ?obj)" by (rule feed_one [OF assms(1)]) (use assms in auto)
    have q: "quiet (length ?mdls) ?obj" by (rule quiet_fed [OF assms(1)]) (use assms(2) in simp)
    have wf: "mask_wf (phase_map pre (msg_ex_pool ?obj ! i))" using assms(4,5) mask.invar_del [OF _ bk] by simp
    have "feed_mdls pre ?mdls i ?obj = Some (False, fed pre i (map mdl_id (filter (\<lambda>m. mask_has (phase_map pre (msg_ex_pool ?obj ! i)) (mdl_id m) \<and>
        TEST_STATUS_FLAG (mdl_status m) MDL_STARTED) ?mdls)) ?obj)"
      by (rule feed_mdls_fed [OF q]) (use assms(3,4) wf mdls in auto)
    also have "map mdl_id (filter (\<lambda>m. mask_has (phase_map pre (msg_ex_pool ?obj ! i)) (mdl_id m) \<and> TEST_STATUS_FLAG (mdl_status m) MDL_STARTED) ?mdls) =
        filter (\<lambda>m. m \<noteq> ?o) (map mdl_id (filter (\<lambda>m. mask_has (phase_map pre ?ex) (mdl_id m) \<and> TEST_STATUS_FLAG (mdl_status m) MDL_STARTED) ?mdls))"
      unfolding filter_map filter_filter comp_def
      by (intro arg_cong [of _ _ "map mdl_id"] filter_cong) (use mdls(2) mask_clr [OF assms(5) bk] assms(4) in auto)
    finally show ?thesis using True feed assms(4) unfolding phase_loop.simps Let_def order_at_def
      by (cases pre) (simp_all add: STOP_DISPATCH_MSG_def fed_fed)
  qed
qed

text \<open>A whole phase over the priorities \<open>ps\<close>.\<close>

lemma phase_loop_fed:
  assumes "quiet n obj" and "(\<Sum>p\<leftarrow>ps. Suc (length (pq_queue (module_q obj ! p)))) \<le> n" and "in_phase pre (msg_ex_pool obj ! i)"
    and "i < length (msg_ex_pool obj)" and "mask_wf (phase_map pre (msg_ex_pool obj ! i))" and "mdls_placed (module_q obj)"
    and "\<forall>p \<in> set ps. p < PHL_MDL_PRI_MAX" and "distinct ps"
  shows "phase_loop pre (owner_priority (msg_ex_pool obj ! i)) ps i obj =
    Some (fed pre i (concat (map (order_at pre (msg_ex_pool obj ! i) (module_q obj)) ps)) obj)"
  using assms
proof (induction ps arbitrary: n obj)
  case (Cons p ps)
  let ?ex = "msg_ex_pool obj ! i" and ?ids = "order_at pre (msg_ex_pool obj ! i) (module_q obj) p"
  let ?obj = "fed pre i ?ids obj"
  have len: "length ?ids \<le> Suc (length (pq_queue (module_q obj ! p)))"
    unfolding order_at_def Let_def by (auto intro!: le_SucI order_trans [OF length_filter_le] split: if_splits)
  have p: "p < PHL_MDL_PRI_MAX" using Cons.prems(7) by simp
  have mem: "get_mdl_priority m = p" "bk_module m" if "m \<in> set ?ids" for m using order_at_mem [OF Cons.prems(6) p that] by auto
  have ex: "msg_ex_pool ?obj ! i = clr_phase pre ?ex ?ids" using Cons.prems(4) by simp
  have wf: "mask_wf (foldl clr_bit (phase_map pre ?ex) ?ids)" using mask.foldl_del [of "phase_map pre ?ex" ?ids] Cons.prems(5) mem(2) by blast
  have "phase_loop pre (owner_priority ?ex) (p # ps) i obj = phase_loop pre (owner_priority (msg_ex_pool ?obj ! i)) ps i ?obj"
    using phase_loop_step [OF Cons.prems(1) _ Cons.prems(3-6) p] Cons.prems(2) ex by simp
  also have "\<dots> = Some (fed pre i (concat (map (order_at pre (msg_ex_pool ?obj ! i) (module_q ?obj)) ps)) ?obj)"
    by (rule Cons.IH [OF quiet_fed [OF Cons.prems(1), of ?ids "\<Sum>p\<leftarrow>ps. Suc (length (pq_queue (module_q obj ! p)))"]])
      (use Cons.prems len wf ex in auto)
  also have "map (order_at pre (msg_ex_pool ?obj ! i) (module_q ?obj)) ps = map (order_at pre ?ex (module_q obj)) ps"
  proof (rule map_cong)
    fix p' assume "p' \<in> set ps"
    then have "p' < PHL_MDL_PRI_MAX" "p' \<noteq> p" using Cons.prems(7,8) by auto
    then show "order_at pre (msg_ex_pool ?obj ! i) (module_q ?obj) p' = order_at pre ?ex (module_q obj) p'"
      unfolding ex using order_at_clr [OF Cons.prems(6) _ Cons.prems(5), of p' ?ids] mem by auto
  qed simp
  finally show ?case using fed_fed [OF Cons.prems(4)] by simp
qed simp

lemma order_at_distinct: "mdls_placed mq \<Longrightarrow> p < PHL_MDL_PRI_MAX \<Longrightarrow> distinct (order_at pre ex mq p)"
  by (auto simp: order_at_def mdls_placed_def Let_def distinct_map_filter simp flip: rev_map)

lemma order_mem:
  assumes "mdls_placed mq" and "\<forall>p \<in> set ps. p < PHL_MDL_PRI_MAX" and "m \<in> set (concat (map (order_at pre ex mq) ps))"
  shows "get_mdl_priority m \<in> set ps" and "bk_module m"
  using assms order_at_mem [OF assms(1)] by auto

lemma order_distinct:
  assumes "mdls_placed mq" and "\<forall>p \<in> set ps. p < PHL_MDL_PRI_MAX" and "distinct ps"
  shows "distinct (concat (map (order_at pre ex mq) ps))"
  using assms(2,3)
proof (induction ps)
  case (Cons p ps)
  have "set (order_at pre ex mq p) \<inter> set (concat (map (order_at pre ex mq) ps)) = {}"
  proof (rule equals0I)
    fix m assume m: "m \<in> set (order_at pre ex mq p) \<inter> set (concat (map (order_at pre ex mq) ps))"
    have "get_mdl_priority m = p" by (rule order_at_mem(1) [OF assms(1)]) (use m Cons.prems(1) in auto)
    moreover have "get_mdl_priority m \<in> set ps" by (rule order_mem(1) [OF assms(1)]) (use m Cons.prems(1) in auto)
    ultimately show False using Cons.prems(2) by simp
  qed
  then show ?case using Cons order_at_distinct [OF assms(1)] by simp
qed simp

text \<open>
  C18: when no module objects, a phase gives a message to every started module of its mask exactly once, in a fixed order:
  the first phase to mandatory, then optional, then role modules in the order of their registration, the second phase the
  other way round; in both the sender comes first among the modules of its priority. The mask is left without these modules.
\<close>

theorem dispr_phase_order:
  assumes "quiet n obj" and "(\<Sum>p\<leftarrow>[2, 1, 0]. Suc (length (pq_queue (module_q obj ! p)))) \<le> n" and "i < length (msg_ex_pool obj)"
    and "mask_wf (phase_map pre (msg_ex_pool obj ! i))" and "mdls_placed (module_q obj)" and "in_phase pre (msg_ex_pool obj ! i)"
  shows "let ids = concat (map (order_at pre (msg_ex_pool obj ! i) (module_q obj)) (if pre then [2, 1, 0] else [0, 1, 2])) in
    (if pre then msg_pre_phase_hdl obj i else msg_post_phase_hdl obj i) = Some (fed pre i ids obj) \<and> distinct ids \<and>
    (\<forall>m. bk_module m \<longrightarrow> (mask_has (phase_map pre (msg_ex_pool (fed pre i ids obj) ! i)) m \<longleftrightarrow>
                         mask_has (phase_map pre (msg_ex_pool obj ! i)) m \<and> m \<notin> set ids))"
proof -
  let ?ex = "msg_ex_pool obj ! i" and ?ps = "if pre then [2, 1, 0] else [0, 1, 2 :: nat]"
  define ids where "ids = concat (map (order_at pre ?ex (module_q obj)) ?ps)"
  have ps: "\<forall>p \<in> set ?ps. p < PHL_MDL_PRI_MAX" "distinct ?ps" by (cases pre; simp)+
  have "(\<Sum>p\<leftarrow>?ps. Suc (length (pq_queue (module_q obj ! p)))) \<le> n" using assms(2) by (cases pre) simp_all
  from phase_loop_fed [OF assms(1) this assms(6,3,4,5) ps]
  have "(if pre then msg_pre_phase_hdl obj i else msg_post_phase_hdl obj i) = Some (fed pre i ids obj)"
    unfolding ids_def msg_pre_phase_hdl_def msg_post_phase_hdl_def by (cases pre) (simp_all only: if_True if_False)
  moreover have "distinct ids" unfolding ids_def by (rule order_distinct [OF assms(5) ps])
  moreover have "\<forall>x \<in> set ids. bk_module x" unfolding ids_def using order_mem(2) [OF assms(5) ps(1)] by blast
  then have "\<forall>m. bk_module m \<longrightarrow> (mask_has (phase_map pre (msg_ex_pool (fed pre i ids obj) ! i)) m \<longleftrightarrow> mask_has (phase_map pre ?ex) m \<and> m \<notin> set ids)"
    using mask_clrs [OF assms(4), of ids] assms(3) by auto
  ultimately show ?thesis unfolding Let_def ids_def by blast
qed

lemma indc_cleared: "MSG_INDC_FIELD (CLEAR_MSG_INDC_FIELD mid MSG_INDC_PRE_PHASE) AND MSG_INDC_PRE_PHASE = 0"
proof (rule bit_word_eqI)
  fix n :: nat assume n: "n < LENGTH(8)"
  show "bit (MSG_INDC_FIELD (CLEAR_MSG_INDC_FIELD mid MSG_INDC_PRE_PHASE) AND MSG_INDC_PRE_PHASE) n = bit (0 :: u8) n"
    by (cases "n = 0") (simp_all add: MSG_INDC_FIELD_def CLEAR_MSG_INDC_FIELD_def bit_simps)
qed

text \<open>
  A message that was made pending in the second phase is cancelled when it is taken up again: no module gets it,
  although its mask still names modules.
\<close>

theorem second_phase_resume_cancels:
  assumes "i < length (msg_ex_pool obj)" and "\<not> d_test obj DISPR_CTRL_PRESENT" and "\<not> is_bitmap_empty (mx_postmap (msg_ex_pool obj ! i))"
    and "\<forall>f \<in> {MSG_STATUS_PRE_PHASE, MSG_STATUS_FAIL, MSG_STATUS_CANCEL, MSG_STATUS_PENDING}. \<not> mx_test obj i f"
  shows "msg_dispatch obj i = Some (msg_invalid (snd (get_msg_bitmap obj i)) i)"
proof -
  define obj1 where "obj1 = snd (get_msg_bitmap obj i)"
  have g: "get_msg_bitmap obj i = (False, obj1)" using assms(4) by (simp add: get_msg_bitmap_def obj1_def)
  have ex: "msg_ex_pool obj1 ! i = (msg_ex_pool obj ! i)\<lparr>mx_msg := (mx_msg (msg_ex_pool obj ! i))\<lparr>msg_id :=
      CLEAR_MSG_INDC_FIELD (msg_id (mx_msg (msg_ex_pool obj ! i))) MSG_INDC_PRE_PHASE\<rparr>\<rparr>"
    using assms(1,4) by (simp add: obj1_def get_msg_bitmap_def upd_ex_def)
  have r: "redirect_chk obj1 i go = go obj1" for go using assms(4) by (simp add: redirect_chk_def mx_test_def ex)
  have indc: "MSG_INDC_FIELD (msg_id (mx_msg (msg_ex_pool obj1 ! i))) AND MSG_INDC_PRE_PHASE = 0" unfolding ex using indc_cleared by simp
  have bm: "\<not> is_bitmap_empty (phase_map False (msg_ex_pool obj1 ! i))" using assms(3) by (simp add: ex phase_map_def)
  have n: "notify_dispr_controller obj1 i = Some obj1"
    using assms(2) by (simp add: notify_dispr_controller_def obj1_def get_msg_bitmap_def upd_ex_def d_test_def)
  have p: "msg_dispatch_post False obj1 i = Some (msg_invalid obj1 i)" using bm by (simp add: msg_dispatch_post_def)
  have "msg_dispatch obj i = Some (msg_invalid obj1 i)"
    unfolding msg_dispatch_def g Let_def prod.case r n Option.bind.bind_lunit indc simp_thms if_False p by (rule TrueI)
  then show ?thesis by (simp only: obj1_def)
qed

section \<open>Examples\<close>

lemma cancel_running_stop: "stop_view (cancel_running_msg obj) = stop_view obj"
proof -
  have "stop_view (foldl (\<lambda>obj i. if mx_test obj i MSG_STATUS_RUN then cancel_msg obj i else obj) obj is) = stop_view obj" for "is" obj
    by (induction "is" arbitrary: obj) (simp_all add: cancel_msg_def)
  then show ?thesis unfolding cancel_running_msg_def .
qed

lemma stop_prior_returns:
  assumes "d_script obj \<noteq> []"
  shows "\<exists>obj'. dispr_thread_stop_prior_hdl obj = Some obj' \<and> \<not> d_test obj' DISPR_STARTED \<and> length (d_script obj) \<le> length (d_script obj') + 1"
proof -
  define obj1 where "obj1 = d_clear DISPR_CTRL_PRESENT (d_clear DISPR_STARTED obj)"
  have st: "\<not> d_test obj1 DISPR_STARTED" "d_script obj1 = d_script obj" by (simp_all add: obj1_def d_test_def d_clear_def)
  obtain ret ct obj2 where 2: "bk_module_stop obj1 (controller obj1) = Some (ret, ct, obj2)" "\<not> d_test obj2 DISPR_STARTED"
    "length (d_script obj) \<le> length (d_script obj2) + 1"
  proof (cases "TEST_STATUS_FLAG (mdl_status (controller obj1)) MDL_STARTED")
    case True
    have "d_script obj1 \<noteq> []" using st assms by simp
    from callback_stopped [OF st(1) this, of "Ev_mdl_stop (mdl_id (controller obj1))"] True st(2) that show ?thesis
      by (auto simp: bk_module_stop_def)
  qed (use st that in \<open>auto simp: bk_module_stop_def\<close>)
  have v: "stop_view (cancel_running_msg (cancel_all_cmd_req (obj2\<lparr>controller := ct\<rparr>))) = stop_view obj2"
    unfolding cancel_running_stop by (simp add: stop_view_def cancel_all_cmd_req_def d_test_def)
  have "dispr_thread_stop_prior_hdl obj = Some (cancel_running_msg (cancel_all_cmd_req (obj2\<lparr>controller := ct\<rparr>)))"
    unfolding dispr_thread_stop_prior_hdl_def Let_def obj1_def [symmetric] by (simp add: 2)
  then show ?thesis using v 2 by (simp add: stop_view_def)
qed

declare process_token_loop.simps [code] token_op_hanler.simps [code] clear_waiting_msg.simps [code] abort_waiting.simps [code] clear_wating_req.simps [code]

definition demo_dmsg :: phl_msg where
  "demo_dmsg = msg0\<lparr>msg_id := push_bit 16 45 OR 70\<rparr>"

definition mdls_chk :: "cmd_dispatcher \<Rightarrow> cmd_dispatcher option" where
  "mdls_chk obj = (if mdls_ok obj then Some obj else None)"

text \<open>One module is registered and started, it sends a message with routine 7, and a request is added.\<close>

definition demo_calls :: "cmd_dispatcher option" where
  "demo_calls = do {
     obj \<leftarrow> dispr_init (replicate 20 (MDL_RET_SUCCESS, []));
     obj \<leftarrow> mdls_chk obj;
     (_, obj) \<leftarrow> dispr_register_module True obj 45 True;
     obj \<leftarrow> mdls_chk obj;
     (_, obj) \<leftarrow> dispr_start obj;
     obj \<leftarrow> mdls_chk obj;
     (_, obj) \<leftarrow> dispr_module_start obj;
     obj \<leftarrow> mdls_chk obj;
     obj \<leftarrow> run_call (Call_send demo_dmsg (Some (attr0\<lparr>attr_completion := Some 7\<rparr>))) obj;
     obj \<leftarrow> mdls_chk obj;
     run_call (Call_add_req \<lparr>req_module_id = 130, req_ops = True\<rparr>) obj
   }"

lemma demo_ok: "call_ok (Call_send demo_dmsg a)" "call_ok (Call_add_req q)" "script_ok (replicate n (MDL_RET_SUCCESS, []))"
  by (simp_all add: demo_dmsg_def MSG_MDL_ID_FIELD_def script_ok_def list_all_iff)

lemma demo_reach: "demo_calls = Some obj \<Longrightarrow> dispr_reach obj"
  unfolding demo_calls_def mdls_chk_def
  by (clarsimp simp del: run_call.simps split: bind_splits if_splits,
      rule dispr_reach.call, rule dispr_reach.call, rule dispr_reach.module_start, rule dispr_reach.start, rule dispr_made.register, rule dispr_made.init)
    (assumption | rule demo_ok)+

lemma demo_calls_value:
  "case demo_calls of None \<Rightarrow> False
   | Some obj \<Rightarrow> mdls_ok obj \<and> d_events obj = [Ev_mdl_init 1, Ev_mdl_init 45, Ev_mdl_start 1, Ev_mdl_start 45, Ev_sent 7] \<and>
       pq_queue (msg_wait_q obj) = [0] \<and> pq_queue (token_req_wait_q obj) = [0] \<and> pq_queue (token_op_q obj) = [Add_info 0] \<and>
       cur_cmd_req obj = None \<and> length (d_script obj) = 16"
  by code_simp

definition demo_dispr :: cmd_dispatcher where
  "demo_dispr = the demo_calls"

lemma demo_dispr_facts:
  "dispr_reach demo_dispr" "mdls_ok demo_dispr" "d_events demo_dispr = [Ev_mdl_init 1, Ev_mdl_init 45, Ev_mdl_start 1, Ev_mdl_start 45, Ev_sent 7]"
  "pq_queue (msg_wait_q demo_dispr) = [0]" "pq_queue (token_req_wait_q demo_dispr) = [0]" "pq_queue (token_op_q demo_dispr) = [Add_info 0]"
  "cur_cmd_req demo_dispr = None" "length (d_script demo_dispr) = 16"
proof -
  obtain obj where obj: "demo_calls = Some obj" using demo_calls_value by (cases demo_calls) auto
  have d: "demo_dispr = obj" unfolding demo_dispr_def obj by (rule option.sel)
  note v = demo_calls_value [unfolded obj option.case]
  show "dispr_reach demo_dispr" unfolding d by (rule demo_reach [OF obj])
  show "mdls_ok demo_dispr" "d_events demo_dispr = [Ev_mdl_init 1, Ev_mdl_init 45, Ev_mdl_start 1, Ev_mdl_start 45, Ev_sent 7]"
    "pq_queue (msg_wait_q demo_dispr) = [0]" "pq_queue (token_req_wait_q demo_dispr) = [0]" "pq_queue (token_op_q demo_dispr) = [Add_info 0]"
    "cur_cmd_req demo_dispr = None" "length (d_script demo_dispr) = 16" unfolding d using v by blast+
qed

lemma demo_sent: "sent demo_dispr = {#7#}" "completed demo_dispr = {#}"
  by (simp_all add: sent_def completed_def demo_dispr_facts)

theorem dispr_messages_conserved_witness:
  "dispr_reach demo_dispr \<and> outstanding (msg_ex_pool demo_dispr) = {#7#} \<and>
   set (pq_queue (msg_idle_q demo_dispr) @ [0] @ pq_queue (msg_pend_q demo_dispr)) = {0 ..< MAX_PHL_MSG_NUM}"
  using dispr_messages_conserved [OF demo_dispr_facts(1)] demo_dispr_facts(1,4) demo_sent by simp

theorem dispr_one_token_witness:
  "token_cnt demo_dispr = 0 \<and> set (pq_queue (token_req_idle_q demo_dispr) @ [0]) = {0 ..< MAX_CMD_REQ_NUM}"
  using dispr_one_token [OF demo_dispr_facts(1)] demo_dispr_facts(5,7) by (simp add: cur_req_def)


theorem dispr_abort_msg_never_witness: "\<not> d_test demo_dispr DISPR_WAIT_ABORT_MSG_DONE"
  using dispr_abort_msg_never [OF demo_dispr_facts(1)] by simp

theorem dispr_leave_completes_witness:
  "\<exists>obj1 obj2. dispr_thread_stop_prior_hdl demo_dispr = Some obj1 \<and> dispr_thread_leave_hdl obj1 = Some obj2 \<and> completed obj2 = sent obj2"
proof -
  have "d_script demo_dispr \<noteq> []" using demo_dispr_facts(8) by auto
  from stop_prior_returns [OF this] obtain obj1 where 1: "dispr_thread_stop_prior_hdl demo_dispr = Some obj1" "\<not> d_test obj1 DISPR_STARTED"
    "length (d_script obj1) > MAX_CMD_REQ_NUM" using demo_dispr_facts(8) by auto
  show ?thesis using dispr_leave_completes [OF dispr_reach.stop [OF demo_dispr_facts(1,2) 1(1)] 1(2,3)] 1(1) by blast
qed

text \<open>Four modules; module 50 sends.\<close>

definition demo_mdl :: "u8 \<Rightarrow> phl_bk_module" where
  "demo_mdl mid = \<lparr>mdl_id = mid, mdl_status = 3, mdl_freed = False\<rparr>"

definition demo_ex :: phl_dispr_msg_ex where
  "demo_ex = mx0\<lparr>mx_msg := msg0\<lparr>msg_id := 0x1320046\<rparr>, mx_premap := foldl add_bit (replicate MODL_MASK_LEN 0) [20, 45, 50, 80], mx_module := Some 50\<rparr>"

definition demo_order :: cmd_dispatcher where
  "demo_order = (the (dispr_init [(MDL_RET_SUCCESS, [])]))\<lparr>d_script := replicate 7 (MDL_RET_SUCCESS, []), msg_ex_pool := [demo_ex],
     module_q := [\<lparr>pq_queue = [demo_mdl 20], pq_cnt = 1\<rparr>, \<lparr>pq_queue = [demo_mdl 80], pq_cnt = 1\<rparr>, \<lparr>pq_queue = [demo_mdl 45, demo_mdl 50], pq_cnt = 2\<rparr>]\<rparr>"

lemma demo_order_hyps:
  "quiet 7 demo_order" "(\<Sum>p\<leftarrow>[2, 1, 0]. Suc (length (pq_queue (module_q demo_order ! p)))) \<le> 7" "0 < length (msg_ex_pool demo_order)"
  "mask_wf (phase_map True (msg_ex_pool demo_order ! 0))" "mdls_placed (module_q demo_order)" "in_phase True (msg_ex_pool demo_order ! 0)"
  by code_simp+

lemma demo_order_ids: "concat (map (order_at True (msg_ex_pool demo_order ! 0) (module_q demo_order)) [2, 1, 0]) = [50, 45, 80, 20]"
  by code_simp

theorem dispr_phase_order_witness:
  "msg_pre_phase_hdl demo_order 0 = Some (fed True 0 [50, 45, 80, 20] demo_order)"
  using dispr_phase_order [OF demo_order_hyps] unfolding Let_def if_True demo_order_ids by (rule conjunct1)

end
