(* ===== verification/Rtw_Wep.thy ===== *)
theory Rtw_Wep
  imports Rtw_Mem
begin

text \<open>
  Software WEP of \<^verbatim>\<open>core/rtw_security.c\<close>: the RC4 stream cipher, the table-driven CRC-32, and
  encryption and decryption of frames. Buffers are as in \<^verbatim>\<open>Rtw_Mem\<close>.
\<close>

text \<open>A 32-bit number stored by a little-endian machine.\<close>

definition le32 :: "u32 \<Rightarrow> bytes" where
  "le32 c = map (\<lambda>i. ucast (drop_bit (8 * i) c)) [0..<4]"

definition le32_word :: "bytes \<Rightarrow> u32" where
  "le32_word bs = fold (\<lambda>i c. c OR push_bit (8 * i) (ucast (bs ! i))) [0..<4] 0"

section \<open>RC4\<close>

record arc4context =
  arc4_x :: u32
  arc4_y :: u32
  arc4_state :: bytes

definition arcfour_init_step :: "bytes \<Rightarrow> u32 \<Rightarrow> nat \<Rightarrow> bytes \<times> u32 \<times> u32 \<Rightarrow> bytes \<times> u32 \<times> u32" where
  "arcfour_init_step key key_len counter = (\<lambda>(state, stateindex, keyindex).
     let t = ucast (state ! counter) :: u32;
         stateindex = (stateindex + ucast (key ! unat keyindex) + t) AND 0xff;
         u = ucast (state ! unat stateindex) :: u32;
         state = state[unat stateindex := ucast t];
         state = state[counter := ucast u];
         keyindex = keyindex + 1
     in (state, stateindex, if keyindex \<ge> key_len then 0 else keyindex))"

definition arcfour_init :: "bytes \<Rightarrow> u32 \<Rightarrow> arc4context" where
  "arcfour_init key key_len =
     (case fold (arcfour_init_step key key_len) [0..<256] (map of_nat [0..<256], 0, 0) of
        (state, _) \<Rightarrow> \<lparr>arc4_x = 0, arc4_y = 0, arc4_state = state\<rparr>)"

definition arcfour_byte :: "arc4context \<Rightarrow> u32 \<times> arc4context" where
  "arcfour_byte ctx =
     (let state = arc4_state ctx;
          x = (arc4_x ctx + 1) AND 0xff;
          sx = ucast (state ! unat x) :: u32;
          y = (sx + arc4_y ctx) AND 0xff;
          sy = ucast (state ! unat y) :: u32;
          state = state[unat y := ucast sx];
          state = state[unat x := ucast sy]
      in (ucast (state ! unat ((sx + sy) AND 0xff)), \<lparr>arc4_x = x, arc4_y = y, arc4_state = state\<rparr>))"

fun arcfour_encrypt :: "arc4context \<Rightarrow> bytes \<Rightarrow> bytes \<times> arc4context" where
  "arcfour_encrypt ctx [] = ([], ctx)"
| "arcfour_encrypt ctx (b # src) =
     (let (k, ctx) = arcfour_byte ctx; (dest, ctx) = arcfour_encrypt ctx src in ((b XOR ucast k) # dest, ctx))"

section \<open>CRC-32\<close>

definition CRC32_POLY :: u32 where "CRC32_POLY = 0x04c11db7"

definition crc32_reverseBit :: "u8 \<Rightarrow> u8" where
  "crc32_reverseBit d =
     (push_bit 7 d AND 0x80) OR (push_bit 5 d AND 0x40) OR (push_bit 3 d AND 0x20) OR (push_bit 1 d AND 0x10) OR
     (drop_bit 1 d AND 0x08) OR (drop_bit 3 d AND 0x04) OR (drop_bit 5 d AND 0x02) OR (drop_bit 7 d AND 0x01)"

definition crc32_shift :: "u32 \<Rightarrow> u32" where
  "crc32_shift c = (if c AND 0x80000000 \<noteq> 0 then push_bit 1 c XOR CRC32_POLY else push_bit 1 c)"

text \<open>Byte \<open>j\<close> of a table entry is the reversed byte \<open>3 - j\<close> of the remainder.\<close>

definition crc32_entry :: "u32 \<Rightarrow> u32" where
  "crc32_entry c = le32_word (map crc32_reverseBit (rev (le32 c)))"

definition crc32_init :: "u32 list" where
  "crc32_init =
     map (\<lambda>i. crc32_entry ((crc32_shift ^^ 8) (push_bit 24 (ucast (crc32_reverseBit (of_nat i)))))) [0..<256]"

definition crc32_upd :: "u32 \<Rightarrow> u8 \<Rightarrow> u32" where
  "crc32_upd crc p = crc32_init ! unat ((crc XOR ucast p) AND 0xff) XOR drop_bit 8 crc"

definition getcrc32 :: "bytes \<Rightarrow> u32" where
  "getcrc32 buf = NOT (foldl crc32_upd 0xffffffff buf)"

section \<open>The cipher is an involution\<close>

lemma encrypt_append:
  "arcfour_encrypt ctx (a @ b) =
     (let (x, ctx1) = arcfour_encrypt ctx a; (y, ctx2) = arcfour_encrypt ctx1 b in (x @ y, ctx2))"
  by (induction a arbitrary: ctx) (auto simp: Let_def split: prod.splits)

lemma encrypt_length [simp]: "length (fst (arcfour_encrypt ctx src)) = length src"
  by (induction src arbitrary: ctx) (auto simp: Let_def split: prod.splits, metis fst_conv)

lemma encrypt_involution:
  "arcfour_encrypt ctx (fst (arcfour_encrypt ctx src)) = (src, snd (arcfour_encrypt ctx src))"
proof (induction src arbitrary: ctx)
  case (Cons b src)
  obtain k ctx1 where k: "arcfour_byte ctx = (k, ctx1)" by fastforce
  obtain dest ctx2 where d: "arcfour_encrypt ctx1 src = (dest, ctx2)" by fastforce
  with Cons.IH [of ctx1] k show ?case by (simp add: Let_def xor.assoc)
qed simp

section \<open>The table computes the reflected CRC\<close>

text \<open>The reference: one bit at a time, least significant bit first.\<close>

definition crc_bit :: "u32 \<Rightarrow> u32" where
  "crc_bit c = (if bit c 0 then drop_bit 1 c XOR 0xEDB88320 else drop_bit 1 c)"

definition crc_reference :: "bytes \<Rightarrow> u32" where
  "crc_reference bs = NOT (foldl (\<lambda>c b. (crc_bit ^^ 8) (c XOR ucast b)) (-1) bs)"

lemma and_BIT: "bit (x AND push_bit k 1 :: u8) n = (n = k \<and> k < 8 \<and> bit x n)"
  by (auto simp: bit_simps)

lemma and_1: "bit (x AND 1 :: u8) n = (n = 0 \<and> bit x n)"
  by (auto simp: bit_simps)

lemma powers: "(0x80::u8) = push_bit 7 1" "(0x40::u8) = push_bit 6 1" "(0x20::u8) = push_bit 5 1" "(0x10::u8) = push_bit 4 1"
   "(8::u8) = push_bit 3 1" "(4::u8) = push_bit 2 1" "(2::u8) = push_bit 1 1" by simp_all

lemma bit_reverseBit: "bit (crc32_reverseBit d) n \<longleftrightarrow> n < 8 \<and> bit d (7 - n)"
proof (cases "n < 8")
  case True
  then consider "n = 0" | "n = 1" | "n = 2" | "n = 3" | "n = 4" | "n = 5" | "n = 6" | "n = 7" by linarith
  then show ?thesis
    unfolding crc32_reverseBit_def powers bit_or_iff and_BIT and_1 bit_push_bit_iff bit_drop_bit_eq comp_def
    by cases simp_all
next
  case False
  then show ?thesis using bit_imp_le_length [of "crc32_reverseBit d" n] by auto
qed

lemma bit_le32_word:
  assumes "length bs = 4"
  shows "bit (le32_word bs) n \<longleftrightarrow> n < 32 \<and> bit (bs ! (n div 8)) (n mod 8)"
proof -
  have "[0..<4] = [0, 1, 2, 3 :: nat]" by (simp add: upt_rec)
  then have e: "le32_word bs = push_bit 0 (ucast (bs ! 0)) OR push_bit 8 (ucast (bs ! 1)) OR
      push_bit 16 (ucast (bs ! 2)) OR push_bit 24 (ucast (bs ! 3))"
    by (simp add: le32_word_def or.assoc)
  have h: "bit (b :: u8) k \<Longrightarrow> k < 8" for b k using bit_imp_le_length [of b k] by simp
  consider "n < 8" | "8 \<le> n" "n < 16" | "16 \<le> n" "n < 24" | "24 \<le> n" "n < 32" | "32 \<le> n" by linarith
  then show ?thesis
  proof cases
    case 1
    then show ?thesis unfolding e by (auto simp: bit_simps)
  next
    case 2
    then have "n div 8 = 1" "n mod 8 = n - 8" by presburger+
    with 2 show ?thesis unfolding e by (auto simp: bit_simps dest: h)
  next
    case 3
    then have "n div 8 = 2" "n mod 8 = n - 16" by presburger+
    with 3 show ?thesis unfolding e by (auto simp: bit_simps dest: h)
  next
    case 4
    then have "n div 8 = 3" "n mod 8 = n - 24" by presburger+
    with 4 show ?thesis unfolding e by (auto simp: bit_simps dest: h)
  next
    case 5
    then show ?thesis using bit_imp_le_length [of "le32_word bs" n] by auto
  qed
qed

lemma length_le32 [simp]: "length (le32 c) = 4"
  by (simp add: le32_def)

lemma bit_le32:
  assumes "j < 4"
  shows "bit (le32 c ! j) n \<longleftrightarrow> n < 8 \<and> bit c (8 * j + n)"
proof -
  have "le32 c ! j = ucast (drop_bit (8 * j) c)" using assms by (simp add: le32_def del: upt_rec_numeral)
  then show ?thesis by (simp add: bit_unsigned_iff bit_drop_bit_eq)
qed

text \<open>An entry is the bit reversal of the remainder.\<close>

lemma bit_crc32_entry: "bit (crc32_entry c) n \<longleftrightarrow> n < 32 \<and> bit c (31 - n)"
proof (cases "n < 32")
  case True
  then have d: "n div 8 < 4" "n mod 8 < 8" by auto
  then have "rev (le32 c) ! (n div 8) = le32 c ! (3 - n div 8)" by (simp add: rev_nth)
  moreover have e: "8 * (3 - n div 8) + (7 - n mod 8) = 31 - n" using True by presburger
  moreover have "7 - n mod 8 < 8" by presburger
  then have "bit (le32 c ! (3 - n div 8)) (7 - n mod 8) = bit c (31 - n)"
    using bit_le32 [of "3 - n div 8" c "7 - n mod 8"] unfolding e by simp
  ultimately show ?thesis using d True
    by (simp add: crc32_entry_def bit_le32_word bit_reverseBit)
qed (simp add: crc32_entry_def bit_le32_word)

lemma crc32_entry_xor: "crc32_entry (a XOR b) = crc32_entry a XOR crc32_entry b"
  by (rule bit_eqI) (auto simp: bit_crc32_entry bit_xor_iff)

lemma crc32_entry_shift1: "crc32_entry (push_bit 1 c) = drop_bit 1 (crc32_entry c)"
proof (rule bit_word_eqI)
  fix n assume "n < LENGTH(32)"
  then show "bit (crc32_entry (push_bit 1 c)) n = bit (drop_bit 1 (crc32_entry c)) n"
    unfolding bit_crc32_entry bit_push_bit_iff bit_drop_bit_eq comp_def
    by (auto simp: not_le Suc_le_eq)
qed

lemma crc32_entry_poly: "crc32_entry CRC32_POLY = 0xEDB88320"
  by code_simp

lemma crc32_shift_reversed: "crc32_entry (crc32_shift c) = crc_bit (crc32_entry c)"
proof -
  have "0x80000000 = (BIT 31 :: u32)" by simp
  then have "c AND 0x80000000 \<noteq> 0 \<longleftrightarrow> bit c 31" using word_and_BIT_neq_0_iff [of c 31] by simp
  moreover have "bit (crc32_entry c) 0 \<longleftrightarrow> bit c 31" by (simp add: bit_crc32_entry)
  ultimately show ?thesis
    unfolding crc32_shift_def crc_bit_def
    by (simp add: crc32_entry_xor crc32_entry_poly crc32_entry_shift1 [simplified])
qed

lemma crc32_shifts_reversed: "crc32_entry ((crc32_shift ^^ k) c) = (crc_bit ^^ k) (crc32_entry c)"
  by (induction k) (simp_all add: crc32_shift_reversed)

lemma crc32_init_nth:
  assumes "i < 256"
  shows "crc32_init ! i = (crc_bit ^^ 8) (of_nat i)"
proof -
  have "crc32_entry (push_bit 24 (ucast (crc32_reverseBit (of_nat i)))) = (of_nat i :: u32)"
  proof (rule bit_word_eqI)
    fix n assume "n < LENGTH(32)"
    moreover have "\<not> bit i n" if "8 \<le> n"
    proof -
      have "(256 :: nat) \<le> 2 ^ n" using power_increasing [OF that, of "2 :: nat"] by simp
      with assms show ?thesis by (simp add: bit_iff_odd)
    qed
    ultimately show "bit (crc32_entry (push_bit 24 (ucast (crc32_reverseBit (of_nat i))))) n = bit (of_nat i :: u32) n"
      unfolding bit_crc32_entry bit_push_bit_iff bit_unsigned_iff bit_reverseBit
      by (cases "n < 8") (auto simp: bit_of_nat_iff)
  qed
  then show ?thesis using assms by (simp add: crc32_init_def crc32_shifts_reversed del: funpow.simps)
qed

text \<open>The step is linear, and shifts a word without low bits.\<close>

lemma crc_bit_xor: "crc_bit (a XOR b) = crc_bit a XOR crc_bit b"
  by (rule bit_eqI) (auto simp: crc_bit_def bit_xor_iff bit_drop_bit_eq)

lemma crc_bits_xor: "(crc_bit ^^ k) (a XOR b) = (crc_bit ^^ k) a XOR (crc_bit ^^ k) b"
  by (induction k) (simp_all add: crc_bit_xor)

lemma crc_bits_shift:
  assumes "\<forall>i < k. \<not> bit c i"
  shows "(crc_bit ^^ k) c = drop_bit k c"
  using assms
proof (induction k arbitrary: c)
  case (Suc k)
  have "crc_bit c = drop_bit 1 c" using Suc.prems by (auto simp: crc_bit_def)
  moreover have "\<forall>i < k. \<not> bit (drop_bit 1 c) i" using Suc.prems by (auto simp: bit_drop_bit_eq)
  ultimately show ?case using Suc.IH [of "drop_bit 1 c"] by (simp add: funpow_swap1)
qed simp

lemma split_low_byte: "x = take_bit 8 x XOR push_bit 8 (drop_bit 8 x)" for x :: u32
proof (rule bit_word_eqI)
  fix n assume "n < LENGTH(32)"
  then show "bit x n = bit (take_bit 8 x XOR push_bit 8 (drop_bit 8 x)) n"
    by (cases "n < 8") (simp_all add: bit_xor_iff bit_take_bit_iff bit_push_bit_iff bit_drop_bit_eq)
qed

lemma crc32_upd_reference: "crc32_upd c b = (crc_bit ^^ 8) (c XOR ucast b)"
proof -
  let ?x = "c XOR ucast b :: u32"
  have m: "?x AND 0xff = take_bit 8 ?x" by (simp add: take_bit_eq_mask mask_eq_exp_minus_1)
  have "unat (take_bit 8 ?x) < 2 ^ 8" by (metis take_bit_nat_less_exp unsigned_take_bit_eq)
  then have "crc32_init ! unat (?x AND 0xff) = (crc_bit ^^ 8) (take_bit 8 ?x)"
    unfolding m by (subst crc32_init_nth) simp_all
  moreover have "drop_bit 8 c = (crc_bit ^^ 8) (push_bit 8 (drop_bit 8 ?x))"
  proof -
    have "\<not> bit b (8 + n)" for n using bit_imp_le_length [of b "8 + n"] by auto
    then have "drop_bit 8 ?x = drop_bit 8 c"
      by (intro bit_word_eqI) (simp add: bit_drop_bit_eq bit_xor_iff bit_unsigned_iff)
    moreover have "bit c (8 + n) \<Longrightarrow> n < 24" for n using bit_imp_le_length [of c "8 + n"] by simp
    ultimately show ?thesis
      by (subst crc_bits_shift) (auto simp: bit_push_bit_iff bit_drop_bit_eq intro!: bit_eqI)
  qed
  moreover have "?x = take_bit 8 ?x XOR push_bit 8 (drop_bit 8 ?x)" by (rule split_low_byte)
  ultimately show ?thesis by (metis crc32_upd_def crc_bits_xor)
qed

section \<open>Frames\<close>

text \<open>
  The part of \<^verbatim>\<open>struct security_priv\<close>, of the transmit and of the receive frame that software
  encryption uses. \<open>frags\<close> are the fragments of a frame, each with the length its descriptor gives;
  \<open>auth_frame\<close> is the memory behind the descriptor of an authentication frame.
\<close>

type_synonym sec_type = u8

definition WEP40 :: sec_type where "WEP40 = 1"
definition TKIP :: sec_type where "TKIP = 2"
definition WEP104 :: sec_type where "WEP104 = 5"

record security_priv =
  dot11PrivacyKeyIndex :: u32
  dot11DefKey :: "bytes list"
  dot11DefKeylen :: "u32 list"
  dot118021XGrpKey :: "bytes list"
  dot118021XGrpKeyid :: u32
  binstallGrpkey :: bool

record xmit_frame =
  xf_encrypt :: sec_type
  xf_hdrlen :: u16
  xf_iv_len :: u8
  xf_icv_len :: u8
  xf_nr_frags :: u8
  xf_last_txcmdsz :: u32
  xf_ta :: bytes
  xf_ra :: bytes
  xf_UncstKey :: bytes
  xf_frags :: "(bytes \<times> u16) list"
  xf_auth_frame :: bytes

record recv_frame =
  rf_encrypt :: sec_type
  rf_hdrlen :: u8
  rf_iv_len :: u8
  rf_key_index :: u8
  rf_ta :: bytes
  rf_ra :: bytes
  rf_len :: u32
  rf_data :: bytes

text \<open>
  The steps WEP and TKIP share. \<open>len\<close> is the value of a \<^verbatim>\<open>sint\<close>, which the cipher takes as
  an unsigned count. Encryption appends the encrypted CRC of the plain text; decryption returns the CRC
  of the plain text it found, its last four bytes excluded.
\<close>

definition arc4_seal :: "bytes \<Rightarrow> u32 \<Rightarrow> bytes \<Rightarrow> nat \<Rightarrow> int \<Rightarrow> bytes option" where
  "arc4_seal rc4key keylen pframe off len =
     (case mem_get pframe off (unat (word_of_int len :: u32)) of
        None \<Rightarrow> None
      | Some payload \<Rightarrow>
          let crc = le32 (getcrc32 (take (nat len) payload));
              ctx = arcfour_init rc4key keylen;
              (c1, ctx) = arcfour_encrypt ctx payload;
              (c2, ctx) = arcfour_encrypt ctx crc
          in mem_put pframe off (c1 @ c2))"

definition arc4_open :: "bytes \<Rightarrow> u32 \<Rightarrow> bytes \<Rightarrow> nat \<Rightarrow> int \<Rightarrow> (bytes \<times> bytes) option" where
  "arc4_open rc4key keylen pframe off len =
     (case mem_get pframe off (unat (word_of_int len :: u32)) of
        None \<Rightarrow> None
      | Some payload \<Rightarrow>
          let plain = fst (arcfour_encrypt (arcfour_init rc4key keylen) payload);
              crc = le32 (getcrc32 (take (nat (len - 4)) plain))
          in map_option (\<lambda>f. (f, crc)) (mem_put pframe off plain))"

text \<open>The WEP seed: three bytes of IV and the key, in an array of sixteen bytes.\<close>

definition wep_seed :: "bytes \<Rightarrow> nat \<Rightarrow> bytes \<Rightarrow> u32 \<Rightarrow> bytes option" where
  "wep_seed pframe hdrlen key keylength =
     (if unat keylength \<le> 13 then
        case (mem_get pframe hdrlen 3, mem_get key 0 (unat keylength)) of
          (Some iv, Some k) \<Rightarrow> Some (iv @ k)
        | _ \<Rightarrow> None
      else None)"

definition wep_encrypt_frag :: "bytes \<Rightarrow> u32 \<Rightarrow> xmit_frame \<Rightarrow> bytes \<Rightarrow> u32 \<Rightarrow> bytes option" where
  "wep_encrypt_frag key keylength xf pframe sz =
     (let len = sint (sz - ucast (xf_hdrlen xf) - ucast (xf_iv_len xf) - ucast (xf_icv_len xf));
          off = unat (xf_iv_len xf) + unat (xf_hdrlen xf)
      in case wep_seed pframe (unat (xf_hdrlen xf)) key keylength of
           None \<Rightarrow> None
         | Some wepkey \<Rightarrow> arc4_seal wepkey (3 + keylength) pframe off len)"

text \<open>
  The loops over the fragments: the ordinary one, which WEP and TKIP share, and the one of the
  authentication state, where every round works on the same frame.
\<close>

fun encrypt_frags :: "(bytes \<Rightarrow> u32 \<Rightarrow> bytes option) \<Rightarrow> (bytes \<times> u16) list \<Rightarrow> nat \<Rightarrow> nat \<Rightarrow> (bytes \<times> u16) list option" where
  "encrypt_frags enc fr i 0 = Some fr"
| "encrypt_frags enc fr i (Suc k) =
     (if i < length fr then
        case enc (fst (fr ! i)) (ucast (snd (fr ! i))) of
          None \<Rightarrow> None
        | Some f \<Rightarrow> encrypt_frags enc (fr[i := (f, snd (fr ! i))]) (Suc i) k
      else None)"

fun encrypt_auth :: "(bytes \<Rightarrow> u32 \<Rightarrow> bytes option) \<Rightarrow> bytes \<Rightarrow> u32 \<Rightarrow> nat \<Rightarrow> bytes option" where
  "encrypt_auth enc f sz 0 = Some f"
| "encrypt_auth enc f sz (Suc k) = (case enc f sz of None \<Rightarrow> None | Some f \<Rightarrow> encrypt_auth enc f sz k)"

definition rtw_wep_encrypt :: "security_priv \<Rightarrow> bool \<Rightarrow> xmit_frame \<Rightarrow> xmit_frame option" where
  "rtw_wep_encrypt sec auth xf =
     (if xf_encrypt xf \<noteq> WEP40 \<and> xf_encrypt xf \<noteq> WEP104 then Some xf
      else
        let k = unat (dot11PrivacyKeyIndex sec) in
        if k < length (dot11DefKey sec) \<and> k < length (dot11DefKeylen sec) then
          let enc = wep_encrypt_frag (dot11DefKey sec ! k) (dot11DefKeylen sec ! k) xf in
          if \<not> auth then
            map_option (\<lambda>fr. xf\<lparr>xf_frags := fr\<rparr>) (encrypt_frags enc (xf_frags xf) 0 (unat (xf_nr_frags xf)))
          else
            map_option (\<lambda>f. xf\<lparr>xf_auth_frame := f\<rparr>)
              (encrypt_auth enc (xf_auth_frame xf) (xf_last_txcmdsz xf) (unat (xf_nr_frags xf)))
        else None)"

definition rtw_wep_decrypt :: "security_priv \<Rightarrow> recv_frame \<Rightarrow> recv_frame option" where
  "rtw_wep_decrypt sec rf =
     (if rf_encrypt rf = WEP40 \<or> rf_encrypt rf = WEP104 then
        let k = unat (rf_key_index rf);
            len = sint (rf_len rf - ucast (rf_hdrlen rf) - ucast (rf_iv_len rf));
            off = unat (rf_iv_len rf) + unat (rf_hdrlen rf)
        in
        if k < length (dot11DefKey sec) \<and> k < length (dot11DefKeylen sec) then
          case wep_seed (rf_data rf) (unat (rf_hdrlen rf)) (dot11DefKey sec ! k) (dot11DefKeylen sec ! k) of
            None \<Rightarrow> None
          | Some wepkey \<Rightarrow>
              map_option (\<lambda>(f, crc). rf\<lparr>rf_data := f\<rparr>)
                (arc4_open wepkey (3 + dot11DefKeylen sec ! k) (rf_data rf) off len)
        else None
      else Some rf)"

section \<open>Round trips\<close>

text \<open>The count the cipher gets.\<close>

lemma unat_len: "0 \<le> len \<Longrightarrow> len < 2 ^ 31 \<Longrightarrow> unat (word_of_int len :: u32) = nat len"
  by (simp add: unat_eq_nat_uint uint_word_of_int)

text \<open>
  What was sealed opens under the same key: the plain text and its CRC stand at the place, and the CRC
  computed from the plain text is the same.
\<close>

lemma arc4_roundtrip:
  assumes p: "mem_get f off (nat len) = Some plain" and len: "0 \<le> len" "len + 4 < 2 ^ 31"
    and fits: "off + nat len + 4 \<le> length f"
  obtains f' g where "arc4_seal key kl f off len = Some f'"
    "mem_put f off (plain @ le32 (getcrc32 plain)) = Some g"
    "arc4_open key kl f' off (len + 4) = Some (g, le32 (getcrc32 plain))"
    "\<forall>i n. i + n \<le> off \<longrightarrow> mem_get f' i n = mem_get f i n"
proof -
  let ?crc = "le32 (getcrc32 plain)"
  let ?ctx = "arcfour_init key kl"
  have lp: "length plain = nat len" using length_mem_get [OF p] .
  obtain c ctx2 where c: "arcfour_encrypt ?ctx (plain @ ?crc) = (c, ctx2)" by fastforce
  have lc: "length c = nat len + 4" using encrypt_length [of ?ctx "plain @ ?crc"] c lp by simp
  then obtain f' where f': "mem_put f off c = Some f'" using fits by (auto simp: mem_put_def)
  obtain g where g: "mem_put f off (plain @ ?crc) = Some g" using fits lp by (auto simp: mem_put_def)
  have "unat (word_of_int len :: u32) = nat len" using len by (intro unat_len) simp_all
  then have seal: "arc4_seal key kl f off len = Some f'"
    using p c f' lp by (auto simp: arc4_seal_def encrypt_append Let_def split: prod.splits)
  have "unat (word_of_int (len + 4) :: u32) = nat len + 4" using len by (subst unat_len) auto
  then have get: "mem_get f' off (unat (word_of_int (len + 4) :: u32)) = Some c"
    using mem_put_get(1) [OF f'] lc by simp
  have dec: "fst (arcfour_encrypt ?ctx c) = plain @ ?crc"
    using encrypt_involution [of ?ctx "plain @ ?crc"] c by simp
  have open': "arc4_open key kl f' off (len + 4) = Some (g, ?crc)"
    using get dec mem_put_put [OF f', of "plain @ ?crc"] g lc lp by (simp add: arc4_open_def Let_def)
  show thesis by (rule that [OF seal g open']) (use mem_get_before [OF f'] in blast)
qed

text \<open>A fragment as the transmit path builds it: header, IV, payload and four bytes for the ICV.\<close>

definition wep_frag_ok :: "xmit_frame \<Rightarrow> bytes \<times> u16 \<Rightarrow> bool" where
  "wep_frag_ok xf fs \<longleftrightarrow>
     unat (xf_hdrlen xf) + unat (xf_iv_len xf) + 4 \<le> unat (snd fs) \<and> unat (snd fs) \<le> length (fst fs)"

definition wep_payload :: "xmit_frame \<Rightarrow> bytes \<times> u16 \<Rightarrow> bytes" where
  "wep_payload xf fs = drop (unat (xf_hdrlen xf) + unat (xf_iv_len xf)) (take (unat (snd fs) - 4) (fst fs))"

text \<open>The length computed from the sizes is the length of the payload.\<close>

lemma sub_small:
  fixes a b c d :: nat
  assumes "b + c + d \<le> a" and "a < 2 ^ 31"
  shows "sint ((of_nat a :: u32) - of_nat b - of_nat c - of_nat d) = int (a - b - c - d)"
proof -
  have "(of_nat a :: u32) - of_nat b - of_nat c - of_nat d = of_nat (a - b - c - d)"
    using assms(1) by simp
  moreover have "sint (of_nat n :: u32) = int n" if "n < 2 ^ 31" for n
    using that by (simp add: signed_of_nat signed_take_bit_int_eq_self)
  ultimately show ?thesis using assms(2) by simp
qed

lemma ucast_of_nat: "(ucast (x :: 'a::len word) :: 'b::len word) = of_nat (unat x)"
  by simp

lemma frag_len:
  assumes "wep_frag_ok xf (f, sz)" and "xf_icv_len xf = 4"
  shows "sint ((ucast sz :: u32) - ucast (xf_hdrlen xf) - ucast (xf_iv_len xf) - ucast (xf_icv_len xf)) =
      int (length (wep_payload xf (f, sz)))"
    and "length (wep_payload xf (f, sz)) = unat sz - unat (xf_hdrlen xf) - unat (xf_iv_len xf) - 4"
proof -
  have s: "unat sz < 2 ^ 31" using unat_u16_less [of sz] by simp
  show l: "length (wep_payload xf (f, sz)) = unat sz - unat (xf_hdrlen xf) - unat (xf_iv_len xf) - 4"
    using assms(1) by (auto simp: wep_payload_def wep_frag_ok_def min_def)
  show "sint ((ucast sz :: u32) - ucast (xf_hdrlen xf) - ucast (xf_iv_len xf) - ucast (xf_icv_len xf)) =
      int (length (wep_payload xf (f, sz)))"
    unfolding ucast_of_nat l using sub_small [of "unat (xf_hdrlen xf)" "unat (xf_iv_len xf)" 4 "unat sz"] assms s
    by (simp add: wep_frag_ok_def)
qed

text \<open>A fragment is sealed and opened under the same RC4 key.\<close>

lemma frag_seal_open:
  assumes ok: "wep_frag_ok xf (f, sz)" and icv: "xf_icv_len xf = 4"
  defines "off \<equiv> unat (xf_iv_len xf) + unat (xf_hdrlen xf)" and "p \<equiv> wep_payload xf (f, sz)"
  obtains f' g where
    "arc4_seal key kl f off (sint ((ucast sz :: u32) - ucast (xf_hdrlen xf) - ucast (xf_iv_len xf) - ucast (xf_icv_len xf)))
       = Some f'"
    "arc4_open key kl f' off (int (unat sz - unat (xf_hdrlen xf) - unat (xf_iv_len xf))) = Some (g, le32 (getcrc32 p))"
    "mem_put f off (p @ le32 (getcrc32 p)) = Some g" "\<forall>i n. i + n \<le> off \<longrightarrow> mem_get f' i n = mem_get f i n"
proof -
  note L = frag_len [OF ok icv, folded p_def]
  have fit: "off + length p + 4 \<le> length f" using ok L(2) by (auto simp: wep_frag_ok_def off_def)
  have "p = take (length p) (drop off f)"
    using ok by (auto simp: p_def off_def wep_payload_def wep_frag_ok_def drop_take add.commute min_def)
  then have get: "mem_get f off (nat (int (length p))) = Some p" using fit by (simp add: mem_get_def)
  have small: "int (length p) + 4 < 2 ^ 31" using L(2) unat_u16_less [of sz] by simp
  from fit have fit': "off + nat (int (length p)) + 4 \<le> length f" by simp
  have len: "int (length p) + 4 = int (unat sz - unat (xf_hdrlen xf) - unat (xf_iv_len xf))"
    using L(2) ok by (simp add: wep_frag_ok_def)
  obtain f' g where
    R: "arc4_seal key kl f off (int (length p)) = Some f'" "mem_put f off (p @ le32 (getcrc32 p)) = Some g"
      "arc4_open key kl f' off (int (length p) + 4) = Some (g, le32 (getcrc32 p))"
      "\<forall>i n. i + n \<le> off \<longrightarrow> mem_get f' i n = mem_get f i n"
    by (rule arc4_roundtrip [OF get of_nat_0_le_iff small fit', of key kl])
  show thesis by (rule that [OF R(1) [folded L(1)] R(3) [unfolded len] R(2,4)])
qed

lemma wep_frag_roundtrip:
  assumes ok: "wep_frag_ok xf (f, sz)" and icv: "xf_icv_len xf = 4" and iv: "3 \<le> unat (xf_iv_len xf)"
    and key: "unat keylength \<le> 13" "unat keylength \<le> length key"
  obtains f' g wepkey where "wep_encrypt_frag key keylength xf f (ucast sz) = Some f'"
    "wep_seed f' (unat (xf_hdrlen xf)) key keylength = Some wepkey"
    "arc4_open wepkey (3 + keylength) f' (unat (xf_iv_len xf) + unat (xf_hdrlen xf))
       (int (unat sz - unat (xf_hdrlen xf) - unat (xf_iv_len xf))) = Some (g, le32 (getcrc32 (wep_payload xf (f, sz))))"
    "mem_put f (unat (xf_iv_len xf) + unat (xf_hdrlen xf))
       (wep_payload xf (f, sz) @ le32 (getcrc32 (wep_payload xf (f, sz)))) = Some g"
proof -
  let ?p = "wep_payload xf (f, sz)" and ?off = "unat (xf_iv_len xf) + unat (xf_hdrlen xf)"
  have "unat (xf_hdrlen xf) + 3 \<le> length f" using ok iv by (simp add: wep_frag_ok_def)
  then obtain ivb where ivb: "mem_get f (unat (xf_hdrlen xf)) 3 = Some ivb" by (auto simp: mem_get_def)
  obtain kb where kb: "mem_get key 0 (unat keylength) = Some kb" using key by (auto simp: mem_get_def)
  obtain f' g where
    R: "arc4_seal (ivb @ kb) (3 + keylength) f ?off
          (sint ((ucast sz :: u32) - ucast (xf_hdrlen xf) - ucast (xf_iv_len xf) - ucast (xf_icv_len xf))) = Some f'"
      "arc4_open (ivb @ kb) (3 + keylength) f' ?off (int (unat sz - unat (xf_hdrlen xf) - unat (xf_iv_len xf))) =
         Some (g, le32 (getcrc32 ?p))"
      "mem_put f ?off (?p @ le32 (getcrc32 ?p)) = Some g" "\<forall>i n. i + n \<le> ?off \<longrightarrow> mem_get f' i n = mem_get f i n"
    by (rule frag_seal_open [OF ok icv, of "ivb @ kb" "3 + keylength"])
  have "wep_seed f' (unat (xf_hdrlen xf)) key keylength = Some (ivb @ kb)"
    using key ivb kb R(4) [rule_format, of "unat (xf_hdrlen xf)" 3] iv by (simp add: wep_seed_def)
  moreover have "wep_encrypt_frag key keylength xf f (ucast sz) = Some f'"
    using key ivb kb R(1) by (simp add: wep_encrypt_frag_def wep_seed_def Let_def)
  ultimately show thesis using R(2,3) that by blast
qed

text \<open>The loop over the fragments encrypts each of them, in its place.\<close>

lemma encrypt_frags_all:
  assumes "\<forall>j. i \<le> j \<and> j < i + k \<longrightarrow> enc (fst (fs ! j)) (ucast (snd (fs ! j))) = Some (e j)"
    and "i + k \<le> length fs"
  shows "\<exists>fr. encrypt_frags enc fs i k = Some fr \<and> length fr = length fs \<and>
     (\<forall>j < length fr. fr ! j = (if i \<le> j \<and> j < i + k then (e j, snd (fs ! j)) else fs ! j))"
  using assms
proof (induction k arbitrary: i fs)
  case 0
  then show ?case by auto
next
  case (Suc k)
  let ?fs = "fs[i := (e i, snd (fs ! i))]"
  have enc: "enc (fst (fs ! i)) (ucast (snd (fs ! i))) = Some (e i)" using Suc.prems(1) by simp
  have pre: "\<forall>j. Suc i \<le> j \<and> j < Suc i + k \<longrightarrow> enc (fst (?fs ! j)) (ucast (snd (?fs ! j))) = Some (e j)"
    using Suc.prems(1) by simp
  have len: "Suc i + k \<le> length ?fs" using Suc.prems(2) by simp
  from Suc.IH [OF pre len] obtain fr where fr: "encrypt_frags enc ?fs (Suc i) k = Some fr" "length fr = length ?fs"
    "\<forall>j < length fr. fr ! j = (if Suc i \<le> j \<and> j < Suc i + k then (e j, snd (?fs ! j)) else ?fs ! j)"
    by blast
  have "encrypt_frags enc fs i (Suc k) = Some fr" using enc fr(1) Suc.prems(2) by simp
  moreover have "\<forall>j < length fr. fr ! j = (if i \<le> j \<and> j < i + Suc k then (e j, snd (fs ! j)) else fs ! j)"
  proof (intro allI impI)
    fix j assume j: "j < length fr"
    then show "fr ! j = (if i \<le> j \<and> j < i + Suc k then (e j, snd (fs ! j)) else fs ! j)"
      using fr(2) fr(3) [rule_format, OF j] by (cases "j = i") (auto simp: nth_list_update)
  qed
  ultimately show ?case using fr(2) by (intro exI [of _ fr]) simp
qed

text \<open>A receiver that parsed the header as the sender built it.\<close>

definition wep_peer :: "xmit_frame \<Rightarrow> security_priv \<Rightarrow> recv_frame \<Rightarrow> bool" where
  "wep_peer xf sec rf \<longleftrightarrow>
     rf_encrypt rf = xf_encrypt xf \<and> unat (rf_hdrlen rf) = unat (xf_hdrlen xf) \<and> rf_iv_len rf = xf_iv_len xf \<and>
     unat (rf_key_index rf) = unat (dot11PrivacyKeyIndex sec)"

lemma wep_decrypt_frag:
  assumes peer: "wep_peer xf sec rf" and wep: "xf_encrypt xf = WEP40 \<or> xf_encrypt xf = WEP104"
    and k: "k = unat (dot11PrivacyKeyIndex sec)" "k < length (dot11DefKey sec)" "k < length (dot11DefKeylen sec)"
    and ok: "wep_frag_ok xf (f, sz)"
    and seed: "wep_seed f' (unat (xf_hdrlen xf)) (dot11DefKey sec ! k) (dot11DefKeylen sec ! k) = Some wepkey"
    and op: "arc4_open wepkey (3 + dot11DefKeylen sec ! k) f' (unat (xf_iv_len xf) + unat (xf_hdrlen xf))
      (int (unat sz - unat (xf_hdrlen xf) - unat (xf_iv_len xf))) = Some (g, crc)"
  shows "rtw_wep_decrypt sec (rf\<lparr>rf_data := f', rf_len := ucast sz\<rparr>) = Some (rf\<lparr>rf_data := g, rf_len := ucast sz\<rparr>)"
proof -
  have "sint ((ucast sz :: u32) - ucast (rf_hdrlen rf) - ucast (rf_iv_len rf)) =
      int (unat sz - unat (xf_hdrlen xf) - unat (xf_iv_len xf))"
  proof -
    have h: "unat (rf_hdrlen rf) = unat (xf_hdrlen xf)" "rf_iv_len rf = xf_iv_len xf" using peer by (simp_all add: wep_peer_def)
    show ?thesis unfolding ucast_of_nat h
      using sub_small [of "unat (xf_hdrlen xf)" "unat (xf_iv_len xf)" 0 "unat sz"] ok unat_u16_less [of sz]
      by (simp only: wep_frag_ok_def) simp
  qed
  with assms show ?thesis by (auto simp: rtw_wep_decrypt_def wep_peer_def Let_def)
qed

section \<open>Properties\<close>

text \<open>
  C15: The table-driven CRC-32 of the driver is the reflected CRC-32 of IEEE 802.3, computed one bit at a
  time, for every byte sequence.
\<close>

theorem getcrc32_is_crc32: "getcrc32 bs = crc_reference bs"
proof -
  have "crc32_upd = (\<lambda>c b. (crc_bit ^^ 8) (c XOR ucast b))" by (intro ext) (rule crc32_upd_reference)
  moreover have "(0xffffffff :: u32) = -1" by simp
  ultimately show ?thesis by (simp only: getcrc32_def crc_reference_def)
qed

text \<open>
  C24: WEP round trip. Every fragment of a frame that software encryption processed is restored by
  software decryption at a receiver with the same keys: header, IV and payload are the sender's, and the
  four bytes behind the payload are its CRC-32.
\<close>

theorem wep_roundtrip:
  fixes sec :: security_priv
  defines "k \<equiv> unat (dot11PrivacyKeyIndex sec)"
  assumes wep: "xf_encrypt xf = WEP40 \<or> xf_encrypt xf = WEP104" and icv: "xf_icv_len xf = 4" "3 \<le> unat (xf_iv_len xf)"
    and k: "k < length (dot11DefKey sec)" "k < length (dot11DefKeylen sec)"
    and kl: "unat (dot11DefKeylen sec ! k) \<le> 13" "unat (dot11DefKeylen sec ! k) \<le> length (dot11DefKey sec ! k)"
    and frags: "\<forall>fs \<in> set (xf_frags xf). wep_frag_ok xf fs" "unat (xf_nr_frags xf) = length (xf_frags xf)"
    and peer: "wep_peer xf sec rf"
  shows "\<exists>fr. rtw_wep_encrypt sec False xf = Some (xf\<lparr>xf_frags := fr\<rparr>) \<and> length fr = length (xf_frags xf) \<and>
    (\<forall>j < length fr. snd (fr ! j) = snd (xf_frags xf ! j) \<and>
      (\<exists>g. rtw_wep_decrypt sec (rf\<lparr>rf_data := fst (fr ! j), rf_len := ucast (snd (fr ! j))\<rparr>) =
         Some (rf\<lparr>rf_data := g, rf_len := ucast (snd (fr ! j))\<rparr>) \<and>
         mem_put (fst (xf_frags xf ! j)) (unat (xf_iv_len xf) + unat (xf_hdrlen xf))
           (wep_payload xf (xf_frags xf ! j) @ le32 (getcrc32 (wep_payload xf (xf_frags xf ! j)))) = Some g))"
proof -
  let ?key = "dot11DefKey sec ! k" and ?kl = "dot11DefKeylen sec ! k" and ?fr = "xf_frags xf"
  let ?off = "unat (xf_iv_len xf) + unat (xf_hdrlen xf)"
  have "\<exists>f'. wep_encrypt_frag ?key ?kl xf (fst (?fr ! j)) (ucast (snd (?fr ! j))) = Some f' \<and>
      (\<exists>g. rtw_wep_decrypt sec (rf\<lparr>rf_data := f', rf_len := ucast (snd (?fr ! j))\<rparr>) =
         Some (rf\<lparr>rf_data := g, rf_len := ucast (snd (?fr ! j))\<rparr>) \<and>
         mem_put (fst (?fr ! j)) ?off (wep_payload xf (?fr ! j) @ le32 (getcrc32 (wep_payload xf (?fr ! j)))) = Some g)"
    if "j < length ?fr" for j
  proof -
    obtain f sz where fs: "?fr ! j = (f, sz)" by fastforce
    have ok: "wep_frag_ok xf (f, sz)" using frags(1) that fs nth_mem by metis
    obtain f' g wepkey where
      R: "wep_encrypt_frag ?key ?kl xf f (ucast sz) = Some f'" "wep_seed f' (unat (xf_hdrlen xf)) ?key ?kl = Some wepkey"
        "arc4_open wepkey (3 + ?kl) f' ?off (int (unat sz - unat (xf_hdrlen xf) - unat (xf_iv_len xf))) =
           Some (g, le32 (getcrc32 (wep_payload xf (f, sz))))"
        "mem_put f ?off (wep_payload xf (f, sz) @ le32 (getcrc32 (wep_payload xf (f, sz)))) = Some g"
      by (rule wep_frag_roundtrip [OF ok icv kl])
    have "rtw_wep_decrypt sec (rf\<lparr>rf_data := f', rf_len := ucast sz\<rparr>) = Some (rf\<lparr>rf_data := g, rf_len := ucast sz\<rparr>)"
      using wep_decrypt_frag [OF peer wep meta_eq_to_obj_eq [OF k_def] k ok R(2)] R(3) by simp
    with R(1,4) show ?thesis unfolding fs by auto
  qed
  then obtain e where e: "\<And>j. j < length ?fr \<Longrightarrow>
      wep_encrypt_frag ?key ?kl xf (fst (?fr ! j)) (ucast (snd (?fr ! j))) = Some (e j) \<and>
      (\<exists>g. rtw_wep_decrypt sec (rf\<lparr>rf_data := e j, rf_len := ucast (snd (?fr ! j))\<rparr>) =
         Some (rf\<lparr>rf_data := g, rf_len := ucast (snd (?fr ! j))\<rparr>) \<and>
         mem_put (fst (?fr ! j)) ?off (wep_payload xf (?fr ! j) @ le32 (getcrc32 (wep_payload xf (?fr ! j)))) = Some g)"
    by metis
  from encrypt_frags_all [of 0 "length ?fr" "wep_encrypt_frag ?key ?kl xf" ?fr e] e obtain fr where
    fr: "encrypt_frags (wep_encrypt_frag ?key ?kl xf) ?fr 0 (length ?fr) = Some fr" "length fr = length ?fr"
      "\<forall>j < length fr. fr ! j = (e j, snd (?fr ! j))"
    by auto
  have "rtw_wep_encrypt sec False xf = Some (xf\<lparr>xf_frags := fr\<rparr>)"
    using wep k fr(1) frags(2) by (auto simp: rtw_wep_encrypt_def k_def Let_def)
  with fr e show ?thesis by (intro exI [of _ fr]) auto
qed

definition demo_sec :: security_priv where
  "demo_sec = \<lparr>dot11PrivacyKeyIndex = 0, dot11DefKey = [[1, 2, 3, 4, 5]], dot11DefKeylen = [5],
     dot118021XGrpKey = [], dot118021XGrpKeyid = 0, binstallGrpkey = False\<rparr>"

definition demo_xf :: xmit_frame where
  "demo_xf = \<lparr>xf_encrypt = WEP40, xf_hdrlen = 24, xf_iv_len = 4, xf_icv_len = 4, xf_nr_frags = 2,
     xf_last_txcmdsz = 0, xf_ta = replicate 6 1, xf_ra = replicate 6 2, xf_UncstKey = [],
     xf_frags = [(replicate 40 7, 36), (replicate 40 9, 38)], xf_auth_frame = []\<rparr>"

definition demo_rf :: recv_frame where
  "demo_rf = \<lparr>rf_encrypt = WEP40, rf_hdrlen = 24, rf_iv_len = 4, rf_key_index = 0, rf_ta = replicate 6 1,
     rf_ra = replicate 6 2, rf_len = 0, rf_data = []\<rparr>"

theorem wep_roundtrip_witness:
  "\<exists>fr. rtw_wep_encrypt demo_sec False demo_xf = Some (demo_xf\<lparr>xf_frags := fr\<rparr>) \<and> length fr = 2 \<and>
     (\<exists>g. rtw_wep_decrypt demo_sec (demo_rf\<lparr>rf_data := fst (fr ! 0), rf_len := ucast (snd (fr ! 0))\<rparr>) =
        Some (demo_rf\<lparr>rf_data := g, rf_len := ucast (snd (fr ! 0))\<rparr>) \<and>
        mem_put (replicate 40 7) 28 (replicate 4 7 @ le32 (getcrc32 (replicate 4 7))) = Some g)"
proof -
  have pay: "wep_payload demo_xf (xf_frags demo_xf ! 0) = replicate 4 7"
    by (simp add: wep_payload_def demo_xf_def min_def)
  have "xf_encrypt demo_xf = WEP40 \<or> xf_encrypt demo_xf = WEP104" "xf_icv_len demo_xf = 4"
    "3 \<le> unat (xf_iv_len demo_xf)"
    "unat (dot11PrivacyKeyIndex demo_sec) < length (dot11DefKey demo_sec)"
    "unat (dot11PrivacyKeyIndex demo_sec) < length (dot11DefKeylen demo_sec)"
    "unat (dot11DefKeylen demo_sec ! unat (dot11PrivacyKeyIndex demo_sec)) \<le> 13"
    "unat (dot11DefKeylen demo_sec ! unat (dot11PrivacyKeyIndex demo_sec)) \<le>
       length (dot11DefKey demo_sec ! unat (dot11PrivacyKeyIndex demo_sec))"
    "\<forall>fs \<in> set (xf_frags demo_xf). wep_frag_ok demo_xf fs" "unat (xf_nr_frags demo_xf) = length (xf_frags demo_xf)"
    "wep_peer demo_xf demo_sec demo_rf"
    by (simp_all add: demo_xf_def demo_sec_def demo_rf_def wep_frag_ok_def wep_peer_def)
  from wep_roundtrip [OF this] obtain fr where fr: "rtw_wep_encrypt demo_sec False demo_xf = Some (demo_xf\<lparr>xf_frags := fr\<rparr>)"
    "length fr = length (xf_frags demo_xf)" and all: "\<forall>j < length fr. snd (fr ! j) = snd (xf_frags demo_xf ! j) \<and>
      (\<exists>g. rtw_wep_decrypt demo_sec (demo_rf\<lparr>rf_data := fst (fr ! j), rf_len := ucast (snd (fr ! j))\<rparr>) =
         Some (demo_rf\<lparr>rf_data := g, rf_len := ucast (snd (fr ! j))\<rparr>) \<and>
         mem_put (fst (xf_frags demo_xf ! j)) (unat (xf_iv_len demo_xf) + unat (xf_hdrlen demo_xf))
           (wep_payload demo_xf (xf_frags demo_xf ! j) @ le32 (getcrc32 (wep_payload demo_xf (xf_frags demo_xf ! j)))) = Some g)"
    by blast
  have len: "length fr = 2" using fr(2) by (simp add: demo_xf_def)
  then have "0 < length fr" by simp
  from all [rule_format, OF this] have "\<exists>g. rtw_wep_decrypt demo_sec (demo_rf\<lparr>rf_data := fst (fr ! 0), rf_len := ucast (snd (fr ! 0))\<rparr>) =
         Some (demo_rf\<lparr>rf_data := g, rf_len := ucast (snd (fr ! 0))\<rparr>) \<and>
         mem_put (replicate 40 7) 28 (replicate 4 7 @ le32 (getcrc32 (replicate 4 7))) = Some g"
    unfolding pay by (auto simp: demo_xf_def)
  with fr(1) len show ?thesis by blast
qed

text \<open>Flipping bits of the cipher text flips the same bits of the plain text.\<close>

lemma encrypt_malleable:
  assumes "length d = length src"
  shows "fst (arcfour_encrypt ctx (map2 (XOR) src d)) = map2 (XOR) (fst (arcfour_encrypt ctx src)) d"
  using assms
proof (induction src d arbitrary: ctx rule: list_induct2')
  case (4 b src e d)
  obtain k ctx1 where k: "arcfour_byte ctx = (k, ctx1)" by fastforce
  obtain x1 c1 where x: "arcfour_encrypt ctx1 (map2 (XOR) src d) = (x1, c1)" by fastforce
  obtain x2 c2 where y: "arcfour_encrypt ctx1 src = (x2, c2)" by fastforce
  have "x1 = map2 (XOR) x2 d" using "4.IH" [of ctx1] "4.prems" x y by simp
  then show ?case using k x y by (simp add: Let_def xor.assoc xor.commute xor.left_commute)
qed simp_all

text \<open>
  WEP decryption computes the integrity check value of a received frame but does not look at it.
  A frame whose encrypted part was changed by any difference \<open>d\<close> on the way is decrypted like the
  original, to its plain text with exactly that difference.
\<close>

theorem wep_tampering_unnoticed:
  fixes rf :: recv_frame
  defines "off \<equiv> unat (rf_iv_len rf) + unat (rf_hdrlen rf)"
    and "n \<equiv> unat (rf_len rf - ucast (rf_hdrlen rf) - ucast (rf_iv_len rf))"
  assumes wep: "rf_encrypt rf = WEP40 \<or> rf_encrypt rf = WEP104" and iv: "3 \<le> unat (rf_iv_len rf)"
    and dec: "rtw_wep_decrypt sec rf = Some rf1"
    and c: "mem_get (rf_data rf) off n = Some c" and d: "length d = n"
    and put: "mem_put (rf_data rf) off (map2 (XOR) c d) = Some m"
  shows "\<exists>rf2 p. rtw_wep_decrypt sec (rf\<lparr>rf_data := m\<rparr>) = Some rf2 \<and> mem_get (rf_data rf1) off n = Some p \<and>
    mem_get (rf_data rf2) off n = Some (map2 (XOR) p d)"
proof -
  let ?k = "unat (rf_key_index rf)"
  let ?len = "sint (rf_len rf - ucast (rf_hdrlen rf) - ucast (rf_iv_len rf))"
  have n: "unat (word_of_int ?len :: u32) = n" by (simp add: n_def)
  have lc: "length c = n" using length_mem_get [OF c] .
  have off': "unat (rf_iv_len rf) + unat (rf_hdrlen rf) = off" by (simp add: off_def)
  from dec wep obtain wepkey g crc where
    k: "?k < length (dot11DefKey sec)" "?k < length (dot11DefKeylen sec)"
    and seed: "wep_seed (rf_data rf) (unat (rf_hdrlen rf)) (dot11DefKey sec ! ?k) (dot11DefKeylen sec ! ?k) = Some wepkey"
    and op: "arc4_open wepkey (3 + dot11DefKeylen sec ! ?k) (rf_data rf) off ?len = Some (g, crc)"
    and rf1: "rf1 = rf\<lparr>rf_data := g\<rparr>"
    by (auto simp: rtw_wep_decrypt_def Let_def off' split: if_splits option.splits)
  let ?ctx = "arcfour_init wepkey (3 + dot11DefKeylen sec ! ?k)"
  define p where "p = fst (arcfour_encrypt ?ctx c)"
  have g: "mem_put (rf_data rf) off p = Some g" using op c by (auto simp: arc4_open_def Let_def n_def p_def)
  have lp: "length p = n" by (simp add: p_def lc)
  have getm: "mem_get m off n = Some (map2 (XOR) c d)" using mem_put_get(1) [OF put] lc d by simp
  have dec2: "fst (arcfour_encrypt ?ctx (map2 (XOR) c d)) = map2 (XOR) p d"
    using encrypt_malleable [of d c ?ctx] d lc by (simp add: p_def)
  obtain g2 where g2: "mem_put (rf_data rf) off (map2 (XOR) p d) = Some g2"
    using mem_put_get(3) [OF g] lp d by (auto simp: mem_put_def)
  have "mem_put m off (map2 (XOR) p d) = Some g2" using mem_put_put [OF put] g2 lp lc d by simp
  then have "\<exists>crc2. arc4_open wepkey (3 + dot11DefKeylen sec ! ?k) m off ?len = Some (g2, crc2)"
    using getm dec2 by (simp add: arc4_open_def Let_def n_def)
  moreover have "wep_seed m (unat (rf_hdrlen rf)) (dot11DefKey sec ! ?k) (dot11DefKeylen sec ! ?k) = Some wepkey"
    using seed mem_get_before [OF put, of "unat (rf_hdrlen rf)" 3] iv by (simp add: wep_seed_def off_def split: if_splits)
  ultimately have "rtw_wep_decrypt sec (rf\<lparr>rf_data := m\<rparr>) = Some (rf\<lparr>rf_data := g2\<rparr>)"
    using wep k by (auto simp: rtw_wep_decrypt_def Let_def off')
  moreover have "mem_get g off n = Some p" using mem_put_get(1) [OF g] lp by simp
  moreover have "mem_get g2 off n = Some (map2 (XOR) p d)" using mem_put_get(1) [OF g2] lp d by simp
  ultimately show ?thesis by (intro exI [of _ "rf\<lparr>rf_data := g2\<rparr>"] exI [of _ p]) (simp add: rf1)
qed

theorem wep_tampering_unnoticed_witness:
  "\<exists>rf2. rtw_wep_decrypt demo_sec (demo_rf\<lparr>rf_len := 34, rf_data := replicate 28 7 @ [8, 7, 7, 7, 7, 7]\<rparr>) = Some rf2"
proof -
  let ?rf = "demo_rf\<lparr>rf_len := 34, rf_data := replicate 34 7\<rparr>"
  have n: "unat (rf_len ?rf - ucast (rf_hdrlen ?rf) - ucast (rf_iv_len ?rf)) = 6"
    "unat (rf_iv_len ?rf) + unat (rf_hdrlen ?rf) = 28"
    by (simp_all add: demo_rf_def)
  have c: "mem_get (rf_data ?rf) 28 6 = Some (replicate 6 7)" by (simp add: mem_get_def)
  obtain rf1 where d: "rtw_wep_decrypt demo_sec ?rf = Some rf1"
    by (simp add: rtw_wep_decrypt_def demo_rf_def demo_sec_def WEP40_def Let_def wep_seed_def mem_get_def arc4_open_def
        mem_put_def)
  have put: "mem_put (rf_data ?rf) 28 (map2 (XOR) (replicate 6 7) [15, 0, 0, 0, 0, 0]) =
      Some (replicate 28 7 @ [8, 7, 7, 7, 7, 7])"
    by (simp add: mem_put_def numeral_eq_Suc)
  have w: "rf_encrypt ?rf = WEP40 \<or> rf_encrypt ?rf = WEP104" "3 \<le> unat (rf_iv_len ?rf)" by (simp_all add: demo_rf_def)
  from wep_tampering_unnoticed [OF w d, unfolded n, OF c _ put] show ?thesis by auto
qed

end
