(* ===== verification/Rtw_Tkip.thy ===== *)
theory Rtw_Tkip
  imports Rtw_Wep
begin

text \<open>
  Software TKIP of \<^verbatim>\<open>core/rtw_security.c\<close>: the Michael message integrity code, the two phases of
  the key mixing, and encryption and decryption of frames.
\<close>

section \<open>Michael\<close>

record mic_data =
  mic_K0 :: u32
  mic_K1 :: u32
  mic_L :: u32
  mic_R :: u32
  mic_M :: u32
  nBytesInM :: u32

definition secmicgetuint32 :: "bytes \<Rightarrow> u32" where
  "secmicgetuint32 p = fold (\<lambda>i res. res OR push_bit (8 * i) (ucast (p ! i))) [0..<4] 0"

definition secmicputuint32 :: "u32 \<Rightarrow> bytes" where
  "secmicputuint32 val = fst (fold (\<lambda>i (bs, val). (bs @ [ucast (val AND 0xff)], drop_bit 8 val)) [0..<4::nat] ([], val))"

definition secmicclear :: "mic_data \<Rightarrow> mic_data" where
  "secmicclear m = m\<lparr>mic_L := mic_K0 m, mic_R := mic_K1 m, nBytesInM := 0, mic_M := 0\<rparr>"

definition rtw_secmicsetkey :: "mic_data \<Rightarrow> bytes \<Rightarrow> mic_data" where
  "rtw_secmicsetkey m key =
     secmicclear (m\<lparr>mic_K0 := secmicgetuint32 key, mic_K1 := secmicgetuint32 (drop 4 key)\<rparr>)"

definition ROL32 :: "u32 \<Rightarrow> nat \<Rightarrow> u32" where
  "ROL32 A n = push_bit n A OR (drop_bit (32 - n) A AND mask n)"

abbreviation ROR32 :: "u32 \<Rightarrow> nat \<Rightarrow> u32" where "ROR32 A n \<equiv> ROL32 A (32 - n)"

text \<open>A full word of the message.\<close>

definition mic_block :: "u32 \<times> u32 \<Rightarrow> u32 \<Rightarrow> u32 \<times> u32" where
  "mic_block = (\<lambda>(l, r) m.
     let l = l XOR m;
         r = r XOR ROL32 l 17;
         l = l + r;
         r = r XOR (drop_bit 8 (l AND 0xff00ff00) OR push_bit 8 (l AND 0x00ff00ff));
         l = l + r;
         r = r XOR ROL32 l 3;
         l = l + r;
         r = r XOR ROR32 l 2
     in (l + r, r))"

definition rtw_secmicappendbyte :: "mic_data \<Rightarrow> u8 \<Rightarrow> mic_data" where
  "rtw_secmicappendbyte m b =
     (let m = m\<lparr>mic_M := mic_M m OR push_bit (unat (8 * nBytesInM m)) (ucast b), nBytesInM := nBytesInM m + 1\<rparr>
      in if nBytesInM m \<ge> 4 then
           case mic_block (mic_L m, mic_R m) (mic_M m) of
             (l, r) \<Rightarrow> m\<lparr>mic_L := l, mic_R := r, mic_M := 0, nBytesInM := 0\<rparr>
         else m)"

definition rtw_secmicappend :: "mic_data \<Rightarrow> bytes \<Rightarrow> mic_data" where
  "rtw_secmicappend m src = foldl rtw_secmicappendbyte m src"

text \<open>Zeroes up to a full word.\<close>

lemma appendbyte_nbytes:
  "nBytesInM (rtw_secmicappendbyte m b) = (if nBytesInM m + 1 \<ge> 4 then 0 else nBytesInM m + 1)"
  by (simp add: rtw_secmicappendbyte_def Let_def split: prod.splits)

lemma succ_wraps_or_full: "(3 :: u32) \<le> n \<Longrightarrow> n + 1 = 0 \<or> 4 \<le> n + 1"
proof (cases "n = -1")
  case False
  assume "3 \<le> n"
  then have "3 \<le> unat n" by (simp add: word_le_nat_alt)
  moreover have "unat (n + 1) = Suc (unat n)" using False by (metis add.commute unatSuc neg_eq_iff_add_eq_0)
  ultimately show ?thesis by (simp add: word_le_nat_alt)
qed simp

lemma below_three: "\<not> (3 :: u32) \<le> n \<Longrightarrow> n \<noteq> 0 \<Longrightarrow> n = 1 \<or> n = 2"
proof -
  assume "\<not> 3 \<le> n" "n \<noteq> 0"
  then have "unat n = 1 \<or> unat n = 2" by (simp add: word_le_nat_alt unat_eq_0 [symmetric]) linarith
  then show ?thesis by (auto simp: word_unat_eq_iff)
qed

function secmic_pad :: "mic_data \<Rightarrow> mic_data" where
  "secmic_pad m = (if nBytesInM m \<noteq> 0 then secmic_pad (rtw_secmicappendbyte m 0) else m)"
  by pat_completeness auto
termination
proof (relation "measure (\<lambda>m. if nBytesInM m = 0 then 0 else if nBytesInM m = 2 then 2 else if nBytesInM m = 1 then 3 else (1 :: nat))",
    goal_cases)
  case (2 m)
  show ?case
  proof (cases "nBytesInM m \<ge> 3")
    case True
    then have "nBytesInM (rtw_secmicappendbyte m 0) = 0"
      using succ_wraps_or_full [OF True] by (auto simp: appendbyte_nbytes)
    with 2 show ?thesis by simp
  next
    case False
    with below_three [OF False] 2 show ?thesis by (auto simp: appendbyte_nbytes)
  qed
qed simp

declare secmic_pad.simps [simp del]

definition rtw_secgetmic :: "mic_data \<Rightarrow> bytes \<times> mic_data" where
  "rtw_secgetmic m =
     (let m = secmic_pad (foldl rtw_secmicappendbyte m [0x5a, 0, 0, 0, 0])
      in (secmicputuint32 (mic_L m) @ secmicputuint32 (mic_R m), secmicclear m))"

text \<open>
  \<^verbatim>\<open>rtw_seccalctkipmic\<close>: the code of a frame over its addresses, its priority and its data. The local
  \<^verbatim>\<open>micdata\<close> is not initialised; \<open>junk\<close> is what it holds.
\<close>

definition rtw_seccalctkipmic :: "mic_data \<Rightarrow> bytes \<Rightarrow> bytes \<Rightarrow> bytes \<Rightarrow> u8 \<Rightarrow> bytes option" where
  "rtw_seccalctkipmic junk key header data pri =
     (let fromto = (if bit (header ! 1) 0 then (16, if bit (header ! 1) 1 then 24 else 10)
                    else (4, if bit (header ! 1) 1 then 16 else 10))
      in case (mem_get header (fst fromto) 6, mem_get header (snd fromto) 6) of
           (Some da, Some sa) \<Rightarrow>
             let m = rtw_secmicsetkey junk key;
                 m = rtw_secmicappend m da;
                 m = rtw_secmicappend m sa;
                 m = rtw_secmicappend m [pri, 0, 0, 0];
                 m = rtw_secmicappend m data
             in Some (fst (rtw_secgetmic m))
         | _ \<Rightarrow> None)"

section \<open>Key mixing\<close>

definition Sbox1_lo :: "u16 list" where
  "Sbox1_lo =
     [0xC6A5, 0xF884, 0xEE99, 0xF68D, 0xFF0D, 0xD6BD, 0xDEB1, 0x9154, 0x6050, 0x0203, 0xCEA9, 0x567D,
      0xE719, 0xB562, 0x4DE6, 0xEC9A, 0x8F45, 0x1F9D, 0x8940, 0xFA87, 0xEF15, 0xB2EB, 0x8EC9, 0xFB0B,
      0x41EC, 0xB367, 0x5FFD, 0x45EA, 0x23BF, 0x53F7, 0xE496, 0x9B5B, 0x75C2, 0xE11C, 0x3DAE, 0x4C6A,
      0x6C5A, 0x7E41, 0xF502, 0x834F, 0x685C, 0x51F4, 0xD134, 0xF908, 0xE293, 0xAB73, 0x6253, 0x2A3F,
      0x080C, 0x9552, 0x4665, 0x9D5E, 0x3028, 0x37A1, 0x0A0F, 0x2FB5, 0x0E09, 0x2436, 0x1B9B, 0xDF3D,
      0xCD26, 0x4E69, 0x7FCD, 0xEA9F, 0x121B, 0x1D9E, 0x5874, 0x342E, 0x362D, 0xDCB2, 0xB4EE, 0x5BFB,
      0xA4F6, 0x764D, 0xB761, 0x7DCE, 0x527B, 0xDD3E, 0x5E71, 0x1397, 0xA6F5, 0xB968, 0x0000, 0xC12C,
      0x4060, 0xE31F, 0x79C8, 0xB6ED, 0xD4BE, 0x8D46, 0x67D9, 0x724B, 0x94DE, 0x98D4, 0xB0E8, 0x854A,
      0xBB6B, 0xC52A, 0x4FE5, 0xED16, 0x86C5, 0x9AD7, 0x6655, 0x1194, 0x8ACF, 0xE910, 0x0406, 0xFE81,
      0xA0F0, 0x7844, 0x25BA, 0x4BE3, 0xA2F3, 0x5DFE, 0x80C0, 0x058A, 0x3FAD, 0x21BC, 0x7048, 0xF104,
      0x63DF, 0x77C1, 0xAF75, 0x4263, 0x2030, 0xE51A, 0xFD0E, 0xBF6D, 0x814C, 0x1814, 0x2635, 0xC32F,
      0xBEE1, 0x35A2, 0x88CC, 0x2E39, 0x9357, 0x55F2, 0xFC82, 0x7A47, 0xC8AC, 0xBAE7, 0x322B, 0xE695,
      0xC0A0, 0x1998, 0x9ED1, 0xA37F, 0x4466, 0x547E, 0x3BAB, 0x0B83, 0x8CCA, 0xC729, 0x6BD3, 0x283C,
      0xA779, 0xBCE2, 0x161D, 0xAD76, 0xDB3B, 0x6456, 0x744E, 0x141E, 0x92DB, 0x0C0A, 0x486C, 0xB8E4,
      0x9F5D, 0xBD6E, 0x43EF, 0xC4A6, 0x39A8, 0x31A4, 0xD337, 0xF28B, 0xD532, 0x8B43, 0x6E59, 0xDAB7,
      0x018C, 0xB164, 0x9CD2, 0x49E0, 0xD8B4, 0xACFA, 0xF307, 0xCF25, 0xCAAF, 0xF48E, 0x47E9, 0x1018,
      0x6FD5, 0xF088, 0x4A6F, 0x5C72, 0x3824, 0x57F1, 0x73C7, 0x9751, 0xCB23, 0xA17C, 0xE89C, 0x3E21,
      0x96DD, 0x61DC, 0x0D86, 0x0F85, 0xE090, 0x7C42, 0x71C4, 0xCCAA, 0x90D8, 0x0605, 0xF701, 0x1C12,
      0xC2A3, 0x6A5F, 0xAEF9, 0x69D0, 0x1791, 0x9958, 0x3A27, 0x27B9, 0xD938, 0xEB13, 0x2BB3, 0x2233,
      0xD2BB, 0xA970, 0x0789, 0x33A7, 0x2DB6, 0x3C22, 0x1592, 0xC920, 0x8749, 0xAAFF, 0x5078, 0xA57A,
      0x038F, 0x59F8, 0x0980, 0x1A17, 0x65DA, 0xD731, 0x84C6, 0xD0B8, 0x82C3, 0x29B0, 0x5A77, 0x1E11,
      0x7BCB, 0xA8FC, 0x6DD6, 0x2C3A]"

definition Sbox1_hi :: "u16 list" where
  "Sbox1_hi =
     [0xA5C6, 0x84F8, 0x99EE, 0x8DF6, 0x0DFF, 0xBDD6, 0xB1DE, 0x5491, 0x5060, 0x0302, 0xA9CE, 0x7D56,
      0x19E7, 0x62B5, 0xE64D, 0x9AEC, 0x458F, 0x9D1F, 0x4089, 0x87FA, 0x15EF, 0xEBB2, 0xC98E, 0x0BFB,
      0xEC41, 0x67B3, 0xFD5F, 0xEA45, 0xBF23, 0xF753, 0x96E4, 0x5B9B, 0xC275, 0x1CE1, 0xAE3D, 0x6A4C,
      0x5A6C, 0x417E, 0x02F5, 0x4F83, 0x5C68, 0xF451, 0x34D1, 0x08F9, 0x93E2, 0x73AB, 0x5362, 0x3F2A,
      0x0C08, 0x5295, 0x6546, 0x5E9D, 0x2830, 0xA137, 0x0F0A, 0xB52F, 0x090E, 0x3624, 0x9B1B, 0x3DDF,
      0x26CD, 0x694E, 0xCD7F, 0x9FEA, 0x1B12, 0x9E1D, 0x7458, 0x2E34, 0x2D36, 0xB2DC, 0xEEB4, 0xFB5B,
      0xF6A4, 0x4D76, 0x61B7, 0xCE7D, 0x7B52, 0x3EDD, 0x715E, 0x9713, 0xF5A6, 0x68B9, 0x0000, 0x2CC1,
      0x6040, 0x1FE3, 0xC879, 0xEDB6, 0xBED4, 0x468D, 0xD967, 0x4B72, 0xDE94, 0xD498, 0xE8B0, 0x4A85,
      0x6BBB, 0x2AC5, 0xE54F, 0x16ED, 0xC586, 0xD79A, 0x5566, 0x9411, 0xCF8A, 0x10E9, 0x0604, 0x81FE,
      0xF0A0, 0x4478, 0xBA25, 0xE34B, 0xF3A2, 0xFE5D, 0xC080, 0x8A05, 0xAD3F, 0xBC21, 0x4870, 0x04F1,
      0xDF63, 0xC177, 0x75AF, 0x6342, 0x3020, 0x1AE5, 0x0EFD, 0x6DBF, 0x4C81, 0x1418, 0x3526, 0x2FC3,
      0xE1BE, 0xA235, 0xCC88, 0x392E, 0x5793, 0xF255, 0x82FC, 0x477A, 0xACC8, 0xE7BA, 0x2B32, 0x95E6,
      0xA0C0, 0x9819, 0xD19E, 0x7FA3, 0x6644, 0x7E54, 0xAB3B, 0x830B, 0xCA8C, 0x29C7, 0xD36B, 0x3C28,
      0x79A7, 0xE2BC, 0x1D16, 0x76AD, 0x3BDB, 0x5664, 0x4E74, 0x1E14, 0xDB92, 0x0A0C, 0x6C48, 0xE4B8,
      0x5D9F, 0x6EBD, 0xEF43, 0xA6C4, 0xA839, 0xA431, 0x37D3, 0x8BF2, 0x32D5, 0x438B, 0x596E, 0xB7DA,
      0x8C01, 0x64B1, 0xD29C, 0xE049, 0xB4D8, 0xFAAC, 0x07F3, 0x25CF, 0xAFCA, 0x8EF4, 0xE947, 0x1810,
      0xD56F, 0x88F0, 0x6F4A, 0x725C, 0x2438, 0xF157, 0xC773, 0x5197, 0x23CB, 0x7CA1, 0x9CE8, 0x213E,
      0xDD96, 0xDC61, 0x860D, 0x850F, 0x90E0, 0x427C, 0xC471, 0xAACC, 0xD890, 0x0506, 0x01F7, 0x121C,
      0xA3C2, 0x5F6A, 0xF9AE, 0xD069, 0x9117, 0x5899, 0x273A, 0xB927, 0x38D9, 0x13EB, 0xB32B, 0x3322,
      0xBBD2, 0x70A9, 0x8907, 0xA733, 0xB62D, 0x223C, 0x9215, 0x20C9, 0x4987, 0xFFAA, 0x7850, 0x7AA5,
      0x8F03, 0xF859, 0x8009, 0x171A, 0xDA65, 0x31D7, 0xC684, 0xB8D0, 0xC382, 0xB029, 0x775A, 0x111E,
      0xCB7B, 0xFCA8, 0xD66D, 0x3A2C]"

text \<open>The second table is the first one with the bytes of each entry exchanged, as its comment says.\<close>

lemma Sbox1_halves: "Sbox1_hi = map (\<lambda>v. push_bit 8 v OR drop_bit 8 v) Sbox1_lo"
  by code_simp

definition Lo8 :: "u16 \<Rightarrow> u8" where "Lo8 v = ucast (v AND 0x00FF)"
definition Hi8 :: "u16 \<Rightarrow> u8" where "Hi8 v = ucast (drop_bit 8 v AND 0x00FF)"
definition Lo16 :: "u32 \<Rightarrow> u16" where "Lo16 v = ucast (v AND 0xFFFF)"
definition Hi16 :: "u32 \<Rightarrow> u16" where "Hi16 v = ucast (drop_bit 16 v AND 0xFFFF)"
definition Mk16 :: "u8 \<Rightarrow> u8 \<Rightarrow> u16" where "Mk16 hi lo = ucast lo XOR push_bit 8 (ucast hi)"
definition RotR1 :: "u16 \<Rightarrow> u16" where "RotR1 v = (drop_bit 1 v AND 0x7FFF) XOR push_bit 15 (v AND 1)"

definition TK16 :: "bytes \<Rightarrow> nat \<Rightarrow> u16" where "TK16 tk n = Mk16 (tk ! (2 * n + 1)) (tk ! (2 * n))"

definition S_box :: "u16 \<Rightarrow> u16" where "S_box v = Sbox1_lo ! unat (Lo8 v) XOR Sbox1_hi ! unat (Hi8 v)"

type_synonym p1k = "u16 \<times> u16 \<times> u16 \<times> u16 \<times> u16"

definition phase1_round :: "bytes \<Rightarrow> nat \<Rightarrow> p1k \<Rightarrow> p1k" where
  "phase1_round tk i = (\<lambda>(p0, p1, p2, p3, p4).
     let j = i mod 2;
         p0 = p0 + S_box (p4 XOR TK16 tk (j + 0));
         p1 = p1 + S_box (p0 XOR TK16 tk (j + 2));
         p2 = p2 + S_box (p1 XOR TK16 tk (j + 4));
         p3 = p3 + S_box (p2 XOR TK16 tk (j + 6));
         p4 = p4 + S_box (p3 XOR TK16 tk (j + 0));
         p4 = p4 + of_nat i
     in (p0, p1, p2, p3, p4))"

definition phase1 :: "bytes \<Rightarrow> bytes \<Rightarrow> u32 \<Rightarrow> p1k" where
  "phase1 tk ta iv32 =
     fold (phase1_round tk) [0..<8]
       (Lo16 iv32, Hi16 iv32, Mk16 (ta ! 1) (ta ! 0), Mk16 (ta ! 3) (ta ! 2), Mk16 (ta ! 5) (ta ! 4))"

text \<open>The array \<^verbatim>\<open>PPK\<close> after the two sweeps, and the key made of it.\<close>

definition phase2_mix :: "bytes \<Rightarrow> u16 \<times> u16 \<times> u16 \<times> u16 \<times> u16 \<times> u16 \<Rightarrow> u16 \<times> u16 \<times> u16 \<times> u16 \<times> u16 \<times> u16" where
  "phase2_mix tk = (\<lambda>(k0, k1, k2, k3, k4, k5).
     let k0 = k0 + S_box (k5 XOR TK16 tk 0);
         k1 = k1 + S_box (k0 XOR TK16 tk 1);
         k2 = k2 + S_box (k1 XOR TK16 tk 2);
         k3 = k3 + S_box (k2 XOR TK16 tk 3);
         k4 = k4 + S_box (k3 XOR TK16 tk 4);
         k5 = k5 + S_box (k4 XOR TK16 tk 5);
         k0 = k0 + RotR1 (k5 XOR TK16 tk 6);
         k1 = k1 + RotR1 (k0 XOR TK16 tk 7);
         k2 = k2 + RotR1 k1;
         k3 = k3 + RotR1 k2;
         k4 = k4 + RotR1 k3;
         k5 = k5 + RotR1 k4
     in (k0, k1, k2, k3, k4, k5))"

definition phase2 :: "bytes \<Rightarrow> p1k \<Rightarrow> u16 \<Rightarrow> bytes" where
  "phase2 tk = (\<lambda>(p0, p1, p2, p3, p4) iv16.
     case phase2_mix tk (p0, p1, p2, p3, p4, p4 + iv16) of
       (k0, k1, k2, k3, k4, k5) \<Rightarrow>
         [Hi8 iv16, (Hi8 iv16 OR 0x20) AND 0x7F, Lo8 iv16, Lo8 (drop_bit 1 (k5 XOR TK16 tk 0))] @
         concat (map (\<lambda>k. [Lo8 k, Hi8 k]) [k0, k1, k2, k3, k4, k5]))"

section \<open>Michael computes its reference\<close>

text \<open>The reference: the padded message as little-endian words, absorbed one after the other.\<close>

fun le_words :: "bytes \<Rightarrow> u32 list" where
  "le_words (a # b # c # d # bs) = le32_word [a, b, c, d] # le_words bs"
| "le_words bs = []"

definition michael_pad :: "bytes \<Rightarrow> bytes" where
  "michael_pad msg = msg @ [0x5a, 0, 0, 0, 0] @ replicate (3 - length msg mod 4) 0"

definition michael :: "bytes \<Rightarrow> bytes \<Rightarrow> bytes" where
  "michael key msg =
     (case foldl mic_block (le32_word (take 4 key), le32_word (take 4 (drop 4 key))) (le_words (michael_pad msg)) of
        (l, r) \<Rightarrow> le32 l @ le32 r)"

lemma append_append: "rtw_secmicappend m (a @ b) = rtw_secmicappend (rtw_secmicappend m a) b"
  by (simp add: rtw_secmicappend_def)

definition mic_clean :: "mic_data \<Rightarrow> bool" where
  "mic_clean m \<longleftrightarrow> nBytesInM m = 0 \<and> mic_M m = 0"

text \<open>One more byte of a word, and the byte that completes it.\<close>

lemma appendbyte_part:
  assumes "nBytesInM m = of_nat k" and "k < 3"
  shows "rtw_secmicappendbyte m b =
     m\<lparr>mic_M := mic_M m OR push_bit (8 * k) (ucast b), nBytesInM := of_nat (Suc k)\<rparr>"
proof -
  consider "k = 0" | "k = 1" | "k = 2" using assms(2) by linarith
  then show ?thesis
    by cases (use assms(1) in \<open>simp_all add: rtw_secmicappendbyte_def Let_def word_le_nat_alt\<close>)
qed

lemma appendbyte_full:
  assumes "nBytesInM m = 3"
    and "mic_block (mic_L m, mic_R m) (mic_M m OR push_bit 24 (ucast b)) = (l, r)"
  shows "rtw_secmicappendbyte m b = m\<lparr>mic_L := l, mic_R := r, mic_M := 0, nBytesInM := 0\<rparr>"
  using assms by (simp add: rtw_secmicappendbyte_def Let_def)

lemma append_word:
  assumes "mic_clean m" and "mic_block (mic_L m, mic_R m) (le32_word [a, b, c, d]) = (l, r)"
  shows "rtw_secmicappend m [a, b, c, d] = m\<lparr>mic_L := l, mic_R := r\<rparr>"
proof -
  have w: "le32_word [a, b, c, d] = ((ucast a OR push_bit 8 (ucast b)) OR push_bit 16 (ucast c)) OR push_bit 24 (ucast d)"
    by (simp add: le32_word_def upt_rec)
  define m3 where "m3 = m\<lparr>mic_M := ucast a OR push_bit 8 (ucast b) OR push_bit 16 (ucast c), nBytesInM := 3\<rparr>"
  have "foldl rtw_secmicappendbyte m [a, b, c] = m3"
    using assms(1) appendbyte_part [of m 0 a]
      appendbyte_part [of "m\<lparr>mic_M := ucast a, nBytesInM := 1\<rparr>" 1 b]
      appendbyte_part [of "m\<lparr>mic_M := ucast a OR push_bit 8 (ucast b), nBytesInM := 2\<rparr>" 2 c]
    by (simp add: mic_clean_def m3_def or.assoc)
  moreover have "rtw_secmicappendbyte m3 d = m3\<lparr>mic_L := l, mic_R := r, mic_M := 0, nBytesInM := 0\<rparr>"
    by (rule appendbyte_full) (use assms(2) in \<open>simp_all add: m3_def w or.assoc\<close>)
  ultimately show ?thesis using assms(1) by (simp add: rtw_secmicappend_def m3_def mic_clean_def)
qed

text \<open>A message of whole words.\<close>

lemma append_words:
  assumes "mic_clean m" and "4 dvd length bs" and "foldl mic_block (mic_L m, mic_R m) (le_words bs) = (l, r)"
  shows "rtw_secmicappend m bs = m\<lparr>mic_L := l, mic_R := r\<rparr>"
  using assms
proof (induction bs arbitrary: m rule: le_words.induct)
  case (1 a b c d bs)
  obtain l1 r1 where b: "mic_block (mic_L m, mic_R m) (le32_word [a, b, c, d]) = (l1, r1)" by fastforce
  let ?m = "m\<lparr>mic_L := l1, mic_R := r1\<rparr>"
  have "4 dvd length bs" using "1.prems"(2) by simp presburger
  then have "rtw_secmicappend ?m bs = ?m\<lparr>mic_L := l, mic_R := r\<rparr>"
    by (intro "1.IH") (use "1.prems" b in \<open>simp_all add: mic_clean_def\<close>)
  then show ?case using append_append [of m "[a, b, c, d]" bs] append_word [OF "1.prems"(1) b] by simp
next
  case "2_1"
  then show ?case by (simp add: rtw_secmicappend_def)
qed (simp_all add: dvd_def, presburger+)

lemma append_nbytes:
  assumes "nBytesInM m = 0"
  shows "nBytesInM (rtw_secmicappend m bs) = of_nat (length bs mod 4)"
proof (induction bs rule: rev_induct)
  case (snoc b bs)
  let ?n = "length bs mod 4"
  have s: "rtw_secmicappend m (bs @ [b]) = rtw_secmicappendbyte (rtw_secmicappend m bs) b"
    by (simp add: rtw_secmicappend_def)
  have "?n < 4" by simp
  then consider "?n = 0" | "?n = 1" | "?n = 2" | "?n = 3" by linarith
  then show ?case unfolding s appendbyte_nbytes snoc.IH by cases (simp_all add: mod_Suc word_le_nat_alt)
qed (simp add: rtw_secmicappend_def assms)

lemma secmic_pad_zeroes:
  assumes "nBytesInM m = of_nat k" and "k < 4"
  shows "secmic_pad m = rtw_secmicappend m (replicate ((4 - k) mod 4) 0)"
proof -
  have done': "secmic_pad m = m" if "nBytesInM m = 0" for m using that by (subst secmic_pad.simps) simp
  have next': "secmic_pad m = secmic_pad (rtw_secmicappendbyte m 0)" if "nBytesInM m \<noteq> 0" for m
    using that by (subst secmic_pad.simps) simp
  have three: "secmic_pad m = rtw_secmicappend m [0]" if "nBytesInM m = 3" for m
  proof -
    have "nBytesInM (rtw_secmicappendbyte m 0) = 0" using that by (simp add: appendbyte_nbytes)
    then show ?thesis using that next' [of m] done' by (simp add: rtw_secmicappend_def)
  qed
  have two: "secmic_pad m = rtw_secmicappend m [0, 0]" if "nBytesInM m = 2" for m
  proof -
    have "nBytesInM (rtw_secmicappendbyte m 0) = 3" using that by (simp add: appendbyte_nbytes word_le_nat_alt)
    then show ?thesis using that next' [of m] three by (simp add: rtw_secmicappend_def)
  qed
  have one: "secmic_pad m = rtw_secmicappend m [0, 0, 0]" if "nBytesInM m = 1" for m
  proof -
    have "nBytesInM (rtw_secmicappendbyte m 0) = 2" using that by (simp add: appendbyte_nbytes word_le_nat_alt)
    then show ?thesis using that next' [of m] two by (simp add: rtw_secmicappend_def)
  qed
  have r3: "replicate 3 0 = [0, 0, 0 :: u8]" by (simp add: numeral_3_eq_3)
  have r2: "replicate 2 0 = [0, 0 :: u8]" by (simp add: numeral_2_eq_2)
  consider "k = 0" | "k = 1" | "k = 2" | "k = 3" using assms(2) by linarith
  then show ?thesis
  proof cases
    case 1
    then show ?thesis using assms(1) done' by (simp add: rtw_secmicappend_def)
  next
    case 2
    then show ?thesis using assms(1) one [of m] r3 by simp
  next
    case 3
    then show ?thesis using assms(1) two [of m] r2 by simp
  next
    case 4
    then show ?thesis using assms(1) three [of m] by simp
  qed
qed

text \<open>Storing a word byte by byte.\<close>

lemma secmicputuint32_le32: "secmicputuint32 v = le32 v"
proof -
  have b: "ucast (w AND 0xff :: u32) = (ucast w :: u8)" for w :: u32
  proof -
    have "w AND 0xff = take_bit 8 w" by (simp add: take_bit_eq_mask mask_eq_exp_minus_1)
    then show ?thesis by (intro bit_word_eqI) (simp add: bit_unsigned_iff bit_take_bit_iff)
  qed
  show ?thesis by (simp add: secmicputuint32_def le32_def upt_rec b)
qed

lemma secmicgetuint32_le32: "secmicgetuint32 bs = le32_word (take 4 bs)" if "4 \<le> length bs"
  using that by (simp add: secmicgetuint32_def le32_word_def upt_rec)

lemma pad_count: "(4 - (n + 5) mod 4) mod 4 = 3 - n mod (4 :: nat)"
proof -
  have "n mod 4 < 4" by simp
  then consider "n mod 4 = 0" | "n mod 4 = 1" | "n mod 4 = 2" | "n mod 4 = 3" by linarith
  moreover have e: "(n + 5) mod 4 = (n mod 4 + 5) mod 4" by (rule mod_add_left_eq [symmetric])
  ultimately show ?thesis unfolding e by cases simp_all
qed

lemma pad_whole: "4 dvd length (michael_pad msg)"
proof -
  have "length (michael_pad msg) = length msg + (8 - length msg mod 4)" by (simp add: michael_pad_def)
  also have "\<dots> = 4 * (length msg div 4) + 8" by (simp add: minus_mod_eq_mult_div [symmetric])
  finally show ?thesis by simp
qed

lemma getmic_michael:
  assumes "8 \<le> length key"
  shows "fst (rtw_secgetmic (rtw_secmicappend (rtw_secmicsetkey m key) msg)) = michael key msg"
proof -
  let ?m = "rtw_secmicsetkey m key"
  let ?k = "(length msg + 5) mod 4"
  have clean: "mic_clean ?m" by (simp add: rtw_secmicsetkey_def secmicclear_def mic_clean_def)
  have LR: "(mic_L ?m, mic_R ?m) = (le32_word (take 4 key), le32_word (take 4 (drop 4 key)))"
    using assms by (simp add: rtw_secmicsetkey_def secmicclear_def secmicgetuint32_le32)
  have first: "foldl rtw_secmicappendbyte (rtw_secmicappend ?m msg) [0x5a, 0, 0, 0, 0] =
      rtw_secmicappend ?m (msg @ [0x5a, 0, 0, 0, 0])"
    by (simp add: rtw_secmicappend_def)
  have "nBytesInM (rtw_secmicappend ?m (msg @ [0x5a, 0, 0, 0, 0])) = of_nat ?k"
    by (subst append_nbytes) (use clean in \<open>simp_all add: mic_clean_def add.commute [of 5]\<close>)
  from secmic_pad_zeroes [OF this mod_less_divisor [OF zero_less_numeral]] have pad: "secmic_pad (rtw_secmicappend ?m (msg @ [0x5a, 0, 0, 0, 0])) =
      rtw_secmicappend ?m ((msg @ [0x5a, 0, 0, 0, 0]) @ replicate ((4 - ?k) mod 4) 0)"
    by (simp only: append_append)
  have "(msg @ [0x5a, 0, 0, 0, 0]) @ replicate ((4 - ?k) mod 4) 0 = michael_pad msg"
    unfolding pad_count by (simp add: michael_pad_def)
  moreover obtain l r where lr: "foldl mic_block (mic_L ?m, mic_R ?m) (le_words (michael_pad msg)) = (l, r)" by fastforce
  ultimately have "secmic_pad (rtw_secmicappend ?m (msg @ [0x5a, 0, 0, 0, 0])) = ?m\<lparr>mic_L := l, mic_R := r\<rparr>"
    using append_words [OF clean pad_whole lr] pad by simp
  then show ?thesis using lr unfolding LR rtw_secgetmic_def first
    by (simp add: Let_def secmicputuint32_le32 michael_def)
qed

section \<open>The key mixing is injective\<close>

text \<open>A round of the first phase, and the mixing of the second, can be undone.\<close>

lemma phase1_round_inj: "phase1_round tk i p = phase1_round tk i q \<Longrightarrow> p = q"
proof -
  assume e: "phase1_round tk i p = phase1_round tk i q"
  obtain p0 p1 p2 p3 p4 where p: "p = (p0, p1, p2, p3, p4)" by (metis prod_cases5)
  obtain q0 q1 q2 q3 q4 where q: "q = (q0, q1, q2, q3, q4)" by (metis prod_cases5)
  from e show ?thesis unfolding p q by (auto simp: phase1_round_def Let_def)
qed

lemma phase1_rounds_inj: "fold (phase1_round tk) is p = fold (phase1_round tk) is q \<Longrightarrow> p = q"
proof (induction "is" arbitrary: p q)
  case (Cons i "is")
  have "fold (phase1_round tk) is (phase1_round tk i p) = fold (phase1_round tk) is (phase1_round tk i q)"
    using Cons.prems by simp
  then have "phase1_round tk i p = phase1_round tk i q" by (rule Cons.IH)
  then show ?case by (rule phase1_round_inj)
qed simp

lemma phase2_mix_inj: "phase2_mix tk p = phase2_mix tk q \<Longrightarrow> p = q"
proof -
  assume e: "phase2_mix tk p = phase2_mix tk q"
  obtain p0 p1 p2 p3 p4 p5 where p: "p = (p0, p1, p2, p3, p4, p5)" by (metis prod_cases6)
  obtain q0 q1 q2 q3 q4 q5 where q: "q = (q0, q1, q2, q3, q4, q5)" by (metis prod_cases6)
  from e show ?thesis unfolding p q by (auto simp: phase2_mix_def Let_def)
qed

lemma bit_Lo8: "bit (Lo8 v) n \<longleftrightarrow> n < 8 \<and> bit v n"
proof -
  have "v AND 0xff = take_bit 8 v" by (simp add: take_bit_eq_mask mask_eq_exp_minus_1)
  then show ?thesis by (auto simp: Lo8_def bit_unsigned_iff bit_take_bit_iff)
qed

lemma bit_Hi8: "bit (Hi8 v) n \<longleftrightarrow> n < 8 \<and> bit v (8 + n)"
proof -
  have "drop_bit 8 v AND 0xff = take_bit 8 (drop_bit 8 v)" by (simp add: take_bit_eq_mask mask_eq_exp_minus_1)
  then show ?thesis by (auto simp: Hi8_def bit_unsigned_iff bit_take_bit_iff bit_drop_bit_eq)
qed

lemma bytes_of_u16: "Lo8 v = Lo8 w \<Longrightarrow> Hi8 v = Hi8 w \<Longrightarrow> v = w"
proof (rule bit_word_eqI)
  fix n assume lo: "Lo8 v = Lo8 w" and hi: "Hi8 v = Hi8 w" and n: "n < LENGTH(16)"
  show "bit v n = bit w n"
  proof (cases "n < 8")
    case True
    then show ?thesis using bit_Lo8 [of v n] bit_Lo8 [of w n] lo by simp
  next
    case False
    moreover have "n - 8 < 8" using n False by simp
    ultimately show ?thesis using bit_Hi8 [of v "n - 8"] bit_Hi8 [of w "n - 8"] hi by simp
  qed
qed

lemma Mk16_inj: "Mk16 a b = Mk16 c d \<Longrightarrow> a = c \<and> b = d"
proof -
  have lo: "Lo8 (Mk16 a b) = b" and hi: "Hi8 (Mk16 a b) = a" for a b
    by (rule bit_word_eqI, auto simp: bit_Lo8 bit_Hi8 Mk16_def bit_xor_iff bit_push_bit_iff bit_unsigned_iff
        dest: bit_imp_le_length)+
  assume "Mk16 a b = Mk16 c d"
  then show ?thesis using lo [of a b] lo [of c d] hi [of a b] hi [of c d] by simp
qed

lemma halves_of_u32: "Lo16 v = Lo16 w \<Longrightarrow> Hi16 v = Hi16 w \<Longrightarrow> v = w"
proof (rule bit_word_eqI)
  fix n assume lo: "Lo16 v = Lo16 w" and hi: "Hi16 v = Hi16 w" and n: "n < LENGTH(32)"
  have m: "x AND 0xFFFF = take_bit 16 x" for x :: u32 by (simp add: take_bit_eq_mask mask_eq_exp_minus_1)
  have bl: "bit (Lo16 x) k \<longleftrightarrow> k < 16 \<and> bit x k" for x k
    by (auto simp: Lo16_def m bit_unsigned_iff bit_take_bit_iff)
  have bh: "bit (Hi16 x) k \<longleftrightarrow> k < 16 \<and> bit x (16 + k)" for x k
    by (auto simp: Hi16_def m bit_unsigned_iff bit_take_bit_iff bit_drop_bit_eq)
  show "bit v n = bit w n"
  proof (cases "n < 16")
    case True
    then show ?thesis using bl [of v n] bl [of w n] lo by simp
  next
    case False
    moreover have "n - 16 < 16" using n False by simp
    ultimately show ?thesis using bh [of v "n - 16"] bh [of w "n - 16"] hi by simp
  qed
qed

lemma phase1_inj:
  assumes "phase1 tk ta iv = phase1 tk ta' iv'" and "length ta = 6" and "length ta' = 6"
  shows "ta = ta' \<and> iv = iv'"
proof -
  from phase1_rounds_inj [OF assms(1) [unfolded phase1_def]]
  have e: "Lo16 iv = Lo16 iv'" "Hi16 iv = Hi16 iv'" "Mk16 (ta ! 1) (ta ! 0) = Mk16 (ta' ! 1) (ta' ! 0)"
    "Mk16 (ta ! 3) (ta ! 2) = Mk16 (ta' ! 3) (ta' ! 2)" "Mk16 (ta ! 5) (ta ! 4) = Mk16 (ta' ! 5) (ta' ! 4)"
    by simp_all
  have "ta ! n = ta' ! n" if n6: "n < 6" for n
  proof -
    consider "n = 0" | "n = 1" | "n = 2" | "n = 3" | "n = 4" | "n = 5" using n6 by linarith
    then show ?thesis using Mk16_inj [OF e(3)] Mk16_inj [OF e(4)] Mk16_inj [OF e(5)] by cases simp_all
  qed
  then show ?thesis using halves_of_u32 [OF e(1,2)] assms(2,3) by (auto intro: nth_equalityI)
qed

lemma phase2_inj:
  assumes "phase2 tk p iv = phase2 tk q iv'"
  shows "p = q \<and> iv = iv'"
proof -
  obtain p0 p1 p2 p3 p4 where p: "p = (p0, p1, p2, p3, p4)" by (metis prod_cases5)
  obtain q0 q1 q2 q3 q4 where q: "q = (q0, q1, q2, q3, q4)" by (metis prod_cases5)
  obtain a0 a1 a2 a3 a4 a5 where a: "phase2_mix tk (p0, p1, p2, p3, p4, p4 + iv) = (a0, a1, a2, a3, a4, a5)"
    by (metis prod_cases6)
  obtain b0 b1 b2 b3 b4 b5 where b: "phase2_mix tk (q0, q1, q2, q3, q4, q4 + iv') = (b0, b1, b2, b3, b4, b5)"
    by (metis prod_cases6)
  from assms have "(a0, a1, a2, a3, a4, a5) = (b0, b1, b2, b3, b4, b5)"
    by (auto simp: phase2_def p q a b intro: bytes_of_u16)
  with a b have "phase2_mix tk (p0, p1, p2, p3, p4, p4 + iv) = phase2_mix tk (q0, q1, q2, q3, q4, q4 + iv')" by simp
  from phase2_mix_inj [OF this] show ?thesis by (auto simp: p q)
qed

section \<open>Frames\<close>

text \<open>\<^verbatim>\<open>GET_TKIP_PN\<close> and the two parts of the packet number.\<close>

definition tkip_pnl :: "bytes \<Rightarrow> u16" where
  "tkip_pnl iv = ucast (iv ! 2) OR push_bit 8 (ucast (iv ! 0))"

definition tkip_pnh :: "bytes \<Rightarrow> u32" where
  "tkip_pnh iv = le32_word [iv ! 4, iv ! 5, iv ! 6, iv ! 7]"

definition tkip_rc4key :: "bytes \<Rightarrow> bytes \<Rightarrow> bytes \<Rightarrow> bytes" where
  "tkip_rc4key tk ta iv = phase2 tk (phase1 tk ta (tkip_pnh iv)) (tkip_pnl iv)"

abbreviation IS_MCAST :: "bytes \<Rightarrow> bool" where "IS_MCAST ra \<equiv> bit (ra ! 0) 0"

definition tkip_encrypt_frag :: "bytes \<Rightarrow> xmit_frame \<Rightarrow> bytes \<Rightarrow> u32 \<Rightarrow> bytes option" where
  "tkip_encrypt_frag prwskey xf pframe sz =
     (let len = sint (sz - ucast (xf_hdrlen xf) - ucast (xf_iv_len xf) - ucast (xf_icv_len xf))
      in case mem_get pframe (unat (xf_hdrlen xf)) 8 of
           None \<Rightarrow> None
         | Some iv \<Rightarrow>
             arc4_seal (tkip_rc4key prwskey (xf_ta xf) iv) 16 pframe
               (unat (xf_iv_len xf) + unat (xf_hdrlen xf)) len)"

definition rtw_tkip_encrypt :: "security_priv \<Rightarrow> xmit_frame \<Rightarrow> (bool \<times> xmit_frame) option" where
  "rtw_tkip_encrypt sec xf =
     (if xf_encrypt xf \<noteq> TKIP then Some (True, xf)
      else
        let k = unat (dot118021XGrpKeyid sec) in
        if \<not> IS_MCAST (xf_ra xf) \<or> k < length (dot118021XGrpKey sec) then
          let prwskey = (if IS_MCAST (xf_ra xf) then dot118021XGrpKey sec ! k else xf_UncstKey xf) in
          map_option (\<lambda>fr. (True, xf\<lparr>xf_frags := fr\<rparr>))
            (encrypt_frags (tkip_encrypt_frag prwskey xf) (xf_frags xf) 0 (unat (xf_nr_frags xf)))
        else None)"

text \<open>
  \<open>stainfo\<close> is the pairwise key of the transmitter, if the station is known. The counters of frames
  without a group key only feed a message and are left out.
\<close>

definition tkip_open :: "bytes \<Rightarrow> recv_frame \<Rightarrow> (bool \<times> recv_frame) option" where
  "tkip_open prwskey rf =
     (let len = sint (rf_len rf - ucast (rf_hdrlen rf) - ucast (rf_iv_len rf));
          off = unat (rf_iv_len rf) + unat (rf_hdrlen rf)
      in case mem_get (rf_data rf) (unat (rf_hdrlen rf)) 8 of
           None \<Rightarrow> None
         | Some iv \<Rightarrow>
             (case arc4_open (tkip_rc4key prwskey (rf_ta rf) iv) 16 (rf_data rf) off len of
                None \<Rightarrow> None
              | Some (f, crc) \<Rightarrow>
                  if 4 \<le> int off + len then
                    map_option (\<lambda>icv. (crc = icv, rf\<lparr>rf_data := f\<rparr>)) (mem_get f (nat (int off + len - 4)) 4)
                  else None))"

definition rtw_tkip_decrypt :: "security_priv \<Rightarrow> bytes option \<Rightarrow> recv_frame \<Rightarrow> (bool \<times> recv_frame) option" where
  "rtw_tkip_decrypt sec stainfo rf =
     (if rf_encrypt rf = TKIP then
        case stainfo of
          None \<Rightarrow> Some (False, rf)
        | Some uncst \<Rightarrow>
            if IS_MCAST (rf_ra rf) then
              if \<not> binstallGrpkey sec then Some (False, rf)
              else if unat (rf_key_index rf) < length (dot118021XGrpKey sec) then
                tkip_open (dot118021XGrpKey sec ! unat (rf_key_index rf)) rf
              else None
            else tkip_open uncst rf
      else Some (True, rf))"

text \<open>
  A receiver that parsed the header as the sender built it and holds the key of the sender: the
  pairwise key, or for a group-addressed frame the group key of the index.
\<close>

definition tkip_key :: "security_priv \<Rightarrow> xmit_frame \<Rightarrow> bytes" where
  "tkip_key sec xf =
     (if IS_MCAST (xf_ra xf) then dot118021XGrpKey sec ! unat (dot118021XGrpKeyid sec) else xf_UncstKey xf)"

definition tkip_peer :: "security_priv \<Rightarrow> xmit_frame \<Rightarrow> security_priv \<Rightarrow> bytes option \<Rightarrow> recv_frame \<Rightarrow> bool" where
  "tkip_peer sec xf sec' stainfo rf \<longleftrightarrow>
     xf_encrypt xf = TKIP \<and> rf_encrypt rf = TKIP \<and> unat (rf_hdrlen rf) = unat (xf_hdrlen xf) \<and>
     rf_iv_len rf = xf_iv_len xf \<and> rf_ta rf = xf_ta xf \<and> rf_ra rf = xf_ra xf \<and> stainfo \<noteq> None \<and>
     (if IS_MCAST (xf_ra xf) then
        binstallGrpkey sec' \<and> unat (dot118021XGrpKeyid sec) < length (dot118021XGrpKey sec) \<and>
        unat (rf_key_index rf) < length (dot118021XGrpKey sec') \<and>
        dot118021XGrpKey sec' ! unat (rf_key_index rf) = tkip_key sec xf
      else stainfo = Some (tkip_key sec xf))"

lemma icv_place:
  "h + i + 4 \<le> s \<Longrightarrow> nat (int (i + h) + int (s - h - i) - 4) = i + h + (s - h - i - 4) \<and>
     4 \<le> int (i + h) + int (s - h - i)"
  by auto

lemma tkip_open_result:
  assumes "mem_get (rf_data rf) (unat (rf_hdrlen rf)) 8 = Some iv"
    and "arc4_open (tkip_rc4key tk (rf_ta rf) iv) 16 (rf_data rf) off len = Some (g, crc)"
    and "unat (rf_iv_len rf) + unat (rf_hdrlen rf) = off"
    and "sint (rf_len rf - ucast (rf_hdrlen rf) - ucast (rf_iv_len rf)) = len"
    and "4 \<le> int off + len" and "mem_get g (nat (int off + len - 4)) 4 = Some icv"
  shows "tkip_open tk rf = Some (crc = icv, rf\<lparr>rf_data := g\<rparr>)"
  unfolding tkip_open_def Let_def assms(3,4) using assms(1,2,5,6) by simp

lemma tkip_frag_roundtrip:
  assumes ok: "wep_frag_ok xf (f, sz)" and icv: "xf_icv_len xf = 4" and iv: "8 \<le> unat (xf_iv_len xf)"
    and peer: "tkip_peer sec xf sec' stainfo rf"
  obtains f' g where "tkip_encrypt_frag (tkip_key sec xf) xf f (ucast sz) = Some f'"
    "rtw_tkip_decrypt sec' stainfo (rf\<lparr>rf_data := f', rf_len := ucast sz\<rparr>) =
       Some (True, rf\<lparr>rf_data := g, rf_len := ucast sz\<rparr>)"
    "mem_put f (unat (xf_iv_len xf) + unat (xf_hdrlen xf))
       (wep_payload xf (f, sz) @ le32 (getcrc32 (wep_payload xf (f, sz)))) = Some g"
proof -
  let ?p = "wep_payload xf (f, sz)" and ?off = "unat (xf_iv_len xf) + unat (xf_hdrlen xf)" and ?tk = "tkip_key sec xf"
  let ?len = "int (unat sz - unat (xf_hdrlen xf) - unat (xf_iv_len xf))"
  have "unat (xf_hdrlen xf) + 8 \<le> length f" using ok iv by (simp add: wep_frag_ok_def)
  then obtain ivb where ivb: "mem_get f (unat (xf_hdrlen xf)) 8 = Some ivb" by (auto simp: mem_get_def)
  let ?key = "tkip_rc4key ?tk (xf_ta xf) ivb"
  obtain f' g where
    R: "arc4_seal ?key 16 f ?off
          (sint ((ucast sz :: u32) - ucast (xf_hdrlen xf) - ucast (xf_iv_len xf) - ucast (xf_icv_len xf))) = Some f'"
      "arc4_open ?key 16 f' ?off ?len = Some (g, le32 (getcrc32 ?p))"
      "mem_put f ?off (?p @ le32 (getcrc32 ?p)) = Some g" "\<forall>i n. i + n \<le> ?off \<longrightarrow> mem_get f' i n = mem_get f i n"
    by (rule frag_seal_open [OF ok icv, of ?key 16])
  have enc: "tkip_encrypt_frag ?tk xf f (ucast sz) = Some f'" using ivb R(1) by (simp add: tkip_encrypt_frag_def Let_def)
  have iv': "mem_get f' (unat (xf_hdrlen xf)) 8 = Some ivb"
    using ivb R(4) [rule_format, of "unat (xf_hdrlen xf)" 8] iv by simp
  have P: "unat (rf_hdrlen rf) = unat (xf_hdrlen xf)" "rf_iv_len rf = xf_iv_len xf" "rf_ta rf = xf_ta xf"
    using peer by (simp_all add: tkip_peer_def)
  have len: "sint ((ucast sz :: u32) - ucast (rf_hdrlen rf) - ucast (rf_iv_len rf)) = ?len"
    unfolding ucast_of_nat P
    using sub_small [of "unat (xf_hdrlen xf)" "unat (xf_iv_len xf)" 0 "unat sz"] ok unat_u16_less [of sz]
    by (simp only: wep_frag_ok_def) simp
  have at: "nat (int ?off + ?len - 4) = ?off + length ?p" "4 \<le> int ?off + ?len"
    unfolding frag_len(2) [OF ok icv] using icv_place [of "unat (xf_hdrlen xf)" "unat (xf_iv_len xf)" "unat sz"] ok
    by (simp_all only: wep_frag_ok_def snd_conv)
  have "mem_get g (?off + length ?p) 4 = Some (le32 (getcrc32 ?p))"
    using R(3) by (auto simp: mem_put_def mem_get_def split: if_splits)
  then have icv: "mem_get g (nat (int ?off + ?len - 4)) 4 = Some (le32 (getcrc32 ?p))" by (simp only: at)
  let ?rf = "rf\<lparr>rf_data := f', rf_len := ucast sz\<rparr>"
  have "tkip_open ?tk ?rf = Some (le32 (getcrc32 ?p) = le32 (getcrc32 ?p), ?rf\<lparr>rf_data := g\<rparr>)"
  proof (rule tkip_open_result [OF _ _ _ _ at(2) icv])
    show "mem_get (rf_data ?rf) (unat (rf_hdrlen ?rf)) 8 = Some ivb" using iv' by (simp add: P)
    show "arc4_open (tkip_rc4key ?tk (rf_ta ?rf) ivb) 16 (rf_data ?rf) ?off ?len = Some (g, le32 (getcrc32 ?p))"
      using R(2) by (simp add: P(3))
    show "unat (rf_iv_len ?rf) + unat (rf_hdrlen ?rf) = ?off" by (simp add: P)
    show "sint (rf_len ?rf - ucast (rf_hdrlen ?rf) - ucast (rf_iv_len ?rf)) = ?len" using len by simp
  qed
  then have "rtw_tkip_decrypt sec' stainfo (rf\<lparr>rf_data := f', rf_len := ucast sz\<rparr>) =
      Some (True, rf\<lparr>rf_data := g, rf_len := ucast sz\<rparr>)"
    using peer by (auto simp: rtw_tkip_decrypt_def tkip_peer_def split: if_splits)
  with enc R(3) that show thesis by blast
qed

section \<open>Properties\<close>

text \<open>
  C16: The integrity code of a frame is Michael of destination, source, priority and data, with the
  addresses taken from the header by its direction bits; feeding the message byte by byte through the
  word buffer and padding in a loop gives the same as absorbing the padded message word by word. The
  uninitialised context does not matter.
\<close>

theorem calctkipmic_is_michael:
  assumes "8 \<le> length key" and "mem_get header (if bit (header ! 1) 0 then 16 else 4) 6 = Some da"
    and "mem_get header (if bit (header ! 1) 1 then if bit (header ! 1) 0 then 24 else 16 else 10) 6 = Some sa"
  shows "rtw_seccalctkipmic junk key header data pri = Some (michael key (da @ sa @ [pri, 0, 0, 0] @ data))"
proof -
  have "rtw_secmicappend (rtw_secmicappend (rtw_secmicappend (rtw_secmicappend m da) sa) [pri, 0, 0, 0]) data =
      rtw_secmicappend m (da @ sa @ [pri, 0, 0, 0] @ data)" for m
    by (simp only: append_append)
  with assms getmic_michael [OF assms(1), of junk "da @ sa @ [pri, 0, 0, 0] @ data"] show ?thesis
    by (auto simp: rtw_seccalctkipmic_def Let_def split: if_splits)
qed

theorem calctkipmic_is_michael_witness:
  "rtw_seccalctkipmic \<lparr>mic_K0 = 1, mic_K1 = 2, mic_L = 3, mic_R = 4, mic_M = 5, nBytesInM = 6\<rparr> (replicate 8 0)
     ([8, 1] @ replicate 22 9) [1, 2, 3] 7 =
   Some (michael (replicate 8 0) (replicate 6 9 @ replicate 6 9 @ [7, 0, 0, 0] @ [1, 2, 3]))"
  by (rule calctkipmic_is_michael) (simp_all add: mem_get_def numeral_eq_Suc)

text \<open>
  C25: For a fixed temporal key the RC4 key of a frame determines transmitter address and packet number:
  frames with different packet numbers, or of different transmitters, are never encrypted with the same
  RC4 key.
\<close>

theorem tkip_rc4key_unique:
  assumes "phase2 tk (phase1 tk ta iv32) iv16 = phase2 tk (phase1 tk ta' iv32') iv16'"
    and "length ta = 6" and "length ta' = 6"
  shows "ta = ta' \<and> iv32 = iv32' \<and> iv16 = iv16'"
  using phase2_inj [OF assms(1)] phase1_inj [OF _ assms(2,3)] by blast

theorem tkip_rc4key_unique_witness:
  "phase2 (replicate 16 3) (phase1 (replicate 16 3) (replicate 6 1) 0) 5 \<noteq>
   phase2 (replicate 16 3) (phase1 (replicate 16 3) (replicate 6 1) 0) 6"
proof
  assume "phase2 (replicate 16 3) (phase1 (replicate 16 3) (replicate 6 1) 0) 5 =
   phase2 (replicate 16 3) (phase1 (replicate 16 3) (replicate 6 1) 0) 6"
  from tkip_rc4key_unique [OF this] show False by simp
qed

text \<open>
  C23: TKIP round trip. Every fragment of a frame that software encryption processed is accepted by
  software decryption at a receiver that holds the same key (pairwise or group), and header, IV and
  payload are the sender's again.
\<close>

theorem tkip_roundtrip:
  assumes icv: "xf_icv_len xf = 4" "8 \<le> unat (xf_iv_len xf)"
    and frags: "\<forall>fs \<in> set (xf_frags xf). wep_frag_ok xf fs" "unat (xf_nr_frags xf) = length (xf_frags xf)"
    and peer: "tkip_peer sec xf sec' stainfo rf"
  shows "\<exists>fr. rtw_tkip_encrypt sec xf = Some (True, xf\<lparr>xf_frags := fr\<rparr>) \<and> length fr = length (xf_frags xf) \<and>
    (\<forall>j < length fr. snd (fr ! j) = snd (xf_frags xf ! j) \<and>
      (\<exists>g. rtw_tkip_decrypt sec' stainfo (rf\<lparr>rf_data := fst (fr ! j), rf_len := ucast (snd (fr ! j))\<rparr>) =
         Some (True, rf\<lparr>rf_data := g, rf_len := ucast (snd (fr ! j))\<rparr>) \<and>
         mem_put (fst (xf_frags xf ! j)) (unat (xf_iv_len xf) + unat (xf_hdrlen xf))
           (wep_payload xf (xf_frags xf ! j) @ le32 (getcrc32 (wep_payload xf (xf_frags xf ! j)))) = Some g))"
proof -
  let ?fr = "xf_frags xf" and ?tk = "tkip_key sec xf"
  let ?off = "unat (xf_iv_len xf) + unat (xf_hdrlen xf)"
  have "\<exists>f'. tkip_encrypt_frag ?tk xf (fst (?fr ! j)) (ucast (snd (?fr ! j))) = Some f' \<and>
      (\<exists>g. rtw_tkip_decrypt sec' stainfo (rf\<lparr>rf_data := f', rf_len := ucast (snd (?fr ! j))\<rparr>) =
         Some (True, rf\<lparr>rf_data := g, rf_len := ucast (snd (?fr ! j))\<rparr>) \<and>
         mem_put (fst (?fr ! j)) ?off (wep_payload xf (?fr ! j) @ le32 (getcrc32 (wep_payload xf (?fr ! j)))) = Some g)"
    if "j < length ?fr" for j
  proof -
    obtain f sz where fs: "?fr ! j = (f, sz)" by fastforce
    have ok: "wep_frag_ok xf (f, sz)" using frags(1) that fs nth_mem by metis
    from tkip_frag_roundtrip [OF ok icv peer] show ?thesis unfolding fs by (metis fst_conv snd_conv)
  qed
  then obtain e where e: "\<And>j. j < length ?fr \<Longrightarrow>
      tkip_encrypt_frag ?tk xf (fst (?fr ! j)) (ucast (snd (?fr ! j))) = Some (e j) \<and>
      (\<exists>g. rtw_tkip_decrypt sec' stainfo (rf\<lparr>rf_data := e j, rf_len := ucast (snd (?fr ! j))\<rparr>) =
         Some (True, rf\<lparr>rf_data := g, rf_len := ucast (snd (?fr ! j))\<rparr>) \<and>
         mem_put (fst (?fr ! j)) ?off (wep_payload xf (?fr ! j) @ le32 (getcrc32 (wep_payload xf (?fr ! j)))) = Some g)"
    by metis
  from encrypt_frags_all [of 0 "length ?fr" "tkip_encrypt_frag ?tk xf" ?fr e] e obtain fr where
    fr: "encrypt_frags (tkip_encrypt_frag ?tk xf) ?fr 0 (length ?fr) = Some fr" "length fr = length ?fr"
      "\<forall>j < length fr. fr ! j = (e j, snd (?fr ! j))"
    by auto
  have "rtw_tkip_encrypt sec xf = Some (True, xf\<lparr>xf_frags := fr\<rparr>)"
    using peer fr(1) frags(2) unfolding rtw_tkip_encrypt_def tkip_peer_def tkip_key_def by (simp add: Let_def split: if_splits)
  with fr e show ?thesis by (intro exI [of _ fr]) auto
qed

theorem tkip_roundtrip_witness:
  "\<exists>fr. rtw_tkip_encrypt demo_sec (demo_xf\<lparr>xf_encrypt := TKIP, xf_iv_len := 8, xf_UncstKey := replicate 16 5\<rparr>) =
     Some (True, demo_xf\<lparr>xf_encrypt := TKIP, xf_iv_len := 8, xf_UncstKey := replicate 16 5, xf_frags := fr\<rparr>)"
proof -
  let ?xf = "demo_xf\<lparr>xf_encrypt := TKIP, xf_iv_len := 8, xf_UncstKey := replicate 16 5\<rparr>"
  have "xf_icv_len ?xf = 4" "8 \<le> unat (xf_iv_len ?xf)" "\<forall>fs \<in> set (xf_frags ?xf). wep_frag_ok ?xf fs"
    "unat (xf_nr_frags ?xf) = length (xf_frags ?xf)"
    "tkip_peer demo_sec ?xf demo_sec (Some (replicate 16 5)) (demo_rf\<lparr>rf_encrypt := TKIP, rf_iv_len := 8\<rparr>)"
    by (simp_all add: demo_xf_def demo_rf_def wep_frag_ok_def tkip_peer_def tkip_key_def)
  from tkip_roundtrip [OF this] show ?thesis by auto
qed

end
