(* ===== verification/Rtw_Ie.thy ===== *)
theory Rtw_Ie
  imports Rtw_Mem "HOL-Library.Monad_Syntax"
begin

text \<open>
  Information elements, \<^verbatim>\<open>core/rtw_ieee80211.c\<close>: writing, finding and removing elements of a
  management frame. A search returns the offset of what it found; \<open>None\<close> on the outside is an access
  outside of the buffer. Lengths stay below \<open>2 ^ 32 - 257\<close>, so that the 32-bit counters do not wrap.
\<close>

definition mem_byte :: "bytes \<Rightarrow> nat \<Rightarrow> u8 option" where
  "mem_byte m i = (if i < length m then Some (m ! i) else None)"

section \<open>Writing and finding\<close>

text \<open>\<^verbatim>\<open>rtw_set_ie\<close>: the buffer and the offset behind the element.\<close>

definition rtw_set_ie :: "bytes \<Rightarrow> nat \<Rightarrow> int \<Rightarrow> u32 \<Rightarrow> bytes \<Rightarrow> u32 \<Rightarrow> (bytes \<times> nat \<times> u32) option" where
  "rtw_set_ie m pbuf index len source frlen =
     do {
       m \<leftarrow> mem_put m pbuf [word_of_int index];
       m \<leftarrow> mem_put m (pbuf + 1) [ucast len];
       src \<leftarrow> mem_get source 0 (unat len);
       m \<leftarrow> (if len > 0 then mem_put m (pbuf + 2) src else Some m);
       Some (m, pbuf + unat len + 2, frlen + (len + 2))
     }"

definition rtw_update_ie :: "bytes \<Rightarrow> nat \<Rightarrow> u8 \<Rightarrow> u8 \<Rightarrow> bytes \<Rightarrow> (nat option \<times> bytes) option" where
  "rtw_update_ie m pbuf eid content_len content =
     do {
       i \<leftarrow> mem_byte m pbuf;
       if i \<noteq> eid then Some (None, m)
       else do {
         l \<leftarrow> mem_byte m (pbuf + 1);
         if l \<noteq> content_len then Some (None, m)
         else do {
           src \<leftarrow> mem_get content 0 (unat content_len);
           m \<leftarrow> mem_put m (pbuf + 2) src;
           Some (Some (pbuf + unat content_len + 2), m)
         }
       }
     }"

function get_ie_loop :: "bytes \<Rightarrow> int \<Rightarrow> nat \<Rightarrow> int \<Rightarrow> (nat \<times> u8) option option" where
  "get_ie_loop m index i limit =
     (if i + 1 < length m then
        if uint (m ! i) = index then Some (Some (i, m ! (i + 1)))
        else
          let i = i + unat (m ! (i + 1)) + 2 in
          if int i \<ge> limit then Some None else get_ie_loop m index i limit
      else None)"
  by pat_completeness auto
termination
  by (relation "measure (\<lambda>(m, index, i, limit). length m - i)") auto

declare get_ie_loop.simps [simp del]

text \<open>The element's offset and length, or nothing.\<close>

definition rtw_get_ie :: "bytes \<Rightarrow> int \<Rightarrow> int \<Rightarrow> (nat \<times> u8) option option" where
  "rtw_get_ie m index limit = (if limit < 1 then Some None else get_ie_loop m index 0 limit)"

text \<open>
  \<^verbatim>\<open>rtw_get_ie_ex\<close> with the length wanted: offset and length of the whole element. An OUI of a
  matching element is compared over its full length, wherever the element ends.
\<close>

definition oui_match :: "bytes \<Rightarrow> nat \<Rightarrow> bytes option \<Rightarrow> bool option" where
  "oui_match m off oui =
     (case oui of None \<Rightarrow> Some True | Some os \<Rightarrow> map_option (\<lambda>bs. bs = os) (mem_get m off (length os)))"

function get_ie_ex_loop :: "bytes \<Rightarrow> nat \<Rightarrow> u8 \<Rightarrow> bytes option \<Rightarrow> nat \<Rightarrow> (nat \<times> nat) option option" where
  "get_ie_ex_loop m in_len eid oui cnt =
     (if cnt < in_len then
        if cnt + 1 < length m then
          case (if m ! cnt = eid then oui_match m (cnt + 2) oui else Some False) of
            None \<Rightarrow> None
          | Some True \<Rightarrow> Some (Some (cnt, unat (m ! (cnt + 1)) + 2))
          | Some False \<Rightarrow> get_ie_ex_loop m in_len eid oui (cnt + unat (m ! (cnt + 1)) + 2)
        else None
      else Some None)"
  by pat_completeness auto
termination
  by (relation "measure (\<lambda>(m, in_len, eid, oui, cnt). in_len - cnt)") auto

declare get_ie_ex_loop.simps [simp del]

definition rtw_get_ie_ex :: "bytes \<Rightarrow> nat \<Rightarrow> u8 \<Rightarrow> bytes option \<Rightarrow> (nat \<times> nat) option option" where
  "rtw_get_ie_ex m in_len eid oui = get_ie_ex_loop m in_len eid oui 0"

text \<open>
  The loop of \<^verbatim>\<open>rtw_ies_remove_ie\<close> with \<open>start\<close> and \<open>search_len\<close>. An element that ends
  behind the search range makes the remaining length wrap to nearly \<open>2 ^ 32\<close>, and the move runs
  off the buffer.
\<close>

function remove_ie_loop ::
  "bytes \<Rightarrow> nat \<Rightarrow> nat \<Rightarrow> nat \<Rightarrow> u8 \<Rightarrow> bytes option \<Rightarrow> bool \<Rightarrow> (bool \<times> bytes \<times> nat) option" where
  "remove_ie_loop ies ies_len start search_len eid oui ret =
     (case rtw_get_ie_ex (drop start ies) search_len eid oui of
        None \<Rightarrow> None
      | Some None \<Rightarrow> Some (ret, ies, ies_len)
      | Some (Some (pos, ielen)) \<Rightarrow>
          if 0 < ielen then
            if pos + ielen \<le> search_len then
              let remain_len = search_len - (pos + ielen) in
              case mem_get ies (start + pos + ielen) remain_len of
                None \<Rightarrow> None
              | Some remain_ies \<Rightarrow>
                  (case mem_put ies (start + pos) remain_ies of
                     None \<Rightarrow> None
                   | Some ies \<Rightarrow> remove_ie_loop ies (ies_len - ielen) (start + pos) remain_len eid oui True)
            else None
          else Some (ret, ies, ies_len))"
  by pat_completeness auto
termination
  by (relation "measure (\<lambda>(ies, ies_len, start, search_len, eid, oui, ret). search_len)") auto

declare remove_ie_loop.simps [simp del]

definition rtw_ies_remove_ie :: "bytes \<Rightarrow> nat \<Rightarrow> nat \<Rightarrow> u8 \<Rightarrow> bytes option \<Rightarrow> (bool \<times> bytes \<times> nat) option" where
  "rtw_ies_remove_ie ies ies_len offset eid oui =
     (if ies_len \<le> offset then Some (False, ies, ies_len)
      else remove_ie_loop ies ies_len offset (ies_len - offset) eid oui False)"

section \<open>Elements\<close>

text \<open>What the buffers contain: a sequence of elements, each with an identifier and its content.\<close>

type_synonym elem = "u8 \<times> bytes"

definition enc_elem :: "elem \<Rightarrow> bytes" where
  "enc_elem e = fst e # of_nat (length (snd e)) # snd e"

definition enc_elems :: "elem list \<Rightarrow> bytes" where
  "enc_elems es = concat (map enc_elem es)"

definition elem_ok :: "elem \<Rightarrow> bool" where
  "elem_ok e \<longleftrightarrow> length (snd e) \<le> 255"

text \<open>The first element that satisfies a predicate, and its offset.\<close>

fun elem_at :: "(elem \<Rightarrow> bool) \<Rightarrow> elem list \<Rightarrow> (nat \<times> elem) option" where
  "elem_at P [] = None"
| "elem_at P (e # es) =
     (if P e then Some (0, e) else map_option (\<lambda>(k, e'). (length (enc_elem e) + k, e')) (elem_at P es))"

lemma length_enc_elem [simp]: "length (enc_elem e) = length (snd e) + 2"
  by (simp add: enc_elem_def)

lemma enc_elems_simps [simp]:
  "enc_elems [] = []" "enc_elems (e # es) = enc_elem e @ enc_elems es" "enc_elems (es @ fs) = enc_elems es @ enc_elems fs"
  by (simp_all add: enc_elems_def)

text \<open>Reading at the start of an element.\<close>

lemma elem_bytes:
  assumes "elem_ok e"
  shows "(pre @ enc_elem e @ post) ! length pre = fst e"
    "unat ((pre @ enc_elem e @ post) ! (length pre + 1)) = length (snd e)"
  using assms by (auto simp: enc_elem_def nth_append elem_ok_def unat_of_nat)

lemma get_ie_loop_elems:
  assumes "\<forall>e \<in> set es. elem_ok e" and "es \<noteq> []"
  shows "get_ie_loop (pre @ enc_elems es @ post) index (length pre) (int (length pre + length (enc_elems es))) =
    Some (map_option (\<lambda>(k, e). (length pre + k, of_nat (length (snd e)))) (elem_at (\<lambda>e. uint (fst e) = index) es))"
  using assms
proof (induction es arbitrary: pre)
  case (Cons e es)
  let ?m = "pre @ enc_elems (e # es) @ post"
  have m: "?m = pre @ enc_elem e @ (enc_elems es @ post)" by simp
  have ok: "elem_ok e" using Cons.prems by simp
  note B = elem_bytes [OF ok, of pre "enc_elems es @ post", folded m]
  have len: "length pre + 1 < length ?m" by simp
  have l: "?m ! (length pre + 1) = of_nat (length (snd e))"
    using B(2) by (metis of_nat_unat ucast_id)
  have m2: "?m = (pre @ enc_elem e) @ enc_elems es @ post" by simp
  have n: "length pre + length (snd e) + 2 = length (pre @ enc_elem e)" by simp
  have lim: "int (length pre + length (enc_elems (e # es))) = int (length (pre @ enc_elem e) + length (enc_elems es))" by simp
  show ?case
  proof (cases "uint (fst e) = index")
    case True
    then show ?thesis using B(1) l len by (subst get_ie_loop.simps) simp
  next
    case False
    have step: "get_ie_loop ?m index (length pre) L =
        (if int (length (pre @ enc_elem e)) \<ge> L then Some None else get_ie_loop ?m index (length (pre @ enc_elem e)) L)" for L
      using B len False by (subst get_ie_loop.simps) (simp add: Let_def)
    show ?thesis
    proof (cases es)
      case Nil
      then show ?thesis unfolding step using False by simp
    next
      case (Cons f fs)
      then have "es \<noteq> []" by simp
      from Cons.IH [OF _ this, of "pre @ enc_elem e"] Cons.prems
      have "get_ie_loop ?m index (length (pre @ enc_elem e)) (int (length pre + length (enc_elems (e # es)))) =
        Some (map_option (\<lambda>(k, e'). (length (pre @ enc_elem e) + k, of_nat (length (snd e')))) (elem_at (\<lambda>e. uint (fst e) = index) es))"
        unfolding lim m2 by simp
      then show ?thesis unfolding step using False \<open>es \<noteq> []\<close> Cons
        by (simp add: option.map_comp comp_def case_prod_unfold ac_simps)
    qed
  qed
qed simp

text \<open>
  The elements a search with an OUI is meant for. An element with the identifier has to be as long as
  the OUI: the comparison would read on into the next element.
\<close>

definition elem_match :: "u8 \<Rightarrow> bytes option \<Rightarrow> elem \<Rightarrow> bool" where
  "elem_match eid oui e \<longleftrightarrow> fst e = eid \<and> (case oui of None \<Rightarrow> True | Some os \<Rightarrow> take (length os) (snd e) = os)"

definition elem_long :: "u8 \<Rightarrow> bytes option \<Rightarrow> elem \<Rightarrow> bool" where
  "elem_long eid oui e \<longleftrightarrow>
     elem_ok e \<and> (fst e = eid \<longrightarrow> (case oui of None \<Rightarrow> True | Some os \<Rightarrow> length os \<le> length (snd e)))"

lemma elem_match_code:
  assumes "elem_long eid oui e"
  shows "(if fst e = eid then oui_match (pre @ enc_elem e @ post) (length pre + 2) oui else Some False) =
    Some (elem_match eid oui e)"
proof -
  have "mem_get (pre @ enc_elem e @ post) (length pre + 2) (length os) = Some (take (length os) (snd e))"
    if "length os \<le> length (snd e)" for os :: bytes
    using that by (simp add: mem_get_def enc_elem_def)
  with assms show ?thesis by (auto simp: oui_match_def elem_match_def elem_long_def split: option.splits)
qed

lemma get_ie_ex_elems:
  assumes "\<forall>e \<in> set es. elem_long eid oui e"
  shows "get_ie_ex_loop (pre @ enc_elems es @ post) (length pre + length (enc_elems es)) eid oui (length pre) =
    Some (map_option (\<lambda>(k, e). (length pre + k, length (snd e) + 2)) (elem_at (elem_match eid oui) es))"
  using assms
proof (induction es arbitrary: pre)
  case Nil
  then show ?case by (simp add: get_ie_ex_loop.simps)
next
  case (Cons e es)
  let ?m = "pre @ enc_elems (e # es) @ post" and ?n = "length pre + length (enc_elems (e # es))"
  have m: "?m = pre @ enc_elem e @ (enc_elems es @ post)" by simp
  have long: "elem_long eid oui e" and ok: "elem_ok e" using Cons.prems by (simp_all add: elem_long_def)
  note B = elem_bytes [OF ok, of pre "enc_elems es @ post", folded m]
  note M = elem_match_code [OF long, of pre "enc_elems es @ post", folded m]
  have n: "?n = length (pre @ enc_elem e) + length (enc_elems es)" by simp
  have m2: "?m = (pre @ enc_elem e) @ enc_elems es @ post" by simp
  have "get_ie_ex_loop ?m ?n eid oui (length (pre @ enc_elem e)) =
      Some (map_option (\<lambda>(k, e'). (length (pre @ enc_elem e) + k, length (snd e') + 2)) (elem_at (elem_match eid oui) es))"
    unfolding n m2 by (rule Cons.IH) (use Cons.prems in simp)
  moreover have "get_ie_ex_loop ?m ?n eid oui (length pre) =
      (if elem_match eid oui e then Some (Some (length pre, length (snd e) + 2))
       else get_ie_ex_loop ?m ?n eid oui (length (pre @ enc_elem e)))"
    using B M by (subst get_ie_ex_loop.simps) (simp add: ac_simps)
  ultimately show ?case by (simp add: option.map_comp comp_def case_prod_unfold ac_simps)
qed

lemma elem_at_split:
  assumes "elem_at P es = Some (k, e)"
  shows "\<exists>xs ys. es = xs @ e # ys \<and> k = length (enc_elems xs) \<and> P e \<and> (\<forall>x \<in> set xs. \<not> P x)"
  using assms
proof (induction es arbitrary: k)
  case (Cons f es)
  show ?case
  proof (cases "P f")
    case True
    with Cons.prems show ?thesis by (intro exI [of _ "[]"] exI [of _ es]) auto
  next
    case False
    with Cons.prems obtain k' where k': "elem_at P es = Some (k', e)" "k = length (enc_elem f) + k'" by auto
    from Cons.IH [OF k'(1)] obtain xs ys where "es = xs @ e # ys" "k' = length (enc_elems xs)" "P e" "\<forall>x \<in> set xs. \<not> P x"
      by blast
    with False k'(2) show ?thesis by (intro exI [of _ "f # xs"] exI [of _ ys]) auto
  qed
qed simp

lemma elem_at_None: "elem_at P es = None \<longleftrightarrow> (\<forall>e \<in> set es. \<not> P e)"
  by (induction es) auto

text \<open>The loop removes the matching elements from where it starts; \<open>tail\<close> is whatever lies behind.\<close>

lemma remove_ie_loop_filters:
  assumes "\<forall>e \<in> set es. elem_long eid oui e"
  shows "\<exists>tail'. remove_ie_loop (pre @ enc_elems es @ tail) (length pre + length (enc_elems es)) (length pre)
       (length (enc_elems es)) eid oui ret =
     Some (ret \<or> (\<exists>e \<in> set es. elem_match eid oui e),
       pre @ enc_elems (filter (\<lambda>e. \<not> elem_match eid oui e) es) @ tail',
       length pre + length (enc_elems (filter (\<lambda>e. \<not> elem_match eid oui e) es)))"
  using assms
proof (induction "length es" arbitrary: es pre tail ret rule: less_induct)
  case less
  let ?P = "elem_match eid oui"
  have search: "rtw_get_ie_ex (enc_elems es @ tail) (length (enc_elems es)) eid oui =
      Some (map_option (\<lambda>(k, e). (k, length (snd e) + 2)) (elem_at ?P es))"
    using get_ie_ex_elems [OF less.prems, of "[]" tail] by (simp add: rtw_get_ie_ex_def)
  show ?case
  proof (cases "elem_at ?P es")
    case None
    then have "filter (\<lambda>e. \<not> ?P e) es = es" "\<not> (\<exists>e \<in> set es. ?P e)" by (auto simp: elem_at_None)
    with None search show ?thesis by (subst remove_ie_loop.simps) simp
  next
    case (Some ke)
    obtain k e where ke: "ke = (k, e)" by (cases ke)
    from elem_at_split [of ?P es k e] Some ke obtain xs ys where
      es: "es = xs @ e # ys" "k = length (enc_elems xs)" "?P e" "\<forall>x \<in> set xs. \<not> ?P x" by blast
    let ?ies = "pre @ enc_elems es @ tail"
    let ?tail = "drop (length pre + k + length (enc_elems ys)) ?ies"
    have get: "mem_get ?ies (length pre + k + (length (snd e) + 2)) (length (enc_elems ys)) = Some (enc_elems ys)"
      by (simp add: mem_get_def es(1,2))
    have put: "mem_put ?ies (length pre + k) (enc_elems ys) = Some ((pre @ enc_elems xs) @ enc_elems ys @ ?tail)"
      by (simp add: mem_put_def es(1,2))
    have len: "length (enc_elems es) - (k + (length (snd e) + 2)) = length (enc_elems ys)"
      "k + (length (snd e) + 2) \<le> length (enc_elems es)"
      "length pre + length (enc_elems es) - (length (snd e) + 2) = length (pre @ enc_elems xs) + length (enc_elems ys)"
      by (simp_all add: es(1,2))
    have "remove_ie_loop ?ies (length pre + length (enc_elems es)) (length pre) (length (enc_elems es)) eid oui ret =
        remove_ie_loop ((pre @ enc_elems xs) @ enc_elems ys @ ?tail) (length (pre @ enc_elems xs) + length (enc_elems ys))
          (length (pre @ enc_elems xs)) (length (enc_elems ys)) eid oui True"
      using search Some ke get put len by (subst remove_ie_loop.simps) (simp add: es(2) Let_def)
    moreover have "\<exists>tail'. remove_ie_loop ((pre @ enc_elems xs) @ enc_elems ys @ ?tail)
          (length (pre @ enc_elems xs) + length (enc_elems ys)) (length (pre @ enc_elems xs)) (length (enc_elems ys)) eid oui True =
        Some (True \<or> (\<exists>e \<in> set ys. ?P e), (pre @ enc_elems xs) @ enc_elems (filter (\<lambda>e. \<not> ?P e) ys) @ tail',
          length (pre @ enc_elems xs) + length (enc_elems (filter (\<lambda>e. \<not> ?P e) ys)))"
      by (rule less.hyps) (use less.prems es(1) in auto)
    moreover have "filter (\<lambda>e. \<not> ?P e) es = xs @ filter (\<lambda>e. \<not> ?P e) ys" using es by simp
    ultimately show ?thesis using es by auto
  qed
qed

section \<open>Properties\<close>

text \<open>
  C20: Removing elements. On a buffer that holds whole elements behind \<open>offset\<close> bytes,
  \<^verbatim>\<open>rtw_ies_remove_ie\<close> takes out every element with the given identifier and OUI, wherever they
  stand and however many there are, keeps the others and what precedes them in order, reports the
  new length, and answers success exactly when an element was taken out.
\<close>

theorem ies_remove_filters:
  assumes "\<forall>e \<in> set es. elem_long eid oui e"
  shows "\<exists>tail'. rtw_ies_remove_ie (pre @ enc_elems es @ tail) (length pre + length (enc_elems es)) (length pre) eid oui =
    Some (\<exists>e \<in> set es. elem_match eid oui e,
      pre @ enc_elems (filter (\<lambda>e. \<not> elem_match eid oui e) es) @ tail',
      length pre + length (enc_elems (filter (\<lambda>e. \<not> elem_match eid oui e) es)))"
proof (cases "enc_elems es = []")
  case True
  then have "es = []" by (cases es) (simp_all add: enc_elem_def)
  then show ?thesis by (simp add: rtw_ies_remove_ie_def)
next
  case False
  then show ?thesis using remove_ie_loop_filters [OF assms, of pre tail False] by (simp add: rtw_ies_remove_ie_def)
qed

theorem ies_remove_filters_witness:
  "\<exists>tail'. rtw_ies_remove_ie ([7] @ enc_elems [(221, [0, 80, 242, 4]), (1, [2]), (221, [0, 80, 242, 2])] @ [9]) 16 1 221
      (Some [0, 80, 242, 4]) = Some (True, 7 # enc_elems [(1, [2]), (221, [0, 80, 242, 2])] @ tail', 10)"
  using ies_remove_filters [of "[(221, [0, 80, 242, 4]), (1, [2]), (221, [0, 80, 242, 2])]" 221 "Some [0, 80, 242, 4]" "[7]" "[9]"]
  by (simp add: elem_long_def elem_match_def elem_ok_def) (simp add: eval_nat_numeral)

lemma rtw_set_ie_enc:
  assumes "length src \<le> 255" and "length src + 2 \<le> length free"
  shows "rtw_set_ie (pre @ free) (length pre) (uint eid) (of_nat (length src)) src frlen =
    Some (pre @ enc_elem (eid, src) @ drop (length src + 2) free, length pre + length src + 2, frlen + of_nat (length src + 2))"
proof -
  obtain a b rest where free: "free = a # b # rest" "length src \<le> length rest"
    using assms(2) by (cases free; cases "tl free") auto
  have n: "unat (of_nat (length src) :: u32) = length src" using assms(1) by (simp add: unat_of_nat)
  have c: "ucast (of_nat (length src) :: u32) = (of_nat (length src) :: u8)"
    by (simp add: unsigned_of_nat word_unat_eq_iff unat_of_nat take_bit_eq_mod mod_mod_cancel)
  have e: "src = []" if "(of_nat (length src) :: u32) = 0"
    using that n by simp
  show ?thesis
    using free n c e
    by (auto simp: rtw_set_ie_def mem_put_def mem_get_def enc_elem_def word_neq_0_conv [symmetric] algebra_simps)
qed

lemma elem_at_last: "\<forall>e \<in> set es. \<not> P e \<Longrightarrow> P f \<Longrightarrow> elem_at P (es @ [f]) = Some (length (enc_elems es), f)"
  by (induction es) auto

text \<open>
  Round trip. An element that \<^verbatim>\<open>rtw_set_ie\<close> appends to whole elements, none of which has its
  identifier, is the one \<^verbatim>\<open>rtw_get_ie\<close> finds over the new frame length, with its length and
  content; what was written before is untouched.
\<close>

theorem set_get_ie_roundtrip:
  assumes "\<forall>e \<in> set es. elem_ok e \<and> fst e \<noteq> eid" and "length src \<le> 255" and "length src + 2 \<le> length free"
  shows "\<exists>m'. rtw_set_ie (enc_elems es @ free) (length (enc_elems es)) (uint eid) (of_nat (length src)) src frlen =
      Some (m', length (enc_elems es) + length src + 2, frlen + of_nat (length src + 2)) \<and>
    rtw_get_ie m' (uint eid) (int (length (enc_elems es) + length src + 2)) =
      Some (Some (length (enc_elems es), of_nat (length src))) \<and>
    mem_get m' (length (enc_elems es) + 2) (length src) = Some src \<and>
    take (length (enc_elems es)) m' = enc_elems es"
proof -
  let ?m = "enc_elems es @ enc_elem (eid, src) @ drop (length src + 2) free"
  let ?P = "\<lambda>e :: elem. uint (fst e) = uint eid"
  have "elem_at ?P (es @ [(eid, src)]) = Some (length (enc_elems es), (eid, src))"
    by (rule elem_at_last) (use assms(1) in \<open>auto simp: word_uint_eq_iff\<close>)
  moreover have "\<forall>e \<in> set (es @ [(eid, src)]). elem_ok e" using assms by (auto simp: elem_ok_def)
  ultimately have "rtw_get_ie ?m (uint eid) (int (length (enc_elems es) + length src + 2)) =
      Some (Some (length (enc_elems es), of_nat (length src)))"
    using get_ie_loop_elems [of "es @ [(eid, src)]" "[]" "drop (length src + 2) free" "uint eid"]
    by (simp add: rtw_get_ie_def algebra_simps)
  then show ?thesis
    using rtw_set_ie_enc [OF assms(2,3), of "enc_elems es" eid frlen]
    by (intro exI [of _ ?m]) (simp add: mem_get_def enc_elem_def)
qed

theorem set_get_ie_roundtrip_witness:
  "\<exists>m'. rtw_set_ie (enc_elems [(1, [2]), (3, [6])] @ replicate 8 0) 6 48 2 [1, 0] 100 = Some (m', 10, 104) \<and>
    rtw_get_ie m' 48 10 = Some (Some (6, 2)) \<and> mem_get m' 8 2 = Some [1, 0] \<and>
    take 6 m' = enc_elems [(1, [2]), (3, [6])]"
  using set_get_ie_roundtrip [of "[(1, [2]), (3, [6])]" 48 "[1, 0]" "replicate 8 0" 100]
  by (simp add: elem_ok_def) (simp add: eval_nat_numeral)

end
