(* ===== verification/Rtw_Rsn.thy ===== *)
theory Rtw_Rsn
  imports Rtw_Ie
begin

text \<open>
  Security elements, \<^verbatim>\<open>core/rtw_ieee80211.c\<close>: the suite tables, the parsers of the WPA and of the
  RSN element, and the search for an attribute of a WPS element. As in \<open>Rtw_Ie\<close> pointers are offsets
  and \<open>None\<close> on the outside is an access outside of the buffer.
\<close>

definition RTW_GET_LE16 :: "bytes \<Rightarrow> nat \<Rightarrow> u16 option" where
  "RTW_GET_LE16 m a =
     do { b0 \<leftarrow> mem_byte m a; b1 \<leftarrow> mem_byte m (a + 1); Some (push_bit 8 (ucast b1) OR ucast b0) }"

definition RTW_GET_BE16 :: "bytes \<Rightarrow> nat \<Rightarrow> u16 option" where
  "RTW_GET_BE16 m a =
     do { b0 \<leftarrow> mem_byte m a; b1 \<leftarrow> mem_byte m (a + 1); Some (push_bit 8 (ucast b0) OR ucast b1) }"

section \<open>Suites\<close>

abbreviation WPA_CIPHER_NONE :: u32 where "WPA_CIPHER_NONE \<equiv> 1"
abbreviation WPA_CIPHER_WEP40 :: u32 where "WPA_CIPHER_WEP40 \<equiv> 2"
abbreviation WPA_CIPHER_WEP104 :: u32 where "WPA_CIPHER_WEP104 \<equiv> 4"
abbreviation WPA_CIPHER_TKIP :: u32 where "WPA_CIPHER_TKIP \<equiv> 8"
abbreviation WPA_CIPHER_CCMP :: u32 where "WPA_CIPHER_CCMP \<equiv> 16"
abbreviation WPA_CIPHER_GCMP :: u32 where "WPA_CIPHER_GCMP \<equiv> 32"
abbreviation WPA_CIPHER_GCMP_256 :: u32 where "WPA_CIPHER_GCMP_256 \<equiv> 64"
abbreviation WPA_CIPHER_CCMP_256 :: u32 where "WPA_CIPHER_CCMP_256 \<equiv> 128"
abbreviation WPA_CIPHER_BIP_CMAC_128 :: u32 where "WPA_CIPHER_BIP_CMAC_128 \<equiv> 256"
abbreviation WPA_CIPHER_BIP_GMAC_128 :: u32 where "WPA_CIPHER_BIP_GMAC_128 \<equiv> 512"
abbreviation WPA_CIPHER_BIP_GMAC_256 :: u32 where "WPA_CIPHER_BIP_GMAC_256 \<equiv> 1024"
abbreviation WPA_CIPHER_BIP_CMAC_256 :: u32 where "WPA_CIPHER_BIP_CMAC_256 \<equiv> 2048"

text \<open>The first selector that matches gives the cipher; an unknown selector gives zero.\<close>

definition rtw_get_wpa_cipher_suite :: "bytes \<Rightarrow> u32" where
  "rtw_get_wpa_cipher_suite s =
     (if s = [0x00, 0x50, 0xf2, 0] then WPA_CIPHER_NONE
      else if s = [0x00, 0x50, 0xf2, 1] then WPA_CIPHER_WEP40
      else if s = [0x00, 0x50, 0xf2, 2] then WPA_CIPHER_TKIP
      else if s = [0x00, 0x50, 0xf2, 4] then WPA_CIPHER_CCMP
      else if s = [0x00, 0x50, 0xf2, 5] then WPA_CIPHER_WEP104
      else 0)"

definition rtw_get_rsn_cipher_suite :: "bytes \<Rightarrow> u32" where
  "rtw_get_rsn_cipher_suite s =
     (if s = [0x00, 0x0f, 0xac, 0] then WPA_CIPHER_NONE
      else if s = [0x00, 0x0f, 0xac, 1] then WPA_CIPHER_WEP40
      else if s = [0x00, 0x0f, 0xac, 2] then WPA_CIPHER_TKIP
      else if s = [0x00, 0x0f, 0xac, 4] then WPA_CIPHER_CCMP
      else if s = [0x00, 0x0f, 0xac, 8] then WPA_CIPHER_GCMP
      else if s = [0x00, 0x0f, 0xac, 9] then WPA_CIPHER_GCMP_256
      else if s = [0x00, 0x0f, 0xac, 10] then WPA_CIPHER_CCMP_256
      else if s = [0x00, 0x0f, 0xac, 5] then WPA_CIPHER_WEP104
      else if s = [0x00, 0x0f, 0xac, 6] then WPA_CIPHER_BIP_CMAC_128
      else if s = [0x00, 0x0f, 0xac, 11] then WPA_CIPHER_BIP_GMAC_128
      else if s = [0x00, 0x0f, 0xac, 12] then WPA_CIPHER_BIP_GMAC_256
      else if s = [0x00, 0x0f, 0xac, 13] then WPA_CIPHER_BIP_CMAC_256
      else 0)"

abbreviation WLAN_AKM_TYPE_8021X :: u32 where "WLAN_AKM_TYPE_8021X \<equiv> 1"
abbreviation WLAN_AKM_TYPE_PSK :: u32 where "WLAN_AKM_TYPE_PSK \<equiv> 2"
abbreviation WLAN_AKM_TYPE_FT_8021X :: u32 where "WLAN_AKM_TYPE_FT_8021X \<equiv> 4"
abbreviation WLAN_AKM_TYPE_FT_PSK :: u32 where "WLAN_AKM_TYPE_FT_PSK \<equiv> 8"
abbreviation WLAN_AKM_TYPE_8021X_SHA256 :: u32 where "WLAN_AKM_TYPE_8021X_SHA256 \<equiv> 16"
abbreviation WLAN_AKM_TYPE_PSK_SHA256 :: u32 where "WLAN_AKM_TYPE_PSK_SHA256 \<equiv> 32"
abbreviation WLAN_AKM_TYPE_TDLS :: u32 where "WLAN_AKM_TYPE_TDLS \<equiv> 64"
abbreviation WLAN_AKM_TYPE_SAE :: u32 where "WLAN_AKM_TYPE_SAE \<equiv> 128"
abbreviation WLAN_AKM_TYPE_FT_OVER_SAE :: u32 where "WLAN_AKM_TYPE_FT_OVER_SAE \<equiv> 256"
abbreviation WLAN_AKM_TYPE_8021X_SUITE_B :: u32 where "WLAN_AKM_TYPE_8021X_SUITE_B \<equiv> 512"
abbreviation WLAN_AKM_TYPE_8021X_SUITE_B_192 :: u32 where "WLAN_AKM_TYPE_8021X_SUITE_B_192 \<equiv> 1024"
abbreviation WLAN_AKM_TYPE_FILS_SHA256 :: u32 where "WLAN_AKM_TYPE_FILS_SHA256 \<equiv> 2048"
abbreviation WLAN_AKM_TYPE_FILS_SHA384 :: u32 where "WLAN_AKM_TYPE_FILS_SHA384 \<equiv> 4096"
abbreviation WLAN_AKM_TYPE_FT_FILS_SHA256 :: u32 where "WLAN_AKM_TYPE_FT_FILS_SHA256 \<equiv> 8192"
abbreviation WLAN_AKM_TYPE_FT_FILS_SHA384 :: u32 where "WLAN_AKM_TYPE_FT_FILS_SHA384 \<equiv> 16384"

definition rtw_get_akm_suite_bitmap :: "bytes \<Rightarrow> u32" where
  "rtw_get_akm_suite_bitmap s =
     (if s = [0x00, 0x0f, 0xac, 1] then WLAN_AKM_TYPE_8021X
      else if s = [0x00, 0x0f, 0xac, 2] then WLAN_AKM_TYPE_PSK
      else if s = [0x00, 0x0f, 0xac, 3] then WLAN_AKM_TYPE_FT_8021X
      else if s = [0x00, 0x0f, 0xac, 4] then WLAN_AKM_TYPE_FT_PSK
      else if s = [0x00, 0x0f, 0xac, 5] then WLAN_AKM_TYPE_8021X_SHA256
      else if s = [0x00, 0x0f, 0xac, 6] then WLAN_AKM_TYPE_PSK_SHA256
      else if s = [0x00, 0x0f, 0xac, 7] then WLAN_AKM_TYPE_TDLS
      else if s = [0x00, 0x0f, 0xac, 8] then WLAN_AKM_TYPE_SAE
      else if s = [0x00, 0x0f, 0xac, 9] then WLAN_AKM_TYPE_FT_OVER_SAE
      else if s = [0x00, 0x0f, 0xac, 11] then WLAN_AKM_TYPE_8021X_SUITE_B
      else if s = [0x00, 0x0f, 0xac, 12] then WLAN_AKM_TYPE_8021X_SUITE_B_192
      else if s = [0x00, 0x0f, 0xac, 14] then WLAN_AKM_TYPE_FILS_SHA256
      else if s = [0x00, 0x0f, 0xac, 15] then WLAN_AKM_TYPE_FILS_SHA384
      else if s = [0x00, 0x0f, 0xac, 16] then WLAN_AKM_TYPE_FT_FILS_SHA256
      else if s = [0x00, 0x0f, 0xac, 17] then WLAN_AKM_TYPE_FT_FILS_SHA384
      else 0)"

text \<open>The loops that collect the suites of a list, \<open>n\<close> selectors of four bytes from \<open>pos\<close>.\<close>

fun or_suites :: "(bytes \<Rightarrow> u32) \<Rightarrow> bytes \<Rightarrow> nat \<Rightarrow> nat \<Rightarrow> u32 \<Rightarrow> u32 option" where
  "or_suites f m pos 0 acc = Some acc"
| "or_suites f m pos (Suc n) acc = do { s \<leftarrow> mem_get m pos 4; or_suites f m (pos + 4) n (acc OR f s) }"

section \<open>The WPA element\<close>

text \<open>
  \<^verbatim>\<open>rtw_parse_wpa_ie\<close> with \<open>akm\<close> wanted: the result, and the three outputs, which start from
  what the caller has put there. The sections of the element are functions of their own.
\<close>

definition wpa_akm :: "bytes \<Rightarrow> nat \<Rightarrow> int \<Rightarrow> u32 \<Rightarrow> u32 \<Rightarrow> u32 \<Rightarrow> (bool \<times> u32 \<times> u32 \<times> u32) option" where
  "wpa_akm m pos left gc pc akm =
     (if left \<ge> 6 then do {
        s \<leftarrow> mem_get m (pos + 2) 4;
        Some (True, gc, pc, if s = [0x00, 0x50, 0xf2, 1] then WLAN_AKM_TYPE_8021X else akm)
      } else Some (True, gc, pc, akm))"

definition wpa_pairwise :: "bytes \<Rightarrow> nat \<Rightarrow> int \<Rightarrow> u32 \<Rightarrow> u32 \<Rightarrow> u32 \<Rightarrow> (bool \<times> u32 \<times> u32 \<times> u32) option" where
  "wpa_pairwise m pos left gc pc akm =
     (if left \<ge> 2 then do {
        count \<leftarrow> RTW_GET_LE16 m pos;
        if count = 0 \<or> left - 2 < uint count * 4 then Some (False, gc, pc, akm)
        else do {
          pc \<leftarrow> or_suites rtw_get_wpa_cipher_suite m (pos + 2) (unat count) pc;
          wpa_akm m (pos + 2 + 4 * unat count) (left - 2 - 4 * uint count) gc pc akm
        }
      } else if left = 1 then Some (False, gc, pc, akm)
      else wpa_akm m pos left gc pc akm)"

definition wpa_group :: "bytes \<Rightarrow> nat \<Rightarrow> int \<Rightarrow> u32 \<Rightarrow> u32 \<Rightarrow> u32 \<Rightarrow> (bool \<times> u32 \<times> u32 \<times> u32) option" where
  "wpa_group m pos left gc pc akm =
     (if left \<ge> 4 then do {
        s \<leftarrow> mem_get m pos 4;
        wpa_pairwise m (pos + 4) (left - 4) (rtw_get_wpa_cipher_suite s) pc akm
      } else if left > 0 then Some (False, gc, pc, akm)
      else wpa_pairwise m pos left gc pc akm)"

definition rtw_parse_wpa_ie :: "bytes \<Rightarrow> int \<Rightarrow> u32 \<Rightarrow> u32 \<Rightarrow> u32 \<Rightarrow> (bool \<times> u32 \<times> u32 \<times> u32) option" where
  "rtw_parse_wpa_ie m wpa_ie_len gc pc akm =
     (if wpa_ie_len \<le> 0 then Some (False, gc, pc, akm)
      else do {
        i \<leftarrow> mem_byte m 0;
        if i \<noteq> 0xdd then Some (False, gc, pc, akm)
        else do {
          l \<leftarrow> mem_byte m 1;
          if l \<noteq> word_of_int (wpa_ie_len - 2) then Some (False, gc, pc, akm)
          else do {
            s \<leftarrow> mem_get m 2 4;
            if s \<noteq> [0x00, 0x50, 0xf2, 1] then Some (False, gc, pc, akm)
            else wpa_group m 8 (wpa_ie_len - 8) gc pc akm
          }
        }
      })"

section \<open>The RSN element\<close>

record rsne_info =
  gcs :: "nat option"
  pcs_cnt :: u16
  pcs_list :: "nat option"
  akm_cnt :: u16
  akm_list :: "nat option"
  cap :: "nat option"
  pmkid_cnt :: u16
  pmkid_list :: "nat option"
  gmcs :: "nat option"
  err :: bool

definition rsne_info0 :: rsne_info where
  "rsne_info0 = \<lparr>gcs = None, pcs_cnt = 0, pcs_list = None, akm_cnt = 0, akm_list = None, cap = None,
     pmkid_cnt = 0, pmkid_list = None, gmcs = None, err = False\<rparr>"

text \<open>
  \<^verbatim>\<open>rtw_rsne_info_parse\<close>, a function per section. The element may end at the border of a section,
  also behind a list count that is not zero.
\<close>

definition rsne_end :: "nat \<Rightarrow> nat \<Rightarrow> rsne_info \<Rightarrow> bool \<times> rsne_info" where
  "rsne_end ie_len pos info = (if ie_len \<noteq> pos then (False, info\<lparr>err := True\<rparr>) else (True, info))"

definition rsne_gmcs :: "bytes \<Rightarrow> nat \<Rightarrow> nat \<Rightarrow> rsne_info \<Rightarrow> (bool \<times> rsne_info) option" where
  "rsne_gmcs m ie_len pos info =
     Some (if ie_len < pos + 4 then rsne_end ie_len pos info else (True, info\<lparr>gmcs := Some pos\<rparr>))"

definition rsne_pmkid :: "bytes \<Rightarrow> nat \<Rightarrow> nat \<Rightarrow> rsne_info \<Rightarrow> (bool \<times> rsne_info) option" where
  "rsne_pmkid m ie_len pos info =
     (if ie_len < pos + 2 then Some (rsne_end ie_len pos info)
      else do {
        cnt \<leftarrow> RTW_GET_LE16 m pos;
        if ie_len < pos + 2 + 16 * unat cnt then Some (False, info\<lparr>err := True\<rparr>)
        else rsne_gmcs m ie_len (pos + 2 + 16 * unat cnt) (info\<lparr>pmkid_cnt := cnt, pmkid_list := Some (pos + 2)\<rparr>)
      })"

definition rsne_cap :: "bytes \<Rightarrow> nat \<Rightarrow> nat \<Rightarrow> rsne_info \<Rightarrow> (bool \<times> rsne_info) option" where
  "rsne_cap m ie_len pos info =
     (if ie_len < pos + 2 then Some (rsne_end ie_len pos info)
      else rsne_pmkid m ie_len (pos + 2) (info\<lparr>cap := Some pos\<rparr>))"

definition rsne_akm :: "bytes \<Rightarrow> nat \<Rightarrow> nat \<Rightarrow> rsne_info \<Rightarrow> (bool \<times> rsne_info) option" where
  "rsne_akm m ie_len pos info =
     (if ie_len < pos + 2 then Some (rsne_end ie_len pos info)
      else do {
        cnt \<leftarrow> RTW_GET_LE16 m pos;
        if ie_len < pos + 2 + 4 * unat cnt then Some (rsne_end ie_len (pos + 2) info)
        else rsne_cap m ie_len (pos + 2 + 4 * unat cnt) (info\<lparr>akm_cnt := cnt, akm_list := Some (pos + 2)\<rparr>)
      })"

definition rsne_pcs :: "bytes \<Rightarrow> nat \<Rightarrow> nat \<Rightarrow> rsne_info \<Rightarrow> (bool \<times> rsne_info) option" where
  "rsne_pcs m ie_len pos info =
     (if ie_len < pos + 2 then Some (rsne_end ie_len pos info)
      else do {
        cnt \<leftarrow> RTW_GET_LE16 m pos;
        if ie_len < pos + 2 + 4 * unat cnt then Some (rsne_end ie_len (pos + 2) info)
        else rsne_akm m ie_len (pos + 2 + 4 * unat cnt) (info\<lparr>pcs_cnt := cnt, pcs_list := Some (pos + 2)\<rparr>)
      })"

definition rsne_gcs :: "bytes \<Rightarrow> nat \<Rightarrow> nat \<Rightarrow> rsne_info \<Rightarrow> (bool \<times> rsne_info) option" where
  "rsne_gcs m ie_len pos info =
     (if ie_len < pos + 4 then Some (rsne_end ie_len pos info)
      else rsne_pcs m ie_len (pos + 4) (info\<lparr>gcs := Some pos\<rparr>))"

definition rtw_rsne_info_parse :: "bytes \<Rightarrow> nat \<Rightarrow> (bool \<times> rsne_info) option" where
  "rtw_rsne_info_parse m ie_len =
     (if ie_len < 4 then Some (False, rsne_info0\<lparr>err := True\<rparr>)
      else do {
        i \<leftarrow> mem_byte m 0;
        if i \<noteq> 48 then Some (False, rsne_info0\<lparr>err := True\<rparr>)
        else do {
          l \<leftarrow> mem_byte m 1;
          if unat l \<noteq> ie_len - 2 then Some (False, rsne_info0\<lparr>err := True\<rparr>)
          else do {
            ver \<leftarrow> RTW_GET_LE16 m 2;
            if ver \<noteq> 1 then Some (False, rsne_info0\<lparr>err := True\<rparr>)
            else rsne_gcs m ie_len 4 rsne_info0
          }
        }
      })"

text \<open>
  \<^verbatim>\<open>rtw_parse_wpa2_ie\<close> with all outputs wanted: group cipher, pairwise ciphers, group management
  cipher, key management suites and the management frame protection bits; \<open>None\<close> inside is failure.
\<close>

definition suites_at :: "(bytes \<Rightarrow> u32) \<Rightarrow> bytes \<Rightarrow> nat option \<Rightarrow> nat \<Rightarrow> u32 option" where
  "suites_at f m p n = (case p of None \<Rightarrow> Some 0 | Some pos \<Rightarrow> or_suites f m pos n 0)"

definition rtw_parse_wpa2_ie :: "bytes \<Rightarrow> nat \<Rightarrow> (u32 \<times> u32 \<times> u32 \<times> u32 \<times> u16) option option" where
  "rtw_parse_wpa2_ie m rsn_ie_len =
     do {
       (ret, info) \<leftarrow> rtw_rsne_info_parse m rsn_ie_len;
       if \<not> ret then Some None
       else do {
         group_cipher \<leftarrow> (case gcs info of None \<Rightarrow> Some 0 | Some p \<Rightarrow> map_option rtw_get_rsn_cipher_suite (mem_get m p 4));
         pairwise_cipher \<leftarrow> suites_at rtw_get_rsn_cipher_suite m (pcs_list info) (unat (pcs_cnt info));
         gm \<leftarrow> (case gmcs info of None \<Rightarrow> Some WPA_CIPHER_BIP_CMAC_128
                 | Some p \<Rightarrow> map_option rtw_get_rsn_cipher_suite (mem_get m p 4));
         akm \<leftarrow> suites_at rtw_get_akm_suite_bitmap m (akm_list info) (unat (akm_cnt info));
         mfp_opt \<leftarrow> (case cap info of None \<Rightarrow> Some 0 | Some p \<Rightarrow> map_option (\<lambda>w. drop_bit 6 w AND 3) (RTW_GET_LE16 m p));
         Some (Some (group_cipher, pairwise_cipher, gm, akm, mfp_opt))
       }
     }"

section \<open>The parsers stay inside of the element\<close>

lemma mem_byte_inside [simp]: "i < length m \<Longrightarrow> mem_byte m i = Some (m ! i)"
  by (simp add: mem_byte_def)

lemma mem_get_inside: "i + n \<le> length m \<Longrightarrow> \<exists>bs. mem_get m i n = Some bs"
  by (simp add: mem_get_def)

lemma LE16_inside: "a + 2 \<le> length m \<Longrightarrow> \<exists>w. RTW_GET_LE16 m a = Some w"
  by (simp add: RTW_GET_LE16_def)

lemma or_suites_inside: "pos + 4 * n \<le> length m \<Longrightarrow> \<exists>w. or_suites f m pos n acc = Some w"
  by (induction n arbitrary: pos acc) (auto simp: mem_get_def)

text \<open>What an \<open>rsne_info\<close> refers to lies inside of the element.\<close>

definition field_in :: "nat \<Rightarrow> nat option \<Rightarrow> nat \<Rightarrow> bool" where
  "field_in ie_len p n = (case p of None \<Rightarrow> True | Some pos \<Rightarrow> pos + n \<le> ie_len)"

lemma field_in_simps [simp]: "field_in ie_len None n" "field_in ie_len (Some pos) n \<longleftrightarrow> pos + n \<le> ie_len"
  by (simp_all add: field_in_def)

definition rsne_inside :: "nat \<Rightarrow> rsne_info \<Rightarrow> bool" where
  "rsne_inside ie_len info \<longleftrightarrow>
     field_in ie_len (gcs info) 4 \<and> field_in ie_len (pcs_list info) (4 * unat (pcs_cnt info)) \<and>
     field_in ie_len (akm_list info) (4 * unat (akm_cnt info)) \<and> field_in ie_len (cap info) 2 \<and>
     field_in ie_len (pmkid_list info) (16 * unat (pmkid_cnt info)) \<and> field_in ie_len (gmcs info) 4"

definition rsne_result_ok :: "nat \<Rightarrow> (bool \<times> rsne_info) option \<Rightarrow> bool" where
  "rsne_result_ok ie_len r =
     (case r of None \<Rightarrow> False | Some (ret, info) \<Rightarrow> rsne_inside ie_len info \<and> (err info \<longleftrightarrow> \<not> ret))"

definition rsne_pre :: "nat \<Rightarrow> bytes \<Rightarrow> rsne_info \<Rightarrow> bool" where
  "rsne_pre ie_len m info \<longleftrightarrow> ie_len \<le> length m \<and> rsne_inside ie_len info \<and> \<not> err info"

lemmas rsne_defs = rsne_pre_def rsne_result_ok_def rsne_inside_def rsne_end_def

lemma rsne_end_ok: "rsne_pre ie_len m info \<Longrightarrow> rsne_result_ok ie_len (Some (rsne_end ie_len pos info))"
  by (auto simp: rsne_defs)

lemma rsne_gmcs_ok: "rsne_pre ie_len m info \<Longrightarrow> rsne_result_ok ie_len (rsne_gmcs m ie_len pos info)"
  by (auto simp: rsne_gmcs_def rsne_defs)

lemma rsne_pmkid_ok:
  assumes "rsne_pre ie_len m info"
  shows "rsne_result_ok ie_len (rsne_pmkid m ie_len pos info)"
proof (cases "ie_len < pos + 2")
  case False
  then obtain w where "RTW_GET_LE16 m pos = Some w"
    using assms LE16_inside [of pos m] by (auto simp: rsne_pre_def)
  with assms False show ?thesis
    by (auto simp: rsne_pmkid_def intro!: rsne_gmcs_ok) (auto simp: rsne_defs)
qed (use assms in \<open>simp add: rsne_pmkid_def rsne_end_ok\<close>)

lemma rsne_cap_ok:
  assumes "rsne_pre ie_len m info"
  shows "rsne_result_ok ie_len (rsne_cap m ie_len pos info)"
  using assms by (auto simp: rsne_cap_def rsne_end_ok intro!: rsne_pmkid_ok) (auto simp: rsne_defs)

lemma rsne_akm_ok:
  assumes "rsne_pre ie_len m info"
  shows "rsne_result_ok ie_len (rsne_akm m ie_len pos info)"
proof (cases "ie_len < pos + 2")
  case False
  then obtain w where "RTW_GET_LE16 m pos = Some w"
    using assms LE16_inside [of pos m] by (auto simp: rsne_pre_def)
  with assms False show ?thesis
    by (auto simp: rsne_akm_def rsne_end_ok intro!: rsne_cap_ok) (auto simp: rsne_defs)
qed (use assms in \<open>simp add: rsne_akm_def rsne_end_ok\<close>)

lemma rsne_pcs_ok:
  assumes "rsne_pre ie_len m info"
  shows "rsne_result_ok ie_len (rsne_pcs m ie_len pos info)"
proof (cases "ie_len < pos + 2")
  case False
  then obtain w where "RTW_GET_LE16 m pos = Some w"
    using assms LE16_inside [of pos m] by (auto simp: rsne_pre_def)
  with assms False show ?thesis
    by (auto simp: rsne_pcs_def rsne_end_ok intro!: rsne_akm_ok) (auto simp: rsne_defs)
qed (use assms in \<open>simp add: rsne_pcs_def rsne_end_ok\<close>)

lemma rsne_gcs_ok:
  assumes "rsne_pre ie_len m info"
  shows "rsne_result_ok ie_len (rsne_gcs m ie_len pos info)"
  using assms by (auto simp: rsne_gcs_def rsne_end_ok intro!: rsne_pcs_ok) (auto simp: rsne_defs)

lemma rsne_info_parse_ok:
  assumes "ie_len \<le> length m"
  shows "rsne_result_ok ie_len (rtw_rsne_info_parse m ie_len)"
proof -
  have 0: "rsne_pre ie_len m rsne_info0" using assms by (simp add: rsne_defs rsne_info0_def)
  then have E: "rsne_result_ok ie_len (Some (False, rsne_info0\<lparr>err := True\<rparr>))" by (simp add: rsne_defs)
  show ?thesis
  proof (cases "ie_len < 4")
    case False
    then obtain w where "RTW_GET_LE16 m 2 = Some w"
      using assms LE16_inside [of 2 m] by auto
    moreover from False assms have "0 < length m" "1 < length m" by auto
    ultimately show ?thesis using False E rsne_gcs_ok [OF 0, of 4] by (simp add: rtw_rsne_info_parse_def)
  qed (simp add: rtw_rsne_info_parse_def E)
qed

lemma wpa_akm_inside: "pos + nat left \<le> length m \<Longrightarrow> wpa_akm m pos left gc pc akm \<noteq> None"
  by (auto simp: wpa_akm_def mem_get_def)

lemma wpa_pairwise_inside:
  assumes "pos + nat left \<le> length m"
  shows "wpa_pairwise m pos left gc pc akm \<noteq> None"
proof (cases "left \<ge> 2")
  case True
  with assms have "pos + 2 \<le> length m" by linarith
  then obtain w where w: "RTW_GET_LE16 m pos = Some w" using LE16_inside by blast
  show ?thesis
  proof (cases "w = 0 \<or> left - 2 < uint w * 4")
    case False
    have u: "uint w = int (unat w)" by simp
    have le: "pos + 2 + 4 * unat w + nat (left - 2 - 4 * uint w) \<le> length m"
      using assms True False unfolding u by linarith
    then obtain v where "or_suites rtw_get_wpa_cipher_suite m (pos + 2) (unat w) pc = Some v"
      using or_suites_inside [of "pos + 2" "unat w" m] by auto
    with w True False wpa_akm_inside [OF le] show ?thesis by (auto simp: wpa_pairwise_def)
  qed (use True w in \<open>auto simp: wpa_pairwise_def\<close>)
qed (auto simp: wpa_pairwise_def wpa_akm_def)

lemma wpa_group_inside:
  assumes "pos + nat left \<le> length m"
  shows "wpa_group m pos left gc pc akm \<noteq> None"
proof (cases "left \<ge> 4")
  case True
  with assms have "pos + 4 \<le> length m" by linarith
  then obtain s where "mem_get m pos 4 = Some s" using mem_get_inside by blast
  moreover have "pos + 4 + nat (left - 4) \<le> length m" using True assms by linarith
  ultimately show ?thesis using True wpa_pairwise_inside by (auto simp: wpa_group_def)
qed (use assms wpa_pairwise_inside in \<open>auto simp: wpa_group_def\<close>)

lemma suites_at_inside:
  "field_in ie_len p (4 * n) \<Longrightarrow> ie_len \<le> length m \<Longrightarrow> \<exists>w. suites_at f m p n = Some w"
  by (cases p) (auto simp: suites_at_def intro: or_suites_inside)

lemma field_mem_get:
  "field_in ie_len p 4 \<Longrightarrow> ie_len \<le> length m \<Longrightarrow>
     \<exists>w. (case p of None \<Rightarrow> Some d | Some p \<Rightarrow> map_option f (mem_get m p 4)) = Some w"
  by (cases p) (auto simp: mem_get_def)

lemma field_LE16:
  "field_in ie_len p 2 \<Longrightarrow> ie_len \<le> length m \<Longrightarrow>
     \<exists>w. (case p of None \<Rightarrow> Some d | Some p \<Rightarrow> map_option f (RTW_GET_LE16 m p)) = Some w"
  using LE16_inside [of "the p" m] by (cases p) auto

lemma parse_wpa2_inside:
  assumes "ie_len \<le> length m"
  shows "rtw_parse_wpa2_ie m ie_len \<noteq> None"
proof -
  from rsne_info_parse_ok [OF assms] obtain ret info where
    R: "rtw_rsne_info_parse m ie_len = Some (ret, info)" and I: "rsne_inside ie_len info"
    by (auto simp: rsne_result_ok_def split: option.splits)
  from I have J: "field_in ie_len (gcs info) 4" "field_in ie_len (pcs_list info) (4 * unat (pcs_cnt info))"
    "field_in ie_len (akm_list info) (4 * unat (akm_cnt info))" "field_in ie_len (cap info) 2" "field_in ie_len (gmcs info) 4"
    by (simp_all add: rsne_inside_def)
  obtain g where g: "(case gcs info of None \<Rightarrow> Some 0 | Some p \<Rightarrow> map_option rtw_get_rsn_cipher_suite (mem_get m p 4)) = Some g"
    by (rule exE [OF field_mem_get [OF J(1) assms]])
  obtain p where p: "suites_at rtw_get_rsn_cipher_suite m (pcs_list info) (unat (pcs_cnt info)) = Some p"
    by (rule exE [OF suites_at_inside [OF J(2) assms]])
  obtain k where k: "suites_at rtw_get_akm_suite_bitmap m (akm_list info) (unat (akm_cnt info)) = Some k"
    by (rule exE [OF suites_at_inside [OF J(3) assms]])
  obtain n where n: "(case gmcs info of None \<Rightarrow> Some WPA_CIPHER_BIP_CMAC_128
      | Some p \<Rightarrow> map_option rtw_get_rsn_cipher_suite (mem_get m p 4)) = Some n"
    by (rule exE [OF field_mem_get [OF J(5) assms]])
  obtain o' where o': "(case cap info of None \<Rightarrow> Some 0 | Some p \<Rightarrow> map_option (\<lambda>w. drop_bit 6 w AND 3) (RTW_GET_LE16 m p)) = Some o'"
    by (rule exE [OF field_LE16 [OF J(4) assms]])
  show ?thesis by (simp add: rtw_parse_wpa2_ie_def R g p k n o')
qed



section \<open>Reading back an RSN element\<close>

definition le16_bytes :: "u16 \<Rightarrow> bytes" where
  "le16_bytes w = [ucast w, ucast (drop_bit 8 w)]"

lemma length_le16_bytes [simp]: "length (le16_bytes w) = 2"
  by (simp add: le16_bytes_def)

lemma le16_halves: "push_bit 8 (ucast (ucast (drop_bit 8 w) :: u8)) OR ucast (ucast w :: u8) = (w :: u16)"
proof (rule bit_word_eqI)
  fix n
  assume "n < LENGTH(16)"
  then show "bit (push_bit 8 (ucast (ucast (drop_bit 8 w) :: u8)) OR ucast (ucast w :: u8) :: u16) n = bit w n"
    by (cases "n < 8") (auto simp: bit_or_iff bit_push_bit_iff bit_ucast_iff bit_drop_bit_eq)
qed

lemma LE16_bytes:
  assumes "take 2 (drop a m) = le16_bytes w"
  shows "RTW_GET_LE16 m a = Some w"
proof -
  have len: "a + 2 \<le> length m" using arg_cong [OF assms, of length] by simp
  then have "m ! a = le16_bytes w ! 0" "m ! (a + 1) = le16_bytes w ! 1"
    using arg_cong [OF assms, of "\<lambda>l. l ! 0"] arg_cong [OF assms, of "\<lambda>l. l ! 1"] by simp_all
  with len show ?thesis by (simp add: RTW_GET_LE16_def le16_bytes_def le16_halves)
qed

lemma length_concat_same: "\<forall>s \<in> set ss. length s = n \<Longrightarrow> length (concat ss) = n * length ss"
  by (induction ss) auto

lemma or_suites_concat:
  "\<forall>s \<in> set ss. length s = 4 \<Longrightarrow> m = pre @ concat ss @ post \<Longrightarrow> length pre = pos \<Longrightarrow>
     or_suites f m pos (length ss) acc = Some (foldl (\<lambda>a s. a OR f s) acc ss)"
proof (induction ss arbitrary: pre pos acc)
  case (Cons s ss)
  have "mem_get m pos 4 = Some s" using Cons.prems by (auto simp: mem_get_def)
  moreover have "or_suites f m (pos + 4) (length ss) (acc OR f s) = Some (foldl (\<lambda>a s. a OR f s) (acc OR f s) ss)"
    by (rule Cons.IH [of "pre @ s"]) (use Cons.prems in auto)
  ultimately show ?case by simp
qed simp

text \<open>
  The element with group suite \<open>g\<close>, pairwise suites \<open>ps\<close>, key management suites \<open>ks\<close>, capabilities
  \<open>cp\<close>, key identifiers \<open>ids\<close> and group management suite \<open>gm\<close>, or no group management suite.
\<close>

definition rsne_body :: "bytes \<Rightarrow> bytes list \<Rightarrow> bytes list \<Rightarrow> u16 \<Rightarrow> bytes list \<Rightarrow> bytes \<Rightarrow> bytes" where
  "rsne_body g ps ks cp ids gm =
     le16_bytes 1 @ g @ le16_bytes (of_nat (length ps)) @ concat ps @ le16_bytes (of_nat (length ks)) @ concat ks @
     le16_bytes cp @ le16_bytes (of_nat (length ids)) @ concat ids @ gm"

definition rsne_fields_ok :: "bytes \<Rightarrow> bytes list \<Rightarrow> bytes list \<Rightarrow> bytes list \<Rightarrow> bytes \<Rightarrow> bool" where
  "rsne_fields_ok g ps ks ids gm \<longleftrightarrow>
     length g = 4 \<and> (\<forall>s \<in> set ps \<union> set ks. length s = 4) \<and> (\<forall>k \<in> set ids. length k = 16) \<and> length gm \<in> {0, 4}"

lemma parse_rsne_body:
  assumes ok: "rsne_fields_ok g ps ks ids gm" and len: "length (rsne_body g ps ks cp ids gm) \<le> 255"
    and m: "m = enc_elem (48, rsne_body g ps ks cp ids gm) @ tail"
  shows "\<exists>info. rtw_rsne_info_parse m (length (rsne_body g ps ks cp ids gm) + 2) = Some (True, info) \<and>
    gcs info = Some 4 \<and> pcs_list info = Some 10 \<and> unat (pcs_cnt info) = length ps \<and>
    akm_list info = Some (12 + 4 * length ps) \<and> unat (akm_cnt info) = length ks \<and>
    cap info = Some (12 + 4 * length ps + 4 * length ks) \<and>
    pmkid_list info = Some (16 + 4 * length ps + 4 * length ks) \<and> unat (pmkid_cnt info) = length ids \<and>
    gmcs info = (if gm = [] then None else Some (16 + 4 * length ps + 4 * length ks + 16 * length ids))"
proof -
  let ?p = "length ps" and ?k = "length ks" and ?i = "length ids"
  have L: "length g = 4" "length (concat ps) = 4 * ?p" "length (concat ks) = 4 * ?k" "length (concat ids) = 16 * ?i"
    using ok by (auto simp: rsne_fields_ok_def intro: length_concat_same)
  have n: "length (rsne_body g ps ks cp ids gm) = 14 + 4 * ?p + 4 * ?k + 16 * ?i + length gm"
    using L by (simp add: rsne_body_def)
  have u: "unat (of_nat ?p :: u16) = ?p" "unat (of_nat ?k :: u16) = ?k" "unat (of_nat ?i :: u16) = ?i"
    using len n by (simp_all add: unat_of_nat)
  have b: "mem_byte m 0 = Some 48" "mem_byte m (Suc 0) = Some (of_nat (length (rsne_body g ps ks cp ids gm)))"
    by (simp_all add: m enc_elem_def mem_byte_def)
  have b1: "unat (of_nat (length (rsne_body g ps ks cp ids gm)) :: u8) = length (rsne_body g ps ks cp ids gm)"
    using len by (simp add: unat_of_nat)
  have M: "drop 2 m = le16_bytes 1 @ g @ le16_bytes (of_nat ?p) @ concat ps @ le16_bytes (of_nat ?k) @ concat ks @
     le16_bytes cp @ le16_bytes (of_nat ?i) @ concat ids @ gm @ tail"
    by (simp add: m enc_elem_def rsne_body_def)
  have D: "drop (j + 2) m = drop j (drop 2 m)" for j by (simp add: add.commute)
  have r: "RTW_GET_LE16 m 2 = Some 1" "RTW_GET_LE16 m (6 + 2) = Some (of_nat ?p)"
    "RTW_GET_LE16 m (8 + 4 * ?p + 2) = Some (of_nat ?k)" "RTW_GET_LE16 m (10 + 4 * ?p + 4 * ?k + 2) = Some cp"
    "RTW_GET_LE16 m (12 + 4 * ?p + 4 * ?k + 2) = Some (of_nat ?i)"
    by (rule LE16_bytes, unfold D M, simp add: L)+
  define N where "N = length (rsne_body g ps ks cp ids gm) + 2"
  have N: "N = 16 + 4 * ?p + 4 * ?k + 16 * ?i + length gm" by (simp add: N_def n)
  have gm: "length gm = 0 \<or> length gm = 4" using ok by (simp add: rsne_fields_ok_def)
  have "rtw_rsne_info_parse m N = rsne_gcs m N 4 rsne_info0"
    using r(1) b1 N by (simp add: rtw_rsne_info_parse_def b N_def)
  also have "\<dots> = rsne_pcs m N 8 (rsne_info0\<lparr>gcs := Some 4\<rparr>)" (is "_ = rsne_pcs _ _ _ ?i1")
    by (simp add: rsne_gcs_def N)
  also have "\<dots> = rsne_akm m N (10 + 4 * ?p) (?i1\<lparr>pcs_cnt := of_nat ?p, pcs_list := Some 10\<rparr>)" (is "_ = rsne_akm _ _ _ ?i2")
    using r(2) u(1) by (simp add: rsne_pcs_def N)
  also have "\<dots> = rsne_cap m N (12 + 4 * ?p + 4 * ?k) (?i2\<lparr>akm_cnt := of_nat ?k, akm_list := Some (12 + 4 * ?p)\<rparr>)"
    (is "_ = rsne_cap _ _ _ ?i3")
    using r(3) u(2) by (simp add: rsne_akm_def N)
  also have "\<dots> = rsne_pmkid m N (14 + 4 * ?p + 4 * ?k) (?i3\<lparr>cap := Some (12 + 4 * ?p + 4 * ?k)\<rparr>)"
    (is "_ = rsne_pmkid _ _ _ ?i4")
    by (simp add: rsne_cap_def N add.assoc)
  also have "\<dots> = rsne_gmcs m N (16 + 4 * ?p + 4 * ?k + 16 * ?i)
      (?i4\<lparr>pmkid_cnt := of_nat ?i, pmkid_list := Some (16 + 4 * ?p + 4 * ?k)\<rparr>)" (is "_ = rsne_gmcs _ _ _ ?i5")
    using r(5) u(3) by (simp add: rsne_pmkid_def N add.assoc)
  also have "\<dots> = Some (True, if gm = [] then ?i5 else ?i5\<lparr>gmcs := Some (16 + 4 * ?p + 4 * ?k + 16 * ?i)\<rparr>)"
    using gm by (auto simp: rsne_gmcs_def rsne_end_def N)
  finally show ?thesis using u by (auto simp: N_def rsne_info0_def)
qed

text \<open>
  C27: Reading back. An RSN element with any suites and key identifiers is parsed completely:
  \<^verbatim>\<open>rtw_parse_wpa2_ie\<close> gives the cipher of the group suite, the union of the pairwise suites, the
  union of the key management suites, the management frame protection bits, and the group
  management cipher or BIP-CMAC-128 when the element has none.
\<close>

theorem parse_wpa2_reads_element:
  assumes ok: "rsne_fields_ok g ps ks ids gm" and len: "length (rsne_body g ps ks cp ids gm) \<le> 255"
  shows "rtw_parse_wpa2_ie (enc_elem (48, rsne_body g ps ks cp ids gm) @ tail) (length (rsne_body g ps ks cp ids gm) + 2) =
    Some (Some (rtw_get_rsn_cipher_suite g, foldl (\<lambda>a s. a OR rtw_get_rsn_cipher_suite s) 0 ps,
      if gm = [] then WPA_CIPHER_BIP_CMAC_128 else rtw_get_rsn_cipher_suite gm,
      foldl (\<lambda>a s. a OR rtw_get_akm_suite_bitmap s) 0 ks, drop_bit 6 cp AND 3))"
proof -
  let ?m = "enc_elem (48, rsne_body g ps ks cp ids gm) @ tail" and ?p = "length ps" and ?k = "length ks" and ?i = "length ids"
  define h :: bytes where "h = [48, of_nat (length (rsne_body g ps ks cp ids gm))]"
  have L: "length g = 4" "length (concat ps) = 4 * ?p" "length (concat ks) = 4 * ?k" "length (concat ids) = 16 * ?i"
    "\<forall>s \<in> set ps. length s = 4" "\<forall>s \<in> set ks. length s = 4" "length gm = 0 \<or> length gm = 4" "length h = 2"
    using ok by (auto simp: rsne_fields_ok_def h_def intro: length_concat_same)
  have M: "?m = h @ le16_bytes 1 @ g @ le16_bytes (of_nat ?p) @ concat ps @ le16_bytes (of_nat ?k) @ concat ks @
      le16_bytes cp @ le16_bytes (of_nat ?i) @ concat ids @ gm @ tail"
    by (simp add: enc_elem_def rsne_body_def h_def)
  have g: "mem_get ?m 4 4 = Some g" unfolding M by (simp add: mem_get_def L)
  have ps: "or_suites rtw_get_rsn_cipher_suite ?m 10 ?p 0 = Some (foldl (\<lambda>a s. a OR rtw_get_rsn_cipher_suite s) 0 ps)"
    by (rule or_suites_concat [OF L(5), of _ "h @ le16_bytes 1 @ g @ le16_bytes (of_nat ?p)"]) (simp only: M append_assoc, simp add: L)
  have ks: "or_suites rtw_get_akm_suite_bitmap ?m (12 + 4 * ?p) ?k 0 = Some (foldl (\<lambda>a s. a OR rtw_get_akm_suite_bitmap s) 0 ks)"
    by (rule or_suites_concat [OF L(6), of _ "h @ le16_bytes 1 @ g @ le16_bytes (of_nat ?p) @ concat ps @ le16_bytes (of_nat ?k)"])
      (simp only: M append_assoc, simp add: L)
  have cp: "RTW_GET_LE16 ?m (12 + 4 * ?p + 4 * ?k) = Some cp" by (rule LE16_bytes) (unfold M, simp add: L)
  have gm: "gm \<noteq> [] \<Longrightarrow> mem_get ?m (16 + 4 * ?p + 4 * ?k + 16 * ?i) 4 = Some gm"
    unfolding M mem_get_def using L(7) by (auto simp: L(1-4,8))
  from parse_rsne_body [OF ok len refl, where tail = tail] obtain info where
    I: "rtw_rsne_info_parse ?m (length (rsne_body g ps ks cp ids gm) + 2) = Some (True, info)"
      "gcs info = Some 4" "pcs_list info = Some 10" "unat (pcs_cnt info) = ?p" "akm_list info = Some (12 + 4 * ?p)"
      "unat (akm_cnt info) = ?k" "cap info = Some (12 + 4 * ?p + 4 * ?k)"
      "gmcs info = (if gm = [] then None else Some (16 + 4 * ?p + 4 * ?k + 16 * ?i))"
    by blast
  show ?thesis
    unfolding rtw_parse_wpa2_ie_def I(1) using I(2-) g ps ks cp gm by (cases "gm = []") (simp_all add: suites_at_def)
qed

theorem parse_wpa2_reads_element_witness:
  "rtw_parse_wpa2_ie (enc_elem (48, rsne_body [0, 15, 172, 4] [[0, 15, 172, 4]] [[0, 15, 172, 2], [0, 15, 172, 8]] 128 [] [])) 28 =
    Some (Some (WPA_CIPHER_CCMP, WPA_CIPHER_CCMP, WPA_CIPHER_BIP_CMAC_128, WLAN_AKM_TYPE_PSK OR WLAN_AKM_TYPE_SAE, 2))"
  using parse_wpa2_reads_element [of "[0, 15, 172, 4]" "[[0, 15, 172, 4]]" "[[0, 15, 172, 2], [0, 15, 172, 8]]" "[]" "[]" 128 "[]"]
  by (simp add: rsne_fields_ok_def rsne_body_def rtw_get_rsn_cipher_suite_def rtw_get_akm_suite_bitmap_def)

section \<open>Attributes of a WPS element\<close>

text \<open>
  \<^verbatim>\<open>rtw_get_wps_attr\<close> with no copy wanted. The loop runs on fuel; it stops with the offset and
  length of the attribute, with nothing, or with an access outside of the buffer. The length
  \<open>attr_len\<close> is computed at 16 bits.
\<close>

datatype 'a outcome = OutOfFuel | Overrun | Ret 'a

fun wps_attr_loop :: "nat \<Rightarrow> bytes \<Rightarrow> nat \<Rightarrow> u16 \<Rightarrow> nat \<Rightarrow> (nat \<times> u16) option outcome" where
  "wps_attr_loop 0 m wps_ielen target pos = OutOfFuel"
| "wps_attr_loop (Suc fuel) m wps_ielen target pos =
     (if pos < wps_ielen then
        (case (RTW_GET_BE16 m pos, RTW_GET_BE16 m (pos + 2)) of
           (Some attr_id, Some attr_data_len) \<Rightarrow>
             let attr_len = attr_data_len + 4 in
             if attr_id = target then Ret (Some (pos, attr_len))
             else wps_attr_loop fuel m wps_ielen target (pos + unat attr_len)
         | _ \<Rightarrow> Overrun)
      else Ret None)"

definition rtw_get_wps_attr :: "nat \<Rightarrow> bytes \<Rightarrow> nat \<Rightarrow> u16 \<Rightarrow> (nat \<times> u16) option outcome" where
  "rtw_get_wps_attr fuel m wps_ielen target =
     (case mem_byte m 0 of
        None \<Rightarrow> Overrun
      | Some i \<Rightarrow>
          if i \<noteq> 221 then Ret None
          else
            (case mem_get m 2 4 of
               None \<Rightarrow> Overrun
             | Some oui \<Rightarrow>
                 if oui \<noteq> [0x00, 0x50, 0xf2, 0x04] then Ret None
                 else wps_attr_loop fuel m wps_ielen target 6))"

text \<open>\<^verbatim>\<open>rtw_get_wps_attr_content\<close> with a copy wanted: offset, length and the copied bytes.\<close>

definition rtw_get_wps_attr_content :: "nat \<Rightarrow> bytes \<Rightarrow> nat \<Rightarrow> u16 \<Rightarrow> (nat \<times> u32 \<times> bytes) option outcome" where
  "rtw_get_wps_attr_content fuel m wps_ielen target =
     (case rtw_get_wps_attr fuel m wps_ielen target of
        OutOfFuel \<Rightarrow> OutOfFuel
      | Overrun \<Rightarrow> Overrun
      | Ret None \<Rightarrow> Ret None
      | Ret (Some (pos, attr_len)) \<Rightarrow>
          if attr_len \<noteq> 0 then
            (let n = (ucast attr_len :: u32) - 4 in
             case mem_get m (pos + 4) (unat n) of None \<Rightarrow> Overrun | Some bs \<Rightarrow> Ret (Some (pos + 4, n, bs)))
          else Ret None)"

text \<open>Attributes: a 16-bit identifier and the content.\<close>

type_synonym wps_attr = "u16 \<times> bytes"

definition be16_bytes :: "u16 \<Rightarrow> bytes" where
  "be16_bytes w = [ucast (drop_bit 8 w), ucast w]"

definition enc_attr :: "wps_attr \<Rightarrow> bytes" where
  "enc_attr a = be16_bytes (fst a) @ be16_bytes (of_nat (length (snd a))) @ snd a"

fun attr_at :: "u16 \<Rightarrow> nat \<Rightarrow> wps_attr list \<Rightarrow> (nat \<times> bytes) option" where
  "attr_at target pos [] = None"
| "attr_at target pos (a # as) =
     (if fst a = target then Some (pos, snd a) else attr_at target (pos + length (snd a) + 4) as)"

lemma BE16_bytes: "RTW_GET_BE16 (pre @ be16_bytes w @ post) (length pre) = Some w"
  by (simp add: RTW_GET_BE16_def be16_bytes_def mem_byte_def nth_append le16_halves)

lemma BE16_bytes2: "RTW_GET_BE16 (pre @ be16_bytes v @ be16_bytes w @ post) (length pre + 2) = Some w"
  using BE16_bytes [of "pre @ be16_bytes v" w post] by (simp add: be16_bytes_def)

lemma length_enc_attr [simp]: "length (enc_attr a) = length (snd a) + 4"
  by (simp add: enc_attr_def be16_bytes_def)

lemma attr_len_exact: "n \<le> 0xFFFB \<Longrightarrow> unat (of_nat n + 4 :: u16) = n + 4"
  by (simp add: unat_word_ariths unat_of_nat)

lemma wps_attr_loop_finds:
  assumes "\<forall>a \<in> set as. length (snd a) \<le> 0xFFFB" and "length as < fuel"
  shows "wps_attr_loop fuel (pre @ concat (map enc_attr as) @ post) (length pre + length (concat (map enc_attr as))) target (length pre) =
    Ret (map_option (\<lambda>(pos, c). (pos, of_nat (length c) + 4)) (attr_at target (length pre) as))"
  using assms
proof (induction as arbitrary: pre fuel)
  case Nil
  then show ?case by (cases fuel) auto
next
  case (Cons a as)
  obtain n where n: "fuel = Suc n" using Cons.prems(2) by (cases fuel) auto
  let ?m = "pre @ concat (map enc_attr (a # as)) @ post"
  have m: "?m = pre @ be16_bytes (fst a) @ be16_bytes (of_nat (length (snd a))) @ snd a @ concat (map enc_attr as) @ post"
    by (simp add: enc_attr_def)
  have r: "RTW_GET_BE16 ?m (length pre) = Some (fst a)" "RTW_GET_BE16 ?m (length pre + 2) = Some (of_nat (length (snd a)))"
    unfolding m by (rule BE16_bytes, rule BE16_bytes2)
  have u: "unat (of_nat (length (snd a)) + 4 :: u16) = length (snd a) + 4"
    by (rule attr_len_exact) (use Cons.prems(1) in simp)
  have "wps_attr_loop n ((pre @ enc_attr a) @ concat (map enc_attr as) @ post)
      (length (pre @ enc_attr a) + length (concat (map enc_attr as))) target (length (pre @ enc_attr a)) =
    Ret (map_option (\<lambda>(pos, c). (pos, of_nat (length c) + 4)) (attr_at target (length (pre @ enc_attr a)) as))"
    by (rule Cons.IH) (use Cons.prems n in auto)
  then show ?case using r u unfolding n by (simp add: Let_def add.assoc)
qed

lemma attr_at_content:
  assumes "attr_at target (length pre) as = Some (pos, c)"
  shows "mem_get (pre @ concat (map enc_attr as) @ post) (pos + 4) (length c) = Some c \<and> c \<in> snd ` set as"
  using assms
proof (induction as arbitrary: pre)
  case (Cons a as)
  show ?case
  proof (cases "fst a = target")
    case True
    with Cons.prems show ?thesis by (auto simp: mem_get_def enc_attr_def be16_bytes_def)
  next
    case False
    with Cons.prems Cons.IH [of "pre @ enc_attr a"] show ?thesis by (simp add: add.assoc)
  qed
qed simp

definition wps_head :: "u8 \<Rightarrow> bytes" where
  "wps_head l = [221, l, 0x00, 0x50, 0xf2, 0x04]"

lemma length_wps_head [simp]: "length (wps_head l) = 6"
  by (simp add: wps_head_def)

lemma rtw_get_wps_attr_head: "rtw_get_wps_attr fuel (wps_head l @ m) wps_ielen target = wps_attr_loop fuel (wps_head l @ m) wps_ielen target 6"
  by (simp add: rtw_get_wps_attr_def wps_head_def mem_byte_def mem_get_def)

text \<open>
  C32: Attributes are found. In a WPS element whose attributes are complete and shorter than 65532
  bytes the search ends after at most one round per attribute and gives the content of the first
  attribute with the wanted identifier, or nothing when there is none.
\<close>

theorem wps_attr_content_found:
  assumes "\<forall>a \<in> set as. length (snd a) \<le> 0xFFFB" and "length as < fuel"
  shows "rtw_get_wps_attr_content fuel (wps_head l @ concat (map enc_attr as) @ post) (6 + length (concat (map enc_attr as))) target =
    Ret (map_option (\<lambda>(pos, c). (pos + 4, of_nat (length c), c)) (attr_at target 6 as))"
proof -
  let ?m = "wps_head l @ concat (map enc_attr as) @ post"
  have F: "rtw_get_wps_attr fuel ?m (6 + length (concat (map enc_attr as))) target =
      Ret (map_option (\<lambda>(pos, c). (pos, of_nat (length c) + 4)) (attr_at target 6 as))"
    using wps_attr_loop_finds [OF assms, of "wps_head l" post target] unfolding length_wps_head rtw_get_wps_attr_head .
  show ?thesis
  proof (cases "attr_at target 6 as")
    case None
    with F show ?thesis by (simp add: rtw_get_wps_attr_content_def)
  next
    case (Some pc)
    obtain pos c where pc: "pc = (pos, c)" by (cases pc)
    have C: "mem_get ?m (pos + 4) (length c) = Some c" "c \<in> snd ` set as"
      using attr_at_content [of target "wps_head l" as pos c post] Some pc by simp_all
    have n: "length c \<le> 0xFFFB" using C(2) assms(1) by auto
    have u: "unat (of_nat (length c) + 4 :: u16) = length c + 4" by (rule attr_len_exact [OF n])
    have nz: "(of_nat (length c) + 4 :: u16) \<noteq> 0"
    proof
      assume "(of_nat (length c) + 4 :: u16) = 0"
      with u show False by simp
    qed
    have d: "ucast (of_nat (length c) + 4 :: u16) - 4 = (of_nat (length c) :: u32)"
    proof -
      have "(ucast (of_nat (length c) + 4 :: u16) :: u32) = of_nat (unat (of_nat (length c) + 4 :: u16))"
        by (rule of_nat_unat [symmetric])
      also have "\<dots> = of_nat (length c + 4)" unfolding u ..
      finally have "(ucast (of_nat (length c) + 4 :: u16) :: u32) = of_nat (length c) + 4" by simp
      then show ?thesis by simp
    qed
    have v: "unat (of_nat (length c) :: u32) = length c" using n by (simp add: unat_of_nat)
    show ?thesis using F Some pc C(1) nz v by (simp add: rtw_get_wps_attr_content_def d Let_def)
  qed
qed

theorem wps_attr_content_found_witness:
  "rtw_get_wps_attr_content 3 (wps_head 15 @ concat (map enc_attr [(0x104A, [16]), (0x1041, [1])]) @ []) 16 0x1041 =
    Ret (Some (15, 1, [1]))"
  using wps_attr_content_found [of "[(0x104A, [16]), (0x1041, [1])]" 3 15 "[]" "0x1041"] by simp

lemma wps_attr_loop_stuck:
  assumes "\<forall>a \<in> set as. length (snd a) \<le> 0xFFFB \<and> fst a \<noteq> target" and "attr_id \<noteq> target"
    and "length pre + length (concat (map enc_attr as)) < wps_ielen"
  shows "wps_attr_loop fuel (pre @ concat (map enc_attr as) @ be16_bytes attr_id @ be16_bytes 0xFFFC @ post) wps_ielen target (length pre) = OutOfFuel"
  using assms
proof (induction fuel arbitrary: pre as)
  case (Suc fuel)
  show ?case
  proof (cases as)
    case Nil
    have r: "RTW_GET_BE16 (pre @ be16_bytes attr_id @ be16_bytes 0xFFFC @ post) (length pre) = Some attr_id"
      "RTW_GET_BE16 (pre @ be16_bytes attr_id @ be16_bytes 0xFFFC @ post) (length pre + 2) = Some 0xFFFC"
      by (rule BE16_bytes, rule BE16_bytes2)
    show ?thesis using Suc.IH [of "[]" pre] Suc.prems r Nil by simp
  next
    case (Cons a bs)
    let ?m = "pre @ concat (map enc_attr as) @ be16_bytes attr_id @ be16_bytes 0xFFFC @ post"
    have m: "?m = pre @ be16_bytes (fst a) @ be16_bytes (of_nat (length (snd a))) @
        (snd a @ concat (map enc_attr bs) @ be16_bytes attr_id @ be16_bytes 0xFFFC @ post)"
      by (simp add: Cons enc_attr_def)
    have r: "RTW_GET_BE16 ?m (length pre) = Some (fst a)" "RTW_GET_BE16 ?m (length pre + 2) = Some (of_nat (length (snd a)))"
      unfolding m by (rule BE16_bytes, rule BE16_bytes2)
    have u: "unat (of_nat (length (snd a)) + 4 :: u16) = length (snd a) + 4"
      by (rule attr_len_exact) (use Suc.prems(1) Cons in simp)
    have "wps_attr_loop fuel ((pre @ enc_attr a) @ concat (map enc_attr bs) @ be16_bytes attr_id @ be16_bytes 0xFFFC @ post)
        wps_ielen target (length (pre @ enc_attr a)) = OutOfFuel"
      by (rule Suc.IH) (use Suc.prems Cons in auto)
    then show ?thesis using r u Suc.prems Cons by (simp add: Let_def add.assoc)
  qed
qed simp

text \<open>
  C33: The search can run forever. An attribute whose length field says 65532 has an \<open>attr_len\<close> of
  zero at 16 bits; if it comes inside of the search range and before the wanted attribute, no amount
  of fuel makes the search return. The element comes out of received frames.
\<close>

theorem wps_attr_search_hangs:
  assumes "\<forall>a \<in> set as. length (snd a) \<le> 0xFFFB \<and> fst a \<noteq> target" and "attr_id \<noteq> target"
    and "6 + length (concat (map enc_attr as)) < wps_ielen"
  shows "\<forall>fuel. rtw_get_wps_attr fuel (wps_head l @ concat (map enc_attr as) @ be16_bytes attr_id @ be16_bytes 0xFFFC @ post)
      wps_ielen target = OutOfFuel"
  using wps_attr_loop_stuck [of as target attr_id "wps_head l" wps_ielen _ post] assms
  unfolding rtw_get_wps_attr_head by simp

theorem wps_attr_search_hangs_witness:
  "\<forall>fuel. rtw_get_wps_attr fuel (wps_head 13 @ concat (map enc_attr [(0x104A, [16])]) @ be16_bytes 0x1049 @ be16_bytes 0xFFFC @ [])
      15 0x1041 = OutOfFuel"
  using wps_attr_search_hangs [of "[(0x104A, [16])]" "0x1041" "0x1049" 15 13 "[]"] by simp

end
