(* ===== verification/Rtw_Elems.thy ===== *)
theory Rtw_Elems
  imports Rtw_Rsn
begin

text \<open>
  The parser of all elements of a management frame and the searches for single security elements, \<^verbatim>\<open>core/rtw_ieee80211.c\<close>.
  A pointer into the elements is an offset; \<open>None\<close> on the outside is an access outside of the buffer.
\<close>

section \<open>Parsing all elements\<close>

text \<open>
  One constructor for each pair of pointer and length of \<^verbatim>\<open>struct rtw_ieee802_11_elems\<close>; the fields of the mesh
  and token options are compiled out. A null pointer is \<open>None\<close>.
\<close>

datatype elem_slot =
    E_ssid | E_supp_rates | E_fh_params | E_ds_params | E_cf_params | E_tim | E_ibss_params | E_challenge | E_erp_info
  | E_ext_supp_rates | E_wpa_ie | E_rsn_ie | E_wme | E_wme_tspec | E_wps_ie | E_power_cap | E_supp_channels | E_mdie | E_ftie
  | E_timeout_int | E_ht_capabilities | E_ht_operation | E_vendor_ht_cap | E_vht_capabilities | E_vht_operation
  | E_vht_op_mode_notify | E_rm_en_cap

type_synonym rtw_ieee802_11_elems = "elem_slot \<Rightarrow> (nat \<times> u8) option"

datatype ParseRes = ParseOK | ParseUnknown | ParseFailed

definition RTW_GET_BE24 :: "bytes \<Rightarrow> nat \<Rightarrow> u32 option" where
  "RTW_GET_BE24 m a =
     (case mem_get m a 3 of
        Some [x, y, z] \<Rightarrow> Some (push_bit 16 (ucast x) OR push_bit 8 (ucast y) OR ucast z)
      | _ \<Rightarrow> None)"

text \<open>\<^verbatim>\<open>rtw_ieee802_11_parse_vendor_specific\<close>: whether the element was recognised, and the fields.\<close>

definition rtw_ieee802_11_parse_vendor_specific ::
  "bytes \<Rightarrow> nat \<Rightarrow> u8 \<Rightarrow> rtw_ieee802_11_elems \<Rightarrow> (bool \<times> rtw_ieee802_11_elems) option" where
  "rtw_ieee802_11_parse_vendor_specific m pos elen elems =
     (if elen < 4 then Some (False, elems)
      else do {
        oui \<leftarrow> RTW_GET_BE24 m pos;
        t \<leftarrow> mem_byte m (pos + 3);
        if oui = 0x0050f2 then
          if t = 1 then Some (True, elems(E_wpa_ie := Some (pos, elen)))
          else if t = 2 then
            if elen < 5 then Some (False, elems)
            else do {
              st \<leftarrow> mem_byte m (pos + 4);
              if st = 0 \<or> st = 1 then Some (True, elems(E_wme := Some (pos, elen)))
              else if st = 2 then Some (True, elems(E_wme_tspec := Some (pos, elen)))
              else Some (False, elems)
            }
          else if t = 4 then Some (True, elems(E_wps_ie := Some (pos, elen)))
          else Some (False, elems)
        else if oui = 0x00904c then
          if t = 0x33 then Some (True, elems(E_vendor_ht_cap := Some (pos, elen)))
          else Some (False, elems)
        else Some (False, elems)
      })"

text \<open>The cases of the switch other than the vendor element.\<close>

definition slot_of_id :: "u8 \<Rightarrow> elem_slot option" where
  "slot_of_id eid =
     (if eid = 0 then Some E_ssid else if eid = 1 then Some E_supp_rates else if eid = 2 then Some E_fh_params
      else if eid = 3 then Some E_ds_params else if eid = 4 then Some E_cf_params else if eid = 5 then Some E_tim
      else if eid = 6 then Some E_ibss_params else if eid = 16 then Some E_challenge else if eid = 42 then Some E_erp_info
      else if eid = 50 then Some E_ext_supp_rates else if eid = 48 then Some E_rsn_ie else if eid = 33 then Some E_power_cap
      else if eid = 36 then Some E_supp_channels else if eid = 54 then Some E_mdie else if eid = 55 then Some E_ftie
      else if eid = 56 then Some E_timeout_int else if eid = 45 then Some E_ht_capabilities
      else if eid = 61 then Some E_ht_operation else if eid = 191 then Some E_vht_capabilities
      else if eid = 192 then Some E_vht_operation else if eid = 199 then Some E_vht_op_mode_notify
      else if eid = 70 then Some E_rm_en_cap else None)"

text \<open>The body of the switch: the fields, and whether the element is counted as unknown.\<close>

definition parse_elem :: "bytes \<Rightarrow> u8 \<Rightarrow> nat \<Rightarrow> u8 \<Rightarrow> rtw_ieee802_11_elems \<Rightarrow> (bool \<times> rtw_ieee802_11_elems) option" where
  "parse_elem m eid pos elen elems =
     (if eid = 221 then rtw_ieee802_11_parse_vendor_specific m pos elen elems
      else case slot_of_id eid of
             None \<Rightarrow> Some (False, elems)
           | Some s \<Rightarrow> Some (True, elems(s := Some (pos, elen))))"

function parse_elems_loop ::
  "bytes \<Rightarrow> nat \<Rightarrow> nat \<Rightarrow> nat \<Rightarrow> rtw_ieee802_11_elems \<Rightarrow> (ParseRes \<times> rtw_ieee802_11_elems) option" where
  "parse_elems_loop m left pos unknown elems =
     (if left \<ge> 2 then
        case (mem_byte m pos, mem_byte m (pos + 1)) of
          (Some eid, Some elen) \<Rightarrow>
            if unat elen > left - 2 then Some (ParseFailed, elems)
            else
              (case parse_elem m eid (pos + 2) elen elems of
                 None \<Rightarrow> None
               | Some (known, elems) \<Rightarrow>
                   parse_elems_loop m (left - 2 - unat elen) (pos + 2 + unat elen) (if known then unknown else unknown + 1) elems)
        | _ \<Rightarrow> None
      else Some (if left \<noteq> 0 then ParseFailed else if unknown \<noteq> 0 then ParseUnknown else ParseOK, elems))"
  by pat_completeness auto
termination
  by (relation "measure (\<lambda>(m, left, pos, unknown, elems). left)") auto

declare parse_elems_loop.simps [simp del]

definition rtw_ieee802_11_parse_elems :: "bytes \<Rightarrow> nat \<Rightarrow> (ParseRes \<times> rtw_ieee802_11_elems) option" where
  "rtw_ieee802_11_parse_elems m len = parse_elems_loop m len 0 0 (\<lambda>_. None)"

section \<open>What the parser makes of a sequence of elements\<close>

definition vendor_slot :: "bytes \<Rightarrow> elem_slot option" where
  "vendor_slot c =
     (if length c < 4 then None
      else if take 4 c = [0x00, 0x50, 0xf2, 1] then Some E_wpa_ie
      else if take 4 c = [0x00, 0x50, 0xf2, 2] then
        if length c < 5 then None
        else if c ! 4 = 0 \<or> c ! 4 = 1 then Some E_wme else if c ! 4 = 2 then Some E_wme_tspec else None
      else if take 4 c = [0x00, 0x50, 0xf2, 4] then Some E_wps_ie
      else if take 4 c = [0x00, 0x90, 0x4c, 0x33] then Some E_vendor_ht_cap
      else None)"

text \<open>The field an element belongs to.\<close>

definition slot_of_elem :: "elem \<Rightarrow> elem_slot option" where
  "slot_of_elem e = (if fst e = 221 then vendor_slot (snd e) else slot_of_id (fst e))"

fun slots :: "nat \<Rightarrow> elem list \<Rightarrow> rtw_ieee802_11_elems \<Rightarrow> rtw_ieee802_11_elems" where
  "slots pos [] elems = elems"
| "slots pos (e # es) elems =
     slots (pos + length (enc_elem e)) es
       (case slot_of_elem e of None \<Rightarrow> elems | Some s \<Rightarrow> elems(s := Some (pos + 2, of_nat (length (snd e)))))"

lemma not_bit_u8: "bit (w :: u8) (n + 8) \<longleftrightarrow> False" "bit (w :: u8) (n + 16) \<longleftrightarrow> False"
  by (auto dest: bit_imp_le_length)

lemma be24_bytes:
  fixes x y z :: u8
  defines "w \<equiv> push_bit 16 (ucast x) OR push_bit 8 (ucast y) OR ucast z :: u32"
  shows "ucast w = z" "ucast (drop_bit 8 w) = y" "ucast (drop_bit 16 w) = x"
  unfolding w_def by (rule bit_word_eqI; simp add: bit_simps not_bit_u8 add.commute; fail)+

lemma be24_eq:
  fixes x y z a b c :: u8
  shows "push_bit 16 (ucast x) OR push_bit 8 (ucast y) OR ucast z =
    (push_bit 16 (ucast a) OR push_bit 8 (ucast b) OR ucast c :: u32) \<longleftrightarrow> x = a \<and> y = b \<and> z = c"
  using be24_bytes [of x y z] be24_bytes [of a b c] by metis

lemma oui_ms: "(0x0050f2 :: u32) = push_bit 16 (ucast (0 :: u8)) OR push_bit 8 (ucast (0x50 :: u8)) OR ucast (0xf2 :: u8)"
  by simp

lemma oui_bc: "(0x00904c :: u32) = push_bit 16 (ucast (0 :: u8)) OR push_bit 8 (ucast (0x90 :: u8)) OR ucast (0x4c :: u8)"
  by simp

lemma parse_vendor_elem:
  assumes "elem_ok (eid, c)"
  shows "rtw_ieee802_11_parse_vendor_specific (pre @ c @ post) (length pre) (of_nat (length c)) elems =
    Some (case vendor_slot c of None \<Rightarrow> (False, elems) | Some s \<Rightarrow> (True, elems(s := Some (length pre, of_nat (length c)))))"
proof -
  have u: "unat (of_nat (length c) :: u8) = length c" using assms by (simp add: elem_ok_def unat_of_nat)
  have l4: "(of_nat (length c) :: u8) < 4 \<longleftrightarrow> length c < 4" "(of_nat (length c) :: u8) < 5 \<longleftrightarrow> length c < 5"
    using u by (simp_all add: word_less_nat_alt)
  show ?thesis
  proof (cases "length c < 4")
    case True
    then show ?thesis by (simp add: rtw_ieee802_11_parse_vendor_specific_def l4 vendor_slot_def)
  next
    case False
    then obtain a b d t r where c: "c = a # b # d # t # r"
      by (cases c; cases "tl c"; cases "tl (tl c)"; cases "tl (tl (tl c))"; simp)
    have be: "RTW_GET_BE24 (pre @ c @ post) (length pre) = Some (push_bit 16 (ucast a) OR push_bit 8 (ucast b) OR ucast d)"
      by (simp add: RTW_GET_BE24_def mem_get_def c)
    have t: "mem_byte (pre @ c @ post) (length pre + 3) = Some t" by (simp add: mem_byte_def c nth_append)
    have st: "mem_byte (pre @ c @ post) (length pre + 4) = Some (c ! 4)" if "5 \<le> length c"
      using that by (simp add: mem_byte_def nth_append)
    have oui: "push_bit 16 (ucast a) OR push_bit 8 (ucast b) OR ucast d = (0x0050f2 :: u32) \<longleftrightarrow> a = 0 \<and> b = 0x50 \<and> d = 0xf2"
      "push_bit 16 (ucast a) OR push_bit 8 (ucast b) OR ucast d = (0x00904c :: u32) \<longleftrightarrow> a = 0 \<and> b = 0x90 \<and> d = 0x4c"
      unfolding oui_ms oui_bc be24_eq by simp_all
    have take: "take 4 c = [a, b, d, t]" by (simp add: c)
    show ?thesis using False st
      by (auto simp: rtw_ieee802_11_parse_vendor_specific_def l4 be t oui vendor_slot_def take not_less)
  qed
qed

text \<open>An unfinished element: a lone id, or fewer bytes than the length says.\<close>

definition cut_elem :: "bytes \<Rightarrow> bool" where
  "cut_elem r \<longleftrightarrow> length r = 1 \<or> (2 \<le> length r \<and> length r < 2 + unat (r ! 1))"

definition known_elem :: "elem \<Rightarrow> bool" where
  "known_elem e \<longleftrightarrow> slot_of_elem e \<noteq> None"

lemma parse_elem_enc:
  assumes "elem_ok e"
  shows "parse_elem (pre @ enc_elem e @ post) (fst e) (length pre + 2) (of_nat (length (snd e))) elems =
    Some (known_elem e, case slot_of_elem e of None \<Rightarrow> elems | Some s \<Rightarrow> elems(s := Some (length pre + 2, of_nat (length (snd e)))))"
proof -
  have "pre @ enc_elem e @ post = (pre @ [fst e, of_nat (length (snd e))]) @ snd e @ post"
    by (simp add: enc_elem_def)
  then show ?thesis
    using parse_vendor_elem [of "fst e" "snd e" "pre @ [fst e, of_nat (length (snd e))]" post elems] assms
    by (auto simp: parse_elem_def known_elem_def slot_of_elem_def split: option.splits)
qed

lemma parse_elems_rest:
  assumes "r = [] \<or> cut_elem r"
  shows "parse_elems_loop (pre @ r @ post) (length r) (length pre) unknown elems =
    Some (if r \<noteq> [] then ParseFailed else if unknown \<noteq> 0 then ParseUnknown else ParseOK, elems)"
proof (cases "2 \<le> length r")
  case True
  then have "mem_byte (pre @ r @ post) (length pre) = Some (r ! 0)" "mem_byte (pre @ r @ post) (length pre + 1) = Some (r ! 1)"
    by (auto simp: mem_byte_def nth_append)
  then show ?thesis using assms True by (subst parse_elems_loop.simps) (auto simp: cut_elem_def)
next
  case False
  then show ?thesis by (subst parse_elems_loop.simps) auto
qed

lemma parse_elems_steps:
  assumes "\<forall>e \<in> set es. elem_ok e" and "r = [] \<or> cut_elem r"
  shows "parse_elems_loop (pre @ enc_elems es @ r @ post) (length (enc_elems es @ r)) (length pre) unknown elems =
    Some (if r \<noteq> [] then ParseFailed else if unknown \<noteq> 0 \<or> (\<exists>e \<in> set es. \<not> known_elem e) then ParseUnknown else ParseOK,
      slots (length pre) es elems)"
  using assms(1)
proof (induction es arbitrary: pre unknown elems)
  case Nil
  then show ?case using parse_elems_rest [OF assms(2)] by simp
next
  case (Cons e es)
  let ?post = "enc_elems es @ r @ post"
  let ?elems = "case slot_of_elem e of None \<Rightarrow> elems | Some s \<Rightarrow> elems(s := Some (length pre + 2, of_nat (length (snd e))))"
  have ok: "elem_ok e" using Cons.prems by simp
  have u: "unat (of_nat (length (snd e)) :: u8) = length (snd e)" using ok by (simp add: elem_ok_def unat_of_nat)
  have b: "mem_byte (pre @ enc_elem e @ ?post) (length pre) = Some (fst e)"
    "mem_byte (pre @ enc_elem e @ ?post) (length pre + 1) = Some (of_nat (length (snd e)))"
    by (simp_all add: mem_byte_def enc_elem_def nth_append)
  have "parse_elems_loop (pre @ enc_elem e @ ?post) (length (enc_elems (e # es) @ r)) (length pre) unknown elems =
    parse_elems_loop ((pre @ enc_elem e) @ enc_elems es @ r @ post) (length (enc_elems es @ r)) (length (pre @ enc_elem e))
      (if known_elem e then unknown else unknown + 1) ?elems"
    using b parse_elem_enc [OF ok, of pre ?post elems] by (subst parse_elems_loop.simps) (simp add: u algebra_simps)
  also have "\<dots> = Some (if r \<noteq> [] then ParseFailed
      else if (if known_elem e then unknown else unknown + 1) \<noteq> 0 \<or> (\<exists>e \<in> set es. \<not> known_elem e) then ParseUnknown else ParseOK,
      slots (length (pre @ enc_elem e)) es ?elems)"
    using Cons.prems by (intro Cons.IH) simp
  finally show ?case by (auto simp: algebra_simps)
qed

lemma elems_decode: "\<exists>es r. b = enc_elems es @ r \<and> (\<forall>e \<in> set es. elem_ok e) \<and> (r = [] \<or> cut_elem r)"
proof (induction "length b" arbitrary: b rule: less_induct)
  case less
  show ?case
  proof (cases "b = [] \<or> cut_elem b")
    case True
    then show ?thesis by (intro exI [of _ "[]"] exI [of _ b]) simp
  next
    case False
    then obtain i l t where b: "b = i # l # t" and t: "unat l \<le> length t"
      by (cases b; cases "tl b") (auto simp: cut_elem_def)
    have "length (drop (unat l) t) < length b" by (simp add: b)
    from less [OF this] obtain es r where er: "drop (unat l) t = enc_elems es @ r" "\<forall>e \<in> set es. elem_ok e" "r = [] \<or> cut_elem r"
      by blast
    have "b = enc_elem (i, take (unat l) t) @ drop (unat l) t" using t by (simp add: b enc_elem_def min_def)
    moreover have "elem_ok (i, take (unat l) t)" using unat_u8_less [of l] by (simp add: elem_ok_def min_def)
    ultimately show ?thesis using er by (intro exI [of _ "(i, take (unat l) t) # es"] exI [of _ r]) simp
  qed
qed

lemma slots_append: "slots pos (es @ fs) elems = slots (pos + length (enc_elems es)) fs (slots pos es elems)"
  by (induction es arbitrary: pos elems) (simp_all add: algebra_simps)

text \<open>The field \<open>s\<close> names the last element that belongs to it.\<close>

definition field_of_elems :: "elem list \<Rightarrow> elem_slot \<Rightarrow> (nat \<times> u8) option \<Rightarrow> bool" where
  "field_of_elems es s f \<longleftrightarrow>
     (case f of
        None \<Rightarrow> \<forall>e \<in> set es. slot_of_elem e \<noteq> Some s
      | Some (p, l) \<Rightarrow>
          \<exists>xs e ys. es = xs @ e # ys \<and> slot_of_elem e = Some s \<and> (\<forall>y \<in> set ys. slot_of_elem y \<noteq> Some s) \<and>
            p = length (enc_elems xs) + 2 \<and> unat l = length (snd e))"

lemma field_of_elems_miss:
  assumes "field_of_elems es s f" and "slot_of_elem e \<noteq> Some s"
  shows "field_of_elems (es @ [e]) s f"
proof (cases f)
  case None
  then show ?thesis using assms by (auto simp: field_of_elems_def)
next
  case (Some q)
  obtain p l where q: "q = (p, l)" by (cases q)
  from assms(1) obtain xs a ys where "es = xs @ a # ys" "slot_of_elem a = Some s" "\<forall>y \<in> set ys. slot_of_elem y \<noteq> Some s"
    "p = length (enc_elems xs) + 2" "unat l = length (snd a)"
    unfolding field_of_elems_def Some q option.case prod.case by blast
  then have "es @ [e] = xs @ a # (ys @ [e]) \<and> slot_of_elem a = Some s \<and> (\<forall>y \<in> set (ys @ [e]). slot_of_elem y \<noteq> Some s) \<and>
    p = length (enc_elems xs) + 2 \<and> unat l = length (snd a)"
    using assms(2) by simp
  then show ?thesis unfolding field_of_elems_def Some q option.case prod.case by (intro exI)
qed

lemma slots_field:
  assumes "\<forall>e \<in> set es. elem_ok e"
  shows "field_of_elems es s (slots 0 es (\<lambda>_. None) s)"
  using assms
proof (induction es rule: rev_induct)
  case Nil
  then show ?case by (simp add: field_of_elems_def)
next
  case (snoc e es)
  show ?case
  proof (cases "slot_of_elem e = Some s")
    case True
    then have f: "slots 0 (es @ [e]) (\<lambda>_. None) s = Some (length (enc_elems es) + 2, of_nat (length (snd e)))"
      by (simp add: slots_append)
    have "unat (of_nat (length (snd e)) :: u8) = length (snd e)"
      using snoc.prems by (simp add: elem_ok_def unat_of_nat)
    then show ?thesis using True unfolding f field_of_elems_def option.case prod.case
      by (intro exI [of _ es] exI [of _ e] exI [of _ "[]"]) simp
  next
    case False
    then have "slots 0 (es @ [e]) (\<lambda>_. None) s = slots 0 es (\<lambda>_. None) s"
      by (cases "slot_of_elem e") (auto simp: slots_append)
    then show ?thesis using field_of_elems_miss [OF snoc.IH False] snoc.prems by simp
  qed
qed

text \<open>
  C17: The element parser is total and exact on every buffer: whatever the received bytes are, it never reads outside of
  the given length; the bytes split into complete elements and a rest that is empty or an unfinished element; the
  result is a failure just when there is a rest, and otherwise says whether some element was of no known kind; and each
  field of the result points to the body of the last element of its kind (so a later element replaces an earlier one)
  or is null when there is none.
\<close>

theorem parse_elems_complete:
  assumes "len \<le> length m"
  shows "\<exists>es r res F.
    take len m = enc_elems es @ r \<and> (\<forall>e \<in> set es. elem_ok e) \<and> (r = [] \<or> cut_elem r) \<and>
    rtw_ieee802_11_parse_elems m len = Some (res, F) \<and>
    (res = ParseFailed \<longleftrightarrow> r \<noteq> []) \<and>
    (res = ParseUnknown \<longleftrightarrow> r = [] \<and> (\<exists>e \<in> set es. slot_of_elem e = None)) \<and>
    (\<forall>s. field_of_elems es s (F s)) \<and>
    (\<forall>s p l. F s = Some (p, l) \<longrightarrow> p + unat l \<le> len)"
proof -
  obtain es r where er: "take len m = enc_elems es @ r" "\<forall>e \<in> set es. elem_ok e" "r = [] \<or> cut_elem r"
    using elems_decode by blast
  let ?res = "if r \<noteq> [] then ParseFailed else if \<exists>e \<in> set es. \<not> known_elem e then ParseUnknown else ParseOK"
  let ?F = "slots 0 es (\<lambda>_. None)"
  have m: "m = [] @ enc_elems es @ r @ drop len m" using er(1) by (metis append_Nil append_assoc append_take_drop_id)
  have len: "len = length (enc_elems es @ r)" using er(1) assms by (metis length_take min_absorb2)
  have parse: "rtw_ieee802_11_parse_elems m len = Some (?res, ?F)"
    using parse_elems_steps [OF er(2,3), of "[]" "drop len m" 0 "\<lambda>_. None"]
    unfolding m [symmetric] len [symmetric] rtw_ieee802_11_parse_elems_def by simp
  have field: "field_of_elems es s (?F s)" for s using slots_field [OF er(2)] .
  have "p + unat l \<le> len" if "?F s = Some (p, l)" for s p l
    using field [of s] that by (auto simp: field_of_elems_def len)
  then show ?thesis using er parse field
    by (intro exI [of _ es] exI [of _ r] exI [of _ ?res] exI [of _ ?F]) (auto simp: known_elem_def)
qed

theorem parse_elems_complete_witness:
  "map_option fst (rtw_ieee802_11_parse_elems [0, 1, 65, 221, 4, 0, 0x50, 0xf2, 4, 3, 1] 10) = Some ParseFailed \<and>
   (\<exists>es r res F.
    take 10 [0, 1, 65, 221, 4, 0, 0x50, 0xf2, 4, 3, 1] = enc_elems es @ r \<and> (\<forall>e \<in> set es. elem_ok e) \<and> (r = [] \<or> cut_elem r) \<and>
    rtw_ieee802_11_parse_elems [0, 1, 65, 221, 4, 0, 0x50, 0xf2, 4, 3, 1] 10 = Some (res, F) \<and>
    (res = ParseFailed \<longleftrightarrow> r \<noteq> []) \<and>
    (res = ParseUnknown \<longleftrightarrow> r = [] \<and> (\<exists>e \<in> set es. slot_of_elem e = None)) \<and>
    (\<forall>s. field_of_elems es s (F s)) \<and>
    (\<forall>s p l. F s = Some (p, l) \<longrightarrow> p + unat l \<le> 10))"
proof
  have "10 \<le> length ([0, 1, 65, 221, 4, 0, 0x50, 0xf2, 4, 3, 1] :: bytes)" by simp
  from parse_elems_complete [OF this] show "\<exists>es r res F.
    take 10 [0, 1, 65, 221, 4, 0, 0x50, 0xf2, 4, 3, 1] = enc_elems es @ r \<and> (\<forall>e \<in> set es. elem_ok e) \<and> (r = [] \<or> cut_elem r) \<and>
    rtw_ieee802_11_parse_elems [0, 1, 65, 221, 4, 0, 0x50, 0xf2, 4, 3, 1] 10 = Some (res, F) \<and>
    (res = ParseFailed \<longleftrightarrow> r \<noteq> []) \<and>
    (res = ParseUnknown \<longleftrightarrow> r = [] \<and> (\<exists>e \<in> set es. slot_of_elem e = None)) \<and>
    (\<forall>s. field_of_elems es s (F s)) \<and>
    (\<forall>s p l. F s = Some (p, l) \<longrightarrow> p + unat l \<le> 10)" .
qed (simp add: rtw_ieee802_11_parse_elems_def parse_elems_loop.simps parse_elem_def slot_of_id_def mem_byte_def mem_get_def
    rtw_ieee802_11_parse_vendor_specific_def RTW_GET_BE24_def)

end
