(* ===== verification/Rtw_Find.thy ===== *)
theory Rtw_Find
  imports Rtw_Elems
begin

text \<open>
  The searches for single elements in \<^verbatim>\<open>core/rtw_ieee80211.c\<close>: WPS, OWE, WFD, WPA, RSN and WAPI elements, and the removal
  of WFD elements. The destination of a copy is the memory from the given pointer on, or \<open>None\<close> for a null pointer. An access
  outside of the memory gives \<open>None\<close>.
\<close>

section \<open>The first element of a kind\<close>

definition MAX_IE_SZ :: nat where
  "MAX_IE_SZ = 768"

text \<open>The loop of \<^verbatim>\<open>rtw_get_wps_ie\<close>, \<^verbatim>\<open>rtw_get_owe_ie\<close> and \<^verbatim>\<open>rtw_get_wfd_ie\<close>, which differ in the test of an element.\<close>

function find_ie_loop :: "(bytes \<Rightarrow> nat \<Rightarrow> u8 \<Rightarrow> bool option) \<Rightarrow> bytes \<Rightarrow> nat \<Rightarrow> nat \<Rightarrow> (nat \<times> nat) option option" where
  "find_ie_loop hit in_ie in_len cnt =
     (if cnt + 1 + 4 < in_len then
        case mem_byte in_ie cnt of
          None \<Rightarrow> None
        | Some eid \<Rightarrow>
            if cnt + 1 + 4 \<ge> MAX_IE_SZ then Some None
            else
              (case (hit in_ie cnt eid, mem_byte in_ie (cnt + 1)) of
                 (Some True, Some l) \<Rightarrow> Some (Some (cnt, unat l + 2))
               | (Some False, Some l) \<Rightarrow> find_ie_loop hit in_ie in_len (cnt + (unat l + 2))
               | _ \<Rightarrow> None)
      else Some None)"
  by pat_completeness auto
termination
  by (relation "measure (\<lambda>(hit, in_ie, in_len, cnt). in_len - cnt)") auto

declare find_ie_loop.simps [simp del]

text \<open>The copy of a found element, if one is wanted.\<close>

definition copy_ie :: "bytes \<Rightarrow> nat \<Rightarrow> nat \<Rightarrow> bytes option \<Rightarrow> bytes option option" where
  "copy_ie in_ie cnt n dst =
     (case dst of
        None \<Rightarrow> Some None
      | Some d \<Rightarrow> (case mem_get in_ie cnt n of None \<Rightarrow> None | Some bs \<Rightarrow> map_option Some (mem_put d 0 bs)))"

text \<open>Offset of the element found, the destination and the length reported.\<close>

definition find_ie ::
  "(bytes \<Rightarrow> nat \<Rightarrow> u8 \<Rightarrow> bool option) \<Rightarrow> bytes \<Rightarrow> nat \<Rightarrow> bytes option \<Rightarrow> (nat option \<times> bytes option \<times> nat) option" where
  "find_ie hit in_ie in_len dst =
     (case find_ie_loop hit in_ie in_len 0 of
        None \<Rightarrow> None
      | Some None \<Rightarrow> Some (None, dst, 0)
      | Some (Some (cnt, n)) \<Rightarrow> map_option (\<lambda>d. (Some cnt, d, n)) (copy_ie in_ie cnt n dst))"

definition vendor_hit :: "bytes \<Rightarrow> bytes \<Rightarrow> nat \<Rightarrow> u8 \<Rightarrow> bool option" where
  "vendor_hit oui in_ie cnt eid = (if eid = 221 then oui_match in_ie (cnt + 2) (Some oui) else Some False)"

abbreviation wps_oui :: bytes where
  "wps_oui \<equiv> [0x00, 0x50, 0xf2, 0x04]"

abbreviation wfd_oui :: bytes where
  "wfd_oui \<equiv> [0x50, 0x6F, 0x9A, 0x0A]"

definition rtw_is_wps_ie :: "bytes \<Rightarrow> nat option option" where
  "rtw_is_wps_ie ie_ptr =
     (case mem_byte ie_ptr 0 of
        None \<Rightarrow> None
      | Some eid \<Rightarrow>
          (case vendor_hit wps_oui ie_ptr 0 eid of
             None \<Rightarrow> None
           | Some False \<Rightarrow> Some None
           | Some True \<Rightarrow> map_option (\<lambda>l. Some (unat l + 2)) (mem_byte ie_ptr 1)))"

definition rtw_get_wps_ie :: "bytes \<Rightarrow> nat \<Rightarrow> bytes option \<Rightarrow> (nat option \<times> bytes option \<times> nat) option" where
  "rtw_get_wps_ie = find_ie (vendor_hit wps_oui)"

text \<open>This one takes a signed length.\<close>

definition rtw_get_wfd_ie :: "bytes \<Rightarrow> int \<Rightarrow> bytes option \<Rightarrow> (nat option \<times> bytes option \<times> nat) option" where
  "rtw_get_wfd_ie in_ie in_len dst =
     (if in_len < 0 then Some (None, dst, 0) else find_ie (vendor_hit wfd_oui) in_ie (nat in_len) dst)"

definition owe_hit :: "bytes \<Rightarrow> nat \<Rightarrow> u8 \<Rightarrow> bool option" where
  "owe_hit in_ie cnt eid = (if eid = 255 then map_option (\<lambda>x. x = 32) (mem_byte in_ie (cnt + 2)) else Some False)"

definition rtw_get_owe_ie :: "bytes \<Rightarrow> nat \<Rightarrow> bytes option \<Rightarrow> (nat option \<times> bytes option \<times> nat) option" where
  "rtw_get_owe_ie = find_ie owe_hit"

text \<open>
  \<^verbatim>\<open>rtw_get_wps_ie_from_scan_queue\<close>: the offset of the element counts from behind the fixed fields. The length left for
  the elements is computed at 32 bits.
\<close>

datatype bss_type = BSS_TYPE_UNDEF | BSS_TYPE_PROB_REQ | BSS_TYPE_BCN | BSS_TYPE_PROB_RSP

definition rtw_get_wps_ie_from_scan_queue ::
  "bytes \<Rightarrow> u32 \<Rightarrow> bytes option \<Rightarrow> nat \<Rightarrow> bss_type \<Rightarrow> (nat option \<times> bytes option \<times> nat) option" where
  "rtw_get_wps_ie_from_scan_queue in_ie in_len dst wps_ielen frame_type =
     (case frame_type of
        BSS_TYPE_BCN \<Rightarrow> rtw_get_wps_ie (drop 12 in_ie) (unat (in_len - 12)) dst
      | BSS_TYPE_PROB_RSP \<Rightarrow> rtw_get_wps_ie (drop 12 in_ie) (unat (in_len - 12)) dst
      | BSS_TYPE_PROB_REQ \<Rightarrow> rtw_get_wps_ie (drop 0 in_ie) (unat (in_len - 0)) dst
      | BSS_TYPE_UNDEF \<Rightarrow> Some (None, dst, wps_ielen))"

section \<open>Searching whole elements\<close>

text \<open>A test of an element decides \<open>P\<close> on the elements that satisfy \<open>ok\<close>.\<close>

locale ie_search =
  fixes hit :: "bytes \<Rightarrow> nat \<Rightarrow> u8 \<Rightarrow> bool option" and P :: "elem \<Rightarrow> bool" and ok :: "elem \<Rightarrow> bool"
  assumes hit_code: "ok e \<Longrightarrow> hit (pre @ enc_elem e @ post) (length pre) (fst e) = Some (P e)"
    and ok_elem: "ok e \<Longrightarrow> elem_ok e"
    and P_long: "ok e \<Longrightarrow> P e \<Longrightarrow> 4 \<le> length (snd e)"
begin

lemma elem_at_short:
  assumes "\<forall>e \<in> set es. ok e" and "length (enc_elems es) \<le> 5"
  shows "elem_at P es = None"
  using assms
proof (induction es)
  case (Cons e es)
  then show ?case using P_long [of e] by force
qed simp

lemma find_ie_elems:
  assumes "\<forall>e \<in> set es. ok e" and "length pre + length (enc_elems es) \<le> MAX_IE_SZ"
  shows "find_ie_loop hit (pre @ enc_elems es @ post) (length pre + length (enc_elems es)) (length pre) =
    Some (map_option (\<lambda>(k, e). (length pre + k, length (snd e) + 2)) (elem_at P es))"
  using assms
proof (induction es arbitrary: pre)
  case Nil
  then show ?case by (subst find_ie_loop.simps) simp
next
  case (Cons e es)
  let ?m = "pre @ enc_elem e @ (enc_elems es @ post)" and ?n = "length pre + length (enc_elems (e # es))"
  show ?case
  proof (cases "length pre + 5 < ?n")
    case False
    then show ?thesis using elem_at_short [OF Cons.prems(1)] by (subst find_ie_loop.simps) simp
  next
    case True
    have ok: "ok e" using Cons.prems(1) by simp
    have b: "mem_byte ?m (length pre) = Some (fst e)" "mem_byte ?m (length pre + 1) = Some (of_nat (length (snd e)))"
      by (simp_all add: mem_byte_def enc_elem_def nth_append)
    have u: "unat (of_nat (length (snd e)) :: u8) = length (snd e)"
      using ok_elem [OF ok] by (simp add: elem_ok_def unat_of_nat)
    have step: "find_ie_loop hit ?m ?n (length pre) =
      (if P e then Some (Some (length pre, length (snd e) + 2))
       else find_ie_loop hit ?m ?n (length pre + (length (snd e) + 2)))"
      using True Cons.prems(2) by (subst find_ie_loop.simps) (simp add: b u hit_code [OF ok] flip: One_nat_def)
    have "find_ie_loop hit ((pre @ enc_elem e) @ enc_elems es @ post) (length (pre @ enc_elem e) + length (enc_elems es))
        (length (pre @ enc_elem e)) =
      Some (map_option (\<lambda>(k, e'). (length (pre @ enc_elem e) + k, length (snd e') + 2)) (elem_at P es))"
      using Cons.prems by (intro Cons.IH) simp_all
    then have "find_ie_loop hit ?m ?n (length pre + (length (snd e) + 2)) =
      Some (map_option (\<lambda>(k, e'). (length (pre @ enc_elem e) + k, length (snd e') + 2)) (elem_at P es))"
      by (simp add: algebra_simps)
    with step show ?thesis by (cases "elem_at P es") auto
  qed
qed

lemma find_ie_first:
  assumes "\<forall>e \<in> set es. ok e" and "length (enc_elems es) \<le> MAX_IE_SZ" and "\<forall>d. dst = Some d \<longrightarrow> 257 \<le> length d"
  shows "find_ie hit (enc_elems es @ post) (length (enc_elems es)) dst =
    Some (case elem_at P es of
            None \<Rightarrow> (None, dst, 0)
          | Some (k, e) \<Rightarrow> (Some k, map_option (\<lambda>d. enc_elem e @ drop (length (enc_elem e)) d) dst, length (enc_elem e)))"
proof (cases "elem_at P es")
  case None
  then show ?thesis using find_ie_elems [of es "[]" post] assms by (simp add: find_ie_def)
next
  case (Some ke)
  obtain k e where ke: "ke = (k, e)" by (cases ke)
  obtain xs ys where es: "es = xs @ e # ys" "k = length (enc_elems xs)"
    using elem_at_split [of P es k e] Some ke by blast
  have "mem_get (enc_elems es @ post) k (length (enc_elem e)) = Some (enc_elem e)"
    by (simp add: mem_get_def es)
  moreover have "length (snd e) \<le> 255" using assms(1) ok_elem [of e] by (simp add: es elem_ok_def)
  ultimately have "copy_ie (enc_elems es @ post) k (length (enc_elem e)) dst =
      Some (map_option (\<lambda>d. enc_elem e @ drop (length (enc_elem e)) d) dst)"
    using assms(3) by (cases dst) (auto simp: copy_ie_def mem_put_def)
  then show ?thesis using find_ie_elems [of es "[]" post] assms Some ke by (simp add: find_ie_def)
qed

end

section \<open>The removal of WFD elements\<close>

text \<open>
  \<^verbatim>\<open>rtw_del_wfd_ie\<close>: memory and length. The length behind the element is computed at 32 bits: an element that ends
  behind the elements makes it wrap to nearly \<open>2 ^ 32\<close>, and the move runs off the memory.
\<close>

function rtw_del_wfd_ie :: "bytes \<Rightarrow> nat \<Rightarrow> (bytes \<times> nat) option" where
  "rtw_del_wfd_ie ies ies_len =
     (case rtw_get_wfd_ie ies (sint (of_nat ies_len :: u32)) None of
        None \<Rightarrow> None
      | Some (None, _, _) \<Rightarrow> Some (ies, ies_len)
      | Some (Some target_ie, _, target_ie_len) \<Rightarrow>
          if 0 < target_ie_len then
            if target_ie + target_ie_len \<le> ies_len then
              let remain_len = ies_len - (target_ie + target_ie_len) in
              case mem_get ies (target_ie + target_ie_len) remain_len of
                None \<Rightarrow> None
              | Some bs \<Rightarrow>
                  (case mem_put ies target_ie bs of
                     None \<Rightarrow> None
                   | Some ies \<Rightarrow>
                       (case mem_put ies (target_ie + remain_len) (replicate target_ie_len 0) of
                          None \<Rightarrow> None
                        | Some ies \<Rightarrow> rtw_del_wfd_ie ies (ies_len - target_ie_len)))
            else None
          else Some (ies, ies_len))"
  by pat_completeness auto
termination
  by (relation "measure (\<lambda>(ies, ies_len). ies_len)") auto

declare rtw_del_wfd_ie.simps [simp del]

interpretation wps: ie_search "vendor_hit wps_oui" "elem_match 221 (Some wps_oui)" "elem_long 221 (Some wps_oui)"
proof
  show "vendor_hit wps_oui (pre @ enc_elem e @ post) (length pre) (fst e) = Some (elem_match 221 (Some wps_oui) e)"
    if "elem_long 221 (Some wps_oui) e" for e pre post
    using elem_match_code [OF that, of pre post] by (simp add: vendor_hit_def)
qed (auto simp: elem_long_def elem_match_def)

interpretation wfd: ie_search "vendor_hit wfd_oui" "elem_match 221 (Some wfd_oui)" "elem_long 221 (Some wfd_oui)"
proof
  show "vendor_hit wfd_oui (pre @ enc_elem e @ post) (length pre) (fst e) = Some (elem_match 221 (Some wfd_oui) e)"
    if "elem_long 221 (Some wfd_oui) e" for e pre post
    using elem_match_code [OF that, of pre post] by (simp add: vendor_hit_def)
qed (auto simp: elem_long_def elem_match_def)

text \<open>The elements an OWE search is meant for: a Diffie-Hellman element holds at least the group.\<close>

definition owe_elem :: "elem \<Rightarrow> bool" where
  "owe_elem e \<longleftrightarrow> fst e = 255 \<and> take 1 (snd e) = [32]"

definition owe_long :: "elem \<Rightarrow> bool" where
  "owe_long e \<longleftrightarrow> elem_ok e \<and> (fst e = 255 \<longrightarrow> snd e \<noteq> []) \<and> (owe_elem e \<longrightarrow> 4 \<le> length (snd e))"

interpretation owe: ie_search owe_hit owe_elem owe_long
proof
  show "owe_hit (pre @ enc_elem e @ post) (length pre) (fst e) = Some (owe_elem e)" if "owe_long e" for e pre post
    using that by (cases "snd e") (auto simp: owe_hit_def owe_elem_def owe_long_def mem_byte_def enc_elem_def nth_append)
qed (auto simp: owe_long_def)

lemma enc_elem_nonempty: "enc_elem e \<noteq> []"
  by (simp add: enc_elem_def)

lemma length_enc_filter: "length (enc_elems (filter Q es)) \<le> length (enc_elems es)"
  by (induction es) auto

lemma sint_ie_len: "n \<le> MAX_IE_SZ \<Longrightarrow> sint (of_nat n :: u32) = int n"
  by (simp add: MAX_IE_SZ_def signed_of_nat signed_take_bit_int_eq_self)

lemma del_wfd_elems:
  assumes "\<forall>e \<in> set es. elem_long 221 (Some wfd_oui) e" and "length (enc_elems es) \<le> MAX_IE_SZ"
  shows "rtw_del_wfd_ie (enc_elems es @ post) (length (enc_elems es)) =
    (let fs = filter (\<lambda>e. \<not> elem_match 221 (Some wfd_oui) e) es in
     Some (enc_elems fs @ replicate (length (enc_elems es) - length (enc_elems fs)) 0 @ post, length (enc_elems fs)))"
  using assms
proof (induction "length es" arbitrary: es post rule: less_induct)
  case less
  let ?P = "elem_match 221 (Some wfd_oui)"
  have get: "rtw_get_wfd_ie (enc_elems es @ post) (sint (of_nat (length (enc_elems es)) :: u32)) None =
    Some (case elem_at ?P es of None \<Rightarrow> (None, None, 0) | Some (k, e) \<Rightarrow> (Some k, None, length (enc_elem e)))"
    using wfd.find_ie_first [OF less.prems, of None post] less.prems(2)
    by (simp add: sint_ie_len rtw_get_wfd_ie_def case_prod_beta split: option.splits)
  show ?case
  proof (cases "elem_at ?P es")
    case None
    then have "filter (\<lambda>e. \<not> ?P e) es = es" by (auto simp: elem_at_None)
    with None get show ?thesis by (subst rtw_del_wfd_ie.simps) simp
  next
    case (Some ke)
    obtain k e where ke: "ke = (k, e)" by (cases ke)
    from elem_at_split [of ?P es k e] Some ke obtain xs ys where
      es: "es = xs @ e # ys" "k = length (enc_elems xs)" "?P e" "\<forall>x \<in> set xs. \<not> ?P x" by blast
    let ?n = "length (enc_elem e)" and ?r = "length (enc_elems ys)"
    let ?mid = "enc_elems (xs @ ys) @ drop ?r (enc_elem e @ enc_elems ys) @ post"
    have 1: "mem_get (enc_elems es @ post) (k + ?n) ?r = Some (enc_elems ys)"
      by (simp add: mem_get_def es(1,2))
    have 2: "mem_put (enc_elems es @ post) k (enc_elems ys) = Some ?mid"
      by (simp add: mem_put_def es(1,2))
    have 3: "mem_put ?mid (k + ?r) (replicate ?n 0) = Some (enc_elems (xs @ ys) @ replicate ?n 0 @ post)"
      by (simp add: mem_put_def es(2))
    have len: "length (enc_elems es) - (k + ?n) = ?r" "k + ?n \<le> length (enc_elems es)"
      "length (enc_elems es) - ?n = length (enc_elems (xs @ ys))"
      by (simp_all add: es(1,2))
    have "rtw_del_wfd_ie (enc_elems es @ post) (length (enc_elems es)) =
        rtw_del_wfd_ie (enc_elems (xs @ ys) @ replicate ?n 0 @ post) (length (enc_elems (xs @ ys)))"
      using get 1 2 3 len by (subst rtw_del_wfd_ie.simps) (simp add: Some ke Let_def enc_elem_nonempty del: length_enc_elem)
    also have "\<dots> = (let fs = filter (\<lambda>e. \<not> ?P e) (xs @ ys) in
      Some (enc_elems fs @ replicate (length (enc_elems (xs @ ys)) - length (enc_elems fs)) 0 @ replicate ?n 0 @ post, length (enc_elems fs)))"
      using less.prems by (intro less.hyps) (auto simp: es(1))
    also have "filter (\<lambda>e. \<not> ?P e) (xs @ ys) = filter (\<lambda>e. \<not> ?P e) es" using es(3) by (simp add: es(1))
    finally have "rtw_del_wfd_ie (enc_elems es @ post) (length (enc_elems es)) = (let fs = filter (\<lambda>e. \<not> ?P e) es in
      Some (enc_elems fs @ replicate (length (enc_elems (xs @ ys)) - length (enc_elems fs) + ?n) 0 @ post, length (enc_elems fs)))"
      by (simp only: replicate_add append_assoc)
    moreover have "length (enc_elems (xs @ ys)) - length (enc_elems (filter (\<lambda>e. \<not> ?P e) es)) + ?n =
        length (enc_elems es) - length (enc_elems (filter (\<lambda>e. \<not> ?P e) es))"
      using length_enc_filter [of "\<lambda>e. \<not> ?P e" "xs @ ys"] es(3) by (simp add: es(1))
    ultimately show ?thesis by (simp only: Let_def)
  qed
qed

text \<open>The elements kept in a scan result; \<open>bss_type_of\<close> is \<^verbatim>\<open>Reserved[0]\<close>, which tells a probe request.\<close>

record wlan_bssid_ex =
  IEs :: bytes
  IELength :: u32
  bss_type_of :: bss_type

definition BSS_EX_FIXED_IE_OFFSET :: "wlan_bssid_ex \<Rightarrow> nat" where
  "BSS_EX_FIXED_IE_OFFSET bss_ex = (if bss_type_of bss_ex = BSS_TYPE_PROB_REQ then 0 else 12)"

definition BSS_EX_TLV_IES_LEN :: "wlan_bssid_ex \<Rightarrow> u32" where
  "BSS_EX_TLV_IES_LEN bss_ex = IELength bss_ex - of_nat (BSS_EX_FIXED_IE_OFFSET bss_ex)"

definition rtw_bss_ex_del_wfd_ie :: "wlan_bssid_ex \<Rightarrow> wlan_bssid_ex option" where
  "rtw_bss_ex_del_wfd_ie bss_ex =
     (let off = BSS_EX_FIXED_IE_OFFSET bss_ex; ies_len_ori = BSS_EX_TLV_IES_LEN bss_ex in
      case rtw_del_wfd_ie (drop off (IEs bss_ex)) (unat ies_len_ori) of
        None \<Rightarrow> None
      | Some (ies, ies_len) \<Rightarrow>
          Some (bss_ex\<lparr>IEs := take off (IEs bss_ex) @ ies, IELength := IELength bss_ex - (ies_len_ori - of_nat ies_len)\<rparr>))"

text \<open>
  C21: Removing the WFD elements of a scan result. When the fixed fields are followed by whole elements (a vendor element
  being long enough for its OUI and type), every WFD element goes, the others and the fixed fields stay in order, the
  freed bytes at the end are cleared, what lies behind is untouched and the length is the length of what is left.
\<close>

theorem bss_ex_del_wfd_filters:
  fixes bss_ex :: wlan_bssid_ex
  defines "fs \<equiv> \<lambda>es. filter (\<lambda>e. \<not> elem_match 221 (Some wfd_oui) e) es"
  assumes "IEs bss_ex = fixed @ enc_elems es @ post" and "length fixed = BSS_EX_FIXED_IE_OFFSET bss_ex"
    and "\<forall>e \<in> set es. elem_long 221 (Some wfd_oui) e" and "length (enc_elems es) \<le> MAX_IE_SZ"
    and "IELength bss_ex = of_nat (length fixed + length (enc_elems es))"
  shows "rtw_bss_ex_del_wfd_ie bss_ex =
    Some (bss_ex\<lparr>IEs := fixed @ enc_elems (fs es) @ replicate (length (enc_elems es) - length (enc_elems (fs es))) 0 @ post,
      IELength := of_nat (length fixed + length (enc_elems (fs es)))\<rparr>)"
proof -
  have len: "BSS_EX_TLV_IES_LEN bss_ex = of_nat (length (enc_elems es))"
    using assms(3,6) by (simp add: BSS_EX_TLV_IES_LEN_def)
  have "unat (of_nat (length (enc_elems es)) :: u32) = length (enc_elems es)"
    using assms(5) by (simp add: unat_of_nat MAX_IE_SZ_def)
  then show ?thesis
    using del_wfd_elems [OF assms(4,5), of post] assms(2,3,6) len
    by (simp add: rtw_bss_ex_del_wfd_ie_def Let_def fs_def flip: assms(3))
qed

theorem bss_ex_del_wfd_filters_witness:
  "rtw_bss_ex_del_wfd_ie \<lparr>IEs = replicate 12 7 @ enc_elems [(0, [65]), (221, wfd_oui), (221, wps_oui)] @ [9, 9], IELength = 27,
      bss_type_of = BSS_TYPE_BCN\<rparr> =
    Some \<lparr>IEs = replicate 12 7 @ enc_elems [(0, [65]), (221, wps_oui)] @ replicate 6 0 @ [9, 9], IELength = 21,
      bss_type_of = BSS_TYPE_BCN\<rparr>"
  using bss_ex_del_wfd_filters [of "\<lparr>IEs = replicate 12 7 @ enc_elems [(0, [65]), (221, wfd_oui), (221, wps_oui)] @ [9, 9],
      IELength = 27, bss_type_of = BSS_TYPE_BCN\<rparr>" "replicate 12 7" "[(0, [65]), (221, wfd_oui), (221, wps_oui)]" "[9, 9]"]
  by (simp add: BSS_EX_FIXED_IE_OFFSET_def elem_long_def elem_ok_def elem_match_def MAX_IE_SZ_def) (simp add: eval_nat_numeral)

text \<open>Too short a scan result gives a negative length, which the search refuses.\<close>

lemma sint_wrapped:
  assumes "(x :: u32) < 12"
  shows "sint (x - 12) < 0"
proof -
  have "unat x < 12" using assms by (simp add: word_less_nat_alt)
  then have "unat x \<in> {0, 1, 2, 3, 4, 5, 6, 7, 8, 9, 10, 11}" unfolding insert_iff empty_iff by arith
  then have "x \<in> {0, 1, 2, 3, 4, 5, 6, 7, 8, 9, 10, 11}" by (auto simp: word_unat_eq_iff)
  then show ?thesis by auto
qed

lemma bss_ex_del_wfd_short:
  assumes "IELength bss_ex < 12" and "bss_type_of bss_ex \<noteq> BSS_TYPE_PROB_REQ"
  shows "rtw_bss_ex_del_wfd_ie bss_ex = Some bss_ex"
proof -
  have "sint (BSS_EX_TLV_IES_LEN bss_ex) < 0"
    using sint_wrapped [OF assms(1)] assms(2) by (simp add: BSS_EX_TLV_IES_LEN_def BSS_EX_FIXED_IE_OFFSET_def)
  then show ?thesis using assms
    by (simp add: rtw_bss_ex_del_wfd_ie_def Let_def rtw_del_wfd_ie.simps rtw_get_wfd_ie_def)
qed

section \<open>The first WPS and OWE elements\<close>

text \<open>What a search for the first element with \<open>P\<close> reports and copies.\<close>

definition first_found :: "(elem \<Rightarrow> bool) \<Rightarrow> elem list \<Rightarrow> bytes option \<Rightarrow> nat option \<times> bytes option \<times> nat" where
  "first_found P es dst =
     (case elem_at P es of
        None \<Rightarrow> (None, dst, 0)
      | Some (k, e) \<Rightarrow> (Some k, map_option (\<lambda>d. enc_elem e @ drop (length (enc_elem e)) d) dst, length (enc_elem e)))"

text \<open>
  The searches for WPS and OWE elements are exact on whole elements. On elements of at most \<^verbatim>\<open>MAX_IE_SZ\<close> bytes, of which
  the vendor elements are long enough for OUI and type and the extension elements for what they announce, they find the
  first element of the kind, report its offset and its whole length and copy exactly it to a destination of 257 bytes,
  or report nothing and leave the destination as it was. From a beacon or a probe response in the scan queue the search
  starts behind the fixed fields.
\<close>

theorem wps_owe_first:
  assumes "\<forall>e \<in> set es. elem_long 221 (Some wps_oui) e \<and> owe_long e" and "length (enc_elems es) \<le> MAX_IE_SZ"
    and "\<forall>d. dst = Some d \<longrightarrow> 257 \<le> length d" and "length fixed = 12"
  shows "rtw_get_wps_ie (enc_elems es @ post) (length (enc_elems es)) dst = Some (first_found (elem_match 221 (Some wps_oui)) es dst) \<and>
    rtw_get_owe_ie (enc_elems es @ post) (length (enc_elems es)) dst = Some (first_found owe_elem es dst) \<and>
    rtw_get_wps_ie_from_scan_queue (fixed @ enc_elems es @ post) (of_nat (12 + length (enc_elems es))) dst n BSS_TYPE_BCN =
      Some (first_found (elem_match 221 (Some wps_oui)) es dst)"
proof (intro conjI)
  show wps: "rtw_get_wps_ie (enc_elems es @ post) (length (enc_elems es)) dst = Some (first_found (elem_match 221 (Some wps_oui)) es dst)"
    unfolding rtw_get_wps_ie_def first_found_def using wps.find_ie_first assms by blast
  show "rtw_get_owe_ie (enc_elems es @ post) (length (enc_elems es)) dst = Some (first_found owe_elem es dst)"
    unfolding rtw_get_owe_ie_def first_found_def using owe.find_ie_first assms by blast
  have "unat (of_nat (length (enc_elems es)) :: u32) = length (enc_elems es)"
    using assms(2) by (simp add: unat_of_nat MAX_IE_SZ_def)
  then show "rtw_get_wps_ie_from_scan_queue (fixed @ enc_elems es @ post) (of_nat (12 + length (enc_elems es))) dst n BSS_TYPE_BCN =
      Some (first_found (elem_match 221 (Some wps_oui)) es dst)"
    using wps assms(4) by (simp add: rtw_get_wps_ie_from_scan_queue_def)
qed

theorem wps_owe_first_witness:
  "rtw_get_wps_ie (enc_elems [(0, [65]), (221, wps_oui @ [1])] @ [9]) 10 None = Some (Some 3, None, 7) \<and>
   rtw_get_owe_ie (enc_elems [(0, [65]), (221, wps_oui @ [1])] @ [9]) 10 None = Some (None, None, 0)"
  using wps_owe_first [of "[(0, [65]), (221, wps_oui @ [1])]" None "replicate 12 0" "[9]"]
  by (simp add: elem_long_def elem_ok_def owe_long_def owe_elem_def MAX_IE_SZ_def first_found_def elem_match_def)
    (simp add: eval_nat_numeral)

text \<open>
  With fewer bytes than the fixed fields the length left wraps around, and the search for a WPS element in a scanned
  beacon reads on behind the fixed fields, whatever the length says.
\<close>

lemma scan_queue_length_wraps:
  assumes "in_len < 12" and "length m \<le> 12"
  shows "rtw_get_wps_ie_from_scan_queue m in_len dst n BSS_TYPE_BCN = None"
proof -
  have "unat (in_len - 12) = 2 ^ 32 - 12 + unat in_len"
    using assms(1) by (simp add: unat_sub_if' word_less_nat_alt)
  then show ?thesis using assms(2)
    by (simp add: rtw_get_wps_ie_from_scan_queue_def rtw_get_wps_ie_def find_ie_def find_ie_loop.simps mem_byte_def)
qed

section \<open>The security elements of a scan result\<close>

abbreviation wpa_oui :: bytes where
  "wpa_oui \<equiv> [0x00, 0x50, 0xf2, 0x01]"

text \<open>
  \<^verbatim>\<open>rtw_get_sec_ie\<close>: the lengths \<^verbatim>\<open>*rsn_len\<close> and \<^verbatim>\<open>*wpa_len\<close> are only written when an element is found. The result
  is their sum.
\<close>

function sec_ie_loop ::
  "bytes \<Rightarrow> nat \<Rightarrow> nat \<Rightarrow> bytes option \<times> u16 \<Rightarrow> bytes option \<times> u16 \<Rightarrow> ((bytes option \<times> u16) \<times> (bytes option \<times> u16)) option" where
  "sec_ie_loop in_ie in_len cnt rsn wpa =
     (if cnt < in_len then
        case mem_byte in_ie cnt of
          None \<Rightarrow> None
        | Some authmode \<Rightarrow>
            (case (if authmode = 0xdd then oui_match in_ie (cnt + 2) (Some wpa_oui) else Some False, mem_byte in_ie (cnt + 1)) of
               (Some hit, Some l) \<Rightarrow>
                 let n = unat l + 2 in
                 if hit then
                   (case copy_ie in_ie cnt n (fst wpa) of
                      None \<Rightarrow> None
                    | Some d \<Rightarrow> sec_ie_loop in_ie in_len (cnt + n) rsn (d, of_nat n))
                 else if authmode = 0x30 then
                   (case copy_ie in_ie cnt n (fst rsn) of
                      None \<Rightarrow> None
                    | Some d \<Rightarrow> sec_ie_loop in_ie in_len (cnt + n) (d, of_nat n) wpa)
                 else sec_ie_loop in_ie in_len (cnt + n) rsn wpa
             | _ \<Rightarrow> None)
      else Some (rsn, wpa))"
  by pat_completeness auto
termination
  by (relation "measure (\<lambda>(in_ie, in_len, cnt, rsn, wpa). in_len - cnt)") (auto simp: Let_def)

declare sec_ie_loop.simps [simp del]

definition rtw_get_sec_ie ::
  "bytes \<Rightarrow> nat \<Rightarrow> bytes option \<Rightarrow> u16 \<Rightarrow> bytes option \<Rightarrow> u16 \<Rightarrow> (int \<times> (bytes option \<times> u16) \<times> (bytes option \<times> u16)) option" where
  "rtw_get_sec_ie in_ie in_len rsn_ie rsn_len wpa_ie wpa_len =
     map_option (\<lambda>(rsn, wpa). (uint (snd rsn) + uint (snd wpa), rsn, wpa))
       (sec_ie_loop in_ie in_len 12 (rsn_ie, rsn_len) (wpa_ie, wpa_len))"

text \<open>A destination and its length after the elements with \<open>P\<close> were copied to it one over the other.\<close>

fun put_elems :: "(elem \<Rightarrow> bool) \<Rightarrow> elem list \<Rightarrow> bytes option \<times> u16 \<Rightarrow> bytes option \<times> u16" where
  "put_elems P [] d = d"
| "put_elems P (e # es) d =
     put_elems P es
       (if P e then (map_option (\<lambda>x. enc_elem e @ drop (length (enc_elem e)) x) (fst d), of_nat (length (enc_elem e))) else d)"

definition dst_ok :: "bytes option \<Rightarrow> bool" where
  "dst_ok dst \<longleftrightarrow> (case dst of None \<Rightarrow> True | Some d \<Rightarrow> 257 \<le> length d)"

lemma copy_elem:
  assumes "elem_ok e" and "dst_ok dst"
  shows "copy_ie (pre @ enc_elem e @ post) (length pre) (length (snd e) + 2) dst =
    Some (map_option (\<lambda>x. enc_elem e @ drop (length (enc_elem e)) x) dst)"
    "dst_ok (map_option (\<lambda>x. enc_elem e @ drop (length (enc_elem e)) x) dst)"
  using assms by (auto simp: copy_ie_def dst_ok_def mem_get_def mem_put_def elem_ok_def split: option.splits)

lemma sec_ie_elems:
  assumes "\<forall>e \<in> set es. elem_long 221 (Some wpa_oui) e" and "dst_ok (fst rsn)" and "dst_ok (fst wpa)"
  shows "sec_ie_loop (pre @ enc_elems es @ post) (length pre + length (enc_elems es)) (length pre) rsn wpa =
    Some (put_elems (\<lambda>e. fst e = 0x30) es rsn, put_elems (elem_match 221 (Some wpa_oui)) es wpa)"
  using assms
proof (induction es arbitrary: pre rsn wpa)
  case Nil
  then show ?case by (subst sec_ie_loop.simps) simp
next
  case (Cons e es)
  let ?post = "enc_elems es @ post" and ?n = "length (pre @ enc_elem e) + length (enc_elems es)"
  let ?d = "\<lambda>d. (map_option (\<lambda>x. enc_elem e @ drop (length (enc_elem e)) x) (fst d), of_nat (length (enc_elem e)) :: u16)"
  have long: "elem_long 221 (Some wpa_oui) e" using Cons.prems(1) by simp
  then have ok: "elem_ok e" by (simp add: elem_long_def)
  have b: "mem_byte (pre @ enc_elem e @ ?post) (length pre) = Some (fst e)"
    "mem_byte (pre @ enc_elem e @ ?post) (length pre + 1) = Some (of_nat (length (snd e)))"
    by (simp_all add: mem_byte_def enc_elem_def nth_append)
  have u: "unat (of_nat (length (snd e)) :: u8) = length (snd e)" using ok by (simp add: elem_ok_def unat_of_nat)
  have m: "\<not> (fst e = 48 \<and> elem_match 221 (Some wpa_oui) e)" by (simp add: elem_match_def)
  have "sec_ie_loop (pre @ enc_elem e @ ?post) ?n (length pre) rsn wpa =
    sec_ie_loop ((pre @ enc_elem e) @ ?post) ?n (length (pre @ enc_elem e))
      (if fst e = 0x30 then ?d rsn else rsn) (if elem_match 221 (Some wpa_oui) e then ?d wpa else wpa)"
    using m copy_elem(1) [OF ok Cons.prems(2), of pre ?post] copy_elem(1) [OF ok Cons.prems(3), of pre ?post]
    by (subst sec_ie_loop.simps) (auto simp: b u elem_match_code [OF long] Let_def simp flip: One_nat_def)
  also have "\<dots> = Some (put_elems (\<lambda>e. fst e = 0x30) es (if fst e = 0x30 then ?d rsn else rsn),
      put_elems (elem_match 221 (Some wpa_oui)) es (if elem_match 221 (Some wpa_oui) e then ?d wpa else wpa))"
    using Cons.prems copy_elem(2) [OF ok] by (intro Cons.IH) auto
  finally show ?case by (simp only: put_elems.simps enc_elems_simps append_assoc length_append add.assoc)
qed

lemma put_elems_append: "put_elems P (es @ fs) d = put_elems P fs (put_elems P es d)"
  by (induction es arbitrary: d) simp_all

text \<open>What is left of a destination: the last element with \<open>P\<close>, or nothing has changed.\<close>

definition holds_last :: "(elem \<Rightarrow> bool) \<Rightarrow> elem list \<Rightarrow> bytes option \<times> u16 \<Rightarrow> bytes option \<times> u16 \<Rightarrow> bool" where
  "holds_last P es d d' \<longleftrightarrow>
     (if filter P es = [] then d' = d
      else let b = enc_elem (last (filter P es)) in
           unat (snd d') = length b \<and>
           (case fst d of
              None \<Rightarrow> fst d' = None
            | Some x \<Rightarrow> \<exists>y. fst d' = Some y \<and> length y = length x \<and> take (length b) y = b))"

lemma put_elems_length:
  assumes "\<forall>e \<in> set es. elem_ok e" and "dst_ok (fst d)"
  shows "map_option length (fst (put_elems P es d)) = map_option length (fst d)"
  using assms
proof (induction es arbitrary: d)
  case (Cons e es)
  let ?d = "map_option (\<lambda>x. enc_elem e @ drop (length (enc_elem e)) x) (fst d)"
  have "dst_ok ?d" using copy_elem(2) Cons.prems by auto
  moreover have "map_option length ?d = map_option length (fst d)"
    using Cons.prems by (cases "fst d") (auto simp: dst_ok_def elem_ok_def)
  ultimately show ?case using Cons by simp
qed simp

lemma put_elems_last:
  assumes "\<forall>e \<in> set es. elem_ok e" and "dst_ok (fst d)"
  shows "holds_last P es d (put_elems P es d)"
  using assms
proof (induction es rule: rev_induct)
  case Nil
  then show ?case by (simp add: holds_last_def)
next
  case (snoc e es)
  have len: "map_option length (fst (put_elems P es d)) = map_option length (fst d)"
    using put_elems_length snoc.prems by simp
  show ?case
  proof (cases "P e")
    case False
    then show ?thesis using snoc by (simp add: put_elems_append holds_last_def)
  next
    case True
    have "unat (of_nat (length (enc_elem e)) :: u16) = length (enc_elem e)"
      using snoc.prems by (simp add: elem_ok_def unat_of_nat del: of_nat_Suc)
    then show ?thesis using True len snoc.prems
      by (auto simp: put_elems_append holds_last_def dst_ok_def elem_ok_def Let_def simp del: of_nat_Suc split: option.splits)
  qed
qed

text \<open>
  The security elements of a scan result. On fixed fields followed by whole elements (vendor elements being long
  enough for OUI and type) \<^verbatim>\<open>rtw_get_sec_ie\<close> returns, and each destination holds the last RSN element or the last WPA
  element with its whole length, bytes behind it and a destination without an element being as they were; the result
  is the sum of both lengths. But elements that end with a lone identifier are read behind their end: with no memory
  behind, the access is outside.
\<close>

theorem get_sec_ie_last:
  assumes "\<forall>e \<in> set es. elem_long 221 (Some wpa_oui) e" and "length fixed = 12" and "dst_ok rsn_ie" and "dst_ok wpa_ie"
  shows "(\<exists>rsn wpa.
    rtw_get_sec_ie (fixed @ enc_elems es @ post) (12 + length (enc_elems es)) rsn_ie rsn_len wpa_ie wpa_len =
      Some (uint (snd rsn) + uint (snd wpa), rsn, wpa) \<and>
    holds_last (\<lambda>e. fst e = 0x30) es (rsn_ie, rsn_len) rsn \<and>
    holds_last (elem_match 221 (Some wpa_oui)) es (wpa_ie, wpa_len) wpa) \<and>
   rtw_get_sec_ie (fixed @ [eid]) 13 rsn_ie rsn_len wpa_ie wpa_len = None"
proof
  have ok: "\<forall>e \<in> set es. elem_ok e" using assms(1) by (simp add: elem_long_def)
  have "sec_ie_loop (fixed @ enc_elems es @ post) (12 + length (enc_elems es)) 12 (rsn_ie, rsn_len) (wpa_ie, wpa_len) =
    Some (put_elems (\<lambda>e. fst e = 0x30) es (rsn_ie, rsn_len), put_elems (elem_match 221 (Some wpa_oui)) es (wpa_ie, wpa_len))"
    using sec_ie_elems [OF assms(1), of "(rsn_ie, rsn_len)" "(wpa_ie, wpa_len)" fixed post] assms(2-4) by simp
  then show "\<exists>rsn wpa.
    rtw_get_sec_ie (fixed @ enc_elems es @ post) (12 + length (enc_elems es)) rsn_ie rsn_len wpa_ie wpa_len =
      Some (uint (snd rsn) + uint (snd wpa), rsn, wpa) \<and>
    holds_last (\<lambda>e. fst e = 0x30) es (rsn_ie, rsn_len) rsn \<and>
    holds_last (elem_match 221 (Some wpa_oui)) es (wpa_ie, wpa_len) wpa"
    using put_elems_last [OF ok, of "(rsn_ie, rsn_len)"] put_elems_last [OF ok, of "(wpa_ie, wpa_len)"] assms(3,4)
    unfolding rtw_get_sec_ie_def by (intro exI conjI) (simp_all del: put_elems.simps)
  have "mem_byte (fixed @ [eid]) (12 + 1) = None" using assms(2) by (simp add: mem_byte_def)
  then show "rtw_get_sec_ie (fixed @ [eid]) 13 rsn_ie rsn_len wpa_ie wpa_len = None"
    using assms(2) by (simp add: rtw_get_sec_ie_def sec_ie_loop.simps split: option.splits)
qed

theorem get_sec_ie_last_witness:
  "\<exists>rsn wpa. rtw_get_sec_ie (replicate 12 7 @ enc_elems [(0x30, [1, 0]), (221, wpa_oui), (0x30, [2, 0, 5])] @ [9]) 27
      (Some (replicate 257 1)) 0 None 0 = Some (uint (snd rsn) + uint (snd wpa), rsn, wpa) \<and>
    unat (snd rsn) = 5 \<and> (\<exists>y. fst rsn = Some y \<and> take 5 y = [0x30, 3, 2, 0, 5]) \<and> unat (snd wpa) = 6"
proof -
  have "12 + length (enc_elems [(0x30, [1, 0]), (221, wpa_oui), (0x30, [2, 0, 5])]) = 27" by simp
  moreover have "take 5 y = take (Suc (Suc (Suc (Suc (Suc 0))))) y" for y :: bytes by (simp add: eval_nat_numeral)
  ultimately show ?thesis
    using get_sec_ie_last [of "[(0x30, [1, 0]), (221, wpa_oui), (0x30, [2, 0, 5])]" "replicate 12 7" "Some (replicate 257 1)" None
      "[9]" 0 0 1]
    by (auto simp: elem_long_def elem_ok_def elem_match_def dst_ok_def holds_last_def Let_def enc_elem_def)
qed

section \<open>The first WPA element\<close>

lemma search_moves:
  assumes "\<not> limit - (int p + int a) - 2 \<le> uint (b :: u8)"
  shows "int p < limit \<and> - uint b - 2 < int a"
proof -
  have "0 \<le> uint b" by simp
  with assms show ?thesis by linarith
qed

text \<open>
  The loop of \<^verbatim>\<open>rtw_get_wpa_ie\<close>: \<open>p\<close> is \<^verbatim>\<open>pbuf\<close> and \<open>limit_new\<close> the bytes left from there. The element's offset and the
  length of its body.
\<close>

function wpa_ie_loop :: "bytes \<Rightarrow> int \<Rightarrow> nat \<Rightarrow> int \<Rightarrow> (nat \<times> u8) option option" where
  "wpa_ie_loop pie limit p limit_new =
     (case rtw_get_ie (drop p pie) 0xdd limit_new of
        None \<Rightarrow> None
      | Some None \<Rightarrow> Some None
      | Some (Some (k, len)) \<Rightarrow>
          let p = p + k in
          (case mem_get pie (p + 2) 4 of
             None \<Rightarrow> None
           | Some oui \<Rightarrow>
               (case (if oui = wpa_oui then map_option (\<lambda>val16. val16 = 0x0001) (RTW_GET_LE16 pie (p + 6)) else Some False) of
                  None \<Rightarrow> None
                | Some True \<Rightarrow> Some (Some (p, len))
                | Some False \<Rightarrow>
                    let limit_new = limit - int p - 2 - int (unat len) in
                    if limit_new \<le> 0 then Some None else wpa_ie_loop pie limit (p + (2 + unat len)) limit_new)))"
  by pat_completeness auto
termination
  by (relation "measure (\<lambda>(pie, limit, p, limit_new). nat (limit - int p))") (auto dest!: search_moves)

declare wpa_ie_loop.simps [simp del]

definition rtw_get_wpa_ie :: "bytes \<Rightarrow> int \<Rightarrow> (nat \<times> u8) option option" where
  "rtw_get_wpa_ie pie limit = wpa_ie_loop pie limit 0 limit"

definition rtw_get_wpa2_ie :: "bytes \<Rightarrow> int \<Rightarrow> (nat \<times> u8) option option" where
  "rtw_get_wpa2_ie pie limit = rtw_get_ie pie 0x30 limit"

definition wpa_elem :: "elem \<Rightarrow> bool" where
  "wpa_elem e \<longleftrightarrow> fst e = 221 \<and> take 6 (snd e) = wpa_oui @ [1, 0]"

definition wpa_long :: "elem \<Rightarrow> bool" where
  "wpa_long e \<longleftrightarrow> elem_ok e \<and>
     (fst e = 221 \<longrightarrow> 4 \<le> length (snd e) \<and> (take 4 (snd e) = wpa_oui \<longrightarrow> 6 \<le> length (snd e)))"

lemma elem_at_skip:
  assumes "\<forall>x \<in> set xs. \<not> P x"
  shows "elem_at P (xs @ es) = map_option (\<lambda>(k, e). (length (enc_elems xs) + k, e)) (elem_at P es)"
  using assms by (induction xs) (simp, cases "elem_at P es"; auto)+

lemma two_bytes: "n + 2 \<le> length xs \<Longrightarrow> \<exists>a b r. xs = take n xs @ a # b # r"
  by (metis (no_types) Cons_nth_drop_Suc add_2_eq_Suc' append_take_drop_id Suc_le_lessD Suc_lessD)

lemma le16_value_bytes:
  fixes a b :: u8
  defines "w \<equiv> push_bit 8 (ucast b) OR ucast a :: u16"
  shows "ucast w = a" "ucast (drop_bit 8 w) = b"
  unfolding w_def by (rule bit_word_eqI; simp add: bit_simps not_bit_u8 add.commute; fail)+

lemma le16_is_1: "push_bit 8 (ucast b) OR ucast a = (1 :: u16) \<longleftrightarrow> (a :: u8) = 1 \<and> (b :: u8) = 0"
proof
  assume w: "push_bit 8 (ucast b) OR ucast a = (1 :: u16)"
  have "ucast (1 :: u16) = a" "ucast (drop_bit 8 (1 :: u16)) = b" unfolding w [symmetric] by (rule le16_value_bytes)+
  then show "a = 1 \<and> b = 0" by auto
qed simp

lemma wpa_version_code:
  assumes "wpa_long e" and "fst e = 221"
  shows "\<exists>oui. mem_get (pre @ enc_elem e @ post) (length pre + 2) 4 = Some oui \<and>
    (if oui = wpa_oui then map_option (\<lambda>v. v = 1) (RTW_GET_LE16 (pre @ enc_elem e @ post) (length pre + 6)) else Some False) =
    Some (wpa_elem e)"
proof -
  have get: "mem_get (pre @ enc_elem e @ post) (length pre + 2) 4 = Some (take 4 (snd e))"
    using assms by (simp add: mem_get_def enc_elem_def wpa_long_def)
  show ?thesis
  proof (cases "take 4 (snd e) = wpa_oui")
    case False
    have "take 4 (snd e) = wpa_oui" if "take 6 (snd e) = wpa_oui @ [1, 0]"
      using arg_cong [OF that, of "take 4"] by (simp add: min_def)
    with False have "\<not> wpa_elem e" by (auto simp: wpa_elem_def)
    then show ?thesis using get False by simp
  next
    case True
    then have "4 + 2 \<le> length (snd e)" using assms by (simp add: wpa_long_def)
    with True obtain a b r where e: "snd e = wpa_oui @ a # b # r" using two_bytes by metis
    have "RTW_GET_LE16 (pre @ enc_elem e @ post) (length pre + 6) = Some (push_bit 8 (ucast b) OR ucast a)"
      by (simp add: RTW_GET_LE16_def mem_byte_def enc_elem_def e nth_append)
    then show ?thesis using get True by (simp add: e wpa_elem_def assms(2) le16_is_1)
  qed
qed

lemma enc_elems_empty: "enc_elems es = [] \<longleftrightarrow> es = []"
  by (cases es) (simp_all add: enc_elem_def)

lemma wpa_ie_step:
  assumes "rtw_get_ie (drop p m) 0xdd l = Some (Some (k, len))" and "mem_get m (p + k + 2) 4 = Some oui"
    and "(if oui = wpa_oui then map_option (\<lambda>v. v = 1) (RTW_GET_LE16 m (p + k + 6)) else Some False) = Some b"
    and "l' = limit - int (p + k) - 2 - int (unat len)"
  shows "wpa_ie_loop m limit p l =
    (if b then Some (Some (p + k, len)) else if l' \<le> 0 then Some None else wpa_ie_loop m limit (p + k + (2 + unat len)) l')"
  unfolding assms(4) by (subst wpa_ie_loop.simps) (simp only: assms Let_def option.case prod.case bool.case split: bool.split, simp)

lemma wpa_ie_loop_elems:
  assumes "\<forall>e \<in> set es. wpa_long e" and "es \<noteq> []"
  shows "wpa_ie_loop (pre @ enc_elems es @ post) (int (length pre + length (enc_elems es))) (length pre) (int (length (enc_elems es))) =
    Some (map_option (\<lambda>(k, e). (length pre + k, of_nat (length (snd e)))) (elem_at wpa_elem es))"
  using assms
proof (induction "length es" arbitrary: es pre rule: less_induct)
  case less
  let ?V = "\<lambda>e :: elem. uint (fst e) = 0xdd" and ?m = "pre @ enc_elems es @ post"
  have V: "?V e \<longleftrightarrow> fst e = 221" for e by (simp add: word_uint_eq_iff)
  have W: "wpa_elem e \<Longrightarrow> ?V e" for e by (simp add: wpa_elem_def)
  have ok: "\<forall>e \<in> set es. elem_ok e" using less.prems(1) by (auto simp: wpa_long_def)
  have ne: "enc_elems es \<noteq> []" using less.prems(2) by (simp add: enc_elems_empty)
  have search: "rtw_get_ie (drop (length pre) ?m) 0xdd (int (length (enc_elems es))) =
      Some (map_option (\<lambda>(k, e). (k, of_nat (length (snd e)))) (elem_at ?V es))"
    using get_ie_loop_elems [OF ok less.prems(2), of "[]" post "0xdd"] ne by (simp add: rtw_get_ie_def)
  show ?case
  proof (cases "elem_at ?V es")
    case None
    then have "elem_at wpa_elem es = None" using W unfolding elem_at_None by blast
    then show ?thesis using search None by (subst wpa_ie_loop.simps) simp
  next
    case (Some ke)
    obtain k e where ke: "ke = (k, e)" by (cases ke)
    from elem_at_split [of ?V es k e] Some ke obtain xs ys where
      es: "es = xs @ e # ys" "k = length (enc_elems xs)" "?V e" "\<forall>x \<in> set xs. \<not> ?V x" by blast
    have skip: "\<forall>x \<in> set xs. \<not> wpa_elem x" using es(4) W by blast
    have long: "wpa_long e" "elem_ok e" using less.prems(1) by (auto simp: es(1) wpa_long_def)
    have u: "unat (of_nat (length (snd e)) :: u8) = length (snd e)" using long(2) by (simp add: elem_ok_def unat_of_nat)
    have m: "?m = (pre @ enc_elems xs) @ enc_elem e @ (enc_elems ys @ post)" by (simp add: es(1))
    have lp: "length pre + k = length (pre @ enc_elems xs)" by (simp add: es(2))
    obtain oui where oui: "mem_get ?m (length pre + k + 2) 4 = Some oui"
      "(if oui = wpa_oui then map_option (\<lambda>v. v = 1) (RTW_GET_LE16 ?m (length pre + k + 6)) else Some False) = Some (wpa_elem e)"
      using wpa_version_code [OF long(1), of "pre @ enc_elems xs" "enc_elems ys @ post"] es(3) V unfolding m lp by blast
    have lim: "int (length (enc_elems ys)) =
        int (length pre + length (enc_elems es)) - int (length pre + k) - 2 - int (unat (of_nat (length (snd e)) :: u8))"
      unfolding u by (simp add: es(1,2))
    let ?p = "pre @ enc_elems xs @ enc_elem e"
    have step: "wpa_ie_loop ?m (int (length pre + length (enc_elems es))) (length pre) (int (length (enc_elems es))) =
      (if wpa_elem e then Some (Some (length pre + k, of_nat (length (snd e))))
       else if ys = [] then Some None
       else wpa_ie_loop (?p @ enc_elems ys @ post) (int (length ?p + length (enc_elems ys))) (length ?p) (int (length (enc_elems ys))))"
    proof -
      have "rtw_get_ie (drop (length pre) ?m) 0xdd (int (length (enc_elems es))) = Some (Some (k, of_nat (length (snd e))))"
        using search Some ke by simp
      note S = wpa_ie_step [OF this oui lim]
      show ?thesis unfolding S u using enc_elems_empty [of ys] by (simp add: es(1,2) algebra_simps)
    qed
    show ?thesis
    proof (cases "wpa_elem e \<or> ys = []")
      case True
      then show ?thesis unfolding step using elem_at_skip [of xs wpa_elem "e # ys"] skip es(1,2) by auto
    next
      case False
      have "wpa_ie_loop (?p @ enc_elems ys @ post) (int (length ?p + length (enc_elems ys))) (length ?p) (int (length (enc_elems ys))) =
        Some (map_option (\<lambda>(k, e). (length ?p + k, of_nat (length (snd e)))) (elem_at wpa_elem ys))"
        using less.prems(1) False by (intro less.hyps) (auto simp: es(1))
      then show ?thesis unfolding step using elem_at_skip [of xs wpa_elem "e # ys"] skip False es(1)
        by (cases "elem_at wpa_elem ys") auto
    qed
  qed
qed

text \<open>
  The search for the WPA element skips what only looks like one. On whole elements (vendor elements being long enough
  for OUI, type and version) \<^verbatim>\<open>rtw_get_wpa_ie\<close> returns, and finds the first vendor element with the WPA OUI, type 1 and
  version 1, however many other vendor elements stand before it, or nothing when there is none.
\<close>

theorem get_wpa_ie_first:
  assumes "\<forall>e \<in> set es. wpa_long e"
  shows "rtw_get_wpa_ie (enc_elems es @ post) (int (length (enc_elems es))) =
    Some (map_option (\<lambda>(k, e). (k, of_nat (length (snd e)))) (elem_at wpa_elem es))"
proof (cases "es = []")
  case True
  then show ?thesis by (simp add: rtw_get_wpa_ie_def rtw_get_ie_def wpa_ie_loop.simps)
next
  case False
  then show ?thesis using wpa_ie_loop_elems [OF assms False, of "[]" post] by (simp add: rtw_get_wpa_ie_def)
qed

theorem get_wpa_ie_first_witness:
  "rtw_get_wpa_ie (enc_elems [(221, wpa_oui @ [2, 0]), (0, [65]), (221, wps_oui), (221, wpa_oui @ [1, 0, 7])] @ [9]) 26 =
    Some (Some (17, 7))"
  using get_wpa_ie_first [of "[(221, wpa_oui @ [2, 0]), (0, [65]), (221, wps_oui), (221, wpa_oui @ [1, 0, 7])]" "[9]"]
  by (simp add: wpa_long_def elem_ok_def wpa_elem_def)

section \<open>The last WAPI element\<close>

text \<open>\<^verbatim>\<open>rtw_get_wapi_ie\<close> with a place for the length, as both callers give it: the length, the destination and \<^verbatim>\<open>*wapi_len\<close>.\<close>

definition wapi_oui1 :: bytes where
  "wapi_oui1 = [0x0, 0x14, 0x72, 0x01]"

definition wapi_oui2 :: bytes where
  "wapi_oui2 = [0x0, 0x14, 0x72, 0x02]"

function wapi_ie_loop :: "bytes \<Rightarrow> nat \<Rightarrow> nat \<Rightarrow> bytes option \<times> u16 \<Rightarrow> (bytes option \<times> u16) option" where
  "wapi_ie_loop in_ie in_len cnt wapi =
     (if cnt < in_len then
        case mem_byte in_ie cnt of
          None \<Rightarrow> None
        | Some authmode \<Rightarrow>
            (case (if authmode = 68 then map_option (\<lambda>oui. oui = wapi_oui1 \<or> oui = wapi_oui2) (mem_get in_ie (cnt + 6) 4) else Some False,
                   mem_byte in_ie (cnt + 1)) of
               (Some hit, Some l) \<Rightarrow>
                 let n = unat l + 2 in
                 if hit then
                   (case copy_ie in_ie cnt n (fst wapi) of
                      None \<Rightarrow> None
                    | Some d \<Rightarrow> wapi_ie_loop in_ie in_len (cnt + n) (d, of_nat n))
                 else wapi_ie_loop in_ie in_len (cnt + n) wapi
             | _ \<Rightarrow> None)
      else Some wapi)"
  by pat_completeness auto
termination
  by (relation "measure (\<lambda>(in_ie, in_len, cnt, wapi). in_len - cnt)") (auto simp: Let_def)

declare wapi_ie_loop.simps [simp del]

definition rtw_get_wapi_ie :: "bytes \<Rightarrow> nat \<Rightarrow> bytes option \<Rightarrow> (int \<times> bytes option \<times> u16) option" where
  "rtw_get_wapi_ie in_ie in_len wapi_ie =
     (if in_len = 0 then Some (0, wapi_ie, 0)
      else map_option (\<lambda>wapi. (uint (snd wapi), wapi)) (wapi_ie_loop in_ie in_len 12 (wapi_ie, 0)))"

definition wapi_elem :: "elem \<Rightarrow> bool" where
  "wapi_elem e \<longleftrightarrow> fst e = 68 \<and> take 4 (drop 4 (snd e)) \<in> {wapi_oui1, wapi_oui2}"

definition wapi_long :: "elem \<Rightarrow> bool" where
  "wapi_long e \<longleftrightarrow> elem_ok e \<and> (fst e = 68 \<longrightarrow> 8 \<le> length (snd e))"

lemma wapi_ie_elems:
  assumes "\<forall>e \<in> set es. wapi_long e" and "dst_ok (fst wapi)"
  shows "wapi_ie_loop (pre @ enc_elems es @ post) (length pre + length (enc_elems es)) (length pre) wapi =
    Some (put_elems wapi_elem es wapi)"
  using assms
proof (induction es arbitrary: pre wapi)
  case Nil
  then show ?case by (subst wapi_ie_loop.simps) simp
next
  case (Cons e es)
  let ?post = "enc_elems es @ post" and ?n = "length (pre @ enc_elem e) + length (enc_elems es)"
  let ?d = "(map_option (\<lambda>x. enc_elem e @ drop (length (enc_elem e)) x) (fst wapi), of_nat (length (enc_elem e)) :: u16)"
  have ok: "elem_ok e" and long: "fst e = 68 \<Longrightarrow> 8 \<le> length (snd e)" using Cons.prems(1) by (simp_all add: wapi_long_def)
  have b: "mem_byte (pre @ enc_elem e @ ?post) (length pre) = Some (fst e)"
    "mem_byte (pre @ enc_elem e @ ?post) (length pre + 1) = Some (of_nat (length (snd e)))"
    by (simp_all add: mem_byte_def enc_elem_def nth_append)
  have u: "unat (of_nat (length (snd e)) :: u8) = length (snd e)" using ok by (simp add: elem_ok_def unat_of_nat)
  have g: "mem_get (pre @ enc_elem e @ ?post) (length pre + 6) 4 = Some (take 4 (drop 4 (snd e)))" if "fst e = 68"
    using long [OF that] by (simp add: mem_get_def enc_elem_def)
  have "wapi_ie_loop (pre @ enc_elem e @ ?post) ?n (length pre) wapi =
    wapi_ie_loop ((pre @ enc_elem e) @ ?post) ?n (length (pre @ enc_elem e)) (if wapi_elem e then ?d else wapi)"
    using g copy_elem(1) [OF ok Cons.prems(2), of pre ?post]
    by (subst wapi_ie_loop.simps) (auto simp: b u wapi_elem_def Let_def simp flip: One_nat_def)
  also have "\<dots> = Some (put_elems wapi_elem es (if wapi_elem e then ?d else wapi))"
    using Cons.prems copy_elem(2) [OF ok] by (intro Cons.IH) auto
  finally show ?case by (simp only: put_elems.simps enc_elems_simps append_assoc length_append add.assoc)
qed

text \<open>The last WAPI element is found in the same way; without one the length is zero.\<close>

lemma get_wapi_ie_last:
  assumes "\<forall>e \<in> set es. wapi_long e" and "length fixed = 12" and "dst_ok wapi_ie"
  shows "\<exists>wapi. rtw_get_wapi_ie (fixed @ enc_elems es @ post) (12 + length (enc_elems es)) wapi_ie = Some (uint (snd wapi), wapi) \<and>
    holds_last wapi_elem es (wapi_ie, 0) wapi"
proof -
  have "\<forall>e \<in> set es. elem_ok e" using assms(1) by (simp add: wapi_long_def)
  then have "holds_last wapi_elem es (wapi_ie, 0) (put_elems wapi_elem es (wapi_ie, 0))"
    using put_elems_last assms(3) by simp
  then show ?thesis using wapi_ie_elems [OF assms(1), of "(wapi_ie, 0)" fixed post] assms(2,3)
    by (intro exI [of _ "put_elems wapi_elem es (wapi_ie, 0)"]) (simp add: rtw_get_wapi_ie_def)
qed

end
