(* ===== verification/Rtw_Rf.thy ===== *)
theory Rtw_Rf
  imports Phl_Prelude "HOL-Library.Signed_Division"
begin

text \<open>
  Channel arithmetic of the core and the PHL, \<^verbatim>\<open>core/rtw_rf.c\<close> and the end of \<^verbatim>\<open>phl/phl_chan.c\<close>: the tables of center
  channels and of the channels they consist of, offsets, frequencies, operating classes. Channel numbers are 8 bits wide.
  A result that is only written when the function answers that it is valid is an option.
\<close>

section \<open>Center channels\<close>

abbreviation CHANNEL_WIDTH_20 :: u8 where "CHANNEL_WIDTH_20 \<equiv> 0"
abbreviation CHANNEL_WIDTH_40 :: u8 where "CHANNEL_WIDTH_40 \<equiv> 1"
abbreviation CHANNEL_WIDTH_80 :: u8 where "CHANNEL_WIDTH_80 \<equiv> 2"
abbreviation CHANNEL_WIDTH_160 :: u8 where "CHANNEL_WIDTH_160 \<equiv> 3"
abbreviation CHANNEL_WIDTH_80_80 :: u8 where "CHANNEL_WIDTH_80_80 \<equiv> 4"
abbreviation CHANNEL_WIDTH_5 :: u8 where "CHANNEL_WIDTH_5 \<equiv> 5"
abbreviation CHANNEL_WIDTH_10 :: u8 where "CHANNEL_WIDTH_10 \<equiv> 6"
abbreviation CHANNEL_WIDTH_MAX :: u8 where "CHANNEL_WIDTH_MAX \<equiv> 7"

abbreviation HAL_PRIME_CHNL_OFFSET_DONT_CARE :: u8 where "HAL_PRIME_CHNL_OFFSET_DONT_CARE \<equiv> 0"
abbreviation HAL_PRIME_CHNL_OFFSET_LOWER :: u8 where "HAL_PRIME_CHNL_OFFSET_LOWER \<equiv> 1"
abbreviation HAL_PRIME_CHNL_OFFSET_UPPER :: u8 where "HAL_PRIME_CHNL_OFFSET_UPPER \<equiv> 2"

definition center_ch_2g :: "u8 list" where
  "center_ch_2g = [1, 2, 3, 4, 5, 6, 7, 8, 9, 10, 11, 12, 13, 14]"

definition center_ch_2g_40m :: "u8 list" where
  "center_ch_2g_40m = [3, 4, 5, 6, 7, 8, 9, 10, 11]"

definition op_chs_of_cch_2g_40m :: "u8 list list" where
  "op_chs_of_cch_2g_40m = [[1, 5], [2, 6], [3, 7], [4, 8], [5, 9], [6, 10], [7, 11], [8, 12], [9, 13]]"

definition center_ch_5g_20m :: "u8 list" where
  "center_ch_5g_20m =
     [36, 40, 44, 48, 52, 56, 60, 64, 100, 104, 108, 112, 116, 120, 124, 128, 132, 136, 140, 144,
      149, 153, 157, 161, 165, 169, 173, 177]"

definition center_ch_5g_40m :: "u8 list" where
  "center_ch_5g_40m = [38, 46, 54, 62, 102, 110, 118, 126, 134, 142, 151, 159, 167, 175]"

definition op_chs_of_cch_5g_40m :: "u8 list list" where
  "op_chs_of_cch_5g_40m =
     [[36, 40], [44, 48], [52, 56], [60, 64], [100, 104], [108, 112], [116, 120], [124, 128], [132, 136], [140, 144],
      [149, 153], [157, 161], [165, 169], [173, 177]]"

definition center_ch_5g_80m :: "u8 list" where
  "center_ch_5g_80m = [42, 58, 106, 122, 138, 155, 171]"

definition op_chs_of_cch_5g_80m :: "u8 list list" where
  "op_chs_of_cch_5g_80m =
     [[36, 40, 44, 48], [52, 56, 60, 64], [100, 104, 108, 112], [116, 120, 124, 128], [132, 136, 140, 144],
      [149, 153, 157, 161], [165, 169, 173, 177]]"

definition center_ch_5g_160m :: "u8 list" where
  "center_ch_5g_160m = [50, 114, 163]"

definition op_chs_of_cch_5g_160m :: "u8 list list" where
  "op_chs_of_cch_5g_160m =
     [[36, 40, 44, 48, 52, 56, 60, 64], [100, 104, 108, 112, 116, 120, 124, 128],
      [149, 153, 157, 161, 165, 169, 173, 177]]"

text \<open>The tables by bandwidth; an entry of the tables of operating channels is the number per center channel and the array.\<close>

definition center_chs_2g_by_bw :: "u8 list list" where
  "center_chs_2g_by_bw = [center_ch_2g, center_ch_2g_40m]"

definition center_chs_5g_by_bw :: "u8 list list" where
  "center_chs_5g_by_bw = [center_ch_5g_20m, center_ch_5g_40m, center_ch_5g_80m, center_ch_5g_160m]"

definition op_chs_of_cch_2g_by_bw :: "(nat \<times> u8 list) list" where
  "op_chs_of_cch_2g_by_bw = [(1, center_ch_2g), (2, concat op_chs_of_cch_2g_40m)]"

definition op_chs_of_cch_5g_by_bw :: "(nat \<times> u8 list) list" where
  "op_chs_of_cch_5g_by_bw =
     [(1, center_ch_5g_20m), (2, concat op_chs_of_cch_5g_40m), (4, concat op_chs_of_cch_5g_80m),
      (8, concat op_chs_of_cch_5g_160m)]"

definition center_chs_2g_num :: "u8 \<Rightarrow> nat" where
  "center_chs_2g_num bw = (if bw > CHANNEL_WIDTH_40 then 0 else length (center_chs_2g_by_bw ! unat bw))"

definition center_chs_2g :: "u8 \<Rightarrow> nat \<Rightarrow> u8" where
  "center_chs_2g bw i =
     (if bw > CHANNEL_WIDTH_40 then 0 else if i \<ge> center_chs_2g_num bw then 0 else center_chs_2g_by_bw ! unat bw ! i)"

definition center_chs_5g_num :: "u8 \<Rightarrow> nat" where
  "center_chs_5g_num bw = (if bw > CHANNEL_WIDTH_160 then 0 else length (center_chs_5g_by_bw ! unat bw))"

definition center_chs_5g :: "u8 \<Rightarrow> nat \<Rightarrow> u8" where
  "center_chs_5g bw i =
     (if bw > CHANNEL_WIDTH_160 then 0 else if i \<ge> center_chs_5g_num bw then 0 else center_chs_5g_by_bw ! unat bw ! i)"

text \<open>The first index of a channel in a table, or the length of the table.\<close>

fun index_of :: "u8 \<Rightarrow> u8 list \<Rightarrow> nat" where
  "index_of c [] = 0"
| "index_of c (x # xs) = (if c = x then 0 else Suc (index_of c xs))"

definition rtw_get_scch_by_cch_offset :: "u8 \<Rightarrow> u8 \<Rightarrow> u8 \<Rightarrow> u8" where
  "rtw_get_scch_by_cch_offset cch bw offset =
     (if bw = CHANNEL_WIDTH_20 then cch
      else if offset = HAL_PRIME_CHNL_OFFSET_DONT_CARE then 0
      else if cch \<ge> 3 \<and> cch \<le> 11 \<and> bw = CHANNEL_WIDTH_40 then
        (if offset = HAL_PRIME_CHNL_OFFSET_UPPER then cch + 2 else cch - 2)
      else if cch \<ge> 50 \<and> cch \<le> 163 \<and> bw = CHANNEL_WIDTH_160 then
        (if offset = HAL_PRIME_CHNL_OFFSET_UPPER then cch + 8 else cch - 8)
      else if cch \<ge> 42 \<and> cch \<le> 171 \<and> bw = CHANNEL_WIDTH_80 then
        (if offset = HAL_PRIME_CHNL_OFFSET_UPPER then cch + 4 else cch - 4)
      else if cch \<ge> 38 \<and> cch \<le> 175 \<and> bw = CHANNEL_WIDTH_40 then
        (if offset = HAL_PRIME_CHNL_OFFSET_UPPER then cch + 2 else cch - 2)
      else 0)"

definition rtw_get_scch_by_cch_opch :: "u8 \<Rightarrow> u8 \<Rightarrow> u8 \<Rightarrow> u8" where
  "rtw_get_scch_by_cch_opch cch bw opch =
     rtw_get_scch_by_cch_offset cch bw
       (if opch > cch then HAL_PRIME_CHNL_OFFSET_UPPER
        else if opch < cch then HAL_PRIME_CHNL_OFFSET_LOWER else HAL_PRIME_CHNL_OFFSET_DONT_CARE)"

definition rtw_get_op_chs_by_cch_bw :: "u8 \<Rightarrow> u8 \<Rightarrow> u8 list option" where
  "rtw_get_op_chs_by_cch_bw cch bw =
     (let search = (\<lambda>c_chs (op_ch_num, op_chs).
            let i = index_of cch c_chs in
            if i = length c_chs then None else Some (take op_ch_num (drop (op_ch_num * i) op_chs))) in
      if cch \<le> 14 \<and> bw \<le> CHANNEL_WIDTH_40 then search (center_chs_2g_by_bw ! unat bw) (op_chs_of_cch_2g_by_bw ! unat bw)
      else if cch \<ge> 36 \<and> cch \<le> 177 \<and> bw \<le> CHANNEL_WIDTH_160 then
        search (center_chs_5g_by_bw ! unat bw) (op_chs_of_cch_5g_by_bw ! unat bw)
      else None)"

text \<open>\<^verbatim>\<open>rtw_get_offset_by_chbw\<close> with \<open>r_offset\<close> the offset asked for: the offset, if there is one.\<close>

definition rtw_get_offset_by_chbw :: "u8 \<Rightarrow> u8 \<Rightarrow> u8 \<Rightarrow> u8 option" where
  "rtw_get_offset_by_chbw ch bw r_offset =
     (if bw = CHANNEL_WIDTH_20 then Some HAL_PRIME_CHNL_OFFSET_DONT_CARE
      else if bw \<ge> CHANNEL_WIDTH_80 \<and> ch \<le> 14 then None
      else if ch \<ge> 1 \<and> ch \<le> 4 then Some HAL_PRIME_CHNL_OFFSET_LOWER
      else if ch \<ge> 5 \<and> ch \<le> 9 then
        Some (if r_offset = HAL_PRIME_CHNL_OFFSET_LOWER \<or> r_offset = HAL_PRIME_CHNL_OFFSET_UPPER then r_offset
              else HAL_PRIME_CHNL_OFFSET_UPPER)
      else if ch \<ge> 10 \<and> ch \<le> 13 then Some HAL_PRIME_CHNL_OFFSET_UPPER
      else if ch = 14 then None
      else if ch \<ge> 36 \<and> ch \<le> 177 then
        if ch \<in> set [36, 44, 52, 60, 100, 108, 116, 124, 132, 140, 149, 157, 165, 173] then Some HAL_PRIME_CHNL_OFFSET_LOWER
        else if ch \<in> set [40, 48, 56, 64, 104, 112, 120, 128, 136, 144, 153, 161, 169, 177] then Some HAL_PRIME_CHNL_OFFSET_UPPER
        else None
      else None)"

definition rtw_get_center_ch :: "u8 \<Rightarrow> u8 \<Rightarrow> u8 \<Rightarrow> u8" where
  "rtw_get_center_ch ch bw offset =
     (if bw = CHANNEL_WIDTH_160 then
        if ch mod 4 = 0 then (if ch \<ge> 36 \<and> ch \<le> 64 then 50 else if ch \<ge> 100 \<and> ch \<le> 128 then 114 else ch)
        else if ch mod 4 = 1 then (if ch \<ge> 149 \<and> ch \<le> 177 then 163 else ch)
        else ch
      else if bw = CHANNEL_WIDTH_80 then
        if ch \<le> 14 then 7
        else if ch mod 4 = 0 then
          (if ch \<ge> 36 \<and> ch \<le> 48 then 42 else if ch \<ge> 52 \<and> ch \<le> 64 then 58 else if ch \<ge> 100 \<and> ch \<le> 112 then 106
           else if ch \<ge> 116 \<and> ch \<le> 128 then 122 else if ch \<ge> 132 \<and> ch \<le> 144 then 138 else ch)
        else if ch mod 4 = 1 then
          (if ch \<ge> 149 \<and> ch \<le> 161 then 155 else if ch \<ge> 165 \<and> ch \<le> 177 then 171 else ch)
        else ch
      else if bw = CHANNEL_WIDTH_40 then
        if offset = HAL_PRIME_CHNL_OFFSET_LOWER then ch + 2
        else if offset = HAL_PRIME_CHNL_OFFSET_UPPER then ch - 2 else ch
      else ch)"

datatype BAND_TYPE = BAND_ON_24G | BAND_ON_5G | BAND_MAX

text \<open>\<^verbatim>\<open>rtw_get_ch_group\<close>: the band, and the values written to \<^verbatim>\<open>*group\<close> and \<^verbatim>\<open>*cck_group\<close>.\<close>

definition rtw_get_ch_group :: "u8 \<Rightarrow> BAND_TYPE \<times> nat option \<times> nat option" where
  "rtw_get_ch_group ch =
     (if ch \<le> 14 then
        let gp = (if 1 \<le> ch \<and> ch \<le> 2 then Some 0 else if 3 \<le> ch \<and> ch \<le> 5 then Some 1 else if 6 \<le> ch \<and> ch \<le> 8 then Some 2
                  else if 9 \<le> ch \<and> ch \<le> 11 then Some 3 else if 12 \<le> ch \<and> ch \<le> 14 then Some 4 else None) in
        (if gp = None then (BAND_MAX, None, None) else (BAND_ON_24G, gp, if ch = 14 then Some 5 else gp))
      else
        let gp = (if 36 \<le> ch \<and> ch \<le> 42 then Some 0 else if 44 \<le> ch \<and> ch \<le> 48 then Some 1 else if 50 \<le> ch \<and> ch \<le> 58 then Some 2
                  else if 60 \<le> ch \<and> ch \<le> 64 then Some 3 else if 100 \<le> ch \<and> ch \<le> 106 then Some 4
                  else if 108 \<le> ch \<and> ch \<le> 114 then Some 5 else if 116 \<le> ch \<and> ch \<le> 122 then Some 6
                  else if 124 \<le> ch \<and> ch \<le> 130 then Some 7 else if 132 \<le> ch \<and> ch \<le> 138 then Some 8
                  else if 140 \<le> ch \<and> ch \<le> 144 then Some 9 else if 149 \<le> ch \<and> ch \<le> 155 then Some 10
                  else if 157 \<le> ch \<and> ch \<le> 161 then Some 11 else if 165 \<le> ch \<and> ch \<le> 171 then Some 12
                  else if 173 \<le> ch \<and> ch \<le> 177 then Some 13 else None) in
        (if gp = None then (BAND_MAX, None, None) else (BAND_ON_5G, gp, None)))"

section \<open>Frequencies\<close>

definition rtw_ch2freq :: "int \<Rightarrow> int" where
  "rtw_ch2freq chan =
     (if chan \<ge> 1 \<and> chan \<le> 14 then (if chan = 14 then 2484 else 2407 + chan * 5)
      else if chan \<ge> 36 \<and> chan \<le> 177 then 5000 + chan * 5
      else 0)"

definition rtw_freq2ch :: "int \<Rightarrow> int" where
  "rtw_freq2ch freq =
     (if freq = 2484 then 14
      else if freq < 2484 then (freq - 2407) sdiv 5
      else if freq \<ge> 4910 \<and> freq \<le> 4980 then (freq - 4000) sdiv 5
      else if freq \<le> 45000 then (freq - 5000) sdiv 5
      else if freq \<ge> 58320 \<and> freq \<le> 64800 then (freq - 56160) sdiv 2160
      else 0)"

text \<open>Highest and lowest frequency.\<close>

definition rtw_chbw_to_freq_range :: "u8 \<Rightarrow> u8 \<Rightarrow> u8 \<Rightarrow> (u32 \<times> u32) option" where
  "rtw_chbw_to_freq_range ch bw offset =
     (let freq = (of_int (rtw_ch2freq (uint (rtw_get_center_ch ch bw offset))) :: u32) in
      if freq = 0 then None
      else if bw = CHANNEL_WIDTH_160 then Some (freq + 80, freq - 80)
      else if bw = CHANNEL_WIDTH_80 then Some (freq + 40, freq - 40)
      else if bw = CHANNEL_WIDTH_40 then Some (freq + 20, freq - 20)
      else if bw = CHANNEL_WIDTH_20 then Some (freq + 10, freq - 10)
      else Some (0, 0))"

section \<open>Operating classes\<close>

datatype opc_bw = OPC_BW20 | OPC_BW40PLUS | OPC_BW40MINUS | OPC_BW80 | OPC_BW160 | OPC_BW80P80 | OPC_BW_NUM

fun opc_bw_to_ch_width :: "opc_bw \<Rightarrow> u8" where
  "opc_bw_to_ch_width OPC_BW20 = CHANNEL_WIDTH_20"
| "opc_bw_to_ch_width OPC_BW40PLUS = CHANNEL_WIDTH_40"
| "opc_bw_to_ch_width OPC_BW40MINUS = CHANNEL_WIDTH_40"
| "opc_bw_to_ch_width OPC_BW80 = CHANNEL_WIDTH_80"
| "opc_bw_to_ch_width OPC_BW160 = CHANNEL_WIDTH_160"
| "opc_bw_to_ch_width OPC_BW80P80 = CHANNEL_WIDTH_80_80"
| "opc_bw_to_ch_width OPC_BW_NUM = CHANNEL_WIDTH_MAX"

text \<open>Class, band, bandwidth and \<^verbatim>\<open>len_ch_attr\<close>, the channels behind their number.\<close>

record op_class_t =
  class_id :: u8
  op_band :: BAND_TYPE
  op_bw :: opc_bw
  len_ch_attr :: "u8 list"

abbreviation OP_CLASS_ENT :: "u8 \<Rightarrow> BAND_TYPE \<Rightarrow> opc_bw \<Rightarrow> u8 list \<Rightarrow> op_class_t" where
  "OP_CLASS_ENT c b w l \<equiv> \<lparr>class_id = c, op_band = b, op_bw = w, len_ch_attr = l\<rparr>"

definition OPC_CH_LIST_LEN :: "op_class_t \<Rightarrow> nat" where
  "OPC_CH_LIST_LEN opc = unat (len_ch_attr opc ! 0)"

definition OPC_CH_LIST_CH :: "op_class_t \<Rightarrow> nat \<Rightarrow> u8" where
  "OPC_CH_LIST_CH opc i = len_ch_attr opc ! (i + 1)"

definition global_op_class :: "op_class_t list" where
  "global_op_class =
     [OP_CLASS_ENT 81 BAND_ON_24G OPC_BW20 [13, 1, 2, 3, 4, 5, 6, 7, 8, 9, 10, 11, 12, 13],
      OP_CLASS_ENT 82 BAND_ON_24G OPC_BW20 [1, 14],
      OP_CLASS_ENT 83 BAND_ON_24G OPC_BW40PLUS [9, 1, 2, 3, 4, 5, 6, 7, 8, 9],
      OP_CLASS_ENT 84 BAND_ON_24G OPC_BW40MINUS [9, 5, 6, 7, 8, 9, 10, 11, 12, 13],
      OP_CLASS_ENT 115 BAND_ON_5G OPC_BW20 [4, 36, 40, 44, 48],
      OP_CLASS_ENT 116 BAND_ON_5G OPC_BW40PLUS [2, 36, 44],
      OP_CLASS_ENT 117 BAND_ON_5G OPC_BW40MINUS [2, 40, 48],
      OP_CLASS_ENT 118 BAND_ON_5G OPC_BW20 [4, 52, 56, 60, 64],
      OP_CLASS_ENT 119 BAND_ON_5G OPC_BW40PLUS [2, 52, 60],
      OP_CLASS_ENT 120 BAND_ON_5G OPC_BW40MINUS [2, 56, 64],
      OP_CLASS_ENT 121 BAND_ON_5G OPC_BW20 [12, 100, 104, 108, 112, 116, 120, 124, 128, 132, 136, 140, 144],
      OP_CLASS_ENT 122 BAND_ON_5G OPC_BW40PLUS [6, 100, 108, 116, 124, 132, 140],
      OP_CLASS_ENT 123 BAND_ON_5G OPC_BW40MINUS [6, 104, 112, 120, 128, 136, 144],
      OP_CLASS_ENT 124 BAND_ON_5G OPC_BW20 [4, 149, 153, 157, 161],
      OP_CLASS_ENT 125 BAND_ON_5G OPC_BW20 [6, 149, 153, 157, 161, 165, 169],
      OP_CLASS_ENT 126 BAND_ON_5G OPC_BW40PLUS [2, 149, 157],
      OP_CLASS_ENT 127 BAND_ON_5G OPC_BW40MINUS [2, 153, 161],
      OP_CLASS_ENT 128 BAND_ON_5G OPC_BW80 [24, 36, 40, 44, 48, 52, 56, 60, 64, 100, 104, 108, 112, 116, 120, 124, 128,
        132, 136, 140, 144, 149, 153, 157, 161],
      OP_CLASS_ENT 129 BAND_ON_5G OPC_BW160 [16, 36, 40, 44, 48, 52, 56, 60, 64, 100, 104, 108, 112, 116, 120, 124, 128]]"

definition get_global_op_class_by_id :: "u8 \<Rightarrow> op_class_t option" where
  "get_global_op_class_by_id gid = find (\<lambda>opc. class_id opc = gid) global_op_class"

definition is_valid_global_op_class_id :: "u8 \<Rightarrow> bool" where
  "is_valid_global_op_class_id gid = (get_global_op_class_by_id gid \<noteq> None)"

definition is_valid_global_op_class_ch :: "op_class_t \<Rightarrow> u8 \<Rightarrow> bool" where
  "is_valid_global_op_class_ch opc ch = list_ex (\<lambda>i. OPC_CH_LIST_CH opc i = ch) [0 ..< OPC_CH_LIST_LEN opc]"

definition get_global_opc_bw_by_id :: "u8 \<Rightarrow> opc_bw" where
  "get_global_opc_bw_by_id gid = (case get_global_op_class_by_id gid of None \<Rightarrow> OPC_BW_NUM | Some opc \<Rightarrow> op_bw opc)"

definition get_sub_op_class :: "u8 \<Rightarrow> u8 \<Rightarrow> int" where
  "get_sub_op_class gid ch =
     (case get_global_op_class_by_id gid of
        None \<Rightarrow> -1
      | Some opc \<Rightarrow>
          if \<not> is_valid_global_op_class_ch opc ch then -1
          else if op_bw opc = OPC_BW20 then 0
          else
            (case find (\<lambda>o'. opc_bw_to_ch_width (op_bw opc) = opc_bw_to_ch_width (op_bw o') + 1 \<and> is_valid_global_op_class_ch o' ch)
                    global_op_class of
               None \<Rightarrow> -2
             | Some o' \<Rightarrow> uint (class_id o')))"

definition rtw_get_op_class_by_chbw :: "u8 \<Rightarrow> u8 \<Rightarrow> u8 \<Rightarrow> u8" where
  "rtw_get_op_class_by_chbw ch bw offset =
     (let search = (\<lambda>band.
        if bw \<in> set [CHANNEL_WIDTH_20, CHANNEL_WIDTH_40, CHANNEL_WIDTH_80, CHANNEL_WIDTH_160] then
          (case find (\<lambda>opc. band = op_band opc \<and> opc_bw_to_ch_width (op_bw opc) = bw \<and>
                 \<not> (op_bw opc = OPC_BW40PLUS \<and> offset \<noteq> HAL_PRIME_CHNL_OFFSET_LOWER \<or>
                    op_bw opc = OPC_BW40MINUS \<and> offset \<noteq> HAL_PRIME_CHNL_OFFSET_UPPER) \<and>
                 is_valid_global_op_class_ch opc ch) global_op_class of
             None \<Rightarrow> 0
           | Some opc \<Rightarrow> class_id opc)
        else 0) in
      if ch \<ge> 1 \<and> ch \<le> 14 then search BAND_ON_24G
      else if ch \<ge> 36 \<and> ch \<le> 177 then search BAND_ON_5G
      else 0)"

text \<open>Bandwidth and offset of a channel in a class; \<open>offset\<close> is what \<^verbatim>\<open>*offset\<close> holds before.\<close>

definition rtw_get_bw_offset_by_op_class_ch :: "u8 \<Rightarrow> u8 \<Rightarrow> u8 \<Rightarrow> (u8 \<times> u8) option" where
  "rtw_get_bw_offset_by_op_class_ch gid ch offset =
     (let opc_bw = get_global_opc_bw_by_id gid; bw = opc_bw_to_ch_width opc_bw in
      if opc_bw = OPC_BW_NUM then None
      else map_option (\<lambda>offset. (bw, offset))
             (rtw_get_offset_by_chbw ch bw
               (if opc_bw = OPC_BW40PLUS then HAL_PRIME_CHNL_OFFSET_LOWER
                else if opc_bw = OPC_BW40MINUS then HAL_PRIME_CHNL_OFFSET_UPPER else offset)))"

section \<open>The PHL\<close>

text \<open>The PHL names the offset after the secondary channel, \<^verbatim>\<open>core/\<close> after the primary one.\<close>

datatype chan_offset = CHAN_OFFSET_NO_EXT | CHAN_OFFSET_UPPER | CHAN_OFFSET_NO_DEF | CHAN_OFFSET_LOWER

definition rtw_phl_get_band_type :: "u8 \<Rightarrow> BAND_TYPE" where
  "rtw_phl_get_band_type chan = (if chan > 14 then BAND_ON_5G else BAND_ON_24G)"

definition rtw_phl_get_center_ch :: "u8 \<Rightarrow> u8 \<Rightarrow> chan_offset \<Rightarrow> u8" where
  "rtw_phl_get_center_ch ch bw offset =
     (if bw = CHANNEL_WIDTH_160 then
        if ch mod 4 = 0 then (if ch \<ge> 36 \<and> ch \<le> 64 then 50 else if ch \<ge> 100 \<and> ch \<le> 128 then 114 else ch)
        else if ch mod 4 = 1 then (if ch \<ge> 149 \<and> ch \<le> 177 then 163 else ch)
        else ch
      else if bw = CHANNEL_WIDTH_80 then
        if ch \<le> 14 then 7
        else if ch mod 4 = 0 then
          (if ch \<ge> 36 \<and> ch \<le> 48 then 42 else if ch \<ge> 52 \<and> ch \<le> 64 then 58 else if ch \<ge> 100 \<and> ch \<le> 112 then 106
           else if ch \<ge> 116 \<and> ch \<le> 128 then 122 else if ch \<ge> 132 \<and> ch \<le> 144 then 138 else ch)
        else if ch mod 4 = 1 then
          (if ch \<ge> 149 \<and> ch \<le> 161 then 155 else if ch \<ge> 165 \<and> ch \<le> 177 then 171 else ch)
        else ch
      else if bw = CHANNEL_WIDTH_40 then
        (case offset of CHAN_OFFSET_UPPER \<Rightarrow> ch + 2 | CHAN_OFFSET_LOWER \<Rightarrow> ch - 2 | _ \<Rightarrow> ch)
      else ch)"

record rtw_chan_def =
  cd_chan :: u8
  cd_center_ch :: u8
  cd_bw :: u8
  cd_offset :: chan_offset

definition rtw_phl_get_operating_class :: "rtw_chan_def \<Rightarrow> u8" where
  "rtw_phl_get_operating_class chan_def =
     (let chan = cd_chan chan_def; center_ch = cd_center_ch chan_def in
      if cd_bw chan_def = CHANNEL_WIDTH_20 then
        if chan \<le> 13 then 81
        else if chan = 14 then 82
        else if chan \<ge> 36 \<and> chan \<le> 48 then 115
        else if chan \<ge> 52 \<and> chan \<le> 64 then 118
        else if chan \<ge> 100 \<and> chan \<le> 144 then 121
        else if chan \<ge> 149 \<and> chan \<le> 169 then 125
        else 0
      else if cd_bw chan_def = CHANNEL_WIDTH_40 then
        if cd_offset chan_def = CHAN_OFFSET_UPPER then
          if chan \<ge> 1 \<and> chan \<le> 9 then 83
          else if chan \<in> set [36, 44] then 116
          else if chan \<in> set [52, 60] then 119
          else if chan \<in> set [100, 108, 116, 124, 132, 140] then 122
          else if chan \<in> set [149, 157] then 126
          else 0
        else if cd_offset chan_def = CHAN_OFFSET_UPPER then
          if chan \<ge> 5 \<and> chan \<le> 13 then 84
          else if chan \<in> set [40, 48] then 117
          else if chan \<in> set [56, 64] then 120
          else if chan \<in> set [104, 112, 120, 128, 136, 144] then 123
          else if chan \<in> set [153, 161] then 127
          else 0
        else 0
      else if cd_bw chan_def = CHANNEL_WIDTH_80 then
        if center_ch \<in> set [42, 58, 106, 122, 138, 155] then 128 else 0
      else if cd_bw chan_def = CHANNEL_WIDTH_160 then
        if center_ch \<in> set [50, 114] then 129 else 0
      else 0)"

section \<open>The blocks of channels\<close>

definition op_channels :: "u8 list" where
  "op_channels = center_ch_2g @ center_ch_5g_20m"

text \<open>A block lies in the frequency range: every channel with its 20 MHz.\<close>

definition range_covers :: "u32 \<times> u32 \<Rightarrow> u8 list \<Rightarrow> bool" where
  "range_covers r chs \<longleftrightarrow>
     list_all (\<lambda>c. uint (snd r) + 10 \<le> rtw_ch2freq (uint c) \<and> rtw_ch2freq (uint c) + 10 \<le> uint (fst r)) chs"

text \<open>What is to hold of a channel, a bandwidth and an offset.\<close>

definition block_ok :: "u8 \<Rightarrow> u8 \<Rightarrow> u8 \<Rightarrow> bool" where
  "block_ok ch bw off \<longleftrightarrow>
     (let cch = rtw_get_center_ch ch bw off in
      (case rtw_get_op_chs_by_cch_bw cch bw of
         None \<Rightarrow> False
       | Some chs \<Rightarrow>
           ch \<in> set chs \<and> length chs = 2 ^ unat bw \<and>
           (case rtw_chbw_to_freq_range ch bw off of
              None \<Rightarrow> False
            | Some r \<Rightarrow> fst r - snd r = 20 * 2 ^ unat bw \<and> range_covers r chs)) \<and>
      (bw \<noteq> CHANNEL_WIDTH_20 \<longrightarrow>
         (case rtw_get_offset_by_chbw ch (bw - 1) off of
            None \<Rightarrow> False
          | Some off' \<Rightarrow> rtw_get_scch_by_cch_opch cch bw ch = rtw_get_center_ch ch (bw - 1) off')))"

definition blocks_checked :: "u8 \<Rightarrow> u8 list \<Rightarrow> bool" where
  "blocks_checked bw chs \<longleftrightarrow>
     list_all (\<lambda>ch. list_all (\<lambda>r. case rtw_get_offset_by_chbw ch bw r of None \<Rightarrow> True | Some off \<Rightarrow> block_ok ch bw off) [1, 2]) chs"

definition no_160_block :: "u8 list" where
  "no_160_block = [132, 136, 140, 144]"

lemma blocks_20: "blocks_checked CHANNEL_WIDTH_20 op_channels"
  by code_simp

lemma blocks_40: "blocks_checked CHANNEL_WIDTH_40 op_channels"
  by code_simp

lemma blocks_80: "blocks_checked CHANNEL_WIDTH_80 op_channels"
  by code_simp

lemma blocks_160: "blocks_checked CHANNEL_WIDTH_160 (filter (\<lambda>ch. ch \<notin> set no_160_block) op_channels)"
  by code_simp

lemma offset_asked: "rtw_get_offset_by_chbw ch bw r = rtw_get_offset_by_chbw ch bw (if r = 1 then 1 else 2)"
  by (simp add: rtw_get_offset_by_chbw_def)

lemma blocks_checkedD:
  assumes "blocks_checked bw chs" and "ch \<in> set chs" and "rtw_get_offset_by_chbw ch bw r = Some off"
  shows "block_ok ch bw off"
  using assms unfolding offset_asked [of ch bw r]
  by (auto simp: blocks_checked_def list_all_iff split: option.splits if_splits)

lemma bw_cases:
  assumes "(bw :: u8) \<le> 3"
  obtains "bw = 0" | "bw = 1" | "bw = 2" | "bw = 3"
proof -
  have "unat bw \<le> 3" using assms by (simp add: word_le_nat_alt)
  then have "unat bw = 0 \<or> unat bw = 1 \<or> unat bw = 2 \<or> unat bw = 3" by arith
  then have "bw = 0 \<or> bw = 1 \<or> bw = 2 \<or> bw = 3" by (auto simp: word_unat_eq_iff)
  then show ?thesis using that by blast
qed

lemma channel_block_ok:
  assumes "ch \<in> set op_channels" and "bw \<le> CHANNEL_WIDTH_160" and "rtw_get_offset_by_chbw ch bw r = Some off"
    and "bw = CHANNEL_WIDTH_160 \<longrightarrow> ch \<notin> set no_160_block"
  shows "block_ok ch bw off"
  using assms(2)
proof (cases rule: bw_cases)
  case 1
  then show ?thesis using blocks_checkedD [OF blocks_20 assms(1)] assms(3) by simp
next
  case 2
  then show ?thesis using blocks_checkedD [OF blocks_40 assms(1)] assms(3) by simp
next
  case 3
  then show ?thesis using blocks_checkedD [OF blocks_80 assms(1)] assms(3) by simp
next
  case 4
  then show ?thesis using blocks_checkedD [OF blocks_160, of ch r off] assms by simp
qed

lemma block_of_channel:
  assumes "ch \<in> set op_channels" and "bw \<le> CHANNEL_WIDTH_160" and "rtw_get_offset_by_chbw ch bw r = Some off"
    and "bw = CHANNEL_WIDTH_160 \<longrightarrow> ch \<notin> set no_160_block"
  shows "\<exists>chs. rtw_get_op_chs_by_cch_bw (rtw_get_center_ch ch bw off) bw = Some chs \<and> ch \<in> set chs"
  using channel_block_ok [OF assms] by (auto simp: block_ok_def Let_def split: option.splits)



text \<open>Channels 132 to 144 are in no block of 160 MHz, and yet an offset is named for them.\<close>

lemma offset_without_block:
  assumes "ch \<in> set no_160_block"
  shows "rtw_get_offset_by_chbw ch CHANNEL_WIDTH_160 r \<noteq> None"
    and "rtw_get_op_chs_by_cch_bw (rtw_get_center_ch ch CHANNEL_WIDTH_160 off) CHANNEL_WIDTH_160 = None"
  using assms by (auto simp: no_160_block_def rtw_get_offset_by_chbw_def rtw_get_op_chs_by_cch_bw_def rtw_get_center_ch_def
      center_chs_5g_by_bw_def center_ch_5g_160m_def op_chs_of_cch_5g_by_bw_def Let_def)

text \<open>Channel numbers and frequencies.\<close>

lemma freq_roundtrip:
  assumes "chan \<in> {1 .. 14} \<union> {36 .. 177}"
  shows "rtw_freq2ch (rtw_ch2freq chan) = chan"
  using assms by (auto simp: rtw_freq2ch_def rtw_ch2freq_def signed_divide_int_def sgn_if)

section \<open>Classes\<close>

definition opc_chs :: "op_class_t \<Rightarrow> u8 list" where
  "opc_chs opc = map (OPC_CH_LIST_CH opc) [0 ..< OPC_CH_LIST_LEN opc]"

definition class_ok :: "op_class_t \<Rightarrow> bool" where
  "class_ok opc \<longleftrightarrow>
     length (len_ch_attr opc) = OPC_CH_LIST_LEN opc + 1 \<and> class_id opc \<noteq> 0 \<and> op_bw opc \<noteq> OPC_BW_NUM \<and>
     list_all (\<lambda>ch. ch \<in> set op_channels \<and> (op_bw opc = OPC_BW160 \<longrightarrow> ch \<notin> set no_160_block) \<and>
       list_all (\<lambda>r. case rtw_get_offset_by_chbw ch (opc_bw_to_ch_width (op_bw opc))
           (if op_bw opc = OPC_BW40PLUS then 1 else if op_bw opc = OPC_BW40MINUS then 2 else r) of
            None \<Rightarrow> False
          | Some off \<Rightarrow> (op_bw opc = OPC_BW40PLUS \<longrightarrow> off = 1) \<and> (op_bw opc = OPC_BW40MINUS \<longrightarrow> off = 2)) [1, 2]) (opc_chs opc)"

lemma classes_ok: "list_all class_ok global_op_class"
  by code_simp

lemma classes_distinct: "distinct (map class_id global_op_class)"
  by (simp add: global_op_class_def)

lemma class_by_id:
  assumes "opc \<in> set global_op_class"
  shows "get_global_op_class_by_id (class_id opc) = Some opc"
proof -
  have "find (\<lambda>o'. class_id o' = class_id opc) xs = Some opc" if "distinct (map class_id xs)" "opc \<in> set xs" for xs
    using that by (induction xs) auto
  then show ?thesis using classes_distinct assms by (simp add: get_global_op_class_by_id_def)
qed

lemma class_ch_iff: "is_valid_global_op_class_ch opc ch \<longleftrightarrow> ch \<in> set (opc_chs opc)"
  by (auto simp: is_valid_global_op_class_ch_def opc_chs_def list_ex_iff)

lemma find_SomeD: "find Q xs = Some x \<Longrightarrow> x \<in> set xs \<and> Q x"
  by (induction xs) (auto split: if_splits)

lemma class_found:
  assumes "rtw_get_op_class_by_chbw ch bw off = gid" and "gid \<noteq> 0"
  obtains opc where "opc \<in> set global_op_class" "class_id opc = gid" "opc_bw_to_ch_width (op_bw opc) = bw" "bw \<le> CHANNEL_WIDTH_160"
    "ch \<in> set (opc_chs opc)" "op_bw opc = OPC_BW40PLUS \<longrightarrow> off = 1" "op_bw opc = OPC_BW40MINUS \<longrightarrow> off = 2"
proof -
  define Q where "Q \<equiv> \<lambda>band opc. band = op_band opc \<and> opc_bw_to_ch_width (op_bw opc) = bw \<and>
    \<not> (op_bw opc = OPC_BW40PLUS \<and> off \<noteq> HAL_PRIME_CHNL_OFFSET_LOWER \<or>
       op_bw opc = OPC_BW40MINUS \<and> off \<noteq> HAL_PRIME_CHNL_OFFSET_UPPER) \<and> is_valid_global_op_class_ch opc ch"
  have "\<exists>band opc. find (Q band) global_op_class = Some opc \<and> class_id opc = gid \<and> bw \<in> set [0, 1, 2, 3]"
    using assms unfolding rtw_get_op_class_by_chbw_def Let_def Q_def by (simp split: if_splits option.splits; blast)
  then obtain band opc where "opc \<in> set global_op_class" "Q band opc" "class_id opc = gid" "bw \<in> set [0, 1, 2, 3]"
    using find_SomeD by fast
  then show ?thesis using that [of opc] by (auto simp: Q_def class_ch_iff)
qed

text \<open>
  C35: Operating classes round trip. When the driver finds an operating class for a channel, a bandwidth and an offset,
  looking the class up with the channel gives the bandwidth again, and for 40 MHz the same offset; the channel with that
  bandwidth and offset lies in a block of the table of center channels. This holds whatever the offset held before.
\<close>

theorem op_class_roundtrip:
  assumes "rtw_get_op_class_by_chbw ch bw off = gid" and "gid \<noteq> 0"
  shows "\<exists>off' chs. rtw_get_bw_offset_by_op_class_ch gid ch off0 = Some (bw, off') \<and> (bw = CHANNEL_WIDTH_40 \<longrightarrow> off' = off) \<and>
    rtw_get_op_chs_by_cch_bw (rtw_get_center_ch ch bw off') bw = Some chs \<and> ch \<in> set chs"
proof -
  obtain opc where opc: "opc \<in> set global_op_class" "class_id opc = gid" "opc_bw_to_ch_width (op_bw opc) = bw" "bw \<le> CHANNEL_WIDTH_160"
    "ch \<in> set (opc_chs opc)" "op_bw opc = OPC_BW40PLUS \<longrightarrow> off = 1" "op_bw opc = OPC_BW40MINUS \<longrightarrow> off = 2"
    using class_found [OF assms] .
  let ?r = "if op_bw opc = OPC_BW40PLUS then 1 else if op_bw opc = OPC_BW40MINUS then 2 else off0"
  have ok: "class_ok opc" using classes_ok opc(1) by (simp add: list_all_iff)
  have ch: "ch \<in> set op_channels" "bw = CHANNEL_WIDTH_160 \<longrightarrow> ch \<notin> set no_160_block"
    using ok opc(3,5) by (cases "op_bw opc"; auto simp: class_ok_def list_all_iff)+
  obtain off' where off': "rtw_get_offset_by_chbw ch bw ?r = Some off'" "op_bw opc = OPC_BW40PLUS \<longrightarrow> off' = 1"
    "op_bw opc = OPC_BW40MINUS \<longrightarrow> off' = 2"
    using ok opc(3,5) offset_asked [of ch bw off0]
    by (cases "op_bw opc"; cases "off0 = 1") (auto simp: class_ok_def list_all_iff split: option.splits)
  have "rtw_get_bw_offset_by_op_class_ch gid ch off0 = Some (bw, off')"
    using off'(1) ok class_by_id [OF opc(1)] opc(2,3)
    by (simp add: rtw_get_bw_offset_by_op_class_ch_def get_global_opc_bw_by_id_def Let_def class_ok_def)
  moreover have "bw = CHANNEL_WIDTH_40 \<longrightarrow> off' = off" using opc(3,6,7) off'(2,3) by (cases "op_bw opc") auto
  moreover obtain chs where "rtw_get_op_chs_by_cch_bw (rtw_get_center_ch ch bw off') bw = Some chs" "ch \<in> set chs"
    using block_of_channel [OF ch(1) opc(4) off'(1) ch(2)] by blast
  ultimately show ?thesis by blast
qed

theorem op_class_roundtrip_witness:
  "\<exists>off' chs. rtw_get_bw_offset_by_op_class_ch 117 40 0 = Some (1, off') \<and> off' = 2 \<and>
    rtw_get_op_chs_by_cch_bw (rtw_get_center_ch 40 1 off') 1 = Some chs \<and> 40 \<in> set chs"
proof -
  have "rtw_get_op_class_by_chbw 40 1 2 = 117"
    by (simp add: rtw_get_op_class_by_chbw_def Let_def global_op_class_def is_valid_global_op_class_ch_def
        OPC_CH_LIST_LEN_def OPC_CH_LIST_CH_def upt_rec)
  from op_class_roundtrip [OF this, of 0] show ?thesis by auto
qed

section \<open>Core and PHL\<close>

text \<open>The offset of the core as the PHL names it.\<close>

definition phl_offset :: "u8 \<Rightarrow> chan_offset" where
  "phl_offset off =
     (if off = HAL_PRIME_CHNL_OFFSET_LOWER then CHAN_OFFSET_UPPER
      else if off = HAL_PRIME_CHNL_OFFSET_UPPER then CHAN_OFFSET_LOWER else CHAN_OFFSET_NO_EXT)"

lemma phl_center_ch: "rtw_phl_get_center_ch ch bw (phl_offset off) = rtw_get_center_ch ch bw off"
  by (simp add: rtw_phl_get_center_ch_def rtw_get_center_ch_def phl_offset_def)

text \<open>
  The operating class of the PHL for 40 MHz agrees with the table of the core when the secondary channel is above, and is
  zero whenever it is below, where the table has a class: the second test asks for the upper offset again.
\<close>

lemma phl_operating_class_40:
  assumes "cd_bw chan_def = CHANNEL_WIDTH_40" and "cd_offset chan_def = CHAN_OFFSET_LOWER"
  shows "rtw_phl_get_operating_class chan_def = 0" and "rtw_get_op_class_by_chbw 40 CHANNEL_WIDTH_40 HAL_PRIME_CHNL_OFFSET_UPPER = 117"
  using assms by (simp_all add: rtw_phl_get_operating_class_def Let_def rtw_get_op_class_by_chbw_def global_op_class_def
      is_valid_global_op_class_ch_def OPC_CH_LIST_LEN_def OPC_CH_LIST_CH_def upt_rec)

end
