(* ===== verification/Rtw_Chplan.thy ===== *)
theory Rtw_Chplan
  imports Rtw_Rf
begin

text \<open>
  Channel plans, \<^verbatim>\<open>core/rtw_chplan.c\<close>, and the use of the channel set in \<^verbatim>\<open>core/rtw_mlme_ext.c\<close> and
  \<^verbatim>\<open>core/rtw_ieee80211.c\<close>: the tables of channel lists, plans and countries, the channel set of an adapter, which of its
  channels and bandwidths may be used, and the agreement of two channel settings. The code is modelled for the 5 GHz band
  and radar detection being compiled in, as they are for this chip, and for regulatory data of the driver's own tables.
\<close>

section \<open>Tables\<close>

text \<open>A channel list is the array \<^verbatim>\<open>len_ch_attr\<close>: the number of the channels, the channels, and the attributes.\<close>

type_synonym ch_list_t = "u8 list"

definition CH_LIST_LEN :: "ch_list_t \<Rightarrow> nat" where
  "CH_LIST_LEN l = unat (l ! 0)"

definition CH_LIST_CH :: "ch_list_t \<Rightarrow> nat \<Rightarrow> u8" where
  "CH_LIST_CH l i = l ! (i + 1)"

definition CH_LIST_ATTRIB :: "ch_list_t \<Rightarrow> u8" where
  "CH_LIST_ATTRIB l = l ! (CH_LIST_LEN l + 1)"

abbreviation CLA_2G_12_14_PASSIVE :: nat where "CLA_2G_12_14_PASSIVE \<equiv> 0"
abbreviation CLA_5G_B1_PASSIVE :: nat where "CLA_5G_B1_PASSIVE \<equiv> 0"
abbreviation CLA_5G_B2_PASSIVE :: nat where "CLA_5G_B2_PASSIVE \<equiv> 1"
abbreviation CLA_5G_B3_PASSIVE :: nat where "CLA_5G_B3_PASSIVE \<equiv> 2"
abbreviation CLA_5G_B4_PASSIVE :: nat where "CLA_5G_B4_PASSIVE \<equiv> 3"
abbreviation CLA_5G_B2_DFS :: nat where "CLA_5G_B2_DFS \<equiv> 4"
abbreviation CLA_5G_B3_DFS :: nat where "CLA_5G_B3_DFS \<equiv> 5"
abbreviation CLA_5G_B4_DFS :: nat where "CLA_5G_B4_DFS \<equiv> 6"

definition rtw_channel_def_2g :: "ch_list_t list" where
  "rtw_channel_def_2g =
     [
      [0, 0], [13, 1, 2, 3, 4, 5, 6, 7, 8, 9, 10, 11, 12, 13, 1], [13, 1, 2, 3, 4, 5, 6, 7, 8, 9, 10, 11, 12, 13, 0],
      [11, 1, 2, 3, 4, 5, 6, 7, 8, 9, 10, 11, 0], [14, 1, 2, 3, 4, 5, 6, 7, 8, 9, 10, 11, 12, 13, 14, 0],
      [4, 10, 11, 12, 13, 0], [14, 1, 2, 3, 4, 5, 6, 7, 8, 9, 10, 11, 12, 13, 14, 1]]"

definition rtw_channel_def_5g :: "ch_list_t list" where
  "rtw_channel_def_5g =
     [
      [0, 0],
      [21, 36, 40, 44, 48, 52, 56, 60, 64, 100, 104, 108, 112, 116, 132, 136, 140, 149, 153, 157, 161, 165, 48],
      [19, 36, 40, 44, 48, 52, 56, 60, 64, 100, 104, 108, 112, 116, 120, 124, 128, 132, 136, 140, 48],
      [24, 36, 40, 44, 48, 52, 56, 60, 64, 100, 104, 108, 112, 116, 120, 124, 128, 132, 136, 140, 149, 153, 157, 161, 165, 48],
      [22, 36, 40, 44, 48, 52, 56, 60, 64, 100, 104, 108, 112, 116, 120, 124, 128, 132, 149, 153, 157, 161, 165, 48],
      [19, 36, 40, 44, 48, 52, 56, 60, 64, 100, 104, 108, 112, 116, 120, 124, 149, 153, 157, 161, 48],
      [9, 36, 40, 44, 48, 149, 153, 157, 161, 165, 0],
      [13, 36, 40, 44, 48, 52, 56, 60, 64, 149, 153, 157, 161, 165, 16],
      [12, 36, 40, 44, 48, 52, 56, 60, 64, 149, 153, 157, 161, 16], [5, 149, 153, 157, 161, 165, 0],
      [8, 36, 40, 44, 48, 52, 56, 60, 64, 16], [11, 100, 104, 108, 112, 116, 120, 124, 128, 132, 136, 140, 32],
      [16, 56, 60, 64, 100, 104, 108, 112, 116, 132, 136, 140, 149, 153, 157, 161, 165, 48],
      [8, 56, 60, 64, 149, 153, 157, 161, 165, 16], [4, 36, 40, 44, 48, 0], [4, 149, 153, 157, 161, 0],
      [11, 100, 104, 108, 112, 116, 120, 124, 128, 132, 136, 140, 0],
      [16, 36, 40, 44, 48, 52, 56, 60, 64, 132, 136, 140, 149, 153, 157, 161, 165, 48],
      [17, 52, 56, 60, 64, 100, 104, 108, 112, 116, 132, 136, 140, 149, 153, 157, 161, 165, 48],
      [16, 36, 40, 44, 48, 52, 56, 60, 64, 100, 104, 108, 112, 116, 132, 136, 140, 48],
      [20, 36, 40, 44, 48, 52, 56, 60, 64, 100, 104, 108, 112, 116, 132, 136, 140, 149, 153, 157, 161, 48],
      [11, 36, 40, 44, 48, 52, 56, 60, 64, 132, 136, 140, 48],
      [25, 36, 40, 44, 48, 52, 56, 60, 64, 100, 104, 108, 112, 116, 120, 124, 128, 132, 136, 140, 144, 149, 153, 157, 161, 165, 48],
      [21, 36, 40, 44, 48, 52, 56, 60, 64, 100, 104, 108, 112, 116, 120, 124, 128, 149, 153, 157, 161, 165, 48],
      [24, 36, 40, 44, 48, 52, 56, 60, 64, 100, 104, 108, 112, 116, 120, 124, 128, 132, 136, 140, 149, 153, 157, 161, 165, 14],
      [24, 36, 40, 44, 48, 52, 56, 60, 64, 100, 104, 108, 112, 116, 120, 124, 128, 132, 136, 140, 149, 153, 157, 161, 165, 6],
      [24, 36, 40, 44, 48, 52, 56, 60, 64, 100, 104, 108, 112, 116, 120, 124, 128, 132, 136, 140, 149, 153, 157, 161, 165, 7],
      [21, 36, 40, 44, 48, 52, 56, 60, 64, 100, 104, 108, 112, 116, 132, 136, 140, 149, 153, 157, 161, 165, 6],
      [13, 36, 40, 44, 48, 52, 56, 60, 64, 149, 153, 157, 161, 165, 2],
      [13, 36, 40, 44, 48, 52, 56, 60, 64, 149, 153, 157, 161, 165, 3],
      [9, 36, 40, 44, 48, 149, 153, 157, 161, 165, 9],
      [24, 36, 40, 44, 48, 52, 56, 60, 64, 100, 104, 108, 112, 116, 120, 124, 128, 132, 136, 140, 149, 153, 157, 161, 165, 15],
      [9, 52, 56, 60, 64, 149, 153, 157, 161, 165, 16],
      [22, 36, 40, 44, 48, 52, 56, 60, 64, 100, 104, 108, 112, 116, 132, 136, 140, 144, 149, 153, 157, 161, 165, 48],
      [13, 100, 104, 108, 112, 116, 132, 136, 140, 149, 153, 157, 161, 165, 32],
      [8, 100, 104, 108, 112, 116, 132, 136, 140, 32],
      [25, 36, 40, 44, 48, 52, 56, 60, 64, 100, 104, 108, 112, 116, 120, 124, 128, 132, 136, 140, 144, 149, 153, 157, 161, 165, 63],
      [8, 36, 40, 44, 48, 52, 56, 60, 64, 3],
      [16, 52, 56, 60, 64, 100, 104, 108, 112, 116, 120, 124, 128, 132, 136, 140, 144, 48],
      [21, 36, 40, 44, 48, 52, 56, 60, 64, 100, 104, 108, 112, 116, 120, 124, 128, 149, 153, 157, 161, 165, 113],
      [21, 36, 40, 44, 48, 52, 56, 60, 64, 100, 104, 108, 112, 116, 132, 136, 140, 149, 153, 157, 161, 165, 49],
      [24, 36, 40, 44, 48, 52, 56, 60, 64, 100, 104, 108, 112, 116, 120, 124, 128, 132, 136, 140, 149, 153, 157, 161, 165, 56],
      [24, 36, 40, 44, 48, 52, 56, 60, 64, 100, 104, 108, 112, 116, 120, 124, 128, 132, 136, 140, 149, 153, 157, 161, 165, 57],
      [23, 36, 40, 44, 48, 52, 56, 60, 64, 100, 104, 108, 112, 116, 120, 124, 128, 136, 140, 149, 153, 157, 161, 165, 15],
      [21, 36, 40, 44, 48, 52, 56, 60, 64, 100, 104, 108, 112, 116, 132, 136, 140, 149, 153, 157, 161, 165, 15],
      [13, 36, 40, 44, 48, 52, 56, 60, 64, 149, 153, 157, 161, 165, 11],
      [12, 36, 40, 44, 48, 52, 56, 60, 64, 149, 153, 157, 161, 2],
      [19, 36, 40, 44, 48, 52, 56, 60, 64, 100, 104, 108, 112, 116, 120, 124, 128, 132, 136, 140, 6],
      [20, 36, 40, 44, 48, 52, 56, 60, 64, 100, 104, 108, 112, 116, 120, 124, 128, 132, 136, 140, 144, 48],
      [17, 36, 40, 44, 48, 52, 56, 60, 64, 100, 104, 108, 112, 116, 120, 124, 128, 132, 48],
      [17, 36, 40, 44, 48, 52, 56, 60, 64, 132, 136, 140, 144, 149, 153, 157, 161, 165, 48],
      [13, 36, 40, 44, 48, 52, 56, 60, 64, 100, 104, 108, 112, 116, 48]]"

datatype rtw_regd =
    RTW_REGD_NA | RTW_REGD_FCC | RTW_REGD_MKK | RTW_REGD_ETSI | RTW_REGD_IC | RTW_REGD_KCC | RTW_REGD_NCC | RTW_REGD_ACMA
  | RTW_REGD_CHILE | RTW_REGD_MEX | RTW_REGD_WW

record chplan_ent_t =
  regd_2g :: rtw_regd
  chd_2g :: nat
  regd_5g :: rtw_regd
  chd_5g :: nat

abbreviation CHPLAN_ENT :: "rtw_regd \<Rightarrow> nat \<Rightarrow> rtw_regd \<Rightarrow> nat \<Rightarrow> chplan_ent_t" where
  "CHPLAN_ENT r2 c2 r5 c5 \<equiv> \<lparr>regd_2g = r2, chd_2g = c2, regd_5g = r5, chd_5g = c5\<rparr>"

abbreviation CHPLAN_ENT_NOT_DEFINED :: chplan_ent_t where
  "CHPLAN_ENT_NOT_DEFINED \<equiv> CHPLAN_ENT RTW_REGD_NA 0 RTW_REGD_NA 0"

definition RTW_ChannelPlanMap :: "chplan_ent_t list" where
  "RTW_ChannelPlanMap =
     [
      CHPLAN_ENT RTW_REGD_ETSI 2 RTW_REGD_ETSI 49, CHPLAN_ENT RTW_REGD_ETSI 2 RTW_REGD_ETSI 50,
      CHPLAN_ENT RTW_REGD_ETSI 3 RTW_REGD_ETSI 7, CHPLAN_ENT RTW_REGD_ACMA 2 RTW_REGD_ACMA 33,
      CHPLAN_ENT RTW_REGD_ETSI 2 RTW_REGD_ETSI 51, CHPLAN_ENT RTW_REGD_ETSI 2 RTW_REGD_ETSI 6,
      CHPLAN_ENT RTW_REGD_ETSI 2 RTW_REGD_ETSI 7, CHPLAN_ENT RTW_REGD_ETSI 2 RTW_REGD_ETSI 23,
      CHPLAN_ENT RTW_REGD_ETSI 2 RTW_REGD_ETSI 21, CHPLAN_ENT RTW_REGD_ETSI 2 RTW_REGD_ETSI 17,
      CHPLAN_ENT_NOT_DEFINED, CHPLAN_ENT_NOT_DEFINED, CHPLAN_ENT_NOT_DEFINED, CHPLAN_ENT_NOT_DEFINED,
      CHPLAN_ENT_NOT_DEFINED, CHPLAN_ENT_NOT_DEFINED, CHPLAN_ENT_NOT_DEFINED, CHPLAN_ENT_NOT_DEFINED,
      CHPLAN_ENT_NOT_DEFINED, CHPLAN_ENT_NOT_DEFINED, CHPLAN_ENT_NOT_DEFINED, CHPLAN_ENT_NOT_DEFINED,
      CHPLAN_ENT_NOT_DEFINED, CHPLAN_ENT_NOT_DEFINED, CHPLAN_ENT_NOT_DEFINED, CHPLAN_ENT_NOT_DEFINED,
      CHPLAN_ENT_NOT_DEFINED, CHPLAN_ENT_NOT_DEFINED, CHPLAN_ENT_NOT_DEFINED, CHPLAN_ENT_NOT_DEFINED,
      CHPLAN_ENT_NOT_DEFINED, CHPLAN_ENT_NOT_DEFINED, CHPLAN_ENT RTW_REGD_WW 1 RTW_REGD_NA 0,
      CHPLAN_ENT RTW_REGD_ETSI 2 RTW_REGD_NA 0, CHPLAN_ENT RTW_REGD_FCC 3 RTW_REGD_NA 0,
      CHPLAN_ENT RTW_REGD_MKK 4 RTW_REGD_NA 0, CHPLAN_ENT RTW_REGD_ETSI 5 RTW_REGD_NA 0,
      CHPLAN_ENT RTW_REGD_FCC 3 RTW_REGD_FCC 3, CHPLAN_ENT RTW_REGD_ETSI 1 RTW_REGD_ETSI 2,
      CHPLAN_ENT RTW_REGD_MKK 4 RTW_REGD_MKK 2, CHPLAN_ENT RTW_REGD_KCC 1 RTW_REGD_KCC 5,
      CHPLAN_ENT RTW_REGD_FCC 1 RTW_REGD_FCC 6, CHPLAN_ENT RTW_REGD_FCC 2 RTW_REGD_NA 0,
      CHPLAN_ENT RTW_REGD_IC 2 RTW_REGD_IC 33, CHPLAN_ENT RTW_REGD_MKK 2 RTW_REGD_NA 0,
      CHPLAN_ENT RTW_REGD_CHILE 1 RTW_REGD_CHILE 22, CHPLAN_ENT RTW_REGD_WW 3 RTW_REGD_WW 37,
      CHPLAN_ENT RTW_REGD_CHILE 1 RTW_REGD_CHILE 38, CHPLAN_ENT RTW_REGD_FCC 1 RTW_REGD_FCC 7,
      CHPLAN_ENT RTW_REGD_FCC 1 RTW_REGD_FCC 8, CHPLAN_ENT RTW_REGD_FCC 1 RTW_REGD_FCC 9,
      CHPLAN_ENT RTW_REGD_FCC 1 RTW_REGD_FCC 10, CHPLAN_ENT RTW_REGD_FCC 3 RTW_REGD_FCC 1,
      CHPLAN_ENT RTW_REGD_ETSI 1 RTW_REGD_ETSI 3, CHPLAN_ENT RTW_REGD_ETSI 1 RTW_REGD_ETSI 4,
      CHPLAN_ENT RTW_REGD_MKK 4 RTW_REGD_MKK 10, CHPLAN_ENT RTW_REGD_MKK 4 RTW_REGD_MKK 11,
      CHPLAN_ENT RTW_REGD_NCC 3 RTW_REGD_NCC 12, CHPLAN_ENT RTW_REGD_ETSI 2 RTW_REGD_ETSI 2,
      CHPLAN_ENT RTW_REGD_ACMA 2 RTW_REGD_ACMA 1, CHPLAN_ENT RTW_REGD_ETSI 2 RTW_REGD_ETSI 10,
      CHPLAN_ENT RTW_REGD_ETSI 2 RTW_REGD_ETSI 15, CHPLAN_ENT RTW_REGD_KCC 2 RTW_REGD_KCC 3,
      CHPLAN_ENT RTW_REGD_FCC 3 RTW_REGD_FCC 22, CHPLAN_ENT RTW_REGD_NCC 3 RTW_REGD_NCC 13,
      CHPLAN_ENT RTW_REGD_WW 6 RTW_REGD_NA 0, CHPLAN_ENT RTW_REGD_ETSI 2 RTW_REGD_ETSI 14,
      CHPLAN_ENT RTW_REGD_FCC 3 RTW_REGD_FCC 6, CHPLAN_ENT RTW_REGD_NCC 3 RTW_REGD_NCC 9,
      CHPLAN_ENT RTW_REGD_ACMA 1 RTW_REGD_ACMA 1, CHPLAN_ENT RTW_REGD_FCC 3 RTW_REGD_FCC 15,
      CHPLAN_ENT RTW_REGD_ETSI 1 RTW_REGD_ETSI 10, CHPLAN_ENT RTW_REGD_ETSI 1 RTW_REGD_ETSI 7,
      CHPLAN_ENT RTW_REGD_ETSI 1 RTW_REGD_ETSI 6, CHPLAN_ENT RTW_REGD_IC 3 RTW_REGD_IC 33,
      CHPLAN_ENT RTW_REGD_KCC 2 RTW_REGD_KCC 22, CHPLAN_ENT RTW_REGD_FCC 3 RTW_REGD_FCC 28,
      CHPLAN_ENT RTW_REGD_MEX 2 RTW_REGD_MEX 1, CHPLAN_ENT RTW_REGD_ETSI 2 RTW_REGD_ETSI 42,
      CHPLAN_ENT RTW_REGD_NA 0 RTW_REGD_MKK 43, CHPLAN_ENT RTW_REGD_ETSI 1 RTW_REGD_ETSI 16,
      CHPLAN_ENT RTW_REGD_ETSI 1 RTW_REGD_ETSI 9, CHPLAN_ENT RTW_REGD_ETSI 1 RTW_REGD_ETSI 17,
      CHPLAN_ENT RTW_REGD_NCC 3 RTW_REGD_NCC 18, CHPLAN_ENT RTW_REGD_ETSI 1 RTW_REGD_ETSI 15,
      CHPLAN_ENT RTW_REGD_FCC 3 RTW_REGD_FCC 1, CHPLAN_ENT RTW_REGD_ETSI 1 RTW_REGD_ETSI 19,
      CHPLAN_ENT RTW_REGD_FCC 3 RTW_REGD_FCC 20, CHPLAN_ENT RTW_REGD_MKK 2 RTW_REGD_MKK 14,
      CHPLAN_ENT RTW_REGD_ETSI 1 RTW_REGD_ETSI 21, CHPLAN_ENT RTW_REGD_NA 0 RTW_REGD_FCC 44,
      CHPLAN_ENT RTW_REGD_NA 0 RTW_REGD_FCC 45, CHPLAN_ENT RTW_REGD_NA 0 RTW_REGD_FCC 43,
      CHPLAN_ENT RTW_REGD_ETSI 2 RTW_REGD_ETSI 8, CHPLAN_ENT RTW_REGD_ETSI 2 RTW_REGD_ETSI 3,
      CHPLAN_ENT RTW_REGD_MKK 2 RTW_REGD_MKK 47, CHPLAN_ENT RTW_REGD_FCC 3 RTW_REGD_FCC 9,
      CHPLAN_ENT RTW_REGD_FCC 2 RTW_REGD_FCC 1, CHPLAN_ENT RTW_REGD_FCC 2 RTW_REGD_FCC 3,
      CHPLAN_ENT RTW_REGD_ETSI 1 RTW_REGD_ETSI 23, CHPLAN_ENT RTW_REGD_MKK 2 RTW_REGD_MKK 24,
      CHPLAN_ENT RTW_REGD_ETSI 2 RTW_REGD_ETSI 24, CHPLAN_ENT RTW_REGD_FCC 3 RTW_REGD_FCC 27,
      CHPLAN_ENT RTW_REGD_FCC 3 RTW_REGD_FCC 25, CHPLAN_ENT RTW_REGD_FCC 2 RTW_REGD_FCC 27,
      CHPLAN_ENT RTW_REGD_FCC 2 RTW_REGD_FCC 25, CHPLAN_ENT RTW_REGD_ETSI 2 RTW_REGD_ETSI 25,
      CHPLAN_ENT RTW_REGD_FCC 1 RTW_REGD_FCC 29, CHPLAN_ENT RTW_REGD_FCC 1 RTW_REGD_FCC 26,
      CHPLAN_ENT RTW_REGD_FCC 2 RTW_REGD_FCC 28, CHPLAN_ENT RTW_REGD_FCC 1 RTW_REGD_FCC 25,
      CHPLAN_ENT RTW_REGD_NA 0 RTW_REGD_ETSI 6, CHPLAN_ENT RTW_REGD_NA 0 RTW_REGD_ETSI 30,
      CHPLAN_ENT RTW_REGD_NA 0 RTW_REGD_ETSI 25, CHPLAN_ENT RTW_REGD_NA 0 RTW_REGD_ETSI 31,
      CHPLAN_ENT RTW_REGD_FCC 1 RTW_REGD_FCC 1, CHPLAN_ENT RTW_REGD_FCC 2 RTW_REGD_FCC 19,
      CHPLAN_ENT RTW_REGD_ETSI 1 RTW_REGD_ETSI 32, CHPLAN_ENT RTW_REGD_FCC 2 RTW_REGD_FCC 22,
      CHPLAN_ENT RTW_REGD_ETSI 1 RTW_REGD_ETSI 34, CHPLAN_ENT RTW_REGD_FCC 3 RTW_REGD_FCC 35,
      CHPLAN_ENT RTW_REGD_MKK 2 RTW_REGD_MKK 2, CHPLAN_ENT RTW_REGD_ETSI 2 RTW_REGD_ETSI 28,
      CHPLAN_ENT RTW_REGD_ETSI 2 RTW_REGD_ETSI 46, CHPLAN_ENT RTW_REGD_ETSI 2 RTW_REGD_ETSI 47,
      CHPLAN_ENT RTW_REGD_MKK 4 RTW_REGD_MKK 48, CHPLAN_ENT RTW_REGD_MKK 2 RTW_REGD_MKK 48,
      CHPLAN_ENT RTW_REGD_FCC 1 RTW_REGD_FCC 3]"

datatype REGULATION_TXPWR_LMT =
    TXPWR_LMT_NONE | TXPWR_LMT_FCC | TXPWR_LMT_MKK | TXPWR_LMT_ETSI | TXPWR_LMT_IC | TXPWR_LMT_KCC | TXPWR_LMT_NCC
  | TXPWR_LMT_ACMA | TXPWR_LMT_CHILE | TXPWR_LMT_UKRAINE | TXPWR_LMT_MEXICO | TXPWR_LMT_CN | TXPWR_LMT_QATAR
  | TXPWR_LMT_WW | TXPWR_LMT_DEF

record country_chplan =
  alpha2 :: string
  chplan :: u8
  txpwr_lmt_override :: REGULATION_TXPWR_LMT
  proto_en :: u8

abbreviation COUNTRY_CHPLAN_ENT :: "string \<Rightarrow> u8 \<Rightarrow> REGULATION_TXPWR_LMT \<Rightarrow> u8 \<Rightarrow> country_chplan" where
  "COUNTRY_CHPLAN_ENT a c t p \<equiv> \<lparr>alpha2 = a, chplan = c, txpwr_lmt_override = t, proto_en = p\<rparr>"

definition country_chplan_map :: "country_chplan list" where
  "country_chplan_map =
     [
      COUNTRY_CHPLAN_ENT ''AD'' 0x3a TXPWR_LMT_DEF 3, COUNTRY_CHPLAN_ENT ''AE'' 0x5e TXPWR_LMT_DEF 3,
      COUNTRY_CHPLAN_ENT ''AF'' 0x42 TXPWR_LMT_DEF 3, COUNTRY_CHPLAN_ENT ''AG'' 0x76 TXPWR_LMT_DEF 3,
      COUNTRY_CHPLAN_ENT ''AI'' 0x5e TXPWR_LMT_DEF 3, COUNTRY_CHPLAN_ENT ''AL'' 0x5e TXPWR_LMT_DEF 3,
      COUNTRY_CHPLAN_ENT ''AM'' 0x5e TXPWR_LMT_DEF 3, COUNTRY_CHPLAN_ENT ''AN'' 0x76 TXPWR_LMT_DEF 3,
      COUNTRY_CHPLAN_ENT ''AO'' 0x5e TXPWR_LMT_DEF 3, COUNTRY_CHPLAN_ENT ''AQ'' 0x26 TXPWR_LMT_DEF 3,
      COUNTRY_CHPLAN_ENT ''AR'' 0x4d TXPWR_LMT_DEF 3, COUNTRY_CHPLAN_ENT ''AS'' 0x76 TXPWR_LMT_DEF 3,
      COUNTRY_CHPLAN_ENT ''AT'' 0x5e TXPWR_LMT_DEF 3, COUNTRY_CHPLAN_ENT ''AU'' 0x03 TXPWR_LMT_DEF 3,
      COUNTRY_CHPLAN_ENT ''AW'' 0x76 TXPWR_LMT_DEF 3, COUNTRY_CHPLAN_ENT ''AZ'' 0x5e TXPWR_LMT_DEF 3,
      COUNTRY_CHPLAN_ENT ''BA'' 0x5e TXPWR_LMT_DEF 3, COUNTRY_CHPLAN_ENT ''BB'' 0x76 TXPWR_LMT_DEF 3,
      COUNTRY_CHPLAN_ENT ''BD'' 0x5e TXPWR_LMT_DEF 3, COUNTRY_CHPLAN_ENT ''BE'' 0x5e TXPWR_LMT_DEF 3,
      COUNTRY_CHPLAN_ENT ''BF'' 0x5e TXPWR_LMT_DEF 3, COUNTRY_CHPLAN_ENT ''BG'' 0x5e TXPWR_LMT_DEF 3,
      COUNTRY_CHPLAN_ENT ''BH'' 0x06 TXPWR_LMT_DEF 3, COUNTRY_CHPLAN_ENT ''BI'' 0x3a TXPWR_LMT_DEF 3,
      COUNTRY_CHPLAN_ENT ''BJ'' 0x3a TXPWR_LMT_DEF 3, COUNTRY_CHPLAN_ENT ''BM'' 0x76 TXPWR_LMT_DEF 3,
      COUNTRY_CHPLAN_ENT ''BN'' 0x06 TXPWR_LMT_DEF 3, COUNTRY_CHPLAN_ENT ''BO'' 0x61 TXPWR_LMT_DEF 3,
      COUNTRY_CHPLAN_ENT ''BR'' 0x62 TXPWR_LMT_DEF 3, COUNTRY_CHPLAN_ENT ''BS'' 0x76 TXPWR_LMT_DEF 3,
      COUNTRY_CHPLAN_ENT ''BT'' 0x5e TXPWR_LMT_DEF 3, COUNTRY_CHPLAN_ENT ''BV'' 0x5e TXPWR_LMT_DEF 3,
      COUNTRY_CHPLAN_ENT ''BW'' 0x5e TXPWR_LMT_DEF 3, COUNTRY_CHPLAN_ENT ''BY'' 0x08 TXPWR_LMT_DEF 1,
      COUNTRY_CHPLAN_ENT ''BZ'' 0x76 TXPWR_LMT_DEF 3, COUNTRY_CHPLAN_ENT ''CA'' 0x2b TXPWR_LMT_DEF 3,
      COUNTRY_CHPLAN_ENT ''CC'' 0x3a TXPWR_LMT_DEF 3, COUNTRY_CHPLAN_ENT ''CD'' 0x3a TXPWR_LMT_DEF 3,
      COUNTRY_CHPLAN_ENT ''CF'' 0x3a TXPWR_LMT_DEF 3, COUNTRY_CHPLAN_ENT ''CG'' 0x3a TXPWR_LMT_DEF 3,
      COUNTRY_CHPLAN_ENT ''CH'' 0x5e TXPWR_LMT_DEF 3, COUNTRY_CHPLAN_ENT ''CI'' 0x42 TXPWR_LMT_DEF 3,
      COUNTRY_CHPLAN_ENT ''CK'' 0x5e TXPWR_LMT_DEF 3, COUNTRY_CHPLAN_ENT ''CL'' 0x76 TXPWR_LMT_CHILE 3,
      COUNTRY_CHPLAN_ENT ''CM'' 0x5e TXPWR_LMT_DEF 3, COUNTRY_CHPLAN_ENT ''CN'' 0x06 TXPWR_LMT_CN 3,
      COUNTRY_CHPLAN_ENT ''CO'' 0x76 TXPWR_LMT_DEF 3, COUNTRY_CHPLAN_ENT ''CR'' 0x76 TXPWR_LMT_DEF 3,
      COUNTRY_CHPLAN_ENT ''CV'' 0x5e TXPWR_LMT_DEF 3, COUNTRY_CHPLAN_ENT ''CX'' 0x03 TXPWR_LMT_DEF 3,
      COUNTRY_CHPLAN_ENT ''CY'' 0x5e TXPWR_LMT_DEF 3, COUNTRY_CHPLAN_ENT ''CZ'' 0x5e TXPWR_LMT_DEF 3,
      COUNTRY_CHPLAN_ENT ''DE'' 0x5e TXPWR_LMT_DEF 3, COUNTRY_CHPLAN_ENT ''DJ'' 0x3a TXPWR_LMT_DEF 3,
      COUNTRY_CHPLAN_ENT ''DK'' 0x5e TXPWR_LMT_DEF 3, COUNTRY_CHPLAN_ENT ''DM'' 0x76 TXPWR_LMT_DEF 3,
      COUNTRY_CHPLAN_ENT ''DO'' 0x76 TXPWR_LMT_DEF 3, COUNTRY_CHPLAN_ENT ''DZ'' 0x00 TXPWR_LMT_DEF 3,
      COUNTRY_CHPLAN_ENT ''EC'' 0x76 TXPWR_LMT_DEF 3, COUNTRY_CHPLAN_ENT ''EE'' 0x5e TXPWR_LMT_DEF 3,
      COUNTRY_CHPLAN_ENT ''EG'' 0x3c TXPWR_LMT_DEF 3, COUNTRY_CHPLAN_ENT ''EH'' 0x3c TXPWR_LMT_DEF 3,
      COUNTRY_CHPLAN_ENT ''ER'' 0x3a TXPWR_LMT_DEF 3, COUNTRY_CHPLAN_ENT ''ES'' 0x5e TXPWR_LMT_DEF 3,
      COUNTRY_CHPLAN_ENT ''ET'' 0x3a TXPWR_LMT_DEF 3, COUNTRY_CHPLAN_ENT ''FI'' 0x5e TXPWR_LMT_DEF 3,
      COUNTRY_CHPLAN_ENT ''FJ'' 0x76 TXPWR_LMT_DEF 3, COUNTRY_CHPLAN_ENT ''FK'' 0x3a TXPWR_LMT_DEF 3,
      COUNTRY_CHPLAN_ENT ''FM'' 0x76 TXPWR_LMT_DEF 3, COUNTRY_CHPLAN_ENT ''FO'' 0x3a TXPWR_LMT_DEF 3,
      COUNTRY_CHPLAN_ENT ''FR'' 0x5e TXPWR_LMT_DEF 3, COUNTRY_CHPLAN_ENT ''GA'' 0x5e TXPWR_LMT_DEF 3,
      COUNTRY_CHPLAN_ENT ''GB'' 0x5e TXPWR_LMT_DEF 3, COUNTRY_CHPLAN_ENT ''GD'' 0x76 TXPWR_LMT_DEF 3,
      COUNTRY_CHPLAN_ENT ''GE'' 0x5e TXPWR_LMT_DEF 3, COUNTRY_CHPLAN_ENT ''GF'' 0x3a TXPWR_LMT_DEF 3,
      COUNTRY_CHPLAN_ENT ''GG'' 0x5e TXPWR_LMT_DEF 3, COUNTRY_CHPLAN_ENT ''GH'' 0x5e TXPWR_LMT_DEF 3,
      COUNTRY_CHPLAN_ENT ''GI'' 0x3a TXPWR_LMT_DEF 3, COUNTRY_CHPLAN_ENT ''GL'' 0x5e TXPWR_LMT_DEF 3,
      COUNTRY_CHPLAN_ENT ''GM'' 0x3a TXPWR_LMT_DEF 3, COUNTRY_CHPLAN_ENT ''GN'' 0x3a TXPWR_LMT_DEF 3,
      COUNTRY_CHPLAN_ENT ''GP'' 0x3a TXPWR_LMT_DEF 3, COUNTRY_CHPLAN_ENT ''GQ'' 0x5e TXPWR_LMT_DEF 3,
      COUNTRY_CHPLAN_ENT ''GR'' 0x5e TXPWR_LMT_DEF 3, COUNTRY_CHPLAN_ENT ''GS'' 0x3a TXPWR_LMT_DEF 3,
      COUNTRY_CHPLAN_ENT ''GT'' 0x76 TXPWR_LMT_DEF 3, COUNTRY_CHPLAN_ENT ''GU'' 0x76 TXPWR_LMT_DEF 3,
      COUNTRY_CHPLAN_ENT ''GW'' 0x3a TXPWR_LMT_DEF 3, COUNTRY_CHPLAN_ENT ''GY'' 0x44 TXPWR_LMT_DEF 3,
      COUNTRY_CHPLAN_ENT ''HK'' 0x5e TXPWR_LMT_DEF 3, COUNTRY_CHPLAN_ENT ''HM'' 0x03 TXPWR_LMT_DEF 3,
      COUNTRY_CHPLAN_ENT ''HN'' 0x32 TXPWR_LMT_DEF 3, COUNTRY_CHPLAN_ENT ''HR'' 0x5e TXPWR_LMT_DEF 3,
      COUNTRY_CHPLAN_ENT ''HT'' 0x76 TXPWR_LMT_DEF 1, COUNTRY_CHPLAN_ENT ''HU'' 0x5e TXPWR_LMT_DEF 3,
      COUNTRY_CHPLAN_ENT ''ID'' 0x5d TXPWR_LMT_DEF 3, COUNTRY_CHPLAN_ENT ''IE'' 0x5e TXPWR_LMT_DEF 3,
      COUNTRY_CHPLAN_ENT ''IL'' 0x5e TXPWR_LMT_DEF 3, COUNTRY_CHPLAN_ENT ''IM'' 0x3a TXPWR_LMT_DEF 3,
      COUNTRY_CHPLAN_ENT ''IN'' 0x06 TXPWR_LMT_DEF 3, COUNTRY_CHPLAN_ENT ''IO'' 0x3a TXPWR_LMT_DEF 3,
      COUNTRY_CHPLAN_ENT ''IQ'' 0x05 TXPWR_LMT_DEF 3, COUNTRY_CHPLAN_ENT ''IR'' 0x3a TXPWR_LMT_DEF 0,
      COUNTRY_CHPLAN_ENT ''IS'' 0x5e TXPWR_LMT_DEF 3, COUNTRY_CHPLAN_ENT ''IT'' 0x5e TXPWR_LMT_DEF 3,
      COUNTRY_CHPLAN_ENT ''JE'' 0x3a TXPWR_LMT_DEF 3, COUNTRY_CHPLAN_ENT ''JM'' 0x76 TXPWR_LMT_DEF 3,
      COUNTRY_CHPLAN_ENT ''JO'' 0x05 TXPWR_LMT_DEF 3, COUNTRY_CHPLAN_ENT ''JP'' 0x7d TXPWR_LMT_DEF 3,
      COUNTRY_CHPLAN_ENT ''KE'' 0x5e TXPWR_LMT_DEF 3, COUNTRY_CHPLAN_ENT ''KG'' 0x5e TXPWR_LMT_DEF 3,
      COUNTRY_CHPLAN_ENT ''KH'' 0x5e TXPWR_LMT_DEF 3, COUNTRY_CHPLAN_ENT ''KI'' 0x5e TXPWR_LMT_DEF 3,
      COUNTRY_CHPLAN_ENT ''KM'' 0x3a TXPWR_LMT_DEF 3, COUNTRY_CHPLAN_ENT ''KN'' 0x76 TXPWR_LMT_DEF 3,
      COUNTRY_CHPLAN_ENT ''KR'' 0x4b TXPWR_LMT_DEF 3, COUNTRY_CHPLAN_ENT ''KW'' 0x5e TXPWR_LMT_DEF 3,
      COUNTRY_CHPLAN_ENT ''KY'' 0x76 TXPWR_LMT_DEF 3, COUNTRY_CHPLAN_ENT ''KZ'' 0x5e TXPWR_LMT_DEF 3,
      COUNTRY_CHPLAN_ENT ''LA'' 0x5e TXPWR_LMT_DEF 3, COUNTRY_CHPLAN_ENT ''LB'' 0x5e TXPWR_LMT_DEF 3,
      COUNTRY_CHPLAN_ENT ''LC'' 0x76 TXPWR_LMT_DEF 3, COUNTRY_CHPLAN_ENT ''LI'' 0x5e TXPWR_LMT_DEF 3,
      COUNTRY_CHPLAN_ENT ''LK'' 0x5e TXPWR_LMT_DEF 3, COUNTRY_CHPLAN_ENT ''LR'' 0x5e TXPWR_LMT_DEF 3,
      COUNTRY_CHPLAN_ENT ''LS'' 0x5e TXPWR_LMT_DEF 3, COUNTRY_CHPLAN_ENT ''LT'' 0x5e TXPWR_LMT_DEF 3,
      COUNTRY_CHPLAN_ENT ''LU'' 0x5e TXPWR_LMT_DEF 3, COUNTRY_CHPLAN_ENT ''LV'' 0x5e TXPWR_LMT_DEF 3,
      COUNTRY_CHPLAN_ENT ''LY'' 0x5e TXPWR_LMT_DEF 3, COUNTRY_CHPLAN_ENT ''MA'' 0x3c TXPWR_LMT_DEF 3,
      COUNTRY_CHPLAN_ENT ''MC'' 0x5e TXPWR_LMT_DEF 3, COUNTRY_CHPLAN_ENT ''MD'' 0x5e TXPWR_LMT_DEF 3,
      COUNTRY_CHPLAN_ENT ''ME'' 0x3a TXPWR_LMT_DEF 3, COUNTRY_CHPLAN_ENT ''MF'' 0x76 TXPWR_LMT_DEF 3,
      COUNTRY_CHPLAN_ENT ''MG'' 0x5e TXPWR_LMT_DEF 3, COUNTRY_CHPLAN_ENT ''MH'' 0x76 TXPWR_LMT_DEF 3,
      COUNTRY_CHPLAN_ENT ''MK'' 0x3a TXPWR_LMT_DEF 3, COUNTRY_CHPLAN_ENT ''ML'' 0x5e TXPWR_LMT_DEF 3,
      COUNTRY_CHPLAN_ENT ''MM'' 0x3a TXPWR_LMT_DEF 3, COUNTRY_CHPLAN_ENT ''MN'' 0x5e TXPWR_LMT_DEF 3,
      COUNTRY_CHPLAN_ENT ''MO'' 0x5e TXPWR_LMT_DEF 3, COUNTRY_CHPLAN_ENT ''MP'' 0x76 TXPWR_LMT_DEF 3,
      COUNTRY_CHPLAN_ENT ''MQ'' 0x3a TXPWR_LMT_DEF 3, COUNTRY_CHPLAN_ENT ''MR'' 0x5e TXPWR_LMT_DEF 3,
      COUNTRY_CHPLAN_ENT ''MS'' 0x3a TXPWR_LMT_DEF 3, COUNTRY_CHPLAN_ENT ''MT'' 0x5e TXPWR_LMT_DEF 3,
      COUNTRY_CHPLAN_ENT ''MU'' 0x5e TXPWR_LMT_DEF 3, COUNTRY_CHPLAN_ENT ''MV'' 0x3c TXPWR_LMT_DEF 3,
      COUNTRY_CHPLAN_ENT ''MW'' 0x5e TXPWR_LMT_DEF 3, COUNTRY_CHPLAN_ENT ''MX'' 0x4d TXPWR_LMT_DEF 3,
      COUNTRY_CHPLAN_ENT ''MY'' 0x07 TXPWR_LMT_DEF 3, COUNTRY_CHPLAN_ENT ''MZ'' 0x5e TXPWR_LMT_DEF 3,
      COUNTRY_CHPLAN_ENT ''NA'' 0x5e TXPWR_LMT_DEF 3, COUNTRY_CHPLAN_ENT ''NC'' 0x3a TXPWR_LMT_DEF 3,
      COUNTRY_CHPLAN_ENT ''NE'' 0x5e TXPWR_LMT_DEF 3, COUNTRY_CHPLAN_ENT ''NF'' 0x03 TXPWR_LMT_DEF 3,
      COUNTRY_CHPLAN_ENT ''NG'' 0x75 TXPWR_LMT_DEF 3, COUNTRY_CHPLAN_ENT ''NI'' 0x76 TXPWR_LMT_DEF 3,
      COUNTRY_CHPLAN_ENT ''NL'' 0x5e TXPWR_LMT_DEF 3, COUNTRY_CHPLAN_ENT ''NO'' 0x5e TXPWR_LMT_DEF 3,
      COUNTRY_CHPLAN_ENT ''NP'' 0x06 TXPWR_LMT_DEF 3, COUNTRY_CHPLAN_ENT ''NR'' 0x3a TXPWR_LMT_DEF 3,
      COUNTRY_CHPLAN_ENT ''NU'' 0x03 TXPWR_LMT_DEF 3, COUNTRY_CHPLAN_ENT ''NZ'' 0x03 TXPWR_LMT_DEF 3,
      COUNTRY_CHPLAN_ENT ''OM'' 0x5e TXPWR_LMT_DEF 3, COUNTRY_CHPLAN_ENT ''PA'' 0x76 TXPWR_LMT_DEF 3,
      COUNTRY_CHPLAN_ENT ''PE'' 0x76 TXPWR_LMT_DEF 3, COUNTRY_CHPLAN_ENT ''PF'' 0x3a TXPWR_LMT_DEF 3,
      COUNTRY_CHPLAN_ENT ''PG'' 0x5e TXPWR_LMT_DEF 3, COUNTRY_CHPLAN_ENT ''PH'' 0x5e TXPWR_LMT_DEF 3,
      COUNTRY_CHPLAN_ENT ''PK'' 0x51 TXPWR_LMT_DEF 3, COUNTRY_CHPLAN_ENT ''PL'' 0x5e TXPWR_LMT_DEF 3,
      COUNTRY_CHPLAN_ENT ''PM'' 0x3a TXPWR_LMT_DEF 3, COUNTRY_CHPLAN_ENT ''PR'' 0x76 TXPWR_LMT_DEF 3,
      COUNTRY_CHPLAN_ENT ''PT'' 0x5e TXPWR_LMT_DEF 3, COUNTRY_CHPLAN_ENT ''PW'' 0x76 TXPWR_LMT_DEF 3,
      COUNTRY_CHPLAN_ENT ''PY'' 0x76 TXPWR_LMT_DEF 3, COUNTRY_CHPLAN_ENT ''QA'' 0x5e TXPWR_LMT_QATAR 3,
      COUNTRY_CHPLAN_ENT ''RE'' 0x3a TXPWR_LMT_DEF 3, COUNTRY_CHPLAN_ENT ''RO'' 0x5e TXPWR_LMT_DEF 3,
      COUNTRY_CHPLAN_ENT ''RS'' 0x5e TXPWR_LMT_DEF 3, COUNTRY_CHPLAN_ENT ''RU'' 0x09 TXPWR_LMT_DEF 3,
      COUNTRY_CHPLAN_ENT ''RW'' 0x5e TXPWR_LMT_DEF 3, COUNTRY_CHPLAN_ENT ''SA'' 0x5e TXPWR_LMT_DEF 3,
      COUNTRY_CHPLAN_ENT ''SB'' 0x3a TXPWR_LMT_DEF 3, COUNTRY_CHPLAN_ENT ''SC'' 0x76 TXPWR_LMT_DEF 3,
      COUNTRY_CHPLAN_ENT ''SE'' 0x5e TXPWR_LMT_DEF 3, COUNTRY_CHPLAN_ENT ''SG'' 0x5e TXPWR_LMT_DEF 3,
      COUNTRY_CHPLAN_ENT ''SH'' 0x3a TXPWR_LMT_DEF 3, COUNTRY_CHPLAN_ENT ''SI'' 0x5e TXPWR_LMT_DEF 3,
      COUNTRY_CHPLAN_ENT ''SJ'' 0x3a TXPWR_LMT_DEF 3, COUNTRY_CHPLAN_ENT ''SK'' 0x5e TXPWR_LMT_DEF 3,
      COUNTRY_CHPLAN_ENT ''SL'' 0x5e TXPWR_LMT_DEF 3, COUNTRY_CHPLAN_ENT ''SM'' 0x3a TXPWR_LMT_DEF 3,
      COUNTRY_CHPLAN_ENT ''SN'' 0x3a TXPWR_LMT_DEF 3, COUNTRY_CHPLAN_ENT ''SO'' 0x3a TXPWR_LMT_DEF 3,
      COUNTRY_CHPLAN_ENT ''SR'' 0x74 TXPWR_LMT_DEF 3, COUNTRY_CHPLAN_ENT ''ST'' 0x76 TXPWR_LMT_DEF 3,
      COUNTRY_CHPLAN_ENT ''SV'' 0x76 TXPWR_LMT_DEF 3, COUNTRY_CHPLAN_ENT ''SX'' 0x76 TXPWR_LMT_DEF 3,
      COUNTRY_CHPLAN_ENT ''SZ'' 0x5e TXPWR_LMT_DEF 3, COUNTRY_CHPLAN_ENT ''TC'' 0x3a TXPWR_LMT_DEF 3,
      COUNTRY_CHPLAN_ENT ''TD'' 0x3a TXPWR_LMT_DEF 3, COUNTRY_CHPLAN_ENT ''TF'' 0x3a TXPWR_LMT_DEF 3,
      COUNTRY_CHPLAN_ENT ''TG'' 0x5e TXPWR_LMT_DEF 3, COUNTRY_CHPLAN_ENT ''TH'' 0x5e TXPWR_LMT_DEF 3,
      COUNTRY_CHPLAN_ENT ''TJ'' 0x5e TXPWR_LMT_DEF 3, COUNTRY_CHPLAN_ENT ''TK'' 0x03 TXPWR_LMT_DEF 3,
      COUNTRY_CHPLAN_ENT ''TM'' 0x3a TXPWR_LMT_DEF 3, COUNTRY_CHPLAN_ENT ''TN'' 0x04 TXPWR_LMT_DEF 3,
      COUNTRY_CHPLAN_ENT ''TO'' 0x3a TXPWR_LMT_DEF 3, COUNTRY_CHPLAN_ENT ''TR'' 0x5e TXPWR_LMT_DEF 3,
      COUNTRY_CHPLAN_ENT ''TT'' 0x76 TXPWR_LMT_DEF 3, COUNTRY_CHPLAN_ENT ''TV'' 0x21 TXPWR_LMT_DEF 0,
      COUNTRY_CHPLAN_ENT ''TW'' 0x76 TXPWR_LMT_DEF 3, COUNTRY_CHPLAN_ENT ''TZ'' 0x5e TXPWR_LMT_DEF 3,
      COUNTRY_CHPLAN_ENT ''UA'' 0x5e TXPWR_LMT_UKRAINE 3, COUNTRY_CHPLAN_ENT ''UG'' 0x3a TXPWR_LMT_DEF 3,
      COUNTRY_CHPLAN_ENT ''US'' 0x76 TXPWR_LMT_DEF 3, COUNTRY_CHPLAN_ENT ''UY'' 0x30 TXPWR_LMT_DEF 3,
      COUNTRY_CHPLAN_ENT ''UZ'' 0x3c TXPWR_LMT_DEF 3, COUNTRY_CHPLAN_ENT ''VA'' 0x3a TXPWR_LMT_DEF 3,
      COUNTRY_CHPLAN_ENT ''VC'' 0x76 TXPWR_LMT_DEF 3, COUNTRY_CHPLAN_ENT ''VE'' 0x30 TXPWR_LMT_DEF 3,
      COUNTRY_CHPLAN_ENT ''VG'' 0x76 TXPWR_LMT_DEF 3, COUNTRY_CHPLAN_ENT ''VI'' 0x76 TXPWR_LMT_DEF 3,
      COUNTRY_CHPLAN_ENT ''VN'' 0x5e TXPWR_LMT_DEF 3, COUNTRY_CHPLAN_ENT ''VU'' 0x26 TXPWR_LMT_DEF 3,
      COUNTRY_CHPLAN_ENT ''WF'' 0x3a TXPWR_LMT_DEF 3, COUNTRY_CHPLAN_ENT ''WS'' 0x76 TXPWR_LMT_DEF 3,
      COUNTRY_CHPLAN_ENT ''XK'' 0x3a TXPWR_LMT_DEF 3, COUNTRY_CHPLAN_ENT ''YE'' 0x3a TXPWR_LMT_DEF 3,
      COUNTRY_CHPLAN_ENT ''YT'' 0x5e TXPWR_LMT_DEF 3, COUNTRY_CHPLAN_ENT ''ZA'' 0x5e TXPWR_LMT_DEF 3,
      COUNTRY_CHPLAN_ENT ''ZM'' 0x5e TXPWR_LMT_DEF 3, COUNTRY_CHPLAN_ENT ''ZW'' 0x5e TXPWR_LMT_DEF 3]"

section \<open>Plans\<close>

text \<open>Access to the plan map; outside of the map there is no entry.\<close>

definition plan_of :: "u8 \<Rightarrow> chplan_ent_t option" where
  "plan_of i = (if unat i < length RTW_ChannelPlanMap then Some (RTW_ChannelPlanMap ! unat i) else None)"

definition rtw_chplan_get_default_regd_2g :: "u8 \<Rightarrow> rtw_regd option" where
  "rtw_chplan_get_default_regd_2g i = map_option regd_2g (plan_of i)"

definition rtw_chplan_get_default_regd_5g :: "u8 \<Rightarrow> rtw_regd option" where
  "rtw_chplan_get_default_regd_5g i = map_option regd_5g (plan_of i)"

definition rtw_chplan_get_default_regd :: "u8 \<Rightarrow> rtw_regd option" where
  "rtw_chplan_get_default_regd i =
     (case (rtw_chplan_get_default_regd_2g i, rtw_chplan_get_default_regd_5g i) of
        (Some r2, Some r5) \<Rightarrow>
          Some (if r2 \<noteq> RTW_REGD_NA \<and> r5 \<noteq> RTW_REGD_NA then r5 else if r2 \<noteq> RTW_REGD_NA then r2 else r5)
      | _ \<Rightarrow> None)"

definition rtw_chplan_is_empty :: "u8 \<Rightarrow> bool option" where
  "rtw_chplan_is_empty i = map_option (\<lambda>e. chd_2g e = 0 \<and> chd_5g e = 0) (plan_of i)"

definition rtw_is_channel_plan_valid :: "u8 \<Rightarrow> bool" where
  "rtw_is_channel_plan_valid i = (unat i < length RTW_ChannelPlanMap \<and> rtw_chplan_is_empty i = Some False)"

definition alpha_to_upper :: "char \<Rightarrow> char" where
  "alpha_to_upper c =
     (if of_char (CHR ''a'') \<le> (of_char c :: nat) \<and> of_char c \<le> (of_char (CHR ''z'') :: nat)
      then char_of (of_char (CHR ''A'') + ((of_char c :: nat) - of_char (CHR ''a''))) else c)"

text \<open>The country code is given by its first two characters.\<close>

definition rtw_get_chplan_from_country :: "char \<Rightarrow> char \<Rightarrow> country_chplan option" where
  "rtw_get_chplan_from_country c0 c1 =
     find (\<lambda>ent. [alpha_to_upper c0, alpha_to_upper c1] = take 2 (alpha2 ent)) country_chplan_map"

section \<open>The channel set\<close>

text \<open>
  \<^verbatim>\<open>RT_CHANNEL_INFO\<close>, with the bits of the flags by their numbers. In cleared memory the scan type is the first of its values.
  The counter of hidden networks and the pointer to the channel of the kernel, which no code here reads, are left out.
\<close>

datatype rtw_phl_scan_type = RTW_PHL_SCAN_PASSIVE | RTW_PHL_SCAN_ACTIVE | RTW_PHL_SCAN_MIX

record RT_CHANNEL_INFO =
  ChannelNum :: u8
  ScanType :: rtw_phl_scan_type
  dfs :: bool
  flags :: u8
  non_ocp_end_time :: u32

abbreviation RTW_CHF_NO_IR :: nat where "RTW_CHF_NO_IR \<equiv> 0"
abbreviation RTW_CHF_DFS :: nat where "RTW_CHF_DFS \<equiv> 1"
abbreviation RTW_CHF_NO_HT40U :: nat where "RTW_CHF_NO_HT40U \<equiv> 4"
abbreviation RTW_CHF_NO_HT40L :: nat where "RTW_CHF_NO_HT40L \<equiv> 5"
abbreviation RTW_CHF_NO_80MHZ :: nat where "RTW_CHF_NO_80MHZ \<equiv> 6"
abbreviation RTW_CHF_NO_160MHZ :: nat where "RTW_CHF_NO_160MHZ \<equiv> 7"

definition MAX_CHANNEL_NUM :: nat where
  "MAX_CHANNEL_NUM = 42"

definition channel_info0 :: RT_CHANNEL_INFO where
  "channel_info0 = \<lparr>ChannelNum = 0, ScanType = RTW_PHL_SCAN_PASSIVE, dfs = False, flags = 0, non_ocp_end_time = 0\<rparr>"

text \<open>The excluded channels of the registry end at the first zero.\<close>

definition rtw_regsty_is_excl_chs :: "u8 list \<Rightarrow> u8 \<Rightarrow> bool" where
  "rtw_regsty_is_excl_chs excl_chs ch \<longleftrightarrow> ch \<in> set (takeWhile (\<lambda>c. c \<noteq> 0) (take MAX_CHANNEL_NUM excl_chs))"

definition rtw_is_5g_band1 :: "u8 \<Rightarrow> bool" where "rtw_is_5g_band1 ch \<longleftrightarrow> ch \<ge> 36 \<and> ch \<le> 48"
definition rtw_is_5g_band2 :: "u8 \<Rightarrow> bool" where "rtw_is_5g_band2 ch \<longleftrightarrow> ch \<ge> 52 \<and> ch \<le> 64"
definition rtw_is_5g_band3 :: "u8 \<Rightarrow> bool" where "rtw_is_5g_band3 ch \<longleftrightarrow> ch \<ge> 100 \<and> ch \<le> 144"
definition rtw_is_5g_band4 :: "u8 \<Rightarrow> bool" where "rtw_is_5g_band4 ch \<longleftrightarrow> ch \<ge> 149 \<and> ch \<le> 177"

text \<open>The entry that the two loops of \<^verbatim>\<open>init_channel_set_from_rtk_priv\<close> write for a channel, over the entry that is there.\<close>

definition upd_2g :: "u8 \<Rightarrow> u8 \<Rightarrow> RT_CHANNEL_INFO \<Rightarrow> RT_CHANNEL_INFO" where
  "upd_2g attrib ch e =
     (let e = e\<lparr>ChannelNum := ch\<rparr> in
      if ch \<ge> 12 \<and> ch \<le> 14 \<and> bit attrib CLA_2G_12_14_PASSIVE then e\<lparr>flags := flags e OR 1\<rparr> else e)"

definition dfs_5g :: "u8 \<Rightarrow> u8 \<Rightarrow> bool" where
  "dfs_5g attrib ch \<longleftrightarrow>
     rtw_is_5g_band2 ch \<and> bit attrib CLA_5G_B2_DFS \<or> rtw_is_5g_band3 ch \<and> bit attrib CLA_5G_B3_DFS \<or>
     rtw_is_5g_band4 ch \<and> bit attrib CLA_5G_B4_DFS"

definition passive_5g :: "u8 \<Rightarrow> u8 \<Rightarrow> bool" where
  "passive_5g attrib ch \<longleftrightarrow>
     rtw_is_5g_band1 ch \<and> bit attrib CLA_5G_B1_PASSIVE \<or> rtw_is_5g_band2 ch \<and> bit attrib CLA_5G_B2_PASSIVE \<or>
     rtw_is_5g_band3 ch \<and> bit attrib CLA_5G_B3_PASSIVE \<or> rtw_is_5g_band4 ch \<and> bit attrib CLA_5G_B4_PASSIVE"

definition upd_5g :: "u8 \<Rightarrow> u8 \<Rightarrow> RT_CHANNEL_INFO \<Rightarrow> RT_CHANNEL_INFO" where
  "upd_5g attrib ch e =
     (let e = e\<lparr>ChannelNum := ch\<rparr>;
          e = (if passive_5g attrib ch then e\<lparr>flags := flags e OR 1\<rparr> else e) in
      if dfs_5g attrib ch then e\<lparr>flags := flags e OR 2\<rparr> else e)"

text \<open>Both loops: the channels not excluded are written one after the other, as far as there is room.\<close>

fun chset_loop ::
  "(u8 \<Rightarrow> bool) \<Rightarrow> (u8 \<Rightarrow> RT_CHANNEL_INFO \<Rightarrow> RT_CHANNEL_INFO) \<Rightarrow> u8 list \<Rightarrow> nat \<Rightarrow> RT_CHANNEL_INFO list \<Rightarrow> nat \<times> RT_CHANNEL_INFO list" where
  "chset_loop excl upd [] n channel_set = (n, channel_set)"
| "chset_loop excl upd (ch # chs) n channel_set =
     (if excl ch then chset_loop excl upd chs n channel_set
      else if n \<ge> MAX_CHANNEL_NUM then (n, channel_set)
      else chset_loop excl upd chs (n + 1) (channel_set[n := upd ch (channel_set ! n)]))"

definition list_chs :: "ch_list_t \<Rightarrow> u8 list" where
  "list_chs l = map (CH_LIST_CH l) [0 ..< CH_LIST_LEN l]"

text \<open>
  \<^verbatim>\<open>init_channel_set_from_rtk_priv\<close>: \<open>b2_4GBand\<close> and \<open>b5GBand\<close> say whether both the wireless mode of the registry and
  the hardware support the band, and \<open>now\<close> is the current time, taken as one time for all entries. The result is the size
  and the channel set.
\<close>

definition init_channel_set_from_rtk_priv ::
  "u8 \<Rightarrow> u8 list \<Rightarrow> bool \<Rightarrow> bool \<Rightarrow> u32 \<Rightarrow> RT_CHANNEL_INFO list \<Rightarrow> nat \<times> RT_CHANNEL_INFO list" where
  "init_channel_set_from_rtk_priv ChannelPlan excl_chs b2_4GBand b5GBand now channel_set =
     (if \<not> rtw_is_channel_plan_valid ChannelPlan then (0, channel_set)
      else
        let channel_set = replicate MAX_CHANNEL_NUM channel_info0;
            ent = RTW_ChannelPlanMap ! unat ChannelPlan; excl = rtw_regsty_is_excl_chs excl_chs in
        if \<not> b2_4GBand \<and> \<not> b5GBand then (0, channel_set)
        else
          let (n, channel_set) =
                (if b2_4GBand then
                   let l = rtw_channel_def_2g ! chd_2g ent in
                   chset_loop excl (upd_2g (CH_LIST_ATTRIB l)) (list_chs l) 0 channel_set
                 else (0, channel_set));
              (n, channel_set) =
                (if b5GBand then
                   let l = rtw_channel_def_5g ! chd_5g ent in
                   chset_loop excl (upd_5g (CH_LIST_ATTRIB l)) (list_chs l) n channel_set
                 else (n, channel_set)) in
          (n, map (\<lambda>e. e\<lparr>non_ocp_end_time := now\<rparr>) (take n channel_set) @ drop n channel_set))"

text \<open>A channel set ends at the first entry without channel or after \<^verbatim>\<open>MAX_CHANNEL_NUM\<close> entries.\<close>

definition chset_entries :: "RT_CHANNEL_INFO list \<Rightarrow> RT_CHANNEL_INFO list" where
  "chset_entries chset = takeWhile (\<lambda>e. ChannelNum e \<noteq> 0) (take MAX_CHANNEL_NUM chset)"

fun search_entry :: "u8 \<Rightarrow> RT_CHANNEL_INFO list \<Rightarrow> nat option" where
  "search_entry ch [] = None"
| "search_entry ch (e # es) = (if ch = ChannelNum e then Some 0 else map_option Suc (search_entry ch es))"

definition rtw_chset_search_ch :: "RT_CHANNEL_INFO list \<Rightarrow> u8 \<Rightarrow> nat option" where
  "rtw_chset_search_ch ch_set ch = (if ch = 0 then None else search_entry ch (chset_entries ch_set))"

definition rtw_chset_is_dfs_range :: "RT_CHANNEL_INFO list \<Rightarrow> u32 \<Rightarrow> u32 \<Rightarrow> bool" where
  "rtw_chset_is_dfs_range chset hi lo =
     (let hi_ch = (of_int (rtw_freq2ch (sint hi)) :: u8); lo_ch = (of_int (rtw_freq2ch (sint lo)) :: u8) in
      list_ex (\<lambda>e. bit (flags e) RTW_CHF_DFS \<and> hi_ch > ChannelNum e \<and> lo_ch < ChannelNum e) (chset_entries chset))"

definition rtw_chset_is_dfs_ch :: "RT_CHANNEL_INFO list \<Rightarrow> u8 \<Rightarrow> bool" where
  "rtw_chset_is_dfs_ch chset ch =
     (case find (\<lambda>e. ChannelNum e = ch) (chset_entries chset) of None \<Rightarrow> False | Some e \<Rightarrow> bit (flags e) RTW_CHF_DFS)"

definition rtw_chset_is_dfs_chbw :: "RT_CHANNEL_INFO list \<Rightarrow> u8 \<Rightarrow> u8 \<Rightarrow> u8 \<Rightarrow> bool" where
  "rtw_chset_is_dfs_chbw chset ch bw offset =
     (case rtw_chbw_to_freq_range ch bw offset of None \<Rightarrow> False | Some (hi, lo) \<Rightarrow> rtw_chset_is_dfs_range chset hi lo)"

text \<open>\<^verbatim>\<open>rtw_process_beacon_hint\<close> for a beacon on \<open>ch\<close>; \<open>country_ent\<close> says whether a country is set.\<close>

definition rtw_process_beacon_hint :: "bool \<Rightarrow> u8 \<Rightarrow> RT_CHANNEL_INFO list \<Rightarrow> RT_CHANNEL_INFO list" where
  "rtw_process_beacon_hint country_ent ch chset =
     (case rtw_chset_search_ch chset ch of
        None \<Rightarrow> chset
      | Some i \<Rightarrow>
          if ScanType (chset ! i) = RTW_PHL_SCAN_PASSIVE \<and> \<not> country_ent \<and> \<not> ch \<le> 11 \<and> \<not> dfs (chset ! i)
          then chset[i := (chset ! i)\<lparr>ScanType := RTW_PHL_SCAN_ACTIVE\<rparr>] else chset)"

text \<open>The test of one operating channel of a block, the \<open>i\<close>-th one, in \<^verbatim>\<open>rtw_chset_is_chbw_valid\<close>.\<close>

definition op_ch_allowed :: "RT_CHANNEL_INFO list \<Rightarrow> u8 \<Rightarrow> u8 \<Rightarrow> bool \<Rightarrow> bool \<Rightarrow> nat \<Rightarrow> u8 \<Rightarrow> bool" where
  "op_ch_allowed ch_set ch bw allow_primary_passive allow_passive i op_ch =
     (case rtw_chset_search_ch ch_set op_ch of
        None \<Rightarrow> False
      | Some ch_idx \<Rightarrow>
          let e = ch_set ! ch_idx in
          \<not> (bit (flags e) RTW_CHF_NO_IR \<and>
              (\<not> allow_primary_passive \<and> ChannelNum e = ch \<or> \<not> allow_passive \<and> ChannelNum e \<noteq> ch)) \<and>
          \<not> (bw \<ge> CHANNEL_WIDTH_40 \<and>
              (bit (flags e) RTW_CHF_NO_HT40U \<and> i mod 2 = 0 \<or> bit (flags e) RTW_CHF_NO_HT40L \<and> i mod 2 = 1)) \<and>
          \<not> (bw \<ge> CHANNEL_WIDTH_80 \<and> bit (flags e) RTW_CHF_NO_80MHZ) \<and>
          \<not> (bw \<ge> CHANNEL_WIDTH_160 \<and> bit (flags e) RTW_CHF_NO_160MHZ))"

definition rtw_chset_is_chbw_valid :: "RT_CHANNEL_INFO list \<Rightarrow> u8 \<Rightarrow> u8 \<Rightarrow> u8 \<Rightarrow> bool \<Rightarrow> bool \<Rightarrow> bool" where
  "rtw_chset_is_chbw_valid ch_set ch bw offset allow_primary_passive allow_passive =
     (case rtw_get_op_chs_by_cch_bw (rtw_get_center_ch ch bw offset) bw of
        None \<Rightarrow> False
      | Some op_chs \<Rightarrow>
          op_chs \<noteq> [] \<and>
          list_all (\<lambda>(i, op_ch). op_ch_allowed ch_set ch bw allow_primary_passive allow_passive i op_ch)
            (zip [0 ..< length op_chs] op_chs))"

section \<open>Two channel settings\<close>

record chbw =
  cs_ch :: u8
  cs_bw :: u8
  cs_offset :: u8

definition rtw_is_chbw_grouped :: "chbw \<Rightarrow> chbw \<Rightarrow> bool" where
  "rtw_is_chbw_grouped a b =
     (if cs_ch a \<noteq> cs_ch b then False
      else if (cs_bw a = CHANNEL_WIDTH_40 \<or> cs_bw a = CHANNEL_WIDTH_80) \<and> (cs_bw b = CHANNEL_WIDTH_40 \<or> cs_bw b = CHANNEL_WIDTH_80)
      then cs_offset a = cs_offset b
      else True)"

text \<open>\<^verbatim>\<open>rtw_sync_chbw\<close>: the offset of a request for 40 or 80 MHz, and the whole function on the request and the group.\<close>

definition sync_offset :: "chbw \<Rightarrow> chbw \<Rightarrow> chbw" where
  "sync_offset req g =
     (let req = (if cs_bw g = CHANNEL_WIDTH_40 \<or> cs_bw g = CHANNEL_WIDTH_80 then req\<lparr>cs_offset := cs_offset g\<rparr>
                 else if cs_bw g = CHANNEL_WIDTH_20 then
                   (case rtw_get_offset_by_chbw (cs_ch req) (cs_bw req) (cs_offset req) of
                      None \<Rightarrow> req | Some off \<Rightarrow> req\<lparr>cs_offset := off\<rparr>)
                 else req) in
      if cs_offset req = HAL_PRIME_CHNL_OFFSET_DONT_CARE then req\<lparr>cs_bw := CHANNEL_WIDTH_20\<rparr> else req)"

definition rtw_sync_chbw :: "chbw \<Rightarrow> chbw \<Rightarrow> chbw \<times> chbw" where
  "rtw_sync_chbw req g =
     (let req = req\<lparr>cs_ch := cs_ch g\<rparr>;
          req = (if cs_bw req = CHANNEL_WIDTH_80 \<and> cs_ch g \<le> 14 then req\<lparr>cs_bw := CHANNEL_WIDTH_40\<rparr> else req);
          req = (if cs_bw req = CHANNEL_WIDTH_80 \<or> cs_bw req = CHANNEL_WIDTH_40 then sync_offset req g
                 else if cs_bw req = CHANNEL_WIDTH_20 then req\<lparr>cs_offset := HAL_PRIME_CHNL_OFFSET_DONT_CARE\<rparr>
                 else req) in
      (req, if cs_bw req > cs_bw g then g\<lparr>cs_bw := cs_bw req, cs_offset := cs_offset req\<rparr> else g))"

function chset_sync_loop :: "RT_CHANNEL_INFO list \<Rightarrow> bool \<Rightarrow> bool \<Rightarrow> u8 \<Rightarrow> chbw \<Rightarrow> chbw \<Rightarrow> chbw \<times> chbw" where
  "chset_sync_loop ch_set app ap cur_bw req g =
     (let (r, u) = rtw_sync_chbw (req\<lparr>cs_bw := cur_bw\<rparr>) g in
      if rtw_chset_is_chbw_valid ch_set (cs_ch r) (cs_bw r) (cs_offset r) app ap then (r, u)
      else if cur_bw = CHANNEL_WIDTH_20 then (r, u)
      else chset_sync_loop ch_set app ap (cur_bw - 1) req g)"
  by pat_completeness auto
termination
  by (relation "measure (\<lambda>(ch_set, app, ap, cur_bw, req, g). unat cur_bw)") (auto simp: unat_minus_one unat_gt_0)

declare chset_sync_loop.simps [simp del]

definition rtw_chset_sync_chbw :: "RT_CHANNEL_INFO list \<Rightarrow> chbw \<Rightarrow> chbw \<Rightarrow> bool \<Rightarrow> bool \<Rightarrow> chbw \<times> chbw" where
  "rtw_chset_sync_chbw ch_set req g allow_primary_passive allow_passive =
     chset_sync_loop ch_set allow_primary_passive allow_passive (cs_bw req) req g"

section \<open>Countries\<close>

definition country_key :: "country_chplan \<Rightarrow> nat" where
  "country_key ent = (case alpha2 ent of [a, b] \<Rightarrow> of_char a * 256 + of_char b | _ \<Rightarrow> 0)"

lemma countries_ascending: "successively (\<lambda>a b. country_key a < country_key b) country_chplan_map"
  by (simp add: country_chplan_map_def country_key_def)

lemma country_plans_valid: "list_all (\<lambda>ent. rtw_is_channel_plan_valid (chplan ent) \<and> length (alpha2 ent) = 2) country_chplan_map"
  by code_simp

lemma find_distinct: "distinct (map f xs) \<Longrightarrow> x \<in> set xs \<Longrightarrow> find (\<lambda>y. f x = f y) xs = Some x"
  by (induction xs) (auto, metis image_eqI)

lemma countries_distinct: "distinct (map alpha2 country_chplan_map)"
proof -
  have "sorted_wrt (\<lambda>a b. country_key a < country_key b) country_chplan_map"
    using countries_ascending by (subst (asm) successively_conv_sorted_wrt) (auto intro: transpI)
  then have "sorted_wrt (<) (map country_key country_chplan_map)" by (simp add: sorted_wrt_map)
  then have "inj_on country_key (set country_chplan_map)" "distinct country_chplan_map"
    using strict_sorted_iff [of "map country_key country_chplan_map"] by (simp_all add: distinct_map)
  then show ?thesis by (auto simp: distinct_map inj_on_def country_key_def)
qed

text \<open>
  Every country of the table is found by its two letters in upper or lower case, the table has each country once, and the
  channel plan of the country is one that can be used.
\<close>

theorem country_lookup:
  assumes "ent \<in> set country_chplan_map" and "alpha2 ent = [alpha_to_upper c0, alpha_to_upper c1]"
  shows "rtw_get_chplan_from_country c0 c1 = Some ent \<and> rtw_is_channel_plan_valid (chplan ent)"
proof -
  have len: "length (alpha2 e) = 2 \<and> rtw_is_channel_plan_valid (chplan e)" if "e \<in> set country_chplan_map" for e
    using country_plans_valid that by (auto simp: list_all_iff)
  have "rtw_get_chplan_from_country c0 c1 = find (\<lambda>e. alpha2 ent = alpha2 e) country_chplan_map"
    unfolding rtw_get_chplan_from_country_def using len assms(2) by (intro find_cong) auto
  then show ?thesis using find_distinct [OF countries_distinct assms(1)] len [OF assms(1)] by simp
qed

theorem country_lookup_witness:
  "rtw_get_chplan_from_country (CHR ''j'') (CHR ''P'') = Some (COUNTRY_CHPLAN_ENT ''JP'' 0x7d TXPWR_LMT_DEF 3) \<and> rtw_is_channel_plan_valid 0x7d"
proof -
  have "COUNTRY_CHPLAN_ENT ''JP'' 0x7d TXPWR_LMT_DEF 3 \<in> set country_chplan_map" by (simp add: country_chplan_map_def)
  moreover have "alpha_to_upper (CHR ''j'') = CHR ''J''" "alpha_to_upper (CHR ''P'') = CHR ''P''" by code_simp+
  ultimately show ?thesis using country_lookup [of "COUNTRY_CHPLAN_ENT ''JP'' 0x7d TXPWR_LMT_DEF 3" "CHR ''j''" "CHR ''P''"] by simp
qed

section \<open>The channel set of a plan\<close>

definition channel_lists_checked :: "(u8 \<Rightarrow> bool) \<Rightarrow> nat \<Rightarrow> ch_list_t list \<Rightarrow> bool" where
  "channel_lists_checked in_band n ls \<longleftrightarrow>
     list_all (\<lambda>l. l \<noteq> [] \<and> length l = CH_LIST_LEN l + 2 \<and> CH_LIST_LEN l \<le> n \<and> list_all in_band (list_chs l) \<and>
       successively (<) (list_chs l)) ls"

lemma lists_2g_checked: "channel_lists_checked (\<lambda>ch. ch \<in> set center_ch_2g) 14 rtw_channel_def_2g"
  by code_simp

lemma lists_5g_checked: "channel_lists_checked (\<lambda>ch. ch \<in> set center_ch_5g_20m) 28 rtw_channel_def_5g"
  by code_simp

lemma plan_map_checked:
  "list_all (\<lambda>e. chd_2g e < length rtw_channel_def_2g \<and> chd_5g e < length rtw_channel_def_5g) RTW_ChannelPlanMap"
  by code_simp

lemma chset_loop_append:
  assumes "length pre + m \<le> MAX_CHANNEL_NUM" and "length (filter (\<lambda>c. \<not> excl c) chs) \<le> m"
  shows "chset_loop excl upd chs (length pre) (pre @ replicate m e0) =
    (length pre + length (filter (\<lambda>c. \<not> excl c) chs),
     pre @ map (\<lambda>c. upd c e0) (filter (\<lambda>c. \<not> excl c) chs) @ replicate (m - length (filter (\<lambda>c. \<not> excl c) chs)) e0)"
  using assms
proof (induction chs arbitrary: pre m)
  case (Cons c chs)
  show ?case
  proof (cases "excl c")
    case False
    then obtain m' where m: "m = Suc m'" using Cons.prems(2) by (cases m) auto
    have "chset_loop excl upd (c # chs) (length pre) (pre @ replicate m e0) =
        chset_loop excl upd chs (length (pre @ [upd c e0])) ((pre @ [upd c e0]) @ replicate m' e0)"
      using False Cons.prems m by simp
    also have "\<dots> = (length pre + length (filter (\<lambda>c. \<not> excl c) (c # chs)),
      pre @ map (\<lambda>c. upd c e0) (filter (\<lambda>c. \<not> excl c) (c # chs)) @ replicate (m - length (filter (\<lambda>c. \<not> excl c) (c # chs))) e0)"
      using Cons.IH [of "pre @ [upd c e0]" m'] Cons.prems False m by simp
    finally show ?thesis .
  qed (use Cons in simp)
qed simp

text \<open>The channels of a plan in the bands that are supported, and the entries for them.\<close>

definition plan_chs_2g :: "u8 \<Rightarrow> u8 list" where
  "plan_chs_2g p = list_chs (rtw_channel_def_2g ! chd_2g (RTW_ChannelPlanMap ! unat p))"

definition plan_chs_5g :: "u8 \<Rightarrow> u8 list" where
  "plan_chs_5g p = list_chs (rtw_channel_def_5g ! chd_5g (RTW_ChannelPlanMap ! unat p))"

definition plan_attr_2g :: "u8 \<Rightarrow> u8" where
  "plan_attr_2g p = CH_LIST_ATTRIB (rtw_channel_def_2g ! chd_2g (RTW_ChannelPlanMap ! unat p))"

definition plan_attr_5g :: "u8 \<Rightarrow> u8" where
  "plan_attr_5g p = CH_LIST_ATTRIB (rtw_channel_def_5g ! chd_5g (RTW_ChannelPlanMap ! unat p))"

definition plan_entries :: "u8 \<Rightarrow> u8 list \<Rightarrow> bool \<Rightarrow> bool \<Rightarrow> RT_CHANNEL_INFO list" where
  "plan_entries p excl_chs b2 b5 =
     (if b2 then map (\<lambda>c. upd_2g (plan_attr_2g p) c channel_info0) (filter (\<lambda>c. \<not> rtw_regsty_is_excl_chs excl_chs c) (plan_chs_2g p))
      else []) @
     (if b5 then map (\<lambda>c. upd_5g (plan_attr_5g p) c channel_info0) (filter (\<lambda>c. \<not> rtw_regsty_is_excl_chs excl_chs c) (plan_chs_5g p))
      else [])"

lemma channel_listD:
  assumes "channel_lists_checked B n ls" and "i < length ls"
  shows "set (list_chs (ls ! i)) \<subseteq> Collect B" and "length (list_chs (ls ! i)) \<le> n" and "sorted_wrt (<) (list_chs (ls ! i))"
  using assms nth_mem [of i ls]
  by (auto simp: channel_lists_checked_def list_all_iff successively_conv_sorted_wrt list_chs_def transp_on_less)

lemma plan_lists:
  assumes "rtw_is_channel_plan_valid p"
  shows "set (plan_chs_2g p) \<subseteq> set center_ch_2g" "length (plan_chs_2g p) \<le> 14" "sorted_wrt (<) (plan_chs_2g p)"
    and "set (plan_chs_5g p) \<subseteq> set center_ch_5g_20m" "length (plan_chs_5g p) \<le> 28" "sorted_wrt (<) (plan_chs_5g p)"
proof -
  have "RTW_ChannelPlanMap ! unat p \<in> set RTW_ChannelPlanMap" using assms by (simp add: rtw_is_channel_plan_valid_def)
  then have "chd_2g (RTW_ChannelPlanMap ! unat p) < length rtw_channel_def_2g" "chd_5g (RTW_ChannelPlanMap ! unat p) < length rtw_channel_def_5g"
    using plan_map_checked by (auto simp: list_all_iff)
  then show "set (plan_chs_2g p) \<subseteq> set center_ch_2g" "length (plan_chs_2g p) \<le> 14" "sorted_wrt (<) (plan_chs_2g p)"
    "set (plan_chs_5g p) \<subseteq> set center_ch_5g_20m" "length (plan_chs_5g p) \<le> 28" "sorted_wrt (<) (plan_chs_5g p)"
    unfolding plan_chs_2g_def plan_chs_5g_def
    using channel_listD [OF lists_2g_checked] channel_listD [OF lists_5g_checked] by auto
qed

lemma kept_length: "length xs \<le> n \<Longrightarrow> length (filter Q xs) \<le> n"
  using length_filter_le [of Q xs] by linarith

lemmas plan_lengths = plan_lists(2,5) [THEN kept_length]

lemma plan_entries_length: "rtw_is_channel_plan_valid p \<Longrightarrow> length (plan_entries p excl_chs b2 b5) \<le> MAX_CHANNEL_NUM"
  using plan_lengths [of p "\<lambda>c. \<not> rtw_regsty_is_excl_chs excl_chs c"] by (simp add: plan_entries_def MAX_CHANNEL_NUM_def)

lemma init_channel_set_entries:
  assumes "rtw_is_channel_plan_valid p"
  shows "init_channel_set_from_rtk_priv p excl_chs b2 b5 now cs0 =
    (length (plan_entries p excl_chs b2 b5),
     map (\<lambda>e. e\<lparr>non_ocp_end_time := now\<rparr>) (plan_entries p excl_chs b2 b5) @
     replicate (MAX_CHANNEL_NUM - length (plan_entries p excl_chs b2 b5)) channel_info0)"
proof -
  let ?f = "filter (\<lambda>c. \<not> rtw_regsty_is_excl_chs excl_chs c)"
  note le = plan_lengths [OF assms, of "\<lambda>c. \<not> rtw_regsty_is_excl_chs excl_chs c"]
  define u2 u5 where "u2 = upd_2g (plan_attr_2g p)" and "u5 = upd_5g (plan_attr_5g p)"
  have l2: "chset_loop (rtw_regsty_is_excl_chs excl_chs) u2 (plan_chs_2g p) 0 (replicate MAX_CHANNEL_NUM channel_info0) =
     (length (?f (plan_chs_2g p)), map (\<lambda>c. u2 c channel_info0) (?f (plan_chs_2g p)) @
       replicate (MAX_CHANNEL_NUM - length (?f (plan_chs_2g p))) channel_info0)"
    using chset_loop_append [of "[]" MAX_CHANNEL_NUM "rtw_regsty_is_excl_chs excl_chs" "plan_chs_2g p" u2] le
    by (simp add: MAX_CHANNEL_NUM_def)
  have l5: "chset_loop (rtw_regsty_is_excl_chs excl_chs) u5 (plan_chs_5g p) (length pre) (pre @ replicate (MAX_CHANNEL_NUM - length pre) channel_info0) =
     (length pre + length (?f (plan_chs_5g p)), pre @ map (\<lambda>c. u5 c channel_info0) (?f (plan_chs_5g p)) @
       replicate (MAX_CHANNEL_NUM - length pre - length (?f (plan_chs_5g p))) channel_info0)" if "length pre \<le> 14" for pre
    using chset_loop_append [of pre "MAX_CHANNEL_NUM - length pre" "rtw_regsty_is_excl_chs excl_chs" "plan_chs_5g p" u5] that le
    by (simp add: MAX_CHANNEL_NUM_def)
  show ?thesis
    using assms l2 l5 [of "map (\<lambda>c. u2 c channel_info0) (?f (plan_chs_2g p))"] l5 [of "[]"] le
    unfolding init_channel_set_from_rtk_priv_def plan_entries_def
    by (simp add: Let_def u2_def u5_def plan_chs_2g_def plan_chs_5g_def plan_attr_2g_def plan_attr_5g_def)
qed

text \<open>What the flags of a channel say: no initiation of radiation, radar detection.\<close>

definition no_ir_ch :: "u8 \<Rightarrow> u8 \<Rightarrow> bool" where
  "no_ir_ch p ch \<longleftrightarrow> (if ch \<le> 14 then ch \<ge> 12 \<and> bit (plan_attr_2g p) CLA_2G_12_14_PASSIVE else passive_5g (plan_attr_5g p) ch)"

definition radar_ch :: "u8 \<Rightarrow> u8 \<Rightarrow> bool" where
  "radar_ch p ch \<longleftrightarrow> ch > 14 \<and> dfs_5g (plan_attr_5g p) ch"

definition plan_chs :: "u8 \<Rightarrow> u8 list \<Rightarrow> bool \<Rightarrow> bool \<Rightarrow> u8 list" where
  "plan_chs p excl_chs b2 b5 =
     filter (\<lambda>c. \<not> rtw_regsty_is_excl_chs excl_chs c) ((if b2 then plan_chs_2g p else []) @ (if b5 then plan_chs_5g p else []))"

definition plan_entry :: "u8 \<Rightarrow> u32 \<Rightarrow> u8 \<Rightarrow> RT_CHANNEL_INFO" where
  "plan_entry p now ch =
     \<lparr>ChannelNum = ch, ScanType = RTW_PHL_SCAN_PASSIVE, dfs = False,
      flags = (if no_ir_ch p ch then 1 else 0) + (if radar_ch p ch then 2 else 0), non_ocp_end_time = now\<rparr>"

lemma plan_entry_ch [simp]: "ChannelNum (plan_entry p now ch) = ch"
  by (simp add: plan_entry_def)

lemma bands: "c \<in> set center_ch_2g \<Longrightarrow> c \<le> 14 \<and> c \<noteq> 0" "c \<in> set center_ch_5g_20m \<Longrightarrow> c > 14"
  by (auto simp: center_ch_2g_def center_ch_5g_20m_def)

lemma plan_entries_map:
  assumes "rtw_is_channel_plan_valid p"
  shows "map (\<lambda>e. e\<lparr>non_ocp_end_time := now\<rparr>) (plan_entries p excl_chs b2 b5) = map (plan_entry p now) (plan_chs p excl_chs b2 b5)"
proof -
  have "(upd_2g (plan_attr_2g p) c channel_info0)\<lparr>non_ocp_end_time := now\<rparr> = plan_entry p now c" if "c \<in> set (plan_chs_2g p)" for c
    using bands(1) [of c] plan_lists(1) [OF assms] that
    by (auto simp: upd_2g_def Let_def channel_info0_def plan_entry_def no_ir_ch_def radar_ch_def)
  moreover have "(upd_5g (plan_attr_5g p) c channel_info0)\<lparr>non_ocp_end_time := now\<rparr> = plan_entry p now c" if "c \<in> set (plan_chs_5g p)" for c
    using bands(2) [of c] plan_lists(4) [OF assms] that
    by (auto simp: upd_5g_def Let_def channel_info0_def plan_entry_def no_ir_ch_def radar_ch_def not_le)
  ultimately show ?thesis by (simp add: plan_entries_def plan_chs_def)
qed

lemma plan_chs_sorted:
  assumes "rtw_is_channel_plan_valid p"
  shows "sorted_wrt (<) (plan_chs p excl_chs b2 b5)"
proof -
  have "c < d" if "c \<in> set (plan_chs_2g p)" "d \<in> set (plan_chs_5g p)" for c d
    using that bands(1) [of c] bands(2) [of d] plan_lists(1,4) [OF assms] by fastforce
  then show ?thesis using plan_lists(3,6) [OF assms]
    by (auto simp: plan_chs_def sorted_wrt_append intro: sorted_wrt_filter)
qed

lemma plan_chs_op:
  assumes "rtw_is_channel_plan_valid p"
  shows "set (plan_chs p excl_chs b2 b5) \<subseteq> set op_channels" and "0 \<notin> set (plan_chs p excl_chs b2 b5)"
  using plan_lists(1,4) [OF assms] bands by (fastforce simp: plan_chs_def op_channels_def)+

lemma plan_entries_chs: "length (plan_entries p excl_chs b2 b5) = length (plan_chs p excl_chs b2 b5)"
  by (simp add: plan_entries_def plan_chs_def)

lemma plan_chs_length: "rtw_is_channel_plan_valid p \<Longrightarrow> length (plan_chs p excl_chs b2 b5) \<le> MAX_CHANNEL_NUM"
  using plan_entries_length by (simp add: plan_entries_chs)

lemma init_channel_set_plan:
  assumes "rtw_is_channel_plan_valid p"
  shows "init_channel_set_from_rtk_priv p excl_chs b2 b5 now cs0 =
    (length (plan_chs p excl_chs b2 b5),
     map (plan_entry p now) (plan_chs p excl_chs b2 b5) @
     replicate (MAX_CHANNEL_NUM - length (plan_chs p excl_chs b2 b5)) channel_info0)"
  by (simp add: init_channel_set_entries assms plan_entries_map plan_entries_chs)

lemma entries_of_set:
  assumes "0 \<notin> set chs" and "length chs \<le> MAX_CHANNEL_NUM"
  shows "chset_entries (map (plan_entry p now) chs @ replicate (MAX_CHANNEL_NUM - length chs) channel_info0) = map (plan_entry p now) chs"
proof -
  have "takeWhile (\<lambda>e. ChannelNum e \<noteq> 0) (map (plan_entry p now) chs @ replicate n channel_info0) = map (plan_entry p now) chs" for n
    using assms(1) by (induction chs) (cases n; auto simp: plan_entry_def channel_info0_def)+
  then show ?thesis using assms(2) by (simp add: chset_entries_def)
qed

lemma search_entry_Some: "search_entry ch es = Some i \<Longrightarrow> i < length es \<and> ChannelNum (es ! i) = ch"
  by (induction ch es arbitrary: i rule: search_entry.induct) (auto split: if_splits)

lemma search_entry_None: "search_entry ch es = None \<longleftrightarrow> ch \<notin> ChannelNum ` set es"
  by (induction ch es rule: search_entry.induct) auto

lemma search_plan:
  assumes "rtw_is_channel_plan_valid p" and "init_channel_set_from_rtk_priv p excl_chs b2 b5 now cs0 = (n, cs)"
  shows "chset_entries cs = map (plan_entry p now) (plan_chs p excl_chs b2 b5)"
    and "rtw_chset_search_ch cs c = None \<longleftrightarrow> c \<notin> set (plan_chs p excl_chs b2 b5)"
    and "rtw_chset_search_ch cs c = Some i \<Longrightarrow> i < n \<and> cs ! i = plan_entry p now c"
proof -
  let ?chs = "plan_chs p excl_chs b2 b5"
  have n: "n = length ?chs" and cs: "cs = map (plan_entry p now) ?chs @ replicate (MAX_CHANNEL_NUM - length ?chs) channel_info0"
    using assms(2) unfolding init_channel_set_plan [OF assms(1)] by blast+
  show es: "chset_entries cs = map (plan_entry p now) ?chs"
    unfolding cs by (rule entries_of_set [OF plan_chs_op(2) [OF assms(1)] plan_chs_length [OF assms(1)]])
  show "rtw_chset_search_ch cs c = None \<longleftrightarrow> c \<notin> set ?chs"
    using plan_chs_op(2) [OF assms(1)]
    by (auto simp: rtw_chset_search_ch_def es search_entry_None image_image plan_entry_def)
  show "i < n \<and> cs ! i = plan_entry p now c" if "rtw_chset_search_ch cs c = Some i"
  proof -
    have "search_entry c (map (plan_entry p now) ?chs) = Some i"
      using that es by (simp add: rtw_chset_search_ch_def split: if_splits)
    then have "i < length ?chs \<and> ?chs ! i = c" using search_entry_Some by fastforce
    then show ?thesis by (auto simp: n cs nth_append)
  qed
qed

lemma plan_flags:
  "bit (flags (plan_entry p now c)) RTW_CHF_NO_IR \<longleftrightarrow> no_ir_ch p c"
  "bit (flags (plan_entry p now c)) RTW_CHF_DFS \<longleftrightarrow> radar_ch p c"
  "\<not> bit (flags (plan_entry p now c)) RTW_CHF_NO_HT40U" "\<not> bit (flags (plan_entry p now c)) RTW_CHF_NO_HT40L"
  "\<not> bit (flags (plan_entry p now c)) RTW_CHF_NO_80MHZ" "\<not> bit (flags (plan_entry p now c)) RTW_CHF_NO_160MHZ"
  by (simp_all add: plan_entry_def)

lemma op_ch_allowed_plan:
  assumes "rtw_is_channel_plan_valid p" and "init_channel_set_from_rtk_priv p excl_chs b2 b5 now cs0 = (n, cs)"
  shows "op_ch_allowed cs ch bw app ap i c \<longleftrightarrow>
    c \<in> set (plan_chs p excl_chs b2 b5) \<and> (no_ir_ch p c \<longrightarrow> (if c = ch then app else ap))"
proof (cases "rtw_chset_search_ch cs c")
  case (Some j)
  then have "cs ! j = plan_entry p now c" "c \<in> set (plan_chs p excl_chs b2 b5)"
    using search_plan(2,3) [OF assms] by force+
  then show ?thesis using Some by (auto simp: op_ch_allowed_def Let_def plan_flags)
next
  case None
  then show ?thesis using search_plan(2) [OF assms, of c] by (auto simp: op_ch_allowed_def)
qed

text \<open>Radar detection in a block: the channels between the ends of the frequency range are those of the block.\<close>

lemma freq_word: "x \<in> {0 .. 2 ^ 31 - 1} \<Longrightarrow> sint (word_of_int x :: u32) = x"
  by (simp add: signed_take_bit_int_eq_self sint_sbintrunc')

lemma freq_ch_5g:
  assumes "36 \<le> x" and "x \<le> 177" and "k \<in> {-16 .. 16}"
  shows "rtw_freq2ch (sint (word_of_int (5000 + x * 5 + k * 5) :: u32)) = x + k"
proof -
  have "(x * 5 + k * 5) sdiv 5 = x + k" using assms by (simp add: signed_divide_int_def sgn_if)
  then show ?thesis using assms freq_word [of "5000 + x * 5 + k * 5"] by (simp add: rtw_freq2ch_def algebra_simps)
qed

definition radar_range_checked :: "u8 \<Rightarrow> bool" where
  "radar_range_checked bw \<longleftrightarrow>
     list_all (\<lambda>cch. case rtw_get_op_chs_by_cch_bw cch bw of
         None \<Rightarrow> False
       | Some op_chs \<Rightarrow>
           list_all (\<lambda>c. (cch + 2 * 2 ^ unat bw > c \<and> cch - 2 * 2 ^ unat bw < c) = (c \<in> set op_chs)) center_ch_5g_20m)
       (center_chs_5g_by_bw ! unat bw)"

lemma radar_range_160: "radar_range_checked CHANNEL_WIDTH_160"
  by code_simp

lemma radar_range_80: "radar_range_checked CHANNEL_WIDTH_80"
  by code_simp

lemma radar_range_40: "radar_range_checked CHANNEL_WIDTH_40"
  by code_simp

lemma radar_range_20: "radar_range_checked CHANNEL_WIDTH_20"
  by code_simp

lemma radar_bounds:
  assumes "bw \<le> CHANNEL_WIDTH_160" and "36 \<le> rtw_get_center_ch ch bw off" and "rtw_get_center_ch ch bw off \<le> 177"
  obtains hi lo where "rtw_chbw_to_freq_range ch bw off = Some (hi, lo)"
    and "(of_int (rtw_freq2ch (sint hi)) :: u8) = rtw_get_center_ch ch bw off + 2 * 2 ^ unat bw"
    and "(of_int (rtw_freq2ch (sint lo)) :: u8) = rtw_get_center_ch ch bw off - 2 * 2 ^ unat bw"
proof -
  define cch x where "cch = rtw_get_center_ch ch bw off" and "x = uint cch"
  have x: "36 \<le> x" "x \<le> 177" using assms(2,3) by (simp_all add: x_def cch_def word_le_def)
  define k :: int where "k = 2 * 2 ^ unat bw"
  have k: "k \<in> {-16 .. 16}" "- k \<in> {-16 .. 16}" using assms(1) by (cases rule: bw_cases; simp add: k_def)+
  have freq: "rtw_ch2freq x = 5000 + x * 5" using x by (simp add: rtw_ch2freq_def)
  have nz: "(word_of_int (5000 + x * 5) :: u32) \<noteq> 0"
  proof
    assume z: "(word_of_int (5000 + x * 5) :: u32) = 0"
    have "sint (word_of_int (5000 + x * 5) :: u32) = 5000 + x * 5" using x by (intro freq_word) simp
    then show False using x unfolding z by simp
  qed
  have "rtw_chbw_to_freq_range ch bw off =
      Some (word_of_int (5000 + x * 5 + k * 5), word_of_int (5000 + x * 5 + (- k) * 5))"
    using assms(1) nz unfolding rtw_chbw_to_freq_range_def cch_def [symmetric] x_def [symmetric] freq Let_def
    by (cases rule: bw_cases) (simp_all add: k_def)
  moreover have "(of_int (x + k) :: u8) = cch + 2 * 2 ^ unat bw" "(of_int (x + (- k)) :: u8) = cch - 2 * 2 ^ unat bw"
    by (simp_all add: x_def k_def)
  ultimately show ?thesis
    using that freq_ch_5g [OF x k(1)] freq_ch_5g [OF x k(2)] unfolding cch_def by simp
qed

lemma center_5g_checked:
  "list_all (\<lambda>ch. list_all (\<lambda>bw. list_all (\<lambda>off. 14 < rtw_get_center_ch ch bw off) [0, 1, 2]) [0, 1, 2, 3]) center_ch_5g_20m"
  by code_simp

lemma center_ch_offset: "rtw_get_center_ch ch bw off = rtw_get_center_ch ch bw (if off = 1 then 1 else if off = 2 then 2 else 0)"
  by (simp add: rtw_get_center_ch_def)

lemma center_5g:
  assumes "ch \<in> set center_ch_5g_20m" and "bw \<le> CHANNEL_WIDTH_160"
  shows "14 < rtw_get_center_ch ch bw off"
  using center_5g_checked assms unfolding center_ch_offset [of ch bw off]
  by (cases rule: bw_cases [OF assms(2)]) (auto simp: list_all_iff)

lemma index_of_less: "index_of c xs \<noteq> length xs \<Longrightarrow> c \<in> set xs"
  by (induction xs) (auto split: if_splits)

lemma zip_list_all: "list_all (\<lambda>(i, c). Q c) (zip [0 ..< length xs] xs) \<longleftrightarrow> list_all Q xs"
  by (simp add: list_all_length)

lemma block_5g:
  assumes "ch \<in> set center_ch_5g_20m" and "bw \<le> CHANNEL_WIDTH_160"
    and "rtw_get_op_chs_by_cch_bw (rtw_get_center_ch ch bw off) bw = Some blk"
  shows "36 \<le> rtw_get_center_ch ch bw off" and "rtw_get_center_ch ch bw off \<le> 177"
    and "rtw_get_center_ch ch bw off \<in> set (center_chs_5g_by_bw ! unat bw)"
  using assms(3) center_5g [OF assms(1,2), of off] unfolding rtw_get_op_chs_by_cch_bw_def Let_def
  by (auto split: if_splits prod.splits intro: index_of_less)

lemma radar_range:
  assumes "ch \<in> set center_ch_5g_20m" and "bw \<le> CHANNEL_WIDTH_160"
    and "rtw_get_op_chs_by_cch_bw (rtw_get_center_ch ch bw off) bw = Some blk" and "c \<in> set center_ch_5g_20m"
  shows "rtw_get_center_ch ch bw off + 2 * 2 ^ unat bw > c \<and> rtw_get_center_ch ch bw off - 2 * 2 ^ unat bw < c \<longleftrightarrow> c \<in> set blk"
proof -
  have "radar_range_checked bw"
    using assms(2) radar_range_20 radar_range_40 radar_range_80 radar_range_160 by (cases rule: bw_cases) simp_all
  then show ?thesis
    using block_5g(3) [OF assms(1-3)] assms(3,4) by (auto simp: radar_range_checked_def list_all_iff split: option.splits)
qed

lemma dfs_chbw_block:
  assumes "ch \<in> set center_ch_5g_20m" and "bw \<le> CHANNEL_WIDTH_160"
    and "rtw_get_op_chs_by_cch_bw (rtw_get_center_ch ch bw off) bw = Some blk"
    and "\<And>e. e \<in> set (chset_entries cs) \<Longrightarrow> bit (flags e) RTW_CHF_DFS \<Longrightarrow> ChannelNum e \<in> set center_ch_5g_20m"
  shows "rtw_chset_is_dfs_chbw cs ch bw off \<longleftrightarrow> (\<exists>e \<in> set (chset_entries cs). bit (flags e) RTW_CHF_DFS \<and> ChannelNum e \<in> set blk)"
proof -
  obtain hi lo where "rtw_chbw_to_freq_range ch bw off = Some (hi, lo)"
    and "(of_int (rtw_freq2ch (sint hi)) :: u8) = rtw_get_center_ch ch bw off + 2 * 2 ^ unat bw"
    and "(of_int (rtw_freq2ch (sint lo)) :: u8) = rtw_get_center_ch ch bw off - 2 * 2 ^ unat bw"
    using radar_bounds [OF assms(2) block_5g(1,2) [OF assms(1-3)]] .
  then show ?thesis
    using radar_range [OF assms(1-3)] assms(4)
    by (auto simp: rtw_chset_is_dfs_chbw_def rtw_chset_is_dfs_range_def Let_def list_ex_iff)
qed

text \<open>
  C38: The channel set of a plan. For a valid channel plan the channel set holds, in ascending order and each once, the
  channels that the plan names for the supported bands, less the excluded ones; they all fit, and the rest of the array
  is cleared. An entry is marked as not to be used for initiating exactly when the attributes of the plan say so for its
  band, and for radar detection likewise; no other flag is set, and the scan type and the radar field of the entry
  are those of cleared memory. The search finds exactly the channels of the set.
\<close>

theorem init_channel_set_of_plan:
  assumes "rtw_is_channel_plan_valid p" and "init_channel_set_from_rtk_priv p excl_chs b2 b5 now cs0 = (n, cs)"
  shows "length cs = MAX_CHANNEL_NUM \<and> n \<le> MAX_CHANNEL_NUM \<and>
    take n cs = map (plan_entry p now) (plan_chs p excl_chs b2 b5) \<and>
    drop n cs = replicate (MAX_CHANNEL_NUM - n) channel_info0 \<and>
    sorted_wrt (<) (plan_chs p excl_chs b2 b5) \<and> set (plan_chs p excl_chs b2 b5) \<subseteq> set op_channels \<and>
    (\<forall>c. case rtw_chset_search_ch cs c of
           None \<Rightarrow> c \<notin> set (plan_chs p excl_chs b2 b5)
         | Some i \<Rightarrow> c \<in> set (plan_chs p excl_chs b2 b5) \<and> i < n \<and> cs ! i = plan_entry p now c)"
proof -
  let ?chs = "plan_chs p excl_chs b2 b5"
  have n: "n = length ?chs" and cs: "cs = map (plan_entry p now) ?chs @ replicate (MAX_CHANNEL_NUM - length ?chs) channel_info0"
    using assms(2) unfolding init_channel_set_plan [OF assms(1)] by blast+
  have "case rtw_chset_search_ch cs c of None \<Rightarrow> c \<notin> set ?chs | Some i \<Rightarrow> c \<in> set ?chs \<and> i < n \<and> cs ! i = plan_entry p now c" for c
    using search_plan(2,3) [OF assms, of c] by (cases "rtw_chset_search_ch cs c") auto
  then show ?thesis
    using n cs plan_chs_length [OF assms(1), of excl_chs b2 b5] plan_chs_sorted [OF assms(1)] plan_chs_op(1) [OF assms(1)] by simp
qed

theorem init_channel_set_of_plan_witness:
  "\<exists>n cs. init_channel_set_from_rtk_priv 0x7d [] True True 5 [] = (n, cs) \<and> n = length (plan_chs 0x7d [] True True) \<and>
    rtw_chset_search_ch cs 52 \<noteq> None \<and> rtw_chset_search_ch cs 149 = None \<and> radar_ch 0x7d 52 \<and> \<not> no_ir_ch 0x7d 52"
proof -
  obtain n cs where init: "init_channel_set_from_rtk_priv 0x7d [] True True 5 [] = (n, cs)" by (metis prod.exhaust)
  have "rtw_is_channel_plan_valid 0x7d" by code_simp
  note spec = init_channel_set_of_plan [OF this init]
  have chs: "52 \<in> set (plan_chs 0x7d [] True True)" "149 \<notin> set (plan_chs 0x7d [] True True)"
    and radar: "radar_ch 0x7d 52" "\<not> no_ir_ch 0x7d 52"
    by code_simp+
  have n: "n = length (plan_chs 0x7d [] True True)" using spec by (auto dest: arg_cong [where f = length])
  have "case rtw_chset_search_ch cs c of None \<Rightarrow> c \<notin> set (plan_chs 0x7d [] True True)
      | Some i \<Rightarrow> c \<in> set (plan_chs 0x7d [] True True) \<and> i < n \<and> cs ! i = plan_entry 0x7d 5 c" for c using spec by blast
  from this [of 52] this [of 149] have "rtw_chset_search_ch cs 52 \<noteq> None" "rtw_chset_search_ch cs 149 = None"
    using chs by (simp_all only: split: option.splits) blast+
  then show ?thesis using init n radar by blast
qed

text \<open>
  A beacon makes the scan of a channel above 11 active when no country is set, also on a channel with radar detection:
  the test for such a channel reads a field that the initialisation leaves cleared.
\<close>

lemma beacon_hint_on_radar_channel:
  assumes "rtw_is_channel_plan_valid p" and "init_channel_set_from_rtk_priv p excl_chs b2 b5 now cs0 = (n, cs)"
    and "ch \<in> set (plan_chs p excl_chs b2 b5)" and "ch > 11"
  shows "\<exists>i < n. rtw_chset_search_ch cs ch = Some i \<and> flags (cs ! i) = flags (plan_entry p now ch) \<and>
    rtw_process_beacon_hint False ch cs = cs[i := (plan_entry p now ch)\<lparr>ScanType := RTW_PHL_SCAN_ACTIVE\<rparr>]"
proof -
  obtain i where i: "rtw_chset_search_ch cs ch = Some i" using search_plan(2) [OF assms(1,2), of ch] assms(3) by auto
  have "cs ! i = plan_entry p now ch" "i < n" using search_plan(3) [OF assms(1,2) i] by auto
  moreover have "ScanType (plan_entry p now ch) = RTW_PHL_SCAN_PASSIVE" "\<not> dfs (plan_entry p now ch)"
    by (simp_all add: plan_entry_def)
  ultimately show ?thesis using i assms(4) by (auto simp: rtw_process_beacon_hint_def)
qed

text \<open>
  C39: Plans, blocks and channel settings. For a channel set made from a valid plan, and every channel and bandwidth for
  which the driver names an offset, except 160 MHz on channels 132 to 144: the setting is valid exactly when every channel
  of the block is in the set and may be used for initiating, where the caller may allow it otherwise for the channel itself
  and for the others; and for a 5 GHz channel radar detection is needed exactly when a channel of the block needs it.
\<close>

theorem plan_allows_block:
  assumes "rtw_is_channel_plan_valid p" and "init_channel_set_from_rtk_priv p excl_chs b2 b5 now cs0 = (n, cs)"
    and "ch \<in> set op_channels" and "bw \<le> CHANNEL_WIDTH_160" and "rtw_get_offset_by_chbw ch bw r = Some off"
    and "bw = CHANNEL_WIDTH_160 \<longrightarrow> ch \<notin> set no_160_block"
  shows "\<exists>blk. rtw_get_op_chs_by_cch_bw (rtw_get_center_ch ch bw off) bw = Some blk \<and> ch \<in> set blk \<and>
    (rtw_chset_is_chbw_valid cs ch bw off app ap \<longleftrightarrow>
      (\<forall>c \<in> set blk. c \<in> set (plan_chs p excl_chs b2 b5) \<and> (no_ir_ch p c \<longrightarrow> (if c = ch then app else ap)))) \<and>
    (ch > 14 \<longrightarrow> (rtw_chset_is_dfs_chbw cs ch bw off \<longleftrightarrow> (\<exists>c \<in> set blk. c \<in> set (plan_chs p excl_chs b2 b5) \<and> radar_ch p c)))"
proof -
  obtain blk where blk: "rtw_get_op_chs_by_cch_bw (rtw_get_center_ch ch bw off) bw = Some blk" "ch \<in> set blk"
    using block_of_channel [OF assms(3-6)] by blast
  note entries = search_plan(1) [OF assms(1,2)]
  have "rtw_chset_is_chbw_valid cs ch bw off app ap \<longleftrightarrow>
      (\<forall>c \<in> set blk. c \<in> set (plan_chs p excl_chs b2 b5) \<and> (no_ir_ch p c \<longrightarrow> (if c = ch then app else ap)))"
    using blk(2) unfolding rtw_chset_is_chbw_valid_def blk(1) op_ch_allowed_plan [OF assms(1,2)] option.case zip_list_all
    by (auto simp: list_all_iff)
  moreover have "rtw_chset_is_dfs_chbw cs ch bw off \<longleftrightarrow> (\<exists>c \<in> set blk. c \<in> set (plan_chs p excl_chs b2 b5) \<and> radar_ch p c)" if "ch > 14"
  proof -
    have ch: "ch \<in> set center_ch_5g_20m" using assms(3) bands(1) [of ch] that by (auto simp: op_channels_def)
    have "c \<in> set center_ch_5g_20m" if "c \<in> set (plan_chs p excl_chs b2 b5)" "radar_ch p c" for c
      using that(2) subsetD [OF plan_chs_op(1) [OF assms(1)] that(1)] bands(1) [of c] by (auto simp: op_channels_def radar_ch_def)
    then have "rtw_chset_is_dfs_chbw cs ch bw off \<longleftrightarrow>
        (\<exists>e \<in> set (chset_entries cs). bit (flags e) RTW_CHF_DFS \<and> ChannelNum e \<in> set blk)"
      by (intro dfs_chbw_block [OF ch assms(4) blk(1)]) (auto simp: entries plan_flags(2) [unfolded One_nat_def])
    then show ?thesis by (auto simp: entries plan_flags(2) [unfolded One_nat_def])
  qed
  ultimately show ?thesis using blk by blast
qed

theorem plan_allows_block_witness:
  "\<exists>n cs. init_channel_set_from_rtk_priv 0x7d [120] True True 5 [] = (n, cs) \<and>
    rtw_chset_is_chbw_valid cs 52 2 1 True True \<and> rtw_chset_is_dfs_chbw cs 52 2 1"
proof -
  obtain n cs where init: "init_channel_set_from_rtk_priv 0x7d [120] True True 5 [] = (n, cs)" by (metis prod.exhaust)
  have p: "rtw_is_channel_plan_valid 0x7d" by code_simp
  have ch: "52 \<in> set op_channels" "rtw_get_offset_by_chbw 52 2 0 = Some 1" "52 \<notin> set no_160_block" by code_simp+
  have blk: "rtw_get_op_chs_by_cch_bw (rtw_get_center_ch 52 2 1) 2 = Some [52, 56, 60, 64]" by code_simp
  have chs: "\<forall>c \<in> set [52, 56, 60, 64]. c \<in> set (plan_chs 0x7d [120] True True)" "radar_ch 0x7d 52" by code_simp+
  have "rtw_chset_is_chbw_valid cs 52 2 1 True True \<and> rtw_chset_is_dfs_chbw cs 52 2 1"
    using plan_allows_block [OF p init ch(1) _ ch(2), of True True] ch(3) chs unfolding blk by auto
  then show ?thesis using init by blast
qed

section \<open>Agreement of two settings\<close>

lemma sync_offset_spec:
  "cs_ch (sync_offset req g) = cs_ch req" "cs_bw (sync_offset req g) = cs_bw req \<or> cs_bw (sync_offset req g) = CHANNEL_WIDTH_20"
  "cs_bw g = CHANNEL_WIDTH_40 \<or> cs_bw g = CHANNEL_WIDTH_80 \<Longrightarrow> cs_offset (sync_offset req g) = cs_offset g"
  by (auto simp: sync_offset_def Let_def split: option.splits)

lemma sync_req:
  assumes "rtw_sync_chbw req g = (r, u)"
  shows "cs_ch r = cs_ch g" "cs_bw r \<le> cs_bw req"
    "cs_bw g = CHANNEL_WIDTH_40 \<or> cs_bw g = CHANNEL_WIDTH_80 \<Longrightarrow> cs_bw r = CHANNEL_WIDTH_40 \<or> cs_bw r = CHANNEL_WIDTH_80 \<Longrightarrow>
      cs_offset r = cs_offset g"
    "u = (if cs_bw r > cs_bw g then g\<lparr>cs_bw := cs_bw r, cs_offset := cs_offset r\<rparr> else g)"
proof -
  define q where "q = (let q = req\<lparr>cs_ch := cs_ch g\<rparr> in if cs_bw q = CHANNEL_WIDTH_80 \<and> cs_ch g \<le> 14 then q\<lparr>cs_bw := CHANNEL_WIDTH_40\<rparr> else q)"
  have q: "cs_ch q = cs_ch g" "cs_bw q \<le> cs_bw req" by (simp_all add: q_def Let_def)
  have r: "r = (if cs_bw q = CHANNEL_WIDTH_80 \<or> cs_bw q = CHANNEL_WIDTH_40 then sync_offset q g
      else if cs_bw q = CHANNEL_WIDTH_20 then q\<lparr>cs_offset := HAL_PRIME_CHNL_OFFSET_DONT_CARE\<rparr> else q)"
    and u: "u = (if cs_bw r > cs_bw g then g\<lparr>cs_bw := cs_bw r, cs_offset := cs_offset r\<rparr> else g)"
    using assms unfolding rtw_sync_chbw_def q_def Let_def by auto
  show "u = (if cs_bw r > cs_bw g then g\<lparr>cs_bw := cs_bw r, cs_offset := cs_offset r\<rparr> else g)" by (rule u)
  show "cs_ch r = cs_ch g" using q(1) by (simp add: r sync_offset_spec)
  show "cs_bw r \<le> cs_bw req" using q(2) sync_offset_spec(2) [of q g] by (auto simp: r)
  show "cs_offset r = cs_offset g" if "cs_bw g = CHANNEL_WIDTH_40 \<or> cs_bw g = CHANNEL_WIDTH_80" "cs_bw r = CHANNEL_WIDTH_40 \<or> cs_bw r = CHANNEL_WIDTH_80"
    using that sync_offset_spec(3) [OF that(1), of q] by (auto simp: r split: if_splits)
qed

lemma sync_grouped:
  assumes "rtw_sync_chbw req g = (r, u)"
  shows "rtw_is_chbw_grouped r u" "cs_ch u = cs_ch g" "cs_bw u = max (cs_bw g) (cs_bw r)"
  using sync_req [OF assms] by (auto simp: rtw_is_chbw_grouped_def)

lemma sync_loop_widest:
  assumes "chset_sync_loop ch_set app ap cur_bw req g = (r, u)"
  shows "\<exists>w \<le> cur_bw. rtw_sync_chbw (req\<lparr>cs_bw := w\<rparr>) g = (r, u) \<and>
    (rtw_chset_is_chbw_valid ch_set (cs_ch r) (cs_bw r) (cs_offset r) app ap \<or> w = CHANNEL_WIDTH_20) \<and>
    (\<forall>w'. w < w' \<and> w' \<le> cur_bw \<longrightarrow> (let q = fst (rtw_sync_chbw (req\<lparr>cs_bw := w'\<rparr>) g) in
      \<not> rtw_chset_is_chbw_valid ch_set (cs_ch q) (cs_bw q) (cs_offset q) app ap))"
  using assms
proof (induction ch_set app ap cur_bw req g rule: chset_sync_loop.induct)
  case (1 ch_set app ap cur_bw req g)
  obtain r' u' where sync: "rtw_sync_chbw (req\<lparr>cs_bw := cur_bw\<rparr>) g = (r', u')" by fastforce
  let ?ok = "\<lambda>q. rtw_chset_is_chbw_valid ch_set (cs_ch q) (cs_bw q) (cs_offset q) app ap"
  show ?case
  proof (cases "?ok r' \<or> cur_bw = CHANNEL_WIDTH_20")
    case True
    then have "(r, u) = (r', u')" using 1(2) sync by (subst (asm) chset_sync_loop.simps) (auto split: if_splits)
    then show ?thesis using True sync by (intro exI [of _ cur_bw]) auto
  next
    case False
    then have loop: "chset_sync_loop ch_set app ap (cur_bw - 1) req g = (r, u)"
      using 1(2) sync by (subst (asm) chset_sync_loop.simps) simp
    obtain w where w: "w \<le> cur_bw - 1" "rtw_sync_chbw (req\<lparr>cs_bw := w\<rparr>) g = (r, u)" "?ok r \<or> w = CHANNEL_WIDTH_20"
      "\<And>w'. w < w' \<Longrightarrow> w' \<le> cur_bw - 1 \<Longrightarrow> \<not> ?ok (fst (rtw_sync_chbw (req\<lparr>cs_bw := w'\<rparr>) g))"
      using 1(1) [OF sync [symmetric] refl _ _ loop] False unfolding Let_def by blast
    have step: "w' = cur_bw \<or> w' \<le> cur_bw - 1" if "w' \<le> cur_bw" for w' using that False by uint_arith
    have "\<not> ?ok (fst (rtw_sync_chbw (req\<lparr>cs_bw := w'\<rparr>) g))" if "w < w'" "w' \<le> cur_bw" for w'
      using step [OF that(2)] w(4) [OF that(1)] sync False by auto
    moreover have "w \<le> cur_bw" using w(1) False by uint_arith
    ultimately show ?thesis using w(2,3) unfolding Let_def by blast
  qed
qed

text \<open>
  C40: The agreement of two channel settings ends, with the request and the group on the channel of the group and in the same
  block when both are of 40 or 80 MHz; the request never gets wider and the group never narrower. The request is the one
  for the largest bandwidth whose setting the channel set allows, or one of 20 MHz.
\<close>

theorem chset_sync_widest:
  assumes "rtw_chset_sync_chbw ch_set req g app ap = (r, u)"
  shows "rtw_is_chbw_grouped r u \<and> cs_ch r = cs_ch g \<and> cs_ch u = cs_ch g \<and> cs_bw r \<le> cs_bw req \<and> cs_bw u = max (cs_bw g) (cs_bw r) \<and>
    (\<exists>w \<le> cs_bw req. rtw_sync_chbw (req\<lparr>cs_bw := w\<rparr>) g = (r, u) \<and>
      (rtw_chset_is_chbw_valid ch_set (cs_ch r) (cs_bw r) (cs_offset r) app ap \<or> cs_bw r = CHANNEL_WIDTH_20) \<and>
      (\<forall>w'. w < w' \<and> w' \<le> cs_bw req \<longrightarrow> (let q = fst (rtw_sync_chbw (req\<lparr>cs_bw := w'\<rparr>) g) in
        \<not> rtw_chset_is_chbw_valid ch_set (cs_ch q) (cs_bw q) (cs_offset q) app ap)))"
proof -
  obtain w where w: "w \<le> cs_bw req" "rtw_sync_chbw (req\<lparr>cs_bw := w\<rparr>) g = (r, u)"
    "rtw_chset_is_chbw_valid ch_set (cs_ch r) (cs_bw r) (cs_offset r) app ap \<or> w = CHANNEL_WIDTH_20"
    "\<forall>w'. w < w' \<and> w' \<le> cs_bw req \<longrightarrow> (let q = fst (rtw_sync_chbw (req\<lparr>cs_bw := w'\<rparr>) g) in
      \<not> rtw_chset_is_chbw_valid ch_set (cs_ch q) (cs_bw q) (cs_offset q) app ap)"
    using sync_loop_widest [OF assms [unfolded rtw_chset_sync_chbw_def]] by blast
  have "cs_bw r \<le> w" using sync_req(2) [OF w(2)] by simp
  then have "cs_bw r \<le> cs_bw req" "w = CHANNEL_WIDTH_20 \<Longrightarrow> cs_bw r = CHANNEL_WIDTH_20" using w(1) by auto
  then show ?thesis using w sync_grouped [OF w(2)] sync_req(1) [OF w(2)] by blast
qed

theorem chset_sync_widest_witness:
  "\<exists>r u. rtw_chset_sync_chbw (map (plan_entry 0x7d 0) (plan_chs 0x7d [48] True True))
      \<lparr>cs_ch = 44, cs_bw = 2, cs_offset = 1\<rparr> \<lparr>cs_ch = 36, cs_bw = 1, cs_offset = 1\<rparr> True True = (r, u) \<and>
    r = \<lparr>cs_ch = 36, cs_bw = 1, cs_offset = 1\<rparr> \<and> rtw_is_chbw_grouped r u \<and> cs_bw u = max 1 (cs_bw r)"
proof -
  have "rtw_chset_sync_chbw (map (plan_entry 0x7d 0) (plan_chs 0x7d [48] True True))
      \<lparr>cs_ch = 44, cs_bw = 2, cs_offset = 1\<rparr> \<lparr>cs_ch = 36, cs_bw = 1, cs_offset = 1\<rparr> True True =
    (\<lparr>cs_ch = 36, cs_bw = 1, cs_offset = 1\<rparr>, \<lparr>cs_ch = 36, cs_bw = 1, cs_offset = 1\<rparr>)"
    by code_simp
  from this chset_sync_widest [OF this] show ?thesis by auto
qed

end
