(* ===== verification/Spec2Isabelle.thy ===== *)
theory Spec2Isabelle
  imports Phl_Usb_Rx Phl_Usb_Pack Phl_Usb_Bufs Phl_Msg Phl_Dispr_Run Rtw_Tkip Rtw_Find Rtw_Chplan
begin

text \<open>
  Verification of the data path of a Realtek 88x2CU USB wireless driver.

  \<^bold>\<open>The program.\<close> The driver has three layers. The \<^emph>\<open>core\<close> (\<^verbatim>\<open>core/\<close>) speaks 802.11 with the network
  stack, the \<^emph>\<open>PHL\<close> (\<^verbatim>\<open>phl/\<close>) moves frames between the core and the bus and keeps the stations, and the
  hardware abstraction (\<^verbatim>\<open>hal/\<close>, \<^verbatim>\<open>phl/hal/\<close>) programs the chip. A received USB transfer is cut into
  packets, each packet goes through the reorder session of its station and TID into a ring the core
  reads, and the core hands it back to be recycled. A frame to be sent is put by the core on one of the
  TX rings of its station; the PHL plans in which order the bus serves the rings, and the bus layer packs
  requests into transmit buffers and submits them. Commands to the firmware travel in packets of a pool of
  their own. A station owns a
  macid, a set of TX rings and its block ack sessions. The core encrypts and decrypts frames itself when
  the hardware does not, and it reads and writes the information elements of management frames.

  \<^bold>\<open>Conventions.\<close> C integers are words of their width and wrap. A structure is a record with the fields
  that the modelled code uses. Shared objects (stations, packets, receive buffers) live in stores indexed
  by their identity; lists and tables refer to them by it. A section under a spin lock is one step, and a
  property about interleavings quantifies over sequences of steps. Status codes are values of
  \<open>rtw_phl_status\<close>. Calls into the HAL, the USB stack and the clock are arguments. Byte buffers are
  lists and pointers into them offsets, and an access outside gives \<open>None\<close> (\<open>Overrun\<close> where a search
  may also fail to end).

  \<^bold>\<open>The theories.\<close>

  \<^item> \<open>Phl_Prelude\<close>: integer types, status codes, list pointers, facts about words and lists.

  \<^item> \<open>Phl_Fifo\<close>: the contract of a FIFO and of a bounded FIFO between a producer and a consumer, as locales;
    what arbitrary interleavings deliver is proved there once. Queue and rings interpret it.

  \<^item> \<open>Phl_Queue\<close> (\<^verbatim>\<open>phl/phl_util.c\<close>): \<^verbatim>\<open>pq_push\<close>, \<^verbatim>\<open>pq_pop\<close>, \<^verbatim>\<open>pq_search_node\<close>, \<^verbatim>\<open>pq_del_node\<close>, \<^verbatim>\<open>pq_insert\<close>
    and their relatives, and the elapsed-time helpers. FIFO order, first hit of a search, sorted insertion.

  \<^item> \<open>Phl_Ring\<close> (\<^verbatim>\<open>phl/phl_tx.c\<close>, \<^verbatim>\<open>phl/phl_rx.c\<close>, \<^verbatim>\<open>phl/hci/phl_trx_usb.c\<close>): distances of ring indices, the
    RX ring and the TX rings. Both refine a FIFO of 4095 entries.

  \<^item> \<open>Phl_Reorder\<close> (\<^verbatim>\<open>phl/phl_rx.c\<close>): sequence arithmetic, the reorder ring of a block ack session, release
    in order, by time-out and by window jumps. The abstract view is a window; over any session frames are
    delivered in order, at most once, and none is lost. Two theorems show what goes wrong for a jump by half
    of the sequence space and for window sizes that do not divide 4096.

  \<^item> \<open>Phl_Stats\<close> (\<^verbatim>\<open>phl/phl_rx.c\<close>, \<^verbatim>\<open>phl/phl_tx.c\<close>): byte counters, throughput, traffic levels.

  \<^item> \<open>Phl_Macid\<close> (\<^verbatim>\<open>phl/phl_sta.c\<close>): the macid bitmaps, which implement sets (a locale with an
    interpretation on the word operations), allocation, release and the queries.

  \<^item> \<open>Phl_Tx\<close> (\<^verbatim>\<open>phl/phl_tx.c\<close>): ring sets of the stations, registration and deferred release, the pool of
    ring status objects, the plan of \<^verbatim>\<open>phl_check_xmit_ring_resource\<close> and \<^verbatim>\<open>phl_tx_flow_ctrl\<close>.

  \<^item> \<open>Phl_Sta\<close> (\<^verbatim>\<open>phl/phl_sta.c\<close>, \<^verbatim>\<open>phl/phl_role.c\<close>): station objects and role queues, allocation and release
    over macid, TX rings and HAL, lookup, media status. A well-formedness invariant holds on every branch;
    three theorems show error paths that leave the tables in a state the callers do not expect.

  \<^item> \<open>Phl_Rx\<close> (\<^verbatim>\<open>phl/phl_rx.c\<close>, \<^verbatim>\<open>phl/phl_rx_agg.c\<close>): the packet pool, the path of a packet through its session
    to the core ring, recycling, time-outs, block ack requests, start and stop of sessions. Under every
    interleaving each of the packet objects is in exactly one place.

  \<^item> \<open>Phl_Usb_Rx\<close> (\<^verbatim>\<open>phl/hci/phl_trx_usb.c\<close>): receive buffers, bulk-in requests and completions, cutting of
    transfers into packets, the receive handler. Buffers and their reference counts are conserved, and the
    handler ends and takes up every pending transfer whatever the transfers contain.

  \<^item> \<open>Phl_H2c\<close> (\<^verbatim>\<open>phl/phl_tx.c\<close>): the pool of command packets. In every order of use each packet is on one list
    or in one hand, and it is handed out empty and large enough for its type.

  \<^item> \<open>Phl_Usb_Tx\<close> (\<^verbatim>\<open>phl/hci/phl_trx_usb.c\<close>): the transmit buffers, look-ahead and packing of a ring into a
    buffer, submission, completion, the transmit handler over the plan of \<open>Phl_Tx\<close>. \<open>Phl_Usb_Pack\<close> shows what
    the packing loop puts into a buffer and that a buffer smaller than the checked size is overrun;
    \<open>Phl_Usb_Bufs\<close> shows that the buffers are conserved over runs of the handler and finished transfers.

  \<^item> \<open>Phl_Msg\<close> (\<^verbatim>\<open>phl/phl_msg_hub.c\<close>): the message hub between modules and the two receivers. Messages are
    conserved and handled once and in order under every interleaving, masks are sets of module ids (the
    interface of \<open>Phl_Macid\<close> again), stopping drains the hub unless a sender still holds a message, and
    messages of foreground modules make it read behind a mask.

  \<^item> \<open>Phl_Dispr\<close>, \<open>Phl_Dispr_Inv\<close>, \<open>Phl_Dispr_Run\<close> (\<^verbatim>\<open>phl/phl_cmd_dispatcher.c\<close>): the command dispatcher. Background modules in
    three priorities, a pool of messages that one thread gives to them in two phases, and a pool of requests that wait for one
    token. The first theory has the code, the second an invariant that every operation keeps, the third whole runs. The calls
    of modules and requests are driven by a script that is arbitrary; in every run messages and requests are conserved, a
    completion routine is called once, there is one holder of the token, no wake-up is lost and a stopped dispatcher ends.

  \<^item> \<open>Rtw_Mem\<close>: byte buffers.

  \<^item> \<open>Rtw_Wep\<close>, \<open>Rtw_Tkip\<close> (\<^verbatim>\<open>core/rtw_security.c\<close>): RC4, the CRC-32 with its table, WEP frames, Michael, the
    TKIP key mixing, TKIP frames. Table-driven CRC and byte-wise Michael equal their reference
    definitions, encryption and decryption are inverse, the key mixing never repeats an RC4 key for a
    temporal key; WEP decryption does not check the integrity value.

  \<^item> \<open>Rtw_Ie\<close>, \<open>Rtw_Rsn\<close> (\<^verbatim>\<open>core/rtw_ieee80211.c\<close>): writing, finding and removing elements; the parsers of the
    WPA and RSN elements; the search for a WPS attribute. Removal is a filter, what is written is found,
    the parsers stay inside of the element on every input, complete elements are read completely, and
    the attribute search ends on complete attributes and hangs on a crafted one.

  \<^item> \<open>Rtw_Elems\<close>, \<open>Rtw_Find\<close> (\<^verbatim>\<open>core/rtw_ieee80211.c\<close>): the parser of all elements of a frame, which stays inside and
    is exact on every buffer; the searches for WPS, OWE, WFD, WPA, RSN and WAPI elements (the first ones over a
    locale for the test of an element), which find the first or the last element of their kind in whole elements;
    the removal of WFD elements from a scan result. The older searches do not check the end of the last element.

  \<^item> \<open>Rtw_Rf\<close> (\<^verbatim>\<open>core/rtw_rf.c\<close>, \<^verbatim>\<open>phl/phl_chan.c\<close>): the tables of center channels, blocks of channels and operating
    classes, offsets and frequencies. The tables and the functions on them fit together for every channel and
    bandwidth, and operating classes lead back to what they were found for; the PHL finds no class for 40 MHz with
    the secondary channel below.

  \<^item> \<open>Rtw_Chplan\<close> (\<^verbatim>\<open>core/rtw_chplan.c\<close>, \<^verbatim>\<open>core/rtw_mlme_ext.c\<close>, \<^verbatim>\<open>core/rtw_ieee80211.c\<close>): the tables of channel lists, plans
    and countries, the channel set and the questions asked of it, the agreement of two channel settings. The channel set is
    that of the plan; over the tables of \<open>Rtw_Rf\<close> a setting is allowed, or needs radar detection, as its channels are or do;
    two settings agree on the largest bandwidth that is allowed; every country has a usable plan.

  \<^bold>\<open>Loops and bounds.\<close> Loops are recursive functions with termination proofs. The loop of the WPS
  attribute search need not end and runs on fuel; more fuel than there are attributes is enough, and
  the theorem about the loop that hangs holds for every amount of fuel. The loops of the dispatcher that call
  other code, or wait until all messages are idle, are partial functions: \<open>None\<close> is a loop that does not end. That the
  thread of a stopped dispatcher ends is proved; that a running one returns depends on what is called. Element and buffer lengths are
  naturals below the 32-bit range.

  \<^bold>\<open>Not modelled.\<close> Packet offload, the engine above the command dispatchers and the information calls of modules,
  channel, role and multi-role management, the PHL state machines for power save, scanning and recovery
  (sequences of firmware commands), the HAL with its register tables and firmware images, the MLME, access
  point, the builders of single elements, P2P, TDLS, mesh and measurement code of the core, its frame handling on kernel socket buffers, the
  vendored AES code, and the kernel interfaces. Code that is compiled out, such as the end of
  \<^verbatim>\<open>phl/phl_tx.c\<close> and most of \<^verbatim>\<open>phl/phl_pkt_ofld.c\<close>, and files that the build leaves out, such as
  \<^verbatim>\<open>phl/phl_regulation.c\<close> and \<^verbatim>\<open>phl/phl_fsm.c\<close>, are not modelled.
\<close>

end
